(* ===== verification/Prelude.thy ===== *)
theory Prelude
  imports Main "HOL-Library.Word" "HOL-Library.Sublist"
begin

unbundle bit_operations_syntax

text \<open>
  Shared vocabulary of the development: Go's fixed-width integers and byte slices, the
  two-way result type of a fallible Go call, checked slice access, and the list and word
  facts that several components use.

  A Go call that returns \<open>(v, err)\<close> is modelled by a value of \<open>'e + 'a\<close>: \<open>Inl e\<close> is a
  returned error or a run-time panic, \<open>Inr v\<close> the value of a call whose error is nil.
\<close>

section \<open>Machine types\<close>

type_synonym byte = "8 word"
type_synonym bytes = "byte list"
type_synonym u16 = "16 word"
type_synonym u64 = "64 word"

text \<open>Go's \<open>int\<close> and \<open>int64\<close> are the two's complement readings of 64-bit words.  Where a
  computation can leave that range the model wraps with \<open>wrap64\<close>.\<close>

definition wrap64 :: "int \<Rightarrow> int" where
  "wrap64 x = sint (word_of_int x :: u64)"

text \<open>Go's \<open>/\<close> and \<open>%\<close> on signed integers truncate towards zero.\<close>

definition go_div :: "int \<Rightarrow> int \<Rightarrow> int" where
  "go_div a b = sgn a * sgn b * (\<bar>a\<bar> div \<bar>b\<bar>)"

definition go_mod :: "int \<Rightarrow> int \<Rightarrow> int" where
  "go_mod a b = sgn a * (\<bar>a\<bar> mod \<bar>b\<bar>)"

section \<open>Lemma collections\<close>

named_theorems go_arith \<open>Go integer arithmetic on the ranges where it agrees with HOL's\<close>
named_theorems byte_simps \<open>facts about bytes, nibbles and their big-endian readings\<close>

section \<open>Results\<close>

definition bind_result :: "'e + 'a \<Rightarrow> ('a \<Rightarrow> 'e + 'b) \<Rightarrow> 'e + 'b" where
  "bind_result r f = (case r of Inl e \<Rightarrow> Inl e | Inr a \<Rightarrow> f a)"

lemma bind_result_simps [simp]:
  "bind_result (Inl e) f = Inl e"
  "bind_result (Inr a) f = f a"
  by (simp_all add: bind_result_def)

lemma bind_result_cong [fundef_cong]:
  assumes "r = r'" and "\<And>a. r' = Inr a \<Longrightarrow> f a = f' a"
  shows "bind_result r f = bind_result r' f'"
  using assms by (cases r') auto

lemma bind_result_eq_Inr:
  "bind_result r f = Inr b \<longleftrightarrow> (\<exists>a. r = Inr a \<and> f a = Inr b)"
  by (cases r) auto

lemma bind_result_eq_Inl:
  "bind_result r f = Inl e \<longleftrightarrow> r = Inl e \<or> (\<exists>a. r = Inr a \<and> f a = Inl e)"
  by (cases r) auto

lemma bind_InrE:
  assumes "bind_result r f = Inr b"
  obtains a where "r = Inr a" and "f a = Inr b"
  using assms by (auto simp: bind_result_eq_Inr)

text \<open>Calls that also change a state return the result with the new state: what was done
  before an error stays done.\<close>

definition bind_sr :: "('e + 'a) \<times> 's \<Rightarrow> ('a \<Rightarrow> 's \<Rightarrow> ('e + 'b) \<times> 's) \<Rightarrow> ('e + 'b) \<times> 's" where
  "bind_sr m f = (case m of (Inl e, s) \<Rightarrow> (Inl e, s) | (Inr a, s) \<Rightarrow> f a s)"

lemma bind_sr_simps [simp]:
  "bind_sr (Inl e, s) f = (Inl e, s)"
  "bind_sr (Inr a, s) f = f a s"
  by (simp_all add: bind_sr_def)

lemma bind_sr_cong [fundef_cong]:
  assumes "m = m'" and "\<And>a s. m' = (Inr a, s) \<Longrightarrow> f a s = f' a s"
  shows "bind_sr m f = bind_sr m' f'"
  using assms by (cases m'; cases "fst m'") auto

lemma bind_sr_InrE:
  assumes "bind_sr m f = (Inr b, s')"
  obtains a s where "m = (Inr a, s)" and "f a s = (Inr b, s')"
  using assms by (cases m; cases "fst m") auto

section \<open>Bytes\<close>

lemma unat_byte_less: "unat (b :: byte) < 256"
proof -
  have "unat b < 2 ^ LENGTH(8)" by (rule unsigned_less)
  then show ?thesis by simp
qed

lemma unat_u64_less: "unat (w :: u64) < 2 ^ 64"
proof -
  have "unat w < 2 ^ LENGTH(64)" by (rule unsigned_less)
  then show ?thesis by simp
qed

lemma unat_drop_bit_div: "unat (drop_bit n (w :: 'a::len word)) = unat w div 2 ^ n"
  by (simp add: unat_drop_bit_eq flip: drop_bit_eq_div)

lemma unat_push_bit_1: "n < 64 \<Longrightarrow> unat (push_bit n (1 :: u64)) = 2 ^ n"
proof -
  assume "n < 64"
  then have "(2 :: nat) ^ n < 2 ^ 64" by (intro power_strict_increasing) auto
  then show ?thesis
    by (simp only: unsigned_push_bit_eq) (simp add: push_bit_eq_mult take_bit_eq_mod)
qed

lemma less_push_bit_1: "n < 64 \<Longrightarrow> i < push_bit n (1 :: u64) \<longleftrightarrow> unat i < 2 ^ n"
  by (simp only: word_less_nat_alt unat_push_bit_1)

lemma unat_ucast_byte: "unat (ucast (w :: u64) :: byte) = unat w mod 256"
  by (simp add: unsigned_ucast_eq take_bit_eq_mod)

lemma unat_of_nat_byte: "unat (word_of_nat n :: byte) = n mod 256"
  by (simp add: unat_of_nat take_bit_eq_mod)

lemma ucast_eq_of_nat: "(ucast (w :: u64) :: byte) = word_of_nat (unat w)"
  by (simp add: word_unat_eq_iff unat_ucast_byte unat_of_nat_byte)

text \<open>The number a byte string denotes in big-endian order.\<close>

definition be_nat :: "bytes \<Rightarrow> nat" where
  "be_nat bs = foldl (\<lambda>n b. n * 256 + unat b) 0 bs"

text \<open>Minimal big-endian bytes of a number, as \<open>big.Int.Bytes\<close> returns them.\<close>

fun nat_bytes :: "nat \<Rightarrow> bytes" where
  "nat_bytes n = (if n = 0 then [] else nat_bytes (n div 256) @ [word_of_nat n])"

declare nat_bytes.simps [simp del]

lemma be_nat_snoc [simp]: "be_nat (bs @ [b]) = be_nat bs * 256 + unat b"
  by (simp add: be_nat_def)

lemma be_nat_Nil [simp]: "be_nat [] = 0"
  by (simp add: be_nat_def)

lemma be_nat_less: "be_nat bs < 256 ^ length bs"
proof (induction bs rule: rev_induct)
  case Nil
  then show ?case by simp
next
  case (snoc b bs)
  then have "be_nat bs * 256 + unat b < Suc (be_nat bs) * 256"
    using unat_byte_less [of b] by simp
  also have "\<dots> \<le> 256 ^ length bs * 256"
    using snoc by (intro mult_right_mono) auto
  finally show ?case by simp
qed

lemma be_nat_Cons: "be_nat (b # bs) = unat b * 256 ^ length bs + be_nat bs"
proof (induction bs rule: rev_induct)
  case Nil
  then show ?case by (simp add: be_nat_def)
next
  case (snoc c bs)
  have "be_nat (b # bs @ [c]) = be_nat ((b # bs) @ [c])" by simp
  also have "\<dots> = be_nat (b # bs) * 256 + unat c" by (rule be_nat_snoc)
  finally show ?case using snoc by (simp add: algebra_simps)
qed

lemma be_nat_inj:
  assumes "length xs = length ys" and "be_nat xs = be_nat ys"
  shows "xs = ys"
  using assms
proof (induction xs arbitrary: ys rule: rev_induct)
  case Nil
  then show ?case by simp
next
  case (snoc x xs)
  then obtain y zs where ys: "ys = zs @ [y]" by (cases ys rule: rev_cases) auto
  from snoc.prems ys have eq: "be_nat xs * 256 + unat x = be_nat zs * 256 + unat y" by simp
  then have "(be_nat xs * 256 + unat x) mod 256 = (be_nat zs * 256 + unat y) mod 256" by simp
  then have u: "unat x = unat y" using unat_byte_less [of x] unat_byte_less [of y] by simp
  with eq have "be_nat xs = be_nat zs" by simp
  with snoc ys have "xs = zs" by simp
  with u ys show ?case by (simp add: word_unat_eq_iff)
qed

lemma be_nat_ge:
  assumes "bs \<noteq> []" and "hd bs \<noteq> 0"
  shows "256 ^ (length bs - 1) \<le> be_nat bs"
proof -
  obtain b r where bs: "bs = b # r" using assms(1) by (cases bs) auto
  have "1 \<le> unat b" using assms(2) bs by (simp add: unat_gt_0 Suc_le_eq)
  then have "1 * 256 ^ length r \<le> unat b * 256 ^ length r" by (rule mult_right_mono) simp
  then have "256 ^ length r \<le> unat b * 256 ^ length r + be_nat r" by linarith
  then show ?thesis by (simp add: bs be_nat_Cons)
qed

text \<open>A byte string without leading zeros is determined by its number.\<close>

lemma be_nat_canonical:
  assumes "xs \<noteq> []" "hd xs \<noteq> 0" "ys \<noteq> []" "hd ys \<noteq> 0" and "be_nat xs = be_nat ys"
  shows "xs = ys"
proof -
  have aux: "length as \<le> length bs"
    if "as \<noteq> []" "hd as \<noteq> 0" "be_nat as = be_nat bs" for as bs
  proof -
    have "256 ^ (length as - 1) < (256 :: nat) ^ length bs"
      using be_nat_ge [OF that(1,2)] be_nat_less [of bs] unfolding that(3) by (rule le_less_trans)
    then have "length as - 1 < length bs" by (rule power_less_imp_less_exp [rotated]) simp
    with that(1) show ?thesis by (cases as) auto
  qed
  from aux [OF assms(1,2,5)] aux [OF assms(3,4) assms(5) [symmetric]]
  have "length xs = length ys" by simp
  then show ?thesis using assms(5) by (rule be_nat_inj)
qed

lemma be_nat_nat_bytes [simp]: "be_nat (nat_bytes n) = n"
proof (induction n rule: nat_bytes.induct)
  case (1 n)
  then show ?case
    by (subst nat_bytes.simps) (simp add: unat_of_nat take_bit_eq_mod)
qed

lemma nat_bytes_Nil [simp]: "nat_bytes n = [] \<longleftrightarrow> n = 0"
  by (subst nat_bytes.simps) simp

lemma hd_nat_bytes: "n \<noteq> 0 \<Longrightarrow> hd (nat_bytes n) \<noteq> 0"
proof (induction n rule: nat_bytes.induct)
  case (1 n)
  show ?case
  proof (cases "n div 256 = 0")
    case True
    then have "n < 256" by (simp add: div_eq_0_iff)
    have "nat_bytes n = [word_of_nat n]"
      using True 1(2) by (subst nat_bytes.simps) (simp add: nat_bytes.simps [of 0])
    moreover have "unat (word_of_nat n :: byte) = n"
      using \<open>n < 256\<close> by (simp add: unat_of_nat take_bit_eq_mod)
    ultimately show ?thesis using 1(2) by (metis list.sel(1) unat_0)
  next
    case False
    with 1 have "hd (nat_bytes (n div 256)) \<noteq> 0" by simp
    with False 1(2) show ?thesis by (subst nat_bytes.simps) simp
  qed
qed

lemma length_nat_bytes_le: "n < 256 ^ k \<Longrightarrow> length (nat_bytes n) \<le> k"
proof -
  assume n: "n < 256 ^ k"
  show ?thesis
  proof (cases "n = 0")
    case False
    then have "256 ^ (length (nat_bytes n) - 1) \<le> n"
      using be_nat_ge [of "nat_bytes n"] hd_nat_bytes by simp
    from this n have "256 ^ (length (nat_bytes n) - 1) < (256 :: nat) ^ k" by (rule le_less_trans)
    then have "length (nat_bytes n) - 1 < k" by (rule power_less_imp_less_exp [rotated]) simp
    then show ?thesis by simp
  qed (simp add: nat_bytes.simps)
qed

lemma nat_bytes_be_nat:
  assumes "bs = [] \<or> hd bs \<noteq> 0"
  shows "nat_bytes (be_nat bs) = bs"
proof (cases "bs = []")
  case False
  with assms have hd: "hd bs \<noteq> 0" by simp
  have "be_nat bs \<noteq> 0" using be_nat_ge [OF False hd] by (metis not_le zero_less_power zero_less_numeral)
  then show ?thesis
    using False hd by (intro be_nat_canonical) (auto simp: hd_nat_bytes)
qed (simp add: nat_bytes.simps)

section \<open>Go arithmetic\<close>

lemma go_div_nonneg [go_arith]: "0 \<le> a \<Longrightarrow> 0 < b \<Longrightarrow> go_div a b = a div b"
  by (cases "a = 0") (simp_all add: go_div_def)

lemma go_mod_nonneg [go_arith]: "0 \<le> a \<Longrightarrow> 0 < b \<Longrightarrow> go_mod a b = a mod b"
  by (cases "a = 0") (simp_all add: go_mod_def)

lemma go_div_mod: "b \<noteq> 0 \<Longrightarrow> go_div a b * b + go_mod a b = a"
proof -
  assume b: "b \<noteq> 0"
  have "go_div a b * b + go_mod a b = sgn a * ((\<bar>a\<bar> div \<bar>b\<bar>) * (sgn b * b) + \<bar>a\<bar> mod \<bar>b\<bar>)"
    by (simp add: go_div_def go_mod_def algebra_simps)
  also have "sgn b * b = \<bar>b\<bar>" by (simp add: abs_sgn)
  also have "(\<bar>a\<bar> div \<bar>b\<bar>) * \<bar>b\<bar> + \<bar>a\<bar> mod \<bar>b\<bar> = \<bar>a\<bar>" by simp
  also have "sgn a * \<bar>a\<bar> = a" by (simp add: sgn_mult_abs)
  finally show ?thesis .
qed

lemma wrap64_id [go_arith]: "- (2 ^ 63) \<le> x \<Longrightarrow> x < 2 ^ 63 \<Longrightarrow> wrap64 x = x"
  unfolding wrap64_def by (simp add: sint_word_ariths signed_of_int signed_take_bit_int_eq_self)

lemma wrap64_range: "- (2 ^ 63) \<le> wrap64 x \<and> wrap64 x < 2 ^ 63"
  unfolding wrap64_def using sint_greater_eq [of "word_of_int x :: u64"] sint_less [of "word_of_int x :: u64"]
  by simp

end
