(* ===== verification/Rlp_Encode.thy ===== *)
theory Rlp_Encode
  imports Prelude
begin

unbundle bit_operations_syntax

text \<open>
  The RLP encoder (\<open>src/rlp/encode.go\<close>).  \<open>putint\<close>, \<open>intsize\<close>, \<open>headsize\<close> and \<open>puthead\<close> are the
  size headers; \<open>encbuf\<close> is the encoder's buffer, which keeps string data and list headers
  apart and merges them only in \<open>toBytes\<close>; \<open>write_val\<close> is the writer that the type cache
  selects for a value.  The reference encoding is \<open>rlp_encode\<close>, by recursion on an RLP item;
  \<open>EncodeToBytes_correct\<close> relates the two.
\<close>

section \<open>Integers and headers\<close>

text \<open>\<open>putint(b, i)\<close> writes into \<open>b\<close> and returns how much; the model returns what is written.\<close>

definition putint :: "u64 \<Rightarrow> bytes" where
  "putint i =
     (if i < push_bit 8 1 then [ucast i]
      else if i < push_bit 16 1 then [ucast (drop_bit 8 i), ucast i]
      else if i < push_bit 24 1 then [ucast (drop_bit 16 i), ucast (drop_bit 8 i), ucast i]
      else if i < push_bit 32 1 then
        [ucast (drop_bit 24 i), ucast (drop_bit 16 i), ucast (drop_bit 8 i), ucast i]
      else if i < push_bit 40 1 then
        [ucast (drop_bit 32 i), ucast (drop_bit 24 i), ucast (drop_bit 16 i), ucast (drop_bit 8 i),
         ucast i]
      else if i < push_bit 48 1 then
        [ucast (drop_bit 40 i), ucast (drop_bit 32 i), ucast (drop_bit 24 i), ucast (drop_bit 16 i),
         ucast (drop_bit 8 i), ucast i]
      else if i < push_bit 56 1 then
        [ucast (drop_bit 48 i), ucast (drop_bit 40 i), ucast (drop_bit 32 i), ucast (drop_bit 24 i),
         ucast (drop_bit 16 i), ucast (drop_bit 8 i), ucast i]
      else
        [ucast (drop_bit 56 i), ucast (drop_bit 48 i), ucast (drop_bit 40 i), ucast (drop_bit 32 i),
         ucast (drop_bit 24 i), ucast (drop_bit 16 i), ucast (drop_bit 8 i), ucast i])"

lemma unat_drop_bit8_less: "drop_bit 8 (i :: u64) \<noteq> 0 \<Longrightarrow> unat (drop_bit 8 i) < unat i"
proof -
  assume "drop_bit 8 i \<noteq> 0"
  then have "i \<noteq> 0" by auto
  then have "0 < unat i" by (simp add: unat_gt_0)
  then show ?thesis by (simp only: unat_drop_bit_div) simp
qed

function intsize_from :: "nat \<Rightarrow> u64 \<Rightarrow> nat" where
  "intsize_from sz i =
     (let i' = drop_bit 8 i in if i' = 0 then sz else intsize_from (Suc sz) i')"
  by pat_completeness auto
termination
  by (relation "measure (\<lambda>(_, i). unat i)") (auto simp: unat_drop_bit8_less)

declare intsize_from.simps [simp del]

definition intsize :: "u64 \<Rightarrow> nat" where
  "intsize i = intsize_from 1 i"

definition headsize :: "u64 \<Rightarrow> nat" where
  "headsize sz = (if sz < 56 then 1 else 1 + intsize sz)"

definition puthead :: "byte \<Rightarrow> byte \<Rightarrow> u64 \<Rightarrow> bytes" where
  "puthead smalltag largetag sz =
     (if sz < 56 then [smalltag + ucast sz]
      else (largetag + word_of_nat (length (putint sz))) # putint sz)"

definition ListSize :: "u64 \<Rightarrow> u64" where
  "ListSize contentSize = word_of_nat (headsize contentSize) + contentSize"

text \<open>The low \<open>k\<close> base-256 digits of a number, most significant first.\<close>

definition be_digits :: "nat \<Rightarrow> nat \<Rightarrow> bytes" where
  "be_digits k u = map (\<lambda>j. word_of_nat (u div 256 ^ j)) (rev [0..<k])"

lemma length_be_digits [simp]: "length (be_digits k u) = k"
  by (simp add: be_digits_def)

lemma be_nat_be_digits: "be_nat (be_digits k u) = u mod 256 ^ k"
proof (induction k)
  case 0
  then show ?case by (simp add: be_digits_def)
next
  case (Suc k)
  have "be_nat (be_digits (Suc k) u) = (u div 256 ^ k mod 256) * 256 ^ k + be_nat (be_digits k u)"
    by (simp add: be_digits_def be_nat_Cons unat_of_nat take_bit_eq_mod)
  also have "\<dots> = 256 ^ k * (u div 256 ^ k mod 256) + u mod 256 ^ k"
    using Suc by (simp add: mult.commute)
  also have "\<dots> = u mod 256 ^ Suc k"
    unfolding power_Suc2 by (rule mod_mult2_eq [symmetric])
  finally show ?case .
qed

lemma ucast_drop_bit: "(ucast (drop_bit n (i :: u64)) :: byte) = word_of_nat (unat i div 2 ^ n)"
  by (simp only: ucast_eq_of_nat unat_drop_bit_div)

lemma be_digits_unfold:
  "be_digits 0 u = []"
  "be_digits (Suc k) u = word_of_nat (u div 2 ^ (8 * k)) # be_digits k u"
  by (simp_all add: be_digits_def power_mult)

text \<open>\<open>putint\<close> writes exactly the digits its argument needs.\<close>

lemma putint_be_digits:
  "putint i =
     (if unat i < 2 ^ 8 then be_digits 1 (unat i)
      else if unat i < 2 ^ 16 then be_digits 2 (unat i)
      else if unat i < 2 ^ 24 then be_digits 3 (unat i)
      else if unat i < 2 ^ 32 then be_digits 4 (unat i)
      else if unat i < 2 ^ 40 then be_digits 5 (unat i)
      else if unat i < 2 ^ 48 then be_digits 6 (unat i)
      else if unat i < 2 ^ 56 then be_digits 7 (unat i)
      else be_digits 8 (unat i))"
proof -
  have step: "be_digits k' (unat i) = ucast (drop_bit m i) # be_digits k (unat i)"
    if "k' = Suc k" and "m = 8 * k" for k k' m
    using that by (simp only: be_digits_unfold ucast_drop_bit)
  have digs:
    "be_digits 2 (unat i) = ucast (drop_bit 8 i) # be_digits 1 (unat i)"
    "be_digits 3 (unat i) = ucast (drop_bit 16 i) # be_digits 2 (unat i)"
    "be_digits 4 (unat i) = ucast (drop_bit 24 i) # be_digits 3 (unat i)"
    "be_digits 5 (unat i) = ucast (drop_bit 32 i) # be_digits 4 (unat i)"
    "be_digits 6 (unat i) = ucast (drop_bit 40 i) # be_digits 5 (unat i)"
    "be_digits 7 (unat i) = ucast (drop_bit 48 i) # be_digits 6 (unat i)"
    "be_digits 8 (unat i) = ucast (drop_bit 56 i) # be_digits 7 (unat i)"
    by (rule step; simp)+
  have dig1: "be_digits 1 (unat i) = [ucast i]"
    by (simp add: be_digits_def)
  have cmp: "(i < push_bit 8 1) = (unat i < 2 ^ 8)" "(i < push_bit 16 1) = (unat i < 2 ^ 16)"
    "(i < push_bit 24 1) = (unat i < 2 ^ 24)" "(i < push_bit 32 1) = (unat i < 2 ^ 32)"
    "(i < push_bit 40 1) = (unat i < 2 ^ 40)" "(i < push_bit 48 1) = (unat i < 2 ^ 48)"
    "(i < push_bit 56 1) = (unat i < 2 ^ 56)"
    by (rule less_push_bit_1; simp)+
  show ?thesis
    unfolding putint_def digs dig1 cmp by (rule refl)
qed

lemma putint_cases:
  obtains k where "putint i = be_digits k (unat i)" and "0 < k" and "k \<le> 8"
    and "unat i < 256 ^ k" and "1 < k \<Longrightarrow> 256 ^ (k - 1) \<le> unat i"
proof -
  note that' = that [of 1] that [of 2] that [of 3] that [of 4] that [of 5] that [of 6] that [of 7]
    that [of 8]
  show thesis
    using putint_be_digits [of i] unat_u64_less [of i] that'
    by (auto split: if_splits)
qed

lemma be_nat_putint [simp]: "be_nat (putint i) = unat i"
  by (rule putint_cases [of i]) (simp add: be_nat_be_digits)

lemma length_putint: "0 < length (putint i)" "length (putint i) \<le> 8"
  by (rule putint_cases [of i]; simp)+

lemma putint_Nil [simp]: "putint i \<noteq> []"
  using length_putint(1) [of i] by auto

lemma hd_putint: "i \<noteq> 0 \<Longrightarrow> hd (putint i) \<noteq> 0"
proof (rule putint_cases [of i])
  fix k
  assume nz: "i \<noteq> 0" and eq: "putint i = be_digits k (unat i)" and k: "0 < k" "unat i < 256 ^ k"
    and ge: "1 < k \<Longrightarrow> 256 ^ (k - 1) \<le> unat i"
  obtain m where m: "k = Suc m" using k(1) by (cases k) auto
  have ge': "256 ^ m \<le> unat i" using ge nz m by (cases m) (auto simp: Suc_le_eq unat_gt_0)
  have lt: "unat i < 256 * 256 ^ m" using k(2) m by simp
  have "unat i div 256 ^ m < 256" using lt by (simp add: less_mult_imp_div_less)
  moreover have "0 < unat i div 256 ^ m" using ge' by (simp add: div_greater_zero_iff)
  ultimately have "unat (word_of_nat (unat i div 256 ^ m) :: byte) \<noteq> 0"
    by (simp add: unat_of_nat_byte)
  then show ?thesis by (auto simp: eq m be_digits_def)
qed

lemma putint_eq_nat_bytes: "i \<noteq> 0 \<Longrightarrow> putint i = nat_bytes (unat i)"
  by (rule be_nat_canonical) (auto simp: hd_putint hd_nat_bytes unat_gt_0)

text \<open>\<open>intsize\<close> counts the bytes \<open>putint\<close> writes.\<close>

lemma intsize_from_eq: "intsize_from s i = s - 1 + (if i = 0 then 1 else length (nat_bytes (unat i)))"
  if "0 < s"
  using that
proof (induction s i rule: intsize_from.induct)
  case (1 s i)
  let ?i' = "drop_bit 8 i"
  have u: "unat ?i' = unat i div 256" by (simp only: unat_drop_bit_div) simp
  have z: "?i' = 0 \<longleftrightarrow> unat i div 256 = 0" using u by (metis unat_eq_zero)
  have nb: "length (nat_bytes (unat i)) = Suc (length (nat_bytes (unat i div 256)))" if "i \<noteq> 0"
    using that by (subst nat_bytes.simps) (simp add: unat_gt_0)
  show ?case
  proof (cases "?i' = 0")
    case True
    then have "unat i div 256 = 0" using z by simp
    moreover have "intsize_from s i = s"
      by (subst intsize_from.simps) (simp only: Let_def True simp_thms if_True)
    ultimately show ?thesis using nb 1(2) by (auto simp: nat_bytes.simps [of 0])
  next
    case False
    then have "i \<noteq> 0" by auto
    have "intsize_from s i = intsize_from (Suc s) ?i'"
      by (subst intsize_from.simps) (simp only: Let_def False simp_thms if_False)
    also have "\<dots> = s + length (nat_bytes (unat i div 256))"
      using 1(1) [OF refl False] False u by simp
    finally show ?thesis using nb [OF \<open>i \<noteq> 0\<close>] \<open>i \<noteq> 0\<close> 1(2) by simp
  qed
qed

lemma intsize_putint: "intsize i = length (putint i)"
proof (cases "i = 0")
  case True
  then show ?thesis by (simp add: intsize_def intsize_from_eq putint_def)
next
  case False
  then show ?thesis by (simp add: intsize_def intsize_from_eq putint_eq_nat_bytes)
qed

lemma headsize_puthead: "headsize sz = length (puthead st lt sz)"
  by (simp add: headsize_def puthead_def intsize_putint)

section \<open>The encoder buffer\<close>

record listhead =
  lh_offset :: nat
  lh_size :: nat

record encbuf =
  eb_str :: bytes
  eb_lheads :: "listhead list"
  eb_lhsize :: nat

definition empty_encbuf :: encbuf where
  "empty_encbuf = \<lparr>eb_str = [], eb_lheads = [], eb_lhsize = 0\<rparr>"

definition listhead_encode :: "listhead \<Rightarrow> bytes" where
  "listhead_encode h = puthead 0xC0 0xF7 (word_of_nat (lh_size h))"

definition encodeStringHeader :: "nat \<Rightarrow> encbuf \<Rightarrow> encbuf" where
  "encodeStringHeader sz w =
     (if sz < 56 then w\<lparr>eb_str := eb_str w @ [0x80 + word_of_nat sz]\<rparr>
      else let sizebuf = putint (word_of_nat sz)
           in w\<lparr>eb_str := eb_str w @ (0xB7 + word_of_nat (length sizebuf)) # sizebuf\<rparr>)"

definition encodeString :: "bytes \<Rightarrow> encbuf \<Rightarrow> encbuf" where
  "encodeString b w =
     (if length b = 1 \<and> b ! 0 \<le> 0x7F then w\<lparr>eb_str := eb_str w @ [b ! 0]\<rparr>
      else let w' = encodeStringHeader (length b) w in w'\<lparr>eb_str := eb_str w' @ b\<rparr>)"

definition encbuf_size :: "encbuf \<Rightarrow> nat" where
  "encbuf_size w = length (eb_str w) + eb_lhsize w"

text \<open>\<open>list\<close> returns a pointer to the new head; the model returns its index in \<open>lheads\<close>.\<close>

definition encbuf_list :: "encbuf \<Rightarrow> nat \<times> encbuf" where
  "encbuf_list w =
     (length (eb_lheads w),
      w\<lparr>eb_lheads := eb_lheads w @ [\<lparr>lh_offset = length (eb_str w), lh_size = eb_lhsize w\<rparr>]\<rparr>)"

definition encbuf_listEnd :: "nat \<Rightarrow> encbuf \<Rightarrow> encbuf" where
  "encbuf_listEnd lh w =
     (let h = eb_lheads w ! lh;
          sz = encbuf_size w - lh_offset h - lh_size h
      in w\<lparr>eb_lheads := (eb_lheads w)[lh := h\<lparr>lh_size := sz\<rparr>],
           eb_lhsize := eb_lhsize w + (if sz < 56 then 1 else 1 + intsize (word_of_nat sz))\<rparr>)"

fun toBytes_from :: "bytes \<Rightarrow> nat \<Rightarrow> listhead list \<Rightarrow> bytes" where
  "toBytes_from str strpos [] = drop strpos str"
| "toBytes_from str strpos (head # heads) =
     (let piece = drop strpos (take (lh_offset head) str)
      in piece @ listhead_encode head @ toBytes_from str (strpos + length piece) heads)"

definition toBytes :: "encbuf \<Rightarrow> bytes" where
  "toBytes w = toBytes_from (eb_str w) 0 (eb_lheads w)"

section \<open>Writing values\<close>

text \<open>The values the writers of \<open>makeWriter\<close> distinguish: byte slices and byte arrays,
  strings, unsigned integers, booleans, \<open>*big.Int\<close> (nil or not), a nil interface, and
  slices or structs.  Reflection only chooses the writer.\<close>

datatype rval =
    BytesV bytes
  | StringV bytes
  | UintV u64
  | BoolV bool
  | BigV "int option"
  | NilIfaceV
  | ListV "rval list"

datatype enc_error = ErrNegativeBigInt

definition writeUint :: "u64 \<Rightarrow> encbuf \<Rightarrow> encbuf" where
  "writeUint i w =
     (if i = 0 then w\<lparr>eb_str := eb_str w @ [0x80]\<rparr>
      else if i < 128 then w\<lparr>eb_str := eb_str w @ [ucast i]\<rparr>
      else let s = putint i
           in w\<lparr>eb_str := eb_str w @ (0x80 + word_of_nat (length s)) # s\<rparr>)"

definition writeBool :: "bool \<Rightarrow> encbuf \<Rightarrow> encbuf" where
  "writeBool b w = w\<lparr>eb_str := eb_str w @ [if b then 0x01 else 0x80]\<rparr>"

definition writeBigInt :: "int \<Rightarrow> encbuf \<Rightarrow> enc_error + encbuf" where
  "writeBigInt i w =
     (if i < 0 then Inl ErrNegativeBigInt
      else if i = 0 then Inr (w\<lparr>eb_str := eb_str w @ [0x80]\<rparr>)
      else Inr (encodeString (nat_bytes (nat i)) w))"

definition writeBigIntPtr :: "int option \<Rightarrow> encbuf \<Rightarrow> enc_error + encbuf" where
  "writeBigIntPtr ptr w =
     (case ptr of None \<Rightarrow> Inr (w\<lparr>eb_str := eb_str w @ [0x80]\<rparr>) | Some i \<Rightarrow> writeBigInt i w)"

definition writeString :: "bytes \<Rightarrow> encbuf \<Rightarrow> encbuf" where
  "writeString s w =
     (if length s = 1 \<and> s ! 0 \<le> 0x7f then w\<lparr>eb_str := eb_str w @ [s ! 0]\<rparr>
      else let w' = encodeStringHeader (length s) w in w'\<lparr>eb_str := eb_str w' @ s\<rparr>)"

fun write_val :: "rval \<Rightarrow> encbuf \<Rightarrow> enc_error + encbuf"
and write_elems :: "rval list \<Rightarrow> encbuf \<Rightarrow> enc_error + encbuf" where
  "write_val (BytesV b) w = Inr (encodeString b w)"
| "write_val (StringV s) w = Inr (writeString s w)"
| "write_val (UintV i) w = Inr (writeUint i w)"
| "write_val (BoolV b) w = Inr (writeBool b w)"
| "write_val (BigV ptr) w = writeBigIntPtr ptr w"
| "write_val NilIfaceV w = Inr (w\<lparr>eb_str := eb_str w @ [0xC0]\<rparr>)"
| "write_val (ListV vs) w =
     (let (lh, w') = encbuf_list w
      in bind_result (write_elems vs w') (\<lambda>w''. Inr (encbuf_listEnd lh w'')))"
| "write_elems [] w = Inr w"
| "write_elems (v # vs) w = bind_result (write_val v w) (write_elems vs)"

definition EncodeToBytes :: "rval \<Rightarrow> enc_error + bytes" where
  "EncodeToBytes v = bind_result (write_val v empty_encbuf) (\<lambda>w. Inr (toBytes w))"

section \<open>Reference encoding\<close>

datatype item = Str bytes | Lst "item list"

fun rlp_encode :: "item \<Rightarrow> bytes" where
  "rlp_encode (Str b) =
     (if length b = 1 \<and> b ! 0 \<le> 0x7F then b
      else puthead 0x80 0xB7 (word_of_nat (length b)) @ b)"
| "rlp_encode (Lst xs) =
     (let payload = concat (map rlp_encode xs)
      in puthead 0xC0 0xF7 (word_of_nat (length payload)) @ payload)"

text \<open>The item a value denotes: integers are their minimal big-endian bytes.\<close>

fun item_of :: "rval \<Rightarrow> item" where
  "item_of (BytesV b) = Str b"
| "item_of (StringV s) = Str s"
| "item_of (UintV i) = Str (nat_bytes (unat i))"
| "item_of (BoolV b) = Str (if b then [1] else [])"
| "item_of (BigV ptr) = Str (case ptr of None \<Rightarrow> [] | Some i \<Rightarrow> nat_bytes (nat i))"
| "item_of NilIfaceV = Lst []"
| "item_of (ListV vs) = Lst (map item_of vs)"

text \<open>Only a negative \<open>big.Int\<close> has no encoding.\<close>

fun encodable :: "rval \<Rightarrow> bool" where
  "encodable (BigV (Some i)) \<longleftrightarrow> 0 \<le> i"
| "encodable (ListV vs) \<longleftrightarrow> (\<forall>v \<in> set vs. encodable v)"
| "encodable _ \<longleftrightarrow> True"

section \<open>The buffer computes the reference encoding\<close>

lemma unat_of_nat_u64: "n < 2 ^ 64 \<Longrightarrow> unat (word_of_nat n :: u64) = n"
  by (simp add: unat_of_nat take_bit_eq_mod)

lemma small_size: "n < 2 ^ 64 \<Longrightarrow> (word_of_nat n :: u64) < 56 \<longleftrightarrow> n < 56"
  by (simp add: word_less_nat_alt unat_of_nat_u64)

lemma ucast_of_nat_small: "n < 2 ^ 64 \<Longrightarrow> (ucast (word_of_nat n :: u64) :: byte) = word_of_nat n"
  by (simp add: word_unat_eq_iff unat_ucast_byte unat_of_nat_byte unat_of_nat_u64)

definition heads_size :: "listhead list \<Rightarrow> nat" where
  "heads_size hs = (\<Sum>h\<leftarrow>hs. length (listhead_encode h))"

text \<open>Heads recorded while the string data between positions \<open>p\<close> and \<open>q\<close> is written.\<close>

fun heads_between :: "nat \<Rightarrow> listhead list \<Rightarrow> nat \<Rightarrow> bool" where
  "heads_between p [] q \<longleftrightarrow> p \<le> q"
| "heads_between p (h # hs) q \<longleftrightarrow> p \<le> lh_offset h \<and> heads_between (lh_offset h) hs q"

text \<open>Merging heads into the piece of string data that starts at position \<open>p\<close>.\<close>

fun render :: "nat \<Rightarrow> listhead list \<Rightarrow> bytes \<Rightarrow> bytes" where
  "render p [] s = s"
| "render p (h # hs) s =
     take (lh_offset h - p) s @ listhead_encode h @ render (lh_offset h) hs (drop (lh_offset h - p) s)"

lemma heads_between_le: "heads_between p hs q \<Longrightarrow> p \<le> q"
  by (induction p hs q rule: heads_between.induct) auto

lemma heads_between_append:
  "heads_between p hs q \<Longrightarrow> heads_between q hs' r \<Longrightarrow> heads_between p (hs @ hs') r"
proof (induction p hs q rule: heads_between.induct)
  case (1 p q)
  then show ?case by (cases hs') auto
qed auto

lemma length_render:
  "heads_between p hs (p + length s) \<Longrightarrow> length (render p hs s) = length s + heads_size hs"
proof (induction p hs s rule: render.induct)
  case (2 p h hs s)
  from 2(2) have le: "p \<le> lh_offset h" and hb: "heads_between (lh_offset h) hs (p + length s)"
    by simp_all
  from heads_between_le [OF hb] have le': "lh_offset h \<le> p + length s" .
  have e: "lh_offset h + length (drop (lh_offset h - p) s) = p + length s" using le le' by simp
  from 2(1) [unfolded e, OF hb] show ?case using le le' by (simp add: heads_size_def)
qed (simp add: heads_size_def)

lemma render_skip:
  "heads_between (p + length s) hs q \<Longrightarrow> render p hs (s @ t) = s @ render (p + length s) hs t"
  by (cases hs) auto

lemma render_append:
  "heads_between p hs (p + length s) \<Longrightarrow> heads_between (p + length s) hs' q \<Longrightarrow>
   render p (hs @ hs') (s @ t) = render p hs s @ render (p + length s) hs' t"
proof (induction p hs s rule: render.induct)
  case (1 p s)
  then show ?case by (simp add: render_skip)
next
  case (2 p h hs s)
  from 2(2) have le: "p \<le> lh_offset h" and hb: "heads_between (lh_offset h) hs (p + length s)"
    by simp_all
  from heads_between_le [OF hb] have le': "lh_offset h \<le> p + length s" .
  have e: "lh_offset h + length (drop (lh_offset h - p) s) = p + length s" using le le' by simp
  from 2(1) [unfolded e, OF hb 2(3)] show ?case using le le' by simp
qed

lemma toBytes_from_render:
  "heads_between p hs (length s) \<Longrightarrow> toBytes_from s p hs = render p hs (drop p s)"
proof (induction hs arbitrary: p)
  case (Cons h hs)
  from Cons.prems have le: "p \<le> lh_offset h" and hb: "heads_between (lh_offset h) hs (length s)"
    by simp_all
  from heads_between_le [OF hb] have "lh_offset h \<le> length s" .
  with Cons.IH [OF hb] le show ?case by (simp add: Let_def drop_take)
qed simp

text \<open>What one write adds to the buffer: string data \<open>s\<close> and heads \<open>hs\<close> that render to \<open>e\<close>.\<close>

definition adds :: "encbuf \<Rightarrow> encbuf \<Rightarrow> bytes \<Rightarrow> bool" where
  "adds w w' e \<longleftrightarrow>
     (\<exists>s hs. eb_str w' = eb_str w @ s \<and> eb_lheads w' = eb_lheads w @ hs \<and>
        eb_lhsize w' = eb_lhsize w + heads_size hs \<and>
        heads_between (length (eb_str w)) hs (length (eb_str w) + length s) \<and>
        render (length (eb_str w)) hs s = e)"

lemma adds_str: "adds w (w\<lparr>eb_str := eb_str w @ e\<rparr>) e"
  unfolding adds_def by (intro exI [of _ e] exI [of _ "[]"]) (simp add: heads_size_def)

lemma adds_trans:
  assumes "adds w w' e" and "adds w' w'' e'"
  shows "adds w w'' (e @ e')"
proof -
  from assms(1) obtain s hs where 1: "eb_str w' = eb_str w @ s" "eb_lheads w' = eb_lheads w @ hs"
    "eb_lhsize w' = eb_lhsize w + heads_size hs"
    "heads_between (length (eb_str w)) hs (length (eb_str w) + length s)"
    "render (length (eb_str w)) hs s = e"
    unfolding adds_def by blast
  from assms(2) obtain t ts where 2: "eb_str w'' = eb_str w' @ t" "eb_lheads w'' = eb_lheads w' @ ts"
    "eb_lhsize w'' = eb_lhsize w' + heads_size ts"
    "heads_between (length (eb_str w')) ts (length (eb_str w') + length t)"
    "render (length (eb_str w')) ts t = e'"
    unfolding adds_def by blast
  show ?thesis
    unfolding adds_def
    by (intro exI [of _ "s @ t"] exI [of _ "hs @ ts"])
       (use 1 2 heads_between_append [of "length (eb_str w)" hs "length (eb_str w')" ts "length (eb_str w') + length t"]
        in \<open>auto simp: heads_size_def add.assoc render_append [where q = "length (eb_str w') + length t"]\<close>)
qed

lemma adds_length: "adds w w' e \<Longrightarrow> encbuf_size w' = encbuf_size w + length e"
  unfolding adds_def encbuf_size_def by (auto simp: length_render)

lemma adds_list:
  assumes "encbuf_list w = (lh, w')" and "adds w' w'' e" and "length e < 2 ^ 64"
  shows "adds w (encbuf_listEnd lh w'') (puthead 0xC0 0xF7 (word_of_nat (length e)) @ e)"
proof -
  have lh: "lh = length (eb_lheads w)"
    and w': "w' = w\<lparr>eb_lheads := eb_lheads w @ [\<lparr>lh_offset = length (eb_str w), lh_size = eb_lhsize w\<rparr>]\<rparr>"
    using assms(1) by (simp_all add: encbuf_list_def)
  from assms(2) obtain s hs where s: "eb_str w'' = eb_str w' @ s" "eb_lheads w'' = eb_lheads w' @ hs"
    "eb_lhsize w'' = eb_lhsize w' + heads_size hs"
    "heads_between (length (eb_str w')) hs (length (eb_str w') + length s)"
    "render (length (eb_str w')) hs s = e"
    unfolding adds_def by blast
  let ?h = "\<lparr>lh_offset = length (eb_str w), lh_size = length e\<rparr>"
  have len: "length e = length s + heads_size hs" using length_render [OF s(4)] s(5) by simp
  have sz: "encbuf_size w'' - length (eb_str w) - eb_lhsize w = length e"
    using s w' len by (simp add: encbuf_size_def)
  have "encbuf_listEnd lh w'' = w''\<lparr>eb_lheads := eb_lheads w @ ?h # hs,
          eb_lhsize := eb_lhsize w'' + (if length e < 56 then 1 else 1 + intsize (word_of_nat (length e)))\<rparr>"
    using s(2) sz by (simp add: encbuf_listEnd_def w' lh Let_def nth_append list_update_append)
  moreover have "(if length e < 56 then 1 else 1 + intsize (word_of_nat (length e))) = length (listhead_encode ?h)"
    using assms(3) by (simp add: listhead_encode_def puthead_def small_size intsize_putint)
  ultimately have end_eq: "encbuf_listEnd lh w'' = w''\<lparr>eb_lheads := eb_lheads w @ ?h # hs,
          eb_lhsize := eb_lhsize w'' + length (listhead_encode ?h)\<rparr>" by simp
  show ?thesis
    unfolding adds_def end_eq
    by (intro exI [of _ s] exI [of _ "?h # hs"])
       (use s w' in \<open>auto simp: heads_size_def listhead_encode_def\<close>)
qed

lemma encodeStringHeader_puthead:
  "sz < 2 ^ 64 \<Longrightarrow>
   encodeStringHeader sz w = w\<lparr>eb_str := eb_str w @ puthead 0x80 0xB7 (word_of_nat sz)\<rparr>"
  by (simp add: encodeStringHeader_def puthead_def small_size Let_def ucast_of_nat_small)

lemma encodeString_adds: "length b < 2 ^ 64 \<Longrightarrow> adds w (encodeString b w) (rlp_encode (Str b))"
  using adds_str [of w "rlp_encode (Str b)"]
  by (cases b) (auto simp: encodeString_def encodeStringHeader_puthead Let_def)

lemma encodeString_adds':
  "length (rlp_encode (Str b)) < 2 ^ 64 \<Longrightarrow> adds w (encodeString b w) (rlp_encode (Str b))"
  by (rule encodeString_adds) (auto split: if_splits)

lemma writeString_encodeString: "writeString s w = encodeString s w"
  by (simp add: writeString_def encodeString_def)

lemma nat_bytes_single: "n < 256 \<Longrightarrow> n \<noteq> 0 \<Longrightarrow> nat_bytes n = [word_of_nat n]"
  by (simp add: nat_bytes.simps [of n] nat_bytes.simps [of 0])

lemma writeUint_adds: "adds w (writeUint i w) (rlp_encode (Str (nat_bytes (unat i))))"
proof -
  have "writeUint i w = w\<lparr>eb_str := eb_str w @ rlp_encode (Str (nat_bytes (unat i)))\<rparr>"
  proof (cases "i = 0 \<or> i < 128")
    case True
    have "nat_bytes (unat i) = [ucast i]" if "i \<noteq> 0" "i < 128"
      using that nat_bytes_single [of "unat i"] by (simp add: word_less_nat_alt unat_gt_0)
    with True show ?thesis
      by (auto simp: writeUint_def nat_bytes.simps [of 0] puthead_def word_less_nat_alt
          word_le_nat_alt unat_ucast_byte)
  next
    case False
    then have "128 \<le> unat i" by (simp add: word_less_nat_alt)
    then have big: "\<not> (length (nat_bytes (unat i)) = 1 \<and> nat_bytes (unat i) ! 0 \<le> 0x7F)"
      using be_nat_nat_bytes [of "unat i"]
      by (auto simp: length_Suc_conv word_le_nat_alt be_nat_Cons simp del: be_nat_nat_bytes)
    have "length (nat_bytes (unat i)) \<le> 8"
      using unat_u64_less [of i] by (intro length_nat_bytes_le) simp
    with False big show ?thesis
      by (auto simp: writeUint_def putint_eq_nat_bytes puthead_def small_size ucast_of_nat_small Let_def)
  qed
  then show ?thesis by (metis adds_str)
qed

lemma writeBool_adds: "adds w (writeBool b w) (rlp_encode (Str (if b then [1] else [])))"
  using adds_str [of w "[if b then 0x01 else 0x80]"] by (auto simp: writeBool_def puthead_def)

lemma writeBigIntPtr_adds:
  assumes "encodable (BigV ptr)" and "length (rlp_encode (item_of (BigV ptr))) < 2 ^ 64"
  shows "\<exists>w'. writeBigIntPtr ptr w = Inr w' \<and> adds w w' (rlp_encode (item_of (BigV ptr)))"
proof (cases "\<exists>i. ptr = Some i \<and> i \<noteq> 0")
  case True
  then obtain i where "ptr = Some i" "i \<noteq> 0" by blast
  with assms encodeString_adds [of "nat_bytes (nat i)" w] show ?thesis
    by (auto simp: writeBigIntPtr_def writeBigInt_def split: if_splits)
next
  case False
  then have "ptr = None \<or> ptr = Some 0" by (cases ptr) auto
  with adds_str [of w "[0x80]"] show ?thesis
    by (auto simp: writeBigIntPtr_def writeBigInt_def puthead_def nat_bytes.simps [of 0])
qed

lemma write_val_adds:
  "encodable v \<Longrightarrow> length (rlp_encode (item_of v)) < 2 ^ 64 \<Longrightarrow>
     \<exists>w'. write_val v w = Inr w' \<and> adds w w' (rlp_encode (item_of v))"
  and write_elems_adds:
  "\<forall>v \<in> set vs. encodable v \<Longrightarrow> length (concat (map (\<lambda>v. rlp_encode (item_of v)) vs)) < 2 ^ 64 \<Longrightarrow>
     \<exists>w'. write_elems vs w = Inr w' \<and> adds w w' (concat (map (\<lambda>v. rlp_encode (item_of v)) vs))"
proof (induction v w and vs w rule: write_val_write_elems.induct)
  case (7 vs w)
  obtain lh w' where l: "encbuf_list w = (lh, w')" by fastforce
  have len: "length (concat (map (\<lambda>v. rlp_encode (item_of v)) vs)) < 2 ^ 64"
    using 7(3) by (simp add: Let_def comp_def)
  from 7(1) [OF l [symmetric] refl _ len] 7(2) obtain w'' where w'': "write_elems vs w' = Inr w''"
    "adds w' w'' (concat (map (\<lambda>v. rlp_encode (item_of v)) vs))" by auto
  from adds_list [OF l w''(2) len] w''(1) l show ?case
    by (simp add: Let_def comp_def)
next
  case (9 v vs w)
  then obtain w' where w': "write_val v w = Inr w'" "adds w w' (rlp_encode (item_of v))" by auto
  with 9 obtain w'' where w'': "write_elems vs w' = Inr w''"
    "adds w' w'' (concat (map (\<lambda>v. rlp_encode (item_of v)) vs))" by auto
  from adds_trans [OF w'(2) w''(2)] w'(1) w''(1) show ?case by simp
next
  case (8 w)
  then show ?case using adds_str [of w "[]"] by simp
next
  case (1 b w)
  then show ?case using encodeString_adds' [of b w] by (simp del: rlp_encode.simps)
next
  case (2 s w)
  then show ?case using encodeString_adds' [of s w]
    by (simp add: writeString_encodeString del: rlp_encode.simps)
next
  case (3 i w)
  show ?case using writeUint_adds [of w i] by (simp del: rlp_encode.simps)
next
  case (4 b w)
  show ?case using writeBool_adds [of w b] by (simp del: rlp_encode.simps)
next
  case (5 ptr w)
  then show ?case using writeBigIntPtr_adds [of ptr w] by (simp del: rlp_encode.simps)
next
  case (6 w)
  show ?case using adds_str [of w "[0xC0]"] by (simp add: puthead_def)
qed

lemma write_val_negative: "\<not> encodable v \<Longrightarrow> write_val v w = Inl ErrNegativeBigInt"
  and write_elems_negative: "\<not> (\<forall>v \<in> set vs. encodable v) \<Longrightarrow> write_elems vs w = Inl ErrNegativeBigInt"
proof (induction v w and vs w rule: write_val_write_elems.induct)
  case (5 ptr w)
  then show ?case by (cases ptr) (auto simp: writeBigIntPtr_def writeBigInt_def)
next
  case (9 v vs w)
  have any: "(e :: enc_error) = ErrNegativeBigInt" for e by (cases e) simp
  from 9 show ?case by (cases "encodable v") (auto simp: bind_result_def any split: sum.splits)
qed (auto split: prod.splits)

lemma adds_toBytes: "adds empty_encbuf w e \<Longrightarrow> toBytes w = e"
  unfolding adds_def toBytes_def
  by (auto simp: empty_encbuf_def toBytes_from_render [of 0 _ "eb_str w", simplified])

lemma EncodeToBytes_ok:
  assumes "encodable v" and "length (rlp_encode (item_of v)) < 2 ^ 64"
  shows "EncodeToBytes v = Inr (rlp_encode (item_of v))"
proof -
  from write_val_adds [OF assms] obtain w where
    "write_val v empty_encbuf = Inr w" "adds empty_encbuf w (rlp_encode (item_of v))" by blast
  then show ?thesis by (simp add: EncodeToBytes_def adds_toBytes)
qed

text \<open>C1.  \<open>EncodeToBytes\<close>, which writes string data and list heads into separate parts of the
  buffer and merges them at the end, produces exactly the recursive RLP encoding of the item
  its argument denotes; it fails only on a value that holds a negative \<open>big.Int\<close>.\<close>

theorem EncodeToBytes_correct:
  assumes "length (rlp_encode (item_of v)) < 2 ^ 64"
  shows "EncodeToBytes v =
    (if encodable v then Inr (rlp_encode (item_of v)) else Inl ErrNegativeBigInt)"
  using EncodeToBytes_ok [OF _ assms] by (simp add: EncodeToBytes_def write_val_negative)

theorem EncodeToBytes_correct_witness:
  "EncodeToBytes (ListV [BytesV [1, 2], UintV 1024, ListV []]) =
     Inr [0xC7, 0x82, 1, 2, 0x82, 4, 0, 0xC0]"
proof -
  let ?v = "ListV [BytesV [1, 2], UintV 1024, ListV []]"
  have nb: "nat_bytes 1024 = [4, 0]" by (simp add: nat_bytes.simps)
  have e: "rlp_encode (item_of ?v) = [0xC7, 0x82, 1, 2, 0x82, 4, 0, 0xC0]"
    by (simp add: nb puthead_def)
  show ?thesis using EncodeToBytes_correct [of ?v] unfolding e by simp
qed

end
