(* ===== verification/Rlp_Raw.thy ===== *)
theory Rlp_Raw
  imports Rlp_Encode
begin

unbundle bit_operations_syntax

text \<open>
  Splitting raw RLP input (\<open>src/rlp/raw.go\<close>): \<open>readKind\<close> classifies the head of a value, \<open>Split\<close>
  and its variants cut one value off, \<open>CountValues\<close> counts the values of a list payload.
  Sizes are \<open>uint64\<close> in the source; \<open>readSize\<close> computes them on 64-bit words, and since a
  size is compared with the length of the slice before it is used, they are natural
  numbers from there on.  An index or slice expression out of range is the result \<open>RlpPanic\<close>.
\<close>

datatype kind = KByte | KString | KList

datatype rlp_error =
    IoEOF
  | IoUnexpectedEOF
  | EOL
  | ErrExpectedString
  | ErrExpectedList
  | ErrCanonInt
  | ErrCanonSize
  | ErrElemTooLarge
  | ErrValueTooLarge
  | ErrMoreThanOneValue
  | ErrNotInList
  | ErrNotAtEOL
  | ErrUintOverflow
  | DecodeError string
  | RlpPanic
  | RlpOutOfFuel

section \<open>Reading sizes and kinds\<close>

text \<open>Go's index \<open>b[i]\<close> and slice \<open>b[lo:hi]\<close>: out of range they panic.\<close>

definition index_byte :: "bytes \<Rightarrow> nat \<Rightarrow> rlp_error + byte" where
  "index_byte b i = (if i < length b then Inr (b ! i) else Inl RlpPanic)"

definition slice_bytes :: "bytes \<Rightarrow> nat \<Rightarrow> nat \<Rightarrow> rlp_error + bytes" where
  "slice_bytes b lo hi = (if lo \<le> hi \<and> hi \<le> length b then Inr (drop lo (take hi b)) else Inl RlpPanic)"

text \<open>The first \<open>n\<close> bytes as a big-endian number: \<open>b[0]<<8 | b[1]\<close> and so on.\<close>

fun read_be :: "bytes \<Rightarrow> nat \<Rightarrow> rlp_error + u64" where
  "read_be b 0 = Inr 0"
| "read_be b (Suc n) =
     bind_result (read_be b n) (\<lambda>s. bind_result (index_byte b n) (\<lambda>x. Inr (push_bit 8 s OR ucast x)))"

definition readSize :: "bytes \<Rightarrow> byte \<Rightarrow> rlp_error + u64" where
  "readSize b slen =
     (if unat slen > length b then Inl IoUnexpectedEOF
      else bind_result (if 1 \<le> unat slen \<and> unat slen \<le> 8 then read_be b (unat slen) else Inr 0) (\<lambda>s.
        if s < 56 then Inl ErrCanonSize
        else bind_result (index_byte b 0) (\<lambda>b0. if b0 = 0 then Inl ErrCanonSize else Inr s)))"

text \<open>The difference of \<open>uint64\<close> wraps when the head is longer than the input.\<close>

definition check_fits :: "bytes \<Rightarrow> kind \<Rightarrow> nat \<Rightarrow> nat \<Rightarrow> rlp_error + kind \<times> nat \<times> nat" where
  "check_fits buf k tagsize contentsize =
     (if contentsize > (if tagsize \<le> length buf then length buf - tagsize else length buf + 2 ^ 64 - tagsize)
      then Inl ErrValueTooLarge
      else Inr (k, tagsize, contentsize))"

definition readKind :: "bytes \<Rightarrow> rlp_error + kind \<times> nat \<times> nat" where
  "readKind buf =
     (if length buf = 0 then Inl IoUnexpectedEOF
      else bind_result (index_byte buf 0) (\<lambda>b.
        if b < 0x80 then check_fits buf KByte 0 1
        else if b < 0xB8 then
          (let contentsize = unat (b - 0x80) in
           bind_result (if contentsize = 1 then bind_result (index_byte buf 1) (\<lambda>b1. Inr (b1 < 128)) else Inr False)
             (\<lambda>short. if short then Inl ErrCanonSize else check_fits buf KString 1 contentsize))
        else if b < 0xC0 then
          bind_result (slice_bytes buf 1 (length buf)) (\<lambda>tail. bind_result (readSize tail (b - 0xB7))
            (\<lambda>s. check_fits buf KString (unat (b - 0xB7) + 1) (unat s)))
        else if b < 0xF8 then check_fits buf KList 1 (unat (b - 0xC0))
        else
          bind_result (slice_bytes buf 1 (length buf)) (\<lambda>tail. bind_result (readSize tail (b - 0xF7))
            (\<lambda>s. check_fits buf KList (unat (b - 0xF7) + 1) (unat s)))))"

definition Split :: "bytes \<Rightarrow> rlp_error + kind \<times> bytes \<times> bytes" where
  "Split b =
     bind_result (readKind b) (\<lambda>(k, ts, cs).
     bind_result (slice_bytes b ts (ts + cs)) (\<lambda>content.
     bind_result (slice_bytes b (ts + cs) (length b)) (\<lambda>rest. Inr (k, content, rest))))"

definition SplitString :: "bytes \<Rightarrow> rlp_error + bytes \<times> bytes" where
  "SplitString b =
     bind_result (Split b) (\<lambda>(k, content, rest).
       if k = KList then Inl ErrExpectedString else Inr (content, rest))"

definition SplitList :: "bytes \<Rightarrow> rlp_error + bytes \<times> bytes" where
  "SplitList b =
     bind_result (Split b) (\<lambda>(k, content, rest).
       if k \<noteq> KList then Inl ErrExpectedList else Inr (content, rest))"

text \<open>What the checks of the source amount to: only the test for a non-minimal one-byte string reads
  beyond the input.\<close>

definition be_u64 :: "bytes \<Rightarrow> u64" where
  "be_u64 bs = foldl (\<lambda>s b. push_bit 8 s OR ucast b) 0 bs"

lemma read_be_eq: "n \<le> length b \<Longrightarrow> read_be b n = Inr (be_u64 (take n b))"
  by (induction n) (simp_all add: be_u64_def index_byte_def take_Suc_conv_app_nth)

lemma readSize_eq:
  "readSize b slen =
     (if unat slen > length b then Inl IoUnexpectedEOF
      else let s = (if 1 \<le> unat slen \<and> unat slen \<le> 8 then be_u64 (take (unat slen) b) else 0)
           in if s < 56 \<or> b ! 0 = 0 then Inl ErrCanonSize else Inr s)"
  by (auto simp: readSize_def read_be_eq index_byte_def Let_def)

lemma readSize_Inr_length: "readSize b slen = Inr s \<Longrightarrow> unat slen \<le> length b"
  by (simp add: readSize_def split: if_splits)

definition fits :: "bytes \<Rightarrow> kind \<Rightarrow> nat \<Rightarrow> nat \<Rightarrow> rlp_error + kind \<times> nat \<times> nat" where
  "fits buf k tagsize contentsize =
     (if contentsize > length buf - tagsize then Inl ErrValueTooLarge
      else Inr (k, tagsize, contentsize))"

lemma check_fits_eq: "tagsize \<le> length buf \<Longrightarrow> check_fits buf k tagsize contentsize = fits buf k tagsize contentsize"
  by (simp add: check_fits_def fits_def)

lemma readSize_fits:
  assumes "length buf = Suc (length rest)"
  shows "bind_result (readSize rest n) (\<lambda>s. check_fits buf k (unat n + 1) (unat s)) =
    bind_result (readSize rest n) (\<lambda>s. fits buf k (unat n + 1) (unat s))"
proof (cases "readSize rest n")
  case (Inr s)
  then have "unat n + 1 \<le> length buf" using assms readSize_Inr_length [OF Inr] by simp
  then show ?thesis using Inr by (simp add: check_fits_eq)
qed simp

lemma readKind_eq:
  "readKind buf =
     (if length buf = 0 then Inl IoUnexpectedEOF
      else let b = buf ! 0 in
        if b < 0x80 then fits buf KByte 0 1
        else if b < 0xB8 then
          (let contentsize = unat (b - 0x80) in
           if contentsize = 1 \<and> length buf \<le> 1 then Inl RlpPanic
           else if contentsize = 1 \<and> buf ! 1 < 128 then Inl ErrCanonSize
           else fits buf KString 1 contentsize)
        else if b < 0xC0 then
          bind_result (readSize (drop 1 buf) (b - 0xB7))
            (\<lambda>s. fits buf KString (unat (b - 0xB7) + 1) (unat s))
        else if b < 0xF8 then fits buf KList 1 (unat (b - 0xC0))
        else
          bind_result (readSize (drop 1 buf) (b - 0xF7))
            (\<lambda>s. fits buf KList (unat (b - 0xF7) + 1) (unat s)))"
proof (cases buf)
  case (Cons b rest)
  have len: "length buf = Suc (length rest)" using Cons by simp
  have one: "check_fits buf k 0 n = fits buf k 0 n" "check_fits buf k 1 n = fits buf k 1 n" for k n
    using len by (simp_all add: check_fits_eq)
  show ?thesis
    using readSize_fits [OF len] one
    by (auto simp: readKind_def index_byte_def slice_bytes_def Cons Let_def)
qed (simp add: readKind_def)

lemma fits_Inr: "fits buf k ts cs = Inr (k', ts', cs') \<longleftrightarrow>
    k' = k \<and> ts' = ts \<and> cs' = cs \<and> cs \<le> length buf - ts"
  by (auto simp: fits_def)

lemma readKind_progress: "readKind buf = Inr (k, ts, cs) \<Longrightarrow> 0 < ts + cs"
  by (auto simp: readKind_eq Let_def fits_Inr bind_result_eq_Inr split: if_splits)

lemma readKind_bound: "readKind buf = Inr (k, ts, cs) \<Longrightarrow> ts + cs \<le> length buf"
  by (cases buf) (auto simp: readKind_eq Let_def fits_Inr bind_result_eq_Inr dest!: readSize_Inr_length split: if_splits)

lemma Split_eq:
  "Split b = bind_result (readKind b) (\<lambda>(k, ts, cs). Inr (k, drop ts (take (ts + cs) b), drop (ts + cs) b))"
proof (cases "readKind b")
  case (Inr x)
  obtain k ts cs where x: "x = (k, ts, cs)" by (cases x)
  show ?thesis using readKind_bound [of b k ts cs] Inr x by (simp add: Split_def slice_bytes_def)
qed (simp add: Split_def)

function CountValues_from :: "nat \<Rightarrow> bytes \<Rightarrow> rlp_error + nat" where
  "CountValues_from i b =
     (if length b > 0 then
        (case readKind b of
           Inl e \<Rightarrow> Inl e
         | Inr (k, tagsize, sz) \<Rightarrow>
             (case slice_bytes b (tagsize + sz) (length b) of
                Inl e \<Rightarrow> Inl e
              | Inr b' \<Rightarrow> CountValues_from (Suc i) b'))
      else Inr i)"
  by pat_completeness auto
termination
  by (relation "measure (\<lambda>(_, b). length b)") (auto simp: slice_bytes_def dest!: readKind_progress split: if_splits)

declare CountValues_from.simps [simp del]

definition CountValues :: "bytes \<Rightarrow> rlp_error + nat" where
  "CountValues b = CountValues_from 0 b"

section \<open>Sizes\<close>

lemma unat_be_u64: "length bs \<le> 8 \<Longrightarrow> unat (be_u64 bs) = be_nat bs"
proof (induction bs rule: rev_induct)
  case Nil
  then show ?case by (simp add: be_u64_def)
next
  case (snoc b bs)
  let ?s = "be_u64 bs"
  have IH: "unat ?s = be_nat bs" using snoc by simp
  have lt: "be_nat bs < 256 ^ 7"
    using be_nat_less [of bs] power_increasing [of "length bs" 7 "256 :: nat"] snoc(2) by simp
  have ub: "unat (ucast b :: u64) = unat b" 
    using unat_byte_less [of b] by (simp add: unsigned_ucast_eq take_bit_eq_mod)
  have disj: "push_bit 8 ?s AND ucast b = 0"
    by (rule bit_eqI) (auto simp: bit_simps dest: bit_imp_le_length)
  have "push_bit 8 ?s OR ucast b = push_bit 8 ?s + ucast b"
    using word_plus_and_or [of "push_bit 8 ?s" "ucast b"] disj by simp
  then have "unat (be_u64 (bs @ [b])) = unat (256 * ?s + ucast b)"
    by (simp add: be_u64_def push_bit_eq_mult mult.commute)
  also have "\<dots> = 256 * be_nat bs + unat b"
    using lt unat_byte_less [of b] by (simp add: unat_word_ariths IH ub)
  finally show ?case by simp
qed

lemma readSize_putint:
  assumes "56 \<le> unat s"
  shows "readSize (putint s @ rest) (word_of_nat (length (putint s))) = Inr s"
proof -
  have len: "0 < length (putint s)" "length (putint s) \<le> 8" by (rule length_putint)+
  have u: "unat (word_of_nat (length (putint s)) :: byte) = length (putint s)"
    using len by (simp add: unat_of_nat_byte)
  have "s \<noteq> 0" using assms by auto
  then have "hd (putint s) \<noteq> 0" by (rule hd_putint)
  then have "(putint s @ rest) ! 0 \<noteq> 0" using len by (simp add: hd_conv_nth nth_append)
  moreover have "be_u64 (putint s) = s"
    using unat_be_u64 [of "putint s"] len by (simp add: word_unat_eq_iff)
  moreover have "\<not> s < 56" using assms by (simp add: word_less_nat_alt)
  ultimately show ?thesis using len by (simp add: readSize_eq u Let_def Suc_le_eq)
qed

lemma readSize_canonical:
  assumes "readSize b slen = Inr s" and "1 \<le> unat slen" and "unat slen \<le> 8"
  shows "b = putint s @ drop (unat slen) b" and "56 \<le> unat s" and "slen = word_of_nat (length (putint s))"
    and "unat slen \<le> length b"
proof -
  let ?h = "take (unat slen) b"
  from assms have le: "unat slen \<le> length b" and s: "s = be_u64 ?h" and "\<not> s < 56" and nz: "b ! 0 \<noteq> 0"
    by (auto simp: readSize_eq Let_def split: if_splits)
  then show ge: "56 \<le> unat s" by (simp add: word_less_nat_alt)
  have len: "length ?h = unat slen" using le by simp
  have ne: "?h \<noteq> []" using assms(2) len by auto
  have "hd ?h \<noteq> 0" using nz ne by (simp add: hd_conv_nth)
  moreover have "be_nat ?h = unat s" using s assms(3) len by (simp add: unat_be_u64)
  moreover have "s \<noteq> 0" using ge by auto
  ultimately have eq: "?h = putint s"
    using ne hd_putint [of s] by (intro be_nat_canonical) auto
  then show "b = putint s @ drop (unat slen) b" by (metis append_take_drop_id)
  show "slen = word_of_nat (length (putint s))" using len eq by simp
  show "unat slen \<le> length b" by (rule le)
qed

section \<open>Splitting encodings\<close>

lemma unat_tag: "unat t + n < 256 \<Longrightarrow> unat (t + word_of_nat n :: byte) = unat t + n"
  by (simp add: unat_word_ariths unat_of_nat_byte)

lemma puthead_small: "n < 56 \<Longrightarrow> puthead st lt (word_of_nat n) = [st + word_of_nat n]"
  by (simp add: puthead_def small_size ucast_of_nat_small)

lemma puthead_large:
  "56 \<le> n \<Longrightarrow> n < 2 ^ 64 \<Longrightarrow> puthead st lt (word_of_nat n) =
     (lt + word_of_nat (length (putint (word_of_nat n)))) # putint (word_of_nat n)"
  by (simp add: puthead_def small_size)

lemma readKind_puthead_String:
  assumes "length c < 2 ^ 64" and "\<not> (length c = 1 \<and> c ! 0 < 128)"
  shows "readKind (puthead 0x80 0xB7 (word_of_nat (length c)) @ c @ r) =
    Inr (KString, length (puthead 0x80 0xB7 (word_of_nat (length c))), length c)"
proof (cases "length c < 56")
  case True
  let ?b = "0x80 + word_of_nat (length c) :: byte"
  have b: "unat ?b = 128 + length c" using True by (simp add: unat_tag)
  have d: "?b - 0x80 = word_of_nat (length c)" by simp
  have "unat (?b - 0x80) = length c" unfolding d using True by (simp add: unat_of_nat_byte)
  moreover have "\<not> ?b < 0x80" "?b < 0xB8" using b True by (simp_all add: word_less_nat_alt)
  ultimately show ?thesis
    using assms True unfolding puthead_small [OF True]
    by (auto simp: readKind_eq Let_def fits_def nth_append)
next
  case False
  let ?p = "putint (word_of_nat (length c))"
  let ?b = "0xB7 + word_of_nat (length ?p) :: byte"
  have len: "0 < length ?p" "length ?p \<le> 8" by (rule length_putint)+
  have b: "unat ?b = 183 + length ?p" using len by (simp add: unat_tag)
  have d: "?b - 0xB7 = word_of_nat (length ?p)" by simp
  have u: "unat (?b - 0xB7) = length ?p" unfolding d using len by (simp add: unat_of_nat_byte)
  have rs: "readSize (?p @ c @ r) (?b - 0xB7) = Inr (word_of_nat (length c))"
    unfolding d using False assms(1) by (intro readSize_putint) (simp add: unat_of_nat_u64)
  have "\<not> ?b < 0x80" "\<not> ?b < 0xB8" "?b < 0xC0" using b len by (simp_all add: word_less_nat_alt)
  then show ?thesis
    using False assms rs u by (simp add: puthead_large readKind_eq Let_def fits_def unat_of_nat_u64)
qed

lemma readKind_puthead_List:
  assumes "length c < 2 ^ 64"
  shows "readKind (puthead 0xC0 0xF7 (word_of_nat (length c)) @ c @ r) =
    Inr (KList, length (puthead 0xC0 0xF7 (word_of_nat (length c))), length c)"
proof (cases "length c < 56")
  case True
  let ?b = "0xC0 + word_of_nat (length c) :: byte"
  have b: "unat ?b = 192 + length c" using True by (simp add: unat_tag)
  have d: "?b - 0xC0 = word_of_nat (length c)" by simp
  have "unat (?b - 0xC0) = length c" unfolding d using True by (simp add: unat_of_nat_byte)
  moreover have "\<not> ?b < 0x80" "\<not> ?b < 0xB8" "\<not> ?b < 0xC0" "?b < 0xF8"
    using b True by (simp_all add: word_less_nat_alt)
  ultimately show ?thesis
    using True unfolding puthead_small [OF True] by (simp add: readKind_eq Let_def fits_def)
next
  case False
  let ?p = "putint (word_of_nat (length c))"
  let ?b = "0xF7 + word_of_nat (length ?p) :: byte"
  have len: "0 < length ?p" "length ?p \<le> 8" by (rule length_putint)+
  have b: "unat ?b = 247 + length ?p" using len by (simp add: unat_tag)
  have d: "?b - 0xF7 = word_of_nat (length ?p)" by simp
  have u: "unat (?b - 0xF7) = length ?p" unfolding d using len by (simp add: unat_of_nat_byte)
  have rs: "readSize (?p @ c @ r) (?b - 0xF7) = Inr (word_of_nat (length c))"
    unfolding d using False assms(1) by (intro readSize_putint) (simp add: unat_of_nat_u64)
  have "\<not> ?b < 0x80" "\<not> ?b < 0xB8" "\<not> ?b < 0xC0" "\<not> ?b < 0xF8"
    using b len by (simp_all add: word_less_nat_alt)
  then show ?thesis
    using False assms rs u by (simp add: puthead_large readKind_eq Let_def fits_def unat_of_nat_u64)
qed

definition str_kind :: "bytes \<Rightarrow> kind" where
  "str_kind b = (if length b = 1 \<and> b ! 0 \<le> 0x7F then KByte else KString)"

lemma byte_le_7F: "(x :: byte) \<le> 0x7F \<longleftrightarrow> x < 0x80"
  by (simp add: word_le_nat_alt word_less_nat_alt) arith

lemma Split_Str: "length b < 2 ^ 64 \<Longrightarrow> Split (rlp_encode (Str b) @ r) = Inr (str_kind b, b, r)"
proof (cases "length b = 1 \<and> b ! 0 \<le> 0x7F")
  case True
  then obtain x where "b = [x]" "x < 0x80" by (auto simp: length_Suc_conv byte_le_7F)
  then show ?thesis by (simp add: Split_eq readKind_eq fits_def str_kind_def byte_le_7F)
next
  case False
  assume "length b < 2 ^ 64"
  with False readKind_puthead_String [of b r] show ?thesis
    by (auto simp: Split_eq str_kind_def byte_le_7F)
qed

lemma Split_Lst:
  "length (concat (map rlp_encode xs)) < 2 ^ 64 \<Longrightarrow>
   Split (rlp_encode (Lst xs) @ r) = Inr (KList, concat (map rlp_encode xs), r)"
  using readKind_puthead_List [of "concat (map rlp_encode xs)" r] by (simp add: Split_eq Let_def)

section \<open>Accepted input is canonical\<close>

lemma byte_minus_plus: "t \<le> b \<Longrightarrow> t + word_of_nat (unat (b - t)) = (b :: byte)"
  by simp

lemma unat_minus_tag: "t \<le> b \<Longrightarrow> unat (b - t :: byte) = unat b - unat t"
  by (simp add: unat_sub)

lemma small_canonical:
  assumes "st \<le> b" and "unat (b - st) < 56" and "unat (b - st) \<le> length rest"
  shows "\<exists>c r. rest = c @ r \<and> b # rest = puthead st lt (word_of_nat (length c)) @ c @ r \<and>
    length c = unat (b - st) \<and> length (puthead st lt (word_of_nat (length c))) = 1"
proof -
  let ?n = "unat (b - st)"
  have len: "length (take ?n rest) = ?n" using assms(3) by simp
  have "puthead st lt (word_of_nat (length (take ?n rest))) = [b]"
    unfolding len puthead_small [OF assms(2)] using assms(1) by simp
  then show ?thesis using len by (intro exI [of _ "take ?n rest"] exI [of _ "drop ?n rest"]) simp
qed

lemma large_canonical:
  assumes s: "readSize rest (b - t) = Inr s" and r: "1 \<le> unat (b - t)" "unat (b - t) \<le> 8"
    and le: "unat s \<le> length rest - unat (b - t)"
  shows "\<exists>c r. b # rest = puthead st t (word_of_nat (length c)) @ c @ r \<and>
    length c = unat s \<and> length (puthead st t (word_of_nat (length c))) = unat (b - t) + 1 \<and> 56 \<le> length c"
proof -
  note canon = readSize_canonical [OF s r]
  let ?c = "take (unat s) (drop (unat (b - t)) rest)"
  have lc: "length ?c = unat s" using le canon(4) by simp
  have b: "b = t + word_of_nat (length (putint s))" using canon(3) by (simp add: algebra_simps)
  have ls: "length (putint s) = unat (b - t)"
    using canon(3) length_putint [of s] by (simp add: unat_of_nat_byte)
  have hd: "puthead st t (word_of_nat (length ?c)) = b # putint s"
    unfolding lc using canon(2) b by (simp add: puthead_def word_less_nat_alt)
  have "b # rest = b # putint s @ ?c @ drop (unat s) (drop (unat (b - t)) rest)"
    using canon(1) by (metis append_take_drop_id)
  with hd lc ls canon(2) show ?thesis
    by (intro exI [of _ ?c] exI [of _ "drop (unat s) (drop (unat (b - t)) rest)"]) auto
qed

lemma readKind_String_canonical:
  assumes "readKind buf = Inr (KString, ts, cs)"
  shows "\<exists>c r. buf = puthead 0x80 0xB7 (word_of_nat (length c)) @ c @ r \<and> length c = cs \<and>
    ts = length (puthead 0x80 0xB7 (word_of_nat (length c))) \<and> \<not> (length c = 1 \<and> c ! 0 < 128) \<and>
    length c < 2 ^ 64"
proof -
  from assms obtain b rest where buf: "buf = b # rest" by (cases buf) (auto simp: readKind_eq)
  from assms buf have ge: "0x80 \<le> b" by (auto simp: readKind_eq Let_def fits_Inr split: if_splits)
  show ?thesis
  proof (cases "b < 0xB8")
    case True
    with assms buf ge have ts: "ts = 1" and cs: "cs = unat (b - 0x80)" and le: "cs \<le> length rest"
      and nc: "cs = 1 \<Longrightarrow> \<not> rest ! 0 < 128"
      by (auto simp: readKind_eq Let_def fits_Inr not_le split: if_splits)
    have "cs < 56" using True ge by (simp add: cs unat_minus_tag word_less_nat_alt word_le_nat_alt)
    with small_canonical [OF ge, where rest = rest and lt = "0xB7"] le cs obtain c r where
      "rest = c @ r" "buf = puthead 0x80 0xB7 (word_of_nat (length c)) @ c @ r" "length c = cs"
      "length (puthead 0x80 0xB7 (word_of_nat (length c))) = 1" unfolding buf by blast
    with ts nc \<open>cs < 56\<close> show ?thesis
      by (intro exI [of _ c] exI [of _ r]) (auto simp: nth_append)
  next
    case False
    with assms buf ge have lt: "b < 0xC0"
      by (auto simp: readKind_eq Let_def fits_Inr bind_result_eq_Inr split: if_splits)
    with assms buf ge False obtain s where s: "readSize rest (b - 0xB7) = Inr s"
      and ts: "ts = unat (b - 0xB7) + 1" and cs: "cs = unat s" and le: "cs \<le> length buf - ts"
      by (auto simp: readKind_eq Let_def fits_Inr bind_result_eq_Inr split: if_splits)
    have u: "unat (b - 0xB7) = unat b - 183"
      using False by (subst unat_minus_tag) (simp_all add: word_le_nat_alt word_less_nat_alt)
    have "1 \<le> unat (b - 0xB7)" "unat (b - 0xB7) \<le> 8"
      using False lt u by (simp_all add: word_less_nat_alt)
    from large_canonical [OF s this, where st = "0x80"] le cs ts unat_u64_less [of s] show ?thesis
      by (fastforce simp: buf)
  qed
qed

lemma readKind_List_canonical:
  assumes "readKind buf = Inr (KList, ts, cs)"
  shows "\<exists>c r. buf = puthead 0xC0 0xF7 (word_of_nat (length c)) @ c @ r \<and> length c = cs \<and>
    ts = length (puthead 0xC0 0xF7 (word_of_nat (length c))) \<and> length c < 2 ^ 64"
proof -
  from assms obtain b rest where buf: "buf = b # rest" by (cases buf) (auto simp: readKind_eq)
  from assms buf have ge: "0xC0 \<le> b"
    by (auto simp: readKind_eq Let_def fits_Inr bind_result_eq_Inr split: if_splits)
  then have ge': "\<not> b < 0x80" "\<not> b < 0xB8" "\<not> b < 0xC0" by (simp_all add: word_less_nat_alt word_le_nat_alt)
  show ?thesis
  proof (cases "b < 0xF8")
    case True
    with assms buf ge' have ts: "ts = 1" and cs: "cs = unat (b - 0xC0)" and le: "cs \<le> length rest"
      by (auto simp: readKind_eq Let_def fits_Inr)
    have lt: "cs < 56" using True ge by (simp add: cs unat_minus_tag word_less_nat_alt word_le_nat_alt)
    with small_canonical [OF ge, where rest = rest and lt = "0xF7"] le cs obtain c r where
      "buf = puthead 0xC0 0xF7 (word_of_nat (length c)) @ c @ r" "length c = cs"
      "length (puthead 0xC0 0xF7 (word_of_nat (length c))) = 1" unfolding buf by blast
    with ts lt show ?thesis by (intro exI [of _ c] exI [of _ r]) auto
  next
    case False
    with assms buf ge' obtain s where s: "readSize rest (b - 0xF7) = Inr s"
      and ts: "ts = unat (b - 0xF7) + 1" and cs: "cs = unat s" and le: "cs \<le> length buf - ts"
      by (auto simp: readKind_eq Let_def fits_Inr bind_result_eq_Inr)
    have u: "unat (b - 0xF7) = unat b - 247"
      using False by (subst unat_minus_tag) (simp_all add: word_le_nat_alt word_less_nat_alt)
    have "1 \<le> unat (b - 0xF7)" "unat (b - 0xF7) \<le> 8"
      using False u unat_byte_less [of b] by (simp_all add: word_less_nat_alt)
    from large_canonical [OF s this, where st = "0xC0"] le cs ts unat_u64_less [of s] show ?thesis
      by (fastforce simp: buf)
  qed
qed

lemma readKind_Byte_canonical:
  "readKind buf = Inr (KByte, ts, cs) \<Longrightarrow> ts = 0 \<and> cs = 1 \<and> (\<exists>x r. buf = x # r \<and> x < 0x80)"
  by (cases buf) (auto simp: readKind_eq Let_def fits_Inr bind_result_eq_Inr split: if_splits)

lemma Split_canonical_aux:
  assumes "Split buf = Inr (k, c, r)"
  shows "buf = (if k = KList then puthead 0xC0 0xF7 (word_of_nat (length c)) @ c else rlp_encode (Str c)) @ r"
    and "k \<noteq> KList \<Longrightarrow> k = str_kind c" and "length c < 2 ^ 64"
proof -
  from assms obtain ts cs where rk: "readKind buf = Inr (k, ts, cs)"
    and c: "c = drop ts (take (ts + cs) buf)" and r: "r = drop (ts + cs) buf"
    by (auto simp: Split_eq bind_result_eq_Inr)
  have "buf = (if k = KList then puthead 0xC0 0xF7 (word_of_nat (length c)) @ c else rlp_encode (Str c)) @ r
     \<and> (k \<noteq> KList \<longrightarrow> k = str_kind c) \<and> length c < 2 ^ 64"
  proof (cases k)
    case KByte
    then show ?thesis
      using readKind_Byte_canonical [of buf ts cs] rk c r by (auto simp: str_kind_def byte_le_7F)
  next
    case KString
    then show ?thesis
      using readKind_String_canonical [of buf ts cs] rk c r by (auto simp: str_kind_def byte_le_7F)
  next
    case KList
    then show ?thesis
      using readKind_List_canonical [of buf ts cs] rk c r by auto
  qed
  then show "buf = (if k = KList then puthead 0xC0 0xF7 (word_of_nat (length c)) @ c else rlp_encode (Str c)) @ r"
    and "k \<noteq> KList \<Longrightarrow> k = str_kind c" and "length c < 2 ^ 64" by blast+
qed

section \<open>Counting values\<close>

fun item_small :: "item \<Rightarrow> bool" where
  "item_small (Str b) \<longleftrightarrow> length b < 2 ^ 64"
| "item_small (Lst xs) \<longleftrightarrow> length (concat (map rlp_encode xs)) < 2 ^ 64 \<and> (\<forall>x \<in> set xs. item_small x)"

lemma Split_progress: "Split buf = Inr (k, c, r) \<Longrightarrow> length r < length buf"
proof -
  assume s: "Split buf = Inr (k, c, r)"
  then have "buf \<noteq> []" by (auto simp: Split_eq readKind_eq)
  with s show ?thesis by (cases buf) (auto simp: Split_eq bind_result_eq_Inr dest!: readKind_progress)
qed

lemma CountValues_from_Split:
  "CountValues_from i b =
     (if b = [] then Inr i
      else case Split b of Inl e \<Rightarrow> Inl e | Inr (_, _, rest) \<Rightarrow> CountValues_from (Suc i) rest)"
  by (subst CountValues_from.simps) (auto simp: Split_eq slice_bytes_def dest: readKind_bound split: sum.splits prod.splits)

lemma Split_item:
  "item_small x \<Longrightarrow> \<exists>k c. Split (rlp_encode x @ r) = Inr (k, c, r)"
  by (cases x) (auto simp: Split_Str Split_Lst simp del: rlp_encode.simps)

lemma rlp_encode_not_Nil [simp]: "rlp_encode x \<noteq> []"
  by (cases x) (auto simp: puthead_def Let_def)

lemma CountValues_items:
  "\<forall>x \<in> set xs. item_small x \<Longrightarrow> CountValues_from i (concat (map rlp_encode xs)) = Inr (i + length xs)"
proof (induction xs arbitrary: i)
  case Nil
  then show ?case by (simp add: CountValues_from.simps)
next
  case (Cons x xs)
  then obtain k c where "Split (rlp_encode x @ concat (map rlp_encode xs)) = Inr (k, c, concat (map rlp_encode xs))"
    using Split_item by fastforce
  with Cons show ?case by (subst CountValues_from_Split) simp
qed

section \<open>Properties\<close>

lemma Split_Inr_iff:
  "Split buf = Inr (k, c, r) \<longleftrightarrow>
     buf = (if k = KList then puthead 0xC0 0xF7 (word_of_nat (length c)) @ c else rlp_encode (Str c)) @ r \<and>
     (k = KList \<or> k = str_kind c) \<and> length c < 2 ^ 64" (is "?l \<longleftrightarrow> ?r")
proof
  show "?l \<Longrightarrow> ?r" using Split_canonical_aux by blast
  assume ?r
  then show ?l
    using Split_Str [of c r] readKind_puthead_List [of c r] by (cases "k = KList") (auto simp: Split_eq simp del: rlp_encode.simps)
qed

text \<open>Where the panic of \<open>readKind\<close> surfaces.\<close>

lemma readKind_panic: "readKind buf = Inl RlpPanic \<longleftrightarrow> buf = [0x81]"
proof (cases buf)
  case Nil
  then show ?thesis by (simp add: readKind_eq)
next
  case (Cons b rest)
  have one: "unat (b - 0x80) = 1 \<longleftrightarrow> b = 0x81"
  proof -
    have "unat (b - 0x80) = 1 \<longleftrightarrow> b - 0x80 = 1" by (metis unat_1 word_unat_eq_iff)
    then show ?thesis by (simp add: diff_eq_eq)
  qed
  have ft: "fits x k ts cs \<noteq> Inl RlpPanic" for x k ts cs by (simp add: fits_def)
  have rs: "bind_result (readSize x y) (\<lambda>s. fits buf k ts (unat s)) \<noteq> Inl RlpPanic" for x y k ts
    by (simp add: bind_result_eq_Inl ft) (simp add: readSize_eq Let_def)
  have r81: "\<not> 0x81 < (0x80 :: byte)" "0x81 < (0xB8 :: byte)" by simp_all
  show ?thesis
  proof (cases "b = 0x81")
    case True
    then show ?thesis using ft by (simp add: Cons readKind_eq)
  next
    case False
    with one have "unat (b - 0x80) \<noteq> 1" by simp
    then show ?thesis using False ft rs unfolding readKind_eq Cons by (simp add: Let_def)
  qed
qed

lemma Split_panic: "Split buf = Inl RlpPanic \<longleftrightarrow> buf = [0x81]"
  unfolding readKind_panic [symmetric] Split_eq by (cases "readKind buf") auto

lemma variant_panics: "SplitString buf = Inl RlpPanic \<longleftrightarrow> buf = [0x81]" "SplitList buf = Inl RlpPanic \<longleftrightarrow> buf = [0x81]"
  unfolding Split_panic [symmetric] SplitString_def SplitList_def
  by (cases "Split buf"; fastforce simp: bind_result_eq_Inl split: if_splits)+

lemma Split_append: "Split b = Inr (k, c, r) \<Longrightarrow> Split (b @ x) = Inr (k, c, r @ x)"
  by (simp add: Split_Inr_iff)

lemma CountValues_panic:
  "CountValues_from i b = Inl RlpPanic \<longleftrightarrow> (\<exists>pre n. b = pre @ [0x81] \<and> CountValues_from i pre = Inr n)"
proof (induction "length b" arbitrary: i b rule: less_induct)
  case less
  show ?case
  proof (cases "b = []")
    case False
    show ?thesis
    proof (cases "Split b")
      case (Inl e)
      have "CountValues_from i b = Inl e" using False Inl by (subst CountValues_from_Split) simp
      moreover have "pre = []" if b: "b = pre @ [0x81]" "CountValues_from i pre = Inr n" for pre n
      proof (rule ccontr)
        assume "pre \<noteq> []"
        then obtain k c r where "Split pre = Inr (k, c, r)"
          using b(2) by (subst (asm) CountValues_from_Split) (auto split: sum.splits)
        from Split_append [OF this, of "[0x81]"] Inl b(1) show False by simp
      qed
      moreover have "CountValues_from i [] = Inr i" by (simp add: CountValues_from.simps)
      ultimately show ?thesis using Split_panic [of b] Inl by auto
    next
      case (Inr x)
      then obtain k c r where x: "Split b = Inr (k, c, r)" by (cases x) auto
      have l: "length r < length b" by (rule Split_progress [OF x])
      have bl: "CountValues_from i b = CountValues_from (Suc i) r" using False x by (subst CountValues_from_Split) simp
      show ?thesis unfolding bl less.hyps [OF l]
      proof (intro iffI; elim exE conjE)
        fix pre n assume pre: "r = pre @ [0x81]" "CountValues_from (Suc i) pre = Inr n"
        define q where "q = (if k = KList then puthead 0xC0 0xF7 (word_of_nat (length c)) @ c else rlp_encode (Str c))"
        have q: "b = q @ pre @ [0x81]" using x pre(1) unfolding Split_Inr_iff q_def by blast
        then have ne: "q \<noteq> []" using l pre(1) by auto
        have "Split (q @ pre) = Inr (k, c, pre)" using x unfolding Split_Inr_iff q_def by blast
        then have "CountValues_from i (q @ pre) = Inr n" using ne pre(2) by (subst CountValues_from_Split) simp
        then show "\<exists>pre n. b = pre @ [0x81] \<and> CountValues_from i pre = Inr n" using q by (intro exI [of _ "q @ pre"]) auto
      next
        fix pre n assume pre: "b = pre @ [0x81]" "CountValues_from i pre = Inr n"
        show "\<exists>pre n. r = pre @ [0x81] \<and> CountValues_from (Suc i) pre = Inr n"
        proof (cases "pre = []")
          case True
          then show ?thesis using x pre(1) Split_panic [of b] by simp
        next
          case False
          then obtain k' c' r' where s: "Split pre = Inr (k', c', r')" "CountValues_from (Suc i) r' = Inr n"
            using pre(2) by (subst (asm) CountValues_from_Split) (auto split: sum.splits)
          from Split_append [OF s(1), of "[0x81]"] x pre(1) have "r = r' @ [0x81]" by simp
          then show ?thesis using s(2) by blast
        qed
      qed
    qed
  qed (simp add: CountValues_from.simps)
qed

section \<open>Properties\<close>

text \<open>C2.  What \<open>Split\<close> accepts, exactly: a string in its one canonical encoding (a byte below
  \<open>0x80\<close> stands for itself), or a list whose head is the minimal head for the length of its payload,
  followed by any rest; it returns the content and the rest.  The payload of a list is cut off and
  not inspected.\<close>

theorem Split_accepts:
  "Split buf = Inr (k, c, r) \<longleftrightarrow>
     buf = (if k = KList then puthead 0xC0 0xF7 (word_of_nat (length c)) @ c else rlp_encode (Str c)) @ r \<and>
     (k = KList \<or> k = str_kind c) \<and> length c < 2 ^ 64"
  by (rule Split_Inr_iff)

text \<open>C3.  The one out-of-range access of \<open>raw.go\<close>.  Every index and slice expression of \<open>readSize\<close>,
  \<open>readKind\<close>, \<open>Split\<close> and \<open>CountValues\<close> is checked; \<open>readKind\<close>, \<open>Split\<close>, \<open>SplitString\<close> and
  \<open>SplitList\<close> panic on the one-byte input \<open>0x81\<close> and on no other input, and \<open>CountValues\<close> exactly on
  countable values followed by a final \<open>0x81\<close>.\<close>

theorem raw_panics_iff:
  "(readKind buf = Inl RlpPanic \<longleftrightarrow> buf = [0x81]) \<and> (Split buf = Inl RlpPanic \<longleftrightarrow> buf = [0x81]) \<and>
   (SplitString buf = Inl RlpPanic \<longleftrightarrow> buf = [0x81]) \<and> (SplitList buf = Inl RlpPanic \<longleftrightarrow> buf = [0x81]) \<and>
   (CountValues buf = Inl RlpPanic \<longleftrightarrow> (\<exists>pre n. buf = pre @ [0x81] \<and> CountValues pre = Inr n))"
  by (simp add: readKind_panic Split_panic variant_panics CountValues_def CountValues_panic)

end
