(* ===== verification/Rlp_Stream.thy ===== *)
theory Rlp_Stream
  imports Rlp_Raw
begin

unbundle bit_operations_syntax

text \<open>
  The streaming RLP decoder (\<open>src/rlp/decode.go\<close>).  A \<open>stream\<close> holds the unread input, the
  input limit, the kind and size of the value it is positioned at (\<open>None\<close> is the source's
  kind \<open>-1\<close>: nothing read yet) and the stack of enclosing lists, innermost first.  Every
  operation returns its result together with the new stream, on errors too: \<open>EOL\<close> is an
  error the list decoders catch.  Sizes are natural numbers; the invariant
  of \<open>Rlp_Safety\<close>, kept by every operation, shows that no arithmetic of the source wraps.
\<close>

record stream =
  st_r :: bytes
  st_remaining :: nat
  st_limited :: bool
  st_kind :: "kind option"
  st_size :: nat
  st_byteval :: byte
  st_kinderr :: "rlp_error option"
  st_stack :: "(nat \<times> nat) list"

type_synonym 'a sop = "stream \<Rightarrow> (rlp_error + 'a) \<times> stream"

definition sbind :: "'a sop \<Rightarrow> ('a \<Rightarrow> 'b sop) \<Rightarrow> 'b sop" where
  "sbind m f s = (case m s of (Inl e, s') \<Rightarrow> (Inl e, s') | (Inr a, s') \<Rightarrow> f a s')"

section \<open>Reading\<close>

definition NewStream :: "bytes \<Rightarrow> nat \<Rightarrow> stream" where
  "NewStream r inputLimit =
     \<lparr>st_r = r, st_remaining = (if inputLimit > 0 then inputLimit else length r), st_limited = True,
      st_kind = None, st_size = 0, st_byteval = 0, st_kinderr = None, st_stack = []\<rparr>"

definition limit_check :: "nat \<Rightarrow> unit sop" where
  "limit_check n s =
     (if st_limited s then
        (if n > st_remaining s then (Inl ErrValueTooLarge, s)
         else (Inr (), s\<lparr>st_remaining := st_remaining s - n\<rparr>))
      else (Inr (), s))"

definition willRead :: "nat \<Rightarrow> unit sop" where
  "willRead n s0 =
     (let s = s0\<lparr>st_kind := None\<rparr> in
      case st_stack s of
        [] \<Rightarrow> limit_check n s
      | (pos, sz) # stk \<Rightarrow>
          if n > sz - pos then (Inl ErrElemTooLarge, s)
          else limit_check n (s\<lparr>st_stack := (pos + n, sz) # stk\<rparr>))"

definition readByte :: "byte sop" where
  "readByte = sbind (willRead 1) (\<lambda>_ s.
     case st_r s of [] \<Rightarrow> (Inl IoUnexpectedEOF, s) | b # r \<Rightarrow> (Inr b, s\<lparr>st_r := r\<rparr>))"

definition readFull :: "nat \<Rightarrow> bytes sop" where
  "readFull n = sbind (willRead n) (\<lambda>_ s.
     if n \<le> length (st_r s) then (Inr (take n (st_r s)), s\<lparr>st_r := drop n (st_r s)\<rparr>)
     else (Inl IoUnexpectedEOF, s\<lparr>st_r := []\<rparr>))"

definition readUint :: "nat \<Rightarrow> nat sop" where
  "readUint sz s =
     (if sz = 0 then (Inr 0, s\<lparr>st_kind := None\<rparr>)
      else if sz = 1 then sbind readByte (\<lambda>b s'. (Inr (unat b), s')) s
      else sbind (readFull sz) (\<lambda>buf s'.
        if buf ! 0 = 0 then (Inl ErrCanonSize, s') else (Inr (be_nat buf), s')) s)"

text \<open>\<open>readKind\<close> returns a kind and a size even when it also returns an error.\<close>

definition long_size :: "kind \<Rightarrow> nat \<Rightarrow> stream \<Rightarrow> (kind \<times> nat \<times> rlp_error option) \<times> stream" where
  "long_size k n s =
     (case readUint n s of
        (Inl e, s') \<Rightarrow> ((k, 0, Some e), s')
      | (Inr sz, s') \<Rightarrow> ((k, sz, if sz < 56 then Some ErrCanonSize else None), s'))"

definition stream_readKind :: "stream \<Rightarrow> (kind \<times> nat \<times> rlp_error option) \<times> stream" where
  "stream_readKind s =
     (case readByte s of
        (Inl e, s') \<Rightarrow>
          ((KByte, 0, Some (if st_stack s' = [] \<and> (e = IoUnexpectedEOF \<or> e = ErrValueTooLarge)
                            then IoEOF else e)), s')
      | (Inr b, s1) \<Rightarrow>
          let s' = s1\<lparr>st_byteval := 0\<rparr> in
          if b < 0x80 then ((KByte, 0, None), s'\<lparr>st_byteval := b\<rparr>)
          else if b < 0xB8 then ((KString, unat (b - 0x80), None), s')
          else if b < 0xC0 then long_size KString (unat (b - 0xB7)) s'
          else if b < 0xF8 then ((KList, unat (b - 0xC0), None), s')
          else long_size KList (unat (b - 0xF7)) s')"

definition Kind :: "(kind \<times> nat) sop" where
  "Kind s =
     (case st_kind s of
        Some k \<Rightarrow> (case st_kinderr s of None \<Rightarrow> (Inr (k, st_size s), s) | Some e \<Rightarrow> (Inl e, s))
      | None \<Rightarrow>
          let s0 = s\<lparr>st_kinderr := None\<rparr> in
          if (case st_stack s of [] \<Rightarrow> False | (pos, sz) # _ \<Rightarrow> pos = sz) then (Inl EOL, s0)
          else
            let ((k, sz, err), s1) = stream_readKind s0;
                err' = (case err of
                    Some e \<Rightarrow> Some e
                  | None \<Rightarrow>
                      (case st_stack s1 of
                         [] \<Rightarrow> if st_limited s1 \<and> sz > st_remaining s1 then Some ErrValueTooLarge else None
                       | (pos, lsz) # _ \<Rightarrow> if sz > lsz - pos then Some ErrElemTooLarge else None));
                s2 = s1\<lparr>st_kind := Some k, st_size := sz, st_kinderr := err'\<rparr>
            in (case err' of None \<Rightarrow> (Inr (k, sz), s2) | Some e \<Rightarrow> (Inl e, s2)))"

section \<open>Values\<close>

definition Bytes :: "bytes sop" where
  "Bytes = sbind Kind (\<lambda>(kind, sz) s.
     case kind of
       KByte \<Rightarrow> (Inr [st_byteval s], s\<lparr>st_kind := None\<rparr>)
     | KString \<Rightarrow> sbind (readFull sz) (\<lambda>b s'.
         if sz = 1 \<and> b ! 0 < 128 then (Inl ErrCanonSize, s') else (Inr b, s')) s
     | KList \<Rightarrow> (Inl ErrExpectedString, s))"

definition stream_uint :: "nat \<Rightarrow> nat sop" where
  "stream_uint maxbits = sbind Kind (\<lambda>(kind, sz) s.
     case kind of
       KByte \<Rightarrow>
         if st_byteval s = 0 then (Inl ErrCanonInt, s)
         else (Inr (unat (st_byteval s)), s\<lparr>st_kind := None\<rparr>)
     | KString \<Rightarrow>
         if sz > maxbits div 8 then (Inl ErrUintOverflow, s)
         else (case readUint sz s of
                 (Inl e, s') \<Rightarrow> (Inl (if e = ErrCanonSize then ErrCanonInt else e), s')
               | (Inr v, s') \<Rightarrow> if sz > 0 \<and> v < 128 then (Inl ErrCanonSize, s') else (Inr v, s'))
     | KList \<Rightarrow> (Inl ErrExpectedString, s))"

definition stream_Bool :: "bool sop" where
  "stream_Bool = sbind (stream_uint 8) (\<lambda>num s.
     if num = 0 then (Inr False, s) else if num = 1 then (Inr True, s)
     else (Inl (DecodeError ''rlp: invalid boolean value''), s))"

definition List_op :: "nat sop" where
  "List_op = sbind Kind (\<lambda>(kind, sz) s.
     if kind \<noteq> KList then (Inl ErrExpectedList, s)
     else (Inr sz, s\<lparr>st_stack := (0, sz) # st_stack s, st_kind := None, st_size := 0\<rparr>))"

definition ListEnd :: "unit sop" where
  "ListEnd s =
     (case st_stack s of
        [] \<Rightarrow> (Inl ErrNotInList, s)
      | (pos, sz) # stk \<Rightarrow>
          if pos \<noteq> sz then (Inl ErrNotAtEOL, s)
          else
            let stk' = (case stk of [] \<Rightarrow> [] | (ppos, psz) # rest \<Rightarrow> (ppos + sz, psz) # rest)
            in (Inr (), s\<lparr>st_stack := stk', st_kind := None, st_size := 0\<rparr>))"

section \<open>Typed decoders\<close>

definition wrapStreamError :: "rlp_error \<Rightarrow> rlp_error" where
  "wrapStreamError e =
     (case e of
        ErrCanonInt \<Rightarrow> DecodeError ''non-canonical integer (leading zero bytes)''
      | ErrCanonSize \<Rightarrow> DecodeError ''non-canonical size information''
      | ErrExpectedList \<Rightarrow> DecodeError ''expected input list''
      | ErrExpectedString \<Rightarrow> DecodeError ''expected input string or byte''
      | ErrUintOverflow \<Rightarrow> DecodeError ''input string too long''
      | ErrNotAtEOL \<Rightarrow> DecodeError ''input list has too many elements''
      | _ \<Rightarrow> e)"

definition wrapped :: "'a sop \<Rightarrow> 'a sop" where
  "wrapped m s = (case m s of (Inl e, s') \<Rightarrow> (Inl (wrapStreamError e), s') | (Inr a, s') \<Rightarrow> (Inr a, s'))"

definition decodeUint :: "nat \<Rightarrow> nat sop" where
  "decodeUint bits = wrapped (stream_uint bits)"

definition decodeBool :: "bool sop" where
  "decodeBool = wrapped stream_Bool"

definition decodeByteSlice :: "bytes sop" where
  "decodeByteSlice = wrapped Bytes"

definition decodeBigInt :: "nat sop" where
  "decodeBigInt = sbind (wrapped Bytes) (\<lambda>b s.
     if length b > 0 \<and> b ! 0 = 0 then (Inl (wrapStreamError ErrCanonInt), s)
     else (Inr (be_nat b), s))"

definition decodeByteArray :: "nat \<Rightarrow> bytes sop" where
  "decodeByteArray vlen = sbind Kind (\<lambda>(kind, sz) s.
     case kind of
       KByte \<Rightarrow>
         if vlen = 0 then (Inl (DecodeError ''input string too long''), s)
         else if vlen > 1 then (Inl (DecodeError ''input string too short''), s)
         else (case stream_uint 64 s of
                 (Inl _, s') \<Rightarrow> (Inr [0], s')
               | (Inr bv, s') \<Rightarrow> (Inr [word_of_nat bv], s'))
     | KString \<Rightarrow>
         if vlen < sz then (Inl (DecodeError ''input string too long''), s)
         else if vlen > sz then (Inl (DecodeError ''input string too short''), s)
         else sbind (readFull vlen) (\<lambda>slice s'.
           if sz = 1 \<and> slice ! 0 < 128 then (Inl (wrapStreamError ErrCanonSize), s')
           else (Inr slice, s')) s
     | KList \<Rightarrow> (Inl (wrapStreamError ErrExpectedString), s))"

text \<open>The element loop runs until the element decoder reports the end of the list.  It
  consumes input in every round, so the length of the input bounds the rounds.\<close>

fun decodeSliceElems :: "nat \<Rightarrow> 'a sop \<Rightarrow> 'a list \<Rightarrow> 'a list sop" where
  "decodeSliceElems 0 elemdec acc s = (Inl RlpOutOfFuel, s)"
| "decodeSliceElems (Suc fuel) elemdec acc s =
     (case elemdec s of
        (Inl e, s') \<Rightarrow> if e = EOL then (Inr acc, s') else (Inl e, s')
      | (Inr v, s') \<Rightarrow> decodeSliceElems fuel elemdec (acc @ [v]) s')"

definition decodeListSlice :: "nat \<Rightarrow> 'a sop \<Rightarrow> 'a list sop" where
  "decodeListSlice fuel elemdec = sbind (wrapped List_op) (\<lambda>sz s.
     if sz = 0 then sbind ListEnd (\<lambda>_ s'. (Inr [], s')) s
     else sbind (decodeSliceElems fuel elemdec []) (\<lambda>vs. sbind ListEnd (\<lambda>_ s'. (Inr vs, s'))) s)"

fun decodeInterface :: "nat \<Rightarrow> item sop" where
  "decodeInterface 0 s = (Inl RlpOutOfFuel, s)"
| "decodeInterface (Suc fuel) s = sbind Kind (\<lambda>(kind, _) s'.
     if kind = KList
     then sbind (decodeListSlice fuel (decodeInterface fuel)) (\<lambda>xs s''. (Inr (Lst xs), s'')) s'
     else sbind Bytes (\<lambda>b s''. (Inr (Str b), s'')) s') s"

definition DecodeBytes :: "'a sop \<Rightarrow> bytes \<Rightarrow> rlp_error + 'a" where
  "DecodeBytes decoder b =
     (case decoder (NewStream b (length b)) of
        (Inl e, _) \<Rightarrow> Inl e
      | (Inr v, s) \<Rightarrow> if length (st_r s) > 0 then Inl ErrMoreThanOneValue else Inr v)"

text \<open>Decoding into an \<open>interface{}\<close>, and into a slice of fixed-size byte arrays.\<close>

definition decode_item :: "bytes \<Rightarrow> rlp_error + item" where
  "decode_item b = DecodeBytes (decodeInterface (length b + 1)) b"

definition decode_arrays :: "nat \<Rightarrow> bytes \<Rightarrow> rlp_error + bytes list" where
  "decode_arrays vlen b = DecodeBytes (decodeListSlice (length b + 1) (decodeByteArray vlen)) b"

section \<open>Consuming input\<close>

definition bump :: "nat \<Rightarrow> (nat \<times> nat) list \<Rightarrow> (nat \<times> nat) list" where
  "bump n stk = (case stk of [] \<Rightarrow> [] | (pos, sz) # rest \<Rightarrow> (pos + n, sz) # rest)"

definition consume :: "nat \<Rightarrow> stream \<Rightarrow> stream" where
  "consume n s = s\<lparr>st_r := drop n (st_r s), st_remaining := st_remaining s - n, st_kind := None,
      st_stack := bump n (st_stack s)\<rparr>"

text \<open>How much the innermost list (or the input) still allows to be read.\<close>

definition room :: "stream \<Rightarrow> nat" where
  "room s = (case st_stack s of [] \<Rightarrow> length (st_r s) | (pos, sz) # _ \<Rightarrow> sz - pos)"

definition avail :: "stream \<Rightarrow> nat" where
  "avail s = min (room s) (length (st_r s))"

text \<open>The stream counts exactly the input that is left, as \<open>DecodeBytes\<close> sets it up.\<close>

definition exact :: "stream \<Rightarrow> bool" where
  "exact s \<longleftrightarrow> st_limited s \<and> st_remaining s = length (st_r s)"

lemma bump_bump [simp]: "bump m (bump n stk) = bump (n + m) stk"
  by (auto simp: bump_def split: list.splits)

lemma bump_0 [simp]: "bump 0 stk = stk"
  by (auto simp: bump_def split: list.splits)

lemma bump_Nil_iff [simp]: "bump n stk = [] \<longleftrightarrow> stk = []"
  by (auto simp: bump_def split: list.splits)

lemma consume_simps [simp]:
  "st_r (consume n s) = drop n (st_r s)"
  "st_kind (consume n s) = None"
  "st_stack (consume n s) = bump n (st_stack s)"
  "st_limited (consume n s) = st_limited s"
  "st_remaining (consume n s) = st_remaining s - n"
  "st_byteval (consume n s) = st_byteval s"
  "st_kinderr (consume n s) = st_kinderr s"
  "st_size (consume n s) = st_size s"
  by (simp_all add: consume_def)

lemma exact_consume [simp]: "exact s \<Longrightarrow> exact (consume n s)"
  by (simp add: exact_def)

lemma room_consume: "room (consume n s) = room s - n"
  by (auto simp: room_def bump_def split: list.splits)

lemma avail_consume: "avail (consume n s) = avail s - n"
  by (auto simp: avail_def room_consume)

lemma sbind_Inr: "sbind m f s = (Inr b, s') \<longleftrightarrow> (\<exists>a s1. m s = (Inr a, s1) \<and> f a s1 = (Inr b, s'))"
  by (auto simp: sbind_def split: prod.splits sum.splits)

lemma sbind_eval: "m s = (Inr a, s1) \<Longrightarrow> sbind m f s = f a s1"
  by (simp add: sbind_def)

lemma willRead_ok:
  assumes "exact s" and "n \<le> avail s"
  shows "willRead n s = (Inr (), (consume n s)\<lparr>st_r := st_r s\<rparr>)"
  using assms
  by (auto simp: willRead_def limit_check_def consume_def exact_def avail_def room_def bump_def Let_def
      split: list.splits)

lemma willRead_too_much:
  assumes "exact s" and "\<not> n \<le> avail s"
  shows "\<exists>e s'. willRead n s = (Inl e, s')"
  using assms
  by (auto simp: willRead_def limit_check_def exact_def avail_def room_def Let_def split: list.splits)

lemma readFull_eq:
  assumes "exact s"
  shows "readFull n s = (Inr b, s') \<longleftrightarrow> n \<le> avail s \<and> b = take n (st_r s) \<and> s' = consume n s"
proof (cases "n \<le> avail s")
  case True
  with willRead_ok [OF assms True] show ?thesis
    by (auto simp: readFull_def sbind_def consume_def avail_def)
next
  case False
  with willRead_too_much [OF assms False] show ?thesis by (auto simp: readFull_def sbind_def)
qed

lemma readByte_eq:
  assumes "exact s"
  shows "readByte s = (Inr b, s') \<longleftrightarrow> 0 < avail s \<and> b = hd (st_r s) \<and> s' = consume 1 s"
proof (cases "1 \<le> avail s")
  case True
  then obtain x r where "st_r s = x # r" by (cases "st_r s") (auto simp: avail_def)
  with willRead_ok [OF assms True] True show ?thesis
    by (auto simp: readByte_def sbind_def consume_def)
next
  case False
  with willRead_too_much [OF assms False] show ?thesis by (auto simp: readByte_def sbind_def)
qed

lemma readUint_putint:
  assumes "exact s" and "st_r s = putint i @ r" and "length (putint i) \<le> avail s" and "56 \<le> unat i"
  shows "readUint (length (putint i)) s = (Inr (unat i), consume (length (putint i)) s)"
proof -
  have "i \<noteq> 0" using assms(4) by auto
  then have hd: "hd (putint i) \<noteq> 0" by (rule hd_putint)
  show ?thesis
  proof (cases "length (putint i) = 1")
    case True
    then obtain x where x: "putint i = [x]" by (auto simp: length_Suc_conv)
    have "unat x = unat i" using be_nat_putint [of i] by (simp add: x be_nat_Cons del: be_nat_putint)
    moreover have "readByte s = (Inr x, consume 1 s)"
      using assms True x by (simp add: readByte_eq)
    ultimately show ?thesis using True x by (simp add: readUint_def sbind_def)
  next
    case False
    have rf: "readFull (length (putint i)) s = (Inr (putint i), consume (length (putint i)) s)"
      using assms by (simp add: readFull_eq)
    have "putint i ! 0 \<noteq> 0" using hd by (simp add: hd_conv_nth)
    with False rf show ?thesis by (simp add: readUint_def sbind_def)
  qed
qed

lemma readUint_canonical:
  assumes "exact s" and "readUint n s = (Inr sz, s')" and "1 \<le> n" and "n \<le> 8" and "56 \<le> sz"
  shows "n \<le> avail s \<and> sz < 2 ^ 64 \<and> take n (st_r s) = putint (word_of_nat sz) \<and> s' = consume n s"
proof -
  have h: "n \<le> avail s \<and> be_nat (take n (st_r s)) = sz \<and> s' = consume n s \<and> hd (take n (st_r s)) \<noteq> 0"
  proof (cases "n = 1")
    case True
    with assms obtain b where b: "readByte s = (Inr b, s')" "sz = unat b"
      by (auto simp: readUint_def sbind_Inr)
    then have "0 < avail s" "b = hd (st_r s)" "s' = consume 1 s" using assms(1) by (auto simp: readByte_eq)
    moreover obtain x r where "st_r s = x # r" using calculation(1) by (cases "st_r s") (auto simp: avail_def)
    moreover have "b \<noteq> 0" using b(2) assms(5) by auto
    ultimately show ?thesis using True b(2) by (simp add: be_nat_Cons)
  next
    case False
    with assms obtain buf where "readFull n s = (Inr buf, s')" "buf ! 0 \<noteq> 0" "sz = be_nat buf"
      by (auto simp: readUint_def sbind_Inr split: if_splits)
    moreover then have "buf \<noteq> []" using assms(1,3) by (auto simp: readFull_eq avail_def)
    ultimately show ?thesis using assms(1) by (auto simp: readFull_eq hd_conv_nth)
  qed
  let ?h = "take n (st_r s)"
  have len: "length ?h = n" using h by (simp add: avail_def)
  then have "sz < 256 ^ n" using h be_nat_less [of ?h] by simp
  also have "\<dots> \<le> 256 ^ 8" using assms(4) by (intro power_increasing) auto
  finally have lt: "sz < 2 ^ 64" by simp
  have ne: "?h \<noteq> []" using len assms(3) by auto
  have "word_of_nat sz \<noteq> (0 :: u64)" using lt assms(5) by (metis not_numeral_le_zero unat_0 unat_of_nat_u64)
  then have "?h = putint (word_of_nat sz)"
    using h ne lt by (intro be_nat_canonical) (auto simp: hd_putint unat_of_nat_u64)
  with h lt show ?thesis by simp
qed

section \<open>Heads\<close>

definition head_of :: "kind \<Rightarrow> nat \<Rightarrow> bytes" where
  "head_of k n = (if k = KList then puthead 0xC0 0xF7 (word_of_nat n) else puthead 0x80 0xB7 (word_of_nat n))"

lemma head_of_not_Nil [simp]: "head_of k n \<noteq> []"
  by (simp add: head_of_def puthead_def)

lemma consume_byteval [simp]: "consume n (s\<lparr>st_byteval := b\<rparr>) = (consume n s)\<lparr>st_byteval := b\<rparr>"
  by (simp add: consume_def)

lemma consume_consume [simp]: "consume m (consume n s) = consume (n + m) s"
  by (simp add: consume_def add.commute)

lemma exact_byteval [simp]: "exact (s\<lparr>st_byteval := b\<rparr>) = exact s"
  by (simp add: exact_def)

lemma avail_le: "avail s \<le> length (st_r s)"
  by (simp add: avail_def)

lemma avail_byteval [simp]: "avail (s\<lparr>st_byteval := b\<rparr>) = avail s"
  by (cases "st_stack s") (auto simp: avail_def room_def)

lemma long_size_putint:
  assumes "exact s" and "st_r s = putint i @ r" and "length (putint i) \<le> avail s" and "56 \<le> unat i"
  shows "long_size k (length (putint i)) s = ((k, unat i, None), consume (length (putint i)) s)"
  using readUint_putint [OF assms] assms(4) by (simp add: long_size_def)

lemma tag_range:
  assumes "length (putint i) = n"
  shows "unat (0xB7 + word_of_nat n - 0xB7 :: byte) = n" "unat (0xF7 + word_of_nat n - 0xF7 :: byte) = n"
    "unat (0xB7 + word_of_nat n :: byte) = 183 + n" "unat (0xF7 + word_of_nat n :: byte) = 247 + n"
  using length_putint [of i] assms by (simp_all add: unat_of_nat_byte unat_tag)

lemma stream_readKind_head:
  assumes "exact s" and "k \<noteq> KByte" and "st_r s = head_of k n @ r"
    and "length (head_of k n) \<le> avail s" and "n < 2 ^ 64"
  shows "stream_readKind s = ((k, n, None), (consume (length (head_of k n)) s)\<lparr>st_byteval := 0\<rparr>)"
proof -
  obtain b t where ht: "head_of k n = b # t" by (cases "head_of k n") auto
  have av: "0 < avail s" using assms(4) ht by simp
  have rb: "readByte s = (Inr b, consume 1 s)"
    using assms(1,3) av ht by (simp add: readByte_eq)
  show ?thesis
  proof (cases "n < 56")
    case True
    have t: "t = []" and b: "b = (if k = KList then 0xC0 else 0x80) + word_of_nat n"
      using ht puthead_small [OF True] by (auto simp: head_of_def split: if_splits)
    have u: "unat b = (if k = KList then 192 else 128) + n" using True b by (simp add: unat_tag)
    have d: "unat (b - 0x80) = n" if "k \<noteq> KList"
      using that b True by (simp add: unat_of_nat_byte)
    have d': "unat (b - 0xC0) = n" if "k = KList"
      using that b True by (simp add: unat_of_nat_byte)
    show ?thesis
    proof (cases "k = KList")
      case isl: True
      have "\<not> b < 0x80" "\<not> b < 0xB8" "\<not> b < 0xC0" "b < 0xF8"
        using u True isl by (simp_all add: word_less_nat_alt)
      then show ?thesis using rb ht t isl d' by (simp add: stream_readKind_def Let_def)
    next
      case nl: False
      then have "k = KString" using assms(2) by (cases k) auto
      moreover have "\<not> b < 0x80" "b < 0xB8" using u True nl by (simp_all add: word_less_nat_alt)
      ultimately show ?thesis using rb ht t nl d by (simp add: stream_readKind_def Let_def)
    qed
  next
    case False
    let ?i = "word_of_nat n :: u64"
    have ui: "unat ?i = n" using assms(5) by (simp add: unat_of_nat_u64)
    have t: "t = putint ?i" and b: "b = (if k = KList then 0xF7 else 0xB7) + word_of_nat (length (putint ?i))"
      using ht puthead_large [of n] False assms(5) by (auto simp: head_of_def split: if_splits)
    note tr = tag_range [OF refl, of ?i]
    let ?s1 = "(consume 1 s)\<lparr>st_byteval := 0\<rparr>"
    have ls: "long_size k (length (putint ?i)) ?s1 = ((k, n, None), consume (length (putint ?i)) ?s1)"
      using long_size_putint [of ?s1 ?i r k] assms ht t ui False by (simp add: avail_consume)
    have rg: "0 < length (putint ?i)" "length (putint ?i) \<le> 8" by (rule length_putint)+
    show ?thesis
    proof (cases "k = KList")
      case isl: True
      have "\<not> b < 0x80" "\<not> b < 0xB8" "\<not> b < 0xC0" "\<not> b < 0xF8"
        using b tr isl rg by (simp_all add: word_less_nat_alt)
      then show ?thesis using rb ht t b isl ls tr by (simp add: stream_readKind_def Let_def)
    next
      case nl: False
      then have "k = KString" using assms(2) by (cases k) auto
      moreover have "\<not> b < 0x80" "\<not> b < 0xB8" "b < 0xC0"
        using b tr nl rg by (simp_all add: word_less_nat_alt)
      ultimately show ?thesis using rb ht t b nl ls tr by (simp add: stream_readKind_def Let_def)
    qed
  qed
qed

lemma stream_readKind_byte:
  assumes "exact s" and "st_r s = x # r" and "x < 0x80" and "0 < avail s"
  shows "stream_readKind s = ((KByte, 0, None), (consume 1 s)\<lparr>st_byteval := x\<rparr>)"
proof -
  have "readByte s = (Inr x, consume 1 s)" using assms by (simp add: readByte_eq)
  with assms(3) show ?thesis by (simp add: stream_readKind_def Let_def)
qed

lemma long_size_canonical:
  assumes "exact s" and "long_size k n s = ((k', sz, None), s')" and "1 \<le> n" and "n \<le> 8"
  shows "k' = k \<and> 56 \<le> sz \<and> n \<le> avail s \<and> sz < 2 ^ 64 \<and> take n (st_r s) = putint (word_of_nat sz)
    \<and> s' = consume n s"
  using assms readUint_canonical [OF assms(1) _ assms(3,4)]
  by (auto simp: long_size_def split: prod.splits sum.splits if_splits)

lemma stream_readKind_canonical:
  assumes "exact s" and "stream_readKind s = ((k, n, None), s')"
  shows "(k = KByte \<and> n = 0 \<and> (\<exists>x r. st_r s = x # r \<and> x < 0x80 \<and> s' = (consume 1 s)\<lparr>st_byteval := x\<rparr>)
      \<and> 0 < avail s)
    \<or> (k \<noteq> KByte \<and> n < 2 ^ 64 \<and> length (head_of k n) \<le> avail s \<and> (\<exists>r. st_r s = head_of k n @ r)
      \<and> s' = (consume (length (head_of k n)) s)\<lparr>st_byteval := 0\<rparr>)"
proof -
  from assms obtain b s1 where rb: "readByte s = (Inr b, s1)"
    by (auto simp: stream_readKind_def split: prod.splits sum.splits)
  then have av: "0 < avail s" and b: "b = hd (st_r s)" and s1: "s1 = consume 1 s"
    using assms(1) by (auto simp: readByte_eq)
  then obtain r where r: "st_r s = b # r" by (cases "st_r s") (auto simp: avail_def)
  let ?s1 = "(consume 1 s)\<lparr>st_byteval := 0\<rparr>"
  consider "b < 0x80" | "\<not> b < 0x80" "b < 0xB8" | "\<not> b < 0x80" "\<not> b < 0xB8" "b < 0xC0"
    | "\<not> b < 0x80" "\<not> b < 0xB8" "\<not> b < 0xC0" "b < 0xF8"
    | "\<not> b < 0x80" "\<not> b < 0xB8" "\<not> b < 0xC0" "\<not> b < 0xF8" by blast
  then show ?thesis
  proof cases
    case 1
    with assms(2) rb s1 r av show ?thesis by (auto simp: stream_readKind_def Let_def)
  next
    case 2
    then have ge: "0x80 \<le> b" by simp
    have n: "n = unat (b - 0x80)" and k: "k = KString" and s': "s' = ?s1"
      using assms(2) rb s1 2 by (auto simp: stream_readKind_def Let_def)
    have n56: "n < 56" using 2 n ge by (simp add: unat_minus_tag word_less_nat_alt word_le_nat_alt)
    moreover have w: "(word_of_nat n :: byte) = b - 0x80" unfolding n by (simp only: of_nat_unat ucast_id)
    ultimately have "head_of k n = [b]"
      using puthead_small [of n "0x80" "0xB7"] by (simp only: head_of_def k w kind.distinct refl if_True if_False) simp
    then have "\<exists>r. st_r s = head_of k n @ r" "length (head_of k n) = 1" using r by simp_all
    then show ?thesis using k s' av n56 by (simp add: Suc_le_eq)
  next
    case 3
    have ls: "long_size KString (unat (b - 0xB7)) ?s1 = ((k, n, None), s')"
      using assms(2) rb s1 3 by (simp add: stream_readKind_def Let_def)
    have u: "unat (b - 0xB7) = unat b - 183"
      using 3 by (subst unat_minus_tag) (simp_all add: word_le_nat_alt word_less_nat_alt)
    have rg: "1 \<le> unat (b - 0xB7)" "unat (b - 0xB7) \<le> 8" using 3 u by (simp_all add: word_less_nat_alt)
    from long_size_canonical [OF _ ls rg] assms(1) have lc: "k = KString" "56 \<le> n" "n < 2 ^ 64"
      "unat (b - 0xB7) \<le> avail s - 1" "take (unat (b - 0xB7)) r = putint (word_of_nat n)"
      "s' = consume (unat (b - 0xB7)) ?s1" by (simp_all add: avail_consume r)
    have len: "length (putint (word_of_nat n)) = unat (b - 0xB7)"
      unfolding lc(5) [symmetric] using lc(4) avail_le [of s] r by simp
    have hd: "head_of k n = b # putint (word_of_nat n)"
      using lc(1,2,3) len by (simp add: head_of_def puthead_large)
    have "\<exists>r'. r = putint (word_of_nat n) @ r'" unfolding lc(5) [symmetric] by (metis append_take_drop_id)
    then have "\<exists>r'. st_r s = head_of k n @ r'" using r hd by simp
    moreover have "length (head_of k n) = Suc (unat (b - 0xB7))" using hd len by simp
    moreover have "Suc (unat (b - 0xB7)) \<le> avail s" using lc(4) av by simp
    ultimately show ?thesis using lc(1,3,6) by simp
  next
    case 4
    then have ge: "0xC0 \<le> b" by simp
    have n: "n = unat (b - 0xC0)" and k: "k = KList" and s': "s' = ?s1"
      using assms(2) rb s1 4 by (auto simp: stream_readKind_def Let_def)
    have n56: "n < 56" using 4 n ge by (simp add: unat_minus_tag word_less_nat_alt word_le_nat_alt)
    moreover have w: "(word_of_nat n :: byte) = b - 0xC0" unfolding n by (simp only: of_nat_unat ucast_id)
    ultimately have "head_of k n = [b]"
      using puthead_small [of n "0xC0" "0xF7"] by (simp only: head_of_def k w kind.distinct refl if_True if_False) simp
    then have "\<exists>r. st_r s = head_of k n @ r" "length (head_of k n) = 1" using r by simp_all
    then show ?thesis using k s' av n56 by (simp add: Suc_le_eq)
  next
    case 5
    have ls: "long_size KList (unat (b - 0xF7)) ?s1 = ((k, n, None), s')"
      using assms(2) rb s1 5 by (simp add: stream_readKind_def Let_def)
    have u: "unat (b - 0xF7) = unat b - 247"
      using 5 by (subst unat_minus_tag) (simp_all add: word_le_nat_alt word_less_nat_alt)
    have rg: "1 \<le> unat (b - 0xF7)" "unat (b - 0xF7) \<le> 8"
      using 5 u unat_byte_less [of b] by (simp_all add: word_less_nat_alt)
    from long_size_canonical [OF _ ls rg] assms(1) have lc: "k = KList" "56 \<le> n" "n < 2 ^ 64"
      "unat (b - 0xF7) \<le> avail s - 1" "take (unat (b - 0xF7)) r = putint (word_of_nat n)"
      "s' = consume (unat (b - 0xF7)) ?s1" by (simp_all add: avail_consume r)
    have len: "length (putint (word_of_nat n)) = unat (b - 0xF7)"
      unfolding lc(5) [symmetric] using lc(4) avail_le [of s] r by simp
    have hd: "head_of k n = b # putint (word_of_nat n)"
      using lc(1,2,3) len by (simp add: head_of_def puthead_large)
    have "\<exists>r'. r = putint (word_of_nat n) @ r'" unfolding lc(5) [symmetric] by (metis append_take_drop_id)
    then have "\<exists>r'. st_r s = head_of k n @ r'" using r hd by simp
    moreover have "length (head_of k n) = Suc (unat (b - 0xF7))" using hd len by simp
    moreover have "Suc (unat (b - 0xF7)) \<le> avail s" using lc(4) av by simp
    ultimately show ?thesis using lc(1,3,6) by simp
  qed
qed

end
