(* ===== verification/Rlp_Decode.thy ===== *)
theory Rlp_Decode
  imports Rlp_Stream
begin

text \<open>
  Correctness of the streaming decoder against the reference encoding \<open>rlp_encode\<close>.  The locale
  \<open>elem_codec\<close> is the contract between the list decoder and the decoder of its elements: an
  element decoder reads back what the encoding of a valid element says, accepts nothing else,
  and reports the end of the list without touching the stream.  The list decoder is proved
  once against it; the typed decoders and \<open>decodeInterface\<close> are its instances.
\<close>

section \<open>Stream positions\<close>

text \<open>\<open>at_pos s r stk\<close>: no value is cached and \<open>r\<close> is unread; \<open>on_val s k n x r stk\<close>: the head of a
  value of kind \<open>k\<close> and size \<open>n\<close> has been read (for a single byte, its value \<open>x\<close>).\<close>

definition at_pos :: "stream \<Rightarrow> bytes \<Rightarrow> (nat \<times> nat) list \<Rightarrow> bool" where
  "at_pos s r stk \<longleftrightarrow> exact s \<and> st_kind s = None \<and> st_r s = r \<and> st_stack s = stk"

definition on_val :: "stream \<Rightarrow> kind \<Rightarrow> nat \<Rightarrow> byte \<Rightarrow> bytes \<Rightarrow> (nat \<times> nat) list \<Rightarrow> bool" where
  "on_val s k n x r stk \<longleftrightarrow> exact s \<and> st_kind s = Some k \<and> st_size s = n \<and> st_kinderr s = None
     \<and> (k = KByte \<longrightarrow> st_byteval s = x) \<and> st_r s = r \<and> st_stack s = stk"

definition space :: "(nat \<times> nat) list \<Rightarrow> nat \<Rightarrow> bool" where
  "space stk n \<longleftrightarrow> (case stk of [] \<Rightarrow> True | (pos, sz) # _ \<Rightarrow> pos + n \<le> sz)"

lemma space_simps [simp]: "space [] n" "space ((pos, sz) # stk) n \<longleftrightarrow> pos + n \<le> sz"
  by (simp_all add: space_def)

lemma space_mono: "space stk n \<Longrightarrow> m \<le> n \<Longrightarrow> space stk m"
  by (cases stk) auto

lemma bump_simps [simp]: "bump n [] = []" "bump n ((pos, sz) # stk) = (pos + n, sz) # stk"
  by (simp_all add: bump_def)

lemma space_bump: "space (bump m stk) n \<longleftrightarrow> space stk (m + n)"
  by (cases stk) (auto simp: add.assoc)

lemma le_avail_iff:
  "0 < n \<Longrightarrow> n \<le> avail s \<longleftrightarrow> n \<le> length (st_r s) \<and> space (st_stack s) n"
  by (cases "st_stack s") (auto simp: avail_def room_def)

lemma on_val_kindNone: "on_val s k n x r stk \<Longrightarrow> at_pos (s\<lparr>st_kind := None\<rparr>) r stk"
  by (simp add: on_val_def at_pos_def exact_def)

lemma at_pos_consume: "exact s \<Longrightarrow> at_pos (consume n s) (drop n (st_r s)) (bump n (st_stack s))"
  by (simp add: at_pos_def)

lemma Kind_on: "on_val s k n x r stk \<Longrightarrow> Kind s = (Inr (k, n), s)"
  by (simp add: on_val_def Kind_def)

lemma Kind_eol: "at_pos s r ((p, p) # stk) \<Longrightarrow> \<exists>s'. Kind s = (Inl EOL, s') \<and> at_pos s' r ((p, p) # stk)"
  by (simp add: at_pos_def Kind_def exact_def)

lemma exact_kinderr [simp]: "exact (s\<lparr>st_kinderr := e\<rparr>) = exact s"
  by (simp add: exact_def)

lemma avail_kinderr [simp]: "avail (s\<lparr>st_kinderr := e\<rparr>) = avail s"
  by (cases "st_stack s") (auto simp: avail_def room_def)

lemma Kind_readKind:
  assumes at: "at_pos s r0 stk" and stk: "\<And>p stk'. stk \<noteq> (p, p) # stk'"
    and rk: "stream_readKind (s\<lparr>st_kinderr := None\<rparr>) = ((k, n, err), s1)"
  shows "Kind s =
    (let err' = (case err of
            Some e \<Rightarrow> Some e
          | None \<Rightarrow>
              (case st_stack s1 of
                 [] \<Rightarrow> if st_limited s1 \<and> n > st_remaining s1 then Some ErrValueTooLarge else None
               | (pos, lsz) # _ \<Rightarrow> if n > lsz - pos then Some ErrElemTooLarge else None));
        s2 = s1\<lparr>st_kind := Some k, st_size := n, st_kinderr := err'\<rparr>
     in (case err' of None \<Rightarrow> (Inr (k, n), s2) | Some e \<Rightarrow> (Inl e, s2)))"
proof -
  have "\<not> (case st_stack s of [] \<Rightarrow> False | (pos, sz) # _ \<Rightarrow> pos = sz)"
    using at stk by (cases stk) (auto simp: at_pos_def)
  with at rk show ?thesis unfolding Kind_def by (simp add: at_pos_def Let_def)
qed

lemma Kind_head:
  assumes at: "at_pos s (head_of k n @ r) stk" and k: "k \<noteq> KByte" and n: "n < 2 ^ 64"
    and sp: "space stk (length (head_of k n) + n)" and nr: "n \<le> length r"
  shows "\<exists>s'. Kind s = (Inr (k, n), s') \<and> on_val s' k n x r (bump (length (head_of k n)) stk)"
proof -
  let ?h = "length (head_of k n)" and ?s0 = "s\<lparr>st_kinderr := None\<rparr>"
  let ?s1 = "(consume ?h ?s0)\<lparr>st_byteval := 0\<rparr>"
  have ex: "exact s" and st: "st_r s = head_of k n @ r" "st_stack s = stk"
    using at by (simp_all add: at_pos_def)
  have pos: "0 < ?h" by simp
  have "?h \<le> avail s" using st sp pos by (simp add: le_avail_iff space_mono)
  then have rk: "stream_readKind ?s0 = ((k, n, None), ?s1)"
    using ex st k n by (intro stream_readKind_head [where r = r]) simp_all
  have ne: "stk \<noteq> (p, p) # stk'" for p stk' using sp pos by auto
  have "(case st_stack ?s1 of [] \<Rightarrow> st_limited ?s1 \<and> n > st_remaining ?s1 | (pos, lsz) # _ \<Rightarrow> n > lsz - pos) = False"
    using st sp nr ex by (cases stk) (auto simp: exact_def)
  with Kind_readKind [OF at ne rk] ex st k show ?thesis
    by (cases stk) (auto simp: on_val_def exact_def split: if_splits)
qed

lemma Kind_byte:
  assumes at: "at_pos s (x # r) stk" and x: "x < 0x80" and sp: "space stk 1"
  shows "\<exists>s'. Kind s = (Inr (KByte, 0), s') \<and> on_val s' KByte 0 x r (bump 1 stk)"
proof -
  let ?s0 = "s\<lparr>st_kinderr := None\<rparr>"
  have ex: "exact s" and st: "st_r s = x # r" "st_stack s = stk"
    using at by (simp_all add: at_pos_def)
  have "1 \<le> avail s" using st sp by (subst le_avail_iff) simp_all
  then have rk: "stream_readKind ?s0 = ((KByte, 0, None), (consume 1 ?s0)\<lparr>st_byteval := x\<rparr>)"
    using ex st x by (intro stream_readKind_byte [where r = r]) simp_all
  have ne: "stk \<noteq> (p, p) # stk'" for p stk' using sp by auto
  from Kind_readKind [OF at ne rk] ex st show ?thesis
    by (cases stk) (auto simp: on_val_def exact_def split: if_splits)
qed

lemma Kind_back:
  assumes at: "at_pos s r0 stk" and K: "Kind s = (Inr (k, n), s')"
  shows "(k = KByte \<and> n = 0 \<and> (\<exists>x r. r0 = x # r \<and> x < 0x80 \<and> space stk 1 \<and> on_val s' KByte 0 x r (bump 1 stk)))
    \<or> (k \<noteq> KByte \<and> n < 2 ^ 64 \<and> (\<exists>r. r0 = head_of k n @ r \<and> space stk (length (head_of k n) + n)
         \<and> on_val s' k n 0 r (bump (length (head_of k n)) stk)))"
proof -
  let ?s0 = "s\<lparr>st_kinderr := None\<rparr>"
  have ex: "exact s" and st: "st_r s = r0" "st_stack s = stk" and kn: "st_kind s = None"
    using at by (simp_all add: at_pos_def)
  have ne: "stk \<noteq> (p, p) # stk'" for p stk'
    using K st kn by (auto simp: Kind_def)
  obtain k' n' err s1 where rk: "stream_readKind ?s0 = ((k', n', err), s1)"
    by (metis prod.collapse)
  note eq = Kind_readKind [OF at ne rk]
  have k': "k' = k" "n' = n" "err = None"
    using K unfolding eq by (auto simp: Let_def split: option.splits list.splits if_splits)
  have s': "s' = s1\<lparr>st_kind := Some k, st_size := n, st_kinderr := None\<rparr>"
    and fit: "case st_stack s1 of [] \<Rightarrow> True | (pos, lsz) # _ \<Rightarrow> n \<le> lsz - pos"
    using K unfolding eq k' by (auto simp: Let_def split: option.splits list.splits if_splits)
  have ex0: "exact ?s0" using ex by simp
  from stream_readKind_canonical [OF ex0 rk [unfolded k']] show ?thesis
  proof (elim disjE conjE exE)
    fix x r assume "k = KByte" "n = 0" "st_r ?s0 = x # r" "x < 0x80" "0 < avail ?s0"
      "s1 = (consume 1 ?s0)\<lparr>st_byteval := x\<rparr>"
    moreover then have "space stk 1" using st le_avail_iff [of 1 s] by (simp add: Suc_le_eq)
    ultimately show ?thesis using s' st ex by (simp add: on_val_def exact_def)
  next
    fix r assume a: "k \<noteq> KByte" "n < 2 ^ 64" "length (head_of k n) \<le> avail ?s0" "st_r ?s0 = head_of k n @ r"
      "s1 = (consume (length (head_of k n)) ?s0)\<lparr>st_byteval := 0\<rparr>"
    moreover then have "space stk (length (head_of k n))" using st le_avail_iff [of "length (head_of k n)" s] by simp
    moreover then have "space stk (length (head_of k n) + n)" using a fit st by (cases stk) (auto simp: space_def)
    ultimately show ?thesis using s' st ex by (simp add: on_val_def exact_def)
  qed
qed

section \<open>Errors that end a list\<close>

text \<open>Only \<open>Kind\<close>, asked at the end of a list, reports \<open>EOL\<close>.\<close>

lemma no_EOL_readFull: "readFull n s \<noteq> (Inl EOL, s')"
  by (auto simp: readFull_def sbind_def willRead_def limit_check_def Let_def split: prod.splits sum.splits list.splits if_splits)

lemma no_EOL_readByte: "readByte s \<noteq> (Inl EOL, s')"
  by (auto simp: readByte_def sbind_def willRead_def limit_check_def Let_def split: prod.splits sum.splits list.splits if_splits)

lemma no_EOL_readUint: "readUint n s \<noteq> (Inl EOL, s')"
  using no_EOL_readFull [of n s] no_EOL_readByte [of s]
  by (auto simp: readUint_def sbind_def split: prod.splits sum.splits if_splits)

lemma no_EOL_long_size: "long_size k n s \<noteq> ((k', n', Some EOL), s')"
  using no_EOL_readUint [of n s] by (auto simp: long_size_def split: prod.splits sum.splits)

lemma no_EOL_stream_readKind: "stream_readKind s \<noteq> ((k, n, Some EOL), s')"
  using no_EOL_readByte [of s]
  by (auto simp: stream_readKind_def Let_def no_EOL_long_size split: prod.splits sum.splits)

lemma Kind_EOL:
  assumes at: "at_pos s r stk" and K: "Kind s = (Inl EOL, s')"
  shows "at_pos s' r stk"
proof (cases "\<exists>p stk'. stk = (p, p) # stk'")
  case True
  with at Kind_eol [of s r] K show ?thesis by auto
next
  case False
  obtain k n err s1 where rk: "stream_readKind (s\<lparr>st_kinderr := None\<rparr>) = ((k, n, err), s1)"
    by (metis prod.collapse)
  have ne: "stk \<noteq> (p, p) # stk'" for p stk' using False by blast
  have "err \<noteq> Some EOL" using rk no_EOL_stream_readKind by metis
  with K Kind_readKind [OF at ne rk] show ?thesis
    by (auto simp: Let_def split: option.splits list.splits if_splits)
qed

section \<open>The contract of an element decoder\<close>

locale elem_codec =
  fixes dec :: "'a sop" and enc :: "'a \<Rightarrow> bytes" and valid :: "'a \<Rightarrow> bool" and enough :: "'a \<Rightarrow> bool"
  assumes forward: "\<lbrakk>valid v; enough v; at_pos s (enc v @ r) stk; space stk (length (enc v))\<rbrakk>
      \<Longrightarrow> \<exists>s'. dec s = (Inr v, s') \<and> at_pos s' r (bump (length (enc v)) stk)"
    and canonical: "\<lbrakk>at_pos s r0 stk; dec s = (Inr v, s')\<rbrakk>
      \<Longrightarrow> valid v \<and> (\<exists>r. r0 = enc v @ r \<and> space stk (length (enc v)) \<and> at_pos s' r (bump (length (enc v)) stk))"
    and at_end: "at_pos s r ((p, p) # stk) \<Longrightarrow> \<exists>s'. dec s = (Inl EOL, s') \<and> at_pos s' r ((p, p) # stk)"
    and end_back: "\<lbrakk>at_pos s r stk; dec s = (Inl EOL, s')\<rbrakk> \<Longrightarrow> at_pos s' r stk"
    and nonempty: "enc v \<noteq> []"
begin

definition encs :: "'a list \<Rightarrow> bytes" where
  "encs vs = concat (map enc vs)"

definition enc_list :: "'a list \<Rightarrow> bytes" where
  "enc_list vs = head_of KList (length (encs vs)) @ encs vs"

lemma encs_simps [simp]: "encs [] = []" "encs (v # vs) = enc v @ encs vs" "encs (vs @ ws) = encs vs @ encs ws"
  by (simp_all add: encs_def)

lemma length_le_encs: "length vs \<le> length (encs vs)"
proof (induction vs)
  case (Cons v vs)
  then show ?case using nonempty [of v] by (cases "enc v") auto
qed simp

lemma elems_forward:
  assumes "\<forall>v \<in> set vs. valid v \<and> enough v" and "length vs < fuel"
    and "at_pos s (encs vs @ r) ((pos, pos + length (encs vs)) # stk)"
  shows "\<exists>s'. decodeSliceElems fuel dec acc s = (Inr (acc @ vs), s') \<and>
    at_pos s' r ((pos + length (encs vs), pos + length (encs vs)) # stk)"
  using assms
proof (induction vs arbitrary: fuel s pos acc)
  case Nil
  then obtain f where "fuel = Suc f" by (cases fuel) auto
  with at_end [of s r pos stk] Nil.prems show ?case by auto
next
  case (Cons v vs)
  then obtain f where f: "fuel = Suc f" by (cases fuel) auto
  have "at_pos s (enc v @ (encs vs @ r)) ((pos, pos + length (encs (v # vs))) # stk)" "valid v" "enough v"
    using Cons.prems by simp_all
  from forward [OF this(2,3,1)] obtain s1 where s1: "dec s = (Inr v, s1)"
    "at_pos s1 (encs vs @ r) ((pos + length (enc v), (pos + length (enc v)) + length (encs vs)) # stk)"
    by (auto simp: add.assoc)
  have "\<exists>s'. decodeSliceElems f dec (acc @ [v]) s1 = (Inr ((acc @ [v]) @ vs), s') \<and>
    at_pos s' r (((pos + length (enc v)) + length (encs vs), (pos + length (enc v)) + length (encs vs)) # stk)"
    using Cons.prems f s1(2) by (intro Cons.IH) auto
  then show ?case using f s1(1) by (simp add: add.assoc)
qed

lemma elems_back:
  assumes "at_pos s r0 ((pos, sz) # stk)" and "decodeSliceElems fuel dec acc s = (Inr ws, s')"
  shows "\<exists>vs r. ws = acc @ vs \<and> (\<forall>v \<in> set vs. valid v) \<and> r0 = encs vs @ r \<and> at_pos s' r ((pos + length (encs vs), sz) # stk)"
  using assms
proof (induction fuel arbitrary: s r0 pos acc)
  case 0
  then show ?case by simp
next
  case (Suc fuel)
  show ?case
  proof (cases "dec s")
    case (Pair res s1)
    show ?thesis
    proof (cases res)
      case (Inl e)
      with Suc.prems Pair have e: "e = EOL" "ws = acc" "s' = s1" by (auto split: if_splits)
      have "at_pos s1 r0 ((pos, sz) # stk)" using end_back [OF Suc.prems(1)] Pair Inl e by simp
      with e show ?thesis by (intro exI [of _ "[]"] exI [of _ r0]) simp
    next
      case (Inr v)
      from canonical [OF Suc.prems(1)] Pair Inr obtain r where r: "valid v" "r0 = enc v @ r"
        "at_pos s1 r ((pos + length (enc v), sz) # stk)" by auto
      have "decodeSliceElems fuel dec (acc @ [v]) s1 = (Inr ws, s')" using Suc.prems(2) Pair Inr by simp
      from Suc.IH [OF r(3) this] obtain vs r' where
        "ws = (acc @ [v]) @ vs" "\<forall>v \<in> set vs. valid v" "r = encs vs @ r'"
        "at_pos s' r' ((pos + length (enc v) + length (encs vs), sz) # stk)" by auto
      with r show ?thesis by (intro exI [of _ "v # vs"] exI [of _ r']) (simp add: add.assoc)
    qed
  qed
qed

lemma List_op_on:
  assumes "on_val s KList n x r stk"
  shows "\<exists>s'. wrapped List_op s = (Inr n, s') \<and> at_pos s' r ((0, n) # stk)"
  using assms Kind_on [OF assms]
  by (simp add: wrapped_def List_op_def sbind_def on_val_def at_pos_def exact_def)

lemma ListEnd_at:
  assumes "at_pos s r ((p, n) # stk)"
  shows "ListEnd s = (Inr (), s') \<Longrightarrow> p = n \<and> at_pos s' r (bump n stk)"
    and "p = n \<Longrightarrow> \<exists>s'. ListEnd s = (Inr (), s') \<and> at_pos s' r (bump n stk)"
    and "ListEnd s \<noteq> (Inl EOL, s'')"
  using assms by (auto simp: ListEnd_def at_pos_def exact_def bump_def Let_def split: if_splits list.splits)

lemma list_forward:
  assumes "\<forall>v \<in> set vs. valid v \<and> enough v" and "length vs < fuel" and "length (encs vs) < 2 ^ 64"
    and "on_val s KList (length (encs vs)) x (encs vs @ r) stk"
  shows "\<exists>s'. decodeListSlice fuel dec s = (Inr vs, s') \<and> at_pos s' r (bump (length (encs vs)) stk)"
proof -
  from List_op_on [OF assms(4)] obtain s1 where s1: "wrapped List_op s = (Inr (length (encs vs)), s1)"
    "at_pos s1 (encs vs @ r) ((0, length (encs vs)) # stk)" by blast
  show ?thesis
  proof (cases "vs = []")
    case True
    with ListEnd_at(2) [OF s1(2)] s1(1) show ?thesis
      by (auto simp: decodeListSlice_def sbind_def)
  next
    case False
    then have "encs vs \<noteq> []" using length_le_encs [of vs] by auto
    moreover from elems_forward [of vs fuel s1 r 0 stk "[]"] assms s1(2) obtain s2 where
      s2: "decodeSliceElems fuel dec [] s1 = (Inr vs, s2)"
        "at_pos s2 r ((length (encs vs), length (encs vs)) # stk)" by auto
    ultimately show ?thesis using ListEnd_at(2) [OF s2(2)] s1(1) s2(1)
      by (auto simp: decodeListSlice_def sbind_def)
  qed
qed

lemma list_back:
  assumes on: "on_val s KList n x r0 stk" and d: "decodeListSlice fuel dec s = (Inr vs, s')"
  shows "(\<forall>v \<in> set vs. valid v) \<and> (\<exists>r. r0 = encs vs @ r \<and> length (encs vs) = n \<and> at_pos s' r (bump n stk))"
proof -
  from List_op_on [OF on] obtain s1 where s1: "wrapped List_op s = (Inr n, s1)"
    "at_pos s1 r0 ((0, n) # stk)" by blast
  show ?thesis
  proof (cases "n = 0")
    case True
    with d s1 have "vs = []" "ListEnd s1 = (Inr (), s')"
      by (auto simp: decodeListSlice_def sbind_def split: prod.splits sum.splits)
    with ListEnd_at(1) [OF s1(2)] True show ?thesis by auto
  next
    case False
    with d s1 obtain s2 where s2: "decodeSliceElems fuel dec [] s1 = (Inr vs, s2)" "ListEnd s2 = (Inr (), s')"
      by (auto simp: decodeListSlice_def sbind_def split: prod.splits sum.splits)
    from elems_back [OF s1(2) s2(1)] obtain r where r: "r0 = encs vs @ r" "\<forall>v \<in> set vs. valid v"
      "at_pos s2 r ((length (encs vs), n) # stk)" by auto
    from ListEnd_at(1) [OF r(3) s2(2)] r(1,2) show ?thesis by auto
  qed
qed

lemma elems_no_EOL: "decodeSliceElems fuel dec acc s \<noteq> (Inl EOL, s')"
  by (induction fuel arbitrary: acc s) (auto split: prod.splits sum.splits)

lemma list_no_EOL:
  assumes "on_val s KList n x r0 stk"
  shows "decodeListSlice fuel dec s \<noteq> (Inl EOL, s')"
proof -
  from List_op_on [OF assms] obtain s1 where s1: "wrapped List_op s = (Inr n, s1)"
    "at_pos s1 r0 ((0, n) # stk)" by blast
  show ?thesis
  proof
    assume d: "decodeListSlice fuel dec s = (Inl EOL, s')"
    show False
    proof (cases "n = 0")
      case True
      with d s1 ListEnd_at(3) [OF s1(2)] show False
        by (auto simp: decodeListSlice_def sbind_def split: prod.splits sum.splits)
    next
      case False
      with d s1 elems_no_EOL obtain ws s2 where s2: "decodeSliceElems fuel dec [] s1 = (Inr ws, s2)"
        "ListEnd s2 = (Inl EOL, s')"
        by (auto simp: decodeListSlice_def sbind_def split: prod.splits sum.splits)
      from elems_back [OF s1(2) s2(1)] obtain vs r where "at_pos s2 r ((length (encs vs), n) # stk)" by auto
      from ListEnd_at(3) [OF this] s2(2) show False by auto
    qed
  qed
qed

text \<open>Decoding a whole input into one element, and into a slice.\<close>

lemma DecodeBytes_back:
  assumes "DecodeBytes dec b = Inr v"
  shows "valid v \<and> b = enc v"
proof -
  have at: "at_pos (NewStream b (length b)) b []" by (simp add: at_pos_def exact_def NewStream_def)
  from assms obtain s' where d: "dec (NewStream b (length b)) = (Inr v, s')" and e: "st_r s' = []"
    by (auto simp: DecodeBytes_def split: prod.splits sum.splits if_splits)
  from canonical [OF at d] e show ?thesis by (auto simp: at_pos_def)
qed

lemma DecodeBytes_forward:
  assumes "valid v" and "enough v"
  shows "DecodeBytes dec (enc v) = Inr v"
proof -
  have "at_pos (NewStream (enc v) (length (enc v))) (enc v @ []) []" by (simp add: at_pos_def exact_def NewStream_def)
  from forward [OF assms this] show ?thesis by (auto simp: DecodeBytes_def at_pos_def)
qed

lemma DecodeBytes_list_forward:
  assumes "\<forall>v \<in> set vs. valid v \<and> enough v" and "length vs < fuel" and "length (encs vs) < 2 ^ 64"
  shows "DecodeBytes (decodeListSlice fuel dec) (enc_list vs) = Inr vs"
proof -
  let ?s = "NewStream (enc_list vs) (length (enc_list vs))"
  have "at_pos ?s (head_of KList (length (encs vs)) @ encs vs) []"
    by (simp add: at_pos_def exact_def NewStream_def enc_list_def)
  from Kind_head [OF this _ assms(3)] obtain s1 where s1: "Kind ?s = (Inr (KList, length (encs vs)), s1)"
    "on_val s1 KList (length (encs vs)) 0 (encs vs @ []) []" by auto
  from list_forward [OF assms s1(2)] obtain s' where s': "decodeListSlice fuel dec s1 = (Inr vs, s')" "at_pos s' [] []"
    by auto
  have "List_op ?s = List_op s1" using s1 Kind_on [OF s1(2)] by (simp add: List_op_def sbind_def)
  then have "decodeListSlice fuel dec ?s = decodeListSlice fuel dec s1"
    by (simp add: decodeListSlice_def sbind_def wrapped_def)
  with s' show ?thesis by (simp add: DecodeBytes_def at_pos_def)
qed

lemma DecodeBytes_list_back:
  assumes "DecodeBytes (decodeListSlice fuel dec) b = Inr vs"
  shows "(\<forall>v \<in> set vs. valid v) \<and> b = enc_list vs \<and> length (encs vs) < 2 ^ 64"
proof -
  let ?s = "NewStream b (length b)"
  have at: "at_pos ?s b []" by (simp add: at_pos_def exact_def NewStream_def)
  from assms obtain s' where d: "decodeListSlice fuel dec ?s = (Inr vs, s')" and e: "st_r s' = []"
    by (auto simp: DecodeBytes_def split: prod.splits sum.splits if_splits)
  from d obtain n s1 where K: "Kind ?s = (Inr (KList, n), s1)"
    by (auto simp: decodeListSlice_def sbind_def wrapped_def List_op_def split: prod.splits sum.splits if_splits)
  from Kind_back [OF at K] obtain r where r: "b = head_of KList n @ r" "n < 2 ^ 64"
    "on_val s1 KList n 0 r []" by auto
  have "List_op ?s = List_op s1" using K Kind_on [OF r(3)] by (simp add: List_op_def sbind_def)
  then have "decodeListSlice fuel dec s1 = (Inr vs, s')" using d
    by (simp add: decodeListSlice_def sbind_def wrapped_def)
  from list_back [OF r(3) this] e r show ?thesis by (auto simp: enc_list_def at_pos_def)
qed

end

section \<open>Strings\<close>

lemma le_7F: "(x :: byte) \<le> 0x7F \<longleftrightarrow> x < 0x80"
  by (simp add: word_le_nat_alt word_less_nat_alt) arith

lemma Bytes_Kind: "Kind s = (Inr kn, s1) \<Longrightarrow> Kind s1 = (Inr kn, s1) \<Longrightarrow> Bytes s = Bytes s1"
  by (simp add: Bytes_def sbind_def)

lemma Bytes_on_byte:
  "on_val s KByte n x r stk \<Longrightarrow> \<exists>s'. Bytes s = (Inr [x], s') \<and> at_pos s' r stk"
  using Kind_on [of s KByte n x r stk] on_val_kindNone [of s KByte n x r stk]
  by (auto simp: Bytes_def sbind_def on_val_def)

lemma readFull_on:
  assumes "on_val s k n x r stk"
  shows "readFull m s = (Inr b, s') \<longleftrightarrow>
    (m \<le> length r \<and> (m = 0 \<or> space stk m)) \<and> b = take m r \<and> s' = consume m s"
  using assms readFull_eq [of s m b s'] le_avail_iff [of m s] by (cases "m = 0") (auto simp: on_val_def)

lemma consume_on: "on_val s k n x r stk \<Longrightarrow> at_pos (consume m s) (drop m r) (bump m stk)"
  using at_pos_consume [of s m] by (auto simp: on_val_def)

lemma Bytes_on_string:
  assumes "on_val s KString n x r stk"
  shows "Bytes s = (Inr v, s') \<longleftrightarrow> n \<le> length r \<and> (n = 0 \<or> space stk n) \<and> v = take n r
    \<and> \<not> (n = 1 \<and> v ! 0 < 128) \<and> s' = consume n s"
  using Kind_on [OF assms] readFull_on [OF assms, of n]
  by (auto simp: Bytes_def sbind_def split: prod.splits sum.splits if_splits)

definition str_enc :: "bytes \<Rightarrow> bytes" where
  "str_enc v = rlp_encode (Str v)"

lemma str_enc_cases: "(\<exists>x. v = [x] \<and> x < 0x80 \<and> str_enc v = [x]) \<or>
    (\<not> (length v = 1 \<and> v ! 0 < 0x80) \<and> str_enc v = head_of KString (length v) @ v)"
  by (cases v) (auto simp: str_enc_def head_of_def le_7F)

lemma str_enc_not_Nil [simp]: "str_enc v \<noteq> []"
  by (simp add: str_enc_def del: rlp_encode.simps)

text \<open>After the head of the encoding of \<open>v\<close> is read the stream is at the value in one of two ways.\<close>

lemma Kind_str:
  assumes "length v < 2 ^ 64" and "at_pos s (str_enc v @ r) stk" and "space stk (length (str_enc v))"
  shows "(\<exists>x s1. v = [x] \<and> x < 0x80 \<and> Kind s = (Inr (KByte, 0), s1) \<and> on_val s1 KByte 0 x r (bump (length (str_enc v)) stk))
    \<or> (\<exists>s1 stk1. Kind s = (Inr (KString, length v), s1) \<and> on_val s1 KString (length v) 0 (v @ r) stk1
        \<and> \<not> (length v = 1 \<and> v ! 0 < 0x80) \<and> space stk1 (length v) \<and> bump (length v) stk1 = bump (length (str_enc v)) stk)"
  using str_enc_cases [of v]
proof (elim disjE exE conjE)
  fix x assume v: "v = [x]" "x < 0x80" "str_enc v = [x]"
  with assms Kind_byte [of s x r stk] show ?thesis by auto
next
  assume n: "\<not> (length v = 1 \<and> v ! 0 < 0x80)" and e: "str_enc v = head_of KString (length v) @ v"
  with assms Kind_head [of s KString "length v" "v @ r" stk 0] obtain s1 where
    "Kind s = (Inr (KString, length v), s1)" "on_val s1 KString (length v) 0 (v @ r) (bump (length (head_of KString (length v))) stk)"
    by auto
  moreover have "space (bump (length (head_of KString (length v))) stk) (length v)"
    using assms(3) e by (simp add: space_bump)
  ultimately show ?thesis using n e by (metis bump_bump length_append)
qed

lemma Bytes_forward:
  assumes "length v < 2 ^ 64" and "at_pos s (str_enc v @ r) stk" and "space stk (length (str_enc v))"
  shows "\<exists>s'. Bytes s = (Inr v, s') \<and> at_pos s' r (bump (length (str_enc v)) stk)"
  using Kind_str [OF assms]
proof (elim disjE exE conjE)
  fix x s1 assume h: "v = [x]" "Kind s = (Inr (KByte, 0), s1)" "on_val s1 KByte 0 x r (bump (length (str_enc v)) stk)"
  then show ?thesis using Bytes_on_byte [OF h(3)] Bytes_Kind [OF h(2) Kind_on [OF h(3)]] by auto
next
  fix s1 stk1 assume h: "Kind s = (Inr (KString, length v), s1)" "on_val s1 KString (length v) 0 (v @ r) stk1"
    "\<not> (length v = 1 \<and> v ! 0 < 0x80)" "space stk1 (length v)" "bump (length v) stk1 = bump (length (str_enc v)) stk"
  have "Bytes s1 = (Inr v, consume (length v) s1)" using h by (simp add: Bytes_on_string [OF h(2)])
  then show ?thesis using h(5) consume_on [OF h(2), of "length v"] Bytes_Kind [OF h(1) Kind_on [OF h(2)]] by auto
qed

lemma str_enc_string: "\<not> (length v = 1 \<and> v ! 0 < 0x80) \<Longrightarrow> str_enc v = head_of KString (length v) @ v"
  using str_enc_cases [of v] by auto

lemma str_enc_byte: "x < 0x80 \<Longrightarrow> str_enc [x] = [x]"
  by (simp add: str_enc_def le_7F)

lemma Bytes_back:
  assumes at: "at_pos s r0 stk" and b: "Bytes s = (Inr v, s')"
  shows "length v < 2 ^ 64 \<and> (\<exists>r. r0 = str_enc v @ r \<and> space stk (length (str_enc v)) \<and>
    at_pos s' r (bump (length (str_enc v)) stk))"
proof -
  from b obtain k n s1 where K: "Kind s = (Inr (k, n), s1)" and nl: "k \<noteq> KList"
    by (auto simp: Bytes_def sbind_def split: prod.splits sum.splits kind.splits)
  from Kind_back [OF at K] show ?thesis
  proof (elim disjE exE conjE)
    fix x r assume h: "r0 = x # r" "x < 0x80" "space stk 1" "on_val s1 KByte 0 x r (bump 1 stk)" "k = KByte" "n = 0"
    have "Bytes s = Bytes s1" using Bytes_Kind [OF K] Kind_on [OF h(4)] h by simp
    with Bytes_on_byte [OF h(4)] b have "v = [x]" "at_pos s' r (bump 1 stk)" by auto
    then show ?thesis using h str_enc_byte [OF h(2)] by simp
  next
    fix r assume h: "r0 = head_of k n @ r" "n < 2 ^ 64" "space stk (length (head_of k n) + n)"
      "on_val s1 k n 0 r (bump (length (head_of k n)) stk)" "k \<noteq> KByte"
    have k: "k = KString" using nl h(5) by (cases k) auto
    have "Bytes s = Bytes s1" using Bytes_Kind [OF K] Kind_on [OF h(4)] h by simp
    with b have b1: "n \<le> length r" "v = take n r" "\<not> (n = 1 \<and> v ! 0 < 128)" "s' = consume n s1"
      using Bytes_on_string [OF h(4) [unfolded k]] by auto
    then have lv: "length v = n" and r: "r = v @ drop n r" by (simp_all add: min_absorb2)
    have e: "str_enc v = head_of k n @ v" using str_enc_string [of v] lv b1 k by simp
    have "at_pos s' (drop n r) (bump (length (str_enc v)) stk)" using consume_on [OF h(4), of n] b1 e lv by simp
    then show ?thesis using h r e lv by auto
  qed
qed

lemma Kind_EOL_Bytes: "Kind s = (Inl EOL, s') \<Longrightarrow> Bytes s = (Inl EOL, s')"
  by (simp add: Bytes_def sbind_def)

lemma Bytes_EOL: "Bytes s = (Inl EOL, s') \<Longrightarrow> Kind s = (Inl EOL, s')"
  using no_EOL_readFull by (fastforce simp: Bytes_def sbind_def split: prod.splits sum.splits kind.splits if_splits)

lemma wrapped_EOL [simp]: "wrapped m s = (Inl EOL, s') \<longleftrightarrow> m s = (Inl EOL, s')"
  by (auto simp: wrapped_def wrapStreamError_def split: prod.splits sum.splits rlp_error.splits)

lemma wrapped_Inr [simp]: "wrapped m s = (Inr v, s') \<longleftrightarrow> m s = (Inr v, s')"
  by (auto simp: wrapped_def split: prod.splits sum.splits)

interpretation byteslice: elem_codec decodeByteSlice str_enc "\<lambda>v. length v < 2 ^ 64" "\<lambda>_. True"
proof
  fix s r p stk assume "at_pos s r ((p, p) # stk)"
  then show "\<exists>s'. decodeByteSlice s = (Inl EOL, s') \<and> at_pos s' r ((p, p) # stk)"
    using Kind_eol Kind_EOL_Bytes by (fastforce simp: decodeByteSlice_def)
next
  fix s r stk s' assume "at_pos s r stk" "decodeByteSlice s = (Inl EOL, s')"
  then show "at_pos s' r stk" using Bytes_EOL Kind_EOL by (simp add: decodeByteSlice_def)
qed (use Bytes_forward Bytes_back in \<open>auto simp: decodeByteSlice_def\<close>)

section \<open>Items\<close>

lemma elem_codec_mono:
  assumes "elem_codec d e v en" and "\<And>x. v x \<Longrightarrow> en' x \<Longrightarrow> en x"
  shows "elem_codec d e v en'"
  using assms(1) unfolding elem_codec_def using assms(2) by blast

text \<open>One level of \<open>decodeInterface\<close>, over the decoder of the next level.\<close>

definition iface :: "nat \<Rightarrow> item sop \<Rightarrow> item sop" where
  "iface fuel d s = sbind Kind (\<lambda>(kind, _) s'.
     if kind = KList
     then sbind (decodeListSlice fuel d) (\<lambda>xs s''. (Inr (Lst xs), s'')) s'
     else sbind Bytes (\<lambda>b s''. (Inr (Str b), s'')) s') s"

lemma decodeInterface_Suc: "decodeInterface (Suc fuel) = iface fuel (decodeInterface fuel)"
  by (rule ext) (simp add: iface_def)

lemma rlp_encode_Str: "rlp_encode (Str b) = str_enc b"
  by (simp add: str_enc_def)

lemma rlp_encode_Lst:
  "rlp_encode (Lst xs) = head_of KList (length (concat (map rlp_encode xs))) @ concat (map rlp_encode xs)"
  by (simp add: head_of_def Let_def)

lemma Kind_eval: "Kind s = (Inr kn, s1) \<Longrightarrow> sbind Kind f s = f kn s1"
  by (rule sbind_eval)

lemma iface_string:
  assumes "Kind s = (Inr (k, n), s1)" and "k \<noteq> KList" and "on_val s1 k n x r stk"
  shows "iface fuel d s = sbind Bytes (\<lambda>b s''. (Inr (Str b), s'')) s"
proof -
  have "Bytes s = Bytes s1" using Bytes_Kind [OF assms(1) Kind_on [OF assms(3)]] .
  then show ?thesis using assms by (simp add: iface_def Kind_eval sbind_def)
qed

lemma iface_list:
  assumes "Kind s = (Inr (KList, n), s1)"
  shows "iface fuel d s = sbind (decodeListSlice fuel d) (\<lambda>xs s''. (Inr (Lst xs), s'')) s1"
  using assms by (simp add: iface_def Kind_eval)

lemma iface_codec:
  assumes d: "elem_codec d rlp_encode item_small en"
  shows "elem_codec (iface fuel d) rlp_encode item_small
    (\<lambda>v. case v of Str b \<Rightarrow> True | Lst xs \<Rightarrow> length xs < fuel \<and> (\<forall>x \<in> set xs. en x))"
proof
  fix v s r stk
  assume v: "item_small v" "case v of Str b \<Rightarrow> True | Lst xs \<Rightarrow> length xs < fuel \<and> (\<forall>x \<in> set xs. en x)"
    and at: "at_pos s (rlp_encode v @ r) stk" and sp: "space stk (length (rlp_encode v))"
  show "\<exists>s'. iface fuel d s = (Inr v, s') \<and> at_pos s' r (bump (length (rlp_encode v)) stk)"
  proof (cases v)
    case (Str b)
    have lb: "length b < 2 ^ 64" and at: "at_pos s (str_enc b @ r) stk" and sp: "space stk (length (str_enc b))"
      using Str v at sp by (simp_all add: rlp_encode_Str del: rlp_encode.simps)
    from Kind_str [OF lb at sp] obtain k n s1 x r1 stk1 where "Kind s = (Inr (k, n), s1)" "k \<noteq> KList" "on_val s1 k n x r1 stk1"
      by auto
    from iface_string [OF this] Bytes_forward [OF lb at sp] Str show ?thesis
      by (auto simp: sbind_def rlp_encode_Str simp del: rlp_encode.simps)
  next
    case (Lst xs)
    let ?p = "concat (map rlp_encode xs)"
    note enc = rlp_encode_Lst [of xs]
    have at': "at_pos s (head_of KList (length ?p) @ (?p @ r)) stk" using at Lst enc by simp
    have sp': "space stk (length (head_of KList (length ?p)) + length ?p)" using sp Lst enc by simp
    have lp: "length ?p < 2 ^ 64" using v Lst by simp
    from Kind_head [OF at' _ lp sp', of 0] obtain s1 where K: "Kind s = (Inr (KList, length ?p), s1)"
      and on: "on_val s1 KList (length ?p) 0 (?p @ r) (bump (length (head_of KList (length ?p))) stk)" by auto
    have en: "\<forall>x \<in> set xs. item_small x \<and> en x" "length xs < fuel" using v Lst by auto
    note encs = elem_codec.encs_def [OF d]
    from elem_codec.list_forward [OF d en, unfolded encs, OF lp on] obtain s' where
      "decodeListSlice fuel d s1 = (Inr xs, s')" "at_pos s' r (bump (length ?p) (bump (length (head_of KList (length ?p))) stk))"
      by blast
    then show ?thesis using iface_list [OF K] Lst enc by (simp add: sbind_def del: rlp_encode.simps)
  qed
next
  fix s r0 stk v s'
  assume at: "at_pos s r0 stk" and i: "iface fuel d s = (Inr v, s')"
  from i obtain k n s1 where K: "Kind s = (Inr (k, n), s1)"
    by (auto simp: iface_def sbind_def split: prod.splits sum.splits)
  from Kind_back [OF at K] obtain x r stk1 where on: "on_val s1 k n x r stk1" by blast
  show "item_small v \<and> (\<exists>r. r0 = rlp_encode v @ r \<and> space stk (length (rlp_encode v)) \<and>
    at_pos s' r (bump (length (rlp_encode v)) stk))"
  proof (cases "k = KList")
    case False
    with iface_string [OF K False on] i obtain b where "v = Str b" "Bytes s = (Inr b, s')" by (auto simp: sbind_Inr)
    with Bytes_back [OF at, of b s'] show ?thesis by (auto simp: rlp_encode_Str simp del: rlp_encode.simps)
  next
    case True
    with iface_list K i obtain xs where xs: "v = Lst xs" "decodeListSlice fuel d s1 = (Inr xs, s')"
      by (auto simp: sbind_Inr)
    let ?p = "concat (map rlp_encode xs)"
    from Kind_back [OF at K] True obtain r where r: "n < 2 ^ 64" "r0 = head_of KList n @ r" "space stk (length (head_of KList n) + n)"
      "on_val s1 KList n 0 r (bump (length (head_of KList n)) stk)" by auto
    from elem_codec.list_back [OF d r(4) xs(2)] obtain r' where "\<forall>v \<in> set xs. item_small v" "r = ?p @ r'" "length ?p = n"
      "at_pos s' r' (bump n (bump (length (head_of KList n)) stk))" by (auto simp: elem_codec.encs_def [OF d])
    with r xs(1) show ?thesis by (auto simp: rlp_encode_Lst simp del: rlp_encode.simps)
  qed
next
  fix s r p stk assume "at_pos s r ((p, p) # stk)"
  from Kind_eol [OF this] show "\<exists>s'. iface fuel d s = (Inl EOL, s') \<and> at_pos s' r ((p, p) # stk)"
    by (auto simp: iface_def sbind_def)
next
  fix s r stk s' assume at: "at_pos s r stk" and i: "iface fuel d s = (Inl EOL, s')"
  show "at_pos s' r stk"
  proof (cases "\<exists>kn s1. Kind s = (Inr kn, s1)")
    case False
    with i have "Kind s = (Inl EOL, s')" by (auto simp: iface_def sbind_def split: prod.splits sum.splits)
    then show ?thesis by (rule Kind_EOL [OF at])
  next
    case True
    then obtain k n s1 where K: "Kind s = (Inr (k, n), s1)" by auto
    from Kind_back [OF at K] obtain x r stk1 where on: "on_val s1 k n x r stk1" by blast
    have nl: "k \<noteq> KList"
      using elem_codec.list_no_EOL [OF d] on iface_list K i by (auto simp: sbind_def split: prod.splits sum.splits)
    have "Bytes s = (Inl EOL, s')" using iface_string [OF K nl on, of fuel d] i by (auto simp: sbind_def split: prod.splits sum.splits)
    from Bytes_EOL [OF this] K show ?thesis by simp
  qed
qed (rule rlp_encode_not_Nil)

lemma string_item_codec:
  "elem_codec (sbind Bytes (\<lambda>b s. (Inr (Str b), s))) rlp_encode item_small (\<lambda>_. False)"
proof
  fix s r p stk assume "at_pos s r ((p, p) # stk)"
  from Kind_eol [OF this] show "\<exists>s'. sbind Bytes (\<lambda>b s. (Inr (Str b), s)) s = (Inl EOL, s') \<and> at_pos s' r ((p, p) # stk)"
    by (auto simp: sbind_def dest!: Kind_EOL_Bytes)
next
  fix s r stk s' assume at: "at_pos s r stk" and "sbind Bytes (\<lambda>b s. (Inr (Str b), s)) s = (Inl EOL, s')"
  then have "Bytes s = (Inl EOL, s')" by (auto simp: sbind_def split: prod.splits sum.splits)
  from Kind_EOL [OF at Bytes_EOL [OF this]] show "at_pos s' r stk" .
next
  fix s r0 stk v s' assume at: "at_pos s r0 stk" and i: "sbind Bytes (\<lambda>b s. (Inr (Str b), s)) s = (Inr v, s')"
  then obtain b where "Bytes s = (Inr b, s')" "v = Str b" by (auto simp: sbind_Inr)
  with Bytes_back [OF at, of b s'] show "item_small v \<and> (\<exists>r. r0 = rlp_encode v @ r \<and> space stk (length (rlp_encode v)) \<and>
    at_pos s' r (bump (length (rlp_encode v)) stk))" by (auto simp: rlp_encode_Str simp del: rlp_encode.simps)
qed (simp_all del: rlp_encode.simps)

lemma decodeListSlice_0: "decodeListSlice 0 d = decodeListSlice 0 d'"
proof -
  have "decodeSliceElems 0 d [] = decodeSliceElems 0 d' []" by (rule ext) simp
  then show ?thesis by (simp only: decodeListSlice_def)
qed

lemma length_concat_le: "x \<in> set xs \<Longrightarrow> length (rlp_encode x) \<le> length (concat (map rlp_encode xs))"
  by (induction xs) auto

lemma length_le_concat: "length xs \<le> length (concat (map rlp_encode xs))"
proof (induction xs)
  case (Cons x xs)
  then show ?case using rlp_encode_not_Nil [of x] by (cases "rlp_encode x") auto
qed simp

lemma decodeInterface_codec:
  "elem_codec (decodeInterface (Suc fuel)) rlp_encode item_small (\<lambda>v. length (rlp_encode v) < Suc fuel)"
proof (induction fuel)
  case 0
  have "iface 0 (decodeInterface 0) = iface 0 (sbind Bytes (\<lambda>b s. (Inr (Str b), s)))"
    unfolding iface_def using decodeListSlice_0 [of "decodeInterface 0"] by metis
  moreover have "elem_codec (iface 0 (sbind Bytes (\<lambda>b s. (Inr (Str b), s)))) rlp_encode item_small (\<lambda>v. length (rlp_encode v) < Suc 0)"
    by (rule elem_codec_mono [OF iface_codec [OF string_item_codec]]) (simp del: rlp_encode.simps)
  ultimately show ?case by (simp only: decodeInterface_Suc)
next
  case (Suc fuel)
  show ?case unfolding decodeInterface_Suc [of "Suc fuel"]
  proof (rule elem_codec_mono [OF iface_codec [OF Suc.IH]])
    fix v assume v: "length (rlp_encode v) < Suc (Suc fuel)"
    show "case v of Str b \<Rightarrow> True | Lst xs \<Rightarrow> length xs < Suc fuel \<and> (\<forall>x \<in> set xs. length (rlp_encode x) < Suc fuel)"
    proof (cases v)
      case (Lst xs)
      let ?p = "concat (map rlp_encode xs)"
      have "0 < length (head_of KList (length ?p))" by (simp only: length_greater_0_conv head_of_not_Nil not_False_eq_True)
      moreover have "length (head_of KList (length ?p)) + length ?p < Suc (Suc fuel)"
        using v unfolding Lst rlp_encode_Lst length_append .
      ultimately have "length ?p < Suc fuel" by linarith
      then show ?thesis using Lst length_le_concat [of xs] length_concat_le [of _ xs] by fastforce
    qed simp
  qed
qed

section \<open>Whole inputs\<close>

lemma at_pos_NewStream: "at_pos (NewStream b (length b)) b []"
  by (simp add: at_pos_def exact_def NewStream_def)

lemma decode_item_encode:
  assumes "item_small it"
  shows "decode_item (rlp_encode it) = Inr it"
proof -
  let ?b = "rlp_encode it"
  have "at_pos (NewStream ?b (length ?b)) (?b @ []) []" by (simp add: at_pos_NewStream)
  from elem_codec.forward [OF decodeInterface_codec [of "length ?b"] assms _ this] obtain s' where
    "decodeInterface (Suc (length ?b)) (NewStream ?b (length ?b)) = (Inr it, s')" "at_pos s' [] []"
    by (auto simp del: decodeInterface.simps rlp_encode.simps)
  then show ?thesis by (simp add: decode_item_def DecodeBytes_def at_pos_def del: decodeInterface.simps rlp_encode.simps)
qed

lemma decode_item_canonical:
  assumes "decode_item b = Inr it"
  shows "rlp_encode it = b \<and> item_small it"
proof -
  from assms obtain s' where d: "decodeInterface (Suc (length b)) (NewStream b (length b)) = (Inr it, s')" and e: "st_r s' = []"
    by (auto simp: decode_item_def DecodeBytes_def split: prod.splits sum.splits if_splits simp del: decodeInterface.simps)
  from elem_codec.canonical [OF decodeInterface_codec at_pos_NewStream d] e show ?thesis
    by (auto simp: at_pos_def simp del: rlp_encode.simps)
qed

section \<open>Byte arrays\<close>

lemma decodeByteArray_on_string:
  assumes "on_val s KString n x r stk"
  shows "decodeByteArray vlen s = (Inr v, s') \<longleftrightarrow> vlen = n \<and> n \<le> length r \<and> (n = 0 \<or> space stk n) \<and> v = take n r
    \<and> \<not> (n = 1 \<and> v ! 0 < 128) \<and> s' = consume n s"
  using Kind_on [OF assms] readFull_on [OF assms, of n]
  by (auto simp: decodeByteArray_def sbind_def split: prod.splits sum.splits if_splits)

lemma decodeByteArray_Kind:
  "Kind s = (Inr kn, s1) \<Longrightarrow> Kind s1 = (Inr kn, s1) \<Longrightarrow> decodeByteArray vlen s = decodeByteArray vlen s1"
  by (simp add: decodeByteArray_def sbind_def)

lemma decodeByteArray_EOL:
  assumes "decodeByteArray vlen s = (Inl EOL, s')" and "vlen \<noteq> 1"
  shows "Kind s = (Inl EOL, s')"
  using assms no_EOL_readFull [of vlen]
  by (auto simp: decodeByteArray_def sbind_def wrapStreamError_def split: prod.splits sum.splits kind.splits if_splits)

lemma decodeByteArray_codec:
  assumes v1: "vlen \<noteq> 1" and small: "vlen < 2 ^ 64"
  shows "elem_codec (decodeByteArray vlen) str_enc (\<lambda>v. length v = vlen) (\<lambda>_. True)"
proof
  fix v s r stk assume lv: "length v = vlen" and at: "at_pos s (str_enc v @ r) stk" and sp: "space stk (length (str_enc v))"
  from lv small have "length v < 2 ^ 64" by simp
  from Kind_str [OF this at sp] show "\<exists>s'. decodeByteArray vlen s = (Inr v, s') \<and> at_pos s' r (bump (length (str_enc v)) stk)"
  proof (elim disjE exE conjE)
    fix x s1 assume "v = [x]"
    then show ?thesis using lv v1 by simp
  next
    fix s1 stk1 assume h: "Kind s = (Inr (KString, length v), s1)" "on_val s1 KString (length v) 0 (v @ r) stk1"
      "\<not> (length v = 1 \<and> v ! 0 < 0x80)" "space stk1 (length v)" "bump (length v) stk1 = bump (length (str_enc v)) stk"
    have "decodeByteArray vlen s1 = (Inr v, consume (length v) s1)"
      using h lv by (simp add: decodeByteArray_on_string [OF h(2)])
    then show ?thesis using h(5) consume_on [OF h(2), of "length v"] decodeByteArray_Kind [OF h(1) Kind_on [OF h(2)]] by auto
  qed
next
  fix s r0 stk v s' assume at: "at_pos s r0 stk" and d: "decodeByteArray vlen s = (Inr v, s')"
  from d obtain k n s1 where K: "Kind s = (Inr (k, n), s1)"
    by (auto simp: decodeByteArray_def sbind_def split: prod.splits sum.splits)
  have k: "k = KString" using d K v1 by (cases k) (auto simp: decodeByteArray_def sbind_def split: if_splits)
  from Kind_back [OF at K] k obtain r where h: "r0 = head_of k n @ r" "space stk (length (head_of k n) + n)"
    "on_val s1 k n 0 r (bump (length (head_of k n)) stk)" by auto
  have d1: "decodeByteArray vlen s1 = (Inr v, s')" using decodeByteArray_Kind [OF K] Kind_on [OF h(3)] d by simp
  have b1: "vlen = n" "n \<le> length r" "v = take n r" "\<not> (n = 1 \<and> v ! 0 < 128)" "s' = consume n s1"
    using d1 unfolding decodeByteArray_on_string [OF h(3) [unfolded k]] by auto
  then have lv: "length v = n" and r: "r = v @ drop n r" by (simp_all add: min_absorb2)
  have e: "str_enc v = head_of k n @ v" using str_enc_string [of v] lv b1 k by simp
  have "at_pos s' (drop n r) (bump (length (str_enc v)) stk)" using consume_on [OF h(3), of n] b1 e lv by simp
  then show "length v = vlen \<and> (\<exists>r. r0 = str_enc v @ r \<and> space stk (length (str_enc v)) \<and>
    at_pos s' r (bump (length (str_enc v)) stk))" using h r e lv b1(1) by auto
next
  fix s r p stk assume "at_pos s r ((p, p) # stk)"
  from Kind_eol [OF this] show "\<exists>s'. decodeByteArray vlen s = (Inl EOL, s') \<and> at_pos s' r ((p, p) # stk)"
    by (auto simp: decodeByteArray_def sbind_def)
next
  fix s r stk s' assume "at_pos s r stk" "decodeByteArray vlen s = (Inl EOL, s')"
  then show "at_pos s' r stk" using decodeByteArray_EOL v1 Kind_EOL by blast
qed simp

interpretation address: elem_codec "decodeByteArray 20" str_enc "\<lambda>v. length v = 20" "\<lambda>_. True"
  by (rule decodeByteArray_codec) simp_all

interpretation hash32: elem_codec "decodeByteArray 32" str_enc "\<lambda>v. length v = 32" "\<lambda>_. True"
  by (rule decodeByteArray_codec) simp_all

section \<open>Integers\<close>

lemma readUint_on:
  assumes on: "on_val s k m x r stk"
  shows "readUint n s = (Inr v, s') \<longleftrightarrow> (n \<le> length r \<and> (n = 0 \<or> space stk n)) \<and> v = be_nat (take n r)
    \<and> (1 < n \<longrightarrow> r ! 0 \<noteq> 0) \<and> s' = consume n s"
proof -
  have ex: "exact s" and sr: "st_r s = r" "st_stack s = stk" using on by (simp_all add: on_val_def)
  consider "n = 0" | "n = 1" | "1 < n" by linarith
  then show ?thesis
  proof cases
    case 1
    have "s\<lparr>st_kind := None\<rparr> = consume 0 s" by (simp add: consume_def)
    then show ?thesis using 1 by (auto simp: readUint_def)
  next
    case 2
    then show ?thesis using readByte_eq [OF ex] le_avail_iff [of 1 s] sr
      by (cases r) (auto simp: readUint_def sbind_Inr be_nat_Cons Suc_le_eq)
  next
    case 3
    then show ?thesis using readFull_on [OF on, of n]
      by (auto simp: readUint_def sbind_Inr)
  qed
qed

lemma stream_uint_Kind:
  "Kind s = (Inr kn, s1) \<Longrightarrow> Kind s1 = (Inr kn, s1) \<Longrightarrow> stream_uint b s = stream_uint b s1"
  by (simp add: stream_uint_def sbind_def)

lemma stream_uint_on_byte:
  assumes "on_val s KByte n x r stk"
  shows "stream_uint bits s = (Inr v, s') \<longleftrightarrow> x \<noteq> 0 \<and> v = unat x \<and> s' = s\<lparr>st_kind := None\<rparr>"
proof -
  have "st_byteval s = x" using assms by (simp add: on_val_def)
  with Kind_on [OF assms] show ?thesis by (auto simp: stream_uint_def sbind_def)
qed

lemma stream_uint_on_string:
  assumes "on_val s KString n x r stk"
  shows "stream_uint bits s = (Inr v, s') \<longleftrightarrow> n \<le> bits div 8 \<and> (n \<le> length r \<and> (n = 0 \<or> space stk n))
    \<and> v = be_nat (take n r) \<and> (1 < n \<longrightarrow> r ! 0 \<noteq> 0) \<and> \<not> (0 < n \<and> v < 128) \<and> s' = consume n s"
proof (cases "\<exists>w t. readUint n s = (Inr w, t)")
  case True
  then obtain w t where "readUint n s = (Inr w, t)" by blast
  moreover note this [unfolded readUint_on [OF assms]]
  ultimately show ?thesis using Kind_on [OF assms] by (auto simp: stream_uint_def sbind_def)
next
  case False
  moreover from this have "stream_uint bits s \<noteq> (Inr v, s')"
    using Kind_on [OF assms] by (auto simp: stream_uint_def sbind_def split: prod.splits sum.splits if_splits)
  ultimately show ?thesis unfolding readUint_on [OF assms] by blast
qed

lemma stream_uint_EOL: "stream_uint bits s = (Inl EOL, s') \<Longrightarrow> Kind s = (Inl EOL, s')"
  using no_EOL_readUint
  by (fastforce simp: stream_uint_def sbind_def split: prod.splits sum.splits kind.splits if_splits)

lemma nat_bytes_0: "nat_bytes 0 = []"
  by simp

lemma nat_bytes_byte: "x \<noteq> 0 \<Longrightarrow> nat_bytes (unat x) = [x]"
  using nat_bytes_be_nat [of "[x]"] by (simp add: be_nat_Cons)

lemma nat_bytes_nth0: "v \<noteq> 0 \<Longrightarrow> nat_bytes v ! 0 \<noteq> 0"
  using hd_nat_bytes [of v] by (simp add: hd_conv_nth)

lemma stream_uint_forward:
  assumes v: "v < 256 ^ (bits div 8)" "length (nat_bytes v) < 2 ^ 64"
    and at: "at_pos s (str_enc (nat_bytes v) @ r) stk" "space stk (length (str_enc (nat_bytes v)))"
  shows "\<exists>s'. stream_uint bits s = (Inr v, s') \<and> at_pos s' r (bump (length (str_enc (nat_bytes v))) stk)"
  using Kind_str [OF v(2) at]
proof (elim disjE exE conjE)
  fix x s1 assume h: "nat_bytes v = [x]" "Kind s = (Inr (KByte, 0), s1)"
    "on_val s1 KByte 0 x r (bump (length (str_enc (nat_bytes v))) stk)"
  have "v \<noteq> 0" using h(1) by (metis list.distinct(1) nat_bytes_Nil)
  then have "x \<noteq> 0" "v = unat x" using h(1) hd_nat_bytes [of v] be_nat_nat_bytes [of v]
    by (auto simp: be_nat_Cons simp del: be_nat_nat_bytes)
  then show ?thesis using stream_uint_Kind [OF h(2) Kind_on [OF h(3)]] stream_uint_on_byte [OF h(3)] on_val_kindNone [OF h(3)]
    by auto
next
  fix s1 stk1 assume h: "Kind s = (Inr (KString, length (nat_bytes v)), s1)"
    "on_val s1 KString (length (nat_bytes v)) 0 (nat_bytes v @ r) stk1"
    "\<not> (length (nat_bytes v) = 1 \<and> nat_bytes v ! 0 < 0x80)" "space stk1 (length (nat_bytes v))"
    "bump (length (nat_bytes v)) stk1 = bump (length (str_enc (nat_bytes v))) stk"
  have small: "v < 128 \<Longrightarrow> v \<noteq> 0 \<Longrightarrow> False"
    using h(3) nat_bytes_single [of v] by (simp add: word_less_nat_alt unat_of_nat_byte)
  have "stream_uint bits s1 = (Inr v, consume (length (nat_bytes v)) s1)"
    using h v length_nat_bytes_le [of v "bits div 8"] small nat_bytes_nth0 [of v]
    by (cases "v = 0") (auto simp: nat_bytes_0 stream_uint_on_string [OF h(2)] nth_append)
  then show ?thesis using h(5) consume_on [OF h(2), of "length (nat_bytes v)"] stream_uint_Kind [OF h(1) Kind_on [OF h(2)]]
    by auto
qed

lemma stream_uint_back:
  assumes at: "at_pos s r0 stk" and u: "stream_uint bits s = (Inr v, s')" and bits: "8 \<le> bits"
  shows "v < 256 ^ (bits div 8) \<and> length (nat_bytes v) < 2 ^ 64 \<and>
    (\<exists>r. r0 = str_enc (nat_bytes v) @ r \<and> space stk (length (str_enc (nat_bytes v))) \<and>
    at_pos s' r (bump (length (str_enc (nat_bytes v))) stk))"
proof -
  from u obtain k n s1 where K: "Kind s = (Inr (k, n), s1)" and nl: "k \<noteq> KList"
    by (auto simp: stream_uint_def sbind_def split: prod.splits sum.splits kind.splits)
  from Kind_back [OF at K] show ?thesis
  proof (elim disjE exE conjE)
    fix x r assume h: "r0 = x # r" "x < 0x80" "space stk 1" "on_val s1 KByte 0 x r (bump 1 stk)" "k = KByte" "n = 0"
    have "stream_uint bits s = stream_uint bits s1" using stream_uint_Kind [OF K] Kind_on [OF h(4)] h by simp
    with stream_uint_on_byte [OF h(4)] u have "x \<noteq> 0" "v = unat x" "at_pos s' r (bump 1 stk)"
      using on_val_kindNone [OF h(4)] by auto
    moreover then have "v < 256" using unat_byte_less [of x] by simp
    moreover have "(256::nat) ^ 1 \<le> 256 ^ (bits div 8)" using bits by (intro power_increasing) auto
    ultimately show ?thesis using h str_enc_byte [OF h(2)] by (simp add: nat_bytes_byte)
  next
    fix r assume h: "r0 = head_of k n @ r" "n < 2 ^ 64" "space stk (length (head_of k n) + n)"
      "on_val s1 k n 0 r (bump (length (head_of k n)) stk)" "k \<noteq> KByte"
    have k: "k = KString" using nl h(5) by (cases k) auto
    have "stream_uint bits s = stream_uint bits s1" using stream_uint_Kind [OF K] Kind_on [OF h(4)] h by simp
    with u have b1: "n \<le> bits div 8" "n \<le> length r" "v = be_nat (take n r)" "1 < n \<longrightarrow> r ! 0 \<noteq> 0" "\<not> (0 < n \<and> v < 128)"
      "s' = consume n s1"
      using stream_uint_on_string [OF h(4) [unfolded k]] by auto
    define b where "b = take n r"
    then have lb: "length b = n" and r: "r = b @ drop n r" using b1 by (simp_all add: min_absorb2)
    have "b = [] \<or> hd b \<noteq> 0"
    proof (cases "n = 1")
      case True
      then obtain y where "b = [y]" using lb by (auto simp: length_Suc_conv)
      then show ?thesis using b1(3,5) True b_def by (auto simp: be_nat_Cons)
    next
      case False
      then show ?thesis using b1(2,4) lb b_def by (cases b; cases r) (auto split: nat.splits)
    qed
    then have nb: "nat_bytes v = b" using nat_bytes_be_nat b1(3) b_def by simp
    have ns: "\<not> (length b = 1 \<and> b ! 0 < 0x80)"
    proof
      assume "length b = 1 \<and> b ! 0 < 0x80"
      then obtain y where "b = [y]" "y < 0x80" by (auto simp: length_Suc_conv)
      then show False using b1(3,5) lb b_def [symmetric] by (simp add: be_nat_Cons word_less_nat_alt)
    qed
    have e: "str_enc b = head_of k n @ b" using str_enc_string [OF ns] lb k by simp
    have "at_pos s' (drop n r) (bump (length (str_enc b)) stk)" using consume_on [OF h(4), of n] b1 e lb by simp
    moreover have "(256::nat) ^ n \<le> 256 ^ (bits div 8)" using b1(1) by (intro power_increasing) auto
    then have "v < 256 ^ (bits div 8)"
      using be_nat_less [of b] b1(3) b_def lb by (auto intro: order.strict_trans2)
    ultimately show ?thesis using h r e lb nb by auto
  qed
qed

interpretation uint64: elem_codec "decodeUint 64" "\<lambda>v. str_enc (nat_bytes v)" "\<lambda>v. v < 2 ^ 64" "\<lambda>_. True"
proof
  fix v s r stk assume "v < (2::nat) ^ 64" "at_pos s (str_enc (nat_bytes v) @ r) stk" "space stk (length (str_enc (nat_bytes v)))"
  then show "\<exists>s'. decodeUint 64 s = (Inr v, s') \<and> at_pos s' r (bump (length (str_enc (nat_bytes v))) stk)"
    using stream_uint_forward [of v 64] length_nat_bytes_le [of v 8] by (simp add: decodeUint_def)
next
  fix s r0 stk v s' assume "at_pos s r0 stk" "decodeUint 64 s = (Inr v, s')"
  then show "v < 2 ^ 64 \<and> (\<exists>r. r0 = str_enc (nat_bytes v) @ r \<and> space stk (length (str_enc (nat_bytes v))) \<and>
    at_pos s' r (bump (length (str_enc (nat_bytes v))) stk))"
    using stream_uint_back [of s r0 stk 64 v s'] by (simp add: decodeUint_def)
next
  fix s r p stk assume "at_pos s r ((p, p) # stk)"
  from Kind_eol [OF this] show "\<exists>s'. decodeUint 64 s = (Inl EOL, s') \<and> at_pos s' r ((p, p) # stk)"
    by (auto simp: decodeUint_def stream_uint_def sbind_def)
next
  fix s r stk s' assume "at_pos s r stk" "decodeUint 64 s = (Inl EOL, s')"
  then show "at_pos s' r stk" using stream_uint_EOL Kind_EOL by (simp add: decodeUint_def)
qed simp

interpretation bigint: elem_codec decodeBigInt "\<lambda>v. str_enc (nat_bytes v)" "\<lambda>v. length (nat_bytes v) < 2 ^ 64" "\<lambda>_. True"
proof
  fix v s r stk
  assume "length (nat_bytes v) < 2 ^ 64" "at_pos s (str_enc (nat_bytes v) @ r) stk" "space stk (length (str_enc (nat_bytes v)))"
  from Bytes_forward [OF this] obtain s' where
    s': "Bytes s = (Inr (nat_bytes v), s')" "at_pos s' r (bump (length (str_enc (nat_bytes v))) stk)" by blast
  have w: "wrapped Bytes s = (Inr (nat_bytes v), s')" using s' by simp
  have "\<not> (length (nat_bytes v) > 0 \<and> nat_bytes v ! 0 = 0)" using nat_bytes_nth0 [of v] by (cases "v = 0") (auto simp: nat_bytes_0)
  then show "\<exists>s'. decodeBigInt s = (Inr v, s') \<and> at_pos s' r (bump (length (str_enc (nat_bytes v))) stk)"
    using s'(2) by (auto simp: decodeBigInt_def sbind_def w)
next
  fix s r0 stk v s' assume at: "at_pos s r0 stk" and "decodeBigInt s = (Inr v, s')"
  then obtain b where b: "Bytes s = (Inr b, s')" "\<not> (length b > 0 \<and> b ! 0 = 0)" "v = be_nat b"
    by (auto simp: decodeBigInt_def sbind_Inr split: if_splits)
  then have "nat_bytes v = b" using nat_bytes_be_nat [of b] by (cases b) auto
  with Bytes_back [OF at b(1)] show "length (nat_bytes v) < 2 ^ 64 \<and> (\<exists>r. r0 = str_enc (nat_bytes v) @ r \<and>
    space stk (length (str_enc (nat_bytes v))) \<and> at_pos s' r (bump (length (str_enc (nat_bytes v))) stk))" by simp
next
  fix s r p stk assume "at_pos s r ((p, p) # stk)"
  from Kind_eol [OF this] obtain s' where s': "Kind s = (Inl EOL, s')" "at_pos s' r ((p, p) # stk)" by blast
  from Kind_EOL_Bytes [OF s'(1)] have w: "wrapped Bytes s = (Inl EOL, s')" by simp
  show "\<exists>s'. decodeBigInt s = (Inl EOL, s') \<and> at_pos s' r ((p, p) # stk)"
    using s'(2) by (simp add: decodeBigInt_def sbind_def w)
next
  fix s r stk s' assume at: "at_pos s r stk" and "decodeBigInt s = (Inl EOL, s')"
  then have "wrapped Bytes s = (Inl EOL, s')"
    by (auto simp: decodeBigInt_def sbind_def wrapStreamError_def split: prod.splits sum.splits if_splits)
  then show "at_pos s' r stk" using Kind_EOL [OF at] Bytes_EOL by simp
qed simp

interpretation boolean: elem_codec decodeBool "\<lambda>b. str_enc (nat_bytes (if b then 1 else 0))" "\<lambda>_. True" "\<lambda>_. True"
proof
  fix v s r stk
  let ?n = "if v then 1 else 0 :: nat"
  assume a: "at_pos s (str_enc (nat_bytes ?n) @ r) stk" "space stk (length (str_enc (nat_bytes ?n)))"
  have "length (nat_bytes ?n) < 2 ^ 64" using length_nat_bytes_le [of ?n 1] by auto
  moreover have "?n < 256 ^ (8 div 8)" by simp
  ultimately obtain s' where
    "stream_uint 8 s = (Inr ?n, s')" "at_pos s' r (bump (length (str_enc (nat_bytes ?n))) stk)"
    using stream_uint_forward [of ?n 8, OF _ _ a] by blast
  then show "\<exists>s'. decodeBool s = (Inr v, s') \<and> at_pos s' r (bump (length (str_enc (nat_bytes ?n))) stk)"
    by (auto simp: decodeBool_def stream_Bool_def sbind_def)
next
  fix s r0 stk v s' assume at: "at_pos s r0 stk" and "decodeBool s = (Inr v, s')"
  then have "stream_uint 8 s = (Inr (if v then 1 else 0), s')"
    by (auto simp: decodeBool_def stream_Bool_def sbind_Inr split: if_splits)
  from stream_uint_back [OF at this] show "True \<and> (\<exists>r. r0 = str_enc (nat_bytes (if v then 1 else 0)) @ r \<and>
    space stk (length (str_enc (nat_bytes (if v then 1 else 0)))) \<and>
    at_pos s' r (bump (length (str_enc (nat_bytes (if v then 1 else 0)))) stk))" by simp
next
  fix s r p stk assume "at_pos s r ((p, p) # stk)"
  from Kind_eol [OF this] show "\<exists>s'. decodeBool s = (Inl EOL, s') \<and> at_pos s' r ((p, p) # stk)"
    by (auto simp: decodeBool_def stream_Bool_def stream_uint_def sbind_def)
next
  fix s r stk s' assume at: "at_pos s r stk" and "decodeBool s = (Inl EOL, s')"
  then have "stream_uint 8 s = (Inl EOL, s')"
    by (auto simp: decodeBool_def stream_Bool_def sbind_def split: prod.splits sum.splits if_splits)
  then show "at_pos s' r stk" using Kind_EOL [OF at] stream_uint_EOL by simp
qed simp

section \<open>Byte arrays of length one\<close>

lemma decodeByteArray_zero_stuck:
  assumes "on_val s KByte n 0 r stk"
  shows "decodeByteArray 1 s = (Inr [0], s)"
  using assms Kind_on [OF assms] by (simp add: decodeByteArray_def stream_uint_def sbind_def on_val_def)

lemma decodeSliceElems_stuck:
  "on_val s KByte n 0 r stk \<Longrightarrow> decodeSliceElems fuel (decodeByteArray 1) acc s = (Inl RlpOutOfFuel, s)"
  by (induction fuel arbitrary: acc) (auto simp: decodeByteArray_zero_stuck [simplified])

lemma decode_byte1_aux:
  "DecodeBytes (decodeListSlice fuel (decodeByteArray 1)) [0xC1, 0x00] = Inl RlpOutOfFuel"
proof -
  let ?s = "NewStream [0xC1, 0x00] 2"
  have "\<exists>s1. Kind ?s = (Inr (KList, 1), s1) \<and> on_val s1 KList 1 0 [0] []"
    using Kind_head [of ?s KList 1 "[0]" "[]" 0]
    by (simp add: head_of_def puthead_def at_pos_def exact_def NewStream_def)
  then obtain s1 where K: "Kind ?s = (Inr (KList, 1), s1)" and on1: "on_val s1 KList 1 0 [0] []" by blast
  let ?s2 = "s1\<lparr>st_stack := (0, 1) # st_stack s1, st_kind := None, st_size := 0\<rparr>"
  have L: "wrapped List_op ?s = (Inr 1, ?s2)" using K by (simp add: List_op_def sbind_def)
  have "at_pos ?s2 [0] [(0, 1)]" using on1 by (simp add: at_pos_def on_val_def exact_def)
  from Kind_byte [OF this] obtain s3 where K3: "Kind ?s2 = (Inr (KByte, 0), s3)" and on3: "on_val s3 KByte 0 0 [] [(1, 1)]"
    by auto
  have d: "decodeByteArray 1 ?s2 = (Inr [0], s3)"
    using decodeByteArray_Kind [OF K3 Kind_on [OF on3]] decodeByteArray_zero_stuck [OF on3] by simp
  have "\<exists>s'. decodeSliceElems fuel (decodeByteArray 1) [] ?s2 = (Inl RlpOutOfFuel, s')"
    using d decodeSliceElems_stuck [OF on3] by (cases fuel) auto
  then have "\<exists>s'. decodeListSlice fuel (decodeByteArray 1) ?s = (Inl RlpOutOfFuel, s')"
    by (auto simp: decodeListSlice_def sbind_def L)
  moreover have "length [0xC1, 0x00 :: byte] = 2" by simp
  ultimately show ?thesis by (auto simp only: DecodeBytes_def prod.case sum.case)
qed

lemma decode_addresses_aux:
  "decode_arrays 20 b = Inr vs \<longleftrightarrow> b = rlp_encode (Lst (map Str vs))
    \<and> length (concat (map str_enc vs)) < 2 ^ 64 \<and> filter (\<lambda>v. length v \<noteq> 20) vs = []"
proof -
  have cm: "concat (map rlp_encode (map Str vs)) = concat (map str_enc vs)"
    by (simp add: o_def rlp_encode_Str del: rlp_encode.simps)
  have e: "rlp_encode (Lst (map Str vs)) = address.enc_list vs"
    unfolding address.enc_list_def address.encs_def rlp_encode_Lst cm ..
  have len: "length vs < length (address.enc_list vs) + 1"
    using address.length_le_encs [of vs] by (simp add: address.enc_list_def)
  show ?thesis
    using address.DecodeBytes_list_back [of "length b + 1" b vs] address.DecodeBytes_list_forward [OF _ len]
    unfolding e decode_arrays_def by (auto simp: filter_empty_conv address.encs_def)
qed

lemma item_small_length: "length (rlp_encode it) < 2 ^ 64 \<Longrightarrow> item_small it"
proof (induction it)
  case (Str b)
  then show ?case by (auto split: if_splits)
next
  case (Lst xs)
  then have "length (concat (map rlp_encode xs)) < 2 ^ 64"
    unfolding rlp_encode_Lst by simp
  moreover then have "item_small x" if "x \<in> set xs" for x
    using Lst.IH [OF that] length_concat_le [OF that] by linarith
  ultimately show ?case by simp
qed

lemma encode_decode_aux:
  assumes "encodable v" and "length (rlp_encode (item_of v)) < 2 ^ 64"
  shows "\<exists>b. EncodeToBytes v = Inr b \<and> decode_item b = Inr (item_of v)"
  using assms EncodeToBytes_ok decode_item_encode item_small_length by metis

section \<open>Properties\<close>

text \<open>C4.  \<open>DecodeBytes\<close> into an \<open>interface{}\<close> accepts exactly the encodings of items whose lengths fit
  64 bits and returns the encoded item: decoding inverts encoding, and no item has a second
  accepted encoding.\<close>

theorem decode_item_iff: "decode_item b = Inr it \<longleftrightarrow> b = rlp_encode it \<and> item_small it"
  using decode_item_encode decode_item_canonical by metis

text \<open>C5.  What \<open>EncodeToBytes\<close> writes for an encodable value, \<open>DecodeBytes\<close> reads back as the item
  the value denotes.\<close>

theorem encode_decode:
  assumes "encodable v" and "length (rlp_encode (item_of v)) < 2 ^ 64"
  shows "\<exists>b. EncodeToBytes v = Inr b \<and> decode_item b = Inr (item_of v)"
  using encode_decode_aux assms by blast

theorem encode_decode_witness:
  "\<exists>b. EncodeToBytes (ListV [StringV [7, 8], BoolV True]) = Inr b \<and> decode_item b = Inr (Lst [Str [7, 8], Str [1]])"
  using encode_decode [of "ListV [StringV [7, 8], BoolV True]"] by (simp add: puthead_def)

text \<open>C6.  Decoding into a slice of 20-byte addresses, as the validator set is stored, accepts
  exactly the encoding of a list of 20-byte strings and returns it.\<close>

theorem decode_addresses_iff:
  "decode_arrays 20 b = Inr vs \<longleftrightarrow> b = rlp_encode (Lst (map Str vs))
    \<and> length (concat (map str_enc vs)) < 2 ^ 64 \<and> filter (\<lambda>v. length v \<noteq> 20) vs = []"
  using decode_addresses_aux by blast

text \<open>C7.  Decoding into an integer type of 64 bits accepts exactly the canonical big-endian
  encoding of a number below \<open>2 ^ 64\<close>: no leading zeros, no long form.\<close>

theorem decodeUint_iff:
  "DecodeBytes (decodeUint 64) b = Inr v \<longleftrightarrow> b = rlp_encode (Str (nat_bytes v)) \<and> v < 2 ^ 64"
  using uint64.DecodeBytes_back uint64.DecodeBytes_forward by (auto simp: str_enc_def simp del: rlp_encode.simps)

text \<open>C8.  Decoding the two bytes \<open>0xC1 0x00\<close> into a slice of one-byte arrays does not terminate:
  \<open>decodeByteArray\<close> drops the error of \<open>Uint\<close> on the byte zero, which leaves the value unread, and the
  element loop appends zeros for ever, whatever the number of rounds.\<close>

theorem decode_byte1_diverges:
  "DecodeBytes (decodeListSlice fuel (decodeByteArray 1)) [0xC1, 0x00] = Inl RlpOutOfFuel"
  using decode_byte1_aux by simp

end
