(* ===== verification/Rlp_Safety.thy ===== *)
theory Rlp_Safety
  imports Rlp_Decode
begin

text \<open>
  The stream as a state machine.  A client drives the stream by any sequence of its operations;
  \<open>stream_ok\<close> holds in every state that can be reached, whatever the input: no position is past
  the end of its list, an open list lies inside the list around it, a value that \<open>Kind\<close>
  announces fits the list it is in, and every size fits 64 bits.  So none of the subtractions
  \<open>tos.size - tos.pos\<close> underflows and none of the additions to \<open>tos.pos\<close> overflows.
\<close>

fun lists_ok :: "(nat \<times> nat) list \<Rightarrow> bool" where
  "lists_ok [] \<longleftrightarrow> True"
| "lists_ok ((pos, sz) # stk) \<longleftrightarrow> pos \<le> sz \<and> sz < 2 ^ 64 \<and> lists_ok stk \<and>
     (case stk of [] \<Rightarrow> True | (ppos, psz) # _ \<Rightarrow> ppos + sz \<le> psz)"

definition stream_ok :: "stream \<Rightarrow> bool" where
  "stream_ok s \<longleftrightarrow> lists_ok (st_stack s) \<and> st_size s < 2 ^ 64 \<and>
     (st_kind s \<noteq> None \<and> st_kinderr s = None \<longrightarrow> space (st_stack s) (st_size s))"

inductive stream_step :: "stream \<Rightarrow> stream \<Rightarrow> bool" where
  StepKind: "Kind s = (res, s') \<Longrightarrow> stream_step s s'"
| StepBytes: "Bytes s = (res, s') \<Longrightarrow> stream_step s s'"
| StepUint: "stream_uint bits s = (res, s') \<Longrightarrow> stream_step s s'"
| StepBool: "stream_Bool s = (res, s') \<Longrightarrow> stream_step s s'"
| StepList: "List_op s = (res, s') \<Longrightarrow> stream_step s s'"
| StepListEnd: "ListEnd s = (res, s') \<Longrightarrow> stream_step s s'"
| StepByteArray: "decodeByteArray n s = (res, s') \<Longrightarrow> stream_step s s'"

inductive stream_reach :: "stream \<Rightarrow> stream \<Rightarrow> bool" where
  ReachRefl: "stream_reach s s"
| ReachStep: "stream_reach s t \<Longrightarrow> stream_step t u \<Longrightarrow> stream_reach s u"

inductive_cases stream_stepE: "stream_step s s'"

definition keeps :: "'a sop \<Rightarrow> bool" where
  "keeps m \<longleftrightarrow> (\<forall>s. stream_ok s \<longrightarrow> stream_ok (snd (m s)))"

lemma keepsI: "(\<And>s res s'. stream_ok s \<Longrightarrow> m s = (res, s') \<Longrightarrow> stream_ok s') \<Longrightarrow> keeps m"
  unfolding keeps_def by (metis prod.collapse)

lemma keepsD: "keeps m \<Longrightarrow> stream_ok s \<Longrightarrow> m s = (res, s') \<Longrightarrow> stream_ok s'"
  unfolding keeps_def by (metis snd_conv)

lemma keeps_sbind: "keeps m \<Longrightarrow> (\<And>a. keeps (f a)) \<Longrightarrow> keeps (sbind m f)"
  by (rule keepsI) (auto simp: sbind_def split: prod.splits sum.splits dest: keepsD)

lemma stream_ok_kindNone [simp]: "stream_ok s \<Longrightarrow> stream_ok (s\<lparr>st_kind := None\<rparr>)"
  by (simp add: stream_ok_def)

text \<open>Reading resets the cached kind, whatever happens.\<close>

lemma limit_check_keeps:
  "limit_check n s = (res, s') \<Longrightarrow> st_stack s' = st_stack s \<and> st_kind s' = st_kind s \<and> st_size s' = st_size s"
  by (auto simp: limit_check_def split: if_splits)

lemma willRead_stack:
  assumes ok: "lists_ok (st_stack s)" and w: "willRead n s = (res, s')"
  shows "lists_ok (st_stack s') \<and> st_kind s' = None \<and> st_size s' = st_size s"
proof (cases "st_stack s")
  case Nil
  then show ?thesis using w by (auto simp: willRead_def Let_def dest!: limit_check_keeps)
next
  case (Cons a stk)
  then show ?thesis using w ok
    by (cases a) (auto simp: willRead_def Let_def split: if_splits dest!: limit_check_keeps)
qed

lemma readByte_stack:
  assumes "lists_ok (st_stack s)" and "readByte s = (res, s')"
  shows "lists_ok (st_stack s') \<and> st_kind s' = None \<and> st_size s' = st_size s"
  using assms willRead_stack [OF assms(1), of 1]
  by (auto simp: readByte_def sbind_def split: prod.splits sum.splits list.splits)

lemma readFull_stack:
  assumes "lists_ok (st_stack s)" and "readFull n s = (res, s')"
  shows "lists_ok (st_stack s') \<and> st_kind s' = None \<and> st_size s' = st_size s"
  using assms willRead_stack [OF assms(1), of n]
  by (auto simp: readFull_def sbind_def split: prod.splits sum.splits if_splits)

lemma readUint_stack:
  assumes "lists_ok (st_stack s)" and "readUint n s = (res, s')"
  shows "lists_ok (st_stack s') \<and> st_kind s' = None \<and> st_size s' = st_size s"
  using assms readByte_stack [OF assms(1)] readFull_stack [OF assms(1), of n]
  by (auto simp: readUint_def sbind_def split: prod.splits sum.splits if_splits)

lemma readUint_less:
  assumes "readUint n s = (Inr v, s')" and "n \<le> 8"
  shows "v < 2 ^ 64"
proof -
  have "v < 256 ^ n"
  proof (cases "n \<le> 1")
    case True
    then show ?thesis using assms unat_byte_less by (auto simp: readUint_def sbind_Inr le_Suc_eq split: if_splits)
  next
    case False
    then obtain b where "v = be_nat b" "length b = n"
      using assms by (auto simp: readUint_def sbind_Inr readFull_def split: if_splits)
    then show ?thesis using be_nat_less [of b] by simp
  qed
  also have "(256::nat) ^ n \<le> 256 ^ 8" using assms(2) by (intro power_increasing) auto
  finally show ?thesis by simp
qed

lemma long_size_stack:
  assumes "lists_ok (st_stack s)" and "long_size k n s = ((k', m, err), s')" and "n \<le> 8"
  shows "lists_ok (st_stack s') \<and> m < 2 ^ 64"
  using assms readUint_stack [OF assms(1), of n] readUint_less [of n s]
  by (auto simp: long_size_def split: prod.splits sum.splits)

lemma stream_readKind_stack:
  assumes ok: "lists_ok (st_stack s)" and rk: "stream_readKind s = ((k, n, err), s')"
  shows "lists_ok (st_stack s') \<and> n < 2 ^ 64"
proof (cases "readByte s")
  case (Pair res s1)
  from readByte_stack [OF ok Pair] have ok1: "lists_ok (st_stack (s1\<lparr>st_byteval := 0\<rparr>))" by simp
  show ?thesis
  proof (cases res)
    case (Inl e)
    with rk Pair ok1 show ?thesis by (auto simp: stream_readKind_def)
  next
    case (Inr b)
    have small: "unat (c :: byte) < 2 ^ 64" for c using unat_byte_less [of c] by simp
    have len: "unat (b - 0xB7) \<le> 8" if "\<not> b < 0xB8" "b < 0xC0"
      using that by (subst unat_minus_tag) (simp_all add: word_le_nat_alt word_less_nat_alt)
    have len': "unat (b - 0xF7) \<le> 8" if "\<not> b < 0xF8"
      using that unat_byte_less [of b] by (subst unat_minus_tag) (simp_all add: word_le_nat_alt word_less_nat_alt)
    from rk Pair Inr ok1 small show ?thesis
      using long_size_stack [OF ok1, of KString "unat (b - 0xB7)"] long_size_stack [OF ok1, of KList "unat (b - 0xF7)"] len len'
      by (auto simp: stream_readKind_def Let_def split: if_splits)
  qed
qed

lemma keeps_Kind: "keeps Kind"
  unfolding keeps_def
proof (intro allI impI)
  fix s assume ok: "stream_ok s"
  show "stream_ok (snd (Kind s))"
  proof (cases "st_kind s")
    case (Some k)
    then show ?thesis using ok by (simp add: Kind_def split: option.splits)
  next
    case None
    let ?s0 = "s\<lparr>st_kinderr := None\<rparr>"
    obtain k n err s1 where rk: "stream_readKind ?s0 = ((k, n, err), s1)" by (metis prod.collapse)
    have "lists_ok (st_stack ?s0)" using ok by (simp add: stream_ok_def)
    from stream_readKind_stack [OF this rk] have h: "lists_ok (st_stack s1)" "n < 2 ^ 64" by auto
    have ok0: "stream_ok ?s0" using ok None by (simp add: stream_ok_def)
    show ?thesis
    proof (cases "st_stack s1")
      case Nil
      with ok0 None rk h show ?thesis
        by (auto simp: Kind_def Let_def stream_ok_def split: option.splits list.splits)
    next
      case (Cons a stk)
      then obtain pos lsz where "st_stack s1 = (pos, lsz) # stk" by (cases a) auto
      with ok0 None rk h show ?thesis
        by (auto simp: Kind_def Let_def stream_ok_def split: option.splits list.splits)
    qed
  qed
qed

lemma Kind_result:
  assumes "Kind s = (Inr (k, n), s')"
  shows "st_kind s' = Some k \<and> st_size s' = n \<and> st_kinderr s' = None"
proof (cases "st_kind s")
  case (Some k')
  with assms show ?thesis by (auto simp: Kind_def split: option.splits)
next
  case None
  then show ?thesis using assms
    by (auto simp: Kind_def Let_def split: prod.splits option.splits list.splits if_splits)
qed

text \<open>An operation that first asks for the kind.\<close>

lemma keeps_Kind_bind:
  assumes "\<And>k n s res s'. \<lbrakk>stream_ok s; st_kind s = Some k; st_size s = n; st_kinderr s = None; f (k, n) s = (res, s')\<rbrakk>
    \<Longrightarrow> stream_ok s'"
  shows "keeps (sbind Kind f)"
proof (rule keepsI)
  fix s res s' assume ok: "stream_ok s" and b: "sbind Kind f s = (res, s')"
  obtain r1 s1 where K: "Kind s = (r1, s1)" by (metis prod.collapse)
  have ok1: "stream_ok s1" by (rule keepsD [OF keeps_Kind ok K])
  show "stream_ok s'"
  proof (cases r1)
    case (Inl e)
    with b K ok1 show ?thesis by (simp add: sbind_def)
  next
    case (Inr kn)
    obtain k n where kn: "kn = (k, n)" by (cases kn)
    with b K Inr have "f (k, n) s1 = (res, s')" by (simp add: sbind_def)
    with assms ok1 Kind_result [of s k n s1] K Inr kn show ?thesis by blast
  qed
qed

lemma readFull_ok: "stream_ok s \<Longrightarrow> readFull n s = (res, s') \<Longrightarrow> stream_ok s'"
  using readFull_stack [of s n res s'] by (auto simp: stream_ok_def)

lemma readUint_ok: "stream_ok s \<Longrightarrow> readUint n s = (res, s') \<Longrightarrow> stream_ok s'"
  using readUint_stack [of s n res s'] by (auto simp: stream_ok_def)

lemma keeps_Bytes: "keeps Bytes"
  unfolding Bytes_def
proof (rule keeps_Kind_bind)
  fix k n s res s'
  assume ok: "stream_ok s" and "(case (k, n) of (kind, sz) \<Rightarrow> \<lambda>s. case kind of
       KByte \<Rightarrow> (Inr [st_byteval s], s\<lparr>st_kind := None\<rparr>)
     | KString \<Rightarrow> sbind (readFull sz) (\<lambda>b s'. if sz = 1 \<and> b ! 0 < 128 then (Inl ErrCanonSize, s') else (Inr b, s')) s
     | KList \<Rightarrow> (Inl ErrExpectedString, s)) s = (res, s')"
  then show "stream_ok s'"
    by (cases k) (auto simp: sbind_def split: prod.splits sum.splits if_splits dest: readFull_ok [OF ok])
qed

lemma keeps_uint: "keeps (stream_uint bits)"
  unfolding stream_uint_def
proof (rule keeps_Kind_bind, goal_cases)
  case (1 k n s res s')
  then show ?case
    by (cases k) (auto split: prod.splits sum.splits if_splits dest: readUint_ok)
qed

lemma keeps_Bool: "keeps stream_Bool"
  unfolding stream_Bool_def by (rule keeps_sbind [OF keeps_uint]) (simp add: keeps_def)

lemma keeps_List: "keeps List_op"
  unfolding List_op_def
proof (rule keeps_Kind_bind, goal_cases)
  case (1 k n s res s')
  then show ?case
    by (cases "st_stack s") (auto simp: stream_ok_def split: if_splits)
qed

lemma keeps_ListEnd: "keeps ListEnd"
proof (rule keepsI)
  fix s res s' assume ok: "stream_ok s" and e: "ListEnd s = (res, s')"
  show "stream_ok s'"
  proof (cases "st_stack s")
    case Nil
    with ok e show ?thesis by (simp add: ListEnd_def)
  next
    case (Cons a stk)
    with ok e show ?thesis
      by (cases a) (auto simp: ListEnd_def Let_def stream_ok_def split: if_splits list.splits)
  qed
qed

lemma keeps_ByteArray: "keeps (decodeByteArray vlen)"
  unfolding decodeByteArray_def
proof (rule keeps_Kind_bind, goal_cases)
  case (1 k n s res s')
  then show ?case
    using keepsD [OF keeps_uint, of s 64]
    by (cases k) (auto simp: sbind_def split: prod.splits sum.splits if_splits dest: readFull_ok)
qed

lemma stream_step_ok: "stream_step s s' \<Longrightarrow> stream_ok s \<Longrightarrow> stream_ok s'"
  by (erule stream_stepE) (metis keepsD keeps_Kind keeps_Bytes keeps_uint keeps_Bool keeps_List keeps_ListEnd keeps_ByteArray)+

text \<open>C9.  Every state a client can bring a fresh stream into, by any sequence of operations on any
  input, satisfies \<open>stream_ok\<close>.\<close>

theorem stream_reach_ok:
  assumes "stream_reach (NewStream b limit) s"
  shows "stream_ok s"
  using assms
proof (induction "NewStream b limit" s rule: stream_reach.induct)
  case ReachRefl
  then show ?case by (simp add: stream_ok_def NewStream_def)
next
  case (ReachStep t u)
  then show ?case by (blast intro: stream_step_ok)
qed

theorem stream_reach_ok_witness:
  "stream_ok (snd (List_op (NewStream [0xC1, 0x05] 0)))"
proof (rule stream_reach_ok)
  show "stream_reach (NewStream [0xC1, 0x05] 0) (snd (List_op (NewStream [0xC1, 0x05] 0)))"
    by (rule ReachStep [OF ReachRefl StepList]) (rule prod.collapse [symmetric])
qed

end
