(* ===== verification/Trie_Encoding.thy ===== *)
theory Trie_Encoding
  imports Prelude
begin

unbundle bit_operations_syntax

text \<open>
  The three encodings of trie keys (\<open>src/trie/encoding.go\<close>).  KEYBYTES is the key as the
  caller gives it; HEX has one nibble per byte and, for the key of a value, a final
  terminator byte 16; COMPACT packs a HEX key with a flag nibble for storage.  Every
  function that indexes a slice returns \<open>None\<close> where Go would panic with an index out of
  range; the lemmas show where that cannot happen.
\<close>

section \<open>The encodings\<close>

definition hasTerm :: "bytes \<Rightarrow> bool" where
  "hasTerm s \<longleftrightarrow> length s > 0 \<and> s ! (length s - 1) = 16"

fun decodeNibbles :: "bytes \<Rightarrow> bytes option" where
  "decodeNibbles [] = Some []"
| "decodeNibbles [_] = None"
| "decodeNibbles (a # b # rest) =
     (case decodeNibbles rest of
        None \<Rightarrow> None
      | Some bs \<Rightarrow> Some ((push_bit 4 a OR b) # bs))"

definition hexToCompact :: "bytes \<Rightarrow> bytes option" where
  "hexToCompact hex0 =
     (let terminator = (if hasTerm hex0 then 1 else 0 :: byte);
          hex = (if hasTerm hex0 then take (length hex0 - 1) hex0 else hex0);
          buf0 = push_bit 5 terminator
      in if length hex mod 2 = 1
         then map_option (\<lambda>bs. (buf0 OR push_bit 4 1 OR hex ! 0) # bs) (decodeNibbles (drop 1 hex))
         else map_option (\<lambda>bs. buf0 # bs) (decodeNibbles hex))"

fun keybytesToNibbles :: "bytes \<Rightarrow> bytes" where
  "keybytesToNibbles [] = []"
| "keybytesToNibbles (b # bs) = (b div 16) # (b mod 16) # keybytesToNibbles bs"

definition keybytesToHex :: "bytes \<Rightarrow> bytes" where
  "keybytesToHex str = keybytesToNibbles str @ [16]"

definition compactToHex :: "bytes \<Rightarrow> bytes option" where
  "compactToHex compact =
     (let base = keybytesToHex compact;
          base = take (length base - 1) base
      in if base = [] then None
         else let base' = (if base ! 0 \<ge> 2 then base @ [16] else base);
                  chop = unat (2 - (base' ! 0 AND 1))
              in Some (drop chop base'))"

definition hexToKeybytes :: "bytes \<Rightarrow> bytes option" where
  "hexToKeybytes hex0 =
     (let hex = (if hasTerm hex0 then take (length hex0 - 1) hex0 else hex0)
      in if length hex mod 2 \<noteq> 0 then None
         else decodeNibbles hex)"

fun prefixLen :: "bytes \<Rightarrow> bytes \<Rightarrow> nat" where
  "prefixLen (x # xs) (y # ys) = (if x \<noteq> y then 0 else Suc (prefixLen xs ys))"
| "prefixLen _ _ = 0"

section \<open>Well-formed hex keys\<close>

definition nibbles :: "bytes \<Rightarrow> bool" where
  "nibbles xs \<longleftrightarrow> (\<forall>x \<in> set xs. x < 16)"

definition hexkey :: "bytes \<Rightarrow> bool" where
  "hexkey k \<longleftrightarrow> (\<exists>ns. nibbles ns \<and> k = ns @ [16])"

lemma nibbles_simps [simp]:
  "nibbles []"
  "nibbles (x # xs) \<longleftrightarrow> x < 16 \<and> nibbles xs"
  "nibbles (xs @ ys) \<longleftrightarrow> nibbles xs \<and> nibbles ys"
  by (auto simp: nibbles_def)

lemma hasTerm_simps [simp]:
  "\<not> hasTerm []"
  "hasTerm (xs @ [x]) \<longleftrightarrow> x = 16"
  by (simp_all add: hasTerm_def nth_append)

lemma nibbles_not_hasTerm: "nibbles xs \<Longrightarrow> \<not> hasTerm xs"
  by (cases xs rule: rev_cases) auto

lemma hexkey_Cons: "hexkey (x # xs) \<longleftrightarrow> (x = 16 \<and> xs = []) \<or> (x < 16 \<and> hexkey xs)"
  by (auto simp: hexkey_def Cons_eq_append_conv)

lemma not_hexkey_Nil [simp]: "\<not> hexkey []"
  by (simp add: hexkey_def)

lemma hexkey_append: "nibbles ns \<Longrightarrow> hexkey (ns @ k) \<longleftrightarrow> hexkey k"
  by (induction ns) (auto simp: hexkey_Cons)

section \<open>Nibble arithmetic\<close>

lemma byte_split_join [byte_simps]: "push_bit 4 (b div 16) OR (b mod 16) = (b :: byte)"
proof -
  have d: "b div 16 = drop_bit 4 b" by (simp add: drop_bit_eq_div)
  have m: "b mod 16 = take_bit 4 b" by (simp add: take_bit_eq_mod)
  show ?thesis unfolding d m by (rule bit_eqI) (auto simp: bit_simps)
qed

lemma nibble_bounds [byte_simps]: "b div 16 < (16 :: byte)" "b mod 16 < (16 :: byte)"
proof -
  show "b div 16 < (16 :: byte)"
    using unat_byte_less [of b] by (simp add: word_less_nat_alt unat_div)
  show "b mod 16 < (16 :: byte)"
    by (simp add: word_less_nat_alt unat_mod)
qed

lemma unat_nibble_join:
  assumes "a < (16 :: byte)" and "b < 16"
  shows "unat (push_bit 4 a OR b) = 16 * unat a + unat b"
proof -
  have a: "unat a < 16" and b: "unat b < 16" using assms by (simp_all add: word_less_nat_alt)
  have eb: "b = take_bit 4 b"
    using b by (simp add: take_bit_eq_mod word_unat_eq_iff unat_mod)
  have "push_bit 4 a AND b = 0"
    by (subst eb, rule bit_eqI) (auto simp: bit_simps)
  then have "push_bit 4 a OR b = push_bit 4 a + b"
    using word_plus_and_or [of "push_bit 4 a" b] by simp
  also have "\<dots> = 16 * a + b" by (simp add: push_bit_eq_mult)
  finally show ?thesis using a b by (simp add: unat_word_ariths)
qed

lemma nibble_join_split [byte_simps]:
  assumes "a < (16 :: byte)" and "b < 16"
  shows "(push_bit 4 a OR b) div 16 = a" "(push_bit 4 a OR b) mod 16 = b"
  using assms unat_nibble_join [OF assms]
  by (simp_all add: word_unat_eq_iff unat_div unat_mod word_less_nat_alt)

section \<open>Round trips\<close>

lemma decodeNibbles_keybytes: "decodeNibbles (keybytesToNibbles s) = Some s"
  by (induction s) (simp_all add: byte_simps)

lemma nibbles_keybytes [simp]: "nibbles (keybytesToNibbles s)"
  by (induction s) (simp_all add: byte_simps)

lemma length_keybytesToNibbles [simp]: "length (keybytesToNibbles s) = 2 * length s"
  by (induction s) simp_all

lemma keybytesToNibbles_append [simp]:
  "keybytesToNibbles (s @ t) = keybytesToNibbles s @ keybytesToNibbles t"
  by (induction s) simp_all

lemma keybytes_decodeNibbles:
  assumes "nibbles ns" and "decodeNibbles ns = Some bs"
  shows "keybytesToNibbles bs = ns"
  using assms
  by (induction ns arbitrary: bs rule: decodeNibbles.induct)
     (auto simp: byte_simps split: option.splits)

lemma decodeNibbles_even: "even (length ns) \<Longrightarrow> \<exists>bs. decodeNibbles ns = Some bs"
  by (induction ns rule: decodeNibbles.induct) auto

lemma keybytesToNibbles_inj: "keybytesToNibbles s = keybytesToNibbles t \<longleftrightarrow> s = t"
  by (metis decodeNibbles_keybytes option.inject)

lemma keybytesToHex_inj [simp]: "keybytesToHex s = keybytesToHex t \<longleftrightarrow> s = t"
  by (simp add: keybytesToHex_def keybytesToNibbles_inj)

lemma hexkey_keybytesToHex [simp]: "hexkey (keybytesToHex s)"
  by (auto simp: hexkey_def keybytesToHex_def)

lemma length_keybytesToHex [simp]: "length (keybytesToHex s) = 2 * length s + 1"
  by (simp add: keybytesToHex_def)

lemma hexToKeybytes_roundtrip: "hexToKeybytes (keybytesToHex s) = Some s"
  by (simp add: hexToKeybytes_def keybytesToHex_def decodeNibbles_keybytes)

text \<open>The first byte of a compact key: twice the terminator bit plus the parity of the
  nibbles, and the odd nibble.\<close>

lemma compact_flags:
  "push_bit 5 (if t then 1 else 0 :: byte) = push_bit 4 (if t then 2 else 0) OR 0"
  "x < 16 \<Longrightarrow> push_bit 5 (if t then 1 else 0 :: byte) OR push_bit 4 1 OR x
     = push_bit 4 (if t then 3 else 1) OR x"
  by (simp_all add: push_bit_eq_mult or.assoc [symmetric])

lemma compactToHex_Cons:
  assumes "f < 16" and "x < 16"
  shows "compactToHex ((push_bit 4 f OR x) # bs) =
     Some ((if f AND 1 = 1 then [x] else []) @ keybytesToNibbles bs @ (if f \<ge> 2 then [16] else []))"
proof -
  have "f AND 1 = f mod 2" by (simp add: and_one_eq)
  then have "f AND 1 = 0 \<or> f AND 1 = 1"
    by (auto simp: word_unat_eq_iff unat_mod)
  then show ?thesis
    by (auto simp: compactToHex_def keybytesToHex_def Let_def nibble_join_split [OF assms] nth_append drop_Cons')
qed

lemma hexToCompact_roundtrip_nibbles:
  assumes "nibbles ns"
  shows "\<exists>c. hexToCompact (ns @ (if t then [16] else [])) = Some c \<and>
             compactToHex c = Some (ns @ (if t then [16] else []))"
proof -
  have strip: "(if hasTerm (ns @ (if t then [16] else []))
      then take (length (ns @ (if t then [16] else [])) - 1) (ns @ (if t then [16] else []))
      else ns @ (if t then [16] else [])) = ns"
    using nibbles_not_hasTerm [OF assms] by simp
  have trm: "hasTerm (ns @ (if t then [16] else [])) = t"
    using nibbles_not_hasTerm [OF assms] by simp
  show ?thesis
  proof (cases "even (length ns)")
    case True
    then obtain bs where bs: "decodeNibbles ns = Some bs" using decodeNibbles_even by blast
    have k: "keybytesToNibbles bs = ns" by (rule keybytes_decodeNibbles [OF assms bs])
    have "hexToCompact (ns @ (if t then [16] else [])) = Some ((push_bit 4 (if t then 2 else 0) OR 0) # bs)"
      using True bs unfolding hexToCompact_def Let_def strip trm
      by (simp add: compact_flags(1) even_iff_mod_2_eq_zero)
    moreover have "compactToHex ((push_bit 4 (if t then 2 else 0) OR 0) # bs) = Some (ns @ (if t then [16] else []))"
      by (subst compactToHex_Cons) (auto simp: k)
    ultimately show ?thesis by blast
  next
    case False
    then obtain x xs where ns: "ns = x # xs" by (cases ns) auto
    with False obtain bs where bs: "decodeNibbles xs = Some bs" using decodeNibbles_even by fastforce
    have k: "keybytesToNibbles bs = xs" using assms bs ns by (auto intro: keybytes_decodeNibbles)
    have x: "x < 16" using assms ns by simp
    have "hexToCompact (ns @ (if t then [16] else [])) = Some ((push_bit 4 (if t then 3 else 1) OR x) # bs)"
    proof -
      have par: "length ns mod 2 = 1" using False by presburger
      show ?thesis unfolding hexToCompact_def Let_def strip trm
        using par bs by (simp add: ns or.assoc [symmetric])
    qed
    moreover have "compactToHex ((push_bit 4 (if t then 3 else 1) OR x) # bs) = Some (ns @ (if t then [16] else []))"
      using x by (subst compactToHex_Cons) (auto simp: k ns word_le_nat_alt)
    ultimately show ?thesis by blast
  qed
qed

lemma hexToCompact_roundtrip_aux:
  assumes "nibbles hex \<or> hexkey hex"
  shows "Option.bind (hexToCompact hex) compactToHex = Some hex"
  using assms
proof
  assume "nibbles hex"
  from hexToCompact_roundtrip_nibbles [OF this, of False] show ?thesis by auto
next
  assume "hexkey hex"
  then obtain ns where "nibbles ns" and hex: "hex = ns @ [16]" by (auto simp: hexkey_def)
  from hexToCompact_roundtrip_nibbles [OF this(1), of True] show ?thesis by (auto simp: hex)
qed

section \<open>Common prefixes\<close>

lemma prefixLen_le: "prefixLen a b \<le> length a" "prefixLen a b \<le> length b"
  by (induction a b rule: prefixLen.induct) auto

lemma prefixLen_take: "take (prefixLen a b) a = take (prefixLen a b) b"
  by (induction a b rule: prefixLen.induct) auto

lemma prefixLen_neq:
  "prefixLen a b < length a \<Longrightarrow> prefixLen a b < length b \<Longrightarrow> a ! prefixLen a b \<noteq> b ! prefixLen a b"
  by (induction a b rule: prefixLen.induct) (auto split: if_splits)

lemma prefixLen_full_iff: "prefixLen a b = length b \<longleftrightarrow> take (length b) a = b"
  by (induction a b rule: prefixLen.induct) (auto simp: take_Cons')

section \<open>Properties\<close>

text \<open>C10.  Compact encoding loses nothing: for nibbles with or without the terminator, \<open>hexToCompact\<close>
  does not panic and \<open>compactToHex\<close> returns the key it was given.\<close>

theorem hexToCompact_roundtrip:
  assumes "nibbles hex \<or> hexkey hex"
  shows "Option.bind (hexToCompact hex) compactToHex = Some hex"
  by (rule hexToCompact_roundtrip_aux [OF assms])

theorem hexToCompact_roundtrip_witness:
  "hexToCompact [1, 2, 3, 16] = Some [0x31, 0x23] \<and> compactToHex [0x31, 0x23] = Some [1, 2, 3, 16]"
proof -
  have c: "hexToCompact [1, 2, 3, 16] = Some [0x31, 0x23]"
    by (simp add: hexToCompact_def hasTerm_def Let_def)
  have "hexkey [1, 2, 3, 16]" by (simp add: hexkey_Cons)
  with hexToCompact_roundtrip [of "[1, 2, 3, 16]"] c show ?thesis by simp
qed

end
