(* ===== verification/Common_Types.thy ===== *)
theory Common_Types
  imports Prelude
begin

text \<open>
  Hashes and addresses (\<open>src/common/types.go\<close>) are fixed-size byte arrays; the model keeps them as
  byte lists.  \<open>SetBytes\<close> crops from the left and pads on the left with zeros, so a
  conversion yields the fixed size for every input and is the identity on inputs that
  already have it.
\<close>

definition HashLength :: nat where
  "HashLength = 32"

definition AddressLength :: nat where
  "AddressLength = 20"

text \<open>\<open>SetBytes\<close> on a zeroed array of \<open>n\<close> bytes.\<close>

definition SetBytes :: "nat \<Rightarrow> bytes \<Rightarrow> bytes" where
  "SetBytes n b0 =
     (let b = (if length b0 > n then drop (length b0 - n) b0 else b0)
      in replicate (n - length b) 0 @ b)"

definition BytesToHash :: "bytes \<Rightarrow> bytes" where
  "BytesToHash b = SetBytes HashLength b"

definition BytesToAddress :: "bytes \<Rightarrow> bytes" where
  "BytesToAddress b = SetBytes AddressLength b"

lemma length_SetBytes [simp]: "length (SetBytes n b) = n"
  by (simp add: SetBytes_def Let_def)

lemma SetBytes_id [simp]: "length b = n \<Longrightarrow> SetBytes n b = b"
  by (simp add: SetBytes_def)

lemma BytesToHash_simps [simp]:
  "length (BytesToHash b) = 32" "length b = 32 \<Longrightarrow> BytesToHash b = b"
  by (simp_all add: BytesToHash_def HashLength_def)

lemma BytesToAddress_simps [simp]:
  "length (BytesToAddress b) = 20" "length b = 20 \<Longrightarrow> BytesToAddress b = b"
  by (simp_all add: BytesToAddress_def AddressLength_def)

end
