(* ===== verification/Trie_Node.thy ===== *)
theory Trie_Node
  imports Rlp_Raw Trie_Encoding Common_Types
begin

text \<open>
  Nodes of the Merkle trie and their decoding (\<open>src/trie/node.go\<close>).  The source's \<open>nil\<close> node is
  \<open>NilNode\<close>; a full node keeps its children in a list of 17.  Decoding errors carry the path
  of contexts that \<open>wrapError\<close> collects, innermost first.  \<open>NodePanic\<close> is a run-time panic: the
  index out of range of \<open>compactToHex\<close> on an empty key, or the one of \<open>rlp.readKind\<close>.

  An embedded node lies strictly inside the buffer of the node around it, so the length of
  the buffer bounds the nesting of \<open>decodeNode\<close>.  The decoders of the parts take the decoder
  of the next level as an argument, and \<open>decodeNode_unfold\<close> shows that the bound is never
  reached.
\<close>

record nodeFlag =
  nf_hash :: "bytes option"
  nf_gen :: u16
  nf_dirty :: bool

datatype node =
    NilNode
  | FullNode "node list" nodeFlag
  | ShortNode bytes node nodeFlag
  | HashNode bytes
  | ValueNode bytes

definition canUnload_flag :: "nodeFlag \<Rightarrow> u16 \<Rightarrow> u16 \<Rightarrow> bool" where
  "canUnload_flag fl cachegen cachelimit \<longleftrightarrow> \<not> nf_dirty fl \<and> cachegen - nf_gen fl \<ge> cachelimit"

fun canUnload :: "node \<Rightarrow> u16 \<Rightarrow> u16 \<Rightarrow> bool" where
  "canUnload (FullNode _ fl) gen limit = canUnload_flag fl gen limit"
| "canUnload (ShortNode _ _ fl) gen limit = canUnload_flag fl gen limit"
| "canUnload _ gen limit = False"

fun node_cache :: "node \<Rightarrow> bytes option \<times> bool" where
  "node_cache (FullNode _ fl) = (nf_hash fl, nf_dirty fl)"
| "node_cache (ShortNode _ _ fl) = (nf_hash fl, nf_dirty fl)"
| "node_cache _ = (None, True)"

section \<open>Decoding\<close>

datatype node_ctx = CtxShort | CtxFull | CtxVal | CtxIndex nat

datatype node_cause =
    CauseEOF
  | CauseDecode rlp_error
  | CauseCount nat
  | CauseRlp rlp_error
  | CauseValue rlp_error
  | CauseOversized nat
  | CauseSize nat

datatype node_error =
    Plain node_cause
  | Wrapped node_cause "node_ctx list"
  | NodePanic
  | NodeOutOfFuel

fun wrapError :: "node_error \<Rightarrow> node_ctx \<Rightarrow> node_error" where
  "wrapError (Wrapped what stack) ctx = Wrapped what (stack @ [ctx])"
| "wrapError (Plain what) ctx = Wrapped what [ctx]"
| "wrapError e ctx = e"

definition wrap_result :: "node_error + 'a \<Rightarrow> node_ctx \<Rightarrow> node_error + 'a" where
  "wrap_result r ctx = (case r of Inl e \<Rightarrow> Inl (wrapError e ctx) | Inr v \<Rightarrow> Inr v)"

definition rlp_result :: "(rlp_error \<Rightarrow> node_cause) \<Rightarrow> rlp_error + 'a \<Rightarrow> node_error + 'a" where
  "rlp_result f r = (case r of
     Inl e \<Rightarrow> Inl (if e = RlpPanic then NodePanic else Plain (f e))
   | Inr v \<Rightarrow> Inr v)"

type_synonym node_decoder = "bytes option \<Rightarrow> bytes \<Rightarrow> u16 \<Rightarrow> node_error + node"

definition hashLen :: nat where
  "hashLen = HashLength"

definition decodeRef :: "node_decoder \<Rightarrow> bytes \<Rightarrow> u16 \<Rightarrow> node_error + node \<times> bytes" where
  "decodeRef dec buf cachegen =
     bind_result (rlp_result CauseRlp (Split buf)) (\<lambda>(kind, val, rest).
       if kind = KList then
         (let sz = length buf - length rest in
          if sz > hashLen then Inl (Plain (CauseOversized sz))
          else bind_result (dec None buf cachegen) (\<lambda>n. Inr (n, rest)))
       else if kind = KString \<and> length val = 0 then Inr (NilNode, rest)
       else if kind = KString \<and> length val = 32 then Inr (HashNode val, rest)
       else Inl (Plain (CauseSize (length val))))"

definition decodeShort :: "node_decoder \<Rightarrow> bytes option \<Rightarrow> bytes \<Rightarrow> u16 \<Rightarrow> node_error + node" where
  "decodeShort dec hash elems cachegen =
     bind_result (rlp_result CauseRlp (SplitString elems)) (\<lambda>(kbuf, rest).
       let flag = \<lparr>nf_hash = hash, nf_gen = cachegen, nf_dirty = False\<rparr> in
       case compactToHex kbuf of
         None \<Rightarrow> Inl NodePanic
       | Some key \<Rightarrow>
           if hasTerm key then
             bind_result (rlp_result CauseValue (SplitString rest)) (\<lambda>(val, _).
               Inr (ShortNode key (ValueNode val) flag))
           else
             bind_result (wrap_result (decodeRef dec rest cachegen) CtxVal) (\<lambda>(r, _).
               Inr (ShortNode key r flag)))"

text \<open>The loop over the first 16 children, from index \<open>i\<close> on, \<open>k\<close> rounds left.\<close>

fun decodeChildren :: "nat \<Rightarrow> nat \<Rightarrow> node_decoder \<Rightarrow> bytes \<Rightarrow> u16 \<Rightarrow> node_error + node list \<times> bytes" where
  "decodeChildren 0 i dec elems cachegen = Inr ([], elems)"
| "decodeChildren (Suc k) i dec elems cachegen =
     bind_result (wrap_result (decodeRef dec elems cachegen) (CtxIndex i)) (\<lambda>(cld, rest).
       bind_result (decodeChildren k (Suc i) dec rest cachegen) (\<lambda>(clds, rest'). Inr (cld # clds, rest')))"

definition decodeFull :: "node_decoder \<Rightarrow> bytes option \<Rightarrow> bytes \<Rightarrow> u16 \<Rightarrow> node_error + node" where
  "decodeFull dec hash elems cachegen =
     bind_result (decodeChildren 16 0 dec elems cachegen) (\<lambda>(clds, rest).
       bind_result (rlp_result CauseRlp (SplitString rest)) (\<lambda>(val, _).
         Inr (FullNode (clds @ [if length val > 0 then ValueNode val else NilNode])
                \<lparr>nf_hash = hash, nf_gen = cachegen, nf_dirty = False\<rparr>)))"

text \<open>The error of \<open>CountValues\<close> is dropped by the source; its count is zero then.\<close>

definition decodeNode_body :: "node_decoder \<Rightarrow> node_decoder" where
  "decodeNode_body dec hash buf cachegen =
     (if length buf = 0 then Inl (Plain CauseEOF)
      else bind_result (rlp_result CauseDecode (SplitList buf)) (\<lambda>(elems, _).
        if CountValues elems = Inl RlpPanic then Inl NodePanic
        else
          let c = (case CountValues elems of Inl _ \<Rightarrow> 0 | Inr c \<Rightarrow> c) in
          if c = 2 then wrap_result (decodeShort dec hash elems cachegen) CtxShort
          else if c = 17 then wrap_result (decodeFull dec hash elems cachegen) CtxFull
          else Inl (Plain (CauseCount c))))"

fun decodeNode_fuel :: "nat \<Rightarrow> node_decoder" where
  "decodeNode_fuel 0 hash buf cachegen = Inl NodeOutOfFuel"
| "decodeNode_fuel (Suc fuel) hash buf cachegen = decodeNode_body (decodeNode_fuel fuel) hash buf cachegen"

definition decodeNode :: node_decoder where
  "decodeNode hash buf cachegen = decodeNode_fuel (length buf + 1) hash buf cachegen"

section \<open>The bound on the nesting is enough\<close>

text \<open>Two decoders that agree on all buffers shorter than \<open>n\<close>.\<close>

definition agree :: "nat \<Rightarrow> node_decoder \<Rightarrow> node_decoder \<Rightarrow> bool" where
  "agree n d d' \<longleftrightarrow> (\<forall>hash buf gen. length buf < n \<longrightarrow> d hash buf gen = d' hash buf gen)"

lemma rlp_result_Inr [simp]: "rlp_result f r = Inr v \<longleftrightarrow> r = Inr v"
  by (cases r) (auto simp: rlp_result_def)

lemma wrap_result_Inr [simp]: "wrap_result r c = Inr v \<longleftrightarrow> r = Inr v"
  by (cases r) (auto simp: wrap_result_def)

lemma bind_result_cong_strong:
  assumes "\<And>a. r = Inr a \<Longrightarrow> f a = f' a"
  shows "bind_result r f = bind_result r f'"
  using assms by (cases r) auto

lemma decodeRef_agree: "agree n d d' \<Longrightarrow> length buf < n \<Longrightarrow> decodeRef d buf gen = decodeRef d' buf gen"
  by (auto simp: decodeRef_def agree_def Let_def intro!: bind_result_cong_strong)

lemma decodeRef_rest: "decodeRef d buf gen = Inr (c, rest) \<Longrightarrow> length rest < length buf"
  by (auto simp: decodeRef_def bind_result_eq_Inr Let_def dest!: Split_progress split: if_splits)

lemma decodeChildren_agree:
  "agree n d d' \<Longrightarrow> length elems < n \<Longrightarrow> decodeChildren k i d elems gen = decodeChildren k i d' elems gen"
proof (induction k arbitrary: i elems)
  case (Suc k)
  have "decodeChildren k (Suc i) d rest gen = decodeChildren k (Suc i) d' rest gen"
    if "decodeRef d' elems gen = Inr (c, rest)" for c rest
    using Suc that decodeRef_rest by fastforce
  then show ?case using decodeRef_agree [OF Suc.prems] by (auto intro!: bind_result_cong_strong)
qed simp

lemma SplitString_rest: "SplitString b = Inr (c, rest) \<Longrightarrow> length rest < length b"
  by (auto simp: SplitString_def bind_result_eq_Inr dest!: Split_progress split: if_splits)

lemma SplitList_content: "SplitList b = Inr (c, rest) \<Longrightarrow> length c < length b"
  using Split_canonical_aux [of b KList c rest] by (auto simp: SplitList_def bind_result_eq_Inr puthead_def split: if_splits)

lemma decodeShort_agree:
  "agree n d d' \<Longrightarrow> length elems < n \<Longrightarrow> decodeShort d hash elems gen = decodeShort d' hash elems gen"
  by (auto simp: decodeShort_def Let_def decodeRef_agree dest!: SplitString_rest
      intro!: bind_result_cong_strong split: option.splits)

lemma decodeFull_agree:
  "agree n d d' \<Longrightarrow> length elems < n \<Longrightarrow> decodeFull d hash elems gen = decodeFull d' hash elems gen"
  by (simp add: decodeFull_def decodeChildren_agree)

lemma decodeNode_body_agree:
  "agree n d d' \<Longrightarrow> length buf \<le> n \<Longrightarrow> decodeNode_body d hash buf gen = decodeNode_body d' hash buf gen"
  by (auto simp: decodeNode_body_def Let_def dest!: SplitList_content
      intro!: bind_result_cong_strong decodeShort_agree decodeFull_agree arg_cong2 [where f = wrap_result])

lemma decodeNode_fuel_enough: "length buf < fuel \<Longrightarrow> length buf < fuel' \<Longrightarrow> decodeNode_fuel fuel hash buf gen = decodeNode_fuel fuel' hash buf gen"
proof (induction fuel arbitrary: fuel' hash buf gen)
  case (Suc fuel)
  then obtain f' where f': "fuel' = Suc f'" by (cases fuel') auto
  have "agree (length buf) (decodeNode_fuel fuel) (decodeNode_fuel f')"
    unfolding agree_def
  proof (intro allI impI)
    fix h g and b :: bytes assume "length b < length buf"
    with Suc.prems f' have "length b < fuel" "length b < f'" by simp_all
    then show "decodeNode_fuel fuel h b g = decodeNode_fuel f' h b g" by (rule Suc.IH)
  qed
  then show ?case by (simp add: f' decodeNode_body_agree)
qed simp

lemma decodeNode_unfold: "decodeNode hash buf gen = decodeNode_body decodeNode hash buf gen"
proof -
  have "agree (length buf) (decodeNode_fuel (length buf)) decodeNode"
    unfolding agree_def decodeNode_def by (intro allI impI decodeNode_fuel_enough) simp_all
  then show ?thesis by (simp add: decodeNode_def [of hash buf] decodeNode_body_agree)
qed

end
