(* ===== verification/Merkle_Trie.thy ===== *)
theory Merkle_Trie
  imports Trie_Node
begin

text \<open>
  The Merkle Patricia trie (\<open>src/trie/trie.go\<close>): lookup, insertion and deletion on nodes, and the
  operations of \<open>Trie\<close> on them.  Keys inside the trie are nibbles closed by the terminator 16.

  The database is an argument: it maps a node hash to the stored encoding, \<open>None\<close> standing for
  an error or a nil result.  The source recurses without a bound because a database can send
  it in a circle; the model bounds the number of database reads on one path by \<open>fuel\<close>, and
  recursion into nodes in memory is not bounded.  A path of a well-formed trie reads at most
  once per nibble of the key, so the operations pass the length of the key
  (\<open>tryGet_wf\<close>, \<open>insert_wf\<close> and \<open>delete_wf\<close> show that this is enough).  Where the source shares or
  copies nodes the model has values: nodes are never written after they are linked.
\<close>

type_synonym database = "bytes \<Rightarrow> bytes option"

datatype trie_error =
    MissingNodeError bytes bytes
  | TriePanic
  | TrieOutOfFuel
  | DbError

definition resolveHash :: "database \<Rightarrow> u16 \<Rightarrow> bytes \<Rightarrow> bytes \<Rightarrow> trie_error + node" where
  "resolveHash db gen n pfx =
     (case db n of
        None \<Rightarrow> Inl (MissingNodeError (BytesToHash n) pfx)
      | Some enc \<Rightarrow>
          (case decodeNode (Some n) enc gen of Inl _ \<Rightarrow> Inl TriePanic | Inr dec \<Rightarrow> Inr dec))"

definition resolve :: "database \<Rightarrow> u16 \<Rightarrow> node \<Rightarrow> bytes \<Rightarrow> trie_error + node" where
  "resolve db gen n pfx = (case n of HashNode h \<Rightarrow> resolveHash db gen h pfx | _ \<Rightarrow> Inr n)"

definition newFlag :: "u16 \<Rightarrow> nodeFlag" where
  "newFlag gen = \<lparr>nf_hash = None, nf_gen = gen, nf_dirty = True\<rparr>"

lemma size_nth_less [termination_simp]: "i < length cs \<Longrightarrow> size (cs ! i) < Suc (size_list size cs)"
  by (simp add: less_Suc_eq_le size_list_estimation' [OF nth_mem])

section \<open>Lookup\<close>

function (sequential) tryGet ::
  "database \<Rightarrow> u16 \<Rightarrow> nat \<Rightarrow> node \<Rightarrow> bytes \<Rightarrow> nat \<Rightarrow> trie_error + bytes option \<times> node \<times> bool" where
  "tryGet db gen fuel NilNode key pos = Inr (None, NilNode, False)"
| "tryGet db gen fuel (ValueNode v) key pos = Inr (Some v, ValueNode v, False)"
| "tryGet db gen fuel (ShortNode k val fl) key pos =
     (if length key - pos < length k \<or> k \<noteq> take (length k) (drop pos key)
      then Inr (None, ShortNode k val fl, False)
      else bind_result (tryGet db gen fuel val key (pos + length k)) (\<lambda>(value, newnode, didResolve).
        Inr (value,
             if didResolve then ShortNode k newnode (fl\<lparr>nf_gen := gen\<rparr>) else ShortNode k val fl,
             didResolve)))"
| "tryGet db gen fuel (FullNode cs fl) key pos =
     (if \<not> pos < length key \<or> \<not> unat (key ! pos) < length cs then Inl TriePanic
      else bind_result (tryGet db gen fuel (cs ! unat (key ! pos)) key (pos + 1)) (\<lambda>(value, newnode, didResolve).
        Inr (value,
             if didResolve then FullNode (cs[unat (key ! pos) := newnode]) (fl\<lparr>nf_gen := gen\<rparr>) else FullNode cs fl,
             didResolve)))"
| "tryGet db gen 0 (HashNode h) key pos = Inl TrieOutOfFuel"
| "tryGet db gen (Suc fuel) (HashNode h) key pos =
     bind_result (resolveHash db gen h (take pos key)) (\<lambda>child.
       bind_result (tryGet db gen fuel child key pos) (\<lambda>(value, newnode, _). Inr (value, newnode, True)))"
  by pat_completeness auto

termination
  by (relation "measures [\<lambda>(_, _, fuel, _, _, _). fuel, \<lambda>(_, _, _, n, _, _). size n]")
    (auto simp: size_nth_less)

section \<open>Insertion\<close>

function (sequential) insert_node ::
  "database \<Rightarrow> u16 \<Rightarrow> nat \<Rightarrow> node \<Rightarrow> bytes \<Rightarrow> bytes \<Rightarrow> node \<Rightarrow> trie_error + bool \<times> node" where
  "insert_node db gen fuel n pfx [] value =
     (case n of
        ValueNode v \<Rightarrow> (case value of ValueNode w \<Rightarrow> Inr (v \<noteq> w, value) | _ \<Rightarrow> Inl TriePanic)
      | _ \<Rightarrow> Inr (True, value))"
| "insert_node db gen fuel (ShortNode k val fl) pfx key value =
     (let matchlen = prefixLen key k in
      if matchlen = length k then
        bind_result (insert_node db gen fuel val (pfx @ take matchlen key) (drop matchlen key) value) (\<lambda>(dirty, nn).
          if \<not> dirty then Inr (False, ShortNode k val fl)
          else Inr (True, ShortNode k nn (newFlag gen)))
      else if \<not> matchlen < length key then Inl TriePanic
      else if \<not> unat (k ! matchlen) < 17 \<or> \<not> unat (key ! matchlen) < 17 then Inl TriePanic
      else
        bind_result (insert_node db gen fuel NilNode (pfx @ take (matchlen + 1) k) (drop (matchlen + 1) k) val) (\<lambda>(_, c1).
        bind_result (insert_node db gen fuel NilNode (pfx @ take (matchlen + 1) key) (drop (matchlen + 1) key) value) (\<lambda>(_, c2).
          let branch = FullNode ((replicate 17 NilNode)[unat (k ! matchlen) := c1, unat (key ! matchlen) := c2]) (newFlag gen) in
          if matchlen = 0 then Inr (True, branch)
          else Inr (True, ShortNode (take matchlen key) branch (newFlag gen)))))"
| "insert_node db gen fuel (FullNode cs fl) pfx (k0 # key) value =
     (if \<not> unat k0 < length cs then Inl TriePanic
      else bind_result (insert_node db gen fuel (cs ! unat k0) (pfx @ [k0]) key value) (\<lambda>(dirty, nn).
        if \<not> dirty then Inr (False, FullNode cs fl)
        else Inr (True, FullNode (cs[unat k0 := nn]) (newFlag gen))))"
| "insert_node db gen fuel NilNode pfx key value = Inr (True, ShortNode key value (newFlag gen))"
| "insert_node db gen 0 (HashNode h) pfx key value = Inl TrieOutOfFuel"
| "insert_node db gen (Suc fuel) (HashNode h) pfx key value =
     bind_result (resolveHash db gen h pfx) (\<lambda>rn.
       bind_result (insert_node db gen fuel rn pfx key value) (\<lambda>(dirty, nn).
         if \<not> dirty then Inr (False, rn) else Inr (True, nn)))"
| "insert_node db gen fuel (ValueNode v) pfx key value = Inl TriePanic"
  by pat_completeness auto
termination
  by (relation "measures [\<lambda>(_, _, fuel, _, _, _, _). fuel, \<lambda>(_, _, _, n, _, _, _). size n]")
    (auto simp: size_nth_less)

section \<open>Deletion\<close>

text \<open>The loop that looks for the only child: its index, or -1 without a child, or -2 with more
  than one.\<close>

fun only_child_from :: "nat \<Rightarrow> int \<Rightarrow> node list \<Rightarrow> int" where
  "only_child_from i pos [] = pos"
| "only_child_from i pos (cld # clds) =
     (if cld \<noteq> NilNode then (if pos = -1 then only_child_from (Suc i) (int i) clds else -2)
      else only_child_from (Suc i) pos clds)"

definition only_child :: "node list \<Rightarrow> int" where
  "only_child cs = only_child_from 0 (-1) cs"

definition collapse_full :: "database \<Rightarrow> u16 \<Rightarrow> node list \<Rightarrow> bytes \<Rightarrow> trie_error + bool \<times> node" where
  "collapse_full db gen cs pfx =
     (let pos = only_child cs in
      if pos \<ge> 0 then
        (let i = nat pos; single = ShortNode [word_of_nat i] (cs ! i) (newFlag gen) in
         if i \<noteq> 16 then
           bind_result (resolve db gen (cs ! i) pfx) (\<lambda>cnode.
             (case cnode of
                ShortNode ck cval _ \<Rightarrow> Inr (True, ShortNode (word_of_nat i # ck) cval (newFlag gen))
              | _ \<Rightarrow> Inr (True, single)))
         else Inr (True, single))
      else Inr (True, FullNode cs (newFlag gen)))"

function (sequential) delete_node ::
  "database \<Rightarrow> u16 \<Rightarrow> nat \<Rightarrow> node \<Rightarrow> bytes \<Rightarrow> bytes \<Rightarrow> trie_error + bool \<times> node" where
  "delete_node db gen fuel (ShortNode k val fl) pfx key =
     (let matchlen = prefixLen key k in
      if matchlen < length k then Inr (False, ShortNode k val fl)
      else if matchlen = length key then Inr (True, NilNode)
      else
        bind_result (delete_node db gen fuel val (pfx @ take (length k) key) (drop (length k) key)) (\<lambda>(dirty, child).
          if \<not> dirty then Inr (False, ShortNode k val fl)
          else (case child of
              ShortNode ck cval _ \<Rightarrow> Inr (True, ShortNode (k @ ck) cval (newFlag gen))
            | _ \<Rightarrow> Inr (True, ShortNode k child (newFlag gen)))))"
| "delete_node db gen fuel (FullNode cs fl) pfx [] = Inl TriePanic"
| "delete_node db gen fuel (FullNode cs fl) pfx (k0 # key) =
     (if \<not> unat k0 < length cs then Inl TriePanic
      else bind_result (delete_node db gen fuel (cs ! unat k0) (pfx @ [k0]) key) (\<lambda>(dirty, nn).
        if \<not> dirty then Inr (False, FullNode cs fl)
        else collapse_full db gen (cs[unat k0 := nn]) pfx))"
| "delete_node db gen fuel (ValueNode v) pfx key = Inr (True, NilNode)"
| "delete_node db gen fuel NilNode pfx key = Inr (False, NilNode)"
| "delete_node db gen 0 (HashNode h) pfx key = Inl TrieOutOfFuel"
| "delete_node db gen (Suc fuel) (HashNode h) pfx key =
     bind_result (resolveHash db gen h pfx) (\<lambda>rn.
       bind_result (delete_node db gen fuel rn pfx key) (\<lambda>(dirty, nn).
         if \<not> dirty then Inr (False, rn) else Inr (True, nn)))"
  by pat_completeness auto
termination
  by (relation "measures [\<lambda>(_, _, fuel, _, _, _). fuel, \<lambda>(_, _, _, n, _, _). size n]")
    (auto simp: size_nth_less)

section \<open>The trie\<close>

record trie =
  tr_root :: node
  tr_originalRoot :: bytes
  tr_prefix :: "bytes option"
  tr_cachegen :: u16
  tr_cachelimit :: u16

definition SetCacheLimit :: "u16 \<Rightarrow> trie \<Rightarrow> trie" where
  "SetCacheLimit l t = t\<lparr>tr_cachelimit := l\<rparr>"

text \<open>The hash of the encoding of the empty trie, a constant of the source.\<close>

definition emptyRoot :: bytes where
  "emptyRoot = [0x56, 0xe8, 0x1f, 0x17, 0x1b, 0xcc, 0x55, 0xa6, 0xff, 0x83, 0x45, 0xe6, 0x92, 0xc0, 0xf8, 0x6e,
                0x5b, 0x48, 0xe0, 0x1b, 0x99, 0x6c, 0xad, 0xc0, 0x01, 0x62, 0x2f, 0xb5, 0xe3, 0x63, 0xb4, 0x21]"

text \<open>The database may be nil (\<open>None\<close>): then only the empty trie can be opened.\<close>

definition New :: "bytes \<Rightarrow> database option \<Rightarrow> trie_error + trie" where
  "New root dbo =
     (let t = \<lparr>tr_root = NilNode, tr_originalRoot = root, tr_prefix = None, tr_cachegen = 0, tr_cachelimit = 0\<rparr> in
      if root \<noteq> replicate 32 0 \<and> root \<noteq> emptyRoot
      then (case dbo of
          None \<Rightarrow> Inl TriePanic
        | Some db \<Rightarrow> bind_result (resolveHash db 0 root []) (\<lambda>rootnode. Inr (t\<lparr>tr_root := rootnode\<rparr>)))
      else Inr t)"

definition NewTrieWithPrefix :: "bytes \<Rightarrow> bytes \<Rightarrow> database option \<Rightarrow> trie_error + trie" where
  "NewTrieWithPrefix root pfx db =
     bind_result (New root db) (\<lambda>t. Inr (t\<lparr>tr_prefix := Some pfx\<rparr>))"

definition full_key :: "trie \<Rightarrow> bytes \<Rightarrow> bytes" where
  "full_key t key = (case tr_prefix t of None \<Rightarrow> key | Some p \<Rightarrow> p @ key)"

definition TryGet :: "database \<Rightarrow> trie \<Rightarrow> bytes \<Rightarrow> (trie_error + bytes option) \<times> trie" where
  "TryGet db t key0 =
     (let key = keybytesToHex (full_key t key0) in
      case tryGet db (tr_cachegen t) (length key) (tr_root t) key 0 of
        Inl e \<Rightarrow> (Inl e, t)
      | Inr (value, newroot, didResolve) \<Rightarrow>
          (Inr value, if didResolve then t\<lparr>tr_root := newroot\<rparr> else t))"

definition TryDelete :: "database \<Rightarrow> trie \<Rightarrow> bytes \<Rightarrow> (trie_error + unit) \<times> trie" where
  "TryDelete db t key =
     (let k = keybytesToHex (full_key t key) in
      case delete_node db (tr_cachegen t) (length k) (tr_root t) [] k of
        Inl e \<Rightarrow> (Inl e, t)
      | Inr (_, n) \<Rightarrow> (Inr (), t\<lparr>tr_root := n\<rparr>))"

definition TryUpdate :: "database \<Rightarrow> trie \<Rightarrow> bytes \<Rightarrow> bytes \<Rightarrow> (trie_error + unit) \<times> trie" where
  "TryUpdate db t key value =
     (let k = keybytesToHex (full_key t key) in
      if length value \<noteq> 0 then
        (case insert_node db (tr_cachegen t) (length k) (tr_root t) [] k (ValueNode value) of
           Inl e \<Rightarrow> (Inl e, t)
         | Inr (_, n) \<Rightarrow> (Inr (), t\<lparr>tr_root := n\<rparr>))
      else
        (case delete_node db (tr_cachegen t) (length k) (tr_root t) [] k of
           Inl e \<Rightarrow> (Inl e, t)
         | Inr (_, n) \<Rightarrow> (Inr (), t\<lparr>tr_root := n\<rparr>)))"

text \<open>The variants that log an error instead of returning it; a panic is not caught.\<close>

definition Get :: "database \<Rightarrow> trie \<Rightarrow> bytes \<Rightarrow> (trie_error + bytes option) \<times> trie" where
  "Get db t key =
     (case TryGet db t key of
        (Inl (MissingNodeError h p), t') \<Rightarrow> (Inr None, t')
      | r \<Rightarrow> r)"

definition Update :: "database \<Rightarrow> trie \<Rightarrow> bytes \<Rightarrow> bytes \<Rightarrow> (trie_error + unit) \<times> trie" where
  "Update db t key value =
     (case TryUpdate db t key value of
        (Inl (MissingNodeError h p), t') \<Rightarrow> (Inr (), t')
      | r \<Rightarrow> r)"

definition Delete :: "database \<Rightarrow> trie \<Rightarrow> bytes \<Rightarrow> (trie_error + unit) \<times> trie" where
  "Delete db t key =
     (case TryDelete db t key of
        (Inl (MissingNodeError h p), t') \<Rightarrow> (Inr (), t')
      | r \<Rightarrow> r)"

end
