(* ===== verification/Trie_Semantics.thy ===== *)
theory Trie_Semantics
  imports Merkle_Trie
begin

text \<open>
  What a trie stores.  \<open>has db n k v\<close> is the content of a node: the key \<open>k\<close>, read from this node
  on, leads to the value \<open>v\<close>, through the database where a node is known by its hash only.
  \<open>wfn db n\<close> is the canonical form that insertion and deletion maintain: no empty key fragment, no
  fragment followed by another fragment, at least two children below a full node, no empty
  value, and every hash resolved by the database.  Cache flags play no role in either.
\<close>

section \<open>Flags do not matter\<close>

definition no_flag :: nodeFlag where
  "no_flag = \<lparr>nf_hash = None, nf_gen = 0, nf_dirty = False\<rparr>"

fun strip :: "node \<Rightarrow> node" where
  "strip (FullNode cs fl) = FullNode (map strip cs) no_flag"
| "strip (ShortNode k val fl) = ShortNode k (strip val) no_flag"
| "strip n = n"

abbreviation same :: "node \<Rightarrow> node \<Rightarrow> bool" where
  "same n n' \<equiv> strip n = strip n'"

lemma strip_simps [simp]:
  "strip n = NilNode \<longleftrightarrow> n = NilNode"
  "strip n = ValueNode v \<longleftrightarrow> n = ValueNode v"
  "strip n = HashNode h \<longleftrightarrow> n = HashNode h"
  by (cases n; simp)+

lemma strip_simps_sym [simp]:
  "NilNode = strip n \<longleftrightarrow> n = NilNode"
  "ValueNode v = strip n \<longleftrightarrow> n = ValueNode v"
  "HashNode h = strip n \<longleftrightarrow> n = HashNode h"
  by (cases n; auto)+

lemma same_Short: "strip n = strip (ShortNode k val fl) \<longleftrightarrow> (\<exists>val' fl'. n = ShortNode k val' fl' \<and> same val' val)"
  by (cases n) auto

lemma same_Full: "strip n = strip (FullNode cs fl) \<longleftrightarrow>
    (\<exists>cs' fl'. n = FullNode cs' fl' \<and> map strip cs' = map strip cs)"
  by (cases n) auto

lemma map_strip_nth: "map strip cs' = map strip cs \<Longrightarrow> i < length cs \<Longrightarrow> same (cs' ! i) (cs ! i)"
  by (metis length_map nth_map)

text \<open>Decoding with another cache generation gives the same node up to flags.\<close>

abbreviation same_result :: "node_error + node \<Rightarrow> node_error + node \<Rightarrow> bool" where
  "same_result \<equiv> rel_sum (=) same"

lemma bind_result_rel:
  assumes "rel_sum (=) A r r'" and "\<And>a a'. A a a' \<Longrightarrow> rel_sum (=) B (f a) (f' a')"
  shows "rel_sum (=) B (bind_result r f) (bind_result r' f')"
  using assms by (cases r; cases r') auto

lemma wrap_result_rel: "rel_sum (=) A r r' \<Longrightarrow> rel_sum (=) A (wrap_result r c) (wrap_result r' c)"
  by (cases r; cases r') (auto simp: wrap_result_def)

lemma rel_sum_refl_eq: "rel_sum (=) (=) r r"
  by (simp add: sum.rel_eq)

definition dec_same :: "node_decoder \<Rightarrow> u16 \<Rightarrow> u16 \<Rightarrow> bool" where
  "dec_same d g g' \<longleftrightarrow> (\<forall>h b. same_result (d h b g) (d h b g'))"

lemma decodeRef_same:
  "dec_same d g g' \<Longrightarrow> rel_sum (=) (rel_prod same (=)) (decodeRef d buf g) (decodeRef d buf g')"
  unfolding decodeRef_def dec_same_def
  by (rule bind_result_rel [OF rel_sum_refl_eq]) (auto simp: Let_def intro!: bind_result_rel [where A = same])

lemma decodeShort_same:
  assumes "dec_same d g g'"
  shows "same_result (decodeShort d h elems g) (decodeShort d h elems g')"
proof -
  have "same_result (bind_result (wrap_result (decodeRef d rest g) CtxVal) (\<lambda>(r, _). Inr (ShortNode key r f)))
      (bind_result (wrap_result (decodeRef d rest g') CtxVal) (\<lambda>(r, _). Inr (ShortNode key r f')))" for rest key f f'
    by (rule bind_result_rel [OF wrap_result_rel [OF decodeRef_same [OF assms]]]) auto
  moreover have "same_result (bind_result r (\<lambda>(val, _). Inr (ShortNode key (ValueNode val) f)))
      (bind_result r (\<lambda>(val, _). Inr (ShortNode key (ValueNode val) f')))" for r :: "node_error + bytes \<times> bytes" and key f f'
    by (rule bind_result_rel [OF rel_sum_refl_eq]) auto
  ultimately show ?thesis unfolding decodeShort_def
    by (intro bind_result_rel [OF rel_sum_refl_eq]) (auto simp: Let_def split: option.splits)
qed

lemma decodeChildren_same:
  assumes "dec_same d g g'"
  shows "rel_sum (=) (rel_prod (\<lambda>x y. map strip x = map strip y) (=)) (decodeChildren k i d elems g) (decodeChildren k i d elems g')"
proof (induction k arbitrary: i elems)
  case (Suc k)
  show ?case unfolding decodeChildren.simps
    by (rule bind_result_rel [OF wrap_result_rel [OF decodeRef_same [OF assms]]])
      (auto intro!: bind_result_rel [OF Suc.IH])
qed simp

lemma decodeFull_same:
  assumes "dec_same d g g'"
  shows "same_result (decodeFull d h elems g) (decodeFull d h elems g')"
proof -
  have "same_result (bind_result r (\<lambda>(val, _). Inr (FullNode (cs @ [f val]) fl)))
      (bind_result r (\<lambda>(val, _). Inr (FullNode (cs' @ [f val]) fl')))" if "map strip cs = map strip cs'"
    for r :: "node_error + bytes \<times> bytes" and cs cs' f fl fl'
    using that by (intro bind_result_rel [OF rel_sum_refl_eq]) auto
  then show ?thesis unfolding decodeFull_def
    by (intro bind_result_rel [OF decodeChildren_same [OF assms]]) auto
qed

lemma decodeNode_body_same:
  assumes "dec_same d g g'"
  shows "same_result (decodeNode_body d h buf g) (decodeNode_body d h buf g')"
  unfolding decodeNode_body_def
  by (auto simp: Let_def intro!: bind_result_rel [OF rel_sum_refl_eq] wrap_result_rel decodeShort_same [OF assms] decodeFull_same [OF assms])

lemma decodeNode_fuel_same: "dec_same (decodeNode_fuel fuel) g g'"
  by (induction fuel) (simp_all add: dec_same_def decodeNode_body_same)

lemma decodeNode_same: "same_result (decodeNode h buf g) (decodeNode h buf g')"
  using decodeNode_fuel_same unfolding decodeNode_def dec_same_def by blast

lemma decodeNode_gen:
  assumes "decodeNode h buf g = Inr n"
  shows "\<exists>n'. decodeNode h buf g' = Inr n' \<and> same n n'"
  using decodeNode_same [of h buf g g'] assms by (cases "decodeNode h buf g'") auto

text \<open>A decoded node is a short or a full node.\<close>

definition branching :: "node \<Rightarrow> bool" where
  "branching n \<longleftrightarrow> (\<exists>k val fl. n = ShortNode k val fl) \<or> (\<exists>cs fl. n = FullNode cs fl)"

lemma branching_simps [simp]: "branching (ShortNode k val fl)" "branching (FullNode cs fl)"
  "\<not> branching NilNode" "\<not> branching (HashNode h)" "\<not> branching (ValueNode v)"
  by (simp_all add: branching_def)

lemma decodeShort_branching: "decodeShort d h elems g = Inr n \<Longrightarrow> branching n"
  unfolding decodeShort_def Let_def
  by (erule bind_InrE) (auto split: option.splits if_splits elim!: bind_InrE)

lemma decodeFull_branching: "decodeFull d h elems g = Inr n \<Longrightarrow> branching n"
  unfolding decodeFull_def by (auto elim!: bind_InrE)

lemma decodeNode_branching:
  assumes "decodeNode h buf g = Inr n"
  shows "branching n"
  using assms unfolding decodeNode_unfold [of h buf g] decodeNode_body_def Let_def
  by (auto split: if_splits elim!: bind_InrE dest: decodeShort_branching decodeFull_branching)

section \<open>Content\<close>

inductive has :: "database \<Rightarrow> node \<Rightarrow> bytes \<Rightarrow> bytes \<Rightarrow> bool" for db where
  HasValue: "has db (ValueNode v) [] v"
| HasShort: "has db val key v \<Longrightarrow> has db (ShortNode k val fl) (k @ key) v"
| HasFull: "\<lbrakk>unat x < length cs; has db (cs ! unat x) key v\<rbrakk> \<Longrightarrow> has db (FullNode cs fl) (x # key) v"
| HasHash: "\<lbrakk>db h = Some enc; decodeNode (Some h) enc g = Inr n; has db n key v\<rbrakk> \<Longrightarrow> has db (HashNode h) key v"

inductive_simps has_Nil [simp]: "has db NilNode key v"
inductive_simps has_Value [simp]: "has db (ValueNode w) key v"
inductive_simps has_Short: "has db (ShortNode k val fl) key v"
inductive_simps has_Full: "has db (FullNode cs fl) key v"
inductive_simps has_Hash: "has db (HashNode h) key v"

lemma has_same: "has db n key v \<Longrightarrow> same n n' \<Longrightarrow> has db n' key v"
proof (induction arbitrary: n' rule: has.induct)
  case (HasValue v)
  then have "n' = ValueNode v" by (metis strip.simps(5) strip_simps(2))
  then show ?case by simp
next
  case (HasShort val key v k fl)
  then obtain val' fl' where "n' = ShortNode k val' fl'" "same val val'"
    using same_Short [of n' k val fl] by auto
  with HasShort.IH show ?case by (auto intro: has.HasShort)
next
  case (HasFull x cs key v fl)
  then obtain cs' fl' where n': "n' = FullNode cs' fl'" and m: "map strip cs' = map strip cs"
    using same_Full [of n' cs fl] by auto
  have "length cs' = length cs" using m by (metis length_map)
  with HasFull map_strip_nth [OF m, of "unat x"] n' show ?case by (auto intro!: has.HasFull)
next
  case (HasHash h enc g n key v)
  then have "n' = HashNode h" by (metis strip.simps(4) strip_simps(3))
  with HasHash show ?case by (auto intro: has.HasHash)
qed

lemma has_same_iff: "same n n' \<Longrightarrow> has db n key v \<longleftrightarrow> has db n' key v"
  using has_same by metis

lemma has_Hash_decoded:
  assumes "db h = Some enc" and "decodeNode (Some h) enc g = Inr n"
  shows "has db (HashNode h) key v \<longleftrightarrow> has db n key v"
proof
  assume "has db (HashNode h) key v"
  then obtain g' n' where n': "decodeNode (Some h) enc g' = Inr n'" "has db n' key v"
    using assms(1) by (auto simp: has_Hash)
  then show "has db n key v" using decodeNode_gen [OF n'(1), of g] assms(2) has_same by auto
next
  assume "has db n key v"
  with assms show "has db (HashNode h) key v" by (rule HasHash)
qed

lemma has_det: "has db n key v \<Longrightarrow> has db n key w \<Longrightarrow> v = w"
proof (induction arbitrary: w rule: has.induct)
  case (HasHash h enc g n key v)
  then show ?case using has_Hash_decoded by blast
qed (auto simp: has_Short has_Full)

section \<open>Canonical form\<close>

definition fullish :: "database \<Rightarrow> node \<Rightarrow> bool" where
  "fullish db n \<longleftrightarrow> (\<exists>cs fl. n = FullNode cs fl) \<or>
     (\<exists>h enc g cs fl. n = HashNode h \<and> db h = Some enc \<and> decodeNode (Some h) enc g = Inr (FullNode cs fl))"

definition nonnil :: "node list \<Rightarrow> nat" where
  "nonnil cs = length (filter (\<lambda>c. c \<noteq> NilNode) cs)"

inductive wfn :: "database \<Rightarrow> node \<Rightarrow> bool" for db where
  WfLeaf: "\<lbrakk>hexkey k; v \<noteq> []\<rbrakk> \<Longrightarrow> wfn db (ShortNode k (ValueNode v) fl)"
| WfExt: "\<lbrakk>nibbles k; k \<noteq> []; wfn db val; fullish db val\<rbrakk> \<Longrightarrow> wfn db (ShortNode k val fl)"
| WfFull: "\<lbrakk>length cs = 17; \<forall>i < 16. cs ! i \<noteq> NilNode \<longrightarrow> wfn db (cs ! i);
     cs ! 16 = NilNode \<or> (\<exists>v. v \<noteq> [] \<and> cs ! 16 = ValueNode v); 2 \<le> nonnil cs\<rbrakk> \<Longrightarrow> wfn db (FullNode cs fl)"
| WfHash: "\<lbrakk>db h = Some enc; decodeNode (Some h) enc g = Inr n; wfn db n\<rbrakk> \<Longrightarrow> wfn db (HashNode h)"

inductive_simps wf_Nil [simp]: "wfn db NilNode"
inductive_simps wf_Value [simp]: "wfn db (ValueNode v)"
inductive_simps wf_Short: "wfn db (ShortNode k val fl)"
inductive_simps wf_Full: "wfn db (FullNode cs fl)"
inductive_simps wf_Hash: "wfn db (HashNode h)"

lemma fullish_simps [simp]: "fullish db (FullNode cs fl)" "\<not> fullish db (ShortNode k val fl)"
  "\<not> fullish db NilNode" "\<not> fullish db (ValueNode v)"
  by (simp_all add: fullish_def)

lemma fullish_same: "fullish db n \<Longrightarrow> same n n' \<Longrightarrow> fullish db n'"
  by (cases n; cases n') (simp_all add: fullish_def)

lemma nonnil_same: "map strip cs' = map strip cs \<Longrightarrow> nonnil cs' = nonnil cs"
proof -
  have "nonnil xs = length (filter (\<lambda>c. c \<noteq> NilNode) (map strip xs))" for xs
    by (simp add: nonnil_def filter_map o_def)
  then show "map strip cs' = map strip cs \<Longrightarrow> nonnil cs' = nonnil cs" by metis
qed

lemma wf_same: "wfn db n \<Longrightarrow> same n n' \<Longrightarrow> wfn db n'"
proof (induction arbitrary: n' rule: wfn.induct)
  case (WfLeaf k v fl)
  then obtain fl' where "n' = ShortNode k (ValueNode v) fl'" using same_Short [of n' k "ValueNode v" fl] by auto
  with WfLeaf show ?case by (auto intro: wfn.WfLeaf)
next
  case (WfExt k val fl)
  then obtain val' fl' where "n' = ShortNode k val' fl'" "same val val'" using same_Short [of n' k val fl] by auto
  with WfExt fullish_same show ?case by (auto intro!: wfn.WfExt)
next
  case (WfFull cs fl)
  then obtain cs' fl' where n': "n' = FullNode cs' fl'" and m: "map strip cs' = map strip cs"
    using same_Full [of n' cs fl] by auto
  have len: "length cs' = 17" using m WfFull.hyps(1) by (metis length_map)
  have s: "same (cs ! i) (cs' ! i)" if "i < 17" for i
    using map_strip_nth [OF m, of i] that WfFull.hyps(1) by simp
  have nil: "cs' ! i = NilNode \<longleftrightarrow> cs ! i = NilNode" if "i < 17" for i
    using s [OF that] by (metis strip_simps(1))
  have last: "cs' ! 16 = cs ! 16" using s [of 16] WfFull.hyps(2) by auto
  have "wfn db (cs' ! i)" if "i < 16" "cs' ! i \<noteq> NilNode" for i
    using WfFull.IH that nil [of i] s [of i] by simp
  then show ?case unfolding n' using last WfFull.hyps(2,3)
    by (intro wfn.WfFull) (simp_all add: len nonnil_same [OF m])
next
  case (WfHash h enc g n)
  then have "n' = HashNode h" by (metis strip.simps(4) strip_simps(3))
  with WfHash show ?case by (auto intro: wfn.WfHash)
qed

end
