(* ===== verification/Trie_Refine.thy ===== *)
theory Trie_Refine
  imports Trie_Semantics
begin

text \<open>
  Lookup, insertion and deletion on canonical nodes: each succeeds with the fuel the trie
  gives it, keeps the canonical form, and changes the content in the one way its name
  promises.
\<close>

section \<open>Positions in a canonical trie\<close>

text \<open>\<open>okpos db n rest\<close>: the node \<open>n\<close> is reached with \<open>rest\<close> of a key left.\<close>

definition okpos :: "database \<Rightarrow> node \<Rightarrow> bytes \<Rightarrow> bool" where
  "okpos db n rest \<longleftrightarrow> (hexkey rest \<and> (n = NilNode \<or> wfn db n)) \<or>
     (rest = [] \<and> (n = NilNode \<or> (\<exists>v. v \<noteq> [] \<and> n = ValueNode v)))"

lemma okpos_Nil [simp]: "okpos db NilNode rest \<longleftrightarrow> hexkey rest \<or> rest = []"
  by (auto simp: okpos_def)

lemma okpos_hexkey: "hexkey rest \<Longrightarrow> okpos db n rest \<longleftrightarrow> n = NilNode \<or> wfn db n"
  by (auto simp: okpos_def)

lemma okpos_end: "okpos db n [] \<longleftrightarrow> n = NilNode \<or> (\<exists>v. v \<noteq> [] \<and> n = ValueNode v)"
  by (auto simp: okpos_def)

lemma hexkey_nth16: "hexkey (x # xs) \<Longrightarrow> unat x < 17"
  by (auto simp: hexkey_Cons word_less_nat_alt)

lemma child_okpos:
  assumes w: "wfn db (FullNode cs fl)" and k: "hexkey (x # xs)"
  shows "okpos db (cs ! unat x) xs"
proof (cases "x = 16")
  case True
  with k have "xs = []" by (auto simp: hexkey_Cons)
  with w True show ?thesis by (auto simp: okpos_end wf_Full)
next
  case False
  with k have h: "x < 16" "hexkey xs" by (auto simp: hexkey_Cons)
  then have "unat x < 16" by (simp add: word_less_nat_alt)
  with w h(2) show ?thesis by (auto simp: okpos_hexkey wf_Full)
qed

lemma hexkey_prefix: "hexkey k \<Longrightarrow> hexkey (k @ rest) \<Longrightarrow> rest = []"
  by (induction k) (auto simp: hexkey_Cons)

lemma hexkey_nibbles: "hexkey (p @ b # s) \<Longrightarrow> nibbles p"
  by (induction p) (auto simp: hexkey_Cons)

lemma hexkey_not_nibbles: "hexkey k \<Longrightarrow> \<not> nibbles k"
  by (auto simp: hexkey_def)

lemma short_okpos:
  assumes "wfn db (ShortNode k val fl)" and "hexkey (k @ rest)"
  shows "okpos db val rest" and "k \<noteq> []"
  using assms hexkey_prefix [of k rest] by (auto simp: wf_Short okpos_hexkey hexkey_append okpos_end)

text \<open>The database reads that a path can still need.\<close>

definition fuel_ok :: "nat \<Rightarrow> node \<Rightarrow> bytes \<Rightarrow> bool" where
  "fuel_ok fuel n rest \<longleftrightarrow> length rest \<le> (case n of HashNode _ \<Rightarrow> fuel | _ \<Rightarrow> fuel + 1)"

lemma fuel_ok_le: "length rest \<le> fuel \<Longrightarrow> fuel_ok fuel n rest"
  by (cases n) (auto simp: fuel_ok_def)

lemma fuel_ok_branching: "branching n \<Longrightarrow> fuel_ok fuel n rest \<longleftrightarrow> length rest \<le> fuel + 1"
  by (cases n) (auto simp: fuel_ok_def)

lemma resolveHash_wf:
  assumes "wfn db (HashNode h)"
  shows "\<exists>n. resolveHash db gen h pfx = Inr n \<and> wfn db n \<and> branching n
    \<and> (\<forall>k v. has db (HashNode h) k v \<longleftrightarrow> has db n k v) \<and> (fullish db (HashNode h) \<longleftrightarrow> fullish db n)"
proof -
  from assms obtain enc g n where d: "db h = Some enc" "decodeNode (Some h) enc g = Inr n" "wfn db n"
    by (auto simp: wf_Hash)
  from decodeNode_gen [OF d(2), of gen] obtain n' where n': "decodeNode (Some h) enc gen = Inr n'" "same n n'" by blast
  have "branching n'" using decodeNode_branching [OF n'(1)] .
  moreover have "fullish db (HashNode h) \<longleftrightarrow> fullish db n'"
  proof
    assume "fullish db (HashNode h)"
    then obtain g2 cs fl where "decodeNode (Some h) enc g2 = Inr (FullNode cs fl)" using d(1) by (auto simp: fullish_def)
    from decodeNode_gen [OF this, of gen] n'(1) show "fullish db n'"
      using fullish_same [of db "FullNode cs fl" n'] by auto
  next
    assume "fullish db n'"
    then obtain cs fl where "n' = FullNode cs fl" using calculation by (cases n') auto
    then show "fullish db (HashNode h)" using d(1) n'(1) by (auto simp: fullish_def)
  qed
  moreover have "wfn db n'" using wf_same [OF d(3) n'(2)] .
  moreover have "resolveHash db gen h pfx = Inr n'" by (simp add: resolveHash_def d(1) n'(1))
  ultimately show ?thesis using has_Hash_decoded [of db h, OF d(1) n'(1)] by blast
qed

definition eqv :: "database \<Rightarrow> node \<Rightarrow> node \<Rightarrow> bool" where
  "eqv db n n' \<longleftrightarrow> (\<forall>k v. has db n k v \<longleftrightarrow> has db n' k v)"

lemma eqv_refl [simp]: "eqv db n n"
  by (simp add: eqv_def)

lemma eqv_Short: "eqv db val val' \<Longrightarrow> eqv db (ShortNode k val fl) (ShortNode k val' fl')"
  by (simp add: eqv_def has_Short)

lemma has_Full_Cons [simp]:
  "has db (FullNode cs fl) (x # key) v \<longleftrightarrow> unat x < length cs \<and> has db (cs ! unat x) key v"
  "\<not> has db (FullNode cs fl) [] v"
  by (auto simp: has_Full)

lemma has_Short_append [simp]: "has db (ShortNode k val fl) (k @ key) v \<longleftrightarrow> has db val key v"
  by (auto simp: has_Short)

lemma eqv_Full_update:
  assumes "i < length cs" and "eqv db (cs ! i) c"
  shows "eqv db (FullNode cs fl) (FullNode (cs[i := c]) fl')"
  unfolding eqv_def
proof (intro allI)
  fix k v
  show "has db (FullNode cs fl) k v = has db (FullNode (cs[i := c]) fl') k v"
    using assms by (cases k) (auto simp: eqv_def has_Full_Cons nth_list_update)
qed

lemma nonnil_update:
  assumes "i < length cs"
  shows "nonnil (cs[i := c]) + (if cs ! i = NilNode then 0 else 1) = nonnil cs + (if c = NilNode then 0 else 1)"
  using assms
proof (induction cs arbitrary: i)
  case (Cons d cs)
  show ?case
  proof (cases i)
    case 0
    then show ?thesis by (simp add: nonnil_def)
  next
    case (Suc j)
    with Cons.prems Cons.IH [of j] show ?thesis by (simp add: nonnil_def del: nth_Cons_Suc list_update.simps)
      (auto simp: nonnil_def)
  qed
qed simp

text \<open>A full node stays canonical when one child is replaced by a suitable one.\<close>

lemma wf_Full_update:
  assumes w: "wfn db (FullNode cs fl)" and k: "hexkey (x # xs)"
    and c: "okpos db c xs" "c \<noteq> NilNode"
  shows "wfn db (FullNode (cs[unat x := c]) fl')"
proof -
  have len: "length cs = 17" and w': "\<forall>i < 16. cs ! i \<noteq> NilNode \<longrightarrow> wfn db (cs ! i)"
    "cs ! 16 = NilNode \<or> (\<exists>v. v \<noteq> [] \<and> cs ! 16 = ValueNode v)" "2 \<le> nonnil cs"
    using w by (auto simp: wf_Full)
  have i: "unat x < length cs" using hexkey_nth16 [OF k] len by simp
  have nn: "2 \<le> nonnil (cs[unat x := c])" using nonnil_update [OF i, of c] w'(3) c(2) by (auto split: if_splits)
  show ?thesis
  proof (cases "x = 16")
    case True
    with k have "xs = []" by (auto simp: hexkey_Cons)
    with c have "\<exists>v. v \<noteq> [] \<and> c = ValueNode v" by (simp add: okpos_end)
    then show ?thesis using w' nn len True by (intro wfn.WfFull) (auto simp: nth_list_update)
  next
    case False
    with k have h: "x < 16" "hexkey xs" by (auto simp: hexkey_Cons)
    then have "unat x < 16" by (simp add: word_less_nat_alt)
    moreover have "wfn db c" using c h(2) by (simp add: okpos_hexkey)
    ultimately show ?thesis using w' nn len by (intro wfn.WfFull) (auto simp: nth_list_update)
  qed
qed

text \<open>So does a short node whose child is replaced.\<close>

lemma wf_Short_update:
  assumes w: "wfn db (ShortNode k val fl)" and hx: "hexkey (k @ rest)"
    and c: "okpos db c rest" "c \<noteq> NilNode" "fullish db val \<longrightarrow> fullish db c"
  shows "wfn db (ShortNode k c fl')"
proof (cases "hexkey k")
  case True
  have "rest = []" by (rule hexkey_prefix [OF True hx])
  with c obtain v where "c = ValueNode v" "v \<noteq> []" by (auto simp: okpos_end)
  with True show ?thesis by (auto intro: wfn.WfLeaf)
next
  case False
  with w have "nibbles k" "k \<noteq> []" "wfn db val" "fullish db val" by (auto simp: wf_Short)
  moreover then have "hexkey rest" using hx by (simp add: hexkey_append)
  ultimately show ?thesis using c by (auto simp: okpos_hexkey intro!: wfn.WfExt)
qed

text \<open>Below a short or full node fewer database reads are left to do.\<close>

lemma fuel_ok_Short: "fuel_ok fuel (ShortNode k val fl) (k @ rest) \<Longrightarrow> k \<noteq> [] \<Longrightarrow> fuel_ok fuel n rest"
  by (rule fuel_ok_le, cases k) (auto simp: fuel_ok_def)

lemma fuel_ok_Full: "fuel_ok fuel (FullNode cs fl) (x # rest) \<Longrightarrow> fuel_ok fuel n rest"
  by (rule fuel_ok_le) (auto simp: fuel_ok_def)

lemma fuel_ok_Hash: "fuel_ok (Suc fuel) (HashNode h) rest \<Longrightarrow> branching n \<Longrightarrow> fuel_ok fuel n rest"
  by (simp add: fuel_ok_branching) (simp add: fuel_ok_def)

section \<open>Lookup\<close>

text \<open>The claim about one lookup; each case of the recursion is a lemma.\<close>

definition get_ok :: "database \<Rightarrow> u16 \<Rightarrow> nat \<Rightarrow> node \<Rightarrow> bytes \<Rightarrow> nat \<Rightarrow> bool" where
  "get_ok db gen fuel n key pos \<longleftrightarrow> (\<exists>vo n' r. tryGet db gen fuel n key pos = Inr (vo, n', r)
    \<and> (\<forall>v. vo = Some v \<longleftrightarrow> has db n (drop pos key) v)
    \<and> okpos db n' (drop pos key) \<and> eqv db n n' \<and> (n' = NilNode \<longleftrightarrow> n = NilNode) \<and> (fullish db n \<longrightarrow> fullish db n'))"

lemma get_ok_mismatch:
  assumes w: "wfn db (ShortNode k val fl)" and hx: "hexkey (drop pos key)"
    and ne: "length key - pos < length k \<or> k \<noteq> take (length k) (drop pos key)"
  shows "get_ok db gen fuel (ShortNode k val fl) key pos"
proof -
  have "\<not> has db (ShortNode k val fl) (drop pos key) v" for v
  proof
    assume "has db (ShortNode k val fl) (drop pos key) v"
    then obtain key' where "drop pos key = k @ key'" by (auto simp: has_Short)
    then have "take (length k) (drop pos key) = k" "length key - pos \<ge> length k"
      by (simp_all flip: length_drop)
    with ne show False by auto
  qed
  with ne w hx show ?thesis unfolding get_ok_def by (auto simp: okpos_hexkey)
qed

lemma get_ok_Short:
  assumes w: "wfn db (ShortNode k val fl)" and hx: "hexkey (drop pos key)"
    and eq: "\<not> (length key - pos < length k \<or> k \<noteq> take (length k) (drop pos key))"
    and split: "drop pos key = k @ drop (pos + length k) key"
    and IH: "get_ok db gen fuel val key (pos + length k)"
  shows "get_ok db gen fuel (ShortNode k val fl) key pos"
proof -
  let ?rest = "drop (pos + length k) key"
  from IH obtain vo n' r where n': "tryGet db gen fuel val key (pos + length k) = Inr (vo, n', r)"
    "\<forall>v. vo = Some v \<longleftrightarrow> has db val ?rest v" "okpos db n' ?rest" "eqv db val n'"
    "n' = NilNode \<longleftrightarrow> val = NilNode" "fullish db val \<longrightarrow> fullish db n'" unfolding get_ok_def by blast
  have has: "has db (ShortNode k val fl) (drop pos key) v \<longleftrightarrow> has db val ?rest v" for v
    unfolding split by simp
  have "n' \<noteq> NilNode" using n'(5) w by (auto simp: wf_Short)
  then have "wfn db (ShortNode k n' fl')" for fl'
    using wf_Short_update [OF w hx [unfolded split] n'(3)] n'(6) by blast
  then show ?thesis unfolding get_ok_def using eq n' has hx w by (auto simp: okpos_hexkey eqv_Short)
qed

lemma get_ok_Full:
  assumes w: "wfn db (FullNode cs fl)" and lt: "pos < length key" and k: "hexkey (key ! pos # drop (pos + 1) key)"
    and IH: "get_ok db gen fuel (cs ! unat (key ! pos)) key (pos + 1)"
  shows "get_ok db gen fuel (FullNode cs fl) key pos"
proof -
  let ?x = "key ! pos" and ?rest = "drop (pos + 1) key"
  have split: "drop pos key = ?x # ?rest" using lt by (simp add: Cons_nth_drop_Suc)
  have i: "unat ?x < length cs" using hexkey_nth16 [OF k] w by (simp add: wf_Full)
  from IH obtain vo n' r where n': "tryGet db gen fuel (cs ! unat ?x) key (pos + 1) = Inr (vo, n', r)"
    "\<forall>v. vo = Some v \<longleftrightarrow> has db (cs ! unat ?x) ?rest v" "okpos db n' ?rest" "eqv db (cs ! unat ?x) n'"
    "n' = NilNode \<longleftrightarrow> cs ! unat ?x = NilNode" unfolding get_ok_def by auto
  have w': "wfn db (FullNode (cs[unat ?x := n']) fl')" for fl'
  proof (cases "n' = NilNode")
    case True
    with n'(5) i have "cs[unat ?x := n'] = cs" by (metis list_update_id)
    then show ?thesis using w by (simp add: wf_Full)
  next
    case False
    then show ?thesis using wf_Full_update [OF w k n'(3)] by blast
  qed
  have "tryGet db gen fuel (FullNode cs fl) key pos =
      Inr (vo, if r then FullNode (cs[unat ?x := n']) (fl\<lparr>nf_gen := gen\<rparr>) else FullNode cs fl, r)"
    using lt i n'(1) by simp
  then show ?thesis unfolding get_ok_def split
    using n'(2) w w' eqv_Full_update [OF i n'(4)] k i by (auto simp: okpos_hexkey)
qed

lemma get_ok_Hash:
  assumes n: "resolveHash db gen h (take pos key) = Inr n" "branching n"
    "\<forall>k v. has db (HashNode h) k v \<longleftrightarrow> has db n k v" "fullish db (HashNode h) \<longleftrightarrow> fullish db n"
    and IH: "get_ok db gen fuel n key pos"
  shows "get_ok db gen (Suc fuel) (HashNode h) key pos"
proof -
  have "n \<noteq> NilNode" using n(2) by auto
  then show ?thesis using IH n unfolding get_ok_def by (auto simp: eqv_def)
qed

lemma tryGet_wf:
  assumes "okpos db n (drop pos key)" and "pos \<le> length key" and "fuel_ok fuel n (drop pos key)"
  shows "get_ok db gen fuel n key pos"
  using assms
proof (induction db gen fuel n key pos rule: tryGet.induct)
  case (3 db gen fuel k val fl key pos)
  have hx: "hexkey (drop pos key)" and w: "wfn db (ShortNode k val fl)"
    using "3.prems"(1) by (auto simp: okpos_def)
  show ?case
  proof (cases "length key - pos < length k \<or> k \<noteq> take (length k) (drop pos key)")
    case True
    then show ?thesis by (rule get_ok_mismatch [OF w hx])
  next
    case False
    then have split: "drop pos key = k @ drop (pos + length k) key"
      by (metis add.commute append_take_drop_id drop_drop)
    note ok = short_okpos [OF w hx [unfolded split]]
    have "pos + length k \<le> length key" using False "3.prems"(2) by linarith
    moreover note fuel_ok_Short [OF "3.prems"(3) [unfolded split] ok(2)]
    ultimately show ?thesis using get_ok_Short [OF w hx False split] "3.IH" [OF False ok(1)] by blast
  qed
next
  case (4 db gen fuel cs fl key pos)
  have hx: "hexkey (drop pos key)" and w: "wfn db (FullNode cs fl)"
    using "4.prems"(1) by (auto simp: okpos_def)
  have lt: "pos < length key" using hx by (cases "pos < length key") auto
  then have split: "drop pos key = key ! pos # drop (pos + 1) key" by (simp add: Cons_nth_drop_Suc)
  note k = hx [unfolded split]
  have guard: "\<not> (\<not> pos < length key \<or> \<not> unat (key ! pos) < length cs)"
    using lt hexkey_nth16 [OF k] w by (simp add: wf_Full)
  show ?case using get_ok_Full [OF w lt k] "4.IH" [OF guard child_okpos [OF w k]]
      fuel_ok_Full [OF "4.prems"(3) [unfolded split]] lt by simp
next
  case (6 db gen fuel h key pos)
  then have hx: "hexkey (drop pos key)" and w: "wfn db (HashNode h)" by (auto simp: okpos_def)
  from resolveHash_wf [OF w, of gen "take pos key"] obtain n where n: "resolveHash db gen h (take pos key) = Inr n"
    "wfn db n" "branching n" "\<forall>k v. has db (HashNode h) k v \<longleftrightarrow> has db n k v" "fullish db (HashNode h) \<longleftrightarrow> fullish db n" by blast
  have "okpos db n (drop pos key)" using n(2) hx by (simp add: okpos_hexkey)
  from get_ok_Hash [OF n(1,3-5)] "6.IH" [OF n(1) this "6.prems"(2) fuel_ok_Hash [OF "6.prems"(3) n(3)]] show ?case by blast
qed (auto simp: get_ok_def okpos_def fuel_ok_def)

section \<open>Insertion\<close>

text \<open>What insertion into an empty place builds.\<close>

definition hang :: "u16 \<Rightarrow> bytes \<Rightarrow> node \<Rightarrow> node" where
  "hang gen r val = (if r = [] then val else ShortNode r val (newFlag gen))"

lemma insert_Nil: "insert_node db gen fuel NilNode pfx r val = Inr (True, hang gen r val)"
  by (cases r) (auto simp: hang_def)

lemma has_hang: "has db (hang gen r val) key v \<longleftrightarrow> (\<exists>key'. key = r @ key' \<and> has db val key' v)"
  by (auto simp: hang_def has_Short)

lemma wf_hang_leaf: "hexkey r \<Longrightarrow> v \<noteq> [] \<Longrightarrow> wfn db (hang gen r (ValueNode v))"
  by (auto simp: hang_def intro: wfn.WfLeaf)

text \<open>The content after storing \<open>v\<close> under \<open>key\<close>.\<close>

definition stores :: "database \<Rightarrow> node \<Rightarrow> node \<Rightarrow> bytes \<Rightarrow> bytes \<Rightarrow> bool" where
  "stores db n n' key v \<longleftrightarrow> (\<forall>k w. has db n' k w \<longleftrightarrow> (if k = key then w = v else has db n k w))"

lemma stores_same: "has db n key v \<Longrightarrow> stores db n n key v"
  using has_det by (auto simp: stores_def)

lemma stores_Short: "stores db val val' rest v \<Longrightarrow> stores db (ShortNode k val fl) (ShortNode k val' fl') (k @ rest) v"
  by (auto simp: stores_def has_Short)

lemma unat_eq_byte: "unat (x :: byte) = unat y \<longleftrightarrow> x = y"
  by (simp add: word_unat_eq_iff)

lemma stores_Full:
  assumes "unat x < length cs" and "stores db (cs ! unat x) c rest v"
  shows "stores db (FullNode cs fl) (FullNode (cs[unat x := c]) fl') (x # rest) v"
  unfolding stores_def
proof (intro allI)
  fix k w
  show "has db (FullNode (cs[unat x := c]) fl') k w = (if k = x # rest then w = v else has db (FullNode cs fl) k w)"
  proof (cases k)
    case (Cons y ys)
    then show ?thesis using assms by (auto simp: stores_def nth_list_update unat_eq_byte)
  qed simp
qed

text \<open>Two keys that part after a common prefix.\<close>

lemma split_keys:
  assumes "m = prefixLen key k" and "m < length k" and "m < length key"
  shows "\<exists>p a b r s. k = p @ a # r \<and> key = p @ b # s \<and> a \<noteq> b \<and> p = take m key \<and> length p = m
    \<and> a = k ! m \<and> b = key ! m \<and> r = drop (m + 1) k \<and> s = drop (m + 1) key"
proof -
  have "take m k = take m key" using prefixLen_take [of key k] assms(1) by simp
  moreover have "k ! m \<noteq> key ! m" using prefixLen_neq [of key k] assms by metis
  ultimately show ?thesis using assms(2,3) id_take_nth_drop [OF assms(2)] id_take_nth_drop [OF assms(3)] by auto
qed

lemma prefixLen_proper:
  assumes "hexkey key" and "hexkey k \<or> nibbles k" and "prefixLen key k \<noteq> length k"
  shows "prefixLen key k < length k \<and> prefixLen key k < length key"
proof -
  have le: "prefixLen key k < length k" using prefixLen_le(2) [of key k] assms(3) by linarith
  moreover have "prefixLen key k \<noteq> length key"
  proof
    assume e: "prefixLen key k = length key"
    have "key = take (length key) k" using prefixLen_take [of key k] e by simp
    then obtain r where r: "k = key @ r" by (metis append_take_drop_id)
    have "r \<noteq> []" using e r le by auto
    with assms(1,2) r hexkey_prefix [OF assms(1)] show False by (auto simp: hexkey_def)
  qed
  ultimately show ?thesis using prefixLen_le(1) [of key k] by linarith
qed

lemma nonnil_two:
  assumes "i < 17" "j < 17" "i \<noteq> j" "c1 \<noteq> NilNode" "c2 \<noteq> NilNode"
  shows "nonnil ((replicate 17 NilNode)[i := c1, j := c2]) = 2"
proof -
  have "nonnil (replicate 17 NilNode) = 0" by (simp add: nonnil_def)
  then have "nonnil ((replicate 17 NilNode)[i := c1]) = 1"
    using nonnil_update [of i "replicate 17 NilNode" c1] assms by simp
  then show ?thesis using nonnil_update [of j "(replicate 17 NilNode)[i := c1]" c2] assms by simp
qed

text \<open>The branch that insertion builds where the keys part.\<close>

lemma branch_wf:
  assumes ab: "a \<noteq> b" and c1: "hexkey (a # r) \<and> okpos db c1 r \<or> nibbles (a # r) \<and> wfn db c1" "c1 \<noteq> NilNode"
    and key: "hexkey (b # s)" and c2: "okpos db c2 s" "c2 \<noteq> NilNode"
  shows "wfn db (FullNode ((replicate 17 NilNode)[unat a := c1, unat b := c2]) fl)"
proof -
  have ua: "unat a < 17" using c1 by (auto simp: hexkey_Cons word_less_nat_alt)
  have ub: "unat b < 17" by (rule hexkey_nth16 [OF key])
  have ne: "unat a \<noteq> unat b" using ab by (simp add: unat_eq_byte)
  have child: "(unat x < 16 \<longrightarrow> wfn db c) \<and> (unat x = 16 \<longrightarrow> (\<exists>v. v \<noteq> [] \<and> c = ValueNode v))"
    if "hexkey (x # t) \<and> okpos db c t \<or> nibbles (x # t) \<and> wfn db c" "c \<noteq> NilNode" for x t c
    using that by (auto simp: hexkey_Cons okpos_hexkey okpos_end word_less_nat_alt)
  note ca = child [OF c1]
  have cb: "(unat b < 16 \<longrightarrow> wfn db c2) \<and> (unat b = 16 \<longrightarrow> (\<exists>v. v \<noteq> [] \<and> c2 = ValueNode v))"
    using child [of b s c2] key c2 by blast
  show ?thesis
    using ca cb ua ub ne nonnil_two [OF ua ub ne c1(2) c2(2)]
    by (intro wfn.WfFull) (auto simp: nth_list_update)
qed

lemma branch_stores:
  assumes ab: "a \<noteq> b" and ua: "unat a < 17" "unat b < 17"
  shows "stores db (ShortNode (p @ a # r) val fl)
    (hang gen p (FullNode ((replicate 17 NilNode)[unat a := hang gen r val, unat b := hang gen s (ValueNode v)]) fl')) (p @ b # s) v"
proof -
  let ?br = "FullNode ((replicate 17 NilNode)[unat a := hang gen r val, unat b := hang gen s (ValueNode v)]) fl'"
  have br: "has db ?br k w \<longleftrightarrow> (k = b # s \<and> w = v) \<or> (\<exists>k'. k = a # r @ k' \<and> has db val k' w)" for k w
  proof (cases k)
    case (Cons x xs)
    have "has db ?br (x # xs) w \<longleftrightarrow> (if x = b then xs = s \<and> w = v else if x = a then (\<exists>k'. xs = r @ k' \<and> has db val k' w) else False)"
      using ua ab by (auto simp: nth_list_update unat_eq_byte has_hang)
    then show ?thesis using Cons ab by auto
  qed simp
  show ?thesis unfolding stores_def has_hang br using ab by (auto simp: has_Short)
qed

text \<open>The claim about one insertion, and its cases.\<close>

definition insert_ok :: "database \<Rightarrow> u16 \<Rightarrow> nat \<Rightarrow> node \<Rightarrow> bytes \<Rightarrow> bytes \<Rightarrow> bytes \<Rightarrow> bool" where
  "insert_ok db gen fuel n pfx key v \<longleftrightarrow> (\<exists>d n'. insert_node db gen fuel n pfx key (ValueNode v) = Inr (d, n')
    \<and> okpos db n' key \<and> n' \<noteq> NilNode \<and> stores db n n' key v \<and> (\<not> d \<longrightarrow> has db n key v)
    \<and> (fullish db n \<longrightarrow> fullish db n'))"

lemma insert_ok_Short:
  assumes w: "wfn db (ShortNode k val fl)" and hx: "hexkey (x # xs)" and m: "prefixLen (x # xs) k = length k"
    and split: "x # xs = k @ drop (length k) (x # xs)"
    and IH: "insert_ok db gen fuel val (pfx @ take (length k) (x # xs)) (drop (length k) (x # xs)) v"
  shows "insert_ok db gen fuel (ShortNode k val fl) pfx (x # xs) v"
proof -
  let ?key = "x # xs" and ?rest = "drop (length k) (x # xs)"
  from IH obtain d n' where n':
    "insert_node db gen fuel val (pfx @ take (length k) ?key) ?rest (ValueNode v) = Inr (d, n')"
    "okpos db n' ?rest" "n' \<noteq> NilNode" "stores db val n' ?rest v" "\<not> d \<longrightarrow> has db val ?rest v"
    "fullish db val \<longrightarrow> fullish db n'" unfolding insert_ok_def by blast
  have "hexkey (k @ ?rest)" using hx split by metis
  from wf_Short_update [OF w this n'(2,3,6)] have w': "wfn db (ShortNode k n' fl')" for fl' .
  have st: "stores db (ShortNode k val fl) (ShortNode k n' (newFlag gen)) ?key v"
    using stores_Short [OF n'(4), of k fl "newFlag gen"] unfolding split [symmetric] .
  have hs: "has db (ShortNode k val fl) ?key v" if "\<not> d"
    using n'(5) that has_Short_append [of db k val fl ?rest v] unfolding split [symmetric] by blast
  have "insert_node db gen fuel (ShortNode k val fl) pfx ?key (ValueNode v) =
    (if \<not> d then Inr (False, ShortNode k val fl) else Inr (True, ShortNode k n' (newFlag gen)))"
    using m n'(1) by simp
  then show ?thesis unfolding insert_ok_def using st hs w w' hx stores_same [OF hs] by (auto simp: okpos_hexkey)
qed

text \<open>The old content hangs below its own child of the branch, the new value below another.\<close>

lemma hang_old:
  assumes "wfn db (ShortNode (p @ a # r) val fl)" and "nibbles p"
  shows "(hexkey (a # r) \<and> okpos db (hang gen r val) r \<or> nibbles (a # r) \<and> wfn db (hang gen r val)) \<and> hang gen r val \<noteq> NilNode"
proof -
  from assms(1) consider v where "val = ValueNode v" "v \<noteq> []" "hexkey (p @ a # r)"
    | "nibbles (p @ a # r)" "wfn db val" "fullish db val" by (auto simp: wf_Short)
  then show ?thesis
  proof cases
    case 1
    then have h: "hexkey (a # r)" using assms(2) hexkey_append by metis
    then have "hexkey r \<or> r = []" by (auto simp: hexkey_Cons)
    with h 1 wf_hang_leaf [of r v db gen] show ?thesis by (auto simp: hang_def okpos_def)
  next
    case 2
    then show ?thesis by (auto simp: hang_def intro!: wfn.WfExt)
  qed
qed

lemma hang_new:
  assumes "hexkey (b # s)" and "v \<noteq> []"
  shows "okpos db (hang gen s (ValueNode v)) s \<and> hang gen s (ValueNode v) \<noteq> NilNode"
proof -
  have "hexkey s \<or> s = []" using assms(1) by (auto simp: hexkey_Cons)
  then show ?thesis using assms(2) wf_hang_leaf [of s v db gen] by (auto simp: hang_def okpos_def)
qed

lemma insert_split:
  assumes lt: "prefixLen key k < length k" "prefixLen key k < length key" and key: "key = x # xs"
    and u: "unat (k ! prefixLen key k) < 17" "unat (key ! prefixLen key k) < 17"
  shows "insert_node db gen fuel (ShortNode k val fl) pfx key value =
    (let m = prefixLen key k in Inr (True, hang gen (take m key)
      (FullNode ((replicate 17 NilNode)[unat (k ! m) := hang gen (drop (m + 1) k) val,
         unat (key ! m) := hang gen (drop (m + 1) key) value]) (newFlag gen))))"
proof -
  have "take (prefixLen key k) key = [] \<longleftrightarrow> prefixLen key k = 0" using lt by auto
  with lt u show ?thesis unfolding key insert_node.simps(2) Let_def insert_Nil hang_def [of gen "take _ _"] by simp
qed

lemma insert_ok_split:
  assumes w: "wfn db (ShortNode k val fl)" and hx: "hexkey (x # xs)" and m: "prefixLen (x # xs) k \<noteq> length k" and v: "v \<noteq> []"
  shows "insert_ok db gen fuel (ShortNode k val fl) pfx (x # xs) v"
proof -
  let ?key = "x # xs" and ?m = "prefixLen (x # xs) k"
  have hk: "hexkey k \<or> nibbles k" using w by (auto simp: wf_Short)
  from prefixLen_proper [OF hx hk m] have lt: "?m < length k" "?m < length ?key" by auto
  from split_keys [OF refl lt] obtain p a b r s where sp: "k = p @ a # r" "?key = p @ b # s" "a \<noteq> b"
    "p = take ?m ?key" "a = k ! ?m" "b = ?key ! ?m" "r = drop (?m + 1) k" "s = drop (?m + 1) ?key" by blast
  have np: "nibbles p" using hx sp(2) hexkey_nibbles by metis
  have hb: "hexkey (b # s)" using hx sp(2) np hexkey_append by metis
  note c1 = hang_old [OF w [unfolded sp(1)] np, of gen] and c2 = hang_new [OF hb v, of db gen]
  have ua: "unat a < 17" using c1 by (auto simp: hexkey_Cons word_less_nat_alt)
  have ub: "unat b < 17" by (rule hexkey_nth16 [OF hb])
  let ?br = "FullNode ((replicate 17 NilNode)[unat a := hang gen r val, unat b := hang gen s (ValueNode v)]) (newFlag gen)"
  have "wfn db ?br" using branch_wf [OF sp(3), of r db] c1 c2 hb by blast
  then have wb: "wfn db (hang gen p ?br)" using np by (auto simp: hang_def intro: wfn.WfExt)
  have st: "stores db (ShortNode k val fl) (hang gen p ?br) ?key v"
    using branch_stores [OF sp(3) ua ub, of db p r val fl gen s v "newFlag gen"] unfolding sp(1,2) .
  have "insert_node db gen fuel (ShortNode k val fl) pfx ?key (ValueNode v) = Inr (True, hang gen p ?br)"
    using insert_split [OF lt refl, of db gen fuel val fl pfx "ValueNode v"] ua ub unfolding sp(4-8) Let_def by blast
  moreover have "hang gen p ?br \<noteq> NilNode" by (simp add: hang_def)
  ultimately show ?thesis unfolding insert_ok_def using st hx wb by (auto simp: okpos_hexkey)
qed

lemma insert_ok_Full:
  assumes w: "wfn db (FullNode cs fl)" and k: "hexkey (k0 # key)"
    and IH: "insert_ok db gen fuel (cs ! unat k0) (pfx @ [k0]) key v"
  shows "insert_ok db gen fuel (FullNode cs fl) pfx (k0 # key) v"
proof -
  have i: "unat k0 < length cs" using hexkey_nth16 [OF k] w by (simp add: wf_Full)
  from IH obtain d n' where n':
    "insert_node db gen fuel (cs ! unat k0) (pfx @ [k0]) key (ValueNode v) = Inr (d, n')"
    "okpos db n' key" "n' \<noteq> NilNode" "stores db (cs ! unat k0) n' key v" "\<not> d \<longrightarrow> has db (cs ! unat k0) key v"
    unfolding insert_ok_def by blast
  have w': "wfn db (FullNode (cs[unat k0 := n']) fl')" for fl' using wf_Full_update [OF w k n'(2,3)] .
  have st: "stores db (FullNode cs fl) (FullNode (cs[unat k0 := n']) (newFlag gen)) (k0 # key) v"
    by (rule stores_Full [OF i n'(4)])
  have hs: "has db (FullNode cs fl) (k0 # key) v" if "\<not> d" using n'(5) that i by simp
  have "insert_node db gen fuel (FullNode cs fl) pfx (k0 # key) (ValueNode v) =
      (if \<not> d then Inr (False, FullNode cs fl) else Inr (True, FullNode (cs[unat k0 := n']) (newFlag gen)))"
    using i n'(1) by simp
  then show ?thesis unfolding insert_ok_def using st hs w w' k stores_same [OF hs] by (auto simp: okpos_hexkey)
qed

lemma insert_ok_Hash:
  assumes n: "resolveHash db gen h pfx = Inr n" "branching n"
    "\<forall>k v. has db (HashNode h) k v \<longleftrightarrow> has db n k v" "fullish db (HashNode h) \<longleftrightarrow> fullish db n"
    and ok: "okpos db n (x # xs)" and IH: "insert_ok db gen fuel n pfx (x # xs) v"
  shows "insert_ok db gen (Suc fuel) (HashNode h) pfx (x # xs) v"
proof -
  from IH obtain d n' where n': "insert_node db gen fuel n pfx (x # xs) (ValueNode v) = Inr (d, n')"
    "okpos db n' (x # xs)" "n' \<noteq> NilNode" "stores db n n' (x # xs) v" "\<not> d \<longrightarrow> has db n (x # xs) v" "fullish db n \<longrightarrow> fullish db n'"
    unfolding insert_ok_def by blast
  have nn: "n \<noteq> NilNode" using n(2) by auto
  have st: "stores db (HashNode h) n2 (x # xs) v \<longleftrightarrow> stores db n n2 (x # xs) v" for n2
    using n(3) by (simp add: stores_def)
  show ?thesis unfolding insert_ok_def
    using n n' st ok nn stores_same [of db n "x # xs" v] by (cases d) auto
qed

lemma insert_wf:
  assumes "okpos db n key" and "v \<noteq> []" and "fuel_ok fuel n key"
  shows "insert_ok db gen fuel n pfx key v"
  using assms
proof (induction db gen fuel n pfx key "ValueNode v" rule: insert_node.induct)
  case (1 db gen fuel n pfx)
  then show ?case by (auto simp: insert_ok_def okpos_end stores_def)
next
  case (2 db gen fuel k val fl pfx x xs)
  have hx: "hexkey (x # xs)" and w: "wfn db (ShortNode k val fl)"
    using "2.prems"(1) by (auto simp: okpos_def)
  show ?case
  proof (cases "prefixLen (x # xs) k = length k")
    case True
    have split: "x # xs = k @ drop (length k) (x # xs)" using True prefixLen_full_iff [of "x # xs" k] by (metis append_take_drop_id)
    have hx': "hexkey (k @ drop (length k) (x # xs))" using hx split by metis
    note ok = short_okpos [OF w hx']
    have "fuel_ok fuel (ShortNode k val fl) (k @ drop (length k) (x # xs))" using "2.prems"(3) split by metis
    from fuel_ok_Short [OF this ok(2), of val] show ?thesis
      using insert_ok_Short [OF w hx True split] "2.hyps"(1) [OF refl True, unfolded True, OF ok(1) "2.prems"(2)] by blast
  next
    case False
    then show ?thesis using insert_ok_split [OF w hx] "2.prems"(2) by blast
  qed
next
  case (3 db gen fuel cs fl pfx k0 key)
  then have k: "hexkey (k0 # key)" and w: "wfn db (FullNode cs fl)" by (auto simp: okpos_def)
  have guard: "\<not> \<not> unat k0 < length cs" using hexkey_nth16 [OF k] w by (simp add: wf_Full)
  show ?case using insert_ok_Full [OF w k] "3.hyps" [OF guard child_okpos [OF w k] "3.prems"(2)] fuel_ok_Full [OF "3.prems"(3)] by blast
next
  case (4 db gen fuel pfx x xs)
  then show ?case using wf_hang_leaf [of "x # xs" v db gen]
    by (auto simp: insert_ok_def okpos_hexkey stores_def has_Short hang_def)
next
  case (6 db gen fuel h pfx x xs)
  then have hx: "hexkey (x # xs)" and w: "wfn db (HashNode h)" by (auto simp: okpos_def)
  from resolveHash_wf [OF w, of gen pfx] obtain n where n: "resolveHash db gen h pfx = Inr n"
    "wfn db n" "branching n" "\<forall>k v. has db (HashNode h) k v \<longleftrightarrow> has db n k v" "fullish db (HashNode h) \<longleftrightarrow> fullish db n" by blast
  have ok: "okpos db n (x # xs)" using n(2) hx by (simp add: okpos_hexkey)
  show ?case using insert_ok_Hash [OF n(1,3-5) ok]
      "6.hyps" [OF n(1) ok "6.prems"(2) fuel_ok_Hash [OF "6.prems"(3) n(3)]] by blast
qed (auto simp: okpos_def fuel_ok_def)

section \<open>Deletion\<close>

lemma only_child_from_more: "only_child_from i (int p) cs = (if nonnil cs = 0 then int p else -2)"
  by (induction cs arbitrary: i) (auto simp: nonnil_def)

lemma only_child_from_spec:
  "only_child_from i (-1) cs = (if nonnil cs = 0 then -1
     else if nonnil cs = 1 then int (i + length (takeWhile (\<lambda>c. c = NilNode) cs)) else -2)"
  by (induction cs arbitrary: i) (auto simp: nonnil_def only_child_from_more)

lemma nonnil_0: "nonnil cs = 0 \<longleftrightarrow> (\<forall>j < length cs. cs ! j = NilNode)"
  by (simp add: nonnil_def filter_empty_conv all_set_conv_all_nth)

lemma takeWhile_shorter: "\<exists>c \<in> set cs. \<not> P c \<Longrightarrow> length (takeWhile P cs) < length cs"
  by (induction cs) auto

lemma nonnil_one:
  assumes "nonnil cs = 1"
  shows "\<exists>i < length cs. only_child cs = int i \<and> cs ! i \<noteq> NilNode \<and> (\<forall>j < length cs. j \<noteq> i \<longrightarrow> cs ! j = NilNode)"
proof -
  let ?i = "length (takeWhile (\<lambda>c. c = NilNode) cs)"
  have "filter (\<lambda>c. c \<noteq> NilNode) cs \<noteq> []" using assms by (auto simp: nonnil_def)
  then have "\<exists>c \<in> set cs. \<not> c = NilNode" by (simp add: filter_empty_conv)
  then have i: "?i < length cs" by (rule takeWhile_shorter)
  then have ni: "cs ! ?i \<noteq> NilNode" by (rule nth_length_takeWhile)
  have "cs ! j = NilNode" if j: "j < length cs" "j \<noteq> ?i" for j
  proof (rule ccontr)
    assume "cs ! j \<noteq> NilNode"
    moreover have "nonnil (cs[?i := NilNode]) = 0" using nonnil_update [OF i, of NilNode] ni assms by simp
    ultimately show False using j unfolding nonnil_0
      by (metis length_list_update nth_list_update_neq)
  qed
  moreover have "only_child cs = int ?i" using assms by (simp add: only_child_def only_child_from_spec)
  ultimately show ?thesis using i ni by blast
qed

text \<open>A full node with the children \<open>cs\<close> of which at least one is left.\<close>

lemma collapse_wf:
  assumes len: "length cs = 17" and ch: "\<forall>i < 16. cs ! i \<noteq> NilNode \<longrightarrow> wfn db (cs ! i)"
    and last: "cs ! 16 = NilNode \<or> (\<exists>v. v \<noteq> [] \<and> cs ! 16 = ValueNode v)" and one: "1 \<le> nonnil cs"
  shows "\<exists>n. collapse_full db gen cs pfx = Inr (True, n) \<and> wfn db n \<and> branching n \<and> eqv db (FullNode cs fl) n"
proof (cases "nonnil cs = 1")
  case False
  then have "only_child cs = -2" using one by (simp add: only_child_def only_child_from_spec)
  moreover have "wfn db (FullNode cs (newFlag gen))" using assms False by (intro wfn.WfFull) auto
  moreover have "eqv db (FullNode cs fl) (FullNode cs (newFlag gen))" by (simp add: eqv_def has_Full)
  ultimately show ?thesis by (simp add: collapse_full_def)
next
  case True
  from nonnil_one [OF True] obtain i where i: "i < length cs" "only_child cs = int i" "cs ! i \<noteq> NilNode"
    "\<forall>j < length cs. j \<noteq> i \<longrightarrow> cs ! j = NilNode" by blast
  have i17: "i < 17" using i(1) len by simp
  let ?b = "word_of_nat i :: byte"
  have ub: "unat ?b = i" using i17 by (simp add: unat_of_nat_byte)
  have full: "has db (FullNode cs fl) k v \<longleftrightarrow> (\<exists>k'. k = ?b # k' \<and> has db (cs ! i) k' v)" for k v
  proof (cases k)
    case (Cons x xs)
    have "has db (cs ! unat x) xs v \<longleftrightarrow> x = ?b \<and> has db (cs ! i) xs v" if "unat x < 17"
      using i(4) that len ub by (cases "unat x = i") (auto simp: word_unat_eq_iff)
    then show ?thesis using Cons len ub i17 by auto
  qed simp
  have single: "eqv db (FullNode cs fl) (ShortNode [?b] (cs ! i) fl')" for fl'
    unfolding eqv_def full by (simp add: has_Short)
  show ?thesis
  proof (cases "i = 16")
    case True
    then obtain v where "v \<noteq> []" "cs ! 16 = ValueNode v" using last i(3) by auto
    moreover have "hexkey [?b]" using True by (simp add: hexkey_Cons)
    ultimately show ?thesis using i True single by (auto simp: collapse_full_def Let_def intro: wfn.WfLeaf)
  next
    case False
    then have wi: "wfn db (cs ! i)" and lt: "i < 16" using ch i(3) i17 by auto
    have bn: "?b < 16" using lt ub by (simp add: word_less_nat_alt)
    have "\<exists>cn. resolve db gen (cs ! i) pfx = Inr cn \<and> wfn db cn \<and> branching cn \<and> eqv db (cs ! i) cn \<and> (fullish db (cs ! i) \<longleftrightarrow> fullish db cn)"
      using wi resolveHash_wf [of db _ gen pfx] by (cases "cs ! i") (auto simp: resolve_def eqv_def)
    then obtain cn where cn: "resolve db gen (cs ! i) pfx = Inr cn" "wfn db cn" "branching cn" "eqv db (cs ! i) cn"
      "fullish db (cs ! i) \<longleftrightarrow> fullish db cn" by blast
    show ?thesis
    proof (cases cn)
      case (ShortNode ck cval cfl)
      have "wfn db (ShortNode (?b # ck) cval fl')" for fl'
        using cn(2) bn unfolding ShortNode by (auto simp: wf_Short hexkey_Cons)
      moreover have "eqv db (FullNode cs fl) (ShortNode (?b # ck) cval fl')" for fl'
        using cn(4) unfolding eqv_def full ShortNode by (auto simp: has_Short)
      ultimately show ?thesis using i False cn(1) ShortNode by (auto simp: collapse_full_def Let_def)
    next
      case (FullNode ccs cfl)
      then have "fullish db (cs ! i)" using cn(5) by simp
      then have "wfn db (ShortNode [?b] (cs ! i) fl')" for fl' using wi bn by (intro wfn.WfExt) auto
      then show ?thesis using i False cn(1) FullNode single by (auto simp: collapse_full_def Let_def)
    qed (use cn(3) in auto)
  qed
qed

text \<open>The content after removing \<open>key\<close>.\<close>

definition removes :: "database \<Rightarrow> node \<Rightarrow> node \<Rightarrow> bytes \<Rightarrow> bool" where
  "removes db n n' key \<longleftrightarrow> (\<forall>k w. has db n' k w \<longleftrightarrow> k \<noteq> key \<and> has db n k w)"

lemma removes_same: "(\<And>w. \<not> has db n key w) \<Longrightarrow> removes db n n key"
  by (auto simp: removes_def)

lemma removes_Short: "removes db val val' rest \<Longrightarrow> removes db (ShortNode k val fl) (ShortNode k val' fl') (k @ rest)"
  by (auto simp: removes_def has_Short)

lemma removes_Full:
  assumes "unat x < length cs" and "removes db (cs ! unat x) c rest" and "eqv db (FullNode (cs[unat x := c]) fl') n"
  shows "removes db (FullNode cs fl) n (x # rest)"
  unfolding removes_def
proof (intro allI)
  fix k w
  have "has db n k w \<longleftrightarrow> has db (FullNode (cs[unat x := c]) fl') k w" using assms(3) by (simp add: eqv_def)
  also have "\<dots> \<longleftrightarrow> k \<noteq> x # rest \<and> has db (FullNode cs fl) k w"
    using assms(1,2) by (cases k) (auto simp: removes_def nth_list_update unat_eq_byte)
  finally show "has db n k w \<longleftrightarrow> k \<noteq> x # rest \<and> has db (FullNode cs fl) k w" .
qed

text \<open>The claim about one deletion, and its cases.\<close>

definition delete_ok :: "database \<Rightarrow> u16 \<Rightarrow> nat \<Rightarrow> node \<Rightarrow> bytes \<Rightarrow> bytes \<Rightarrow> bool" where
  "delete_ok db gen fuel n pfx key \<longleftrightarrow> (\<exists>d n'. delete_node db gen fuel n pfx key = Inr (d, n')
    \<and> okpos db n' key \<and> removes db n n' key \<and> (\<not> d \<longrightarrow> (\<forall>w. \<not> has db n key w))
    \<and> (fullish db n \<and> d \<longrightarrow> branching n'))"

lemma delete_ok_absent:
  assumes "delete_node db gen fuel n pfx key = Inr (False, n)" and "okpos db n key" and "\<And>w. \<not> has db n key w"
  shows "delete_ok db gen fuel n pfx key"
  using assms removes_same [of db n key] by (auto simp: delete_ok_def)

text \<open>What becomes of a fragment above a child that deletion has changed.\<close>

lemma merge_Short:
  assumes ext: "nibbles k" "k \<noteq> []" and c: "wfn db c" "branching c"
    and n: "n = (case c of ShortNode ck cval _ \<Rightarrow> ShortNode (k @ ck) cval (newFlag gen) | _ \<Rightarrow> ShortNode k c (newFlag gen))"
  shows "wfn db n \<and> eqv db (ShortNode k c fl) n \<and> branching n"
proof (cases c)
  case (ShortNode ck cval cfl)
  have "wfn db (ShortNode (k @ ck) cval fl')" for fl'
    using c(1) ext(1) unfolding ShortNode by (auto simp: wf_Short hexkey_append)
  then show ?thesis using n ShortNode by (auto simp: eqv_def has_Short)
next
  case (FullNode ccs cfl)
  then have "wfn db (ShortNode k c fl')" for fl' using c(1) ext by (intro wfn.WfExt) auto
  then show ?thesis using n FullNode by (auto simp: eqv_def has_Short)
qed (use c(2) in auto)

lemma delete_ok_Short:
  assumes w: "wfn db (ShortNode k val fl)" and hx: "hexkey key"
    and m: "prefixLen key k = length k" "length k \<noteq> length key" and split: "key = k @ drop (length k) key"
    and ext: "nibbles k" "k \<noteq> []" "fullish db val"
    and IH: "delete_ok db gen fuel val (pfx @ take (length k) key) (drop (length k) key)"
  shows "delete_ok db gen fuel (ShortNode k val fl) pfx key"
proof -
  let ?rest = "drop (length k) key"
  from IH obtain d c where c: "delete_node db gen fuel val (pfx @ take (length k) key) ?rest = Inr (d, c)"
    "okpos db c ?rest" "removes db val c ?rest" "\<not> d \<longrightarrow> (\<forall>w. \<not> has db val ?rest w)" "d \<longrightarrow> branching c"
    unfolding delete_ok_def using ext(3) by blast
  have hr: "hexkey ?rest" using hx split ext(1) hexkey_append by metis
  have hk: "has db (ShortNode k val fl) key w \<longleftrightarrow> has db val ?rest w" for w
    using has_Short_append [of db k val fl ?rest w] unfolding split [symmetric] .
  show ?thesis
  proof (cases d)
    case False
    then show ?thesis using c m w hx hk by (intro delete_ok_absent) (auto simp: okpos_hexkey)
  next
    case True
    let ?n = "case c of ShortNode ck cval _ \<Rightarrow> ShortNode (k @ ck) cval (newFlag gen) | _ \<Rightarrow> ShortNode k c (newFlag gen)"
    have bc: "branching c" using c(5) True by blast
    then have "wfn db c" using c(2) hr by (auto simp: okpos_hexkey)
    from merge_Short [OF ext(1,2) this bc refl, of gen fl] have n: "wfn db ?n" "eqv db (ShortNode k c fl) ?n" "branching ?n" by auto
    have "removes db (ShortNode k val fl) (ShortNode k c fl) key"
      using removes_Short [OF c(3), of k fl fl] unfolding split [symmetric] .
    with n(2) have rm: "removes db (ShortNode k val fl) ?n key" by (simp add: removes_def eqv_def)
    have "delete_node db gen fuel (ShortNode k val fl) pfx key = Inr (True, ?n)"
      using True c(1) m by (auto split: node.splits)
    moreover have "okpos db ?n key" using n(1) hx by (simp add: okpos_hexkey)
    ultimately show ?thesis unfolding delete_ok_def using n(3) rm by blast
  qed
qed

lemma delete_ok_Full:
  assumes w: "wfn db (FullNode cs fl)" and k: "hexkey (k0 # key)"
    and IH: "delete_ok db gen fuel (cs ! unat k0) (pfx @ [k0]) key"
  shows "delete_ok db gen fuel (FullNode cs fl) pfx (k0 # key)"
proof -
  have len: "length cs = 17" using w by (simp add: wf_Full)
  have i: "unat k0 < length cs" using hexkey_nth16 [OF k] len by simp
  from IH obtain d n' where n': "delete_node db gen fuel (cs ! unat k0) (pfx @ [k0]) key = Inr (d, n')"
    "okpos db n' key" "removes db (cs ! unat k0) n' key" "\<not> d \<longrightarrow> (\<forall>w. \<not> has db (cs ! unat k0) key w)"
    unfolding delete_ok_def by blast
  show ?thesis
  proof (cases d)
    case False
    then show ?thesis using n' i w k by (intro delete_ok_absent) (auto simp: okpos_hexkey)
  next
    case True
    let ?cs = "cs[unat k0 := n']"
    have ch: "\<forall>j < 16. ?cs ! j \<noteq> NilNode \<longrightarrow> wfn db (?cs ! j)"
      and last: "?cs ! 16 = NilNode \<or> (\<exists>v. v \<noteq> [] \<and> ?cs ! 16 = ValueNode v)"
      using w n'(2) k len by (auto simp: wf_Full nth_list_update okpos_hexkey okpos_end hexkey_Cons word_less_nat_alt)
    have one: "1 \<le> nonnil ?cs" using nonnil_update [OF i, of n'] w by (auto simp: wf_Full split: if_splits)
    have "length ?cs = 17" using len by simp
    from collapse_wf [OF this ch last one, of gen pfx fl] obtain n where
      n: "collapse_full db gen ?cs pfx = Inr (True, n)" "wfn db n" "branching n" "eqv db (FullNode ?cs fl) n" by blast
    have "removes db (FullNode cs fl) n (k0 # key)" by (rule removes_Full [OF i n'(3) n(4)])
    then show ?thesis unfolding delete_ok_def using True n'(1) i n k by (auto simp: okpos_hexkey)
  qed
qed

lemma delete_wf:
  assumes "okpos db n key" and "fuel_ok fuel n key"
  shows "delete_ok db gen fuel n pfx key"
  using assms
proof (induction db gen fuel n pfx key rule: delete_node.induct)
  case (1 db gen fuel k val fl pfx key)
  then have hx: "hexkey key" and w: "wfn db (ShortNode k val fl)" by (auto simp: okpos_def)
  show ?case
  proof (cases "prefixLen key k < length k")
    case True
    then have "take (length k) key \<noteq> k" using prefixLen_full_iff [of key k] by auto
    then have "\<not> has db (ShortNode k val fl) key w" for w by (auto simp: has_Short)
    then show ?thesis using True w hx by (intro delete_ok_absent) (auto simp: okpos_hexkey)
  next
    case False
    then have m: "prefixLen key k = length k" using prefixLen_le(2) [of key k] by simp
    let ?rest = "drop (length k) key"
    have split: "key = k @ ?rest" using m prefixLen_full_iff [of key k] by (metis append_take_drop_id)
    show ?thesis
    proof (cases "length k = length key")
      case True
      then have kk: "key = k" using split by (metis append_Nil2 drop_all order_refl)
      then obtain v where "val = ValueNode v" using w hx by (auto simp: wf_Short dest: hexkey_not_nibbles)
      then have "removes db (ShortNode k val fl) NilNode key" using kk by (auto simp: removes_def has_Short)
      moreover have "delete_node db gen fuel (ShortNode k val fl) pfx key = Inr (True, NilNode)" using m True by simp
      ultimately show ?thesis using hx unfolding delete_ok_def by fastforce
    next
      case nl: False
      then have "?rest \<noteq> []" using m prefixLen_le(1) [of key k] by simp
      then have "\<not> hexkey k" using hexkey_prefix hx split by metis
      with w have ext: "nibbles k" "k \<noteq> []" "wfn db val" "fullish db val" by (auto simp: wf_Short)
      have "hexkey ?rest" using hx split ext(1) hexkey_append by metis
      then have ok: "okpos db val ?rest" using ext(3) by (simp add: okpos_hexkey)
      have "fuel_ok fuel (ShortNode k val fl) (k @ ?rest)" using "1.prems"(2) split by metis
      from fuel_ok_Short [OF this ext(2), of val] show ?thesis
        using delete_ok_Short [OF w hx m nl split ext(1,2,4)] "1.IH" [OF refl False, unfolded m, OF nl ok] by blast
    qed
  qed
next
  case (3 db gen fuel cs fl pfx k0 key)
  then have k: "hexkey (k0 # key)" and w: "wfn db (FullNode cs fl)" by (auto simp: okpos_def)
  have guard: "\<not> \<not> unat k0 < length cs" using hexkey_nth16 [OF k] w by (simp add: wf_Full)
  show ?case using delete_ok_Full [OF w k] "3.IH" [OF guard child_okpos [OF w k]] fuel_ok_Full [OF "3.prems"(2)] by blast
next
  case (7 db gen fuel h pfx key)
  then have hx: "hexkey key" and w: "wfn db (HashNode h)" by (auto simp: okpos_def)
  from resolveHash_wf [OF w, of gen pfx] obtain n where n: "resolveHash db gen h pfx = Inr n"
    "wfn db n" "branching n" "\<forall>k v. has db (HashNode h) k v \<longleftrightarrow> has db n k v" "fullish db (HashNode h) \<longleftrightarrow> fullish db n" by blast
  have ok: "okpos db n key" using n(2) hx by (simp add: okpos_hexkey)
  have "delete_ok db gen fuel n pfx key" using "7.IH" [OF n(1) ok fuel_ok_Hash [OF "7.prems"(2) n(3)]] .
  then show ?case using n ok removes_same [of db n key] unfolding delete_ok_def by (auto simp: removes_def)
qed (auto simp: delete_ok_def okpos_def fuel_ok_def removes_def)

end
