(* ===== verification/Kv_Store.thy ===== *)
theory Kv_Store
  imports Main
begin

text \<open>
  The contract of a key-value store, as the consensus code relies on it.  \<open>kv_store\<close> is what a
  lookup returns after an update or a deletion; \<open>canonical_store\<close> adds that the shape of the
  store (for a Merkle trie: everything its root hash is computed from) is determined by its
  content.  Both are interpreted on the Merkle trie in \<open>Trie_Map\<close>.
\<close>

datatype ('k, 'v) kv_op = Put 'k 'v | Del 'k

fun spec_op :: "('k, 'v) kv_op \<Rightarrow> ('k \<rightharpoonup> 'v) \<Rightarrow> ('k \<rightharpoonup> 'v)" where
  "spec_op (Put k v) m = m(k \<mapsto> v)"
| "spec_op (Del k) m = m(k := None)"

fun spec_run :: "('k, 'v) kv_op list \<Rightarrow> ('k \<rightharpoonup> 'v) \<Rightarrow> ('k \<rightharpoonup> 'v)" where
  "spec_run [] m = m"
| "spec_run (p # ops) m = spec_run ops (spec_op p m)"

locale kv_store =
  fixes lookup :: "'m \<Rightarrow> 'k \<Rightarrow> 'v option"
    and put :: "'m \<Rightarrow> 'k \<Rightarrow> 'v \<Rightarrow> 'm"
    and del :: "'m \<Rightarrow> 'k \<Rightarrow> 'm"
    and inv :: "'m \<Rightarrow> bool"
    and storable :: "'v \<Rightarrow> bool"
  assumes lookup_put: "inv m \<Longrightarrow> storable v \<Longrightarrow> lookup (put m k v) = (lookup m)(k \<mapsto> v)"
    and lookup_del: "inv m \<Longrightarrow> lookup (del m k) = (lookup m)(k := None)"
    and inv_put: "inv m \<Longrightarrow> storable v \<Longrightarrow> inv (put m k v)"
    and inv_del: "inv m \<Longrightarrow> inv (del m k)"
begin

fun run_op :: "('k, 'v) kv_op \<Rightarrow> 'm \<Rightarrow> 'm" where
  "run_op (Put k v) m = put m k v"
| "run_op (Del k) m = del m k"

fun storable_op :: "('k, 'v) kv_op \<Rightarrow> bool" where
  "storable_op (Put k v) = storable v"
| "storable_op (Del k) = True"

fun run :: "('k, 'v) kv_op list \<Rightarrow> 'm \<Rightarrow> 'm" where
  "run [] m = m"
| "run (p # ops) m = run ops (run_op p m)"

lemma run_op_refines:
  assumes "inv m" and "storable_op p"
  shows "inv (run_op p m)" and "lookup (run_op p m) = spec_op p (lookup m)"
  using assms by (cases p; simp add: lookup_put lookup_del inv_put inv_del)+

lemma run_refines:
  assumes "inv m" and "\<forall>p \<in> set ops. storable_op p"
  shows "inv (run ops m) \<and> lookup (run ops m) = spec_run ops (lookup m)"
  using assms by (induction ops arbitrary: m) (auto simp: run_op_refines)

end

locale canonical_store = kv_store lookup put del inv storable
  for lookup :: "'m \<Rightarrow> 'k \<Rightarrow> 'v option" and put del inv storable +
  fixes compatible :: "'m \<Rightarrow> 'm \<Rightarrow> bool" and shape :: "'m \<Rightarrow> 's"
  assumes canonical: "\<lbrakk>inv m; inv m'; compatible m m'; lookup m = lookup m'\<rbrakk> \<Longrightarrow> shape m = shape m'"
    and compatible_refl: "compatible m m"
    and compatible_put: "inv m \<Longrightarrow> storable v \<Longrightarrow> compatible m m' \<Longrightarrow> compatible (put m k v) m'"
    and compatible_del: "inv m \<Longrightarrow> compatible m m' \<Longrightarrow> compatible (del m k) m'"
    and compatible_sym: "compatible m m' \<Longrightarrow> compatible m' m"
begin

lemma run_compatible:
  assumes "inv m" and "\<forall>p \<in> set ops. storable_op p" and "compatible m m'"
  shows "compatible (run ops m) m'"
  using assms
proof (induction ops arbitrary: m)
  case (Cons p ops)
  then have "compatible (run_op p m) m'" by (cases p) (auto intro: compatible_put compatible_del)
  with Cons show ?case by (auto simp: run_op_refines)
qed simp

text \<open>Two histories with the same outcome leave the same shape.\<close>

lemma history_independent:
  assumes "inv m" and "\<forall>p \<in> set ops. storable_op p" and "\<forall>p \<in> set ops'. storable_op p"
    and "spec_run ops (lookup m) = spec_run ops' (lookup m)"
  shows "shape (run ops m) = shape (run ops' m)"
proof (rule canonical)
  show "inv (run ops m)" "inv (run ops' m)" using run_refines assms by blast+
  show "lookup (run ops m) = lookup (run ops' m)" using run_refines assms by metis
  have "compatible m (run ops' m)" using run_compatible [OF assms(1,3) compatible_refl] compatible_sym by blast
  with run_compatible [OF assms(1,2)] show "compatible (run ops m) (run ops' m)" by blast
qed

end

end
