(* ===== verification/Trie_Map.thy ===== *)
theory Trie_Map
  imports Trie_Refine Kv_Store
begin

text \<open>
  The trie is a map from keys to non-empty values: the operations of \<open>Trie\<close> on a canonical trie
  (\<open>trie_wf\<close>) never fail and implement lookup, update and deletion.  The canonical form is
  determined by the content, so the nodes of a trie, and with them its root hash, do not
  depend on the order of the updates that produced it.
\<close>

definition trie_wf :: "database \<Rightarrow> trie \<Rightarrow> bool" where
  "trie_wf db t \<longleftrightarrow> tr_root t = NilNode \<or> wfn db (tr_root t)"

definition trie_map :: "database \<Rightarrow> trie \<Rightarrow> bytes \<Rightarrow> bytes option" where
  "trie_map db t key = (case fst (TryGet db t key) of Inr v \<Rightarrow> v | Inl _ \<Rightarrow> None)"

text \<open>Two tries that store their keys in the same way.\<close>

definition same_keys :: "trie \<Rightarrow> trie \<Rightarrow> bool" where
  "same_keys t t' \<longleftrightarrow> tr_prefix t' = tr_prefix t"

lemma full_key_inj: "full_key t k = full_key t k' \<longleftrightarrow> k = k'"
  by (simp add: full_key_def split: option.splits)

lemma full_key_same: "same_keys t t' \<Longrightarrow> full_key t' k = full_key t k"
  by (simp add: full_key_def same_keys_def)

lemma full_key_root [simp]: "full_key (t\<lparr>tr_root := n\<rparr>) k = full_key t k"
  by (simp add: full_key_def)

abbreviation hexof :: "trie \<Rightarrow> bytes \<Rightarrow> bytes" where
  "hexof t k \<equiv> keybytesToHex (full_key t k)"

lemma root_okpos: "trie_wf db t \<Longrightarrow> okpos db (tr_root t) (hexof t k)"
  by (auto simp: trie_wf_def okpos_hexkey)

lemma okpos_root: "okpos db n (keybytesToHex k) \<Longrightarrow> n = NilNode \<or> wfn db n"
  by (simp add: okpos_hexkey)

lemma TryGet_result:
  assumes "trie_wf db t"
  shows "\<exists>vo n'. fst (TryGet db t k) = Inr vo \<and> snd (TryGet db t k) = t\<lparr>tr_root := n'\<rparr>
    \<and> (\<forall>v. vo = Some v \<longleftrightarrow> has db (tr_root t) (hexof t k) v)
    \<and> (n' = NilNode \<or> wfn db n') \<and> eqv db (tr_root t) n'"
proof -
  let ?k = "hexof t k"
  have "get_ok db (tr_cachegen t) (length ?k) (tr_root t) ?k 0"
    using root_okpos [OF assms] by (intro tryGet_wf) (auto intro: fuel_ok_le)
  then obtain vo n' r where g: "tryGet db (tr_cachegen t) (length ?k) (tr_root t) ?k 0 = Inr (vo, n', r)"
    "\<forall>v. vo = Some v \<longleftrightarrow> has db (tr_root t) ?k v" "okpos db n' ?k" "eqv db (tr_root t) n'"
    unfolding get_ok_def by auto
  have n': "n' = NilNode \<or> wfn db n'" using g(3) by (rule okpos_root)
  show ?thesis
  proof (cases r)
    case True
    then show ?thesis using g n' by (auto simp: TryGet_def Let_def)
  next
    case False
    then have "fst (TryGet db t k) = Inr vo" "snd (TryGet db t k) = t\<lparr>tr_root := tr_root t\<rparr>"
      using g(1) by (auto simp: TryGet_def Let_def)
    then show ?thesis using g(2) assms unfolding trie_wf_def by (intro exI [of _ vo] exI [of _ "tr_root t"]) simp
  qed
qed

lemma trie_map_has:
  assumes "trie_wf db t"
  shows "trie_map db t k = Some v \<longleftrightarrow> has db (tr_root t) (hexof t k) v"
proof -
  from TryGet_result [OF assms, of k] obtain vo where
    vo: "fst (TryGet db t k) = Inr vo" "\<forall>v. vo = Some v \<longleftrightarrow> has db (tr_root t) (hexof t k) v" by blast
  have "trie_map db t k = vo" by (simp add: trie_map_def vo(1))
  with vo(2) show ?thesis by blast
qed

lemma trie_map_eqI:
  assumes "trie_wf db t" and "trie_wf db t'" and "same_keys t t'"
    and "\<And>k v. has db (tr_root t') (hexof t k) v \<longleftrightarrow> m k = Some v"
  shows "trie_map db t' = m"
proof
  fix k
  have "trie_map db t' k = Some v \<longleftrightarrow> m k = Some v" for v
    using trie_map_has [OF assms(2), of k v] assms(4) full_key_same [OF assms(3)] by simp
  then show "trie_map db t' k = m k" by (metis not_Some_eq)
qed

lemma TryGet_spec:
  assumes "trie_wf db t"
  shows "\<exists>t'. TryGet db t k = (Inr (trie_map db t k), t') \<and> trie_wf db t' \<and> trie_map db t' = trie_map db t \<and> same_keys t t'"
proof -
  from TryGet_result [OF assms, of k] obtain vo n' where g: "fst (TryGet db t k) = Inr vo" "snd (TryGet db t k) = t\<lparr>tr_root := n'\<rparr>"
    "n' = NilNode \<or> wfn db n'" "eqv db (tr_root t) n'" by blast
  let ?t = "t\<lparr>tr_root := n'\<rparr>"
  have w: "trie_wf db ?t" using g(3) by (simp add: trie_wf_def)
  have sk: "same_keys t ?t" by (simp add: same_keys_def)
  have "trie_map db ?t = trie_map db t"
    using g(4) trie_map_has [OF assms] by (intro trie_map_eqI [OF assms w sk]) (simp add: eqv_def)
  moreover have "TryGet db t k = (Inr (trie_map db t k), ?t)" using g(1,2) by (simp add: trie_map_def prod_eq_iff)
  ultimately show ?thesis using w sk by blast
qed

lemma put_spec:
  assumes w: "trie_wf db t" and v: "v \<noteq> []"
  shows "\<exists>t'. TryUpdate db t k v = (Inr (), t') \<and> trie_wf db t' \<and> trie_map db t' = (trie_map db t)(k \<mapsto> v) \<and> same_keys t t'
    \<and> stores db (tr_root t) (tr_root t') (hexof t k) v"
proof -
  let ?k = "hexof t k"
  have "insert_ok db (tr_cachegen t) (length ?k) (tr_root t) [] ?k v"
    using root_okpos [OF w] v by (intro insert_wf) (auto intro: fuel_ok_le)
  then obtain d n' where g: "insert_node db (tr_cachegen t) (length ?k) (tr_root t) [] ?k (ValueNode v) = Inr (d, n')"
    "okpos db n' ?k" "stores db (tr_root t) n' ?k v" unfolding insert_ok_def by blast
  let ?t = "t\<lparr>tr_root := n'\<rparr>"
  have w': "trie_wf db ?t" using okpos_root [OF g(2)] by (simp add: trie_wf_def)
  have sk: "same_keys t ?t" by (simp add: same_keys_def)
  have "trie_map db ?t = (trie_map db t)(k \<mapsto> v)"
    using g(3) trie_map_has [OF w] by (intro trie_map_eqI [OF w w' sk]) (auto simp: stores_def full_key_inj)
  moreover have "TryUpdate db t k v = (Inr (), ?t)" using g(1) v by (simp add: TryUpdate_def Let_def)
  ultimately show ?thesis using w' sk g(3) by (intro exI [of _ ?t]) simp
qed

lemma delete_root:
  assumes w: "trie_wf db t"
  shows "\<exists>d n'. delete_node db (tr_cachegen t) (length (hexof t k)) (tr_root t) [] (hexof t k) = Inr (d, n')
    \<and> trie_wf db (t\<lparr>tr_root := n'\<rparr>) \<and> trie_map db (t\<lparr>tr_root := n'\<rparr>) = (trie_map db t)(k := None)
    \<and> removes db (tr_root t) n' (hexof t k)"
proof -
  let ?k = "hexof t k"
  have "delete_ok db (tr_cachegen t) (length ?k) (tr_root t) [] ?k"
    using root_okpos [OF w] by (intro delete_wf) (auto intro: fuel_ok_le)
  then obtain d n' where g: "delete_node db (tr_cachegen t) (length ?k) (tr_root t) [] ?k = Inr (d, n')"
    "okpos db n' ?k" "removes db (tr_root t) n' ?k" unfolding delete_ok_def by blast
  let ?t = "t\<lparr>tr_root := n'\<rparr>"
  have w': "trie_wf db ?t" using okpos_root [OF g(2)] by (simp add: trie_wf_def)
  have sk: "same_keys t ?t" by (simp add: same_keys_def)
  have "trie_map db ?t = (trie_map db t)(k := None)"
    using g(3) trie_map_has [OF w] by (intro trie_map_eqI [OF w w' sk]) (auto simp: removes_def full_key_inj)
  then show ?thesis using g(1,3) w' by blast
qed

lemma del_spec:
  assumes "trie_wf db t"
  shows "\<exists>t'. TryDelete db t k = (Inr (), t') \<and> trie_wf db t' \<and> trie_map db t' = (trie_map db t)(k := None) \<and> same_keys t t'
    \<and> removes db (tr_root t) (tr_root t') (hexof t k)"
  using delete_root [OF assms, of k] by (auto simp: TryDelete_def Let_def same_keys_def)

lemma put_empty_spec:
  assumes "trie_wf db t"
  shows "\<exists>t'. TryUpdate db t k [] = (Inr (), t') \<and> trie_wf db t' \<and> trie_map db t' = (trie_map db t)(k := None) \<and> same_keys t t'"
  using delete_root [OF assms, of k] by (auto simp: TryUpdate_def Let_def same_keys_def)

section \<open>Content determines the nodes\<close>

lemma has_hexkey: "wfn db n \<Longrightarrow> has db n k v \<Longrightarrow> hexkey k \<and> v \<noteq> []"
proof (induction arbitrary: k v rule: wfn.induct)
  case (WfLeaf k' v' fl)
  then show ?case by (auto simp: has_Short)
next
  case (WfExt k' val fl)
  then show ?case by (auto simp: has_Short hexkey_append)
next
  case (WfFull cs fl)
  then obtain x key where k: "k = x # key" "unat x < 17" "has db (cs ! unat x) key v" by (auto simp: has_Full)
  show ?case
  proof (cases "unat x = 16")
    case True
    then have "x = 16" by (simp add: word_unat_eq_iff)
    with k True WfFull.hyps show ?thesis by (auto simp: hexkey_Cons)
  next
    case False
    then have "unat x < 16" "cs ! unat x \<noteq> NilNode" using k by auto
    with WfFull.IH k show ?thesis by (auto simp: hexkey_Cons word_less_nat_alt)
  qed
next
  case (WfHash h enc g n)
  then show ?case using has_Hash_decoded by blast
qed

lemma value_nonempty: "\<exists>k w. has db (ValueNode v) k w"
  by auto

lemma wf_nonempty: "wfn db n \<Longrightarrow> \<exists>k v. has db n k v"
proof (induction rule: wfn.induct)
  case (WfLeaf k v fl)
  then show ?case by (auto simp: has_Short)
next
  case (WfExt k val fl)
  then show ?case by (metis has_Short_append)
next
  case (WfFull cs fl)
  then have "nonnil cs \<noteq> 0" by simp
  then obtain j where j: "j < 17" "cs ! j \<noteq> NilNode" using WfFull.hyps(1) by (auto simp: nonnil_0)
  have "\<exists>k v. has db (cs ! j) k v"
  proof (cases "j = 16")
    case True
    then obtain v where "cs ! j = ValueNode v" using WfFull.hyps(2) j by auto
    then show ?thesis using value_nonempty by metis
  next
    case False
    then show ?thesis using WfFull.IH j by auto
  qed
  then obtain k v where "has db (cs ! j) k v" by blast
  then have "has db (FullNode cs fl) (word_of_nat j # k) v"
    using j WfFull.hyps(1) by (simp add: unat_of_nat_byte)
  then show ?case by blast
next
  case (WfHash h enc g n)
  then show ?case using has_Hash_decoded by blast
qed

lemma child_nonempty:
  assumes "wfn db (FullNode cs fl)" and "j < 17" and "cs ! j \<noteq> NilNode"
  shows "\<exists>k v. has db (cs ! j) k v"
proof (cases "j = 16")
  case True
  then obtain v where "cs ! j = ValueNode v" using assms by (auto simp: wf_Full)
  then show ?thesis using value_nonempty by metis
next
  case False
  then show ?thesis using assms wf_nonempty by (auto simp: wf_Full)
qed

text \<open>\<open>expands db n e\<close>: \<open>e\<close> is \<open>n\<close> with every hash replaced by the node it stands for, and without
  cache flags.\<close>

inductive expands :: "database \<Rightarrow> node \<Rightarrow> node \<Rightarrow> bool" for db where
  ExpNil: "expands db NilNode NilNode"
| ExpValue: "expands db (ValueNode v) (ValueNode v)"
| ExpShort: "expands db val e \<Longrightarrow> expands db (ShortNode k val fl) (ShortNode k e no_flag)"
| ExpFull: "\<lbrakk>length es = length cs; \<forall>i < length cs. expands db (cs ! i) (es ! i)\<rbrakk>
    \<Longrightarrow> expands db (FullNode cs fl) (FullNode es no_flag)"
| ExpHash: "\<lbrakk>db h = Some enc; decodeNode (Some h) enc g = Inr n; expands db n e\<rbrakk> \<Longrightarrow> expands db (HashNode h) e"

inductive_simps expands_Nil [simp]: "expands db NilNode e"
inductive_simps expands_Value [simp]: "expands db (ValueNode v) e"
inductive_simps expands_Short: "expands db (ShortNode k val fl) e"
inductive_simps expands_Full: "expands db (FullNode cs fl) e"
inductive_simps expands_Hash: "expands db (HashNode h) e"

lemma expands_same: "expands db n e \<Longrightarrow> same n n' \<Longrightarrow> expands db n' e"
proof (induction arbitrary: n' rule: expands.induct)
  case (ExpShort val e k fl)
  then show ?case using same_Short [of n' k val fl] by (auto intro: expands.ExpShort)
next
  case (ExpFull es cs fl)
  then obtain cs' fl' where n': "n' = FullNode cs' fl'" "map strip cs' = map strip cs"
    using same_Full [of n' cs fl] by auto
  have len: "length cs' = length cs" using n'(2) by (metis length_map)
  have "expands db (cs' ! i) (es ! i)" if "i < length cs'" for i
    using ExpFull.IH map_strip_nth [OF n'(2), of i] that len by simp
  then show ?case unfolding n'(1) using ExpFull.hyps(1) len by (intro expands.ExpFull) simp_all
next
  case (ExpHash h enc g n e)
  then show ?case by (auto intro: expands.ExpHash)
qed auto

lemma expands_Hash_decoded:
  assumes "db h = Some enc" and "decodeNode (Some h) enc g = Inr n"
  shows "expands db (HashNode h) e \<longleftrightarrow> expands db n e"
proof
  assume "expands db (HashNode h) e"
  then obtain g' n' where n': "decodeNode (Some h) enc g' = Inr n'" "expands db n' e"
    using assms(1) by (auto simp: expands_Hash)
  from decodeNode_gen [OF n'(1), of g] assms(2) expands_same [OF n'(2)] show "expands db n e" by auto
qed (rule ExpHash [of db h, OF assms])

lemma expands_exists: "wfn db n \<Longrightarrow> \<exists>e. expands db n e"
proof (induction rule: wfn.induct)
  case (WfLeaf k v fl)
  then show ?case by (auto simp: expands_Short)
next
  case (WfExt k val fl)
  then show ?case by (auto simp: expands_Short)
next
  case (WfFull cs fl)
  have "\<exists>e. expands db (cs ! i) e" if "i < 17" for i
  proof (cases "i = 16")
    case True
    then show ?thesis using WfFull.hyps(2) by auto
  next
    case False
    then show ?thesis using WfFull.IH that by (cases "cs ! i = NilNode") auto
  qed
  then obtain f where f: "\<forall>i < 17. expands db (cs ! i) (f i)" by metis
  have "expands db (FullNode cs fl) (FullNode (map f [0..<17]) no_flag)"
    using f WfFull.hyps(1) by (intro expands.ExpFull) simp_all
  then show ?case by blast
next
  case (WfHash h enc g n)
  then show ?case by (auto intro: expands.ExpHash)
qed

text \<open>A hash can be traded for the node it stands for.\<close>

lemma resolve_expands:
  assumes "wfn db n" and "expands db n e"
  shows "\<exists>n'. branching n' \<and> wfn db n' \<and> eqv db n n' \<and> expands db n' e \<and> (fullish db n \<longrightarrow> fullish db n')"
proof (cases "branching n")
  case True
  then show ?thesis using assms eqv_refl by blast
next
  case False
  then obtain h where HashNode: "n = HashNode h" using assms(1) by (cases n) auto
  with assms obtain enc g n' where d: "db h = Some enc" "decodeNode (Some h) enc g = Inr n'" "wfn db n'"
    by (auto simp: wf_Hash)
  have "expands db n' e" using expands_Hash_decoded [of db h, OF d(1,2)] assms(2) HashNode by simp
  moreover have "eqv db n n'" using has_Hash_decoded [of db h, OF d(1,2)] HashNode by (simp add: eqv_def)
  moreover have "branching n'" by (rule decodeNode_branching [OF d(2)])
  moreover have "fullish db n'" if full: "fullish db n"
  proof -
    from full HashNode d(1) obtain g2 cs fl where "decodeNode (Some h) enc g2 = Inr (FullNode cs fl)" by (auto simp: fullish_def)
    from decodeNode_gen [OF this, of g] d(2) show ?thesis using fullish_same [of db "FullNode cs fl" n'] by auto
  qed
  ultimately show ?thesis using d(3) by blast
qed

text \<open>A full node does not continue with one nibble only.\<close>

lemma Full_two:
  assumes w: "wfn db (FullNode cs fl)"
  shows "\<exists>y k v. y \<noteq> x \<and> has db (FullNode cs fl) (y # k) v"
proof -
  have len: "length cs = 17" and two: "2 \<le> nonnil cs" using w by (auto simp: wf_Full)
  have "1 \<le> nonnil (cs[unat x := NilNode])"
  proof (cases "unat x < length cs")
    case True
    then show ?thesis using nonnil_update [OF True, of NilNode] two by (auto split: if_splits)
  qed (use two in \<open>simp add: list_update_beyond\<close>)
  then obtain j where j: "j < 17" "cs[unat x := NilNode] ! j \<noteq> NilNode"
    using nonnil_0 [of "cs[unat x := NilNode]"] len by auto
  then have nx: "j \<noteq> unat x" using len by auto
  then have "cs ! j \<noteq> NilNode" using j(2) by simp
  with child_nonempty [OF w j(1)] obtain k v where k: "has db (cs ! j) k v" by blast
  let ?y = "word_of_nat j :: byte"
  have "unat ?y = j" using j(1) by (simp add: unat_of_nat_byte)
  then have "?y \<noteq> x" "has db (FullNode cs fl) (?y # k) v" using k j(1) len nx by auto
  then show ?thesis by blast
qed

lemma fullish_two:
  assumes "wfn db n" and "fullish db n"
  shows "\<exists>y k v. y \<noteq> x \<and> has db n (y # k) v"
proof -
  from expands_exists [OF assms(1)] obtain e where "expands db n e" ..
  from resolve_expands [OF assms(1) this] assms(2) obtain n' where
    "branching n'" "wfn db n'" "eqv db n n'" "fullish db n'" by blast
  moreover then obtain cs fl where "n' = FullNode cs fl" by (cases n') auto
  ultimately show ?thesis using Full_two [of db cs fl x] by (auto simp: eqv_def)
qed

lemma ext_two:
  assumes "wfn db val" and "fullish db val"
  shows "\<exists>a b v w. a \<noteq> b \<and> has db (ShortNode k val fl) a v \<and> has db (ShortNode k val fl) b w"
proof -
  from fullish_two [OF assms] obtain y r v where y: "has db val (y # r) v" by blast
  from fullish_two [OF assms, of y] obtain y' r' v' where "y' \<noteq> y" "has db val (y' # r') v'" by blast
  with y show ?thesis
    by (intro exI [of _ "k @ y # r"] exI [of _ "k @ y' # r'"] exI [of _ v] exI [of _ v']) simp
qed

lemma Full_has_two:
  assumes "wfn db (FullNode cs fl)"
  shows "\<exists>a b v w. a \<noteq> b \<and> has db (FullNode cs fl) a v \<and> has db (FullNode cs fl) b w"
proof -
  from Full_two [OF assms] obtain y r v where y: "has db (FullNode cs fl) (y # r) v" by blast
  from Full_two [OF assms, of y] obtain y' r' v' where "y' \<noteq> y" "has db (FullNode cs fl) (y' # r') v'" by blast
  with y show ?thesis by (intro exI [of _ "y # r"] exI [of _ "y' # r'"] exI [of _ v] exI [of _ v']) simp
qed

lemma eqv_fragment:
  assumes val: "wfn db val" "fullish db val" and e: "eqv db (ShortNode k val fl) (ShortNode (k @ us) val' fl')"
  shows "us = []"
proof (rule ccontr)
  assume "us \<noteq> []"
  then obtain x us' where us: "us = x # us'" by (cases us) auto
  from fullish_two [OF val, of x] obtain y r v where "y \<noteq> x" "has db val (y # r) v" by blast
  then have "has db (ShortNode (k @ us) val' fl') (k @ y # r) v" using e has_Short_append [of db k val fl] by (metis eqv_def)
  then show False using us \<open>y \<noteq> x\<close> by (auto simp: has_Short)
qed

lemma eqv_sym: "eqv db n n' \<Longrightarrow> eqv db n' n"
  by (simp add: eqv_def)

lemma eqv_ext:
  assumes w1: "wfn db val1" "fullish db val1" and w2: "wfn db val2" "fullish db val2"
    and e: "eqv db (ShortNode k1 val1 fl1) (ShortNode k2 val2 fl2)"
  shows "k1 = k2 \<and> eqv db val1 val2"
proof -
  from wf_nonempty [OF w1(1)] obtain r v where "has db val1 r v" by blast
  then have "has db (ShortNode k2 val2 fl2) (k1 @ r) v" using e has_Short_append [of db k1 val1 fl1] by (metis eqv_def)
  then obtain t where "k1 @ r = k2 @ t" by (auto simp: has_Short)
  then obtain us where "k1 = k2 @ us \<or> k2 = k1 @ us" by (auto simp: append_eq_append_conv2)
  then have k: "k1 = k2"
  proof
    assume k1: "k1 = k2 @ us"
    have "us = []" using eqv_fragment [OF w2] eqv_sym [OF e] unfolding k1 .
    with k1 show ?thesis by simp
  next
    assume k2: "k2 = k1 @ us"
    have "us = []" using eqv_fragment [OF w1] e unfolding k2 .
    with k2 show ?thesis by simp
  qed
  have "has db val1 key v \<longleftrightarrow> has db val2 key v" for key v
    using e has_Short_append [of db k1] unfolding eqv_def k [symmetric] by metis
  with k show ?thesis by (simp add: eqv_def)
qed

text \<open>Uniqueness, by induction on the first node; the second may be taken to be a short or full
  node.\<close>

definition unique_at :: "database \<Rightarrow> node \<Rightarrow> bool" where
  "unique_at db n1 \<longleftrightarrow> (\<forall>n2 e1 e2. wfn db n2 \<and> eqv db n1 n2 \<and> expands db n1 e1 \<and> expands db n2 e2 \<longrightarrow> e1 = e2)"

lemma unique_atI:
  assumes "\<And>n2 e1 e2. \<lbrakk>branching n2; wfn db n2; eqv db n1 n2; expands db n1 e1; expands db n2 e2\<rbrakk> \<Longrightarrow> e1 = e2"
  shows "unique_at db n1"
  unfolding unique_at_def
proof (intro allI impI)
  fix n2 e1 e2 assume h: "wfn db n2 \<and> eqv db n1 n2 \<and> expands db n1 e1 \<and> expands db n2 e2"
  with resolve_expands [of db n2 e2] obtain n' where
    "branching n'" "wfn db n'" "eqv db n2 n'" "expands db n' e2" by blast
  moreover have "eqv db n1 n'" using h calculation(3) by (simp add: eqv_def)
  ultimately show "e1 = e2" using assms h by blast
qed

lemma unique_leaf:
  assumes "hexkey k" and "v \<noteq> []"
  shows "unique_at db (ShortNode k (ValueNode v) fl)"
proof (rule unique_atI)
  fix n2 e1 e2
  assume n2: "branching n2" "wfn db n2" and e: "eqv db (ShortNode k (ValueNode v) fl) n2"
    and x: "expands db (ShortNode k (ValueNode v) fl) e1" "expands db n2 e2"
  have has: "has db n2 a w \<longleftrightarrow> a = k \<and> w = v" for a w using e by (auto simp: eqv_def has_Short)
  have one: "\<not> (\<exists>a b v w. a \<noteq> b \<and> has db n2 a v \<and> has db n2 b w)" by (simp add: has)
  show "e1 = e2"
  proof (cases n2)
    case (ShortNode k2 val2 fl2)
    with n2(2) one ext_two [of db val2 k2 fl2] obtain v2 where v2: "val2 = ValueNode v2" by (auto simp: wf_Short)
    have "has db n2 (k2 @ []) v2" unfolding ShortNode v2 by (simp only: has_Short_append) simp
    then show ?thesis using has x ShortNode v2 by (auto simp: expands_Short)
  next
    case (FullNode cs2 fl2)
    then show ?thesis using n2(2) one Full_has_two [of db cs2 fl2] by blast
  qed (use n2(1) in auto)
qed

lemma unique_ext:
  assumes k: "nibbles k" "k \<noteq> []" and val: "wfn db val" "fullish db val" and IH: "unique_at db val"
  shows "unique_at db (ShortNode k val fl)"
proof (rule unique_atI)
  fix n2 e1 e2
  assume n2: "branching n2" "wfn db n2" and e: "eqv db (ShortNode k val fl) n2"
    and x: "expands db (ShortNode k val fl) e1" "expands db n2 e2"
  show "e1 = e2"
  proof (cases n2)
    case (ShortNode k2 val2 fl2)
    have "\<not> (\<exists>v. val2 = ValueNode v)"
    proof
      assume "\<exists>v. val2 = ValueNode v"
      then obtain v where "val2 = ValueNode v" ..
      then have "has db n2 a w \<Longrightarrow> a = k2" for a w unfolding ShortNode by (auto simp: has_Short)
      then show False using ext_two [OF val, of k fl] e by (metis eqv_def)
    qed
    with n2(2) have w2: "wfn db val2" "fullish db val2" unfolding ShortNode by (auto simp: wf_Short)
    from eqv_ext [OF val w2 e [unfolded ShortNode]] have "k = k2" "eqv db val val2" by auto
    then show ?thesis using x IH w2(1) unfolding ShortNode unique_at_def by (auto simp: expands_Short)
  next
    case (FullNode cs2 fl2)
    from Full_two [of db cs2 fl2 "hd k"] n2(2) FullNode obtain y r w where "y \<noteq> hd k" "has db n2 (y # r) w" by blast
    then have "has db (ShortNode k val fl) (y # r) w" using e by (simp add: eqv_def)
    then show ?thesis using k(2) \<open>y \<noteq> hd k\<close> by (cases k) (auto simp: has_Short)
  qed (use n2(1) in auto)
qed

lemma eqv_Full_children:
  assumes "eqv db (FullNode cs fl) (FullNode cs' fl')" and "length cs = 17" "length cs' = 17" and "i < 17"
  shows "eqv db (cs ! i) (cs' ! i)"
  unfolding eqv_def
proof (intro allI)
  fix k v
  let ?b = "word_of_nat i :: byte"
  have u: "unat ?b = i" using assms(4) by (simp add: unat_of_nat_byte)
  have "has db (FullNode cs fl) (?b # k) v = has db (FullNode cs' fl') (?b # k) v"
    using assms(1) unfolding eqv_def by blast
  then show "has db (cs ! i) k v = has db (cs' ! i) k v"
    using assms(2-4) unfolding has_Full_Cons u by simp
qed

lemma unique_Full:
  assumes w: "wfn db (FullNode cs fl)" and IH: "\<forall>i < 16. cs ! i \<noteq> NilNode \<longrightarrow> unique_at db (cs ! i)"
  shows "unique_at db (FullNode cs fl)"
proof (rule unique_atI)
  fix n2 e1 e2
  assume n2: "branching n2" "wfn db n2" and e: "eqv db (FullNode cs fl) n2"
    and x: "expands db (FullNode cs fl) e1" "expands db n2 e2"
  show "e1 = e2"
  proof (cases n2)
    case (ShortNode k2 val2 fl2)
    with n2(2) have k2: "k2 \<noteq> []" by (auto simp: wf_Short)
    from Full_two [OF w, of "hd k2"] obtain y r v where "y \<noteq> hd k2" "has db (FullNode cs fl) (y # r) v" by blast
    then have "has db (ShortNode k2 val2 fl2) (y # r) v" using e ShortNode unfolding eqv_def by blast
    then show ?thesis using k2 \<open>y \<noteq> hd k2\<close> by (cases k2) (auto simp: has_Short)
  next
    case (FullNode cs2 fl2)
    note w2 = n2(2) [unfolded FullNode]
    have len: "length cs = 17" "length cs2 = 17" using w w2 by (auto simp: wf_Full)
    obtain es1 es2 where es: "e1 = FullNode es1 no_flag" "e2 = FullNode es2 no_flag" "length es1 = 17" "length es2 = 17"
      "\<forall>i < 17. expands db (cs ! i) (es1 ! i)" "\<forall>i < 17. expands db (cs2 ! i) (es2 ! i)"
      using x unfolding FullNode by (auto simp: expands_Full len)
    have "es1 ! i = es2 ! i" if i: "i < 17" for i
    proof -
      have ev: "eqv db (cs ! i) (cs2 ! i)" by (rule eqv_Full_children [OF e [unfolded FullNode] len i])
      have nil: "cs ! i = NilNode \<longleftrightarrow> cs2 ! i = NilNode"
        using child_nonempty [OF w i] child_nonempty [OF w2 i] ev by (metis eqv_def has_Nil)
      consider "cs ! i = NilNode" | "cs ! i \<noteq> NilNode" "i = 16" | "cs ! i \<noteq> NilNode" "i < 16" using i by linarith
      then show ?thesis
      proof cases
        case 1
        then show ?thesis using nil es(5,6) i by (metis expands_Nil)
      next
        case 2
        then obtain v v2 where "cs ! i = ValueNode v" "cs2 ! i = ValueNode v2" using w w2 nil by (auto simp: wf_Full)
        moreover then have "v = v2" using ev by (auto simp: eqv_def)
        ultimately show ?thesis using es(5,6) i by (metis expands_Value)
      next
        case 3
        then have "wfn db (cs2 ! i)" using w2 nil by (auto simp: wf_Full)
        then show ?thesis using 3 IH ev es(5,6) i unfolding unique_at_def by blast
      qed
    qed
    then show ?thesis using es(1-4) by (simp add: list_eq_iff_nth_eq)
  qed (use n2(1) in auto)
qed

lemma wf_unique: "wfn db n \<Longrightarrow> unique_at db n"
proof (induction rule: wfn.induct)
  case (WfFull cs fl)
  then show ?case by (intro unique_Full wfn.WfFull) auto
next
  case (WfHash h enc g n)
  then show ?case unfolding unique_at_def
    using has_Hash_decoded [of db h, OF WfHash.hyps(1,2)] expands_Hash_decoded [of db h, OF WfHash.hyps(1,2)] by (simp add: eqv_def)
qed (auto intro: unique_leaf unique_ext)

definition trie_shape :: "database \<Rightarrow> trie \<Rightarrow> node set" where
  "trie_shape db t = {e. expands db (tr_root t) e}"

lemma shape_unique:
  assumes w: "trie_wf db t" "trie_wf db t'" and sk: "same_keys t t'"
    and e: "\<And>k v. has db (tr_root t) k v \<longleftrightarrow> has db (tr_root t') k v"
  shows "trie_shape db t = trie_shape db t'"
proof (cases "tr_root t = NilNode \<or> tr_root t' = NilNode")
  case True
  have "tr_root t = NilNode \<longleftrightarrow> tr_root t' = NilNode"
    using e w wf_nonempty unfolding trie_wf_def by (metis has_Nil)
  with True show ?thesis by (simp add: trie_shape_def)
next
  case False
  with w have wf: "wfn db (tr_root t)" "wfn db (tr_root t')" by (auto simp: trie_wf_def)
  have ev: "eqv db (tr_root t) (tr_root t')" using e by (simp add: eqv_def)
  obtain e1 e2 where x: "expands db (tr_root t) e1" "expands db (tr_root t') e2" using expands_exists wf by blast
  have "y = e1" if "expands db (tr_root t') y" for y
    using wf_unique [OF wf(1)] wf(2) ev x(1) that unfolding unique_at_def by blast
  moreover have "y = e2" if "expands db (tr_root t) y" for y
    using wf_unique [OF wf(2)] wf(1) eqv_sym [OF ev] x(2) that unfolding unique_at_def by blast
  ultimately show ?thesis using x unfolding trie_shape_def by blast
qed

section \<open>The trie as a store\<close>

definition trie_put :: "database \<Rightarrow> trie \<Rightarrow> bytes \<Rightarrow> bytes \<Rightarrow> trie" where
  "trie_put db t k v = snd (TryUpdate db t k v)"

definition trie_del :: "database \<Rightarrow> trie \<Rightarrow> bytes \<Rightarrow> trie" where
  "trie_del db t k = snd (TryDelete db t k)"

text \<open>Tries with the same key prefix and the same content outside of it.\<close>

definition compatible_tries :: "database \<Rightarrow> trie \<Rightarrow> trie \<Rightarrow> bool" where
  "compatible_tries db t t' \<longleftrightarrow> same_keys t t' \<and>
     (\<forall>k v. (\<nexists>key. k = hexof t key) \<longrightarrow> has db (tr_root t) k v = has db (tr_root t') k v)"

lemma put_facts:
  assumes "trie_wf db t" and "v \<noteq> []"
  shows "trie_wf db (trie_put db t k v)" "trie_map db (trie_put db t k v) = (trie_map db t)(k \<mapsto> v)"
    "same_keys t (trie_put db t k v)" "stores db (tr_root t) (tr_root (trie_put db t k v)) (hexof t k) v"
  using put_spec [OF assms, of k] by (auto simp: trie_put_def)

lemma del_facts:
  assumes "trie_wf db t"
  shows "trie_wf db (trie_del db t k)" "trie_map db (trie_del db t k) = (trie_map db t)(k := None)"
    "same_keys t (trie_del db t k)" "removes db (tr_root t) (tr_root (trie_del db t k)) (hexof t k)"
  using del_spec [OF assms, of k] by (auto simp: trie_del_def)

interpretation trie_kv: kv_store "trie_map db" "trie_put db" "trie_del db" "trie_wf db" "\<lambda>v. v \<noteq> []" for db
  by unfold_locales (auto simp: put_facts del_facts)

lemma shape_canonical:
  assumes w: "trie_wf db t" "trie_wf db t'" and c: "compatible_tries db t t'" and m: "trie_map db t = trie_map db t'"
  shows "trie_shape db t = trie_shape db t'"
proof (rule shape_unique [OF w])
  show sk: "same_keys t t'" using c by (simp add: compatible_tries_def)
  fix k v
  show "has db (tr_root t) k v \<longleftrightarrow> has db (tr_root t') k v"
  proof (cases "\<exists>key. k = hexof t key")
    case True
    then obtain key where k: "k = hexof t key" ..
    have "has db (tr_root t) k v \<longleftrightarrow> trie_map db t key = Some v" using trie_map_has [OF w(1)] k by simp
    moreover have "has db (tr_root t') k v \<longleftrightarrow> trie_map db t' key = Some v"
      using trie_map_has [OF w(2), of key v] k full_key_same [OF sk] by simp
    ultimately show ?thesis using m by simp
  next
    case False
    then show ?thesis using c by (simp add: compatible_tries_def)
  qed
qed

lemma hexof_same: "same_keys t t' \<Longrightarrow> hexof t' k = hexof t k"
  by (simp add: full_key_same)

interpretation trie_canonical: canonical_store "trie_map db" "trie_put db" "trie_del db" "trie_wf db" "\<lambda>v. v \<noteq> []"
  "compatible_tries db" "trie_shape db" for db
proof
  fix t t' :: trie and k v :: bytes
  show "compatible_tries db t t" by (simp add: compatible_tries_def same_keys_def)
  { assume w: "trie_wf db t" and v: "v \<noteq> []" and c: "compatible_tries db t t'"
    show "compatible_tries db (trie_put db t k v) t'"
      using c put_facts(3,4) [OF w v, of k] hexof_same [OF put_facts(3) [OF w v, of k]]
      by (auto simp: compatible_tries_def same_keys_def stores_def) }
  { assume w: "trie_wf db t" and c: "compatible_tries db t t'"
    show "compatible_tries db (trie_del db t k) t'"
      using c del_facts(3,4) [OF w, of k] hexof_same [OF del_facts(3) [OF w, of k]]
      by (auto simp: compatible_tries_def same_keys_def removes_def) }
  { assume c: "compatible_tries db t t'"
    then show "compatible_tries db t' t"
      using hexof_same [of t t'] by (auto simp: compatible_tries_def same_keys_def) }
qed (rule shape_canonical)

section \<open>The empty trie\<close>

definition empty_trie :: trie where
  "empty_trie = \<lparr>tr_root = NilNode, tr_originalRoot = emptyRoot, tr_prefix = None, tr_cachegen = 0, tr_cachelimit = 0\<rparr>"

lemma empty_trie_wf [simp]: "trie_wf db empty_trie"
  by (simp add: trie_wf_def empty_trie_def)

section \<open>Properties\<close>

text \<open>C11.  On a canonical trie \<open>TryGet\<close> does not fail and finds exactly what the nodes say, which
  \<open>has\<close> reads off them without searching: it returns a value if and only if some path from the root,
  through hashes resolved in the database, spells the nibbles of the key and ends in that value.  It
  leaves a canonical trie with the same paths, whatever nodes it loads on the way.\<close>

theorem TryGet_refines:
  assumes "trie_wf db t"
  shows "\<exists>vo t'. TryGet db t k = (Inr vo, t') \<and>
    (\<forall>v. vo = Some v \<longleftrightarrow> has db (tr_root t) (keybytesToHex (full_key t k)) v) \<and>
    trie_wf db t' \<and> same_keys t t' \<and> (\<forall>path v. has db (tr_root t') path v \<longleftrightarrow> has db (tr_root t) path v)"
proof -
  from TryGet_result [OF assms, of k] obtain vo n' where
    "fst (TryGet db t k) = Inr vo" "snd (TryGet db t k) = t\<lparr>tr_root := n'\<rparr>"
    "\<forall>v. vo = Some v \<longleftrightarrow> has db (tr_root t) (hexof t k) v" "n' = NilNode \<or> wfn db n'" "eqv db (tr_root t) n'" by blast
  then show ?thesis
    by (intro exI [of _ vo] exI [of _ "t\<lparr>tr_root := n'\<rparr>"]) (auto simp: prod_eq_iff trie_wf_def same_keys_def eqv_def)
qed

definition branch_trie :: trie where
  "branch_trie = empty_trie\<lparr>tr_root := FullNode ((replicate 17 NilNode)
     [1 := ShortNode [2, 16] (ValueNode [7]) no_flag, 3 := ShortNode [4, 16] (ValueNode [8]) no_flag]) no_flag\<rparr>"

lemma branch_trie_wf: "trie_wf db branch_trie"
proof -
  let ?cs = "(replicate 17 NilNode)[1 := ShortNode [2, 16] (ValueNode [7]) no_flag, 3 := ShortNode [4, 16] (ValueNode [8]) no_flag]"
  have leaf: "wfn db (ShortNode [x, 16] (ValueNode [v]) no_flag)" if "x < 16" for x v
    using that by (simp add: wf_Short hexkey_Cons)
  have "2 \<le> nonnil ?cs" by (simp add: nonnil_def numeral_eq_Suc)
  moreover have "wfn db (?cs ! i)" if "i < 16" "?cs ! i \<noteq> NilNode" for i
    using that leaf [of 2 7] leaf [of 4 8] by (cases "i = 1"; cases "i = 3") (simp_all add: nth_list_update)
  ultimately show ?thesis unfolding branch_trie_def trie_wf_def by (simp add: wf_Full)
qed

theorem TryGet_refines_witness:
  "\<exists>t1 t2. TryGet Map.empty branch_trie [0x34] = (Inr (Some [8]), t1) \<and> TryGet Map.empty branch_trie [0x14] = (Inr None, t2)"
proof -
  have key: "keybytesToHex (full_key branch_trie [0x34]) = [3, 4, 16]" "keybytesToHex (full_key branch_trie [0x14]) = [1, 4, 16]"
    by (simp_all add: branch_trie_def empty_trie_def full_key_def keybytesToHex_def)
  have "has Map.empty (tr_root branch_trie) [3, 4, 16] [8]" "\<not> has Map.empty (tr_root branch_trie) [1, 4, 16] v" for v
    by (simp_all add: branch_trie_def has_Short)
  with TryGet_refines [OF branch_trie_wf, of Map.empty "[0x34]"] TryGet_refines [OF branch_trie_wf, of Map.empty "[0x14]"]
  show ?thesis unfolding key by (metis not_Some_eq)
qed

text \<open>C12.  On a canonical trie \<open>TryUpdate\<close> does not fail, maps the key to the value, or removes it when
  the value is empty, changes no other key, and leaves a canonical trie.\<close>

theorem TryUpdate_refines:
  assumes "trie_wf db t"
  shows "\<exists>t'. TryUpdate db t k v = (Inr (), t') \<and> trie_wf db t'
    \<and> trie_map db t' = (trie_map db t)(k := if v = [] then None else Some v)"
  using put_spec [OF assms, of v k] put_empty_spec [OF assms, of k] by (cases "v = []") auto

theorem TryUpdate_refines_witness:
  "\<exists>t'. TryUpdate Map.empty empty_trie [1] [5] = (Inr (), t') \<and> trie_map Map.empty t' [1] = Some [5]"
  using TryUpdate_refines [OF empty_trie_wf, of Map.empty "[1]" "[5]"] by auto

text \<open>C13.  On a canonical trie \<open>TryDelete\<close> does not fail, removes the key and no other, and leaves a
  canonical trie: nodes that become superfluous are merged.\<close>

theorem TryDelete_refines:
  assumes "trie_wf db t"
  shows "\<exists>t'. TryDelete db t k = (Inr (), t') \<and> trie_wf db t' \<and> trie_map db t' = (trie_map db t)(k := None)"
  using del_spec [OF assms] by blast

theorem TryDelete_refines_witness:
  "\<exists>t'. TryDelete Map.empty empty_trie [1] = (Inr (), t') \<and> trie_map Map.empty t' [1] = None"
  using TryDelete_refines [OF empty_trie_wf, of Map.empty "[1]"] by auto

text \<open>C14.  The nodes of a trie depend on its content only: two sequences of updates and deletions
  with the same outcome on the map leave tries that are equal once every hash is resolved.\<close>

theorem trie_history_independent:
  assumes "trie_wf db t" and "\<forall>p \<in> set ops. kv_store.storable_op (\<lambda>v. v \<noteq> []) p"
    and "\<forall>p \<in> set ops'. kv_store.storable_op (\<lambda>v. v \<noteq> []) p"
    and "spec_run ops (trie_map db t) = spec_run ops' (trie_map db t)"
  shows "trie_shape db (kv_store.run (trie_put db) (trie_del db) ops t) =
    trie_shape db (kv_store.run (trie_put db) (trie_del db) ops' t)"
  by (rule trie_canonical.history_independent [OF assms])

theorem trie_history_independent_witness:
  "trie_shape Map.empty (trie_put Map.empty (trie_put Map.empty empty_trie [1] [5]) [2] [6]) =
   trie_shape Map.empty (trie_put Map.empty (trie_put Map.empty empty_trie [2] [6]) [1] [5])"
  using trie_history_independent [OF empty_trie_wf, of "[Put [1] [5], Put [2] [6]]" "[Put [2] [6], Put [1] [5]]" Map.empty]
  by (simp add: trie_kv.storable_op.simps trie_kv.run.simps trie_kv.run_op.simps fun_upd_twist)

end
