(* ===== verification/Trie_Hasher.thy ===== *)
theory Trie_Hasher
  imports Trie_Map Rlp_Encode
begin

text \<open>
  Hashing and committing a trie (\<open>src/trie/hasher.go\<close>, \<open>Hash\<close>, \<open>Commit\<close> and \<open>CommitTo\<close> of
  \<open>src/trie/trie.go\<close>).  Keccak-256 is the argument \<open>kec\<close>.  The database writer is an argument too:
  \<open>None\<close> is the nil writer of \<open>Hash\<close>; otherwise \<open>Put\<close> changes the stored database or fails.
  Hashing returns the hash and a copy of the nodes with the hashes filled into the cache
  flags; nodes that are clean and old enough are replaced by their hash when they are
  committed.
\<close>

type_synonym writer = "bytes \<Rightarrow> bytes \<Rightarrow> database \<Rightarrow> trie_error + database"

definition db_put :: "writer \<Rightarrow> bytes \<Rightarrow> bytes \<Rightarrow> database \<Rightarrow> (trie_error + unit) \<times> database" where
  "db_put put k v db = (case put k v db of Inl e \<Rightarrow> (Inl e, db) | Inr db' \<Rightarrow> (Inr (), db'))"

text \<open>What \<open>rlp.Encode\<close> writes for a node: the exported fields of a short node, the children of a
  full node, bytes for hashes and values.\<close>

fun node_rval :: "node \<Rightarrow> rval" where
  "node_rval NilNode = NilIfaceV"
| "node_rval (FullNode cs fl) = ListV (map node_rval cs)"
| "node_rval (ShortNode k val fl) = ListV [BytesV k, node_rval val]"
| "node_rval (HashNode h) = BytesV h"
| "node_rval (ValueNode v) = BytesV v"

fun is_hash :: "node \<Rightarrow> bool" where
  "is_hash (HashNode h) = True"
| "is_hash _ = False"

fun is_value :: "node \<Rightarrow> bool" where
  "is_value (ValueNode v) = True"
| "is_value _ = False"

definition store :: "(bytes \<Rightarrow> bytes) \<Rightarrow> writer option \<Rightarrow> node \<Rightarrow> bool \<Rightarrow> database \<Rightarrow> (trie_error + node) \<times> database" where
  "store kec w n force db =
     (if n = NilNode \<or> is_hash n then (Inr n, db)
      else case EncodeToBytes (node_rval n) of
          Inl _ \<Rightarrow> (Inl TriePanic, db)
        | Inr enc \<Rightarrow>
            if length enc < 32 \<and> \<not> force then (Inr n, db)
            else
              let hash = (case fst (node_cache n) of None \<Rightarrow> kec enc | Some h \<Rightarrow> h) in
              case w of
                None \<Rightarrow> (Inr (HashNode hash), db)
              | Some put \<Rightarrow> bind_sr (db_put put hash enc db) (\<lambda>_ db'. (Inr (HashNode hash), db')))"

text \<open>The early returns of \<open>hash\<close> on a node with a cached hash.\<close>

definition hash_cached :: "bool \<Rightarrow> u16 \<Rightarrow> u16 \<Rightarrow> node \<Rightarrow> (node \<times> node) option" where
  "hash_cached nildb gen limit n =
     (case node_cache n of
        (None, _) \<Rightarrow> None
      | (Some h, dirty) \<Rightarrow>
          if nildb then Some (HashNode h, n)
          else if canUnload n gen limit then Some (HashNode h, HashNode h)
          else if \<not> dirty then Some (HashNode h, n)
          else None)"

definition cached_flags :: "bool \<Rightarrow> node \<Rightarrow> nodeFlag \<Rightarrow> nodeFlag" where
  "cached_flags nildb hashed fl =
     (let fl' = fl\<lparr>nf_hash := (case hashed of HashNode h \<Rightarrow> Some h | _ \<Rightarrow> None)\<rparr> in
      if nildb then fl' else fl'\<lparr>nf_dirty := False\<rparr>)"

fun set_cached :: "bool \<Rightarrow> node \<Rightarrow> node \<Rightarrow> node" where
  "set_cached nildb hashed (ShortNode k val fl) = ShortNode k val (cached_flags nildb hashed fl)"
| "set_cached nildb hashed (FullNode cs fl) = FullNode cs (cached_flags nildb hashed fl)"
| "set_cached nildb hashed n = n"

text \<open>\<open>hash_list\<close> is the loop over the children of a full node; the last one is copied.\<close>

function (sequential) hash_node ::
  "(bytes \<Rightarrow> bytes) \<Rightarrow> u16 \<Rightarrow> u16 \<Rightarrow> writer option \<Rightarrow> node \<Rightarrow> bool \<Rightarrow> database \<Rightarrow> (trie_error + node \<times> node) \<times> database"
and hashChildren ::
  "(bytes \<Rightarrow> bytes) \<Rightarrow> u16 \<Rightarrow> u16 \<Rightarrow> writer option \<Rightarrow> node \<Rightarrow> database \<Rightarrow> (trie_error + node \<times> node) \<times> database"
and hash_list ::
  "(bytes \<Rightarrow> bytes) \<Rightarrow> u16 \<Rightarrow> u16 \<Rightarrow> writer option \<Rightarrow> nat \<Rightarrow> node list \<Rightarrow> database \<Rightarrow> (trie_error + node list \<times> node list) \<times> database" where
  "hash_node kec gen limit w NilNode force db = (Inl TriePanic, db)"
| "hash_node kec gen limit w n force db =
     (case hash_cached (w = None) gen limit n of
        Some r \<Rightarrow> (Inr r, db)
      | None \<Rightarrow>
          bind_sr (hashChildren kec gen limit w n db) (\<lambda>(collapsed, cached) db1.
          bind_sr (store kec w collapsed force db1) (\<lambda>hashed db2.
            (Inr (hashed, set_cached (w = None) hashed cached), db2))))"
| "hashChildren kec gen limit w (ShortNode k val fl) db =
     (case hexToCompact k of
        None \<Rightarrow> (Inl TriePanic, db)
      | Some ck \<Rightarrow>
          if is_value val then (Inr (ShortNode ck val fl, ShortNode k val fl), db)
          else bind_sr (hash_node kec gen limit w val False db) (\<lambda>(hashed, cached) db1.
            (Inr (ShortNode ck (if hashed = NilNode then ValueNode [] else hashed) fl, ShortNode k cached fl), db1)))"
| "hashChildren kec gen limit w (FullNode cs fl) db =
     bind_sr (hash_list kec gen limit w 16 cs db) (\<lambda>(collapsed, cached) db1.
       (Inr (FullNode collapsed fl, FullNode cached fl), db1))"
| "hashChildren kec gen limit w n db = (Inr (n, n), db)"
| "hash_list kec gen limit w k [] db = (Inr ([], []), db)"
| "hash_list kec gen limit w 0 (c # cs) db =
     bind_sr (hash_list kec gen limit w 0 cs db) (\<lambda>(collapsed, cached) db1.
       (Inr ((if c = NilNode then ValueNode [] else c) # collapsed, c # cached), db1))"
| "hash_list kec gen limit w (Suc k) (c # cs) db =
     (if c = NilNode then
        bind_sr (hash_list kec gen limit w k cs db) (\<lambda>(collapsed, cached) db1.
          (Inr (ValueNode [] # collapsed, NilNode # cached), db1))
      else
        bind_sr (hash_node kec gen limit w c False db) (\<lambda>(hashed, cached1) db1.
        bind_sr (hash_list kec gen limit w k cs db1) (\<lambda>(collapsed, cached) db2.
          (Inr (hashed # collapsed, cached1 # cached), db2))))"
  by pat_completeness auto
termination
  by (relation "measure (\<lambda>x. case x of
        Inl (_, _, _, _, n, _, _) \<Rightarrow> 2 * size n + 1
      | Inr (Inl (_, _, _, _, n, _)) \<Rightarrow> 2 * size n
      | Inr (Inr (_, _, _, _, _, cs, _)) \<Rightarrow> 2 * size_list size cs + 1)") auto

section \<open>The trie\<close>

definition hashRoot :: "(bytes \<Rightarrow> bytes) \<Rightarrow> writer option \<Rightarrow> trie \<Rightarrow> database \<Rightarrow> (trie_error + node \<times> node) \<times> database" where
  "hashRoot kec w t db =
     (if tr_root t = NilNode then (Inr (HashNode emptyRoot, NilNode), db)
      else hash_node kec (tr_cachegen t) (tr_cachelimit t) w (tr_root t) True db)"

definition Hash :: "(bytes \<Rightarrow> bytes) \<Rightarrow> trie \<Rightarrow> (trie_error + bytes) \<times> trie" where
  "Hash kec t =
     (case fst (hashRoot kec None t Map.empty) of
        Inl e \<Rightarrow> (Inl e, t)
      | Inr (hash, cached) \<Rightarrow>
          (case hash of HashNode h \<Rightarrow> Inr (BytesToHash h) | _ \<Rightarrow> Inl TriePanic, t\<lparr>tr_root := cached\<rparr>))"

definition Root :: "(bytes \<Rightarrow> bytes) \<Rightarrow> trie \<Rightarrow> (trie_error + bytes) \<times> trie" where
  "Root kec t = Hash kec t"

definition CommitTo :: "(bytes \<Rightarrow> bytes) \<Rightarrow> writer \<Rightarrow> trie \<times> database \<Rightarrow> (trie_error + bytes) \<times> trie \<times> database" where
  "CommitTo kec put = (\<lambda>(t, db).
     case hashRoot kec (Some put) t db of
       (Inl e, db') \<Rightarrow> (Inl e, t, db')
     | (Inr (hash, cached), db') \<Rightarrow>
         (case hash of HashNode h \<Rightarrow> Inr (BytesToHash h) | _ \<Rightarrow> Inl TriePanic,
          t\<lparr>tr_root := cached, tr_cachegen := tr_cachegen t + 1\<rparr>, db'))"

definition emptyState :: "(bytes \<Rightarrow> bytes) \<Rightarrow> bytes" where
  "emptyState kec = kec []"

section \<open>Hashing succeeds and changes flags only\<close>

lemma write_val_Inr: "encodable v \<Longrightarrow> \<exists>w'. write_val v w = Inr w'"
  and write_elems_Inr: "\<forall>v \<in> set vs. encodable v \<Longrightarrow> \<exists>w'. write_elems vs w = Inr w'"
proof (induction v w and vs w rule: write_val_write_elems.induct)
  case (5 ptr w)
  then show ?case by (auto simp: writeBigIntPtr_def writeBigInt_def split: option.splits)
qed (auto simp: encbuf_list_def Let_def bind_result_eq_Inr)

lemma encodable_node [simp]: "encodable (node_rval n)"
  by (induction n) auto

lemma encode_node: "\<exists>enc. EncodeToBytes (node_rval n) = Inr enc"
  using write_val_Inr [OF encodable_node, of n empty_encbuf] by (auto simp: EncodeToBytes_def)

lemma store_nil: "\<exists>h. store kec None n force db = (Inr h, db) \<and> (force \<and> n \<noteq> NilNode \<longrightarrow> is_hash h)"
  using encode_node [of n] by (auto simp: store_def Let_def)

lemma same_set_cached: "strip (set_cached b h c) = strip c"
  by (cases c) auto

definition hashes_fine :: "(bytes \<Rightarrow> bytes) \<Rightarrow> u16 \<Rightarrow> u16 \<Rightarrow> database \<Rightarrow> node \<Rightarrow> bool" where
  "hashes_fine kec gen limit dbw n \<longleftrightarrow> (\<forall>force. \<exists>h c. hash_node kec gen limit None n force dbw = (Inr (h, c), dbw)
     \<and> same c n \<and> (force \<longrightarrow> is_hash h))"

lemma hash_node_fine:
  assumes "branching n" and "\<exists>k c. hashChildren kec gen limit None n dbw = (Inr (k, c), dbw) \<and> same c n \<and> k \<noteq> NilNode"
  shows "hashes_fine kec gen limit dbw n"
  unfolding hashes_fine_def
proof
  fix force
  obtain k c where kc: "hashChildren kec gen limit None n dbw = (Inr (k, c), dbw)" "same c n" "k \<noteq> NilNode"
    using assms(2) by blast
  obtain h where h: "store kec None k force dbw = (Inr h, dbw)" "force \<longrightarrow> is_hash h"
    using store_nil kc(3) by blast
  show "\<exists>h c. hash_node kec gen limit None n force dbw = (Inr (h, c), dbw) \<and> same c n \<and> (force \<longrightarrow> is_hash h)"
    using kc h assms(1) by (cases n) (auto simp: hash_cached_def same_set_cached split: option.splits)
qed

lemma hash_list_fine:
  assumes "\<forall>i < length cs. i < k \<longrightarrow> cs ! i \<noteq> NilNode \<longrightarrow> hashes_fine kec gen limit dbw (cs ! i)"
  shows "\<exists>ks ds. hash_list kec gen limit None k cs dbw = (Inr (ks, ds), dbw) \<and> map strip ds = map strip cs"
  using assms
proof (induction cs arbitrary: k)
  case (Cons c cs)
  show ?case
  proof (cases k)
    case 0
    with Cons show ?thesis by fastforce
  next
    case (Suc k')
    have "\<forall>i < length cs. i < k' \<longrightarrow> cs ! i \<noteq> NilNode \<longrightarrow> hashes_fine kec gen limit dbw (cs ! i)"
      using Cons.prems Suc by auto
    from Cons.IH [OF this] obtain ks ds where
      IH: "hash_list kec gen limit None k' cs dbw = (Inr (ks, ds), dbw)" "map strip ds = map strip cs" by blast
    show ?thesis
    proof (cases "c = NilNode")
      case False
      then have "hashes_fine kec gen limit dbw c" using Cons.prems Suc by fastforce
      then obtain h d where "hash_node kec gen limit None c False dbw = (Inr (h, d), dbw)" "same d c"
        unfolding hashes_fine_def by blast
      with IH False Suc show ?thesis by simp
    qed (use IH Suc in simp)
  qed
qed simp

lemma hexToCompact_Some: "nibbles k \<or> hexkey k \<Longrightarrow> \<exists>c. hexToCompact k = Some c"
  using hexToCompact_roundtrip_aux [of k] by (cases "hexToCompact k") auto

lemma wf_hashes_fine: "wfn db n \<Longrightarrow> hashes_fine kec gen limit dbw n"
proof (induction rule: wfn.induct)
  case (WfLeaf k v fl)
  then show ?case using hexToCompact_Some [of k] by (auto intro!: hash_node_fine)
next
  case (WfExt k val fl)
  then obtain h c where "hash_node kec gen limit None val False dbw = (Inr (h, c), dbw)" "same c val"
    unfolding hashes_fine_def by blast
  moreover have "\<not> is_value val" using WfExt.hyps by (cases val) auto
  ultimately show ?case using hexToCompact_Some [of k] WfExt.hyps by (auto intro!: hash_node_fine)
next
  case (WfFull cs fl)
  then have "\<forall>i < length cs. i < 16 \<longrightarrow> cs ! i \<noteq> NilNode \<longrightarrow> hashes_fine kec gen limit dbw (cs ! i)" by auto
  from hash_list_fine [OF this] show ?case by (auto intro!: hash_node_fine)
next
  case (WfHash h enc g n)
  then show ?case by (simp add: hashes_fine_def hash_cached_def store_def)
qed

lemma Hash_ok:
  assumes "trie_wf db t"
  shows "\<exists>h n. Hash kec t = (Inr h, t\<lparr>tr_root := n\<rparr>) \<and> same n (tr_root t)"
proof (cases "tr_root t = NilNode")
  case False
  with assms have "hashes_fine kec (tr_cachegen t) (tr_cachelimit t) Map.empty (tr_root t)"
    using wf_hashes_fine by (simp add: trie_wf_def)
  then obtain h c where "hash_node kec (tr_cachegen t) (tr_cachelimit t) None (tr_root t) True Map.empty = (Inr (h, c), Map.empty)"
    "same c (tr_root t)" "is_hash h" unfolding hashes_fine_def by (metis (no_types))
  with False show ?thesis by (cases h) (auto simp: Hash_def hashRoot_def)
qed (simp add: Hash_def hashRoot_def)

section \<open>The hash is not the one of the empty string\<close>

text \<open>Iterators compare the root hash with the hash of the empty string.  The two differ unless
  Keccak collides with the empty string or a stored hash says so.\<close>

definition kec_ok :: "(bytes \<Rightarrow> bytes) \<Rightarrow> bool" where
  "kec_ok kec \<longleftrightarrow> (\<forall>x. length (kec x) = 32) \<and> (\<forall>x. x \<noteq> [] \<longrightarrow> kec x \<noteq> kec []) \<and> kec [] \<noteq> emptyRoot"

fun cached_hash :: "node \<Rightarrow> bytes option" where
  "cached_hash (FullNode cs fl) = nf_hash fl"
| "cached_hash (ShortNode k val fl) = nf_hash fl"
| "cached_hash (HashNode h) = Some h"
| "cached_hash n = None"

definition fresh :: "(bytes \<Rightarrow> bytes) \<Rightarrow> node \<Rightarrow> bool" where
  "fresh kec n \<longleftrightarrow> (\<forall>h. cached_hash n = Some h \<longrightarrow> BytesToHash h \<noteq> emptyState kec)"

lemma decodeShort_hash: "decodeShort d h elems g = Inr n \<Longrightarrow> cached_hash n = h"
  unfolding decodeShort_def Let_def
  by (erule bind_InrE) (auto split: option.splits if_splits elim!: bind_InrE)

lemma decodeFull_hash: "decodeFull d h elems g = Inr n \<Longrightarrow> cached_hash n = h"
  unfolding decodeFull_def by (auto elim!: bind_InrE)

lemma decodeNode_hash:
  assumes "decodeNode h buf g = Inr n"
  shows "cached_hash n = h"
  using assms unfolding decodeNode_unfold [of h buf g] decodeNode_body_def Let_def
  by (auto split: if_splits elim!: bind_InrE dest: decodeShort_hash decodeFull_hash)

lemma resolveHash_hash: "resolveHash db gen h p = Inr n \<Longrightarrow> cached_hash n = Some h"
  by (auto simp: resolveHash_def split: option.splits sum.splits dest: decodeNode_hash)

lemma tryGet_hash: "tryGet db gen fuel n key pos = Inr (v, n', r) \<Longrightarrow> cached_hash n' = cached_hash n"
proof (induction db gen fuel n key pos arbitrary: v n' r rule: tryGet.induct)
  case (6 db gen fuel h key pos)
  from "6.prems" obtain child w nn rr where c: "resolveHash db gen h (take pos key) = Inr child"
    "tryGet db gen fuel child key pos = Inr (w, nn, rr)" "n' = nn" by (auto elim!: bind_InrE)
  with "6.IH" [OF c(1,2)] resolveHash_hash [OF c(1)] show ?case by simp
qed (auto elim!: bind_InrE split: if_splits)

lemma insert_node_hash:
  "insert_node db gen fuel n pfx key (ValueNode v) = Inr (d, n') \<Longrightarrow> cached_hash n' = None \<or> cached_hash n' = cached_hash n"
proof (induction db gen fuel n pfx key "ValueNode v" arbitrary: d n' rule: insert_node.induct)
  case (1 db gen fuel n pfx)
  then show ?case by (auto split: node.splits)
next
  case (2 db gen fuel k val fl pfx key)
  then show ?case by (auto simp: Let_def newFlag_def split: if_splits elim!: bind_InrE)
next
  case (6 db gen fuel h pfx v va)
  then show ?case by (fastforce elim!: bind_InrE split: if_splits dest: resolveHash_hash)
qed (auto simp: newFlag_def elim!: bind_InrE split: if_splits)

lemma delete_node_hash:
  "delete_node db gen fuel n pfx key = Inr (d, n') \<Longrightarrow> cached_hash n' = None \<or> cached_hash n' = cached_hash n"
proof (induction db gen fuel n pfx key arbitrary: d n' rule: delete_node.induct)
  case (1 db gen fuel k val fl pfx key)
  then show ?case by (auto simp: Let_def newFlag_def split: if_splits node.splits elim!: bind_InrE)
next
  case (3 db gen fuel cs fl pfx k0 key)
  then show ?case
    by (auto simp: collapse_full_def Let_def newFlag_def split: if_splits node.splits elim!: bind_InrE)
next
  case (7 db gen fuel h pfx key)
  then show ?case by (fastforce elim!: bind_InrE split: if_splits dest: resolveHash_hash)
qed (auto elim!: bind_InrE split: if_splits)

lemma fresh_ops:
  assumes "fresh kec (tr_root t)"
  shows "fresh kec (tr_root (snd (TryGet db t k)))" "fresh kec (tr_root (snd (TryUpdate db t k v)))"
    "fresh kec (tr_root (snd (TryDelete db t k)))"
  using assms
  by (auto simp: TryGet_def TryUpdate_def TryDelete_def Let_def fresh_def split: sum.splits
      dest!: tryGet_hash insert_node_hash delete_node_hash)

lemma listhead_encode_Nil [simp]: "listhead_encode h \<noteq> []"
  by (simp add: listhead_encode_def puthead_def)

lemma toBytes_Nil: "eb_lheads w \<noteq> [] \<Longrightarrow> toBytes w \<noteq> []"
  by (cases "eb_lheads w") (simp_all add: toBytes_def Let_def)

lemma encodeString_lheads [simp]:
  "eb_lheads (encodeString b w) = eb_lheads w" "eb_lheads (writeString b w) = eb_lheads w"
  "eb_lheads (writeUint i w) = eb_lheads w" "eb_lheads (writeBool c w) = eb_lheads w"
  by (simp_all add: encodeString_def encodeStringHeader_def writeString_def writeUint_def writeBool_def Let_def)

lemma writeBigIntPtr_lheads: "writeBigIntPtr p w = Inr w' \<Longrightarrow> eb_lheads w' = eb_lheads w"
  by (auto simp: writeBigIntPtr_def writeBigInt_def split: option.splits if_splits)

lemma write_val_lheads: "write_val v w = Inr w' \<Longrightarrow> length (eb_lheads w) \<le> length (eb_lheads w')"
  and write_elems_lheads: "write_elems vs w = Inr w' \<Longrightarrow> length (eb_lheads w) \<le> length (eb_lheads w')"
proof (induction v w and vs w arbitrary: w' and w' rule: write_val_write_elems.induct)
  case (7 vs w)
  then obtain w1 where "write_elems vs (snd (encbuf_list w)) = Inr w1" "w' = encbuf_listEnd (fst (encbuf_list w)) w1"
    by (auto simp: encbuf_list_def elim!: bind_InrE)
  with "7.IH" [OF refl prod.collapse] show ?case
    by (auto simp: encbuf_list_def encbuf_listEnd_def Let_def)
next
  case (9 v vs w)
  then show ?case by (fastforce elim!: bind_InrE)
qed (auto simp: encbuf_list_def encbuf_listEnd_def Let_def elim!: bind_InrE dest: writeBigIntPtr_lheads)

lemma encode_branching:
  assumes "branching n" and "EncodeToBytes (node_rval n) = Inr enc"
  shows "enc \<noteq> []"
proof -
  obtain vs where "node_rval n = ListV vs" using assms(1) by (cases n) auto
  with assms(2) obtain w w' where w: "write_elems vs w = Inr w'" "length (eb_lheads w) = 1" "enc = toBytes (encbuf_listEnd 0 w')"
    by (auto simp: EncodeToBytes_def encbuf_list_def empty_encbuf_def elim!: bind_InrE)
  have "eb_lheads (encbuf_listEnd 0 w') \<noteq> []"
    using write_elems_lheads [OF w(1)] w(2) by (auto simp: encbuf_listEnd_def Let_def)
  then show ?thesis using toBytes_Nil w(3) by simp
qed

text \<open>A collapsed node keeps its kind and its flags.\<close>

lemma hashChildren_kind:
  assumes "hashChildren kec gen limit w n db = (Inr (k, c), db')" and "branching n"
  shows "branching k \<and> cached_hash k = cached_hash n \<and> branching c"
  using assms by (cases n) (auto split: option.splits if_splits elim!: bind_sr_InrE)

lemma hash_node_forced:
  assumes "hash_node kec gen limit None n True db = (Inr (hn, c), db')" and "branching n" and "cached_hash n = None"
  shows "\<exists>enc. enc \<noteq> [] \<and> hn = HashNode (kec enc) \<and> cached_hash c = Some (kec enc)"
proof -
  from assms obtain k d db1 where k: "hashChildren kec gen limit None n db = (Inr (k, d), db1)"
    "store kec None k True db1 = (Inr hn, db')" "c = set_cached True hn d"
    by (cases n) (auto simp: hash_cached_def elim!: bind_sr_InrE)
  note kd = hashChildren_kind [OF k(1) assms(2)]
  obtain enc where enc: "EncodeToBytes (node_rval k) = Inr enc" using encode_node by blast
  have "hn = HashNode (kec enc)" using k(2) kd enc assms(3) by (cases k) (auto simp: store_def Let_def)
  moreover have "cached_hash c = Some (kec enc)" using k(3) kd calculation by (cases d) (auto simp: cached_flags_def Let_def)
  ultimately show ?thesis using encode_branching [OF _ enc] kd by blast
qed

lemma Hash_fresh:
  assumes "trie_wf db t" and kec: "kec_ok kec" and f: "fresh kec (tr_root t)"
  shows "\<exists>h n. Hash kec t = (Inr h, t\<lparr>tr_root := n\<rparr>) \<and> same n (tr_root t) \<and> h \<noteq> emptyState kec \<and> fresh kec n"
proof (cases "branching (tr_root t)")
  case False
  then consider "tr_root t = NilNode" | h where "tr_root t = HashNode h" | v where "tr_root t = ValueNode v"
    by (cases "tr_root t") auto
  then show ?thesis using assms
    by cases (auto simp: Hash_def hashRoot_def hash_cached_def store_def kec_ok_def emptyState_def emptyRoot_def fresh_def trie_wf_def)
next
  case True
  let ?n = "tr_root t"
  obtain h c where h: "Hash kec t = (Inr h, t\<lparr>tr_root := c\<rparr>)" "same c ?n" using Hash_ok [OF assms(1)] by blast
  obtain r db' where r: "hash_node kec (tr_cachegen t) (tr_cachelimit t) None ?n True Map.empty = (r, db')" by fastforce
  have "hashRoot kec None t Map.empty = (r, db')" using r True by (auto simp: hashRoot_def)
  with h(1) obtain hn c' where hn: "r = Inr (HashNode hn, c')" "h = BytesToHash hn" "c' = c"
    by (auto simp: Hash_def split: sum.splits node.splits dest: arg_cong [where f = tr_root])
  have "h \<noteq> emptyState kec \<and> fresh kec c"
  proof (cases "cached_hash ?n")
    case (Some x)
    then have "hn = x" "c = ?n" using r hn True by (cases ?n; auto simp: hash_cached_def)+
    with hn Some f show ?thesis by (auto simp: fresh_def)
  next
    case None
    from hash_node_forced [OF r [unfolded hn] True None] hn kec show ?thesis
      by (auto simp: fresh_def kec_ok_def emptyState_def)
  qed
  with h show ?thesis by blast
qed

end
