(* ===== verification/Trie_Iterator.thy ===== *)
theory Trie_Iterator
  imports Trie_Hasher
begin

text \<open>
  Iterating over a trie (\<open>src/trie/iterator.go\<close>): the node iterator, which walks the nodes in
  pre-order with an explicit stack, the prefix iterator around it, and \<open>Iterator\<close>, which stops at
  leaves.  The top of the stack is the head of the list.  An iterator holds a pointer to its trie,
  which other code may change between two steps, so the trie is passed to every step and
  returned; a step changes it only by hashing it.

  The loops of \<open>seek\<close> and of \<open>Iterator.Next\<close> end because a trie is finite, which a corrupt database
  need not respect: they are partial functions, and \<open>None\<close> is a run that does not return.
\<close>

section \<open>The node iterator\<close>

record nodeIteratorState =
  is_hash_of :: bytes
  is_node :: node
  is_parent :: bytes
  is_index :: int
  is_pathlen :: nat

datatype iter_error =
    IteratorEnd
  | SeekError bytes trie_error
  | NodeError trie_error

text \<open>\<open>ni_trie\<close> tells whether the pointer to the trie is set.\<close>

record nodeIterator =
  ni_trie :: bool
  ni_stack :: "nodeIteratorState list"
  ni_path :: bytes
  ni_err :: "iter_error option"

definition zero_hash :: bytes where
  "zero_hash = replicate 32 0"

definition node_hash_of :: "node \<Rightarrow> bytes" where
  "node_hash_of n = BytesToHash (case fst (node_cache n) of None \<Rightarrow> [] | Some h \<Rightarrow> h)"

definition ni_Hash :: "nodeIterator \<Rightarrow> bytes" where
  "ni_Hash it = (case ni_stack it of [] \<Rightarrow> zero_hash | st # _ \<Rightarrow> is_hash_of st)"

definition ni_Parent :: "nodeIterator \<Rightarrow> bytes" where
  "ni_Parent it = (case ni_stack it of [] \<Rightarrow> zero_hash | st # _ \<Rightarrow> is_parent st)"

definition ni_Leaf :: "nodeIterator \<Rightarrow> bool" where
  "ni_Leaf it = hasTerm (ni_path it)"

definition ni_LeafBlob :: "nodeIterator \<Rightarrow> trie_error + bytes" where
  "ni_LeafBlob it =
     (case ni_stack it of
        [] \<Rightarrow> Inl TriePanic
      | st # _ \<Rightarrow> (case is_node st of ValueNode v \<Rightarrow> Inr v | _ \<Rightarrow> Inl TriePanic))"

definition ni_LeafKey :: "nodeIterator \<Rightarrow> trie_error + bytes" where
  "ni_LeafKey it =
     (case ni_stack it of
        [] \<Rightarrow> Inl TriePanic
      | st # _ \<Rightarrow>
          (case is_node st of
             ValueNode v \<Rightarrow> (case hexToKeybytes (ni_path it) of None \<Rightarrow> Inl TriePanic | Some k \<Rightarrow> Inr k)
           | _ \<Rightarrow> Inl TriePanic))"

definition ni_Error :: "nodeIterator \<Rightarrow> trie_error option" where
  "ni_Error it =
     (case ni_err it of
        None \<Rightarrow> None
      | Some IteratorEnd \<Rightarrow> None
      | Some (SeekError _ e) \<Rightarrow> Some e
      | Some (NodeError e) \<Rightarrow> Some e)"

definition ni_pop :: "nodeIterator \<Rightarrow> nodeIterator" where
  "ni_pop it =
     (case ni_stack it of
        [] \<Rightarrow> it
      | parent # rest \<Rightarrow> it\<lparr>ni_path := take (is_pathlen parent) (ni_path it), ni_stack := rest\<rparr>)"

text \<open>\<open>bump\<close> tells that the index of the state below is incremented.\<close>

definition ni_push :: "nodeIteratorState \<Rightarrow> bool \<Rightarrow> bytes \<Rightarrow> nodeIterator \<Rightarrow> nodeIterator" where
  "ni_push st bump path it =
     it\<lparr>ni_path := path,
        ni_stack := st # (case ni_stack it of
                             parent # rest \<Rightarrow> (if bump then parent\<lparr>is_index := is_index parent + 1\<rparr> else parent) # rest
                           | [] \<Rightarrow> [])\<rparr>"

definition state_resolve :: "database \<Rightarrow> u16 \<Rightarrow> bytes \<Rightarrow> nodeIteratorState \<Rightarrow> trie_error + nodeIteratorState" where
  "state_resolve db gen path st =
     (case is_node st of
        HashNode h \<Rightarrow> bind_result (resolveHash db gen h path) (\<lambda>resolved.
          Inr (st\<lparr>is_node := resolved, is_hash_of := BytesToHash h\<rparr>))
      | _ \<Rightarrow> Inr st)"

text \<open>The first child from index \<open>i\<close> on that is not nil.\<close>

fun first_child :: "nat \<Rightarrow> node list \<Rightarrow> (nat \<times> node) option" where
  "first_child i [] = None"
| "first_child i (c # cs) = (if c \<noteq> NilNode then Some (i, c) else first_child (Suc i) cs)"

text \<open>\<open>nextChild\<close> returns the state of the next child, its path and the new index of the parent.\<close>

definition nextChild :: "bytes \<Rightarrow> nodeIteratorState \<Rightarrow> bytes \<Rightarrow> (nodeIteratorState \<times> bytes \<times> int) option" where
  "nextChild path parent ancestor =
     (case is_node parent of
        FullNode cs fl \<Rightarrow>
          (case first_child (nat (is_index parent + 1)) (drop (nat (is_index parent + 1)) cs) of
             None \<Rightarrow> None
           | Some (i, child) \<Rightarrow>
               Some (\<lparr>is_hash_of = node_hash_of child, is_node = child, is_parent = ancestor,
                      is_index = -1, is_pathlen = length path\<rparr>,
                     path @ [word_of_nat i], int i - 1))
      | ShortNode k val fl \<Rightarrow>
          if is_index parent < 0
          then Some (\<lparr>is_hash_of = node_hash_of val, is_node = val, is_parent = ancestor,
                      is_index = -1, is_pathlen = length path\<rparr>,
                     path @ k, is_index parent)
          else None
      | _ \<Rightarrow> None)"

datatype peek_result =
    PeekPanic trie_error
  | PeekEnd
  | PeekError trie_error
  | PeekState nodeIteratorState bool bytes

fun peek_error :: "trie_error \<Rightarrow> peek_result" where
  "peek_error (MissingNodeError h p) = PeekError (MissingNodeError h p)"
| "peek_error e = PeekPanic e"

text \<open>The loop of \<open>peek\<close> over the stack: states without a further child are popped.\<close>

function peek_up :: "database \<Rightarrow> u16 \<Rightarrow> nodeIterator \<Rightarrow> peek_result \<times> nodeIterator" where
  "peek_up db gen it =
     (case ni_stack it of
        [] \<Rightarrow> (PeekEnd, it)
      | parent # rest \<Rightarrow>
          (let ancestor = (if is_hash_of parent = zero_hash then is_parent parent else is_hash_of parent) in
           case nextChild (ni_path it) parent ancestor of
             Some (st, path, i) \<Rightarrow>
               (let it' = it\<lparr>ni_stack := parent\<lparr>is_index := i\<rparr> # rest\<rparr> in
                case state_resolve db gen path st of
                  Inl e \<Rightarrow> (peek_error e, it')
                | Inr st' \<Rightarrow> (PeekState st' True path, it'))
           | None \<Rightarrow> peek_up db gen (ni_pop it)))"
  by pat_completeness auto
termination
  by (relation "measure (\<lambda>(_, _, it). length (ni_stack it))") (auto simp: ni_pop_def)

declare peek_up.simps [simp del]

definition peek :: "(bytes \<Rightarrow> bytes) \<Rightarrow> database \<Rightarrow> bool \<Rightarrow> trie \<Rightarrow> nodeIterator \<Rightarrow> peek_result \<times> trie \<times> nodeIterator" where
  "peek kec db descend t it =
     (if ni_stack it = [] then
        if \<not> ni_trie it then (PeekPanic TriePanic, t, it)
        else (case Hash kec t of
            (Inl e, t') \<Rightarrow> (PeekPanic e, t', it)
          | (Inr root, t') \<Rightarrow>
              (let st = \<lparr>is_hash_of = (if root \<noteq> emptyRoot then root else zero_hash), is_node = tr_root t',
                         is_parent = zero_hash, is_index = -1, is_pathlen = 0\<rparr> in
               case state_resolve db (tr_cachegen t') [] st of
                 Inl e \<Rightarrow> (peek_error e, t', it)
               | Inr st' \<Rightarrow> (PeekState st' False [], t', it)))
      else
        (let (r, it') = peek_up db (tr_cachegen t) (if descend then it else ni_pop it) in (r, t, it')))"

text \<open>\<open>bytes.HasPrefix\<close> and \<open>bytes.Compare\<close>.\<close>

definition HasPrefix :: "bytes \<Rightarrow> bytes \<Rightarrow> bool" where
  "HasPrefix s p \<longleftrightarrow> take (length p) s = p"

fun bytes_less :: "bytes \<Rightarrow> bytes \<Rightarrow> bool" where
  "bytes_less xs [] = False"
| "bytes_less [] (y # ys) = True"
| "bytes_less (x # xs) (y # ys) = (x < y \<or> x = y \<and> bytes_less xs ys)"

text \<open>The loop of \<open>seek\<close>.  The result is the error it returns; \<open>Inl\<close> is a panic.\<close>

partial_function (option) seek_loop ::
  "(bytes \<Rightarrow> bytes) \<Rightarrow> database \<Rightarrow> bytes \<Rightarrow> bytes \<Rightarrow> trie \<Rightarrow> nodeIterator
   \<Rightarrow> ((trie_error + iter_error option) \<times> trie \<times> nodeIterator) option" where
  "seek_loop kec db pfx key t it =
     (case peek kec db (HasPrefix key (ni_path it)) t it of
        (PeekPanic e, t', it') \<Rightarrow> Some (Inl e, t', it')
      | (PeekEnd, t', it') \<Rightarrow> Some (Inr (Some IteratorEnd), t', it')
      | (PeekError e, t', it') \<Rightarrow> Some (Inr (Some (SeekError pfx e)), t', it')
      | (PeekState st bump path, t', it') \<Rightarrow>
          if \<not> bytes_less path key then Some (Inr None, t', it')
          else seek_loop kec db pfx key t' (ni_push st bump path it'))"

definition seek ::
  "(bytes \<Rightarrow> bytes) \<Rightarrow> database \<Rightarrow> bytes \<Rightarrow> trie \<Rightarrow> nodeIterator
   \<Rightarrow> ((trie_error + iter_error option) \<times> trie \<times> nodeIterator) option" where
  "seek kec db pfx t it =
     (let key = keybytesToHex pfx in seek_loop kec db pfx (take (length key - 1) key) t it)"

definition newNodeIterator ::
  "(bytes \<Rightarrow> bytes) \<Rightarrow> database \<Rightarrow> trie \<Rightarrow> bytes \<Rightarrow> ((trie_error + nodeIterator) \<times> trie) option" where
  "newNodeIterator kec db t start =
     (case Hash kec t of
        (Inl e, t1) \<Rightarrow> Some (Inl e, t1)
      | (Inr h, t1) \<Rightarrow>
          if h = emptyState kec
          then Some (Inr \<lparr>ni_trie = False, ni_stack = [], ni_path = [], ni_err = None\<rparr>, t1)
          else (case seek kec db start t1 \<lparr>ni_trie = True, ni_stack = [], ni_path = [], ni_err = None\<rparr> of
              None \<Rightarrow> None
            | Some (Inl e, t2, it) \<Rightarrow> Some (Inl e, t2)
            | Some (Inr err, t2, it) \<Rightarrow> Some (Inr (it\<lparr>ni_err := err\<rparr>), t2)))"

text \<open>\<open>Next\<close> after a repeated seek, if one was needed.\<close>

definition ni_advance ::
  "(bytes \<Rightarrow> bytes) \<Rightarrow> database \<Rightarrow> bool \<Rightarrow> trie \<Rightarrow> nodeIterator \<Rightarrow> (trie_error + bool) \<times> trie \<times> nodeIterator" where
  "ni_advance kec db descend t it =
     (case peek kec db descend t it of
        (PeekPanic e, t', it') \<Rightarrow> (Inl e, t', it')
      | (PeekEnd, t', it') \<Rightarrow> (Inr False, t', it'\<lparr>ni_err := Some IteratorEnd\<rparr>)
      | (PeekError e, t', it') \<Rightarrow> (Inr False, t', it'\<lparr>ni_err := Some (NodeError e)\<rparr>)
      | (PeekState st bump path, t', it') \<Rightarrow> (Inr True, t', ni_push st bump path (it'\<lparr>ni_err := None\<rparr>)))"

definition ni_Next ::
  "(bytes \<Rightarrow> bytes) \<Rightarrow> database \<Rightarrow> bool \<Rightarrow> trie \<Rightarrow> nodeIterator \<Rightarrow> ((trie_error + bool) \<times> trie \<times> nodeIterator) option" where
  "ni_Next kec db descend t it =
     (case ni_err it of
        Some IteratorEnd \<Rightarrow> Some (Inr False, t, it)
      | Some (SeekError key _) \<Rightarrow>
          (case seek kec db key t it of
             None \<Rightarrow> None
           | Some (Inl e, t', it') \<Rightarrow> Some (Inl e, t', it')
           | Some (Inr (Some err), t', it') \<Rightarrow> Some (Inr False, t', it'\<lparr>ni_err := Some err\<rparr>)
           | Some (Inr None, t', it') \<Rightarrow> Some (ni_advance kec db descend t' (it'\<lparr>ni_err := None\<rparr>)))
      | _ \<Rightarrow> Some (ni_advance kec db descend t it))"

section \<open>The prefix iterator\<close>

text \<open>\<open>pi_it\<close> is \<open>None\<close> for the nil node iterator of \<open>new(prefixIterator)\<close>.\<close>

record prefixIterator =
  pi_prefix :: bytes
  pi_it :: "nodeIterator option"

definition newPrefixIterator ::
  "(bytes \<Rightarrow> bytes) \<Rightarrow> database \<Rightarrow> trie \<Rightarrow> bytes \<Rightarrow> ((trie_error + prefixIterator) \<times> trie) option" where
  "newPrefixIterator kec db t pfx =
     (case Hash kec t of
        (Inl e, t1) \<Rightarrow> Some (Inl e, t1)
      | (Inr h, t1) \<Rightarrow>
          if h = emptyState kec then Some (Inr \<lparr>pi_prefix = [], pi_it = None\<rparr>, t1)
          else (case newNodeIterator kec db t1 pfx of
              None \<Rightarrow> None
            | Some (Inl e, t2) \<Rightarrow> Some (Inl e, t2)
            | Some (Inr nodeIt, t2) \<Rightarrow>
                (let prefix' = keybytesToHex pfx in
                 Some (Inr \<lparr>pi_prefix = take (length prefix' - 1) prefix', pi_it = Some nodeIt\<rparr>, t2))))"

definition hasPrefix :: "prefixIterator \<Rightarrow> nodeIterator \<Rightarrow> bool" where
  "hasPrefix p it = HasPrefix (ni_path it) (pi_prefix p)"

text \<open>The two kinds of iterators behind the interface \<open>NodeIterator\<close>.\<close>

datatype node_iter = PlainIter nodeIterator | PrefixIter prefixIterator

definition iter_Next ::
  "(bytes \<Rightarrow> bytes) \<Rightarrow> database \<Rightarrow> bool \<Rightarrow> trie \<Rightarrow> node_iter \<Rightarrow> ((trie_error + bool) \<times> trie \<times> node_iter) option" where
  "iter_Next kec db descend t x =
     (case x of
        PlainIter it \<Rightarrow>
          map_option (\<lambda>(r, t', it'). (r, t', PlainIter it')) (ni_Next kec db descend t it)
      | PrefixIter p \<Rightarrow>
          (case pi_it p of
             None \<Rightarrow> Some (Inl TriePanic, t, x)
           | Some it \<Rightarrow>
               map_option (\<lambda>(r, t', it').
                   (case r of Inl e \<Rightarrow> Inl e | Inr b \<Rightarrow> Inr (b \<and> hasPrefix p it'), t', PrefixIter (p\<lparr>pi_it := Some it'\<rparr>)))
                 (ni_Next kec db descend t it)))"

text \<open>The inspectors; \<open>None\<close> and the zero hash are the results outside of the prefix.\<close>

definition iter_Leaf :: "node_iter \<Rightarrow> trie_error + bool" where
  "iter_Leaf x =
     (case x of
        PlainIter it \<Rightarrow> Inr (ni_Leaf it)
      | PrefixIter p \<Rightarrow>
          (case pi_it p of
             None \<Rightarrow> Inl TriePanic
           | Some it \<Rightarrow> Inr (if hasPrefix p it then ni_Leaf it else False)))"

definition iter_LeafBlob :: "node_iter \<Rightarrow> trie_error + bytes" where
  "iter_LeafBlob x =
     (case x of
        PlainIter it \<Rightarrow> ni_LeafBlob it
      | PrefixIter p \<Rightarrow>
          (case pi_it p of
             None \<Rightarrow> Inl TriePanic
           | Some it \<Rightarrow> if hasPrefix p it then ni_LeafBlob it else Inr []))"

definition iter_LeafKey :: "node_iter \<Rightarrow> trie_error + bytes" where
  "iter_LeafKey x =
     (case x of
        PlainIter it \<Rightarrow> ni_LeafKey it
      | PrefixIter p \<Rightarrow>
          (case pi_it p of
             None \<Rightarrow> Inl TriePanic
           | Some it \<Rightarrow> if hasPrefix p it then ni_LeafKey it else Inr []))"

definition iter_Path :: "node_iter \<Rightarrow> trie_error + bytes" where
  "iter_Path x =
     (case x of
        PlainIter it \<Rightarrow> Inr (ni_path it)
      | PrefixIter p \<Rightarrow>
          (case pi_it p of
             None \<Rightarrow> Inl TriePanic
           | Some it \<Rightarrow> Inr (if hasPrefix p it then ni_path it else [])))"

definition iter_Hash :: "node_iter \<Rightarrow> trie_error + bytes" where
  "iter_Hash x =
     (case x of
        PlainIter it \<Rightarrow> Inr (ni_Hash it)
      | PrefixIter p \<Rightarrow>
          (case pi_it p of
             None \<Rightarrow> Inl TriePanic
           | Some it \<Rightarrow> Inr (if hasPrefix p it then ni_Hash it else zero_hash)))"

text \<open>The prefix iterator drops the parent it computes.\<close>

definition iter_Parent :: "node_iter \<Rightarrow> trie_error + bytes" where
  "iter_Parent x =
     (case x of
        PlainIter it \<Rightarrow> Inr (ni_Parent it)
      | PrefixIter p \<Rightarrow> (case pi_it p of None \<Rightarrow> Inl TriePanic | Some it \<Rightarrow> Inr zero_hash))"

definition iter_Error :: "node_iter \<Rightarrow> trie_error + trie_error option" where
  "iter_Error x =
     (case x of
        PlainIter it \<Rightarrow> Inr (ni_Error it)
      | PrefixIter p \<Rightarrow> (case pi_it p of None \<Rightarrow> Inl TriePanic | Some it \<Rightarrow> Inr (ni_Error it)))"

definition NodeIterator :: "(bytes \<Rightarrow> bytes) \<Rightarrow> database \<Rightarrow> trie \<Rightarrow> bytes \<Rightarrow> ((trie_error + node_iter) \<times> trie) option" where
  "NodeIterator kec db t start =
     map_option (\<lambda>(r, t'). (map_sum id PlainIter r, t')) (newNodeIterator kec db t (full_key t start))"

definition PrefixIterator :: "(bytes \<Rightarrow> bytes) \<Rightarrow> database \<Rightarrow> trie \<Rightarrow> bytes \<Rightarrow> ((trie_error + node_iter) \<times> trie) option" where
  "PrefixIterator kec db t pfx =
     map_option (\<lambda>(r, t'). (map_sum id PrefixIter r, t')) (newPrefixIterator kec db t (full_key t pfx))"

section \<open>Iterator\<close>

record iterator =
  it_nodeIt :: node_iter
  it_Key :: "bytes option"
  it_Value :: "bytes option"
  it_Err :: "trie_error option"

definition NewIterator :: "node_iter \<Rightarrow> iterator" where
  "NewIterator x = \<lparr>it_nodeIt = x, it_Key = None, it_Value = None, it_Err = None\<rparr>"

text \<open>What \<open>Next\<close> does at a leaf and at the end.\<close>

definition iterator_leaf :: "trie \<Rightarrow> iterator \<Rightarrow> (trie_error + bool) \<times> trie \<times> iterator" where
  "iterator_leaf t it =
     (case iter_LeafKey (it_nodeIt it) of
        Inl e \<Rightarrow> (Inl e, t, it)
      | Inr k \<Rightarrow>
          (case iter_LeafBlob (it_nodeIt it) of
             Inl e \<Rightarrow> (Inl e, t, it\<lparr>it_Key := Some k\<rparr>)
           | Inr v \<Rightarrow> (Inr True, t, it\<lparr>it_Key := Some k, it_Value := Some v\<rparr>)))"

definition iterator_end :: "trie \<Rightarrow> iterator \<Rightarrow> (trie_error + bool) \<times> trie \<times> iterator" where
  "iterator_end t it =
     (case iter_Error (it_nodeIt it) of
        Inl e \<Rightarrow> (Inl e, t, it\<lparr>it_Key := None, it_Value := None\<rparr>)
      | Inr err \<Rightarrow> (Inr False, t, it\<lparr>it_Key := None, it_Value := None, it_Err := err\<rparr>))"

partial_function (option) Iterator_Next ::
  "(bytes \<Rightarrow> bytes) \<Rightarrow> database \<Rightarrow> trie \<Rightarrow> iterator \<Rightarrow> ((trie_error + bool) \<times> trie \<times> iterator) option" where
  "Iterator_Next kec db t it =
     (case iter_Next kec db True t (it_nodeIt it) of
        None \<Rightarrow> None
      | Some (Inl e, t', x) \<Rightarrow> Some (Inl e, t', it\<lparr>it_nodeIt := x\<rparr>)
      | Some (Inr found, t', x) \<Rightarrow>
          if \<not> found then Some (iterator_end t' (it\<lparr>it_nodeIt := x\<rparr>))
          else (case iter_Leaf x of
             Inl e \<Rightarrow> Some (Inl e, t', it\<lparr>it_nodeIt := x\<rparr>)
           | Inr leaf \<Rightarrow>
               if leaf then Some (iterator_leaf t' (it\<lparr>it_nodeIt := x\<rparr>))
               else Iterator_Next kec db t' (it\<lparr>it_nodeIt := x\<rparr>)))"

end
