(* ===== verification/Trie_Enumerate.thy ===== *)
theory Trie_Enumerate
  imports Trie_Iterator
begin

text \<open>
  What iteration visits.  \<open>nodes e p\<close> lists the nodes below an expanded node in pre-order with
  their paths; \<open>pending\<close> relates the stack of an iterator to the nodes still to come.  A step of the
  iterator takes the first of them, a seek drops those before the key, and the leaves among
  them are the entries of the trie in ascending order of their keys.
\<close>

section \<open>Pre-order\<close>

fun nodes :: "node \<Rightarrow> bytes \<Rightarrow> (bytes \<times> node) list"
and nodes_from :: "nat \<Rightarrow> node list \<Rightarrow> bytes \<Rightarrow> (bytes \<times> node) list" where
  "nodes (FullNode cs fl) p = (p, FullNode cs fl) # nodes_from 0 cs p"
| "nodes (ShortNode k val fl) p = (p, ShortNode k val fl) # nodes val (p @ k)"
| "nodes n p = [(p, n)]"
| "nodes_from i [] p = []"
| "nodes_from i (c # cs) p = (if c = NilNode then [] else nodes c (p @ [word_of_nat i])) @ nodes_from (Suc i) cs p"

text \<open>The nodes below a node whose children up to index \<open>i\<close> are done.\<close>

fun pend :: "node \<Rightarrow> int \<Rightarrow> bytes \<Rightarrow> (bytes \<times> node) list" where
  "pend (FullNode cs fl) i p = nodes_from (nat (i + 1)) (drop (nat (i + 1)) cs) p"
| "pend (ShortNode k val fl) i p = (if i < 0 then nodes val (p @ k) else [])"
| "pend n i p = []"

lemma nodes_pend: "nodes n p = (p, n) # pend n (- 1) p"
  by (cases n) auto

inductive pending :: "database \<Rightarrow> bytes \<Rightarrow> nodeIteratorState list \<Rightarrow> (bytes \<times> node) list \<Rightarrow> bool" for db where
  PendNil: "pending db path [] []"
| PendCons: "\<lbrakk>expands db (is_node st) e; \<not> is_hash (is_node st); - 1 \<le> is_index st;
     pending db (take (is_pathlen st) path) sts R\<rbrakk>
     \<Longrightarrow> pending db path (st # sts) (pend e (is_index st) path @ R)"

inductive_cases pending_NilE: "pending db path [] R"
inductive_cases pending_ConsE: "pending db path (st # sts) R"

lemma expands_Nil_iff: "expands db n e \<Longrightarrow> e = NilNode \<longleftrightarrow> n = NilNode"
proof (induction rule: expands.induct)
  case (ExpHash h enc g n e)
  then show ?case using decodeNode_branching [OF ExpHash.hyps(2)] by auto
qed auto

section \<open>One step\<close>

lemma first_child_None:
  "first_child i cs = None \<Longrightarrow> list_all2 (expands db) cs es \<Longrightarrow> nodes_from i es p = []"
proof (induction i cs arbitrary: es rule: first_child.induct)
  case (2 i c cs)
  then show ?case by (cases es) (auto split: if_splits)
qed simp

lemma first_child_Some:
  assumes "first_child i cs = Some (j, c)" and "list_all2 (expands db) cs es"
  shows "i \<le> j \<and> (\<exists>e. expands db c e \<and>
      nodes_from i es p = nodes e (p @ [word_of_nat j]) @ nodes_from (Suc j) (drop (Suc j - i) es) p) \<and>
      nodes_from j (drop (j - i) es) p = nodes_from i es p"
  using assms
proof (induction i cs arbitrary: es rule: first_child.induct)
  case (2 i d cs)
  from "2.prems"(2) obtain e0 es' where es: "es = e0 # es'" "expands db d e0" "list_all2 (expands db) cs es'"
    by (cases es) auto
  show ?case
  proof (cases "d = NilNode")
    case True
    then have e0: "e0 = NilNode" using es(2) by simp
    have IH: "Suc i \<le> j \<and> (\<exists>e. expands db c e \<and>
      nodes_from (Suc i) es' p = nodes e (p @ [word_of_nat j]) @ nodes_from (Suc j) (drop (Suc j - Suc i) es') p) \<and>
      nodes_from j (drop (j - Suc i) es') p = nodes_from (Suc i) es' p"
      using "2.IH" [of es'] "2.prems"(1) es(3) True by simp
    then have "drop (Suc j - i) es = drop (Suc j - Suc i) es'" "drop (j - i) es = drop (j - Suc i) es'"
      by (auto simp: es(1) drop_Cons' Suc_diff_le)
    with IH e0 show ?thesis by (simp add: es(1))
  next
    case False
    with "2.prems"(1) es expands_Nil_iff [OF es(2)] show ?thesis by auto
  qed
qed simp

lemma nextChild_None:
  assumes "expands db (is_node st) e" and "\<not> is_hash (is_node st)" and "nextChild path st anc = None"
  shows "pend e (is_index st) path = []"
proof (cases "is_node st")
  case (FullNode cs fl)
  with assms obtain es where e: "e = FullNode es no_flag" and es: "list_all2 (expands db) cs es"
    by (auto simp: expands_Full list_all2_conv_all_nth)
  let ?i = "nat (is_index st + 1)"
  have "list_all2 (expands db) (drop ?i cs) (drop ?i es)" using es by (rule list_all2_dropI)
  with assms(3) show ?thesis
    by (auto simp: e nextChild_def FullNode split: option.splits intro: first_child_None)
qed (use assms in \<open>auto simp: nextChild_def expands_Short split: if_splits\<close>)

lemma nextChild_Some:
  assumes "expands db (is_node st) e" and "\<not> is_hash (is_node st)" and "- 1 \<le> is_index st"
    and "nextChild path st anc = Some (st', q, i)"
  shows "- 1 \<le> i \<and> is_index st' = - 1 \<and> is_pathlen st' = length path \<and> take (length path) q = path \<and>
    (\<exists>e'. expands db (is_node st') e' \<and> pend e (is_index st) path = nodes e' q @ pend e (i + 1) path) \<and>
    pend e i path = pend e (is_index st) path"
proof (cases "is_node st")
  case (FullNode cs fl)
  with assms(1) obtain es where e: "e = FullNode es no_flag" and es: "list_all2 (expands db) cs es"
    by (auto simp: expands_Full list_all2_conv_all_nth)
  let ?i = "nat (is_index st + 1)"
  have es': "list_all2 (expands db) (drop ?i cs) (drop ?i es)" using es by (rule list_all2_dropI)
  from assms(4) obtain j c where j: "first_child ?i (drop ?i cs) = Some (j, c)" "q = path @ [word_of_nat j]"
    "i = int j - 1" "is_node st' = c" "is_index st' = - 1" "is_pathlen st' = length path"
    by (auto simp: nextChild_def FullNode split: option.splits)
  note f = first_child_Some [OF j(1) es', of path]
  have n: "nat (i + 1) = j" "nat (i + 1 + 1) = Suc j" using j(3) by auto
  from f have d: "drop (Suc j - ?i) (drop ?i es) = drop (Suc j) es" "drop (j - ?i) (drop ?i es) = drop j es" by auto
  show ?thesis using f j unfolding e d pend.simps n by auto
next
  case (ShortNode k val fl)
  with assms show ?thesis by (auto simp: nextChild_def expands_Short split: if_splits)
qed (use assms in \<open>auto simp: nextChild_def\<close>)

lemma state_resolve_ok:
  assumes "expands db (is_node st) e"
  shows "\<exists>st'. state_resolve db gen path st = Inr st' \<and> expands db (is_node st') e \<and> \<not> is_hash (is_node st')
    \<and> is_index st' = is_index st \<and> is_pathlen st' = is_pathlen st"
proof (cases "is_node st")
  case (HashNode h)
  with assms obtain enc g n where h: "db h = Some enc" "decodeNode (Some h) enc g = Inr n" "expands db n e"
    by (auto simp: expands_Hash)
  from decodeNode_gen [OF h(2), of gen] obtain n' where n': "decodeNode (Some h) enc gen = Inr n'" "same n n'" by blast
  have "\<not> is_hash n'" using decodeNode_branching [OF n'(1)] by (cases n') auto
  moreover have "expands db n' e" using expands_same h(3) n'(2) by blast
  ultimately show ?thesis using HashNode h(1) n'(1) by (simp add: state_resolve_def resolveHash_def)
qed (use assms in \<open>simp_all add: state_resolve_def\<close>)

text \<open>\<open>peek\<close> finds the first of the pending nodes; pushing it leaves the others.\<close>

definition peeks :: "database \<Rightarrow> nodeIterator \<Rightarrow> peek_result \<times> nodeIterator \<Rightarrow> (bytes \<times> node) list \<Rightarrow> bool" where
  "peeks db it r R \<longleftrightarrow> ni_trie (snd r) = ni_trie it \<and> ni_err (snd r) = ni_err it \<and>
     (case R of
        [] \<Rightarrow> fst r = PeekEnd
      | (q, e) # R' \<Rightarrow> (\<exists>st. fst r = PeekState st True q \<and> expands db (is_node st) e \<and>
          ni_stack (snd r) \<noteq> [] \<and> pending db (ni_path (snd r)) (ni_stack (snd r)) R \<and>
          pending db q (ni_stack (ni_push st True q (snd r))) R'))"

lemma peek_up_pending:
  "pending db (ni_path it) (ni_stack it) R \<Longrightarrow> peeks db it (peek_up db gen it) R"
proof (induction "length (ni_stack it)" arbitrary: it R)
  case 0
  then show ?case by (auto simp: peek_up.simps [of db gen it] peeks_def elim: pending_NilE)
next
  case (Suc n)
  then obtain st sts where stk: "ni_stack it = st # sts" by (cases "ni_stack it") auto
  from Suc.prems obtain e R0 where R: "R = pend e (is_index st) (ni_path it) @ R0"
    and e: "expands db (is_node st) e" "\<not> is_hash (is_node st)" "- 1 \<le> is_index st"
    and R0: "pending db (take (is_pathlen st) (ni_path it)) sts R0" unfolding stk by (auto elim: pending_ConsE)
  let ?anc = "if is_hash_of st = zero_hash then is_parent st else is_hash_of st"
  show ?case
  proof (cases "nextChild (ni_path it) st ?anc")
    case None
    with nextChild_None [OF e(1,2)] have "R = R0" by (simp add: R)
    moreover have "peeks db (ni_pop it) (peek_up db gen (ni_pop it)) R0"
      using Suc.hyps stk R0 by (intro Suc.hyps(1)) (auto simp: ni_pop_def)
    moreover have "ni_trie (ni_pop it) = ni_trie it" "ni_err (ni_pop it) = ni_err it"
      by (simp_all add: ni_pop_def stk)
    ultimately show ?thesis using None by (simp add: peek_up.simps [of db gen it] stk peeks_def)
  next
    case (Some x)
    then obtain st' q i where x: "nextChild (ni_path it) st ?anc = Some (st', q, i)" by (cases x) auto
    note c = nextChild_Some [OF e x]
    then obtain e' where e': "expands db (is_node st') e'"
      "pend e (is_index st) (ni_path it) = nodes e' q @ pend e (i + 1) (ni_path it)" by blast
    from state_resolve_ok [OF e'(1)] obtain st'' where st'': "state_resolve db gen q st' = Inr st''"
      "expands db (is_node st'') e'" "\<not> is_hash (is_node st'')" "is_index st'' = - 1" "is_pathlen st'' = length (ni_path it)"
      using c by metis
    have R': "R = (q, e') # pend e' (- 1) q @ pend e (i + 1) (ni_path it) @ R0" by (simp add: R e'(2) nodes_pend)
    have p1: "pending db (ni_path it) (st\<lparr>is_index := i\<rparr> # sts) R"
      using c e PendCons [of db "st\<lparr>is_index := i\<rparr>" e "ni_path it" sts R0] R0 by (simp add: R)
    have "pending db (ni_path it) (st\<lparr>is_index := i + 1\<rparr> # sts) (pend e (i + 1) (ni_path it) @ R0)"
      using c e PendCons [of db "st\<lparr>is_index := i + 1\<rparr>" e "ni_path it" sts R0] R0 by simp
    then have p2: "pending db q (st'' # st\<lparr>is_index := i + 1\<rparr> # sts) (pend e' (- 1) q @ pend e (i + 1) (ni_path it) @ R0)"
      using PendCons [OF st''(2,3), of q] c st''(4,5) by simp
    show ?thesis using x st'' p1 p2
      by (simp add: peek_up.simps [of db gen it] stk peeks_def R' ni_push_def)
  qed
qed

lemma ni_advance_pending:
  assumes "pending db (ni_path it) (ni_stack it) R" and "ni_stack it \<noteq> []" and "ni_trie it"
  shows "\<exists>it'. ni_advance kec db True t it = (Inr (R \<noteq> []), t, it') \<and> ni_trie it' \<and>
    (case R of [] \<Rightarrow> ni_err it' = Some IteratorEnd
     | (q, e) # R' \<Rightarrow> ni_err it' = None \<and> ni_path it' = q \<and> pending db q (ni_stack it') R' \<and>
         (\<exists>st sts. ni_stack it' = st # sts \<and> expands db (is_node st) e))"
proof -
  obtain r it1 where r: "peek_up db (tr_cachegen t) it = (r, it1)" by fastforce
  then have "peek kec db True t it = (r, t, it1)" using assms(2) by (simp add: peek_def)
  moreover have "peeks db it (r, it1) R" using peek_up_pending [OF assms(1)] by (metis r)
  ultimately show ?thesis using assms(3)
    by (cases R) (auto simp: ni_advance_def peeks_def ni_push_def)
qed

section \<open>Seeking\<close>

lemma HasPrefix_append [simp]: "HasPrefix (p @ s) p"
  by (simp add: HasPrefix_def)

lemma HasPrefix_iff: "HasPrefix s p \<longleftrightarrow> (\<exists>r. s = p @ r)"
  by (metis HasPrefix_append HasPrefix_def append_take_drop_id)

lemma bytes_less_append: "bytes_less p key \<Longrightarrow> \<not> HasPrefix key p \<Longrightarrow> bytes_less (p @ s) key"
  by (induction p key rule: bytes_less.induct) (auto simp: HasPrefix_def)

lemma nodes_prefix: "(q, e) \<in> set (nodes n p) \<Longrightarrow> HasPrefix q p"
  and nodes_from_prefix: "(q, e) \<in> set (nodes_from i cs p) \<Longrightarrow> HasPrefix q p"
  by (induction n p and i cs p rule: nodes_nodes_from.induct) (fastforce simp: HasPrefix_iff split: if_splits)+

lemma pend_prefix: "(q, e) \<in> set (pend n i p) \<Longrightarrow> HasPrefix q p"
  by (cases n) (fastforce simp: HasPrefix_iff split: if_splits dest: nodes_prefix nodes_from_prefix)+

definition before :: "bytes \<Rightarrow> bytes \<times> node \<Rightarrow> bool" where
  "before key x \<longleftrightarrow> bytes_less (fst x) key"

text \<open>Not to descend below a node before the key skips nodes before the key.\<close>

lemma pop_pending:
  assumes "pending db (ni_path it) (ni_stack it) R" and "bytes_less (ni_path it) key" and "\<not> HasPrefix key (ni_path it)"
  shows "\<exists>R'. pending db (ni_path (ni_pop it)) (ni_stack (ni_pop it)) R' \<and> dropWhile (before key) R' = dropWhile (before key) R
    \<and> length R' \<le> length R"
proof (cases "ni_stack it")
  case (Cons st sts)
  with assms(1) obtain e R0 where R: "R = pend e (is_index st) (ni_path it) @ R0"
    "pending db (take (is_pathlen st) (ni_path it)) sts R0" by (auto elim: pending_ConsE)
  have "before key x" if "x \<in> set (pend e (is_index st) (ni_path it))" for x
    using pend_prefix that bytes_less_append [OF assms(2,3)] by (metis HasPrefix_iff before_def prod.collapse)
  then have "dropWhile (before key) R = dropWhile (before key) R0" by (simp add: R(1))
  with R Cons show ?thesis by (auto simp: ni_pop_def)
qed (use assms in \<open>auto simp: ni_pop_def\<close>)

lemma seek_loop_pending:
  assumes "pending db (ni_path it) (ni_stack it) R" and "ni_stack it \<noteq> []" and "bytes_less (ni_path it) key"
  shows "\<exists>it'. seek_loop kec db pfx key t it = Some (Inr (if dropWhile (before key) R = [] then Some IteratorEnd else None), t, it')
    \<and> ni_trie it' = ni_trie it \<and>
    (dropWhile (before key) R \<noteq> [] \<longrightarrow> ni_stack it' \<noteq> [] \<and> pending db (ni_path it') (ni_stack it') (dropWhile (before key) R))"
  using assms
proof (induction "length R" arbitrary: it R rule: less_induct)
  case less
  let ?it = "if HasPrefix key (ni_path it) then it else ni_pop it"
  from pop_pending [OF less.prems(1,3)] less.prems(1) obtain R1 where R1: "pending db (ni_path ?it) (ni_stack ?it) R1"
    "dropWhile (before key) R1 = dropWhile (before key) R" "length R1 \<le> length R" by (cases "HasPrefix key (ni_path it)") auto
  have tr: "ni_trie ?it = ni_trie it" by (simp add: ni_pop_def split: list.split)
  obtain r it1 where r: "peek_up db (tr_cachegen t) ?it = (r, it1)" by fastforce
  then have pk: "peek kec db (HasPrefix key (ni_path it)) t it = (r, t, it1)" using less.prems(2) by (simp add: peek_def)
  have ps: "peeks db ?it (r, it1) R1" using peek_up_pending [OF R1(1)] by (metis r)
  show ?case
  proof (cases R1)
    case Nil
    then have "dropWhile (before key) R = []" using R1(2) by simp
    with ps pk Nil tr show ?thesis by (simp add: peeks_def seek_loop.simps [of kec db pfx key t it])
  next
    case (Cons x R2)
    obtain q e where x: "x = (q, e)" by (cases x)
    from ps Cons x tr obtain st where st: "r = PeekState st True q" "ni_stack it1 \<noteq> []" "ni_trie it1 = ni_trie it"
      "pending db (ni_path it1) (ni_stack it1) R1" "pending db q (ni_stack (ni_push st True q it1)) R2"
      by (auto simp: peeks_def)
    show ?thesis
    proof (cases "bytes_less q key")
      case False
      then have "dropWhile (before key) R = R1" using R1(2) Cons x by (simp add: before_def)
      with False st pk show ?thesis by (simp add: seek_loop.simps [of kec db pfx key t it] Cons)
    next
      case True
      then have "dropWhile (before key) R2 = dropWhile (before key) R" using R1(2) Cons x by (simp add: before_def)
      moreover have "length R2 < length R" using R1(3) Cons by simp
      moreover have "ni_path (ni_push st True q it1) = q" "ni_stack (ni_push st True q it1) \<noteq> []"
        "ni_trie (ni_push st True q it1) = ni_trie it" by (simp_all add: ni_push_def st(3))
      ultimately show ?thesis using less.hyps [of R2 "ni_push st True q it1"] True st pk
        by (simp add: seek_loop.simps [of kec db pfx key t it])
    qed
  qed
qed

section \<open>Tries that can be iterated\<close>

text \<open>A canonical trie all of whose keys carry its prefix and whose root hash is not the hash of the
  empty string.  Every operation keeps it.\<close>

definition trie_ok :: "(bytes \<Rightarrow> bytes) \<Rightarrow> database \<Rightarrow> trie \<Rightarrow> bool" where
  "trie_ok kec db t \<longleftrightarrow> trie_wf db t \<and> fresh kec (tr_root t) \<and>
     (\<forall>k v. has db (tr_root t) k v \<longrightarrow> (\<exists>key. k = hexof t key))"

lemma trie_ok_wf: "trie_ok kec db t \<Longrightarrow> trie_wf db t"
  by (simp add: trie_ok_def)

lemma same_keys_prefix: "same_keys t t' \<longleftrightarrow> tr_prefix t' = tr_prefix t"
  by (simp add: same_keys_def)

lemma trie_ok_eqv:
  assumes "trie_ok kec db t" and "n = NilNode \<or> wfn db n" and "fresh kec n" and "eqv db (tr_root t) n"
  shows "trie_ok kec db (t\<lparr>tr_root := n\<rparr>) \<and> trie_map db (t\<lparr>tr_root := n\<rparr>) = trie_map db t"
proof
  show ok: "trie_ok kec db (t\<lparr>tr_root := n\<rparr>)"
    using assms unfolding trie_ok_def trie_wf_def by (simp add: eqv_def)
  show "trie_map db (t\<lparr>tr_root := n\<rparr>) = trie_map db t"
    using assms(4) trie_map_has [OF trie_ok_wf [OF assms(1)]]
    by (intro trie_map_eqI [OF trie_ok_wf [OF assms(1)] trie_ok_wf [OF ok]]) (simp_all add: eqv_def same_keys_def)
qed

lemma TryGet_okE:
  assumes "trie_ok kec db t"
  obtains t' where "TryGet db t k = (Inr (trie_map db t k), t')" "trie_ok kec db t'" "trie_map db t' = trie_map db t"
    "tr_prefix t' = tr_prefix t"
proof -
  from TryGet_result [OF trie_ok_wf [OF assms], of k] obtain vo n' where g: "fst (TryGet db t k) = Inr vo"
    "snd (TryGet db t k) = t\<lparr>tr_root := n'\<rparr>" "n' = NilNode \<or> wfn db n'" "eqv db (tr_root t) n'" by blast
  have "fresh kec (tr_root t)" using assms by (simp add: trie_ok_def)
  from fresh_ops(1) [OF this, of db k] g(2) have "fresh kec n'" by simp
  with trie_ok_eqv [OF assms g(3) _ g(4)] have "trie_ok kec db (t\<lparr>tr_root := n'\<rparr>)" "trie_map db (t\<lparr>tr_root := n'\<rparr>) = trie_map db t"
    by blast+
  moreover have "TryGet db t k = (Inr (trie_map db t k), t\<lparr>tr_root := n'\<rparr>)" using g(1,2) by (simp add: trie_map_def prod_eq_iff)
  ultimately show thesis by (intro that [of "t\<lparr>tr_root := n'\<rparr>"]) simp_all
qed

lemma TryUpdate_okE:
  assumes "trie_ok kec db t" and "v \<noteq> []"
  obtains t' where "TryUpdate db t k v = (Inr (), t')" "trie_ok kec db t'" "trie_map db t' = (trie_map db t)(k \<mapsto> v)"
    "tr_prefix t' = tr_prefix t"
proof -
  from put_spec [OF trie_ok_wf [OF assms(1)] assms(2), of k] obtain t' where t': "TryUpdate db t k v = (Inr (), t')" "trie_wf db t'"
    "trie_map db t' = (trie_map db t)(k \<mapsto> v)" "same_keys t t'" "stores db (tr_root t) (tr_root t') (hexof t k) v" by blast
  have "fresh kec (tr_root t)" using assms by (simp add: trie_ok_def)
  from fresh_ops(2) [OF this, of db k v] t'(1) have "fresh kec (tr_root t')" by simp
  moreover have "\<exists>key. k' = hexof t' key" if "has db (tr_root t') k' w" for k' w
    using that t'(5) assms(1) hexof_same [OF t'(4)] unfolding stores_def trie_ok_def by metis
  ultimately show thesis using t' by (intro that [of t']) (auto simp: trie_ok_def same_keys_def)
qed

lemma TryDelete_okE:
  assumes "trie_ok kec db t"
  obtains t' where "TryDelete db t k = (Inr (), t')" "trie_ok kec db t'" "trie_map db t' = (trie_map db t)(k := None)"
    "tr_prefix t' = tr_prefix t"
proof -
  from del_spec [OF trie_ok_wf [OF assms], of k] obtain t' where t': "TryDelete db t k = (Inr (), t')" "trie_wf db t'"
    "trie_map db t' = (trie_map db t)(k := None)" "same_keys t t'" "removes db (tr_root t) (tr_root t') (hexof t k)" by blast
  have "fresh kec (tr_root t)" using assms by (simp add: trie_ok_def)
  from fresh_ops(3) [OF this, of db k] t'(1) have "fresh kec (tr_root t')" by simp
  moreover have "\<exists>key. k' = hexof t' key" if "has db (tr_root t') k' w" for k' w
    using that t'(5) assms(1) hexof_same [OF t'(4)] unfolding removes_def trie_ok_def by metis
  ultimately show thesis using t' by (intro that [of t']) (auto simp: trie_ok_def same_keys_def)
qed

lemma eqv_same: "same n n' \<Longrightarrow> eqv db n' n"
  unfolding eqv_def using has_same_iff by metis

lemma Hash_okE:
  assumes ok: "trie_ok kec db t" and kec: "kec_ok kec"
  obtains h t' where "Hash kec t = (Inr h, t')" "h \<noteq> emptyState kec" "trie_ok kec db t'" "trie_map db t' = trie_map db t"
    "tr_prefix t' = tr_prefix t" "same (tr_root t') (tr_root t)"
proof -
  from ok have "trie_wf db t" "fresh kec (tr_root t)" by (simp_all add: trie_ok_def)
  from Hash_fresh [OF this(1) kec this(2)] obtain h n where h: "Hash kec t = (Inr h, t\<lparr>tr_root := n\<rparr>)" "same n (tr_root t)"
    "h \<noteq> emptyState kec" "fresh kec n" by blast
  have "n = NilNode \<or> wfn db n"
    using \<open>trie_wf db t\<close> h(2) wf_same unfolding trie_wf_def by (metis strip_simps(1))
  from trie_ok_eqv [OF ok this h(4) eqv_same [OF h(2)]] show thesis using h by (intro that [of h "t\<lparr>tr_root := n\<rparr>"]) simp_all
qed

section \<open>Visiting\<close>

text \<open>The iterator is about to visit the nodes \<open>R\<close>.\<close>

definition upcoming :: "database \<Rightarrow> nodeIterator \<Rightarrow> (bytes \<times> node) list \<Rightarrow> bool" where
  "upcoming db it R \<longleftrightarrow> ni_trie it \<and>
     (ni_err it = Some IteratorEnd \<and> R = [] \<or>
      ni_err it = None \<and> ni_stack it \<noteq> [] \<and> pending db (ni_path it) (ni_stack it) R)"

text \<open>The iterator stands at the node \<open>e\<close> with path \<open>q\<close>.\<close>

definition at_node :: "database \<Rightarrow> nodeIterator \<Rightarrow> bytes \<times> node \<Rightarrow> bool" where
  "at_node db it x \<longleftrightarrow> ni_path it = fst x \<and> (\<exists>st sts. ni_stack it = st # sts \<and> expands db (is_node st) (snd x))"

lemma ni_Next_upcoming:
  assumes "upcoming db it R"
  shows "\<exists>it'. ni_Next kec db True t it = Some (Inr (R \<noteq> []), t, it') \<and> upcoming db it' (tl R) \<and> (R \<noteq> [] \<longrightarrow> at_node db it' (hd R))"
proof (cases "ni_err it = Some IteratorEnd")
  case True
  then show ?thesis using assms by (auto simp: ni_Next_def upcoming_def)
next
  case False
  with assms have a: "ni_err it = None" "ni_stack it \<noteq> []" "pending db (ni_path it) (ni_stack it) R" "ni_trie it"
    by (auto simp: upcoming_def)
  from ni_advance_pending [OF a(3,2,4), of kec t] obtain it' where it': "ni_advance kec db True t it = (Inr (R \<noteq> []), t, it')" "ni_trie it'"
    "case R of [] \<Rightarrow> ni_err it' = Some IteratorEnd
     | (q, e) # R' \<Rightarrow> ni_err it' = None \<and> ni_path it' = q \<and> pending db q (ni_stack it') R' \<and>
         (\<exists>st sts. ni_stack it' = st # sts \<and> expands db (is_node st) e)" by blast
  then show ?thesis using a(1)
    by (intro exI [of _ it']) (auto simp: ni_Next_def upcoming_def at_node_def split: list.splits)
qed

lemma upcoming_leaf:
  assumes "at_node db it (keybytesToHex k, ValueNode v)"
  shows "ni_Leaf it" "ni_LeafKey it = Inr k" "ni_LeafBlob it = Inr v"
proof -
  from assms obtain st sts where s: "ni_stack it = st # sts" "expands db (is_node st) (ValueNode v)" "ni_path it = keybytesToHex k"
    by (auto simp: at_node_def)
  have "is_node st = ValueNode v"
  proof (cases "is_node st")
    case (HashNode h)
    with s(2) obtain enc g n where "decodeNode (Some h) enc g = Inr n" "expands db n (ValueNode v)" by (auto simp: expands_Hash)
    with decodeNode_branching have "branching n" by blast
    with \<open>expands db n (ValueNode v)\<close> show ?thesis by (cases n) (auto simp: expands_Short expands_Full)
  qed (use s(2) in \<open>auto simp: expands_Short expands_Full\<close>)
  then show "ni_LeafKey it = Inr k" "ni_LeafBlob it = Inr v"
    by (simp_all add: s ni_LeafKey_def ni_LeafBlob_def hexToKeybytes_roundtrip)
  show "ni_Leaf it" by (simp add: ni_Leaf_def s(3) keybytesToHex_def)
qed

definition path_less :: "bytes \<times> node \<Rightarrow> bytes \<times> node \<Rightarrow> bool" where
  "path_less x y \<longleftrightarrow> bytes_less (fst x) (fst y)"

definition within :: "bytes \<Rightarrow> bytes \<times> node \<Rightarrow> bool" where
  "within pfx x \<longleftrightarrow> HasPrefix (fst x) pfx"

text \<open>The same for both kinds of iterators.  A prefix iterator stops at the first node outside its
  prefix; nothing inside comes after it.\<close>

fun visits :: "database \<Rightarrow> node_iter \<Rightarrow> (bytes \<times> node) list \<Rightarrow> bool" where
  "visits db (PlainIter it) R \<longleftrightarrow> upcoming db it R"
| "visits db (PrefixIter p) R \<longleftrightarrow> (\<exists>it R0. pi_it p = Some it \<and> upcoming db it R0 \<and> sorted_wrt path_less R0 \<and>
     (\<forall>x \<in> set R0. \<not> before (pi_prefix p) x) \<and> R = filter (within (pi_prefix p)) R0)"

fun iter_at :: "database \<Rightarrow> node_iter \<Rightarrow> bytes \<times> node \<Rightarrow> bool" where
  "iter_at db (PlainIter it) x \<longleftrightarrow> at_node db it x"
| "iter_at db (PrefixIter p) x \<longleftrightarrow> (\<exists>it. pi_it p = Some it \<and> at_node db it x \<and> within (pi_prefix p) x)"

lemma bytes_less_trans: "bytes_less a b \<Longrightarrow> bytes_less b c \<Longrightarrow> bytes_less a c"
proof (induction a b arbitrary: c rule: bytes_less.induct)
  case (2 y ys)
  then show ?case by (cases c) auto
next
  case (3 x xs y ys)
  then show ?case by (cases c) auto
qed simp

lemma bytes_less_total: "\<not> bytes_less a b \<Longrightarrow> \<not> bytes_less b a \<Longrightarrow> a = b"
proof (induction a b rule: bytes_less.induct)
  case (1 xs)
  then show ?case by (cases xs) auto
qed auto

lemma beyond_prefix:
  assumes "\<not> bytes_less q pfx" and "\<not> HasPrefix q pfx" and "bytes_less q q'"
  shows "\<not> HasPrefix q' pfx"
  using assms
proof (induction pfx arbitrary: q q')
  case (Cons x pfx)
  then obtain y ys where q: "q = y # ys" by (cases q) auto
  with Cons.prems obtain z zs where q': "q' = z # zs" by (cases q') auto
  show ?case
  proof (cases "x = y \<and> y = z")
    case True
    with Cons.IH [of ys zs] Cons.prems show ?thesis by (simp add: q q' HasPrefix_def)
  next
    case False
    with Cons.prems show ?thesis by (auto simp: q q' HasPrefix_def)
  qed
qed (simp add: HasPrefix_def)

lemma iter_Next_visits:
  assumes "visits db x R"
  shows "\<exists>x'. iter_Next kec db True t x = Some (Inr (R \<noteq> []), t, x') \<and> visits db x' (tl R) \<and> (R \<noteq> [] \<longrightarrow> iter_at db x' (hd R))"
proof (cases x)
  case (PlainIter it)
  with ni_Next_upcoming [of db it R kec t] assms show ?thesis by (auto simp: iter_Next_def)
next
  case (PrefixIter p)
  with assms obtain it R0 where R0: "pi_it p = Some it" "upcoming db it R0" "sorted_wrt path_less R0"
    "\<forall>x \<in> set R0. \<not> before (pi_prefix p) x" "R = filter (within (pi_prefix p)) R0" by auto
  from ni_Next_upcoming [OF R0(2), of kec t] obtain it' where it': "ni_Next kec db True t it = Some (Inr (R0 \<noteq> []), t, it')"
    "upcoming db it' (tl R0)" "R0 \<noteq> [] \<longrightarrow> at_node db it' (hd R0)" by blast
  let ?x = "PrefixIter (p\<lparr>pi_it := Some it'\<rparr>)"
  have n: "iter_Next kec db True t x = Some (Inr (R0 \<noteq> [] \<and> hasPrefix p it'), t, ?x)"
    using PrefixIter R0(1) it'(1) by (simp add: iter_Next_def)
  have v: "visits db ?x (filter (within (pi_prefix p)) (tl R0))" using R0(3,4) it'(2) by (cases R0) auto
  show ?thesis
  proof (cases R0)
    case Nil
    then show ?thesis using n v R0(5) by (intro exI [of _ ?x]) simp
  next
    case (Cons y R1)
    have h: "hasPrefix p it' = within (pi_prefix p) y"
      using it'(3) Cons by (auto simp: hasPrefix_def within_def at_node_def)
    show ?thesis
    proof (cases "within (pi_prefix p) y")
      case True
      then show ?thesis using n v R0(5) Cons h it'(3) by (intro exI [of _ ?x]) auto
    next
      case False
      have "\<not> within (pi_prefix p) z" if "z \<in> set R1" for z
        using beyond_prefix [of "fst y" "pi_prefix p" "fst z"] that False R0(3,4) Cons
        by (auto simp: before_def within_def path_less_def)
      then have "filter (within (pi_prefix p)) R1 = []" by (simp add: filter_empty_conv)
      with False show ?thesis using n v R0(5) Cons h by (intro exI [of _ ?x]) simp
    qed
  qed
qed

text \<open>Leaves: a path that ends with the terminator belongs to a value under a key of whole bytes.\<close>

definition leafy :: "bytes \<times> node \<Rightarrow> bool" where
  "leafy x \<longleftrightarrow> hasTerm (fst x)"

definition well_leafed :: "(bytes \<times> node) list \<Rightarrow> bool" where
  "well_leafed R \<longleftrightarrow> (\<forall>x \<in> set R. leafy x \<longrightarrow> (\<exists>k v. x = (keybytesToHex k, ValueNode v)))"

definition entry :: "bytes \<times> node \<Rightarrow> bytes \<times> bytes" where
  "entry x = (the (hexToKeybytes (fst x)), case snd x of ValueNode v \<Rightarrow> v | _ \<Rightarrow> [])"

definition leaves :: "(bytes \<times> node) list \<Rightarrow> (bytes \<times> bytes) list" where
  "leaves R = map entry (filter leafy R)"

lemma entry_leaf [simp]: "entry (keybytesToHex k, ValueNode v) = (k, v)"
  by (simp add: entry_def hexToKeybytes_roundtrip)

lemma leafy_hex [simp]: "leafy (keybytesToHex k, n)"
  by (simp add: leafy_def keybytesToHex_def)

text \<open>The iterator will yield the entries \<open>L\<close>, key and value.\<close>

definition yields :: "database \<Rightarrow> node_iter \<Rightarrow> (bytes \<times> bytes) list \<Rightarrow> bool" where
  "yields db x L \<longleftrightarrow> (\<exists>R. visits db x R \<and> well_leafed R \<and> L = leaves R)"

lemma iter_at_Leaf: "iter_at db x y \<Longrightarrow> iter_Leaf x = Inr (leafy y)"
  by (cases x) (auto simp: iter_Leaf_def at_node_def within_def hasPrefix_def ni_Leaf_def leafy_def)

lemma iter_at_entry:
  assumes "iter_at db x (keybytesToHex k, ValueNode v)"
  shows "iter_LeafKey x = Inr k" "iter_LeafBlob x = Inr v"
  using assms upcoming_leaf [of db _ k v]
  by (cases x; auto simp: iter_LeafKey_def iter_LeafBlob_def hasPrefix_def within_def at_node_def)+

lemma visits_no_error: "visits db x R \<Longrightarrow> iter_Error x = Inr None"
  by (cases x) (auto simp: iter_Error_def ni_Error_def upcoming_def)

lemma Iterator_Next_yields:
  assumes "yields db (it_nodeIt it) L"
  shows "\<exists>it'. Iterator_Next kec db t it = Some (Inr (L \<noteq> []), t, it') \<and> yields db (it_nodeIt it') (tl L) \<and>
    (L \<noteq> [] \<longrightarrow> it_Key it' = Some (fst (hd L)) \<and> it_Value it' = Some (snd (hd L)))"
proof -
  obtain R where "visits db (it_nodeIt it) R" "well_leafed R" "L = leaves R" using assms by (auto simp: yields_def)
  then show ?thesis
  proof (induction R arbitrary: it)
    case Nil
    from iter_Next_visits [OF Nil(1), of kec t] obtain x where x: "iter_Next kec db True t (it_nodeIt it) = Some (Inr False, t, x)"
      "visits db x []" by auto
    have "yields db x []" using x(2) by (auto simp: yields_def well_leafed_def leaves_def)
    with x visits_no_error [OF x(2)] Nil(3) show ?case
      by (simp add: Iterator_Next.simps [of kec db t it] iterator_end_def leaves_def)
  next
    case (Cons y R)
    from iter_Next_visits [OF Cons.prems(1), of kec t] obtain x where x: "iter_Next kec db True t (it_nodeIt it) = Some (Inr True, t, x)"
      "visits db x R" "iter_at db x y" by auto
    have w: "well_leafed R" using Cons.prems(2) by (simp add: well_leafed_def)
    show ?case
    proof (cases "leafy y")
      case True
      with Cons.prems(2) obtain k v where y: "y = (keybytesToHex k, ValueNode v)" by (auto simp: well_leafed_def)
      have "yields db x (leaves R)" using x(2) w by (auto simp: yields_def)
      with x Cons.prems(3) iter_at_Leaf [OF x(3)] iter_at_entry [OF x(3) [unfolded y]] True show ?thesis
        by (simp add: Iterator_Next.simps [of kec db t it] iterator_leaf_def leaves_def y)
    next
      case False
      then have "L = leaves R" using Cons.prems(3) by (simp add: leaves_def)
      with Cons.IH [of "it\<lparr>it_nodeIt := x\<rparr>"] x w iter_at_Leaf [OF x(3)] False show ?thesis
        by (simp add: Iterator_Next.simps [of kec db t it])
    qed
  qed
qed

section \<open>Order\<close>

fun tidy :: "node \<Rightarrow> bool" where
  "tidy (ShortNode k val fl) \<longleftrightarrow> k \<noteq> [] \<and> tidy val"
| "tidy (FullNode cs fl) \<longleftrightarrow> length cs = 17 \<and> (\<forall>c \<in> set cs. tidy c)"
| "tidy n \<longleftrightarrow> True"

lemma wf_tidy: "wfn db n \<Longrightarrow> expands db n e \<Longrightarrow> tidy e"
proof (induction arbitrary: e rule: wfn.induct)
  case (WfFull cs fl)
  then obtain es where e: "e = FullNode es no_flag" "length es = 17" "\<forall>i < 17. expands db (cs ! i) (es ! i)"
    by (auto simp: expands_Full)
  have "tidy (es ! i)" if "i < 17" for i
  proof (cases "i = 16")
    case True
    have "expands db (cs ! 16) (es ! 16)" using e(3) by simp
    with True WfFull.hyps(2) show ?thesis by auto
  next
    case False
    have "expands db (cs ! i) (es ! i)" using e(3) that by simp
    moreover have "i < 16" using that False by simp
    ultimately show ?thesis using WfFull.IH by (cases "cs ! i = NilNode") auto
  qed
  with e(1,2) show ?case by (auto simp: in_set_conv_nth)
next
  case (WfHash h enc g n)
  then show ?case using expands_Hash_decoded by blast
qed (auto simp: expands_Short)

lemma bytes_less_extend: "s \<noteq> [] \<Longrightarrow> bytes_less p (p @ s)"
  by (induction p) (auto simp: neq_Nil_conv)

lemma bytes_less_branch: "i < j \<Longrightarrow> bytes_less (p @ i # s) (p @ j # s')"
  by (induction p) auto

lemma word_of_nat_byte_less: "i < j \<Longrightarrow> j < 256 \<Longrightarrow> (word_of_nat i :: byte) < word_of_nat j"
  by (simp add: word_less_nat_alt unat_of_nat_byte)

lemma nodes_from_path: "x \<in> set (nodes_from i cs p) \<Longrightarrow> \<exists>j s. i \<le> j \<and> j < i + length cs \<and> fst x = p @ word_of_nat j # s"
proof (induction cs arbitrary: i)
  case (Cons c cs)
  from Cons.prems consider "x \<in> set (nodes c (p @ [word_of_nat i]))" | "x \<in> set (nodes_from (Suc i) cs p)"
    by (auto split: if_splits)
  then show ?case
  proof cases
    case 1
    from nodes_prefix [of "fst x" "snd x" c "p @ [word_of_nat i]"] 1 show ?thesis
      by (intro exI [of _ i]) (auto simp: HasPrefix_iff)
  next
    case 2
    from Cons.IH [OF this] obtain j s where "Suc i \<le> j" "j < Suc i + length cs" "fst x = p @ word_of_nat j # s" by blast
    then show ?thesis by (intro exI [of _ j] exI [of _ s]) simp
  qed
qed simp

lemma nodes_sorted: "tidy n \<Longrightarrow> sorted_wrt path_less (nodes n p)"
  and nodes_from_sorted: "\<forall>c \<in> set cs. tidy c \<Longrightarrow> i + length cs \<le> 256 \<Longrightarrow> sorted_wrt path_less (nodes_from i cs p)"
proof (induction n p and i cs p rule: nodes_nodes_from.induct)
  case (1 cs fl p)
  have "path_less (p, FullNode cs fl) x" if "x \<in> set (nodes_from 0 cs p)" for x
    using nodes_from_path [OF that] bytes_less_extend by (auto simp: path_less_def)
  with 1 show ?case by simp
next
  case (2 k val fl p)
  have "path_less (p, ShortNode k val fl) x" if "x \<in> set (nodes val (p @ k))" for x
    using nodes_prefix [of "fst x" "snd x" val "p @ k"] that "2.prems" bytes_less_extend by (auto simp: path_less_def HasPrefix_iff)
  with 2 show ?case by simp
next
  case (5 i c cs p)
  have "path_less x y" if "x \<in> set (nodes c (p @ [word_of_nat i]))" "y \<in> set (nodes_from (Suc i) cs p)" for x y
  proof -
    from nodes_prefix [of "fst x" "snd x" c "p @ [word_of_nat i]"] that(1) obtain s where x: "fst x = p @ word_of_nat i # s"
      by (auto simp: HasPrefix_iff)
    from nodes_from_path [OF that(2)] obtain j s' where "Suc i \<le> j" "j < Suc i + length cs" and y: "fst y = p @ word_of_nat j # s'"
      by blast
    then have "(word_of_nat i :: byte) < word_of_nat j" using "5.prems" by (intro word_of_nat_byte_less) auto
    then show ?thesis by (simp add: path_less_def x y bytes_less_branch)
  qed
  with 5 show ?case by (auto simp: sorted_wrt_append)
qed auto

section \<open>The entries\<close>

lemma nodes_from_child:
  "x \<in> set (nodes_from i cs p) \<longleftrightarrow> (\<exists>j < length cs. cs ! j \<noteq> NilNode \<and> x \<in> set (nodes (cs ! j) (p @ [word_of_nat (i + j)])))"
proof (induction cs arbitrary: i)
  case (Cons c cs)
  show ?case unfolding nodes_from.simps set_append Un_iff Cons.IH by (simp add: Ex_less_Suc2 ac_simps)
qed simp

text \<open>A node with a path that is not all nibbles is a value of the content.\<close>

lemma nodes_content:
  assumes "wfn db n" and "expands db n e" and "nibbles p" and "(q, x) \<in> set (nodes e p)"
  shows "nibbles q \<or> (\<exists>k v. q = p @ k \<and> x = ValueNode v \<and> has db n k v)"
  using assms
proof (induction arbitrary: e p rule: wfn.induct)
  case (WfLeaf k v fl)
  then show ?case by (auto simp: expands_Short has_Short)
next
  case (WfExt k val fl)
  then obtain ev where e: "e = ShortNode k ev no_flag" "expands db val ev" by (auto simp: expands_Short)
  from WfExt.prems(3) e consider "(q, x) = (p, e)" | "(q, x) \<in> set (nodes ev (p @ k))" by auto
  then show ?case
  proof cases
    case 2
    from WfExt.IH [OF e(2) _ 2] WfExt.hyps(1) WfExt.prems(2) show ?thesis by (auto simp: has_Short)
  qed (use WfExt.prems in auto)
next
  case (WfFull cs fl)
  then obtain es where e: "e = FullNode es no_flag" "length es = 17" "\<forall>i < 17. expands db (cs ! i) (es ! i)"
    by (auto simp: expands_Full)
  from WfFull.prems(3) e(1) consider "(q, x) = (p, e)" | "(q, x) \<in> set (nodes_from 0 es p)" by auto
  then show ?case
  proof cases
    case 2
    then obtain j where j: "j < 17" "es ! j \<noteq> NilNode" "(q, x) \<in> set (nodes (es ! j) (p @ [word_of_nat j]))"
      using e(2) by (auto simp: nodes_from_child)
    have u: "unat (word_of_nat j :: byte) = j" using j(1) by (simp add: unat_of_nat_byte)
    have ej: "expands db (cs ! j) (es ! j)" using e(3) j(1) by simp
    then have nn: "cs ! j \<noteq> NilNode" using j(2) by auto
    have full: "has db (FullNode cs fl) (word_of_nat j # k) v" if "has db (cs ! j) k v" for k v
      using that u WfFull.hyps(1) j(1) by (intro HasFull) simp_all
    show ?thesis
    proof (cases "j = 16")
      case True
      with WfFull.hyps(2) nn obtain v where "cs ! 16 = ValueNode v" by auto
      with ej j(3) full True show ?thesis by auto
    next
      case False
      with j(1) have j16: "j < 16" by simp
      have "nibbles (p @ [word_of_nat j])" using WfFull.prems(2) j16 u by (simp add: word_less_nat_alt)
      from WfFull.IH [rule_format, OF j16 nn, THEN conjunct2, rule_format, OF ej this j(3)] full show ?thesis by auto
    qed
  qed (use WfFull.prems in auto)
next
  case (WfHash h enc g n)
  then have "expands db n e" using expands_Hash_decoded [of db h, OF WfHash.hyps(1,2)] by simp
  from WfHash.IH [OF this WfHash.prems(2,3)] show ?case using has_Hash_decoded [of db h, OF WfHash.hyps(1,2)] by auto
qed

lemma content_nodes: "has db n k v \<Longrightarrow> expands db n e \<Longrightarrow> (p @ k, ValueNode v) \<in> set (nodes e p)"
proof (induction arbitrary: e p rule: has.induct)
  case (HasShort val key v k fl)
  then obtain ev where "e = ShortNode k ev no_flag" "expands db val ev" by (auto simp: expands_Short)
  with HasShort.IH [of ev "p @ k"] show ?case by simp
next
  case (HasFull x cs key v fl)
  then obtain es where e: "e = FullNode es no_flag" "length es = length cs" "expands db (cs ! unat x) (es ! unat x)"
    by (auto simp: expands_Full)
  have "cs ! unat x \<noteq> NilNode" using HasFull.hyps(2) by auto
  then have "es ! unat x \<noteq> NilNode" using expands_Nil_iff [OF e(3)] by simp
  with HasFull.IH [OF e(3), of "p @ [x]"] HasFull.hyps(1) e show ?case
    by (auto simp: nodes_from_child intro!: exI [of _ "unat x"])
next
  case (HasHash h enc g n key v)
  then show ?case using expands_Hash_decoded [of db h, OF HasHash.hyps(1,2)] by simp
qed auto

lemma keybytes_prefix:
  assumes "HasPrefix (keybytesToHex k) (keybytesToNibbles p)"
  shows "\<exists>r. k = p @ r"
  using assms
proof (induction p arbitrary: k)
  case (Cons b p)
  then obtain c k' where k: "k = c # k'" by (cases k) (auto simp: HasPrefix_def keybytesToHex_def)
  with Cons.prems have h: "b div 16 = c div 16" "b mod 16 = c mod 16" "HasPrefix (keybytesToHex k') (keybytesToNibbles p)"
    by (auto simp: HasPrefix_def keybytesToHex_def)
  have "b = c" using byte_split_join [of b] byte_split_join [of c] unfolding h(1,2) by (rule trans [OF sym])
  with Cons.IH [OF h(3)] k show ?case by simp
qed simp

lemma keybytes_prefix_iff: "HasPrefix (keybytesToHex k) (keybytesToNibbles p) \<longleftrightarrow> (\<exists>r. k = p @ r)"
proof
  show "\<exists>r. k = p @ r \<Longrightarrow> HasPrefix (keybytesToHex k) (keybytesToNibbles p)"
    by (auto simp: HasPrefix_def keybytesToHex_def)
qed (rule keybytes_prefix)

text \<open>The nodes of a trie: in order, and its leaves are its entries.\<close>

lemma trie_nodes:
  assumes "trie_ok kec db t"
  shows "\<exists>e. expands db (tr_root t) e \<and> sorted_wrt path_less (nodes e []) \<and> well_leafed (nodes e []) \<and>
    (\<forall>k v. (keybytesToHex k, ValueNode v) \<in> set (nodes e []) \<longleftrightarrow> has db (tr_root t) (keybytesToHex k) v)"
proof (cases "tr_root t = NilNode")
  case False
  with assms have wf: "wfn db (tr_root t)" by (auto simp: trie_ok_def trie_wf_def)
  from expands_exists [OF wf] obtain e where e: "expands db (tr_root t) e" ..
  have c: "nibbles q \<or> (\<exists>v. x = ValueNode v \<and> has db (tr_root t) q v)" if "(q, x) \<in> set (nodes e [])" for q x
    using nodes_content [OF wf e _ that] by auto
  have "well_leafed (nodes e [])" unfolding well_leafed_def
  proof clarify
    fix q x assume x: "(q, x) \<in> set (nodes e [])" "leafy (q, x)"
    then have "\<not> nibbles q" using nibbles_not_hasTerm by (auto simp: leafy_def)
    with c [OF x(1)] assms show "\<exists>k v. (q, x) = (keybytesToHex k, ValueNode v)" by (auto simp: trie_ok_def)
  qed
  moreover have "has db (tr_root t) (keybytesToHex k) v" if "(keybytesToHex k, ValueNode v) \<in> set (nodes e [])" for k v
    using c [OF that] by (auto simp: keybytesToHex_def)
  ultimately show ?thesis
    using e nodes_sorted [OF wf_tidy [OF wf e], of "[]"] content_nodes [OF _ e, of _ _ "[]"] by auto
qed (auto simp: well_leafed_def leafy_def)

section \<open>Creating an iterator\<close>

lemma hex_start: "take (length (keybytesToHex s) - 1) (keybytesToHex s) = keybytesToNibbles s"
  by (simp add: keybytesToHex_def)

lemma seek_eq: "seek kec db s t it = seek_loop kec db s (keybytesToNibbles s) t it"
  by (simp only: seek_def Let_def hex_start)

abbreviation new_it :: nodeIterator where
  "new_it \<equiv> \<lparr>ni_trie = True, ni_stack = [], ni_path = [], ni_err = None\<rparr>"

lemma seek_root:
  assumes ok: "trie_ok kec db t" and kec: "kec_ok kec" and e: "expands db (tr_root t) e" and s: "s \<noteq> []"
  obtains t' it where "seek kec db s t new_it =
      Some (Inr (if dropWhile (before (keybytesToNibbles s)) (nodes e []) = [] then Some IteratorEnd else None), t', it)"
    "trie_ok kec db t'" "trie_map db t' = trie_map db t" "tr_prefix t' = tr_prefix t" "ni_trie it"
    "dropWhile (before (keybytesToNibbles s)) (nodes e []) \<noteq> [] \<longrightarrow>
       ni_stack it \<noteq> [] \<and> pending db (ni_path it) (ni_stack it) (dropWhile (before (keybytesToNibbles s)) (nodes e []))"
proof -
  let ?key = "keybytesToNibbles s"
  have less: "bytes_less [] ?key" using s by (cases s) simp_all
  from Hash_okE [OF ok kec] obtain h t' where h: "Hash kec t = (Inr h, t')" "trie_ok kec db t'"
    "trie_map db t' = trie_map db t" "tr_prefix t' = tr_prefix t" "same (tr_root t') (tr_root t)" .
  define st where "st = \<lparr>is_hash_of = (if h \<noteq> emptyRoot then h else zero_hash), is_node = tr_root t',
    is_parent = zero_hash, is_index = -1, is_pathlen = 0\<rparr>"
  have "expands db (is_node st) e" using expands_same [OF e] h(5) by (simp add: st_def)
  from state_resolve_ok [OF this, of "tr_cachegen t'" "[]"] obtain st' where st': "state_resolve db (tr_cachegen t') [] st = Inr st'"
    "expands db (is_node st') e" "\<not> is_hash (is_node st')" "is_index st' = -1" by (auto simp: st_def)
  let ?it = "ni_push st' False [] new_it"
  have "pending db [] [st'] (pend e (- 1) [] @ [])"
    using PendCons [OF st'(2,3), of "[]" "[]" "[]"] st'(4) PendNil by simp
  then have "pending db (ni_path ?it) (ni_stack ?it) (pend e (- 1) [])" by (simp add: ni_push_def)
  from seek_loop_pending [OF this, of ?key kec s t'] less obtain it where it:
    "seek_loop kec db s ?key t' ?it = Some (Inr (if dropWhile (before ?key) (pend e (- 1) []) = [] then Some IteratorEnd else None), t', it)"
    "ni_trie it" "dropWhile (before ?key) (pend e (- 1) []) \<noteq> [] \<longrightarrow>
      ni_stack it \<noteq> [] \<and> pending db (ni_path it) (ni_stack it) (dropWhile (before ?key) (pend e (- 1) []))"
    by (auto simp: ni_push_def)
  have "peek kec db True t new_it = (PeekState st' False [], t', new_it)"
    using h(1) st'(1) by (simp add: peek_def st_def [symmetric])
  then have "seek_loop kec db s ?key t new_it = seek_loop kec db s ?key t' ?it"
    using less by (simp add: seek_loop.simps [of kec db s ?key t] HasPrefix_def)
  moreover have "dropWhile (before ?key) (nodes e []) = dropWhile (before ?key) (pend e (- 1) [])"
    using less by (simp add: nodes_pend before_def)
  ultimately show thesis using that [of t' it] it h by (simp add: seek_eq)
qed

lemma newNodeIterator_okE:
  assumes ok: "trie_ok kec db t" and kec: "kec_ok kec" and e: "expands db (tr_root t) e" and s: "s \<noteq> []"
  obtains t' it where "newNodeIterator kec db t s = Some (Inr it, t')"
    "trie_ok kec db t'" "trie_map db t' = trie_map db t" "tr_prefix t' = tr_prefix t"
    "upcoming db it (dropWhile (before (keybytesToNibbles s)) (nodes e []))"
proof -
  from Hash_okE [OF ok kec] obtain h t1 where h: "Hash kec t = (Inr h, t1)" "h \<noteq> emptyState kec" "trie_ok kec db t1"
    "trie_map db t1 = trie_map db t" "tr_prefix t1 = tr_prefix t" "same (tr_root t1) (tr_root t)" .
  have e1: "expands db (tr_root t1) e" using expands_same [OF e] h(6) by simp
  from seek_root [OF h(3) kec e1 s] obtain t' it where it: "seek kec db s t1 new_it =
      Some (Inr (if dropWhile (before (keybytesToNibbles s)) (nodes e []) = [] then Some IteratorEnd else None), t', it)"
    "trie_ok kec db t'" "trie_map db t' = trie_map db t1" "tr_prefix t' = tr_prefix t1" "ni_trie it"
    "dropWhile (before (keybytesToNibbles s)) (nodes e []) \<noteq> [] \<longrightarrow>
       ni_stack it \<noteq> [] \<and> pending db (ni_path it) (ni_stack it) (dropWhile (before (keybytesToNibbles s)) (nodes e []))" .
  let ?R = "dropWhile (before (keybytesToNibbles s)) (nodes e [])"
  let ?err = "if ?R = [] then Some IteratorEnd else None"
  show thesis
  proof (rule that [of "it\<lparr>ni_err := ?err\<rparr>" t'])
    show "newNodeIterator kec db t s = Some (Inr (it\<lparr>ni_err := ?err\<rparr>), t')"
      using h(1,2) it(1) by (simp add: newNodeIterator_def)
    show "upcoming db (it\<lparr>ni_err := ?err\<rparr>) ?R" using it(5,6) by (auto simp: upcoming_def)
  qed (use it h in simp_all)
qed

section \<open>What an iterator yields\<close>

definition key_less :: "bytes \<times> bytes \<Rightarrow> bytes \<times> bytes \<Rightarrow> bool" where
  "key_less x y \<longleftrightarrow> bytes_less (keybytesToHex (fst x)) (keybytesToHex (fst y))"

definition enumerates :: "database \<Rightarrow> trie \<Rightarrow> (bytes \<Rightarrow> bool) \<Rightarrow> (bytes \<times> bytes) list \<Rightarrow> bool" where
  "enumerates db t P L \<longleftrightarrow> sorted_wrt key_less L \<and>
     set L = {(full_key t k, v) |k v. trie_map db t k = Some v \<and> P k}"

lemma leaves_sorted:
  assumes "sorted_wrt path_less R" and "well_leafed R"
  shows "sorted_wrt key_less (leaves R)"
proof -
  have "sorted_wrt path_less (filter leafy R)" using assms(1) by (rule sorted_wrt_filter)
  moreover have "\<exists>k v. x = (keybytesToHex k, ValueNode v)" if "x \<in> set (filter leafy R)" for x
    using assms(2) that by (auto simp: well_leafed_def)
  then have "key_less (entry x) (entry y)" if "x \<in> set (filter leafy R)" "y \<in> set (filter leafy R)" "path_less x y" for x y
    using that by (metis entry_leaf fst_conv key_less_def path_less_def)
  ultimately show ?thesis unfolding leaves_def sorted_wrt_map
    using sorted_wrt_mono_rel [of "filter leafy R" path_less "\<lambda>x y. key_less (entry x) (entry y)"] by blast
qed

lemma leaves_set:
  assumes "well_leafed R"
  shows "set (leaves R) = {(k, v). (keybytesToHex k, ValueNode v) \<in> set R}"
proof -
  have "(k, v) \<in> set (leaves R) \<longleftrightarrow> (keybytesToHex k, ValueNode v) \<in> set R" for k v
  proof
    assume "(k, v) \<in> set (leaves R)"
    then obtain x where x: "x \<in> set R" "leafy x" "entry x = (k, v)" by (auto simp: leaves_def)
    with assms obtain k' v' where "x = (keybytesToHex k', ValueNode v')" by (auto simp: well_leafed_def)
    with x show "(keybytesToHex k, ValueNode v) \<in> set R" by simp
  next
    assume "(keybytesToHex k, ValueNode v) \<in> set R"
    then have "entry (keybytesToHex k, ValueNode v) \<in> entry ` (set (filter leafy R))" by (intro imageI) simp
    then show "(k, v) \<in> set (leaves R)" by (simp add: leaves_def)
  qed
  then show ?thesis by auto
qed

lemma dropWhile_sorted:
  assumes "sorted_wrt path_less R"
  shows "dropWhile (before key) R = filter (\<lambda>x. \<not> before key x) R"
  using assms
proof (induction R)
  case (Cons x R)
  show ?case
  proof (cases "before key x")
    case False
    then have "\<not> before key y" if "y \<in> set R" for y
      using Cons.prems that bytes_less_trans by (auto simp: before_def path_less_def)
    with False show ?thesis by (simp add: filter_id_conv)
  qed (use Cons in simp)
qed simp

lemma enumerates_leaves:
  assumes "trie_ok kec db t" and R: "sorted_wrt path_less R" "well_leafed R"
    and c: "\<And>k v. (keybytesToHex k, ValueNode v) \<in> set R \<longleftrightarrow> has db (tr_root t) (keybytesToHex k) v \<and> Q k"
    and Q: "\<And>k. Q (full_key t k) \<longleftrightarrow> P k"
  shows "enumerates db t P (leaves R)"
proof -
  have "(\<exists>k. key = full_key t k \<and> trie_map db t k = Some v \<and> P k) \<longleftrightarrow> has db (tr_root t) (keybytesToHex key) v \<and> Q key" for key v
    using assms(1) trie_map_has [OF trie_ok_wf [OF assms(1)]] Q unfolding trie_ok_def by (metis keybytesToHex_inj)
  then show ?thesis using leaves_sorted [OF R] by (auto simp: enumerates_def leaves_set [OF R(2)] c)
qed

lemma NodeIterator_okE:
  assumes ok: "trie_ok kec db t" and kec: "kec_ok kec" and s: "full_key t start \<noteq> []"
  obtains t' x L where "NodeIterator kec db t start = Some (Inr x, t')"
    "trie_ok kec db t'" "trie_map db t' = trie_map db t" "tr_prefix t' = tr_prefix t" "yields db x L"
    "enumerates db t (\<lambda>k. \<not> bytes_less (hexof t k) (keybytesToNibbles (full_key t start))) L"
proof -
  let ?s = "keybytesToNibbles (full_key t start)"
  from trie_nodes [OF ok] obtain e where e: "expands db (tr_root t) e" "sorted_wrt path_less (nodes e [])" "well_leafed (nodes e [])"
    "\<forall>k v. (keybytesToHex k, ValueNode v) \<in> set (nodes e []) \<longleftrightarrow> has db (tr_root t) (keybytesToHex k) v" by blast
  let ?R = "dropWhile (before ?s) (nodes e [])"
  from newNodeIterator_okE [OF ok kec e(1) s] obtain t' it where it: "newNodeIterator kec db t (full_key t start) = Some (Inr it, t')"
    "trie_ok kec db t'" "trie_map db t' = trie_map db t" "tr_prefix t' = tr_prefix t" "upcoming db it ?R" .
  have R: "?R = filter (\<lambda>x. \<not> before ?s x) (nodes e [])" by (rule dropWhile_sorted [OF e(2)])
  have "well_leafed ?R" "sorted_wrt path_less ?R" using e(2,3) unfolding R by (auto simp: well_leafed_def sorted_wrt_filter)
  moreover have "enumerates db t (\<lambda>k. \<not> bytes_less (hexof t k) ?s) (leaves ?R)"
    by (rule enumerates_leaves [OF ok calculation(2,1), where Q = "\<lambda>k. \<not> bytes_less (keybytesToHex k) ?s"])
      (auto simp: R e(4) before_def)
  ultimately show thesis using it by (intro that [of "PlainIter it" t']) (auto simp: NodeIterator_def yields_def)
qed

lemma bytes_less_HasPrefix: "HasPrefix q p \<Longrightarrow> \<not> bytes_less q p"
  by (induction q p rule: bytes_less.induct) (auto simp: HasPrefix_def)

lemma PrefixIterator_okE:
  assumes ok: "trie_ok kec db t" and kec: "kec_ok kec" and s: "full_key t pfx \<noteq> []"
  obtains t' x L where "PrefixIterator kec db t pfx = Some (Inr x, t')"
    "trie_ok kec db t'" "trie_map db t' = trie_map db t" "tr_prefix t' = tr_prefix t" "yields db x L"
    "enumerates db t (\<lambda>k. \<exists>r. k = pfx @ r) L"
proof -
  let ?s = "keybytesToNibbles (full_key t pfx)"
  from Hash_okE [OF ok kec] obtain h t1 where h: "Hash kec t = (Inr h, t1)" "h \<noteq> emptyState kec" "trie_ok kec db t1"
    "trie_map db t1 = trie_map db t" "tr_prefix t1 = tr_prefix t" .
  have k: "full_key t1 k = full_key t k" for k by (simp add: full_key_def h(5))
  from trie_nodes [OF h(3)] obtain e where e: "expands db (tr_root t1) e" "sorted_wrt path_less (nodes e [])" "well_leafed (nodes e [])"
    "\<forall>k v. (keybytesToHex k, ValueNode v) \<in> set (nodes e []) \<longleftrightarrow> has db (tr_root t1) (keybytesToHex k) v" by blast
  let ?R0 = "dropWhile (before ?s) (nodes e [])"
  from newNodeIterator_okE [OF h(3) kec e(1) s] obtain t' it where it: "newNodeIterator kec db t1 (full_key t pfx) = Some (Inr it, t')"
    "trie_ok kec db t'" "trie_map db t' = trie_map db t1" "tr_prefix t' = tr_prefix t1" "upcoming db it ?R0" .
  have R0: "?R0 = filter (\<lambda>x. \<not> before ?s x) (nodes e [])" by (rule dropWhile_sorted [OF e(2)])
  let ?R = "filter (within ?s) ?R0"
  have R: "?R = filter (within ?s) (nodes e [])"
    unfolding R0 by (auto simp: before_def within_def bytes_less_HasPrefix intro!: filter_cong)
  have "well_leafed ?R" "sorted_wrt path_less ?R" using e(2,3) unfolding R by (auto simp: well_leafed_def sorted_wrt_filter)
  moreover have "(keybytesToHex k, ValueNode v) \<in> set ?R \<longleftrightarrow>
      has db (tr_root t1) (keybytesToHex k) v \<and> (\<exists>r. k = full_key t pfx @ r)" for k v
    unfolding R by (auto simp: e(4) within_def keybytes_prefix_iff)
  moreover have "(\<exists>r. full_key t1 k = full_key t pfx @ r) \<longleftrightarrow> (\<exists>r. k = pfx @ r)" for k
    unfolding k by (auto simp: full_key_def split: option.splits)
  ultimately have "enumerates db t1 (\<lambda>k. \<exists>r. k = pfx @ r) (leaves ?R)" "well_leafed ?R"
    using enumerates_leaves [OF h(3), of ?R "\<lambda>k. \<exists>r. k = full_key t pfx @ r" "\<lambda>k. \<exists>r. k = pfx @ r"] by blast+
  then have "enumerates db t (\<lambda>k. \<exists>r. k = pfx @ r) (leaves ?R)" "well_leafed ?R" by (simp_all add: enumerates_def h(4) k)
  moreover have "visits db (PrefixIter \<lparr>pi_prefix = ?s, pi_it = Some it\<rparr>) ?R"
    using it(5) e(2) by (auto simp: R0 sorted_wrt_filter)
  moreover have "PrefixIterator kec db t pfx = Some (Inr (PrefixIter \<lparr>pi_prefix = ?s, pi_it = Some it\<rparr>), t')"
    using h(1,2) it(1) by (simp add: PrefixIterator_def newPrefixIterator_def keybytesToHex_def)
  ultimately show thesis
    using it h that [of "PrefixIter \<lparr>pi_prefix = ?s, pi_it = Some it\<rparr>" t' "leaves ?R"] by (auto simp: yields_def)
qed

lemma nil_trie_ok:
  assumes "tr_root t = NilNode"
  shows "trie_ok kec db t"
  unfolding trie_ok_def
proof (intro conjI allI impI)
  fix k v assume "has db (tr_root t) k v"
  then show "\<exists>key. k = hexof t key" using assms by simp
qed (use assms in \<open>simp_all add: trie_wf_def fresh_def\<close>)

lemma bytes_less_irrefl: "\<not> bytes_less a a"
  by (induction a) auto

section \<open>Draining an iterator\<close>

text \<open>The loop \<open>for it.Next() { ... }\<close>, collecting keys and values.\<close>

partial_function (option) iter_collect ::
  "(bytes \<Rightarrow> bytes) \<Rightarrow> database \<Rightarrow> (bytes option \<times> bytes option) list \<Rightarrow> trie \<Rightarrow> iterator
   \<Rightarrow> ((trie_error + (bytes option \<times> bytes option) list) \<times> trie) option" where
  "iter_collect kec db acc t it =
     (case Iterator_Next kec db t it of
        None \<Rightarrow> None
      | Some (Inl e, t', it') \<Rightarrow> Some (Inl e, t')
      | Some (Inr found, t', it') \<Rightarrow>
          if \<not> found then Some (Inr acc, t')
          else iter_collect kec db (acc @ [(it_Key it', it_Value it')]) t' it')"

lemma iter_collect_yields:
  "yields db (it_nodeIt it) L \<Longrightarrow> iter_collect kec db acc t it = Some (Inr (acc @ map (map_prod Some Some) L), t)"
proof (induction L arbitrary: acc it)
  case Nil
  from Iterator_Next_yields [OF Nil, of kec t] show ?case by (auto simp: iter_collect.simps [of kec db acc t it])
next
  case (Cons y L)
  from Iterator_Next_yields [OF Cons.prems, of kec t] obtain it' where
    "Iterator_Next kec db t it = Some (Inr True, t, it')" "yields db (it_nodeIt it') L" "it_Key it' = Some (fst y)" "it_Value it' = Some (snd y)" by auto
  with Cons.IH [OF this(2)] show ?case by (simp add: iter_collect.simps [of kec db acc t it] map_prod_def split_beta)
qed

text \<open>C15.  Iterating over the entries with a prefix terminates without an error, does not change the
  content of the trie, and yields exactly the entries whose key has the prefix, in the order of their
  keys, each with the key prefix of the trie in front.\<close>

theorem prefix_iteration_complete:
  assumes "trie_ok kec db t" and "kec_ok kec" and "full_key t pfx \<noteq> []"
  shows "\<exists>x t' L. PrefixIterator kec db t pfx = Some (Inr x, t') \<and> trie_map db t' = trie_map db t \<and>
    iter_collect kec db [] t' (NewIterator x) = Some (Inr (map (map_prod Some Some) L), t') \<and>
    sorted_wrt key_less L \<and> set L = {(full_key t k, v) |k v. trie_map db t k = Some v \<and> (\<exists>r. k = pfx @ r)}"
proof -
  from PrefixIterator_okE [OF assms] obtain t' x L where t: "PrefixIterator kec db t pfx = Some (Inr x, t')"
    "trie_map db t' = trie_map db t" "yields db x L" "enumerates db t (\<lambda>k. \<exists>r. k = pfx @ r) L" .
  have "yields db (it_nodeIt (NewIterator x)) L" using t(3) by (simp add: NewIterator_def)
  from iter_collect_yields [OF this, of kec "[]" t'] t show ?thesis unfolding enumerates_def append_Nil by blast
qed

theorem prefix_iteration_complete_witness:
  "\<exists>kec t x t'. trie_map Map.empty t = [[7, 1] \<mapsto> [5], [8] \<mapsto> [6]] \<and> PrefixIterator kec Map.empty t [7] = Some (Inr x, t') \<and>
    iter_collect kec Map.empty [] t' (NewIterator x) = Some (Inr [(Some [7, 1], Some [5])], t')"
proof -
  let ?kec = "\<lambda>x. if x = [] then replicate 32 1 else replicate 32 2 :: bytes"
  have "(replicate 32 1 :: bytes) \<noteq> replicate 32 2" by (simp add: numeral_eq_Suc)
  moreover have "hd emptyRoot \<noteq> 1" by (simp add: emptyRoot_def)
  then have "emptyRoot \<noteq> replicate 32 1" by (metis hd_replicate zero_neq_numeral)
  ultimately have kec: "kec_ok ?kec" by (auto simp: kec_ok_def)
  have e: "trie_ok ?kec Map.empty empty_trie" "trie_map Map.empty empty_trie = Map.empty"
    by (auto simp: empty_trie_def nil_trie_ok trie_map_def TryGet_def Let_def)
  from TryUpdate_okE [OF e(1), of "[5]" "[7, 1]"] obtain t1 where t1: "trie_ok ?kec Map.empty t1"
    "trie_map Map.empty t1 = [[7, 1] \<mapsto> [5]]" "tr_prefix t1 = None" using e(2) by (auto simp: empty_trie_def)
  from TryUpdate_okE [OF t1(1), of "[6]" "[8]"] obtain t where t: "trie_ok ?kec Map.empty t"
    "trie_map Map.empty t = [[7, 1] \<mapsto> [5], [8] \<mapsto> [6]]" "tr_prefix t = None" using t1(2,3) by auto
  have k: "full_key t q = q" for q using t(3) by (simp add: full_key_def)
  from prefix_iteration_complete [OF t(1) kec, of "[7]"] obtain x t' L where
    r: "PrefixIterator ?kec Map.empty t [7] = Some (Inr x, t')" "iter_collect ?kec Map.empty [] t' (NewIterator x) = Some (Inr (map (map_prod Some Some) L), t')"
      "sorted_wrt key_less L" "set L = {(q, v) |q v. trie_map Map.empty t q = Some v \<and> (\<exists>r. q = [7] @ r)}" unfolding k by blast
  have "set L = {([7, 1], [5])}" using r(4) t(2) by (auto split: if_splits)
  moreover have "distinct L" using r(3) by (induction L) (auto simp: key_less_def bytes_less_irrefl)
  ultimately have "L = [([7, 1], [5])]" by (cases L) (auto simp: subset_singleton_iff)
  with r(1,2) t(2) show ?thesis by (intro exI [of _ ?kec] exI [of _ t] exI [of _ x] exI [of _ t']) simp
qed
end
