(* ===== verification/Dpos_Context.thy ===== *)
theory Dpos_Context
  imports Trie_Enumerate Rlp_Decode
begin

text \<open>
  The state of delegated proof of stake (\<open>src/core/types/dpos_context.go\<close>): five tries with the
  validators of the epoch, the delegations by candidate, the vote of every delegator, the
  candidates, and the number of blocks each validator minted.  Operations pass the context;
  what they changed before an error stays changed.  \<open>dc_db\<close> is the database of the context, nil
  in a copy.  The argument \<open>db\<close> is what the tries read their nodes from.
\<close>

section \<open>The context\<close>

record DposContext =
  epochTrie :: trie
  delegateTrie :: trie
  voteTrie :: trie
  candidateTrie :: trie
  mintCntTrie :: trie
  dc_db :: "database option"

datatype ctx_error =
    CtxTrie trie_error
  | InvalidCandidateToDelegate
  | InvalidCandidateToUndelegate
  | MismatchCandidateToUndelegate
  | FailedToDecodeValidators rlp_error
  | FailedToEncodeValidators enc_error

definition ascii :: "nat list \<Rightarrow> bytes" where
  "ascii = map word_of_nat"

definition epochPrefix :: bytes where
  "epochPrefix = ascii [101, 112, 111, 99, 104, 45]"

definition delegatePrefix :: bytes where
  "delegatePrefix = ascii [100, 101, 108, 101, 103, 97, 116, 101, 45]"

definition votePrefix :: bytes where
  "votePrefix = ascii [118, 111, 116, 101, 45]"

definition candidatePrefix :: bytes where
  "candidatePrefix = ascii [99, 97, 110, 100, 105, 100, 97, 116, 101, 45]"

definition mintCntPrefix :: bytes where
  "mintCntPrefix = ascii [109, 105, 110, 116, 67, 110, 116, 45]"

definition NewEpochTrie :: "bytes \<Rightarrow> database option \<Rightarrow> trie_error + trie" where
  "NewEpochTrie root db = NewTrieWithPrefix root epochPrefix db"

definition NewDelegateTrie :: "bytes \<Rightarrow> database option \<Rightarrow> trie_error + trie" where
  "NewDelegateTrie root db = NewTrieWithPrefix root delegatePrefix db"

definition NewVoteTrie :: "bytes \<Rightarrow> database option \<Rightarrow> trie_error + trie" where
  "NewVoteTrie root db = NewTrieWithPrefix root votePrefix db"

definition NewCandidateTrie :: "bytes \<Rightarrow> database option \<Rightarrow> trie_error + trie" where
  "NewCandidateTrie root db = NewTrieWithPrefix root candidatePrefix db"

definition NewMintCntTrie :: "bytes \<Rightarrow> database option \<Rightarrow> trie_error + trie" where
  "NewMintCntTrie root db = NewTrieWithPrefix root mintCntPrefix db"

record DposContextProto =
  EpochHash :: bytes
  DelegateHash :: bytes
  CandidateHash :: bytes
  VoteHash :: bytes
  MintCntHash :: bytes

definition NewDposContextFromProto :: "database option \<Rightarrow> DposContextProto \<Rightarrow> trie_error + DposContext" where
  "NewDposContextFromProto db p =
     bind_result (NewEpochTrie (EpochHash p) db) (\<lambda>et.
     bind_result (NewDelegateTrie (DelegateHash p) db) (\<lambda>dt.
     bind_result (NewVoteTrie (VoteHash p) db) (\<lambda>vt.
     bind_result (NewCandidateTrie (CandidateHash p) db) (\<lambda>ct.
     bind_result (NewMintCntTrie (MintCntHash p) db) (\<lambda>mt.
       Inr \<lparr>epochTrie = et, delegateTrie = dt, voteTrie = vt, candidateTrie = ct, mintCntTrie = mt, dc_db = db\<rparr>)))))"

definition NewDposContext :: "database option \<Rightarrow> trie_error + DposContext" where
  "NewDposContext db =
     bind_result (NewEpochTrie zero_hash db) (\<lambda>et.
     bind_result (NewDelegateTrie zero_hash db) (\<lambda>dt.
     bind_result (NewVoteTrie zero_hash db) (\<lambda>vt.
     bind_result (NewCandidateTrie zero_hash db) (\<lambda>ct.
     bind_result (NewMintCntTrie zero_hash db) (\<lambda>mt.
       Inr \<lparr>epochTrie = et, delegateTrie = dt, voteTrie = vt, candidateTrie = ct, mintCntTrie = mt, dc_db = db\<rparr>)))))"

text \<open>A copy has tries of its own and no database.\<close>

definition Copy :: "DposContext \<Rightarrow> DposContext" where
  "Copy d = d\<lparr>dc_db := None\<rparr>"

definition Snapshot :: "DposContext \<Rightarrow> DposContext" where
  "Snapshot d = Copy d"

definition RevertToSnapShot :: "DposContext \<Rightarrow> DposContext \<Rightarrow> DposContext" where
  "RevertToSnapShot snapshot d =
     d\<lparr>epochTrie := epochTrie snapshot, delegateTrie := delegateTrie snapshot, candidateTrie := candidateTrie snapshot,
        voteTrie := voteTrie snapshot, mintCntTrie := mintCntTrie snapshot\<rparr>"

section \<open>Operations on one of the tries\<close>

definition on_epoch :: "(trie \<Rightarrow> (trie_error + 'a) \<times> trie) \<Rightarrow> DposContext \<Rightarrow> (ctx_error + 'a) \<times> DposContext" where
  "on_epoch f d = (case f (epochTrie d) of (r, t) \<Rightarrow> (map_sum CtxTrie id r, d\<lparr>epochTrie := t\<rparr>))"

definition on_delegate :: "(trie \<Rightarrow> (trie_error + 'a) \<times> trie) \<Rightarrow> DposContext \<Rightarrow> (ctx_error + 'a) \<times> DposContext" where
  "on_delegate f d = (case f (delegateTrie d) of (r, t) \<Rightarrow> (map_sum CtxTrie id r, d\<lparr>delegateTrie := t\<rparr>))"

definition on_vote :: "(trie \<Rightarrow> (trie_error + 'a) \<times> trie) \<Rightarrow> DposContext \<Rightarrow> (ctx_error + 'a) \<times> DposContext" where
  "on_vote f d = (case f (voteTrie d) of (r, t) \<Rightarrow> (map_sum CtxTrie id r, d\<lparr>voteTrie := t\<rparr>))"

definition on_candidate :: "(trie \<Rightarrow> (trie_error + 'a) \<times> trie) \<Rightarrow> DposContext \<Rightarrow> (ctx_error + 'a) \<times> DposContext" where
  "on_candidate f d = (case f (candidateTrie d) of (r, t) \<Rightarrow> (map_sum CtxTrie id r, d\<lparr>candidateTrie := t\<rparr>))"

definition on_mintCnt :: "(trie \<Rightarrow> (trie_error + 'a) \<times> trie) \<Rightarrow> DposContext \<Rightarrow> (ctx_error + 'a) \<times> DposContext" where
  "on_mintCnt f d = (case f (mintCntTrie d) of (r, t) \<Rightarrow> (map_sum CtxTrie id r, d\<lparr>mintCntTrie := t\<rparr>))"

text \<open>An error that is a missing node is not passed on.\<close>

definition skip_missing :: "'a \<Rightarrow> (ctx_error + 'a) \<times> 's \<Rightarrow> (ctx_error + 'a) \<times> 's" where
  "skip_missing x m = (case m of (Inl (CtxTrie (MissingNodeError _ _)), s) \<Rightarrow> (Inr x, s) | _ \<Rightarrow> m)"

section \<open>Roots\<close>

text \<open>The hashes are written to Keccak one after the other, each in its RLP encoding.\<close>

definition Proto_Root :: "(bytes \<Rightarrow> bytes) \<Rightarrow> DposContextProto \<Rightarrow> bytes" where
  "Proto_Root kec p =
     kec (concat (map (\<lambda>h. case EncodeToBytes (BytesV h) of Inr b \<Rightarrow> b | Inl _ \<Rightarrow> [])
       [EpochHash p, DelegateHash p, CandidateHash p, VoteHash p, MintCntHash p]))"

definition ToProto :: "(bytes \<Rightarrow> bytes) \<Rightarrow> DposContext \<Rightarrow> (ctx_error + DposContextProto) \<times> DposContext" where
  "ToProto kec d0 =
     bind_sr (on_epoch (Hash kec) d0) (\<lambda>eh d1.
     bind_sr (on_delegate (Hash kec) d1) (\<lambda>dh d2.
     bind_sr (on_candidate (Hash kec) d2) (\<lambda>ch d3.
     bind_sr (on_vote (Hash kec) d3) (\<lambda>vh d4.
     bind_sr (on_mintCnt (Hash kec) d4) (\<lambda>mh d5.
       (Inr \<lparr>EpochHash = eh, DelegateHash = dh, CandidateHash = ch, VoteHash = vh, MintCntHash = mh\<rparr>, d5))))))"

definition Context_Root :: "(bytes \<Rightarrow> bytes) \<Rightarrow> DposContext \<Rightarrow> (ctx_error + bytes) \<times> DposContext" where
  "Context_Root kec d0 =
     bind_sr (on_epoch (Hash kec) d0) (\<lambda>eh d1.
     bind_sr (on_delegate (Hash kec) d1) (\<lambda>dh d2.
     bind_sr (on_candidate (Hash kec) d2) (\<lambda>ch d3.
     bind_sr (on_vote (Hash kec) d3) (\<lambda>vh d4.
     bind_sr (on_mintCnt (Hash kec) d4) (\<lambda>mh d5.
       (Inr (kec (concat (map (\<lambda>h. case EncodeToBytes (BytesV h) of Inr b \<Rightarrow> b | Inl _ \<Rightarrow> []) [eh, dh, ch, vh, mh]))), d5))))))"

text \<open>\<open>FromProto\<close> opens the tries with the database of the context.  It assigns the result of every
  constructor before it looks at the error, so an error leaves a nil trie behind: there is no
  context to go on with.\<close>

definition FromProto :: "DposContextProto \<Rightarrow> DposContext \<Rightarrow> trie_error + DposContext" where
  "FromProto p d =
     bind_result (NewEpochTrie (EpochHash p) (dc_db d)) (\<lambda>et.
     bind_result (NewDelegateTrie (DelegateHash p) (dc_db d)) (\<lambda>dt.
     bind_result (NewCandidateTrie (CandidateHash p) (dc_db d)) (\<lambda>ct.
     bind_result (NewVoteTrie (VoteHash p) (dc_db d)) (\<lambda>vt.
     bind_result (NewMintCntTrie (MintCntHash p) (dc_db d)) (\<lambda>mt.
       Inr (d\<lparr>epochTrie := et, delegateTrie := dt, candidateTrie := ct, voteTrie := vt, mintCntTrie := mt\<rparr>))))))"

section \<open>Candidates and delegations\<close>

definition BecomeCandidate :: "database \<Rightarrow> bytes \<Rightarrow> DposContext \<Rightarrow> (ctx_error + unit) \<times> DposContext" where
  "BecomeCandidate db candidate d = on_candidate (\<lambda>t. TryUpdate db t candidate candidate) d"

definition Delegate :: "database \<Rightarrow> bytes \<Rightarrow> bytes \<Rightarrow> DposContext \<Rightarrow> (ctx_error + unit) \<times> DposContext" where
  "Delegate db delegator candidate d =
     bind_sr (on_candidate (\<lambda>t. TryGet db t candidate) d) (\<lambda>candidateInTrie d1.
       if candidateInTrie = None then (Inl InvalidCandidateToDelegate, d1)
       else
         bind_sr (skip_missing None (on_vote (\<lambda>t. TryGet db t delegator) d1)) (\<lambda>oldCandidate d2.
         bind_sr (case oldCandidate of
             None \<Rightarrow> (Inr (), d2)
           | Some old \<Rightarrow> on_delegate (\<lambda>t. Delete db t (old @ delegator)) d2) (\<lambda>_ d3.
         bind_sr (on_delegate (\<lambda>t. TryUpdate db t (candidate @ delegator) delegator) d3) (\<lambda>_ d4.
           on_vote (\<lambda>t. TryUpdate db t delegator candidate) d4))))"

definition UnDelegate :: "database \<Rightarrow> bytes \<Rightarrow> bytes \<Rightarrow> DposContext \<Rightarrow> (ctx_error + unit) \<times> DposContext" where
  "UnDelegate db delegator candidate d =
     bind_sr (on_candidate (\<lambda>t. TryGet db t candidate) d) (\<lambda>candidateInTrie d1.
       if candidateInTrie = None then (Inl InvalidCandidateToUndelegate, d1)
       else
         bind_sr (on_vote (\<lambda>t. TryGet db t delegator) d1) (\<lambda>oldCandidate d2.
           if (case oldCandidate of None \<Rightarrow> [] | Some old \<Rightarrow> old) \<noteq> candidate then (Inl MismatchCandidateToUndelegate, d2)
           else
             bind_sr (on_delegate (\<lambda>t. TryDelete db t (candidate @ delegator)) d2) (\<lambda>_ d3.
               on_vote (\<lambda>t. TryDelete db t delegator) d3)))"

text \<open>The body of the loop of \<open>KickoutCandidate\<close> for one delegator.\<close>

definition kickout_delegator :: "database \<Rightarrow> bytes \<Rightarrow> bytes \<Rightarrow> DposContext \<Rightarrow> (ctx_error + unit) \<times> DposContext" where
  "kickout_delegator db candidate delegator d =
     bind_sr (skip_missing () (on_delegate (\<lambda>t. TryDelete db t (candidate @ delegator)) d)) (\<lambda>_ d1.
       case on_vote (\<lambda>t. TryGet db t delegator) d1 of
         (Inl (CtxTrie (MissingNodeError h p)), d2) \<Rightarrow> (Inr (), d2)
       | (Inl e, d2) \<Rightarrow> (Inl e, d2)
       | (Inr v, d2) \<Rightarrow>
           if (case v of None \<Rightarrow> [] | Some x \<Rightarrow> x) = candidate
           then skip_missing () (on_vote (\<lambda>t. TryDelete db t delegator) d2)
           else (Inr (), d2))"

definition value_of :: "iterator \<Rightarrow> bytes" where
  "value_of it = (case it_Value it of None \<Rightarrow> [] | Some v \<Rightarrow> v)"

definition set_delegate :: "DposContext \<Rightarrow> trie \<Rightarrow> DposContext" where
  "set_delegate d t = d\<lparr>delegateTrie := t\<rparr>"

text \<open>The loop deletes from the trie it iterates over; the iterator works on the nodes it has on its
  stack, which are not changed.\<close>

partial_function (option) kickout_loop ::
  "(bytes \<Rightarrow> bytes) \<Rightarrow> database \<Rightarrow> bytes \<Rightarrow> iterator \<Rightarrow> DposContext \<Rightarrow> ((ctx_error + unit) \<times> DposContext) option" where
  "kickout_loop kec db candidate it d =
     (case Iterator_Next kec db (delegateTrie d) it of
        None \<Rightarrow> None
      | Some (Inl e, t, it') \<Rightarrow> Some (Inl (CtxTrie e), set_delegate d t)
      | Some (Inr found, t, it') \<Rightarrow>
          if \<not> found then Some (Inr (), set_delegate d t)
          else (case kickout_delegator db candidate (value_of it') (set_delegate d t) of
              (Inl e, d') \<Rightarrow> Some (Inl e, d')
            | (Inr _, d') \<Rightarrow> kickout_loop kec db candidate it' d'))"

definition KickoutCandidate ::
  "(bytes \<Rightarrow> bytes) \<Rightarrow> database \<Rightarrow> bytes \<Rightarrow> DposContext \<Rightarrow> ((ctx_error + unit) \<times> DposContext) option" where
  "KickoutCandidate kec db candidate d =
     (case skip_missing () (on_candidate (\<lambda>t. TryDelete db t candidate) d) of
        (Inl e, d1) \<Rightarrow> Some (Inl e, d1)
      | (Inr _, d1) \<Rightarrow>
          (case PrefixIterator kec db (delegateTrie d1) candidate of
             None \<Rightarrow> None
           | Some (Inl e, t) \<Rightarrow> Some (Inl (CtxTrie e), set_delegate d1 t)
           | Some (Inr x, t) \<Rightarrow> kickout_loop kec db candidate (NewIterator x) (set_delegate d1 t)))"

section \<open>Committing\<close>

definition commit_trie ::
  "(bytes \<Rightarrow> bytes) \<Rightarrow> writer \<Rightarrow> (DposContext \<Rightarrow> trie) \<Rightarrow> (trie \<Rightarrow> DposContext \<Rightarrow> DposContext) \<Rightarrow> DposContext \<times> database
   \<Rightarrow> (ctx_error + bytes) \<times> DposContext \<times> database" where
  "commit_trie kec put get upd = (\<lambda>(d, dbw).
     case CommitTo kec put (get d, dbw) of (r, t, dbw') \<Rightarrow> (map_sum CtxTrie id r, upd t d, dbw'))"

definition Context_CommitTo ::
  "(bytes \<Rightarrow> bytes) \<Rightarrow> writer \<Rightarrow> DposContext \<times> database \<Rightarrow> (ctx_error + DposContextProto) \<times> DposContext \<times> database" where
  "Context_CommitTo kec put s0 =
     bind_sr (commit_trie kec put epochTrie (\<lambda>t. epochTrie_update (\<lambda>_. t)) s0) (\<lambda>epochRoot s1.
     bind_sr (commit_trie kec put delegateTrie (\<lambda>t. delegateTrie_update (\<lambda>_. t)) s1) (\<lambda>delegateRoot s2.
     bind_sr (commit_trie kec put voteTrie (\<lambda>t. voteTrie_update (\<lambda>_. t)) s2) (\<lambda>voteRoot s3.
     bind_sr (commit_trie kec put candidateTrie (\<lambda>t. candidateTrie_update (\<lambda>_. t)) s3) (\<lambda>candidateRoot s4.
     bind_sr (commit_trie kec put mintCntTrie (\<lambda>t. mintCntTrie_update (\<lambda>_. t)) s4) (\<lambda>mintCntRoot s5.
       (Inr \<lparr>EpochHash = epochRoot, DelegateHash = delegateRoot, CandidateHash = candidateRoot,
             VoteHash = voteRoot, MintCntHash = mintCntRoot\<rparr>, s5))))))"

section \<open>Validators\<close>

definition validator_key :: bytes where
  "validator_key = ascii [118, 97, 108, 105, 100, 97, 116, 111, 114]"

definition GetValidators :: "database \<Rightarrow> DposContext \<Rightarrow> (ctx_error + bytes list) \<times> DposContext" where
  "GetValidators db d =
     bind_sr (on_epoch (\<lambda>t. Get db t validator_key) d) (\<lambda>validatorsRLP d1.
       case decode_arrays AddressLength (case validatorsRLP of None \<Rightarrow> [] | Some b \<Rightarrow> b) of
         Inl e \<Rightarrow> (Inl (FailedToDecodeValidators e), d1)
       | Inr validators \<Rightarrow> (Inr validators, d1))"

definition SetValidators :: "database \<Rightarrow> bytes list \<Rightarrow> DposContext \<Rightarrow> (ctx_error + unit) \<times> DposContext" where
  "SetValidators db validators d =
     (case EncodeToBytes (ListV (map BytesV validators)) of
        Inl e \<Rightarrow> (Inl (FailedToEncodeValidators e), d)
      | Inr validatorsRLP \<Rightarrow> on_epoch (\<lambda>t. Update db t validator_key validatorsRLP) d)"

definition SetEpoch :: "trie \<Rightarrow> DposContext \<Rightarrow> DposContext" where
  "SetEpoch t d = d\<lparr>epochTrie := t\<rparr>"

end
