(* ===== verification/Go_Lib.thy ===== *)
theory Go_Lib
  imports Trie_Iterator "HOL-Library.Multiset"
begin

text \<open>
  Parts of Go's library the consensus engine uses: fixed-width integers as bytes
  (\<open>encoding/binary\<close>), sorting (\<open>sort\<close>), and the checksummed string of an address
  (\<open>Address.Hex\<close> of \<open>src/common/types.go\<close>), which breaks ties between candidates.
\<close>

section \<open>Integers as bytes\<close>

definition BigEndian_PutUint64 :: "u64 \<Rightarrow> bytes" where
  "BigEndian_PutUint64 v = be_digits 8 (unat v)"

text \<open>Reading needs eight bytes; the source panics on fewer.\<close>

definition BigEndian_Uint64 :: "bytes \<Rightarrow> u64 option" where
  "BigEndian_Uint64 b = (if length b < 8 then None else Some (word_of_nat (be_nat (take 8 b))))"

definition LittleEndian_Uint32 :: "bytes \<Rightarrow> 32 word option" where
  "LittleEndian_Uint32 b = (if length b < 4 then None else Some (word_of_nat (be_nat (rev (take 4 b)))))"

text \<open>Conversions between \<open>int64\<close> and \<open>uint64\<close> keep the bits.\<close>

definition uint64 :: "int \<Rightarrow> u64" where
  "uint64 x = word_of_int x"

definition int64 :: "u64 \<Rightarrow> int" where
  "int64 w = sint w"

lemma length_PutUint64 [simp]: "length (BigEndian_PutUint64 v) = 8"
  by (simp add: BigEndian_PutUint64_def)

lemma Uint64_PutUint64 [simp]: "BigEndian_Uint64 (BigEndian_PutUint64 v) = Some v"
proof -
  have "be_nat (be_digits 8 (unat v)) = unat v"
    using unat_u64_less [of v] by (simp add: be_nat_be_digits)
  then show ?thesis by (simp add: BigEndian_Uint64_def BigEndian_PutUint64_def)
qed

lemma PutUint64_inj: "BigEndian_PutUint64 v = BigEndian_PutUint64 w \<longleftrightarrow> v = w"
  by (metis Uint64_PutUint64 option.inject)

section \<open>Sorting\<close>

text \<open>The result of \<open>sort.Sort\<close> for a strict total order: the one sorted permutation, computed here by
  insertion.\<close>

fun insert_by :: "('a \<Rightarrow> 'a \<Rightarrow> bool) \<Rightarrow> 'a \<Rightarrow> 'a list \<Rightarrow> 'a list" where
  "insert_by lt x [] = [x]"
| "insert_by lt x (y # ys) = (if lt y x then y # insert_by lt x ys else x # y # ys)"

definition sort_by :: "('a \<Rightarrow> 'a \<Rightarrow> bool) \<Rightarrow> 'a list \<Rightarrow> 'a list" where
  "sort_by lt xs = foldr (insert_by lt) xs []"

definition strict_order_on :: "'a set \<Rightarrow> ('a \<Rightarrow> 'a \<Rightarrow> bool) \<Rightarrow> bool" where
  "strict_order_on A lt \<longleftrightarrow> (\<forall>x \<in> A. \<not> lt x x) \<and> (\<forall>x \<in> A. \<forall>y \<in> A. \<forall>z \<in> A. lt x y \<longrightarrow> lt y z \<longrightarrow> lt x z) \<and>
     (\<forall>x \<in> A. \<forall>y \<in> A. x \<noteq> y \<longrightarrow> lt x y \<or> lt y x)"

lemma sort_by_simps [simp]: "sort_by lt [] = []" "sort_by lt (x # xs) = insert_by lt x (sort_by lt xs)"
  by (simp_all add: sort_by_def)

lemma mset_insert_by [simp]: "mset (insert_by lt x ys) = add_mset x (mset ys)"
  by (induction ys) auto

lemma mset_sort_by [simp]: "mset (sort_by lt xs) = mset xs"
  by (induction xs) auto

lemma set_sort_by [simp]: "set (sort_by lt xs) = set xs"
  by (metis mset_sort_by set_mset_mset)

lemma length_sort_by [simp]: "length (sort_by lt xs) = length xs"
  by (metis mset_sort_by size_mset)

lemma distinct_sort_by [simp]: "distinct (sort_by lt xs) = distinct xs"
  by (metis mset_sort_by mset_eq_imp_distinct_iff)

lemma strict_order_on_subset: "strict_order_on A lt \<Longrightarrow> B \<subseteq> A \<Longrightarrow> strict_order_on B lt"
  unfolding strict_order_on_def by blast

lemma insert_by_sorted:
  assumes "strict_order_on (insert x (set ys)) lt" and "x \<notin> set ys" and "sorted_wrt lt ys"
  shows "sorted_wrt lt (insert_by lt x ys)"
  using assms
proof (induction ys)
  case (Cons y ys)
  have set: "set (insert_by lt x ys) = insert x (set ys)" by (metis mset_insert_by set_mset_add_mset_insert set_mset_mset)
  have "strict_order_on (insert x (set ys)) lt" using Cons.prems(1) by (rule strict_order_on_subset) auto
  with Cons.IH Cons.prems(2,3) have IH: "sorted_wrt lt (insert_by lt x ys)" by simp
  show ?case
  proof (cases "lt y x")
    case True
    with IH Cons.prems(3) show ?thesis by (auto simp: set)
  next
    case False
    then have "lt x y" using Cons.prems(1,2) unfolding strict_order_on_def by auto
    moreover then have "lt x z" if "z \<in> set ys" for z
    proof -
      have "lt y z" using Cons.prems(3) that by simp
      with \<open>lt x y\<close> show ?thesis using Cons.prems(1) that unfolding strict_order_on_def by (meson insertCI list.set_intros)
    qed
    ultimately show ?thesis using False Cons.prems(3) by auto
  qed
qed simp

lemma sort_by_sorted:
  assumes "strict_order_on (set xs) lt" and "distinct xs"
  shows "sorted_wrt lt (sort_by lt xs)"
  using assms
proof (induction xs)
  case (Cons x xs)
  have "sorted_wrt lt (sort_by lt xs)" using Cons strict_order_on_subset [of _ lt "set xs"] by (simp add: subset_insertI)
  with insert_by_sorted [of x "sort_by lt xs" lt] Cons.prems show ?case by simp
qed simp

lemma sorted_unique:
  assumes "strict_order_on (set xs) lt" and "sorted_wrt lt xs" and "sorted_wrt lt ys" and "set xs = set ys"
  shows "xs = ys"
  using assms
proof (induction xs arbitrary: ys)
  case (Cons x xs)
  then obtain y ys' where ys: "ys = y # ys'" by (cases ys) auto
  have irr: "\<not> lt a a" "lt a b \<Longrightarrow> \<not> lt b a" if "a \<in> set (x # xs)" "b \<in> set (x # xs)" for a b
    using Cons.prems(1) that unfolding strict_order_on_def by blast+
  have "x = y"
  proof (rule ccontr)
    assume ne: "x \<noteq> y"
    then have "lt y x" "lt x y" using Cons.prems(2,3,4) ys by auto
    with irr(2) [of y x] Cons.prems(4) ys show False by auto
  qed
  moreover have "set xs = set ys'"
  proof -
    have "x \<notin> set xs" "x \<notin> set ys'" using Cons.prems(2,3) irr(1) ys \<open>x = y\<close> by (auto simp del: insert_iff)
    with Cons.prems(4) ys \<open>x = y\<close> show ?thesis by auto
  qed
  ultimately show ?case using Cons.IH [of ys'] Cons.prems strict_order_on_subset ys by (auto simp: subset_insertI)
qed simp

section \<open>The string of an address\<close>

definition hex_char :: "byte \<Rightarrow> byte" where
  "hex_char n = (if n < 10 then 48 + n else 87 + n)"

definition hex_EncodeToString :: "bytes \<Rightarrow> bytes" where
  "hex_EncodeToString b = map hex_char (keybytesToNibbles b)"

text \<open>Digit \<open>i\<close> is set to upper case when nibble \<open>i\<close> of the hash of the digits is above 7.\<close>

definition checksum_char :: "bytes \<Rightarrow> nat \<Rightarrow> byte \<Rightarrow> byte" where
  "checksum_char hash i c =
     (let hashByte = (if i mod 2 = 0 then drop_bit 4 (hash ! (i div 2)) else hash ! (i div 2) AND 0xf) in
      if c > 57 \<and> hashByte > 7 then c - 32 else c)"

definition Address_Hex :: "(bytes \<Rightarrow> bytes) \<Rightarrow> bytes \<Rightarrow> bytes" where
  "Address_Hex kec a =
     (let unchecksummed = hex_EncodeToString a; hash = kec unchecksummed in
      [48, 120] @ map (\<lambda>(i, c). checksum_char hash i c) (enumerate 0 unchecksummed))"

text \<open>Two digits that become equal were equal: case does not identify different digits.\<close>

lemma unat_hex_char: "n < 16 \<Longrightarrow> unat (hex_char n) = (if unat n < 10 then 48 else 87) + unat n"
  by (simp add: hex_char_def word_less_nat_alt unat_word_ariths)

lemma unat_checksum_char:
  assumes "n < 16"
  shows "unat (checksum_char h i (hex_char n)) = 48 + unat n \<and> unat n < 10 \<or>
    unat (checksum_char h i (hex_char n)) \<in> {87 + unat n, 55 + unat n} \<and> 10 \<le> unat n"
proof (cases "unat n < 10")
  case True
  then have "\<not> hex_char n > 57" using unat_hex_char [OF assms] by (simp add: word_less_nat_alt)
  then show ?thesis using True unat_hex_char [OF assms] by (simp add: checksum_char_def)
next
  case False
  then have "32 \<le> hex_char n" using unat_hex_char [OF assms] by (simp add: word_le_nat_alt)
  then have "unat (hex_char n - 32) = unat (hex_char n) - 32" by (simp add: unat_sub)
  then show ?thesis using False unat_hex_char [OF assms] by (simp add: checksum_char_def Let_def)
qed

lemma checksum_char_inj:
  assumes "m < 16" and "n < 16" and "checksum_char h i (hex_char m) = checksum_char h' i (hex_char n)"
  shows "m = n"
proof -
  have "unat m < 16" "unat n < 16" using assms(1,2) by (simp_all add: word_less_nat_alt)
  then have "unat m = unat n"
    using unat_checksum_char [OF assms(1), of h i] unat_checksum_char [OF assms(2), of h' i] unfolding assms(3) by auto
  then show ?thesis by (simp add: word_unat_eq_iff)
qed

lemma Address_Hex_inj:
  assumes "Address_Hex kec a = Address_Hex kec b" and "length a = length b"
  shows "a = b"
proof -
  let ?n = "keybytesToNibbles"
  have len: "length (?n a) = length (?n b)" using assms(2) by simp
  have "?n a ! i = ?n b ! i" if i: "i < length (?n a)" for i
  proof (rule checksum_char_inj)
    show "?n a ! i < 16" "?n b ! i < 16" using i len nibbles_keybytes [of a] nibbles_keybytes [of b]
      unfolding nibbles_def by (auto simp del: nibbles_keybytes)
    have "map (\<lambda>(i, c). checksum_char (kec (hex_EncodeToString a)) i c) (enumerate 0 (hex_EncodeToString a)) ! i =
      map (\<lambda>(i, c). checksum_char (kec (hex_EncodeToString b)) i c) (enumerate 0 (hex_EncodeToString b)) ! i"
      using assms(1) by (simp add: Address_Hex_def Let_def)
    then show "checksum_char (kec (hex_EncodeToString a)) i (hex_char (?n a ! i)) =
      checksum_char (kec (hex_EncodeToString b)) i (hex_char (?n b ! i))"
      using i len by (simp add: hex_EncodeToString_def nth_enumerate_eq)
  qed
  then have "?n a = ?n b" using len by (rule nth_equalityI [rotated])
  then show ?thesis by (simp add: keybytesToNibbles_inj)
qed

end
