(* ===== verification/Epoch_Context.thy ===== *)
theory Epoch_Context
  imports Dpos_Context Go_Lib "HOL-Library.AList"
begin

text \<open>
  Elections (\<open>src/consensus/dpos/epoch_context.go\<close>): counting the votes, removing validators that
  missed their blocks, finding the validator of a time slot, and electing the validators of a new
  epoch.  Balances are an argument (\<open>GetBalance\<close> of the state).  So are the hash functions, the
  pseudo random numbers, the \<open>k\<close>-th number below \<open>n\<close> drawn after seeding, and the order in which Go
  iterates over a map.  Integers are \<open>int64\<close>; a difference that can leave the range wraps.
\<close>

record election_env =
  ev_kec :: "bytes \<Rightarrow> bytes"
  ev_kec512 :: "bytes \<Rightarrow> bytes"
  ev_db :: database
  ev_rand :: "int \<Rightarrow> nat \<Rightarrow> nat \<Rightarrow> nat"
  ev_order :: "(bytes \<times> int) list \<Rightarrow> (bytes \<times> int) list"

record EpochContext =
  TimeStamp :: int
  ec_context :: DposContext
  ec_balance :: "bytes \<Rightarrow> int"

datatype epoch_error =
    EpochCtx ctx_error
  | NoCandidates
  | FailedToGetValidator ctx_error
  | NoValidatorCouldBeKickout
  | ErrInvalidMintBlockTime
  | FailedToLookupValidator
  | TooFewCandidates
  | EpochPanic

definition blockInterval :: int where
  "blockInterval = 10"

definition epochInterval :: int where
  "epochInterval = 86400"

definition maxValidatorSize :: nat where
  "maxValidatorSize = 3"

definition safeSize :: nat where
  "safeSize = maxValidatorSize * 2 div 3 + 1"

definition consensusSize :: nat where
  "consensusSize = maxValidatorSize * 2 div 3 + 1"

definition set_candidate :: "DposContext \<Rightarrow> trie \<Rightarrow> DposContext" where
  "set_candidate d t = d\<lparr>candidateTrie := t\<rparr>"

definition set_mintCnt :: "DposContext \<Rightarrow> trie \<Rightarrow> DposContext" where
  "set_mintCnt d t = d\<lparr>mintCntTrie := t\<rparr>"

section \<open>Counting votes\<close>

definition add_vote :: "bytes \<Rightarrow> int \<Rightarrow> (bytes \<times> int) list \<Rightarrow> (bytes \<times> int) list" where
  "add_vote candidateAddr weight vs =
     (let score = (case map_of vs candidateAddr of None \<Rightarrow> 0 | Some s \<Rightarrow> s)
      in AList.update candidateAddr (score + weight) vs)"

text \<open>The loop over the delegators of a candidate, entered with the iterator at a delegator.\<close>

partial_function (option) delegator_loop ::
  "(bytes \<Rightarrow> bytes) \<Rightarrow> database \<Rightarrow> (bytes \<Rightarrow> int) \<Rightarrow> bytes \<Rightarrow> iterator \<Rightarrow> (bytes \<times> int) list \<Rightarrow> DposContext
   \<Rightarrow> ((epoch_error + (bytes \<times> int) list) \<times> DposContext) option" where
  "delegator_loop kec db bal candidateAddr it vs d =
     (case Iterator_Next kec db (delegateTrie d) it of
        None \<Rightarrow> None
      | Some (Inl e, t, it') \<Rightarrow> Some (Inl (EpochCtx (CtxTrie e)), set_delegate d t)
      | Some (Inr found, t, it') \<Rightarrow>
          if found
          then delegator_loop kec db bal candidateAddr it' (add_vote candidateAddr (bal (BytesToAddress (value_of it))) vs) (set_delegate d t)
          else Some (Inr (add_vote candidateAddr (bal (BytesToAddress (value_of it))) vs), set_delegate d t))"

text \<open>The votes for one candidate.\<close>

definition count_candidate ::
  "(bytes \<Rightarrow> bytes) \<Rightarrow> database \<Rightarrow> (bytes \<Rightarrow> int) \<Rightarrow> bytes \<Rightarrow> (bytes \<times> int) list \<Rightarrow> DposContext
   \<Rightarrow> ((epoch_error + (bytes \<times> int) list) \<times> DposContext) option" where
  "count_candidate kec db bal candidate vs d =
     (case PrefixIterator kec db (delegateTrie d) candidate of
        None \<Rightarrow> None
      | Some (Inl e, t) \<Rightarrow> Some (Inl (EpochCtx (CtxTrie e)), set_delegate d t)
      | Some (Inr x, t) \<Rightarrow>
          (case Iterator_Next kec db t (NewIterator x) of
             None \<Rightarrow> None
           | Some (Inl e, t', it) \<Rightarrow> Some (Inl (EpochCtx (CtxTrie e)), set_delegate d t')
           | Some (Inr existDelegator, t', it) \<Rightarrow>
               if \<not> existDelegator then Some (Inr (AList.update (BytesToAddress candidate) 0 vs), set_delegate d t')
               else delegator_loop kec db bal (BytesToAddress candidate) it vs (set_delegate d t')))"

partial_function (option) candidate_loop ::
  "(bytes \<Rightarrow> bytes) \<Rightarrow> database \<Rightarrow> (bytes \<Rightarrow> int) \<Rightarrow> iterator \<Rightarrow> (bytes \<times> int) list \<Rightarrow> DposContext
   \<Rightarrow> ((epoch_error + (bytes \<times> int) list) \<times> DposContext) option" where
  "candidate_loop kec db bal it vs d =
     (case count_candidate kec db bal (value_of it) vs d of
        None \<Rightarrow> None
      | Some (Inl e, d1) \<Rightarrow> Some (Inl e, d1)
      | Some (Inr vs', d1) \<Rightarrow>
          (case Iterator_Next kec db (candidateTrie d1) it of
             None \<Rightarrow> None
           | Some (Inl e, t, it') \<Rightarrow> Some (Inl (EpochCtx (CtxTrie e)), set_candidate d1 t)
           | Some (Inr existCandidate, t, it') \<Rightarrow>
               if existCandidate then candidate_loop kec db bal it' vs' (set_candidate d1 t)
               else Some (Inr vs', set_candidate d1 t)))"

definition countVotes ::
  "election_env \<Rightarrow> (bytes \<Rightarrow> int) \<Rightarrow> DposContext \<Rightarrow> ((epoch_error + (bytes \<times> int) list) \<times> DposContext) option" where
  "countVotes ev bal d =
     (case NodeIterator (ev_kec ev) (ev_db ev) (candidateTrie d) [] of
        None \<Rightarrow> None
      | Some (Inl e, t) \<Rightarrow> Some (Inl (EpochCtx (CtxTrie e)), set_candidate d t)
      | Some (Inr x, t) \<Rightarrow>
          (case Iterator_Next (ev_kec ev) (ev_db ev) t (NewIterator x) of
             None \<Rightarrow> None
           | Some (Inl e, t', it) \<Rightarrow> Some (Inl (EpochCtx (CtxTrie e)), set_candidate d t')
           | Some (Inr existCandidate, t', it) \<Rightarrow>
               if \<not> existCandidate then Some (Inl NoCandidates, set_candidate d t')
               else candidate_loop (ev_kec ev) (ev_db ev) bal it [] (set_candidate d t')))"

section \<open>Kicking out validators\<close>

text \<open>\<open>sortableAddresses\<close>: by weight, the heavier first, then by the string of the address.\<close>

definition sortable_Less :: "(bytes \<Rightarrow> bytes) \<Rightarrow> bytes \<times> int \<Rightarrow> bytes \<times> int \<Rightarrow> bool" where
  "sortable_Less kec p q =
     (if snd p < snd q then False
      else if snd p > snd q then True
      else bytes_less (Address_Hex kec (fst p)) (Address_Hex kec (fst q)))"

text \<open>The number of blocks a validator minted in an epoch, and the validators with too few.\<close>

definition mint_count :: "database \<Rightarrow> int \<Rightarrow> bytes \<Rightarrow> DposContext \<Rightarrow> (epoch_error + int) \<times> DposContext" where
  "mint_count db epoch validator d =
     (case on_mintCnt (\<lambda>t. Get db t (BigEndian_PutUint64 (uint64 epoch) @ validator)) d of
        (Inl e, d') \<Rightarrow> (Inl (EpochCtx e), d')
      | (Inr None, d') \<Rightarrow> (Inr 0, d')
      | (Inr (Some cntBytes), d') \<Rightarrow>
          (case BigEndian_Uint64 cntBytes of None \<Rightarrow> Inl EpochPanic | Some n \<Rightarrow> Inr (int64 n), d'))"

fun inactive_validators :: "database \<Rightarrow> int \<Rightarrow> int \<Rightarrow> bytes list \<Rightarrow> DposContext \<Rightarrow> (epoch_error + (bytes \<times> int) list) \<times> DposContext" where
  "inactive_validators db epoch threshold [] d = (Inr [], d)"
| "inactive_validators db epoch threshold (v # vs) d =
     bind_sr (mint_count db epoch v d) (\<lambda>cnt d1.
     bind_sr (inactive_validators db epoch threshold vs d1) (\<lambda>rest d2.
       (Inr (if cnt < threshold then (v, cnt) # rest else rest), d2)))"

text \<open>Counting candidates up to a limit.\<close>

partial_function (option) count_candidates ::
  "(bytes \<Rightarrow> bytes) \<Rightarrow> database \<Rightarrow> nat \<Rightarrow> nat \<Rightarrow> iterator \<Rightarrow> DposContext \<Rightarrow> ((epoch_error + nat) \<times> DposContext) option" where
  "count_candidates kec db limit n it d =
     (case Iterator_Next kec db (candidateTrie d) it of
        None \<Rightarrow> None
      | Some (Inl e, t, it') \<Rightarrow> Some (Inl (EpochCtx (CtxTrie e)), set_candidate d t)
      | Some (Inr found, t, it') \<Rightarrow>
          if \<not> found then Some (Inr n, set_candidate d t)
          else if Suc n \<ge> limit then Some (Inr (Suc n), set_candidate d t)
          else count_candidates kec db limit (Suc n) it' (set_candidate d t))"

fun kickout_each :: "(bytes \<Rightarrow> bytes) \<Rightarrow> database \<Rightarrow> int \<Rightarrow> (bytes \<times> int) list \<Rightarrow> DposContext \<Rightarrow> ((epoch_error + unit) \<times> DposContext) option" where
  "kickout_each kec db candidateCount [] d = Some (Inr (), d)"
| "kickout_each kec db candidateCount (v # vs) d =
     (if candidateCount \<le> int safeSize then Some (Inr (), d)
      else case KickoutCandidate kec db (fst v) d of
          None \<Rightarrow> None
        | Some (Inl e, d') \<Rightarrow> Some (Inl (EpochCtx e), d')
        | Some (Inr _, d') \<Rightarrow> kickout_each kec db (candidateCount - 1) vs d')"

definition epoch_duration :: "int \<Rightarrow> int \<Rightarrow> int" where
  "epoch_duration timeStamp timeOfFirstBlock =
     (if wrap64 (timeStamp - timeOfFirstBlock) < epochInterval then wrap64 (timeStamp - timeOfFirstBlock) else epochInterval)"

definition kickout_threshold :: "int \<Rightarrow> int" where
  "kickout_threshold epochDuration = go_div (go_div (go_div epochDuration blockInterval) (int maxValidatorSize)) 2"

definition kickoutValidator ::
  "election_env \<Rightarrow> int \<Rightarrow> int \<Rightarrow> int \<Rightarrow> DposContext \<Rightarrow> ((epoch_error + unit) \<times> DposContext) option" where
  "kickoutValidator ev timeOfFirstBlock timeStamp epoch d =
     (case GetValidators (ev_db ev) d of
        (Inl e, d1) \<Rightarrow> Some (Inl (FailedToGetValidator e), d1)
      | (Inr validators, d1) \<Rightarrow>
          if validators = [] then Some (Inl NoValidatorCouldBeKickout, d1)
          else (case inactive_validators (ev_db ev) epoch (kickout_threshold (epoch_duration timeStamp timeOfFirstBlock)) validators d1 of
              (Inl e, d2) \<Rightarrow> Some (Inl e, d2)
            | (Inr needKickout, d2) \<Rightarrow>
                if needKickout = [] then Some (Inr (), d2)
                else (case NodeIterator (ev_kec ev) (ev_db ev) (candidateTrie d2) [] of
                    None \<Rightarrow> None
                  | Some (Inl e, t) \<Rightarrow> Some (Inl (EpochCtx (CtxTrie e)), set_candidate d2 t)
                  | Some (Inr x, t) \<Rightarrow>
                      (case count_candidates (ev_kec ev) (ev_db ev) (length needKickout + safeSize) 0 (NewIterator x) (set_candidate d2 t) of
                         None \<Rightarrow> None
                       | Some (Inl e, d3) \<Rightarrow> Some (Inl e, d3)
                       | Some (Inr candidateCount, d3) \<Rightarrow>
                           kickout_each (ev_kec ev) (ev_db ev) (int candidateCount)
                             (sort_by (\<lambda>p q. sortable_Less (ev_kec ev) q p) needKickout) d3))))"

section \<open>The validator of a time slot\<close>

definition lookupValidator :: "database \<Rightarrow> int \<Rightarrow> DposContext \<Rightarrow> (epoch_error + bytes) \<times> DposContext" where
  "lookupValidator db now d =
     (let offset = go_mod now epochInterval in
      if go_mod offset blockInterval \<noteq> 0 then (Inl ErrInvalidMintBlockTime, d)
      else
        (case GetValidators db d of
           (Inl e, d1) \<Rightarrow> (Inl (EpochCtx e), d1)
         | (Inr validators, d1) \<Rightarrow>
             if length validators = 0 then (Inl FailedToLookupValidator, d1)
             else (let i = go_mod (go_div offset blockInterval) (int (length validators)) in
                   (if i < 0 then Inl EpochPanic else Inr (validators ! nat i), d1))))"

section \<open>Electing\<close>

text \<open>The shuffle: the loop from index \<open>i\<close> down to 1; \<open>k\<close> numbers were drawn before.\<close>

definition swap :: "nat \<Rightarrow> nat \<Rightarrow> 'a list \<Rightarrow> 'a list" where
  "swap i j xs = xs[i := xs ! j, j := xs ! i]"

fun shuffle_from :: "(nat \<Rightarrow> nat \<Rightarrow> nat) \<Rightarrow> nat \<Rightarrow> nat \<Rightarrow> 'a list \<Rightarrow> 'a list" where
  "shuffle_from draw k 0 xs = xs"
| "shuffle_from draw k (Suc i) xs = shuffle_from draw (Suc k) i (swap (Suc i) (draw k (Suc i + 1)) xs)"

definition election_seed :: "(bytes \<Rightarrow> bytes) \<Rightarrow> bytes \<Rightarrow> int \<Rightarrow> int option" where
  "election_seed kec512 parentHash i =
     (case LittleEndian_Uint32 (kec512 parentHash) of None \<Rightarrow> None | Some w \<Rightarrow> Some (wrap64 (uint w + i)))"

text \<open>The validators among the counted candidates: the first of the sorted list, shuffled.\<close>

definition elect_validators :: "election_env \<Rightarrow> int \<Rightarrow> (bytes \<times> int) list \<Rightarrow> bytes list" where
  "elect_validators ev seed candidates =
     (let cs = sort_by (sortable_Less (ev_kec ev)) candidates;
          cs = (if length cs > maxValidatorSize then take maxValidatorSize cs else cs)
      in map fst (shuffle_from (ev_rand ev seed) 0 (length cs - 1) cs))"

text \<open>The part of the loop body after the inactive validators are gone.\<close>

definition elect_round ::
  "election_env \<Rightarrow> (bytes \<Rightarrow> int) \<Rightarrow> bytes \<Rightarrow> int \<Rightarrow> DposContext \<Rightarrow> ((epoch_error + unit) \<times> DposContext) option" where
  "elect_round ev bal parentHash i d =
     (case countVotes ev bal d of
        None \<Rightarrow> None
      | Some (Inl e, d1) \<Rightarrow> Some (Inl e, d1)
      | Some (Inr vs, d1) \<Rightarrow>
          (let candidates = ev_order ev vs in
           if length candidates < safeSize then Some (Inl TooFewCandidates, d1)
           else (case election_seed (ev_kec512 ev) parentHash i of
               None \<Rightarrow> Some (Inl EpochPanic, d1)
             | Some seed \<Rightarrow>
                 (case NewEpochTrie zero_hash (dc_db d1) of
                    Inl e \<Rightarrow> Some (Inl EpochPanic, d1)
                  | Inr t \<Rightarrow>
                      (case SetValidators (ev_db ev) (elect_validators ev seed candidates) (SetEpoch t d1) of
                         (Inl (CtxTrie e), d2) \<Rightarrow> Some (Inl (EpochCtx (CtxTrie e)), d2)
                       | (_, d2) \<Rightarrow> Some (Inr (), d2))))))"

partial_function (option) elect_loop ::
  "election_env \<Rightarrow> (bytes \<Rightarrow> int) \<Rightarrow> int \<Rightarrow> int \<Rightarrow> bytes \<Rightarrow> bool \<Rightarrow> int \<Rightarrow> int \<Rightarrow> int \<Rightarrow> iterator \<Rightarrow> DposContext
   \<Rightarrow> ((epoch_error + unit) \<times> DposContext) option" where
  "elect_loop ev bal timeOfFirstBlock timeStamp parentHash prevEpochIsGenesis prevEpoch currentEpoch i it d =
     (if \<not> i < currentEpoch then Some (Inr (), d)
      else
        (case (if prevEpochIsGenesis then Some (Inr False, mintCntTrie d, it)
               else Iterator_Next (ev_kec ev) (ev_db ev) (mintCntTrie d) it) of
           None \<Rightarrow> None
         | Some (Inl e, t, it') \<Rightarrow> Some (Inl (EpochCtx (CtxTrie e)), set_mintCnt d t)
         | Some (Inr kick, t, it') \<Rightarrow>
             (case (if kick then kickoutValidator ev timeOfFirstBlock timeStamp prevEpoch (set_mintCnt d t)
                    else Some (Inr (), set_mintCnt d t)) of
                None \<Rightarrow> None
              | Some (Inl e, d1) \<Rightarrow> Some (Inl e, d1)
              | Some (Inr _, d1) \<Rightarrow>
                  (case elect_round ev bal parentHash i d1 of
                     None \<Rightarrow> None
                   | Some (Inl e, d2) \<Rightarrow> Some (Inl e, d2)
                   | Some (Inr _, d2) \<Rightarrow>
                       elect_loop ev bal timeOfFirstBlock timeStamp parentHash prevEpochIsGenesis prevEpoch currentEpoch (i + 1) it' d2))))"

text \<open>\<open>genesisTime\<close>, \<open>parentTime\<close> and \<open>parentHash\<close> are what the function reads of the two headers.\<close>

definition tryElect ::
  "election_env \<Rightarrow> int \<Rightarrow> int \<Rightarrow> int \<Rightarrow> bytes \<Rightarrow> EpochContext \<Rightarrow> ((epoch_error + unit) \<times> DposContext) option" where
  "tryElect ev timeOfFirstBlock genesisTime parentTime parentHash ec =
     (let genesisEpoch = go_div genesisTime epochInterval;
          prevEpoch0 = go_div parentTime epochInterval;
          currentEpoch = go_div (TimeStamp ec) epochInterval;
          prevEpochIsGenesis = (prevEpoch0 = genesisEpoch);
          prevEpoch = (if prevEpochIsGenesis \<and> prevEpoch0 < currentEpoch then currentEpoch - 1 else prevEpoch0);
          d = ec_context ec
      in case PrefixIterator (ev_kec ev) (ev_db ev) (mintCntTrie d) (BigEndian_PutUint64 (uint64 prevEpoch)) of
           None \<Rightarrow> None
         | Some (Inl e, t) \<Rightarrow> Some (Inl (EpochCtx (CtxTrie e)), set_mintCnt d t)
         | Some (Inr x, t) \<Rightarrow>
             elect_loop ev (ec_balance ec) timeOfFirstBlock (TimeStamp ec) parentHash prevEpochIsGenesis prevEpoch currentEpoch
               prevEpoch (NewIterator x) (set_mintCnt d t))"

end
