(* ===== verification/Log_Bloom.thy ===== *)
theory Log_Bloom
  imports Prelude
begin

unbundle bit_operations_syntax

text \<open>
  The log bloom of a block (\<open>src/core/types/bloom9.go\<close>): 2048 bits, three of them set for the address
  and every topic of every log.  Keccak-256 is the argument \<open>kec\<close>; \<open>big.Int\<close> values that are never
  negative are \<open>nat\<close>.
\<close>

definition BloomByteLength :: nat where
  "BloomByteLength = 256"

definition BloomBitLength :: nat where
  "BloomBitLength = 8 * BloomByteLength"

record Log =
  log_Address :: bytes
  log_Topics :: "bytes list"
  log_Data :: bytes
  log_BlockNumber :: u64
  log_TxHash :: bytes
  log_TxIndex :: nat
  log_BlockHash :: bytes
  log_Index :: nat
  log_Removed :: bool

text \<open>\<open>SetBytes\<close> writes to the end of a bloom; \<open>None\<close> is its panic on too many bytes.\<close>

definition Bloom_SetBytes :: "bytes \<Rightarrow> bytes \<Rightarrow> bytes option" where
  "Bloom_SetBytes d b =
     (if BloomByteLength < length d then None
      else Some (take (BloomByteLength - length d) b @ d))"

definition BytesToBloom :: "bytes \<Rightarrow> bytes option" where
  "BytesToBloom b = Bloom_SetBytes b (replicate BloomByteLength 0)"

definition Bloom_Big :: "bytes \<Rightarrow> nat" where
  "Bloom_Big b = be_nat b"

definition bloom9_bit :: "bytes \<Rightarrow> nat \<Rightarrow> nat" where
  "bloom9_bit h i = (unat (h ! (i + 1)) + push_bit 8 (unat (h ! i))) AND 2047"

definition bloom9 :: "(bytes \<Rightarrow> bytes) \<Rightarrow> bytes \<Rightarrow> nat" where
  "bloom9 kec b = (let h = kec b in fold (\<lambda>i r. r OR push_bit (bloom9_bit h i) 1) [0, 2, 4] 0)"

definition LogsBloom :: "(bytes \<Rightarrow> bytes) \<Rightarrow> Log list \<Rightarrow> nat" where
  "LogsBloom kec logs =
     fold (\<lambda>l bin. fold (\<lambda>t bin. bin OR bloom9 kec t) (log_Topics l) (bin OR bloom9 kec (log_Address l))) logs 0"

definition CreateBloom :: "(bytes \<Rightarrow> bytes) \<Rightarrow> Log list list \<Rightarrow> bytes option" where
  "CreateBloom kec receipts = BytesToBloom (nat_bytes (fold (\<lambda>logs bin. bin OR LogsBloom kec logs) receipts 0))"

definition BloomLookup :: "(bytes \<Rightarrow> bytes) \<Rightarrow> bytes \<Rightarrow> bytes \<Rightarrow> bool" where
  "BloomLookup kec bin topic \<longleftrightarrow> Bloom_Big bin AND bloom9 kec topic = bloom9 kec topic"

text \<open>\<open>Add\<close> and \<open>Test\<close> take a \<open>big.Int\<close>, whose \<open>Bytes\<close> have no leading zeros.\<close>

definition Bloom_Add :: "(bytes \<Rightarrow> bytes) \<Rightarrow> nat \<Rightarrow> bytes \<Rightarrow> bytes option" where
  "Bloom_Add kec d b = Bloom_SetBytes (nat_bytes (be_nat b OR bloom9 kec (nat_bytes d))) b"

definition Bloom_Test :: "(bytes \<Rightarrow> bytes) \<Rightarrow> bytes \<Rightarrow> nat \<Rightarrow> bool" where
  "Bloom_Test kec b test = BloomLookup kec b (nat_bytes test)"

definition Bloom_TestBytes :: "(bytes \<Rightarrow> bytes) \<Rightarrow> bytes \<Rightarrow> bytes \<Rightarrow> bool" where
  "Bloom_TestBytes kec b test = Bloom_Test kec b (be_nat test)"

section \<open>Bits\<close>

definition covers :: "nat \<Rightarrow> nat \<Rightarrow> bool" where
  "covers x y \<longleftrightarrow> x AND y = y"

lemma covers_bits: "covers x y \<longleftrightarrow> (\<forall>i. bit y i \<longrightarrow> bit x i)"
  by (auto simp: covers_def bit_eq_iff bit_simps)

lemma covers_refl [simp]: "covers x x"
  by (simp add: covers_bits)

lemma covers_0 [simp]: "covers x 0"
  by (simp add: covers_def)

lemma covers_or: "covers x z \<or> covers y z \<Longrightarrow> covers (x OR y) z"
  by (auto simp: covers_bits bit_simps)

lemma covers_trans: "covers x y \<Longrightarrow> covers y z \<Longrightarrow> covers x z"
  by (auto simp: covers_bits)

lemma covers_fold:
  fixes f :: "'a \<Rightarrow> nat"
  shows "covers (fold (\<lambda>a bin. bin OR f a) xs z) z" and "a \<in> set xs \<Longrightarrow> covers (fold (\<lambda>a bin. bin OR f a) xs z) (f a)"
proof -
  have mono: "covers (fold (\<lambda>a bin. bin OR f a) xs z) z" for xs z
  proof (induction xs arbitrary: z)
    case (Cons x xs)
    then show ?case using covers_trans [OF Cons, of "z OR f x" z] by (auto simp: covers_or)
  qed simp
  then show "covers (fold (\<lambda>a bin. bin OR f a) xs z) z" .
  show "a \<in> set xs \<Longrightarrow> covers (fold (\<lambda>a bin. bin OR f a) xs z) (f a)"
  proof (induction xs arbitrary: z)
    case (Cons x xs)
    then show ?case using covers_trans [OF mono, of "z OR f x" "f x" xs] by (auto simp: covers_or)
  qed simp
qed

lemma or_less_power:
  fixes x y :: nat
  assumes "x < 2 ^ n" and "y < 2 ^ n"
  shows "x OR y < 2 ^ n"
proof -
  have "take_bit n (x OR y) = x OR y" using assms by (simp add: take_bit_or take_bit_nat_eq_self)
  then show ?thesis by (metis take_bit_nat_less_exp)
qed

lemma fold_or_less:
  fixes f :: "'a \<Rightarrow> nat"
  assumes "\<forall>a \<in> set xs. f a < 2 ^ n" and "z < 2 ^ n"
  shows "fold (\<lambda>a bin. bin OR f a) xs z < 2 ^ n"
  using assms by (induction xs arbitrary: z) (auto simp: or_less_power)

section \<open>No false negatives\<close>

lemma bloom9_bit_less: "bloom9_bit h i < BloomBitLength"
proof -
  have "bloom9_bit h i = take_bit 11 (unat (h ! (i + 1)) + push_bit 8 (unat (h ! i)))"
    by (simp add: bloom9_bit_def take_bit_eq_mask mask_eq_exp_minus_1)
  also have "\<dots> < 2 ^ 11" by (rule take_bit_nat_less_exp)
  finally show ?thesis by (simp add: BloomBitLength_def BloomByteLength_def)
qed

lemma bloom9_less: "bloom9 kec b < 2 ^ BloomBitLength"
  unfolding bloom9_def Let_def by (rule fold_or_less) (auto simp: push_bit_eq_mult bloom9_bit_less)

definition log_entries :: "Log \<Rightarrow> bytes list" where
  "log_entries l = log_Address l # log_Topics l"

lemma LogsBloom_entries:
  "LogsBloom kec logs = fold (\<lambda>t bin. bin OR bloom9 kec t) (concat (map log_entries logs)) 0"
proof -
  have "fold (\<lambda>l bin. fold (\<lambda>t bin. bin OR bloom9 kec t) (log_Topics l) (bin OR bloom9 kec (log_Address l))) logs z =
    fold (\<lambda>t bin. bin OR bloom9 kec t) (concat (map log_entries logs)) z" for z
    by (induction logs arbitrary: z) (simp_all add: log_entries_def)
  then show ?thesis by (simp add: LogsBloom_def)
qed

lemma LogsBloom_less: "LogsBloom kec logs < 2 ^ BloomBitLength"
  unfolding LogsBloom_entries by (rule fold_or_less) (auto simp: bloom9_less)

lemma BytesToBloom_ok:
  assumes "n < 2 ^ BloomBitLength"
  shows "\<exists>b. BytesToBloom (nat_bytes n) = Some b \<and> Bloom_Big b = n \<and> length b = BloomByteLength"
proof -
  have "length (nat_bytes n) \<le> BloomByteLength"
    using length_nat_bytes_le [of n BloomByteLength] assms by (simp add: BloomBitLength_def power_mult)
  moreover have "be_nat (replicate k 0 @ xs) = be_nat xs" for k xs by (induction k) (simp_all add: be_nat_Cons)
  ultimately show ?thesis
    by (simp add: BytesToBloom_def Bloom_SetBytes_def Bloom_Big_def be_nat_nat_bytes BloomByteLength_def)
qed

text \<open>C26.  The bloom of a block has no false negatives, and building it does not panic: a lookup of the
  address or of a topic of any log of any receipt succeeds.\<close>

theorem CreateBloom_complete:
  "\<exists>bloom. CreateBloom kec receipts = Some bloom \<and> length bloom = BloomByteLength \<and>
    list_all (list_all (\<lambda>l. BloomLookup kec bloom (log_Address l) \<and> list_all (BloomLookup kec bloom) (log_Topics l))) receipts"
proof -
  let ?bin = "fold (\<lambda>logs bin. bin OR LogsBloom kec logs) receipts 0"
  have "?bin < 2 ^ BloomBitLength" by (rule fold_or_less) (auto simp: LogsBloom_less)
  from BytesToBloom_ok [OF this] obtain bloom where b: "CreateBloom kec receipts = Some bloom" "Bloom_Big bloom = ?bin" "length bloom = BloomByteLength"
    by (auto simp: CreateBloom_def)
  have "BloomLookup kec bloom t" if "logs \<in> set receipts" "l \<in> set logs" "t \<in> set (log_entries l)" for logs l t
  proof -
    have "covers (LogsBloom kec logs) (bloom9 kec t)" unfolding LogsBloom_entries using that(2,3) by (intro covers_fold(2)) auto
    with covers_fold(2) [OF that(1), of "LogsBloom kec" 0] have "covers ?bin (bloom9 kec t)" by (rule covers_trans)
    then show ?thesis by (simp add: BloomLookup_def b(2) covers_def)
  qed
  then show ?thesis using b by (auto simp: list_all_iff log_entries_def)
qed

lemma be_nat_append: "be_nat (xs @ ys) = be_nat xs * 256 ^ length ys + be_nat ys"
  by (induction ys rule: rev_induct) (simp_all add: be_nat_snoc append_assoc [symmetric] algebra_simps del: append_assoc)

lemma covers_le: "covers x y \<Longrightarrow> y \<le> x"
  unfolding covers_def by (metis AND_upper1 of_nat_0_le_iff of_nat_and_eq of_nat_le_iff)

text \<open>What was added to a bloom tests positive, and adding never removes an entry.\<close>

lemma Bloom_Add_Test:
  assumes "length b = BloomByteLength"
  shows "\<exists>b'. Bloom_Add kec d b = Some b' \<and> length b' = BloomByteLength \<and>
    (\<forall>e. e = d \<or> Bloom_Test kec b e \<longrightarrow> Bloom_Test kec b' e)"
proof -
  let ?n = "be_nat b OR bloom9 kec (nat_bytes d)"
  let ?d = "nat_bytes ?n" and ?k = "BloomByteLength - length (nat_bytes ?n)"
  have "be_nat b < 2 ^ BloomBitLength" using be_nat_less [of b] assms by (simp add: BloomBitLength_def power_mult)
  then have n: "?n < 2 ^ BloomBitLength" by (rule or_less_power) (rule bloom9_less)
  have len: "length ?d \<le> BloomByteLength"
    using length_nat_bytes_le [of ?n BloomByteLength] n by (simp add: BloomBitLength_def power_mult)
  have "be_nat (take ?k b) * 256 ^ length ?d \<le> be_nat b"
    using be_nat_append [of "take ?k b" "drop ?k b"] assms len by simp
  also have "\<dots> \<le> ?n" by (rule covers_le) (simp add: covers_or)
  also have "\<dots> < 256 ^ length ?d" using be_nat_less [of ?d] by simp
  finally have "be_nat (take ?k b) = 0" by simp
  then have "Bloom_Big (take ?k b @ ?d) = ?n" by (simp add: Bloom_Big_def be_nat_append)
  moreover have "covers ?n (bloom9 kec (nat_bytes e))" if "e = d \<or> covers (be_nat b) (bloom9 kec (nat_bytes e))" for e
    using that by (auto simp: covers_or)
  ultimately show ?thesis using assms len
    by (auto simp: Bloom_Add_def Bloom_SetBytes_def Bloom_Test_def BloomLookup_def Bloom_Big_def covers_def)
qed

lemma nat_bytes_dropWhile: "nat_bytes (be_nat t) = dropWhile (\<lambda>x. x = 0) t"
proof (induction t)
  case Nil
  then show ?case by (simp add: nat_bytes.simps [of 0])
next
  case (Cons x t)
  show ?case
  proof (cases "x = 0")
    case False
    have "be_nat (nat_bytes (be_nat (x # t))) = be_nat (x # t)" by (rule be_nat_nat_bytes)
    moreover have pos: "be_nat (x # t) \<noteq> 0" using False by (simp add: be_nat_Cons unat_eq_0)
    then have "hd (nat_bytes (be_nat (x # t))) \<noteq> 0" "nat_bytes (be_nat (x # t)) \<noteq> []"
      using hd_nat_bytes [of "be_nat (x # t)"] by (simp, subst nat_bytes.simps) simp
    ultimately show ?thesis using False by (auto intro!: be_nat_canonical)
  qed (use Cons in \<open>simp add: be_nat_Cons\<close>)
qed

text \<open>C27.  \<open>Add\<close> on a bloom does not panic; what was added tests positive and nothing that tested
  positive is lost.  \<open>TestBytes\<close> goes through a \<open>big.Int\<close>, so for every hash function it looks up the
  bytes without their leading zeros: addresses and topics that start with a zero byte, which the bloom
  of a block hashes as they are, are looked up under another hash.\<close>

theorem Bloom_Add_complete:
  assumes "length b = BloomByteLength"
  shows "\<exists>b'. Bloom_Add kec d b = Some b' \<and> length b' = BloomByteLength \<and> Bloom_Test kec b' d \<and>
    (\<forall>e. Bloom_Test kec b e \<longrightarrow> Bloom_Test kec b' e) \<and>
    (\<forall>t. Bloom_TestBytes kec b' t \<longleftrightarrow> BloomLookup kec b' (dropWhile (\<lambda>x. x = 0) t))"
  using Bloom_Add_Test [OF assms, of kec d] by (auto simp: Bloom_TestBytes_def Bloom_Test_def nat_bytes_dropWhile)

theorem Bloom_Add_complete_witness:
  "\<exists>b. Bloom_Add (\<lambda>x. replicate 32 (word_of_nat (length x))) 7 (replicate 256 0) = Some b \<and> Bloom_Test (\<lambda>x. replicate 32 (word_of_nat (length x))) b 7"
  using Bloom_Add_complete [of "replicate 256 0" "\<lambda>x. replicate 32 (word_of_nat (length x))" 7] by (auto simp: BloomByteLength_def)

end
