(* ===== verification/Block_Types.thy ===== *)
theory Block_Types
  imports Dpos_Context Go_Lib Rlp_Decode Log_Bloom
begin

text \<open>
  Block headers and blocks (\<open>src/core/types/block.go\<close>, \<open>src/core/types/derive_sha.go\<close>).  Pointer
  fields are options, \<open>None\<close> the nil pointer.  Transactions and receipts occur only through the
  interface \<open>DerivableList\<close>: a transaction is its RLP encoding, a receipt its encoding and its logs.
\<close>

record Header =
  h_ParentHash :: bytes
  h_UncleHash :: bytes
  h_Validator :: bytes
  h_Coinbase :: bytes
  h_Root :: bytes
  h_TxHash :: bytes
  h_ReceiptHash :: bytes
  h_DposContext :: "DposContextProto option"
  h_Bloom :: bytes
  h_Difficulty :: "int option"
  h_Number :: "int option"
  h_GasLimit :: "int option"
  h_GasUsed :: "int option"
  h_Time :: "int option"
  h_Extra :: bytes
  h_MixDigest :: bytes
  h_Nonce :: bytes

record Receipt =
  rc_rlp :: bytes
  rc_Logs :: "Log list"

record Block =
  b_header :: Header
  b_uncles :: "Header list"
  b_transactions :: "bytes list"
  b_DposContext :: "DposContext option"

section \<open>Hashes of headers\<close>

text \<open>\<open>rlp.Encode\<close> writes nothing when it fails, so an error hashes the empty string.\<close>

definition rlpHash :: "(bytes \<Rightarrow> bytes) \<Rightarrow> rval \<Rightarrow> bytes" where
  "rlpHash kec x = kec (case EncodeToBytes x of Inl _ \<Rightarrow> [] | Inr b \<Rightarrow> b)"

definition proto_rval :: "DposContextProto option \<Rightarrow> rval" where
  "proto_rval p =
     (case p of
        None \<Rightarrow> ListV []
      | Some q \<Rightarrow> ListV [BytesV (EpochHash q), BytesV (DelegateHash q), BytesV (CandidateHash q), BytesV (VoteHash q), BytesV (MintCntHash q)])"

definition header_rval :: "Header \<Rightarrow> rval" where
  "header_rval h =
     ListV [BytesV (h_ParentHash h), BytesV (h_UncleHash h), BytesV (h_Validator h), BytesV (h_Coinbase h), BytesV (h_Root h),
       BytesV (h_TxHash h), BytesV (h_ReceiptHash h), proto_rval (h_DposContext h), BytesV (h_Bloom h), BigV (h_Difficulty h),
       BigV (h_Number h), BigV (h_GasLimit h), BigV (h_GasUsed h), BigV (h_Time h), BytesV (h_Extra h), BytesV (h_MixDigest h),
       BytesV (h_Nonce h)]"

definition Header_Hash :: "(bytes \<Rightarrow> bytes) \<Rightarrow> Header \<Rightarrow> bytes" where
  "Header_Hash kec h = rlpHash kec (header_rval h)"

definition Header_HashNoNonce :: "(bytes \<Rightarrow> bytes) \<Rightarrow> Header \<Rightarrow> bytes" where
  "Header_HashNoNonce kec h =
     rlpHash kec (ListV [BytesV (h_ParentHash h), BytesV (h_UncleHash h), BytesV (h_Validator h), BytesV (h_Coinbase h),
       BytesV (h_Root h), BytesV (h_TxHash h), BytesV (h_ReceiptHash h), BytesV (h_Bloom h), BigV (h_Difficulty h),
       BigV (h_Number h), BigV (h_GasLimit h), BigV (h_GasUsed h), BigV (h_Time h), BytesV (h_Extra h)])"

definition CalcUncleHash :: "(bytes \<Rightarrow> bytes) \<Rightarrow> Header list \<Rightarrow> bytes" where
  "CalcUncleHash kec uncles = rlpHash kec (ListV (map header_rval uncles))"

definition EncodeNonce :: "u64 \<Rightarrow> bytes" where
  "EncodeNonce i = BigEndian_PutUint64 i"

definition BlockNonce_Uint64 :: "bytes \<Rightarrow> u64 option" where
  "BlockNonce_Uint64 n = BigEndian_Uint64 n"

section \<open>Building blocks\<close>

definition zero_proto :: DposContextProto where
  "zero_proto = \<lparr>EpochHash = zero_hash, DelegateHash = zero_hash, CandidateHash = zero_hash, VoteHash = zero_hash, MintCntHash = zero_hash\<rparr>"

definition or_zero :: "int option \<Rightarrow> int option" where
  "or_zero x = (case x of None \<Rightarrow> Some 0 | Some i \<Rightarrow> Some i)"

definition CopyHeader :: "Header \<Rightarrow> Header" where
  "CopyHeader h =
     h\<lparr>h_Time := or_zero (h_Time h), h_Difficulty := or_zero (h_Difficulty h), h_Number := or_zero (h_Number h),
       h_GasLimit := or_zero (h_GasLimit h), h_GasUsed := or_zero (h_GasUsed h),
       h_DposContext := (case h_DposContext h of None \<Rightarrow> Some zero_proto | Some p \<Rightarrow> Some p)\<rparr>"

text \<open>\<open>DeriveSha\<close>: the root of the trie that maps the encoded positions to the entries.\<close>

definition zero_trie :: trie where
  "zero_trie = \<lparr>tr_root = NilNode, tr_originalRoot = zero_hash, tr_prefix = None, tr_cachegen = 0, tr_cachelimit = 0\<rparr>"

fun derive_update :: "bytes list \<Rightarrow> nat \<Rightarrow> trie \<Rightarrow> (trie_error + unit) \<times> trie" where
  "derive_update [] i t = (Inr (), t)"
| "derive_update (v # vs) i t =
     bind_sr (Update Map.empty t (case EncodeToBytes (UintV (word_of_nat i)) of Inl _ \<Rightarrow> [] | Inr k \<Rightarrow> k) v) (\<lambda>_ t'.
       derive_update vs (i + 1) t')"

definition DeriveSha :: "(bytes \<Rightarrow> bytes) \<Rightarrow> bytes list \<Rightarrow> trie_error + bytes" where
  "DeriveSha kec list = fst (bind_sr (derive_update list 0 zero_trie) (\<lambda>_ t. Hash kec t))"

text \<open>\<open>NewBlock\<close>; \<open>Inl\<close> is a panic of the trie or the bloom below it.\<close>

definition NewBlock :: "(bytes \<Rightarrow> bytes) \<Rightarrow> Header \<Rightarrow> bytes list \<Rightarrow> Header list \<Rightarrow> Receipt list \<Rightarrow> trie_error + Block" where
  "NewBlock kec header txs uncles receipts =
     bind_result (DeriveSha kec txs) (\<lambda>txHash.
     bind_result (DeriveSha kec (map rc_rlp receipts)) (\<lambda>receiptHash.
     bind_result (if receipts = [] then Inr (h_Bloom header)
                  else (case CreateBloom kec (map rc_Logs receipts) of None \<Rightarrow> Inl TriePanic | Some b \<Rightarrow> Inr b)) (\<lambda>bloom.
       Inr \<lparr>b_header = (CopyHeader header)\<lparr>h_TxHash := txHash, h_ReceiptHash := receiptHash, h_Bloom := bloom,
              h_UncleHash := CalcUncleHash kec uncles\<rparr>,
            b_uncles = map CopyHeader uncles, b_transactions = txs, b_DposContext = None\<rparr>)))"

definition NewBlockWithHeader :: "Header \<Rightarrow> Block" where
  "NewBlockWithHeader h = \<lparr>b_header = CopyHeader h, b_uncles = [], b_transactions = [], b_DposContext = None\<rparr>"

definition Block_Header :: "Block \<Rightarrow> Header" where
  "Block_Header b = CopyHeader (b_header b)"

definition WithSeal :: "Header \<Rightarrow> Block \<Rightarrow> Block" where
  "WithSeal header b =
     \<lparr>b_header = header, b_uncles = b_uncles b, b_transactions = b_transactions b, b_DposContext = b_DposContext b\<rparr>"

definition WithBody :: "bytes list \<Rightarrow> Header list \<Rightarrow> Block \<Rightarrow> Block" where
  "WithBody transactions uncles b =
     \<lparr>b_header = CopyHeader (b_header b), b_uncles = map CopyHeader uncles, b_transactions = transactions, b_DposContext = None\<rparr>"

section \<open>What a header hash covers\<close>

text \<open>A header as it is decoded: no nil pointers, no negative numbers.\<close>

definition big_ok :: "int option \<Rightarrow> bool" where
  "big_ok x \<longleftrightarrow> (case x of None \<Rightarrow> False | Some i \<Rightarrow> 0 \<le> i)"

definition header_ok :: "Header \<Rightarrow> bool" where
  "header_ok h \<longleftrightarrow> h_DposContext h \<noteq> None \<and> big_ok (h_Difficulty h) \<and> big_ok (h_Number h) \<and> big_ok (h_GasLimit h) \<and>
     big_ok (h_GasUsed h) \<and> big_ok (h_Time h) \<and> length (rlp_encode (item_of (header_rval h))) < 2 ^ 64"

lemma rlp_encode_inj:
  assumes "rlp_encode x = rlp_encode y" and "length (rlp_encode x) < 2 ^ 64"
  shows "x = y"
  using decode_item_encode item_small_length assms by (metis sum.inject(2))

lemma nat_bytes_inj: "nat_bytes m = nat_bytes n \<longleftrightarrow> m = n"
  by (metis be_nat_nat_bytes)

lemma big_ok_inj:
  assumes "big_ok x" and "big_ok y" and "item_of (BigV x) = item_of (BigV y)"
  shows "x = y"
  using assms by (auto simp: big_ok_def nat_bytes_inj split: option.splits)

lemma proto_rval_inj: "p \<noteq> None \<Longrightarrow> q \<noteq> None \<Longrightarrow> item_of (proto_rval p) = item_of (proto_rval q) \<Longrightarrow> p = q"
  by (auto simp: proto_rval_def)

lemma header_ok_encodable: "header_ok h \<Longrightarrow> encodable (header_rval h)"
  by (auto simp: header_ok_def header_rval_def big_ok_def proto_rval_def split: option.splits)

lemma header_encode:
  "header_ok h \<Longrightarrow> EncodeToBytes (header_rval h) = Inr (rlp_encode (item_of (header_rval h)))"
  using EncodeToBytes_ok header_ok_encodable by (simp add: header_ok_def)

lemma header_encode_inj:
  assumes "header_ok h" and "header_ok h'" and "EncodeToBytes (header_rval h) = EncodeToBytes (header_rval h')"
  shows "h = h'"
proof -
  have "item_of (header_rval h) = item_of (header_rval h')"
    using assms header_encode [OF assms(1)] header_encode [OF assms(2)] rlp_encode_inj by (simp add: header_ok_def)
  then have e: "item_of (BigV (f h)) = item_of (BigV (f h'))" if "f \<in> {h_Difficulty, h_Number, h_GasLimit, h_GasUsed, h_Time}" for f
    using that unfolding header_rval_def by auto
  have "item_of (proto_rval (h_DposContext h)) = item_of (proto_rval (h_DposContext h'))"
    using \<open>item_of (header_rval h) = _\<close> unfolding header_rval_def by auto
  then have p: "h_DposContext h = h_DposContext h'" using assms(1,2) by (intro proto_rval_inj) (simp_all add: header_ok_def)
  have b: "f h = f h'" if "f \<in> {h_Difficulty, h_Number, h_GasLimit, h_GasUsed, h_Time}" for f
    using e [OF that] that assms(1,2) big_ok_inj unfolding header_ok_def by blast
  show ?thesis
    using \<open>item_of (header_rval h) = _\<close> p b [of h_Difficulty] b [of h_Number] b [of h_GasLimit] b [of h_GasUsed] b [of h_Time]
    unfolding header_rval_def by (cases h, cases h') simp
qed

text \<open>C28.  A header hash commits to every field: two decoded headers with the same hash are equal, or
  the encodings of these two headers differ and the hash function collides on them.\<close>

theorem Header_Hash_commits:
  assumes "header_ok h" and "header_ok h'" and "Header_Hash kec h = Header_Hash kec h'"
  shows "h = h' \<or> (\<exists>x y. EncodeToBytes (header_rval h) = Inr x \<and> EncodeToBytes (header_rval h') = Inr y \<and> x \<noteq> y \<and> kec x = kec y)"
proof (cases "EncodeToBytes (header_rval h) = EncodeToBytes (header_rval h')")
  case True
  then show ?thesis using header_encode_inj [OF assms(1,2)] by blast
next
  case False
  then show ?thesis using assms(3) header_encode [OF assms(1)] header_encode [OF assms(2)]
    by (auto simp: Header_Hash_def rlpHash_def)
qed

definition sample_header :: Header where
  "sample_header = \<lparr>h_ParentHash = zero_hash, h_UncleHash = zero_hash, h_Validator = replicate 20 1, h_Coinbase = replicate 20 1,
     h_Root = zero_hash, h_TxHash = zero_hash, h_ReceiptHash = zero_hash, h_DposContext = Some zero_proto, h_Bloom = replicate 256 0,
     h_Difficulty = Some 1, h_Number = Some 0, h_GasLimit = Some 0, h_GasUsed = Some 0, h_Time = Some 0,
     h_Extra = replicate 97 0, h_MixDigest = zero_hash, h_Nonce = replicate 8 0\<rparr>"

fun item_bound :: "item \<Rightarrow> nat" where
  "item_bound (Str b) = length b + 9"
| "item_bound (Lst xs) = sum_list (map item_bound xs) + 9"

lemma length_rlp_encode_le: "length (rlp_encode x) \<le> item_bound x"
proof (induction x)
  case (Str b)
  then show ?case using length_putint(2) by (simp add: puthead_def)
next
  case (Lst xs)
  have p: "length (puthead 0xC0 0xF7 sz) \<le> 9" for sz using length_putint(2) by (simp add: puthead_def)
  have "length (concat (map rlp_encode xs)) \<le> sum_list (map item_bound xs)"
    using Lst by (induction xs) fastforce+
  with p [of "word_of_nat (length (concat (map rlp_encode xs)))"] show ?case
    unfolding rlp_encode.simps Let_def length_append item_bound.simps by linarith
qed

lemma nat_bytes_small: "length (nat_bytes n) \<le> n"
proof (rule length_nat_bytes_le)
  have "n < 2 ^ n" by (rule less_exp)
  also have "(2 :: nat) ^ n \<le> 256 ^ n" by (rule power_mono) simp_all
  finally show "n < 256 ^ n" .
qed

lemma sample_header_ok: "header_ok sample_header"
proof -
  have "length (rlp_encode (item_of (header_rval sample_header))) \<le> item_bound (item_of (header_rval sample_header))"
    by (rule length_rlp_encode_le)
  also have "\<dots> < 2 ^ 64"
    using nat_bytes_small [of 1] by (simp add: nat_bytes.simps [of 0] header_rval_def sample_header_def proto_rval_def zero_hash_def zero_proto_def)
  finally show ?thesis by (simp add: header_ok_def big_ok_def sample_header_def)
qed

lemma sample_nonce_ok: "header_ok (sample_header\<lparr>h_Nonce := replicate 8 1\<rparr>)"
proof -
  let ?h = "sample_header\<lparr>h_Nonce := replicate 8 1\<rparr>"
  have "length (rlp_encode (item_of (header_rval ?h))) \<le> item_bound (item_of (header_rval ?h))"
    by (rule length_rlp_encode_le)
  also have "\<dots> < 2 ^ 64"
    using nat_bytes_small [of 1] by (simp add: nat_bytes.simps [of 0] header_rval_def sample_header_def proto_rval_def zero_hash_def zero_proto_def)
  finally show ?thesis by (simp add: header_ok_def big_ok_def sample_header_def)
qed

text \<open>Two headers that differ in the nonce and a hash function that does not tell them apart.\<close>

theorem Header_Hash_commits_witness:
  "\<exists>x y. EncodeToBytes (header_rval sample_header) = Inr x \<and>
    EncodeToBytes (header_rval (sample_header\<lparr>h_Nonce := replicate 8 1\<rparr>)) = Inr y \<and> x \<noteq> y"
proof -
  let ?kec = "\<lambda>x :: bytes. replicate 32 0 :: bytes" and ?h = "sample_header\<lparr>h_Nonce := replicate 8 1\<rparr>"
  have "Header_Hash ?kec sample_header = Header_Hash ?kec ?h"
    using header_encode [OF sample_header_ok] header_encode [OF sample_nonce_ok] by (simp add: Header_Hash_def rlpHash_def)
  moreover have "sample_header \<noteq> ?h" by (simp add: sample_header_def)
  ultimately show ?thesis using Header_Hash_commits [OF sample_header_ok sample_nonce_ok] by blast
qed

section \<open>The root over a list\<close>

definition derive_key :: "nat \<Rightarrow> bytes" where
  "derive_key i = rlp_encode (Str (nat_bytes i))"

lemma length_derive_key: "i < 2 ^ 64 \<Longrightarrow> length (derive_key i) < 2 ^ 64"
  using length_rlp_encode_le [of "Str (nat_bytes i)"] length_nat_bytes_le [of i 8] by (simp add: derive_key_def del: rlp_encode.simps)

lemma derive_key_inj: "i < 2 ^ 64 \<Longrightarrow> derive_key i = derive_key j \<Longrightarrow> i = j"
  using rlp_encode_inj [of "Str (nat_bytes i)" "Str (nat_bytes j)"] length_derive_key [of i] by (simp add: derive_key_def nat_bytes_inj del: rlp_encode.simps)

lemma derive_key_encode: "i < 2 ^ 64 \<Longrightarrow> EncodeToBytes (UintV (word_of_nat i)) = Inr (derive_key i)"
  using EncodeToBytes_ok [of "UintV (word_of_nat i)"] length_derive_key [of i]
  by (simp add: derive_key_def unat_of_nat_u64 del: rlp_encode.simps)

lemma derive_update_ok:
  assumes "trie_wf Map.empty t" and "\<forall>v \<in> set vs. v \<noteq> []" and "i + length vs \<le> 2 ^ 64"
  shows "\<exists>t'. derive_update vs i t = (Inr (), t') \<and> trie_wf Map.empty t' \<and>
    (\<forall>j < length vs. trie_map Map.empty t' (derive_key (i + j)) = Some (vs ! j)) \<and>
    (\<forall>k. (\<forall>j < length vs. k \<noteq> derive_key (i + j)) \<longrightarrow> trie_map Map.empty t' k = trie_map Map.empty t k)"
  using assms
proof (induction vs arbitrary: i t)
  case (Cons v vs)
  have i: "i < 2 ^ 64" using Cons.prems(3) by simp
  from put_spec [OF Cons.prems(1), of v "derive_key i"] Cons.prems(2) obtain t1 where
    t1: "TryUpdate Map.empty t (derive_key i) v = (Inr (), t1)" "trie_wf Map.empty t1"
      "trie_map Map.empty t1 = (trie_map Map.empty t)(derive_key i \<mapsto> v)" by auto
  from Cons.IH [OF t1(2), of "Suc i"] Cons.prems(2,3) obtain t' where
    t': "derive_update vs (Suc i) t1 = (Inr (), t')" "trie_wf Map.empty t'"
      "\<forall>j < length vs. trie_map Map.empty t' (derive_key (Suc i + j)) = Some (vs ! j)"
      "\<forall>k. (\<forall>j < length vs. k \<noteq> derive_key (Suc i + j)) \<longrightarrow> trie_map Map.empty t' k = trie_map Map.empty t1 k" by auto
  have "\<forall>j < length vs. derive_key i \<noteq> derive_key (Suc i + j)" using derive_key_inj [OF i] by fastforce
  with t'(4) t1(3) have "trie_map Map.empty t' (derive_key i) = Some v" by simp
  then have "trie_map Map.empty t' (derive_key (i + j)) = Some ((v # vs) ! j)" if "j < length (v # vs)" for j
    using that t'(3) by (cases j) auto
  moreover have "trie_map Map.empty t' k = trie_map Map.empty t k" if "\<forall>j < length (v # vs). k \<noteq> derive_key (i + j)" for k
  proof -
    have "k \<noteq> derive_key i" "\<forall>j < length vs. k \<noteq> derive_key (Suc i + j)"
      using that [rule_format, of 0] that [rule_format, of "Suc _"] by auto
    then show ?thesis using t'(4) t1(3) by simp
  qed
  ultimately show ?case using t'(1,2) t1 derive_key_encode [OF i] by (simp add: Update_def)
qed simp

text \<open>C29.  \<open>DeriveSha\<close> of a list of non-empty entries does not fail, and it is the root hash of a canonical
  trie that holds the entries under their encoded positions and nothing else.\<close>

theorem DeriveSha_content:
  assumes "\<forall>v \<in> set list. v \<noteq> []" and "length list \<le> 2 ^ 64"
  shows "\<exists>t h. DeriveSha kec list = Inr h \<and> fst (Hash kec t) = Inr h \<and> trie_wf Map.empty t \<and>
    (\<forall>i < length list. trie_map Map.empty t (derive_key i) = Some (list ! i)) \<and>
    (\<forall>k. trie_map Map.empty t k \<noteq> None \<longrightarrow> (\<exists>i < length list. k = derive_key i))"
proof -
  have "trie_wf Map.empty zero_trie" by (simp add: zero_trie_def trie_wf_def)
  from derive_update_ok [OF this assms(1), of 0] assms(2) obtain t where t: "derive_update list 0 zero_trie = (Inr (), t)" "trie_wf Map.empty t"
    "\<forall>j < length list. trie_map Map.empty t (derive_key j) = Some (list ! j)"
    "\<forall>k. (\<forall>j < length list. k \<noteq> derive_key j) \<longrightarrow> trie_map Map.empty t k = trie_map Map.empty zero_trie k" by auto
  have "trie_map Map.empty zero_trie = Map.empty" by (auto simp: trie_map_def TryGet_def Let_def zero_trie_def)
  with t(4) have "\<forall>k. trie_map Map.empty t k \<noteq> None \<longrightarrow> (\<exists>i < length list. k = derive_key i)" by metis
  moreover from Hash_ok [OF t(2), of kec] obtain h t' where "Hash kec t = (Inr h, t')" by blast
  then have "DeriveSha kec list = Inr h" "fst (Hash kec t) = Inr h" using t(1) by (simp_all add: DeriveSha_def)
  ultimately show ?thesis using t(2,3) by blast
qed

theorem DeriveSha_content_witness:
  "\<exists>t h. DeriveSha (\<lambda>_. replicate 32 1) [[5], [6]] = Inr h \<and> trie_map Map.empty t (derive_key 1) = Some [6] \<and>
    fst (Hash (\<lambda>_. replicate 32 1) t) = Inr h"
proof -
  from DeriveSha_content [of "[[5], [6]]" "\<lambda>_. replicate 32 1"] obtain t h where "DeriveSha (\<lambda>_. replicate 32 1) [[5], [6]] = Inr h"
    "fst (Hash (\<lambda>_. replicate 32 1) t) = Inr h" "\<forall>i < length [[5], [6]]. trie_map Map.empty t (derive_key i) = Some ([[5], [6]] ! i)" by auto
  then show ?thesis by (metis One_nat_def length_Cons lessI list.size(3) nth_Cons_0 nth_Cons_Suc)
qed

end
