(* ===== verification/Chain_Config.thy ===== *)
theory Chain_Config
  imports Prelude
begin

text \<open>
  The fork schedule of a chain (\<open>src/params/config.go\<close>, \<open>src/params/gas_table.go\<close>).  Block numbers
  are \<open>big.Int\<close> pointers, so \<open>None\<close> is a fork that is not scheduled.  A node that is started with a
  new configuration compares it with the stored one; the property says how far it has to rewind.
\<close>

record GasTable =
  ExtcodeSize :: u64
  ExtcodeCopy :: u64
  gt_Balance :: u64
  SLoad :: u64
  Calls :: u64
  gt_Suicide :: u64
  ExpByte :: u64
  CreateBySuicide :: u64

definition GasTableHomestead :: GasTable where
  "GasTableHomestead = \<lparr>ExtcodeSize = 20, ExtcodeCopy = 20, gt_Balance = 20, SLoad = 50, Calls = 40,
     gt_Suicide = 0, ExpByte = 10, CreateBySuicide = 0\<rparr>"

definition GasTableEIP150 :: GasTable where
  "GasTableEIP150 = \<lparr>ExtcodeSize = 700, ExtcodeCopy = 700, gt_Balance = 400, SLoad = 200, Calls = 700,
     gt_Suicide = 5000, ExpByte = 10, CreateBySuicide = 25000\<rparr>"

definition GasTableEIP158 :: GasTable where
  "GasTableEIP158 = \<lparr>ExtcodeSize = 700, ExtcodeCopy = 700, gt_Balance = 400, SLoad = 200, Calls = 700,
     gt_Suicide = 5000, ExpByte = 50, CreateBySuicide = 25000\<rparr>"

record ChainConfig =
  ChainId :: "int option"
  HomesteadBlock :: "int option"
  DAOForkBlock :: "int option"
  DAOForkSupport :: bool
  EIP150Block :: "int option"
  EIP150Hash :: bytes
  EIP155Block :: "int option"
  EIP158Block :: "int option"
  ByzantiumBlock :: "int option"

section \<open>Which rules apply to a block\<close>

definition isForked :: "int option \<Rightarrow> int option \<Rightarrow> bool" where
  "isForked s head =
     (case s of None \<Rightarrow> False | Some s' \<Rightarrow> (case head of None \<Rightarrow> False | Some head' \<Rightarrow> s' \<le> head'))"

definition IsHomestead :: "ChainConfig \<Rightarrow> int option \<Rightarrow> bool" where
  "IsHomestead c num = isForked (HomesteadBlock c) num"

definition IsDAOFork :: "ChainConfig \<Rightarrow> int option \<Rightarrow> bool" where
  "IsDAOFork c num = isForked (DAOForkBlock c) num"

definition IsEIP150 :: "ChainConfig \<Rightarrow> int option \<Rightarrow> bool" where
  "IsEIP150 c num = isForked (EIP150Block c) num"

definition IsEIP155 :: "ChainConfig \<Rightarrow> int option \<Rightarrow> bool" where
  "IsEIP155 c num = isForked (EIP155Block c) num"

definition IsEIP158 :: "ChainConfig \<Rightarrow> int option \<Rightarrow> bool" where
  "IsEIP158 c num = isForked (EIP158Block c) num"

definition IsByzantium :: "ChainConfig \<Rightarrow> int option \<Rightarrow> bool" where
  "IsByzantium c num = isForked (ByzantiumBlock c) num"

definition GasTable_of :: "ChainConfig \<Rightarrow> int option \<Rightarrow> GasTable" where
  "GasTable_of c num =
     (if num = None then GasTableHomestead
      else if IsEIP158 c num then GasTableEIP158
      else if IsEIP150 c num then GasTableEIP150
      else GasTableHomestead)"

record Rules =
  ru_ChainId :: int
  ru_IsHomestead :: bool
  ru_IsEIP150 :: bool
  ru_IsEIP155 :: bool
  ru_IsEIP158 :: bool
  ru_IsByzantium :: bool

definition Rules_of :: "ChainConfig \<Rightarrow> int option \<Rightarrow> Rules" where
  "Rules_of c num =
     \<lparr>ru_ChainId = (case ChainId c of None \<Rightarrow> 0 | Some i \<Rightarrow> i), ru_IsHomestead = IsHomestead c num,
      ru_IsEIP150 = IsEIP150 c num, ru_IsEIP155 = IsEIP155 c num, ru_IsEIP158 = IsEIP158 c num,
      ru_IsByzantium = IsByzantium c num\<rparr>"

section \<open>Comparing two configurations\<close>

datatype compat_what =
    HomesteadForkBlock | DAOForkBlockW | DAOForkSupportFlag | EIP150ForkBlock | EIP155ForkBlock
  | EIP158ForkBlock | EIP158ChainID | ByzantiumForkBlock

record ConfigCompatError =
  ce_What :: compat_what
  ce_StoredConfig :: "int option"
  ce_NewConfig :: "int option"
  ce_RewindTo :: u64

definition configNumEqual :: "int option \<Rightarrow> int option \<Rightarrow> bool" where
  "configNumEqual x y =
     (case x of None \<Rightarrow> y = None
      | Some x' \<Rightarrow> (case y of None \<Rightarrow> False | Some y' \<Rightarrow> x' = y'))"

definition isForkIncompatible :: "int option \<Rightarrow> int option \<Rightarrow> int option \<Rightarrow> bool" where
  "isForkIncompatible s1 s2 head \<longleftrightarrow> (isForked s1 head \<or> isForked s2 head) \<and> \<not> configNumEqual s1 s2"

text \<open>\<open>Uint64\<close> of a \<open>big.Int\<close>: the low 64 bits of its absolute value.\<close>

definition big_Uint64 :: "int \<Rightarrow> u64" where
  "big_Uint64 x = word_of_int \<bar>x\<bar>"

definition newCompatError :: "compat_what \<Rightarrow> int option \<Rightarrow> int option \<Rightarrow> ConfigCompatError" where
  "newCompatError what storedblock newblock =
     (let rew = (case storedblock of
           None \<Rightarrow> newblock
         | Some s \<Rightarrow> (case newblock of None \<Rightarrow> storedblock | Some n \<Rightarrow> if s < n then storedblock else newblock))
      in \<lparr>ce_What = what, ce_StoredConfig = storedblock, ce_NewConfig = newblock,
          ce_RewindTo = (case rew of None \<Rightarrow> 0 | Some r \<Rightarrow> if 0 < r then big_Uint64 r - 1 else 0)\<rparr>)"

definition checkCompatible_at :: "ChainConfig \<Rightarrow> ChainConfig \<Rightarrow> int option \<Rightarrow> ConfigCompatError option" where
  "checkCompatible_at c newcfg head =
     (if isForkIncompatible (HomesteadBlock c) (HomesteadBlock newcfg) head
      then Some (newCompatError HomesteadForkBlock (HomesteadBlock c) (HomesteadBlock newcfg))
      else if isForkIncompatible (DAOForkBlock c) (DAOForkBlock newcfg) head
      then Some (newCompatError DAOForkBlockW (DAOForkBlock c) (DAOForkBlock newcfg))
      else if IsDAOFork c head \<and> DAOForkSupport c \<noteq> DAOForkSupport newcfg
      then Some (newCompatError DAOForkSupportFlag (DAOForkBlock c) (DAOForkBlock newcfg))
      else if isForkIncompatible (EIP150Block c) (EIP150Block newcfg) head
      then Some (newCompatError EIP150ForkBlock (EIP150Block c) (EIP150Block newcfg))
      else if isForkIncompatible (EIP155Block c) (EIP155Block newcfg) head
      then Some (newCompatError EIP155ForkBlock (EIP155Block c) (EIP155Block newcfg))
      else if isForkIncompatible (EIP158Block c) (EIP158Block newcfg) head
      then Some (newCompatError EIP158ForkBlock (EIP158Block c) (EIP158Block newcfg))
      else if IsEIP158 c head \<and> \<not> configNumEqual (ChainId c) (ChainId newcfg)
      then Some (newCompatError EIP158ChainID (EIP158Block c) (EIP158Block newcfg))
      else if isForkIncompatible (ByzantiumBlock c) (ByzantiumBlock newcfg) head
      then Some (newCompatError ByzantiumForkBlock (ByzantiumBlock c) (ByzantiumBlock newcfg))
      else None)"

text \<open>The loop of \<open>CheckCompatible\<close>, from a head and the error of the previous round.\<close>

partial_function (option) compat_loop ::
  "ChainConfig \<Rightarrow> ChainConfig \<Rightarrow> ConfigCompatError option \<Rightarrow> int \<Rightarrow> ConfigCompatError option option" where
  "compat_loop c newcfg lasterr bhead =
     (case checkCompatible_at c newcfg (Some bhead) of
        None \<Rightarrow> Some lasterr
      | Some err \<Rightarrow>
          if lasterr \<noteq> None \<and> ce_RewindTo err = ce_RewindTo (the lasterr) then Some lasterr
          else compat_loop c newcfg (Some err) (uint (ce_RewindTo err)))"

definition CheckCompatible :: "ChainConfig \<Rightarrow> ChainConfig \<Rightarrow> u64 \<Rightarrow> ConfigCompatError option option" where
  "CheckCompatible c newcfg height = compat_loop c newcfg None (uint height)"

section \<open>Rewinding\<close>

lemma newCompatError_rewind:
  assumes "s \<noteq> None \<or> n \<noteq> None" and "isForked s (Some h) \<or> isForked n (Some h)" and "0 \<le> h" "h < 2 ^ 64"
  shows "ce_RewindTo (newCompatError w s n) = 0 \<or> uint (ce_RewindTo (newCompatError w s n)) < h"
proof -
  have "uint (big_Uint64 r - 1) < h" if "0 < r" "r \<le> h" for r
  proof -
    have "uint (word_of_int r :: u64) = r" using that assms(4) by (simp add: uint_word_of_int_eq take_bit_int_eq_self)
    moreover have "uint (word_of_int r - 1 :: u64) = (uint (word_of_int r :: u64) - 1) mod 2 ^ 64" by (simp add: uint_word_arith_bintrs take_bit_eq_mod)
    ultimately show ?thesis using that assms(4) by (simp add: big_Uint64_def)
  qed
  then show ?thesis using assms by (auto simp: newCompatError_def isForked_def Let_def split: option.splits)
qed

lemma checkCompatible_rewind:
  assumes "checkCompatible_at c newcfg (Some h) = Some err" and "0 \<le> h" "h < 2 ^ 64"
  shows "ce_RewindTo err = 0 \<or> uint (ce_RewindTo err) < h"
proof -
  have "\<exists>w s n. err = newCompatError w s n \<and> (isForked s (Some h) \<or> isForked n (Some h))"
    using assms(1) by (auto simp: checkCompatible_at_def isForkIncompatible_def IsDAOFork_def IsEIP158_def split: if_splits)
  then obtain w s n where e: "err = newCompatError w s n" "isForked s (Some h) \<or> isForked n (Some h)" by blast
  then have "s \<noteq> None \<or> n \<noteq> None" by (auto simp: isForked_def)
  from newCompatError_rewind [OF this e(2) assms(2,3), of w] show ?thesis by (simp add: e(1))
qed

definition settled :: "ChainConfig \<Rightarrow> ChainConfig \<Rightarrow> ConfigCompatError \<Rightarrow> bool" where
  "settled c newcfg e \<longleftrightarrow> ce_RewindTo e = 0 \<or> checkCompatible_at c newcfg (Some (uint (ce_RewindTo e))) = None"

lemma compat_loop_ends:
  "\<exists>e'. compat_loop c newcfg (Some e) (uint (ce_RewindTo e)) = Some (Some e') \<and> settled c newcfg e' \<and> ce_RewindTo e' \<le> ce_RewindTo e"
proof (induction "unat (ce_RewindTo e)" arbitrary: e rule: less_induct)
  case less
  let ?h = "uint (ce_RewindTo e)"
  show ?case
  proof (cases "checkCompatible_at c newcfg (Some ?h)")
    case None
    then show ?thesis by (simp add: compat_loop.simps [of c newcfg "Some e"] settled_def)
  next
    case (Some err)
    have r: "ce_RewindTo err = 0 \<or> uint (ce_RewindTo err) < ?h"
      using checkCompatible_rewind [OF Some] by (simp add: uint_lt2p [where 'a = 64, simplified])
    show ?thesis
    proof (cases "ce_RewindTo err = ce_RewindTo e")
      case True
      with r have "ce_RewindTo e = 0" by auto
      with Some True show ?thesis by (simp add: compat_loop.simps [of c newcfg "Some e"] settled_def)
    next
      case False
      then have "ce_RewindTo err < ce_RewindTo e" using r by (auto simp: word_less_def word_neq_0_conv)
      then have "unat (ce_RewindTo err) < unat (ce_RewindTo e)" by (simp add: word_less_nat_alt)
      from less [OF this] Some False \<open>ce_RewindTo err < ce_RewindTo e\<close> show ?thesis
        by (auto simp: compat_loop.simps [of c newcfg "Some e"])
    qed
  qed
qed

text \<open>Two configurations give the same rules up to a block: the same forks at every block up to it, the
  same answer to the DAO fork where it has happened, and the same chain id from EIP158 on.\<close>

definition same_rules :: "ChainConfig \<Rightarrow> ChainConfig \<Rightarrow> int \<Rightarrow> bool" where
  "same_rules c newcfg head \<longleftrightarrow> (\<forall>b \<le> head.
     IsHomestead c (Some b) = IsHomestead newcfg (Some b) \<and> IsDAOFork c (Some b) = IsDAOFork newcfg (Some b) \<and>
     IsEIP150 c (Some b) = IsEIP150 newcfg (Some b) \<and> IsEIP155 c (Some b) = IsEIP155 newcfg (Some b) \<and>
     IsEIP158 c (Some b) = IsEIP158 newcfg (Some b) \<and> IsByzantium c (Some b) = IsByzantium newcfg (Some b) \<and>
     (IsDAOFork c (Some b) \<longrightarrow> DAOForkSupport c = DAOForkSupport newcfg) \<and>
     (IsEIP158 c (Some b) \<longrightarrow> ChainId c = ChainId newcfg))"

lemma fork_same:
  "(\<forall>b \<le> head. isForked s (Some b) = isForked n (Some b)) \<longleftrightarrow> \<not> isForkIncompatible s n (Some head)" (is "?l \<longleftrightarrow> ?r")
proof
  assume l: ?l
  show ?r
  proof (cases s)
    case None
    then show ?thesis using l by (cases n) (auto simp: isForkIncompatible_def isForked_def configNumEqual_def)
  next
    case (Some x)
    show ?thesis
    proof (cases n)
      case None
      then show ?thesis using l Some by (auto simp: isForkIncompatible_def isForked_def configNumEqual_def)
    next
      case n: (Some y)
      then show ?thesis using l Some l [rule_format, of x] l [rule_format, of y]
        by (auto simp: isForkIncompatible_def isForked_def configNumEqual_def)
    qed
  qed
next
  assume ?r
  then show ?l by (auto simp: isForkIncompatible_def isForked_def configNumEqual_def split: option.splits)
qed

lemma fork_reached: "(\<forall>b \<le> head. isForked s (Some b) \<longrightarrow> P) \<longleftrightarrow> (isForked s (Some head) \<longrightarrow> P)"
  by (cases s) (auto simp: isForked_def)

lemma configNumEqual_iff: "configNumEqual x y \<longleftrightarrow> x = y"
  by (auto simp: configNumEqual_def split: option.splits)

lemma checkCompatible_rules: "checkCompatible_at c newcfg (Some head) = None \<longleftrightarrow> same_rules c newcfg head"
proof -
  have "same_rules c newcfg head \<longleftrightarrow>
    \<not> isForkIncompatible (HomesteadBlock c) (HomesteadBlock newcfg) (Some head) \<and>
    \<not> isForkIncompatible (DAOForkBlock c) (DAOForkBlock newcfg) (Some head) \<and>
    \<not> isForkIncompatible (EIP150Block c) (EIP150Block newcfg) (Some head) \<and>
    \<not> isForkIncompatible (EIP155Block c) (EIP155Block newcfg) (Some head) \<and>
    \<not> isForkIncompatible (EIP158Block c) (EIP158Block newcfg) (Some head) \<and>
    \<not> isForkIncompatible (ByzantiumBlock c) (ByzantiumBlock newcfg) (Some head) \<and>
    (IsDAOFork c (Some head) \<longrightarrow> DAOForkSupport c = DAOForkSupport newcfg) \<and>
    (IsEIP158 c (Some head) \<longrightarrow> ChainId c = ChainId newcfg)"
    unfolding same_rules_def all_conj_distrib imp_conjR fork_same [symmetric] IsHomestead_def IsDAOFork_def IsEIP150_def IsEIP155_def
      IsEIP158_def IsByzantium_def fork_reached by blast
  then show ?thesis by (simp add: checkCompatible_at_def configNumEqual_iff)
qed

text \<open>C25.  \<open>CheckCompatible\<close> terminates.  It reports no error exactly when the two configurations give
  the same rules (forks, DAO support, chain id) at every block up to the head; otherwise they give the
  same rules up to the block it asks to rewind to, which is below the head, or that block is the
  genesis block.\<close>

theorem CheckCompatible_rewinds:
  "\<exists>r. CheckCompatible c newcfg height = Some r \<and> (r = None \<longleftrightarrow> same_rules c newcfg (uint height)) \<and>
    (case r of None \<Rightarrow> True
     | Some e \<Rightarrow> ce_RewindTo e = 0 \<or> (ce_RewindTo e < height \<and> same_rules c newcfg (uint (ce_RewindTo e))))"
proof (cases "checkCompatible_at c newcfg (Some (uint height))")
  case None
  then have "CheckCompatible c newcfg height = Some None" by (simp add: CheckCompatible_def compat_loop.simps [of c newcfg None])
  then show ?thesis using None by (simp add: checkCompatible_rules)
next
  case (Some err)
  from compat_loop_ends [of c newcfg err] obtain e' where e': "compat_loop c newcfg (Some err) (uint (ce_RewindTo err)) = Some (Some e')"
    "settled c newcfg e'" "ce_RewindTo e' \<le> ce_RewindTo err" by blast
  have "ce_RewindTo err = 0 \<or> ce_RewindTo err < height"
    using checkCompatible_rewind [OF Some] by (auto simp: word_less_def uint_lt2p [where 'a = 64, simplified])
  then have "ce_RewindTo e' = 0 \<or> ce_RewindTo e' < height" using e'(3) by auto
  moreover have "\<not> same_rules c newcfg (uint height)" using Some by (simp add: checkCompatible_rules [symmetric])
  ultimately show ?thesis using e' Some
    by (auto simp: CheckCompatible_def compat_loop.simps [of c newcfg None] settled_def checkCompatible_rules)
qed

end
