(* ===== verification/Dpos_Engine.thy ===== *)
theory Dpos_Engine
  imports Epoch_Context Block_Types Chain_Config
begin

text \<open>
  The consensus engine (\<open>src/consensus/dpos/dpos.go\<close>, \<open>src/consensus/dpos/api.go\<close>,
  \<open>src/consensus/misc/forks.go\<close>): verifying headers and seals, finding the confirmed block, preparing,
  finalizing and sealing blocks.  The clock is an argument, and so are the chain the engine reads
  from (\<open>consensus.ChainReader\<close>), signature recovery, the signature cache and writes to the database.
  A nil pointer that is read is the error \<open>EnginePanic\<close>.
\<close>

record ChainReader =
  cr_Config :: ChainConfig
  cr_CurrentHeader :: "Header option"
  cr_GetHeader :: "bytes \<Rightarrow> u64 \<Rightarrow> Header option"
  cr_GetHeaderByNumber :: "u64 \<Rightarrow> Header option"
  cr_GetHeaderByHash :: "bytes \<Rightarrow> Header option"

text \<open>The cache of recovered signers has the type \<open>'c\<close>; looking a signer up may change it.\<close>

record 'c engine_env =
  en_election :: election_env
  en_recover :: "bytes \<Rightarrow> bytes \<Rightarrow> bytes option"
  en_cache_get :: "bytes \<Rightarrow> 'c \<Rightarrow> bytes option \<times> 'c"
  en_cache_add :: "bytes \<Rightarrow> bytes \<Rightarrow> 'c \<Rightarrow> 'c"
  en_put :: writer

record 'c Dpos =
  dp_db :: database
  dp_signer :: bytes
  dp_signFn :: "(bytes \<Rightarrow> bytes \<Rightarrow> bytes option) option"
  dp_signatures :: 'c
  dp_confirmedBlockHeader :: "Header option"

datatype engine_error =
    ErrUnknownBlock
  | ErrFutureBlock
  | ErrMissingVanity
  | ErrMissingSignature
  | ErrInvalidMixDigest
  | ErrInvalidUncleHash
  | ErrInvalidDifficulty
  | ErrInvalidTimestamp
  | ErrWaitForPrevBlock
  | ErrMintFutureBlock
  | ErrMismatchSignerAndValidator
  | ErrInvalidBlockValidator
  | ErrNilBlockHeader
  | ErrUnknownAncestor
  | ErrForkHash
  | ErrUnclesNotAllowed
  | ErrRecover
  | ErrSign
  | ErrDbGet
  | EngineTrie trie_error
  | EngineCtx ctx_error
  | EngineEpoch epoch_error
  | ErrElect epoch_error
  | EnginePanic

abbreviation kec_of :: "'c engine_env \<Rightarrow> bytes \<Rightarrow> bytes" where
  "kec_of env \<equiv> ev_kec (en_election env)"

definition extraVanity :: nat where
  "extraVanity = 32"

definition extraSeal :: nat where
  "extraSeal = 65"

definition deref :: "'a option \<Rightarrow> ('a \<Rightarrow> engine_error + 'b) \<Rightarrow> engine_error + 'b" where
  "deref p f = (case p of None \<Rightarrow> Inl EnginePanic | Some x \<Rightarrow> f x)"

definition uncleHash :: "(bytes \<Rightarrow> bytes) \<Rightarrow> bytes" where
  "uncleHash kec = CalcUncleHash kec []"

text \<open>\<open>sigHash\<close>; \<open>None\<close> is its panic on short extra data or on a nil context.\<close>

definition sigHash :: "(bytes \<Rightarrow> bytes) \<Rightarrow> Header \<Rightarrow> bytes option" where
  "sigHash kec h =
     (if length (h_Extra h) < extraSeal then None
      else (case h_DposContext h of
          None \<Rightarrow> None
        | Some p \<Rightarrow>
            Some (rlpHash kec (ListV [BytesV (h_ParentHash h), BytesV (h_UncleHash h), BytesV (h_Validator h), BytesV (h_Coinbase h),
              BytesV (h_Root h), BytesV (h_TxHash h), BytesV (h_ReceiptHash h), BytesV (h_Bloom h), BigV (h_Difficulty h),
              BigV (h_Number h), BigV (h_GasLimit h), BigV (h_GasUsed h), BigV (h_Time h),
              BytesV (take (length (h_Extra h) - 65) (h_Extra h)), BytesV (h_MixDigest h), BytesV (h_Nonce h),
              BytesV (Proto_Root kec p)]))))"

section \<open>Verifying headers\<close>

definition VerifyForkHashes :: "(bytes \<Rightarrow> bytes) \<Rightarrow> ChainConfig \<Rightarrow> Header \<Rightarrow> bool \<Rightarrow> engine_error + unit" where
  "VerifyForkHashes kec config header uncle =
     (if uncle then Inr ()
      else case EIP150Block config of
          None \<Rightarrow> Inr ()
        | Some b \<Rightarrow> deref (h_Number header) (\<lambda>n.
            if b = n \<and> EIP150Hash config \<noteq> zero_hash \<and> EIP150Hash config \<noteq> Header_Hash kec header then Inl ErrForkHash
            else Inr ()))"

definition find_parent :: "ChainReader \<Rightarrow> Header list \<Rightarrow> bytes \<Rightarrow> u64 \<Rightarrow> Header option" where
  "find_parent chain parents parentHash number =
     (if parents \<noteq> [] then Some (last parents) else cr_GetHeader chain parentHash (number - 1))"

definition verifyHeader :: "(bytes \<Rightarrow> bytes) \<Rightarrow> ChainReader \<Rightarrow> int \<Rightarrow> Header \<Rightarrow> Header list \<Rightarrow> engine_error + unit" where
  "verifyHeader kec chain now header parents =
     (case h_Number header of
        None \<Rightarrow> Inl ErrUnknownBlock
      | Some n \<Rightarrow>
          (let number = big_Uint64 n in
           deref (h_Time header) (\<lambda>time.
             if time > now then Inl ErrFutureBlock
             else if length (h_Extra header) < extraVanity then Inl ErrMissingVanity
             else if length (h_Extra header) < extraVanity + extraSeal then Inl ErrMissingSignature
             else if h_MixDigest header \<noteq> zero_hash then Inl ErrInvalidMixDigest
             else deref (h_Difficulty header) (\<lambda>difficulty.
               if big_Uint64 difficulty \<noteq> 1 then Inl ErrInvalidDifficulty
               else if h_UncleHash header \<noteq> uncleHash kec then Inl ErrInvalidUncleHash
               else bind_result (VerifyForkHashes kec (cr_Config chain) header False) (\<lambda>_.
                 case find_parent chain parents (h_ParentHash header) number of
                   None \<Rightarrow> Inl ErrUnknownAncestor
                 | Some parent \<Rightarrow> deref (h_Number parent) (\<lambda>pn.
                     if big_Uint64 pn \<noteq> number - 1 \<or> Header_Hash kec parent \<noteq> h_ParentHash header then Inl ErrUnknownAncestor
                     else deref (h_Time parent) (\<lambda>ptime.
                       if big_Uint64 ptime + uint64 blockInterval > big_Uint64 time then Inl ErrInvalidTimestamp
                       else Inr ())))))))"

definition VerifyHeader :: "(bytes \<Rightarrow> bytes) \<Rightarrow> ChainReader \<Rightarrow> int \<Rightarrow> Header \<Rightarrow> bool \<Rightarrow> engine_error + unit" where
  "VerifyHeader kec chain now header seal = verifyHeader kec chain now header []"

text \<open>The results of \<open>VerifyHeaders\<close> in the order in which they are sent; the receiver may abort, which
  cuts the list off.  \<open>now i\<close> is the clock when header \<open>i\<close> is verified.\<close>

definition VerifyHeaders :: "(bytes \<Rightarrow> bytes) \<Rightarrow> ChainReader \<Rightarrow> (nat \<Rightarrow> int) \<Rightarrow> Header list \<Rightarrow> (engine_error + unit) list" where
  "VerifyHeaders kec chain now headers =
     map (\<lambda>i. verifyHeader kec chain (now i) (headers ! i) (take i headers)) [0..<length headers]"

definition VerifyUncles :: "Block \<Rightarrow> engine_error + unit" where
  "VerifyUncles block = (if length (b_uncles block) > 0 then Inl ErrUnclesNotAllowed else Inr ())"

section \<open>Seals\<close>

text \<open>The address of the signer: the last 20 bytes of the hash of the public key without its tag.\<close>

definition pubkey_address :: "(bytes \<Rightarrow> bytes) \<Rightarrow> bytes \<Rightarrow> bytes" where
  "pubkey_address kec pubkey = drop 12 (kec (drop 1 pubkey))"

definition ecrecover :: "'c engine_env \<Rightarrow> Header \<Rightarrow> 'c \<Rightarrow> (engine_error + bytes) \<times> 'c" where
  "ecrecover env header sigcache =
     (let hash = Header_Hash (kec_of env) header in
      case en_cache_get env hash sigcache of
        (Some address, cache) \<Rightarrow> (Inr address, cache)
      | (None, cache) \<Rightarrow>
          if length (h_Extra header) < extraSeal then (Inl ErrMissingSignature, cache)
          else (case sigHash (kec_of env) header of
              None \<Rightarrow> (Inl EnginePanic, cache)
            | Some sh \<Rightarrow>
                (case en_recover env sh (drop (length (h_Extra header) - extraSeal) (h_Extra header)) of
                   None \<Rightarrow> (Inl ErrRecover, cache)
                 | Some pubkey \<Rightarrow>
                     (let signer = pubkey_address (kec_of env) pubkey
                      in (Inr signer, en_cache_add env hash signer cache)))))"

definition verifyBlockSigner :: "'c engine_env \<Rightarrow> bytes \<Rightarrow> Header \<Rightarrow> 'c Dpos \<Rightarrow> (engine_error + unit) \<times> 'c Dpos" where
  "verifyBlockSigner env validator header d =
     (case ecrecover env header (dp_signatures d) of
        (Inl e, cache) \<Rightarrow> (Inl e, d\<lparr>dp_signatures := cache\<rparr>)
      | (Inr signer, cache) \<Rightarrow>
          (if signer \<noteq> validator then Inl ErrInvalidBlockValidator
           else if signer \<noteq> h_Validator header then Inl ErrMismatchSignerAndValidator
           else Inr (), d\<lparr>dp_signatures := cache\<rparr>))"

section \<open>The confirmed block\<close>

definition confirmedBlockHead :: bytes where
  "confirmedBlockHead = ascii [0x63, 0x6f, 0x6e, 0x66, 0x69, 0x72, 0x6d, 0x65, 0x64, 0x2d, 0x62, 0x6c, 0x6f, 0x63, 0x6b, 0x2d, 0x68, 0x65, 0x61, 0x64]"

definition loadConfirmedBlockHeader :: "ChainReader \<Rightarrow> 'c Dpos \<Rightarrow> engine_error + Header" where
  "loadConfirmedBlockHeader chain d =
     (case dp_db d confirmedBlockHead of
        None \<Rightarrow> Inl ErrDbGet
      | Some key \<Rightarrow> (case cr_GetHeaderByHash chain (BytesToHash key) of None \<Rightarrow> Inl ErrNilBlockHeader | Some header \<Rightarrow> Inr header))"

definition storeConfirmedBlockHeader :: "'c engine_env \<Rightarrow> 'c Dpos \<Rightarrow> (engine_error + unit) \<times> 'c Dpos" where
  "storeConfirmedBlockHeader env d =
     (case dp_confirmedBlockHeader d of
        None \<Rightarrow> (Inl EnginePanic, d)
      | Some header \<Rightarrow>
          (case db_put (en_put env) confirmedBlockHead (Header_Hash (kec_of env) header) (dp_db d) of
             (r, db) \<Rightarrow> (map_sum EngineTrie id r, d\<lparr>dp_db := db\<rparr>)))"

text \<open>The loop walks back from the current head; \<open>validatorMap\<close> holds the distinct validators it has seen in
  the epoch of the block it is at.  The result is the newly confirmed header, if any.\<close>

definition confirm_epoch :: "int \<Rightarrow> int \<Rightarrow> bytes list \<Rightarrow> int \<times> bytes list" where
  "confirm_epoch curEpoch epoch validatorMap = (if curEpoch \<noteq> epoch then (curEpoch, []) else (epoch, validatorMap))"

partial_function (option) confirm_loop ::
  "(bytes \<Rightarrow> bytes) \<Rightarrow> ChainReader \<Rightarrow> Header \<Rightarrow> Header \<Rightarrow> int \<Rightarrow> bytes list \<Rightarrow> (engine_error + Header option) option" where
  "confirm_loop kec chain confirmed cur epoch0 vmap0 =
     (if Header_Hash kec confirmed = Header_Hash kec cur then Some (Inr None)
      else (case (h_Number confirmed, h_Number cur, h_Time cur) of
          (Some cn, Some n, time) \<Rightarrow>
            if \<not> big_Uint64 cn < big_Uint64 n then Some (Inr None)
            else (case time of
                None \<Rightarrow> Some (Inl EnginePanic)
              | Some t \<Rightarrow>
                  (case confirm_epoch (go_div (wrap64 t) epochInterval) epoch0 vmap0 of
                     (epoch, vmap) \<Rightarrow>
                       if wrap64 (wrap64 n - wrap64 cn) < int consensusSize - int (length vmap) then Some (Inr None)
                       else if length (List.insert (h_Validator cur) vmap) \<ge> consensusSize then Some (Inr (Some cur))
                       else (case cr_GetHeaderByHash chain (h_ParentHash cur) of
                           None \<Rightarrow> Some (Inl ErrNilBlockHeader)
                         | Some parent \<Rightarrow> confirm_loop kec chain confirmed parent epoch (List.insert (h_Validator cur) vmap))))
        | _ \<Rightarrow> Some (Inl EnginePanic)))"

definition load_or_genesis :: "ChainReader \<Rightarrow> 'c Dpos \<Rightarrow> engine_error + Header" where
  "load_or_genesis chain d =
     (case dp_confirmedBlockHeader d of
        Some header \<Rightarrow> Inr header
      | None \<Rightarrow>
          (case loadConfirmedBlockHeader chain d of
             Inr header \<Rightarrow> Inr header
           | Inl err \<Rightarrow> (case cr_GetHeaderByNumber chain 0 of None \<Rightarrow> Inl err | Some header \<Rightarrow> Inr header)))"

definition updateConfirmedBlockHeader :: "'c engine_env \<Rightarrow> ChainReader \<Rightarrow> 'c Dpos \<Rightarrow> ((engine_error + unit) \<times> 'c Dpos) option" where
  "updateConfirmedBlockHeader env chain d0 =
     (case load_or_genesis chain d0 of
        Inl e \<Rightarrow> Some (Inl e, d0)
      | Inr confirmed \<Rightarrow>
          (let d = d0\<lparr>dp_confirmedBlockHeader := Some confirmed\<rparr> in
           case cr_CurrentHeader chain of
             None \<Rightarrow> Some (Inl EnginePanic, d)
           | Some cur \<Rightarrow>
               (case confirm_loop (kec_of env) chain confirmed cur (- 1) [] of
                  None \<Rightarrow> None
                | Some (Inl e) \<Rightarrow> Some (Inl e, d)
                | Some (Inr None) \<Rightarrow> Some (Inr (), d)
                | Some (Inr (Some header)) \<Rightarrow> Some (storeConfirmedBlockHeader env (d\<lparr>dp_confirmedBlockHeader := Some header\<rparr>)))))"

definition verifySeal ::
  "'c engine_env \<Rightarrow> ChainReader \<Rightarrow> Header \<Rightarrow> Header list \<Rightarrow> 'c Dpos \<Rightarrow> ((engine_error + unit) \<times> 'c Dpos) option" where
  "verifySeal env chain header parents d =
     (case h_Number header of
        None \<Rightarrow> Some (Inl EnginePanic, d)
      | Some n \<Rightarrow>
          if big_Uint64 n = 0 then Some (Inl ErrUnknownBlock, d)
          else (case find_parent chain parents (h_ParentHash header) (big_Uint64 n) of
              None \<Rightarrow> Some (Inl EnginePanic, d)
            | Some parent \<Rightarrow>
                (case h_DposContext parent of
                   None \<Rightarrow> Some (Inl EnginePanic, d)
                 | Some proto \<Rightarrow>
                     (case NewDposContextFromProto (Some (dp_db d)) proto of
                        Inl e \<Rightarrow> Some (Inl (EngineTrie e), d)
                      | Inr ctx \<Rightarrow>
                          (case h_Time header of
                             None \<Rightarrow> Some (Inl EnginePanic, d)
                           | Some t \<Rightarrow>
                               (case lookupValidator (dp_db d) (wrap64 t) ctx of
                                  (Inl e, _) \<Rightarrow> Some (Inl (EngineEpoch e), d)
                                | (Inr validator, _) \<Rightarrow>
                                    (case verifyBlockSigner env validator header d of
                                       (Inl e, d1) \<Rightarrow> Some (Inl e, d1)
                                     | (Inr _, d1) \<Rightarrow> updateConfirmedBlockHeader env chain d1)))))))"

definition VerifySeal :: "'c engine_env \<Rightarrow> ChainReader \<Rightarrow> Header \<Rightarrow> 'c Dpos \<Rightarrow> ((engine_error + unit) \<times> 'c Dpos) option" where
  "VerifySeal env chain header d = verifySeal env chain header [] d"

section \<open>Producing blocks\<close>

definition CalcDifficulty :: "u64 \<Rightarrow> Header \<Rightarrow> int" where
  "CalcDifficulty time parent = 1"

definition Author :: "Header \<Rightarrow> bytes" where
  "Author header = h_Validator header"

definition New_Dpos :: "'c \<Rightarrow> database \<Rightarrow> 'c Dpos" where
  "New_Dpos signatures db =
     \<lparr>dp_db = db, dp_signer = replicate AddressLength 0, dp_signFn = None, dp_signatures = signatures, dp_confirmedBlockHeader = None\<rparr>"

definition Authorize :: "bytes \<Rightarrow> (bytes \<Rightarrow> bytes \<Rightarrow> bytes option) \<Rightarrow> 'c Dpos \<Rightarrow> 'c Dpos" where
  "Authorize signer signFn d = d\<lparr>dp_signer := signer, dp_signFn := Some signFn\<rparr>"

definition PrevSlot :: "int \<Rightarrow> int" where
  "PrevSlot now = wrap64 (go_div (wrap64 (now - 1)) blockInterval * blockInterval)"

definition NextSlot :: "int \<Rightarrow> int" where
  "NextSlot now = wrap64 (go_div (wrap64 (wrap64 (now + blockInterval) - 1)) blockInterval * blockInterval)"

text \<open>\<open>Prepare\<close> fills the header in place, also when it fails.\<close>

definition Prepare :: "ChainReader \<Rightarrow> 'c Dpos \<Rightarrow> Header \<Rightarrow> (engine_error + unit) \<times> Header" where
  "Prepare chain d header0 =
     (let header = header0\<lparr>h_Nonce := replicate 8 0\<rparr> in
      case h_Number header of
        None \<Rightarrow> (Inl EnginePanic, header)
      | Some n \<Rightarrow>
          (let extra = (if length (h_Extra header) < extraVanity
                        then h_Extra header @ replicate (extraVanity - length (h_Extra header)) 0 else h_Extra header);
               header1 = header\<lparr>h_Extra := take extraVanity extra @ replicate extraSeal 0\<rparr>
           in case cr_GetHeader chain (h_ParentHash header1) (big_Uint64 n - 1) of
                None \<Rightarrow> (Inl ErrUnknownAncestor, header1)
              | Some parent \<Rightarrow>
                  (case h_Time header1 of
                     None \<Rightarrow> (Inl EnginePanic, header1)
                   | Some t \<Rightarrow>
                       (Inr (), header1\<lparr>h_Difficulty := Some (CalcDifficulty (big_Uint64 t) parent), h_Validator := dp_signer d\<rparr>))))"

text \<open>What the engine uses of the state.\<close>

record 's state_ops =
  so_AddBalance :: "bytes \<Rightarrow> int \<Rightarrow> 's \<Rightarrow> 's"
  so_GetBalance :: "'s \<Rightarrow> bytes \<Rightarrow> int"
  so_IntermediateRoot :: "bool \<Rightarrow> 's \<Rightarrow> bytes \<times> 's"

definition frontierBlockReward :: int where
  "frontierBlockReward = 5000000000000000000"

definition byzantiumBlockReward :: int where
  "byzantiumBlockReward = 3000000000000000000"

definition AccumulateRewards :: "'s state_ops \<Rightarrow> ChainConfig \<Rightarrow> Header \<Rightarrow> 's \<Rightarrow> 's" where
  "AccumulateRewards so config header st =
     so_AddBalance so (h_Coinbase header)
       (if IsByzantium config (h_Number header) then byzantiumBlockReward else frontierBlockReward) st"

text \<open>The count of the new block's validator.\<close>

definition next_mint_count ::
  "(bytes \<Rightarrow> bytes) \<Rightarrow> database \<Rightarrow> int \<Rightarrow> bytes \<Rightarrow> DposContext \<Rightarrow> ((engine_error + int) \<times> DposContext) option" where
  "next_mint_count kec db currentEpoch validator ctx =
     (let currentEpochBytes = BigEndian_PutUint64 (uint64 currentEpoch) in
      case NodeIterator kec db (mintCntTrie ctx) currentEpochBytes of
        None \<Rightarrow> None
      | Some (Inl e, t) \<Rightarrow> Some (Inl (EngineTrie e), set_mintCnt ctx t)
      | Some (Inr x, t) \<Rightarrow>
          (case Iterator_Next kec db t (NewIterator x) of
             None \<Rightarrow> None
           | Some (Inl e, t', it) \<Rightarrow> Some (Inl (EngineTrie e), set_mintCnt ctx t')
           | Some (Inr found, t', it) \<Rightarrow>
               if \<not> found then Some (Inr 1, set_mintCnt ctx t')
               else Some (case on_mintCnt (\<lambda>t. Get db t (currentEpochBytes @ validator)) (set_mintCnt ctx t') of
                   (Inl e, ctx') \<Rightarrow> (Inl (EngineCtx e), ctx')
                 | (Inr None, ctx') \<Rightarrow> (Inr 1, ctx')
                 | (Inr (Some cntBytes), ctx') \<Rightarrow>
                     (case BigEndian_Uint64 cntBytes of None \<Rightarrow> Inl EnginePanic | Some n \<Rightarrow> Inr (wrap64 (int64 n + 1)), ctx'))))"

definition updateMintCnt ::
  "(bytes \<Rightarrow> bytes) \<Rightarrow> database \<Rightarrow> int \<Rightarrow> int \<Rightarrow> bytes \<Rightarrow> DposContext \<Rightarrow> ((engine_error + unit) \<times> DposContext) option" where
  "updateMintCnt kec db parentBlockTime currentBlockTime validator ctx =
     (let currentEpoch = go_div parentBlockTime epochInterval;
          newEpoch = go_div currentBlockTime epochInterval
      in case (if currentEpoch = newEpoch then next_mint_count kec db currentEpoch validator ctx else Some (Inr 1, ctx)) of
           None \<Rightarrow> None
         | Some (Inl e, ctx') \<Rightarrow> Some (Inl e, ctx')
         | Some (Inr cnt, ctx') \<Rightarrow>
             Some (case on_mintCnt (\<lambda>t. TryUpdate db t (BigEndian_PutUint64 (uint64 newEpoch) @ validator) (BigEndian_PutUint64 (uint64 cnt))) ctx' of
                 (Inl (CtxTrie TriePanic), ctx'') \<Rightarrow> (Inl EnginePanic, ctx'')
               | (_, ctx'') \<Rightarrow> (Inr (), ctx'')))"

text \<open>\<open>Finalize\<close>.  The variable \<open>timeOfFirstBlock\<close> of the package is passed in and out, and so are the state and the
  context of the block.\<close>

definition first_block_time :: "ChainReader \<Rightarrow> int \<Rightarrow> engine_error + int" where
  "first_block_time chain tofb =
     (if tofb \<noteq> 0 then Inr tofb
      else case cr_GetHeaderByNumber chain 1 of
          None \<Rightarrow> Inr tofb
        | Some header \<Rightarrow> deref (h_Time header) (\<lambda>t. Inr (wrap64 t)))"

definition finalize_context ::
  "'c engine_env \<Rightarrow> (bytes \<Rightarrow> int) \<Rightarrow> int \<Rightarrow> int \<Rightarrow> int \<Rightarrow> int \<Rightarrow> bytes \<Rightarrow> bytes \<Rightarrow> DposContext
   \<Rightarrow> ((engine_error + DposContextProto) \<times> DposContext) option" where
  "finalize_context env balance tofb genesisTime parentTime time parentHash validator ctx =
     (case tryElect (en_election env) tofb genesisTime parentTime parentHash \<lparr>TimeStamp = time, ec_context = ctx, ec_balance = balance\<rparr> of
        None \<Rightarrow> None
      | Some (Inl e, ctx1) \<Rightarrow> Some (Inl (ErrElect e), ctx1)
      | Some (Inr _, ctx1) \<Rightarrow>
          (case updateMintCnt (kec_of env) (ev_db (en_election env)) parentTime time validator ctx1 of
             None \<Rightarrow> None
           | Some (Inl e, ctx2) \<Rightarrow> Some (Inl e, ctx2)
           | Some (Inr _, ctx2) \<Rightarrow>
               (case ToProto (kec_of env) ctx2 of (r, ctx3) \<Rightarrow> Some (map_sum EngineCtx id r, ctx3))))"

definition Finalize ::
  "'c engine_env \<Rightarrow> 's state_ops \<Rightarrow> ChainReader \<Rightarrow> Header \<Rightarrow> 's \<Rightarrow> bytes list \<Rightarrow> Header list \<Rightarrow> Receipt list \<Rightarrow> int \<Rightarrow> DposContext
   \<Rightarrow> ((engine_error + Block) \<times> 's \<times> int \<times> DposContext) option" where
  "Finalize env so chain header0 st0 txs uncles receipts tofb0 ctx =
     (let st1 = AccumulateRewards so (cr_Config chain) header0 st0;
          (root, st) = so_IntermediateRoot so (IsEIP158 (cr_Config chain) (h_Number header0)) st1;
          header = header0\<lparr>h_Root := root\<rparr>;
          parent = cr_GetHeaderByHash chain (h_ParentHash header)
      in case h_Time header of
           None \<Rightarrow> Some (Inl EnginePanic, st, tofb0, ctx)
         | Some t \<Rightarrow>
             (case first_block_time chain tofb0 of
                Inl e \<Rightarrow> Some (Inl e, st, tofb0, ctx)
              | Inr tofb \<Rightarrow>
                  (case (Option.bind (cr_GetHeaderByNumber chain 0) h_Time, parent, Option.bind parent h_Time) of
                     (Some gt, Some p, Some pt) \<Rightarrow>
                       (case finalize_context env (so_GetBalance so st) tofb (wrap64 gt) (wrap64 pt) (wrap64 t)
                               (Header_Hash (kec_of env) p) (h_Validator header) ctx of
                          None \<Rightarrow> None
                        | Some (Inl e, ctx') \<Rightarrow> Some (Inl e, st, tofb, ctx')
                        | Some (Inr proto, ctx') \<Rightarrow>
                            Some (map_sum EngineTrie id (NewBlock (kec_of env) (header\<lparr>h_DposContext := Some proto\<rparr>) txs uncles receipts),
                              st, tofb, ctx'))
                   | _ \<Rightarrow> Some (Inl EnginePanic, st, tofb, ctx))))"

section \<open>Minting\<close>

definition checkDeadline :: "Block \<Rightarrow> int \<Rightarrow> engine_error + unit" where
  "checkDeadline lastBlock now =
     deref (h_Time (b_header lastBlock)) (\<lambda>t.
       if wrap64 t \<ge> NextSlot now then Inl ErrMintFutureBlock
       else if wrap64 t = PrevSlot now \<or> wrap64 (NextSlot now - now) \<le> 1 then Inr ()
       else Inl ErrWaitForPrevBlock)"

definition CheckValidator :: "Block \<Rightarrow> int \<Rightarrow> 'c Dpos \<Rightarrow> engine_error + unit" where
  "CheckValidator lastBlock now d =
     bind_result (checkDeadline lastBlock now) (\<lambda>_.
     deref (h_DposContext (Block_Header lastBlock)) (\<lambda>proto.
       case NewDposContextFromProto (Some (dp_db d)) proto of
         Inl e \<Rightarrow> Inl (EngineTrie e)
       | Inr ctx \<Rightarrow>
           (case lookupValidator (dp_db d) now ctx of
              (Inl e, _) \<Rightarrow> Inl (EngineEpoch e)
            | (Inr validator, _) \<Rightarrow>
                if validator = replicate AddressLength 0 \<or> validator \<noteq> dp_signer d then Inl ErrInvalidBlockValidator
                else Inr ())))"

text \<open>\<open>copy\<close> of a signature over the seal at the end of the extra data.\<close>

definition write_seal :: "bytes \<Rightarrow> bytes \<Rightarrow> bytes" where
  "write_seal sig extra =
     (let sl = drop (length extra - extraSeal) extra; k = min (length sig) (length sl)
      in take (length extra - extraSeal) extra @ take k sig @ drop k sl)"

text \<open>\<open>stopped\<close> says that the stop signal arrives while the engine waits for the slot; then there is no block
  and no error.\<close>

definition Seal :: "(bytes \<Rightarrow> bytes) \<Rightarrow> Block \<Rightarrow> bool \<Rightarrow> int \<Rightarrow> 'c Dpos \<Rightarrow> engine_error + Block option" where
  "Seal kec block stopped now d =
     (let header = Block_Header block in
      deref (h_Number header) (\<lambda>n.
        if big_Uint64 n = 0 then Inl ErrUnknownBlock
        else if wrap64 (NextSlot now - now) > 0 \<and> stopped then Inr None
        else deref (dp_signFn d) (\<lambda>signFn.
          deref (sigHash kec header) (\<lambda>sh.
            case signFn (dp_signer d) sh of
              None \<Rightarrow> Inl ErrSign
            | Some sighash \<Rightarrow> Inr (Some (WithSeal (header\<lparr>h_Extra := write_seal sighash (h_Extra header)\<rparr>) block))))))"

section \<open>The interface for users\<close>

text \<open>\<open>number\<close> is a block number or one of the markers of the RPC interface; -1 is the latest block.\<close>

definition API_GetValidators :: "ChainReader \<Rightarrow> int option \<Rightarrow> 'c Dpos \<Rightarrow> engine_error + bytes list" where
  "API_GetValidators chain number d =
     (case (case number of
         None \<Rightarrow> cr_CurrentHeader chain
       | Some n \<Rightarrow> if n = - 1 then cr_CurrentHeader chain else cr_GetHeaderByNumber chain (uint64 n)) of
        None \<Rightarrow> Inl ErrUnknownBlock
      | Some header \<Rightarrow>
          deref (h_DposContext header) (\<lambda>proto.
            case NewEpochTrie (EpochHash proto) (Some (dp_db d)) of
              Inl e \<Rightarrow> Inl (EngineTrie e)
            | Inr t \<Rightarrow>
                (case GetValidators (dp_db d)
                    \<lparr>epochTrie = t, delegateTrie = zero_trie, voteTrie = zero_trie, candidateTrie = zero_trie, mintCntTrie = zero_trie, dc_db = None\<rparr> of
                   (Inl e, _) \<Rightarrow> Inl (EngineCtx e)
                 | (Inr vs, _) \<Rightarrow> Inr vs)))"

definition GetConfirmedBlockNumber :: "ChainReader \<Rightarrow> 'c Dpos \<Rightarrow> engine_error + int option" where
  "GetConfirmedBlockNumber chain d =
     (case dp_confirmedBlockHeader d of
        Some header \<Rightarrow> Inr (h_Number header)
      | None \<Rightarrow> bind_result (loadConfirmedBlockHeader chain d) (\<lambda>header. Inr (h_Number header)))"

end
