(* ===== verification/Delegation.thy ===== *)
theory Delegation
  imports Main
begin

text \<open>
  The contract of a register of candidates and votes.  An operation returns whether it accepted, and
  the new register; \<open>inv\<close> is the invariant of the register and \<open>valid\<close> the addresses it takes.  A
  delegator has at most one vote, votes go to candidates, and removing a candidate removes the
  votes for it.  Interpreted on the context of the consensus engine in \<open>Dpos_Refine\<close>.
\<close>

datatype 'a ballot_op = Become 'a | Vote 'a 'a | Unvote 'a 'a | Kickout 'a

fun ballot_spec :: "'a ballot_op \<Rightarrow> 'a set \<times> ('a \<rightharpoonup> 'a) \<Rightarrow> 'a set \<times> ('a \<rightharpoonup> 'a)" where
  "ballot_spec (Become c) (C, V) = (insert c C, V)"
| "ballot_spec (Vote x c) (C, V) = (C, if c \<in> C then V(x \<mapsto> c) else V)"
| "ballot_spec (Unvote x c) (C, V) = (C, if c \<in> C \<and> V x = Some c then V(x := None) else V)"
| "ballot_spec (Kickout c) (C, V) = (C - {c}, \<lambda>x. if V x = Some c then None else V x)"

definition ballot_run :: "'a ballot_op list \<Rightarrow> 'a set \<times> ('a \<rightharpoonup> 'a) \<Rightarrow> 'a set \<times> ('a \<rightharpoonup> 'a)" where
  "ballot_run ops s = fold ballot_spec ops s"

locale delegation =
  fixes cands :: "'s \<Rightarrow> 'a set"
    and vote :: "'s \<Rightarrow> 'a \<Rightarrow> 'a option"
    and become :: "'a \<Rightarrow> 's \<Rightarrow> bool \<times> 's"
    and delegate :: "'a \<Rightarrow> 'a \<Rightarrow> 's \<Rightarrow> bool \<times> 's"
    and undelegate :: "'a \<Rightarrow> 'a \<Rightarrow> 's \<Rightarrow> bool \<times> 's"
    and kickout :: "'a \<Rightarrow> 's \<Rightarrow> bool \<times> 's"
    and inv :: "'s \<Rightarrow> bool"
    and valid :: "'a \<Rightarrow> bool"
  assumes become: "\<lbrakk>inv s; valid c\<rbrakk> \<Longrightarrow>
      \<exists>s'. become c s = (True, s') \<and> inv s' \<and> cands s' = insert c (cands s) \<and> vote s' = vote s"
    and delegate: "\<lbrakk>inv s; valid x; valid c\<rbrakk> \<Longrightarrow>
      \<exists>s'. delegate x c s = (c \<in> cands s, s') \<and> inv s' \<and> cands s' = cands s \<and>
        vote s' = (if c \<in> cands s then (vote s)(x \<mapsto> c) else vote s)"
    and undelegate: "\<lbrakk>inv s; valid x; valid c\<rbrakk> \<Longrightarrow>
      \<exists>s'. undelegate x c s = (c \<in> cands s \<and> vote s x = Some c, s') \<and> inv s' \<and> cands s' = cands s \<and>
        vote s' = (if c \<in> cands s \<and> vote s x = Some c then (vote s)(x := None) else vote s)"
    and kickout: "\<lbrakk>inv s; valid c\<rbrakk> \<Longrightarrow>
      \<exists>s'. kickout c s = (True, s') \<and> inv s' \<and> cands s' = cands s - {c} \<and>
        vote s' = (\<lambda>x. if vote s x = Some c then None else vote s x)"
    and votes_for_candidates: "inv s \<Longrightarrow> vote s x = Some c \<Longrightarrow> c \<in> cands s"
begin

fun step :: "'a ballot_op \<Rightarrow> 's \<Rightarrow> 's" where
  "step (Become c) s = snd (become c s)"
| "step (Vote x c) s = snd (delegate x c s)"
| "step (Unvote x c) s = snd (undelegate x c s)"
| "step (Kickout c) s = snd (kickout c s)"

fun valid_op :: "'a ballot_op \<Rightarrow> bool" where
  "valid_op (Become c) = valid c"
| "valid_op (Vote x c) = (valid x \<and> valid c)"
| "valid_op (Unvote x c) = (valid x \<and> valid c)"
| "valid_op (Kickout c) = valid c"

lemma step_refines:
  assumes "inv s" and "valid_op p"
  shows "inv (step p s) \<and> (cands (step p s), vote (step p s)) = ballot_spec p (cands s, vote s)"
proof (cases p)
  case (Become c)
  with become [OF assms(1)] assms(2) show ?thesis by fastforce
next
  case (Vote x c)
  with delegate [OF assms(1)] assms(2) show ?thesis by fastforce
next
  case (Unvote x c)
  with undelegate [OF assms(1)] assms(2) show ?thesis by fastforce
next
  case (Kickout c)
  with kickout [OF assms(1)] assms(2) show ?thesis by fastforce
qed

lemma run_refines:
  assumes "inv s" and "\<forall>p \<in> set ops. valid_op p"
  shows "inv (fold step ops s) \<and> (cands (fold step ops s), vote (fold step ops s)) = ballot_run ops (cands s, vote s)"
  using assms
proof (induction ops arbitrary: s)
  case (Cons p ops)
  then show ?case using step_refines [of s p] Cons.IH [of "step p s"] by (simp add: ballot_run_def)
qed (simp add: ballot_run_def)

text \<open>The votes for a candidate, and what a run leaves of them.\<close>

definition supporters :: "'s \<Rightarrow> 'a \<Rightarrow> 'a set" where
  "supporters s c = {x. vote s x = Some c}"

lemma supporters_disjoint: "c \<noteq> c' \<Longrightarrow> supporters s c \<inter> supporters s c' = {}"
  by (auto simp: supporters_def)

lemma no_supporters: "inv s \<Longrightarrow> c \<notin> cands s \<Longrightarrow> supporters s c = {}"
  using votes_for_candidates by (auto simp: supporters_def)

lemma kickout_supporters:
  assumes "inv s" and "valid c"
  shows "supporters (step (Kickout c) s) c' = (if c' = c then {} else supporters s c')"
proof -
  from kickout [OF assms] obtain s' where "kickout c s = (True, s')" "vote s' = (\<lambda>x. if vote s x = Some c then None else vote s x)"
    by blast
  then show ?thesis by (auto simp: supporters_def)
qed

end

end
