(* ===== verification/Dpos_Refine.thy ===== *)
theory Dpos_Refine
  imports Dpos_Context Delegation
begin

text \<open>
  The context as a register of candidates and votes.  \<open>ctx_ok\<close> is its invariant: the tries are
  canonical, a candidate is stored under its own address, every vote is for a candidate, and the
  delegate trie holds exactly the votes, sorted by candidate.  Each operation keeps the invariant
  and does to the candidates and the votes what its contract \<open>delegation\<close> says.
\<close>

section \<open>Tries with a prefix\<close>

definition ptrie :: "(bytes \<Rightarrow> bytes) \<Rightarrow> database \<Rightarrow> bytes \<Rightarrow> trie \<Rightarrow> bool" where
  "ptrie kec db p t \<longleftrightarrow> trie_ok kec db t \<and> tr_prefix t = Some p"

lemma get_ptrie:
  assumes "ptrie kec db p t"
  obtains t' where "TryGet db t k = (Inr (trie_map db t k), t')" "ptrie kec db p t'" "trie_map db t' = trie_map db t"
  using assms TryGet_okE [of kec db t k] unfolding ptrie_def by metis

lemma put_ptrie:
  assumes "ptrie kec db p t" and "v \<noteq> []"
  obtains t' where "TryUpdate db t k v = (Inr (), t')" "ptrie kec db p t'" "trie_map db t' = (trie_map db t)(k \<mapsto> v)"
  using assms TryUpdate_okE [of kec db t v k] unfolding ptrie_def by metis

lemma del_ptrie:
  assumes "ptrie kec db p t"
  obtains t' where "TryDelete db t k = (Inr (), t')" "Delete db t k = (Inr (), t')" "ptrie kec db p t'" "trie_map db t' = (trie_map db t)(k := None)"
proof -
  from assms TryDelete_okE [of kec db t k] obtain t' where
    "TryDelete db t k = (Inr (), t')" "ptrie kec db p t'" "trie_map db t' = (trie_map db t)(k := None)"
    unfolding ptrie_def by metis
  then show thesis by (intro that [of t']) (simp_all add: Delete_def)
qed

section \<open>The invariant\<close>

definition addr :: "bytes \<Rightarrow> bool" where
  "addr a \<longleftrightarrow> length a = AddressLength"

definition candidates :: "database \<Rightarrow> DposContext \<Rightarrow> bytes set" where
  "candidates db d = dom (trie_map db (candidateTrie d))"

definition votes :: "database \<Rightarrow> DposContext \<Rightarrow> bytes \<Rightarrow> bytes option" where
  "votes db d = trie_map db (voteTrie d)"

definition tries_ok :: "(bytes \<Rightarrow> bytes) \<Rightarrow> database \<Rightarrow> DposContext \<Rightarrow> bool" where
  "tries_ok kec db d \<longleftrightarrow> ptrie kec db epochPrefix (epochTrie d) \<and> ptrie kec db delegatePrefix (delegateTrie d) \<and>
     ptrie kec db votePrefix (voteTrie d) \<and> ptrie kec db candidatePrefix (candidateTrie d) \<and> ptrie kec db mintCntPrefix (mintCntTrie d)"

text \<open>The content of the three tries of the register.\<close>

definition register_ok :: "(bytes \<Rightarrow> bytes option) \<Rightarrow> (bytes \<Rightarrow> bytes option) \<Rightarrow> (bytes \<Rightarrow> bytes option) \<Rightarrow> bool" where
  "register_ok cand vot del \<longleftrightarrow>
     (\<forall>c v. cand c = Some v \<longrightarrow> v = c \<and> addr c) \<and>
     (\<forall>x c. vot x = Some c \<longrightarrow> addr x \<and> cand c \<noteq> None) \<and>
     (\<forall>k v. del k = Some v \<longleftrightarrow> (\<exists>c. vot v = Some c \<and> k = c @ v))"

definition ctx_ok :: "(bytes \<Rightarrow> bytes) \<Rightarrow> database \<Rightarrow> DposContext \<Rightarrow> bool" where
  "ctx_ok kec db d \<longleftrightarrow> tries_ok kec db d \<and>
     register_ok (trie_map db (candidateTrie d)) (trie_map db (voteTrie d)) (trie_map db (delegateTrie d))"

lemmas ctx_defs = ctx_ok_def tries_ok_def candidates_def votes_def

lemma addr_append_inj: "addr a \<Longrightarrow> addr b \<Longrightarrow> a @ x = b @ y \<longleftrightarrow> a = b \<and> x = y"
  by (simp add: addr_def)

lemma not_addr_Nil [simp]: "\<not> addr []"
  by (simp add: addr_def AddressLength_def)

lemma addr_Nil: "addr a \<Longrightarrow> a \<noteq> []"
  by auto

lemma register_become:
  "register_ok cand vot del \<Longrightarrow> addr c \<Longrightarrow> register_ok (cand(c \<mapsto> c)) vot del"
  by (auto simp: register_ok_def)

lemma register_delegate:
  assumes "register_ok cand vot del" and "cand c = Some w" and "addr x"
  shows "register_ok cand (vot(x \<mapsto> c)) ((case vot x of None \<Rightarrow> del | Some old \<Rightarrow> del(old @ x := None))(c @ x \<mapsto> x))"
proof -
  have vot: "vot y = Some e \<Longrightarrow> addr y \<and> addr e \<and> cand e \<noteq> None" for y e
    using assms(1) unfolding register_ok_def by blast
  have c: "addr c" using assms(1,2) by (auto simp: register_ok_def)
  let ?del = "(case vot x of None \<Rightarrow> del | Some old \<Rightarrow> del(old @ x := None))(c @ x \<mapsto> x)"
  have "?del k = Some v \<longleftrightarrow> (\<exists>e. (vot(x \<mapsto> c)) v = Some e \<and> k = e @ v)" for k v
  proof -
    have "del k = Some v \<longleftrightarrow> (\<exists>e. vot v = Some e \<and> k = e @ v)" using assms(1) by (simp add: register_ok_def)
    then show ?thesis using vot c addr_append_inj by (auto split: option.splits if_splits)
  qed
  then show ?thesis using assms c by (auto simp: register_ok_def)
qed

lemma register_undelegate:
  assumes "register_ok cand vot del" and "vot x = Some c"
  shows "register_ok cand (vot(x := None)) (del(c @ x := None))"
proof -
  have vot: "vot y = Some e \<Longrightarrow> addr y \<and> addr e \<and> cand e \<noteq> None" for y e
    using assms(1) unfolding register_ok_def by blast
  have "(del(c @ x := None)) k = Some v \<longleftrightarrow> (\<exists>e. (vot(x := None)) v = Some e \<and> k = e @ v)" for k v
  proof -
    have "del k = Some v \<longleftrightarrow> (\<exists>e. vot v = Some e \<and> k = e @ v)" using assms(1) by (simp add: register_ok_def)
    then show ?thesis using vot assms(2) addr_append_inj by (auto split: if_splits)
  qed
  then show ?thesis using assms by (auto simp: register_ok_def)
qed

lemma register_kickout:
  assumes "register_ok cand vot del"
  shows "register_ok (cand(c := None)) (\<lambda>x. if vot x = Some c then None else vot x)
    (\<lambda>k. if \<exists>x. vot x = Some c \<and> k = c @ x then None else del k)"
proof -
  have vot: "vot y = Some e \<Longrightarrow> addr y \<and> addr e \<and> cand e \<noteq> None" for y e
    using assms unfolding register_ok_def by blast
  have "(if \<exists>x. vot x = Some c \<and> k = c @ x then None else del k) = Some v \<longleftrightarrow>
    (\<exists>e. (if vot v = Some c then None else vot v) = Some e \<and> k = e @ v)" for k v
  proof -
    have "del k = Some v \<longleftrightarrow> (\<exists>e. vot v = Some e \<and> k = e @ v)" using assms by (simp add: register_ok_def)
    then show ?thesis using vot addr_append_inj by (auto split: if_splits)
  qed
  then show ?thesis using assms by (auto simp: register_ok_def split: if_splits)
qed

section \<open>The operations\<close>

lemma BecomeCandidate_ok:
  assumes "ctx_ok kec db d" and "addr c"
  shows "\<exists>d'. BecomeCandidate db c d = (Inr (), d') \<and> ctx_ok kec db d' \<and> candidates db d' = insert c (candidates db d) \<and>
    votes db d' = votes db d \<and> epochTrie d' = epochTrie d \<and> mintCntTrie d' = mintCntTrie d"
proof -
  from assms(1) have "ptrie kec db candidatePrefix (candidateTrie d)" by (simp add: ctx_defs)
  from put_ptrie [OF this addr_Nil [OF assms(2)], of c] obtain t' where t': "TryUpdate db (candidateTrie d) c c = (Inr (), t')"
    "ptrie kec db candidatePrefix t'" "trie_map db t' = (trie_map db (candidateTrie d))(c \<mapsto> c)" by auto
  let ?d = "d\<lparr>candidateTrie := t'\<rparr>"
  have "ctx_ok kec db ?d" using assms t' by (simp add: ctx_defs register_become)
  moreover have "BecomeCandidate db c d = (Inr (), ?d)" using t'(1) by (simp add: BecomeCandidate_def on_candidate_def)
  ultimately show ?thesis using t'(3) by (intro exI [of _ ?d]) (auto simp: ctx_defs)
qed

text \<open>Reading changes no content.\<close>

lemma read_candidate:
  assumes "ctx_ok kec db d"
  obtains t where "on_candidate (\<lambda>t. TryGet db t c) d = (Inr (trie_map db (candidateTrie d) c), d\<lparr>candidateTrie := t\<rparr>)"
    "ctx_ok kec db (d\<lparr>candidateTrie := t\<rparr>)" "trie_map db t = trie_map db (candidateTrie d)"
proof -
  from assms have "ptrie kec db candidatePrefix (candidateTrie d)" by (simp add: ctx_defs)
  from get_ptrie [OF this, of c] obtain t where t: "TryGet db (candidateTrie d) c = (Inr (trie_map db (candidateTrie d) c), t)"
    "ptrie kec db candidatePrefix t" "trie_map db t = trie_map db (candidateTrie d)" .
  show thesis using that [of t] t assms by (simp add: on_candidate_def ctx_defs)
qed

lemma read_vote:
  assumes "tries_ok kec db d"
  obtains t where "on_vote (\<lambda>t. TryGet db t x) d = (Inr (trie_map db (voteTrie d) x), d\<lparr>voteTrie := t\<rparr>)"
    "tries_ok kec db (d\<lparr>voteTrie := t\<rparr>)" "trie_map db t = trie_map db (voteTrie d)"
proof -
  from assms have "ptrie kec db votePrefix (voteTrie d)" by (simp add: ctx_defs)
  from get_ptrie [OF this, of x] obtain t where t: "TryGet db (voteTrie d) x = (Inr (trie_map db (voteTrie d) x), t)"
    "ptrie kec db votePrefix t" "trie_map db t = trie_map db (voteTrie d)" .
  show thesis using that [of t] t assms by (simp add: on_vote_def ctx_defs)
qed

lemma skip_missing_Inr [simp]: "skip_missing x (Inr y, s) = (Inr y, s)"
  by (simp add: skip_missing_def)

text \<open>Writing the delegate trie and the vote trie.\<close>

lemma write_delegate:
  assumes "tries_ok kec db d" and "v \<noteq> []"
  obtains t where "on_delegate (\<lambda>t. TryUpdate db t k v) d = (Inr (), d\<lparr>delegateTrie := t\<rparr>)"
    "tries_ok kec db (d\<lparr>delegateTrie := t\<rparr>)" "trie_map db t = (trie_map db (delegateTrie d))(k \<mapsto> v)"
proof -
  from assms have "ptrie kec db delegatePrefix (delegateTrie d)" by (simp add: ctx_defs)
  from put_ptrie [OF this assms(2), of k] obtain t where t: "TryUpdate db (delegateTrie d) k v = (Inr (), t)"
    "ptrie kec db delegatePrefix t" "trie_map db t = (trie_map db (delegateTrie d))(k \<mapsto> v)" .
  show thesis using that [of t] t assms by (simp add: on_delegate_def ctx_defs)
qed

lemma erase_delegate:
  assumes "tries_ok kec db d"
  obtains t where "on_delegate (\<lambda>t. TryDelete db t k) d = (Inr (), d\<lparr>delegateTrie := t\<rparr>)"
    "on_delegate (\<lambda>t. Delete db t k) d = (Inr (), d\<lparr>delegateTrie := t\<rparr>)"
    "tries_ok kec db (d\<lparr>delegateTrie := t\<rparr>)" "trie_map db t = (trie_map db (delegateTrie d))(k := None)"
proof -
  from assms have "ptrie kec db delegatePrefix (delegateTrie d)" by (simp add: ctx_defs)
  from del_ptrie [OF this, of k] obtain t where t: "TryDelete db (delegateTrie d) k = (Inr (), t)" "Delete db (delegateTrie d) k = (Inr (), t)"
    "ptrie kec db delegatePrefix t" "trie_map db t = (trie_map db (delegateTrie d))(k := None)" .
  show thesis using that [of t] t assms by (simp add: on_delegate_def ctx_defs)
qed

lemma erase_old:
  assumes "tries_ok kec db d"
  obtains t where "(case prev of None \<Rightarrow> (Inr (), d) | Some old \<Rightarrow> on_delegate (\<lambda>t. Delete db t (old @ x)) d) = (Inr (), d\<lparr>delegateTrie := t\<rparr>)"
    "tries_ok kec db (d\<lparr>delegateTrie := t\<rparr>)"
    "trie_map db t = (case prev of None \<Rightarrow> trie_map db (delegateTrie d) | Some old \<Rightarrow> (trie_map db (delegateTrie d))(old @ x := None))"
proof (cases prev)
  case None
  have "d\<lparr>delegateTrie := delegateTrie d\<rparr> = d" by (cases d) simp
  with None assms show thesis by (intro that [of "delegateTrie d"]) simp_all
next
  case (Some old)
  from erase_delegate [OF assms, of "old @ x"] obtain t where "on_delegate (\<lambda>t. Delete db t (old @ x)) d = (Inr (), d\<lparr>delegateTrie := t\<rparr>)"
    "tries_ok kec db (d\<lparr>delegateTrie := t\<rparr>)" "trie_map db t = (trie_map db (delegateTrie d))(old @ x := None)" .
  with Some show thesis by (intro that [of t]) simp_all
qed

lemma write_vote:
  assumes "tries_ok kec db d" and "v \<noteq> []"
  obtains t where "on_vote (\<lambda>t. TryUpdate db t k v) d = (Inr (), d\<lparr>voteTrie := t\<rparr>)"
    "tries_ok kec db (d\<lparr>voteTrie := t\<rparr>)" "trie_map db t = (trie_map db (voteTrie d))(k \<mapsto> v)"
proof -
  from assms have "ptrie kec db votePrefix (voteTrie d)" by (simp add: ctx_defs)
  from put_ptrie [OF this assms(2), of k] obtain t where t: "TryUpdate db (voteTrie d) k v = (Inr (), t)"
    "ptrie kec db votePrefix t" "trie_map db t = (trie_map db (voteTrie d))(k \<mapsto> v)" .
  show thesis using that [of t] t assms by (simp add: on_vote_def ctx_defs)
qed

lemma erase_vote:
  assumes "tries_ok kec db d"
  obtains t where "on_vote (\<lambda>t. TryDelete db t k) d = (Inr (), d\<lparr>voteTrie := t\<rparr>)"
    "tries_ok kec db (d\<lparr>voteTrie := t\<rparr>)" "trie_map db t = (trie_map db (voteTrie d))(k := None)"
proof -
  from assms have "ptrie kec db votePrefix (voteTrie d)" by (simp add: ctx_defs)
  from del_ptrie [OF this, of k] obtain t where t: "TryDelete db (voteTrie d) k = (Inr (), t)" "Delete db (voteTrie d) k = (Inr (), t)"
    "ptrie kec db votePrefix t" "trie_map db t = (trie_map db (voteTrie d))(k := None)" .
  show thesis using that [of t] t assms by (simp add: on_vote_def ctx_defs)
qed

text \<open>What an operation leaves alone.\<close>

definition same_rest :: "DposContext \<Rightarrow> DposContext \<Rightarrow> bool" where
  "same_rest d d' \<longleftrightarrow> epochTrie d' = epochTrie d \<and> mintCntTrie d' = mintCntTrie d \<and> dc_db d' = dc_db d"

lemma Delegate_ok:
  assumes ok: "ctx_ok kec db d" and x: "addr x" and c: "c \<in> candidates db d"
  shows "\<exists>d'. Delegate db x c d = (Inr (), d') \<and> ctx_ok kec db d' \<and> candidates db d' = candidates db d \<and>
    votes db d' = (votes db d)(x \<mapsto> c) \<and> same_rest d d'"
proof -
  from c obtain w where w: "trie_map db (candidateTrie d) c = Some w" by (auto simp: candidates_def)
  with ok have ac: "addr c" by (auto simp: ctx_ok_def register_ok_def)
  from read_candidate [OF ok] obtain t1 where
    1: "on_candidate (\<lambda>t. TryGet db t c) d = (Inr (trie_map db (candidateTrie d) c), d\<lparr>candidateTrie := t1\<rparr>)"
      "ctx_ok kec db (d\<lparr>candidateTrie := t1\<rparr>)" "trie_map db t1 = trie_map db (candidateTrie d)" .
  let ?d1 = "d\<lparr>candidateTrie := t1\<rparr>"
  have "tries_ok kec db ?d1" using 1(2) by (simp add: ctx_ok_def)
  from read_vote [OF this] obtain t2 where
    2: "on_vote (\<lambda>t. TryGet db t x) ?d1 = (Inr (trie_map db (voteTrie d) x), ?d1\<lparr>voteTrie := t2\<rparr>)"
      "tries_ok kec db (?d1\<lparr>voteTrie := t2\<rparr>)" "trie_map db t2 = trie_map db (voteTrie d)" by auto
  let ?d2 = "?d1\<lparr>voteTrie := t2\<rparr>" and ?old = "trie_map db (voteTrie d) x"
  let ?step = "case ?old of None \<Rightarrow> (Inr (), ?d2) | Some old \<Rightarrow> on_delegate (\<lambda>t. Delete db t (old @ x)) ?d2"
  from erase_old [OF 2(2), where prev = ?old and x = x] obtain t3 where 3: "?step = (Inr (), ?d2\<lparr>delegateTrie := t3\<rparr>)" "tries_ok kec db (?d2\<lparr>delegateTrie := t3\<rparr>)"
      "trie_map db t3 = (case ?old of None \<Rightarrow> trie_map db (delegateTrie ?d2) | Some old \<Rightarrow> (trie_map db (delegateTrie ?d2))(old @ x := None))" .
  have d2: "delegateTrie ?d2 = delegateTrie d" by simp
  note 3 = 3(1,2) 3(3) [unfolded d2]
  let ?d3 = "?d2\<lparr>delegateTrie := t3\<rparr>"
  from write_delegate [OF 3(2) addr_Nil [OF x], of "c @ x"] obtain t4 where
    4: "on_delegate (\<lambda>t. TryUpdate db t (c @ x) x) ?d3 = (Inr (), ?d3\<lparr>delegateTrie := t4\<rparr>)"
      "tries_ok kec db (?d3\<lparr>delegateTrie := t4\<rparr>)" "trie_map db t4 = (trie_map db t3)(c @ x \<mapsto> x)" by auto
  let ?d4 = "?d3\<lparr>delegateTrie := t4\<rparr>"
  from write_vote [OF 4(2) addr_Nil [OF ac], of x] obtain t5 where
    5: "on_vote (\<lambda>t. TryUpdate db t x c) ?d4 = (Inr (), ?d4\<lparr>voteTrie := t5\<rparr>)"
      "tries_ok kec db (?d4\<lparr>voteTrie := t5\<rparr>)" "trie_map db t5 = (trie_map db t2)(x \<mapsto> c)" by auto
  let ?d5 = "?d4\<lparr>voteTrie := t5\<rparr>"
  have "Delegate db x c d = (Inr (), ?d5)" using 1(1) 2(1) 3(1) 4(1) 5(1) w by (simp add: Delegate_def)
  moreover have "register_ok (trie_map db (candidateTrie d)) (trie_map db (voteTrie d)) (trie_map db (delegateTrie d))"
    using ok by (simp add: ctx_ok_def)
  from register_delegate [OF this w x] have "ctx_ok kec db ?d5" using 5(2) 1(3) 2(3) 3(3) 4(3) 5(3) by (simp add: ctx_ok_def)
  ultimately show ?thesis using 1(3) 2(3) 5(3) by (intro exI [of _ ?d5]) (simp add: same_rest_def candidates_def votes_def)
qed

lemma Delegate_refused:
  assumes ok: "ctx_ok kec db d" and c: "c \<notin> candidates db d"
  shows "\<exists>d'. Delegate db x c d = (Inl InvalidCandidateToDelegate, d') \<and> ctx_ok kec db d' \<and> candidates db d' = candidates db d \<and>
    votes db d' = votes db d \<and> same_rest d d'"
proof -
  from read_candidate [OF ok] obtain t1 where
    1: "on_candidate (\<lambda>t. TryGet db t c) d = (Inr (trie_map db (candidateTrie d) c), d\<lparr>candidateTrie := t1\<rparr>)"
      "ctx_ok kec db (d\<lparr>candidateTrie := t1\<rparr>)" "trie_map db t1 = trie_map db (candidateTrie d)" .
  moreover have "trie_map db (candidateTrie d) c = None" using c by (auto simp: candidates_def)
  ultimately show ?thesis by (simp add: Delegate_def candidates_def votes_def same_rest_def)
qed

lemma UnDelegate_ok:
  assumes ok: "ctx_ok kec db d" and c: "addr c"
  shows "\<exists>r d'. UnDelegate db x c d = (r, d') \<and> ctx_ok kec db d' \<and> candidates db d' = candidates db d \<and> same_rest d d' \<and>
    (if c \<notin> candidates db d then r = Inl InvalidCandidateToUndelegate \<and> votes db d' = votes db d
     else if votes db d x \<noteq> Some c then r = Inl MismatchCandidateToUndelegate \<and> votes db d' = votes db d
     else r = Inr () \<and> votes db d' = (votes db d)(x := None))"
proof -
  from read_candidate [OF ok] obtain t1 where
    1: "on_candidate (\<lambda>t. TryGet db t c) d = (Inr (trie_map db (candidateTrie d) c), d\<lparr>candidateTrie := t1\<rparr>)"
      "ctx_ok kec db (d\<lparr>candidateTrie := t1\<rparr>)" "trie_map db t1 = trie_map db (candidateTrie d)" .
  let ?d1 = "d\<lparr>candidateTrie := t1\<rparr>" and ?old = "trie_map db (voteTrie d) x"
  show ?thesis
  proof (cases "c \<in> candidates db d")
    case False
    then have "trie_map db (candidateTrie d) c = None" by (auto simp: candidates_def)
    with 1 False show ?thesis by (simp add: UnDelegate_def candidates_def votes_def same_rest_def)
  next
    case True
    then obtain w where w: "trie_map db (candidateTrie d) c = Some w" by (auto simp: candidates_def)
    have "tries_ok kec db ?d1" using 1(2) by (simp add: ctx_ok_def)
    from read_vote [OF this] obtain t2 where
      2: "on_vote (\<lambda>t. TryGet db t x) ?d1 = (Inr ?old, ?d1\<lparr>voteTrie := t2\<rparr>)"
        "tries_ok kec db (?d1\<lparr>voteTrie := t2\<rparr>)" "trie_map db t2 = trie_map db (voteTrie d)" by auto
    let ?d2 = "?d1\<lparr>voteTrie := t2\<rparr>"
    have eq: "(case ?old of None \<Rightarrow> [] | Some old \<Rightarrow> old) \<noteq> c \<longleftrightarrow> ?old \<noteq> Some c" using c by (auto split: option.splits)
    show ?thesis
    proof (cases "?old = Some c")
      case False
      have "ctx_ok kec db ?d2" using 1(2) 2(2,3) by (simp add: ctx_ok_def)
      with True False 1 2 w eq show ?thesis by (simp add: UnDelegate_def candidates_def votes_def same_rest_def)
    next
      case old: True
      from erase_delegate [OF 2(2), of "c @ x"] obtain t3 where
        3: "on_delegate (\<lambda>t. TryDelete db t (c @ x)) ?d2 = (Inr (), ?d2\<lparr>delegateTrie := t3\<rparr>)"
          "tries_ok kec db (?d2\<lparr>delegateTrie := t3\<rparr>)" "trie_map db t3 = (trie_map db (delegateTrie d))(c @ x := None)" by auto
      let ?d3 = "?d2\<lparr>delegateTrie := t3\<rparr>"
      from erase_vote [OF 3(2), of x] obtain t4 where
        4: "on_vote (\<lambda>t. TryDelete db t x) ?d3 = (Inr (), ?d3\<lparr>voteTrie := t4\<rparr>)"
          "tries_ok kec db (?d3\<lparr>voteTrie := t4\<rparr>)" "trie_map db t4 = (trie_map db t2)(x := None)" by auto
      let ?d4 = "?d3\<lparr>voteTrie := t4\<rparr>"
      have "UnDelegate db x c d = (Inr (), ?d4)" using 1(1) 2(1) 3(1) 4(1) w old by (simp add: UnDelegate_def)
      moreover have "register_ok (trie_map db (candidateTrie d)) (trie_map db (voteTrie d)) (trie_map db (delegateTrie d))"
        using ok by (simp add: ctx_ok_def)
      from register_undelegate [OF this old] have "ctx_ok kec db ?d4" using 4(2) 1(3) 2(3) 3(3) 4(3) by (simp add: ctx_ok_def)
      ultimately show ?thesis using True old 1(3) 2(3) 4(3) by (simp add: candidates_def votes_def same_rest_def)
    qed
  qed
qed

text \<open>Kicking out: the loop removes the delegations the iterator yields.\<close>

lemma kickout_delegator_ok:
  assumes "tries_ok kec db d" and "trie_map db (voteTrie d) x = Some c"
  obtains d' where "kickout_delegator db c x d = (Inr (), d')" "tries_ok kec db d'"
    "trie_map db (voteTrie d') = (trie_map db (voteTrie d))(x := None)"
    "trie_map db (delegateTrie d') = (trie_map db (delegateTrie d))(c @ x := None)"
    "candidateTrie d' = candidateTrie d" "same_rest d d'"
proof -
  from erase_delegate [OF assms(1), of "c @ x"] obtain t1 where
    1: "on_delegate (\<lambda>t. TryDelete db t (c @ x)) d = (Inr (), d\<lparr>delegateTrie := t1\<rparr>)"
      "tries_ok kec db (d\<lparr>delegateTrie := t1\<rparr>)" "trie_map db t1 = (trie_map db (delegateTrie d))(c @ x := None)" .
  let ?d1 = "d\<lparr>delegateTrie := t1\<rparr>"
  from read_vote [OF 1(2), of x] assms(2) obtain t2 where
    2: "on_vote (\<lambda>t. TryGet db t x) ?d1 = (Inr (Some c), ?d1\<lparr>voteTrie := t2\<rparr>)"
      "tries_ok kec db (?d1\<lparr>voteTrie := t2\<rparr>)" "trie_map db t2 = trie_map db (voteTrie d)" by auto
  let ?d2 = "?d1\<lparr>voteTrie := t2\<rparr>"
  from erase_vote [OF 2(2), of x] obtain t3 where
    3: "on_vote (\<lambda>t. TryDelete db t x) ?d2 = (Inr (), ?d2\<lparr>voteTrie := t3\<rparr>)"
      "tries_ok kec db (?d2\<lparr>voteTrie := t3\<rparr>)" "trie_map db t3 = (trie_map db t2)(x := None)" by auto
  show thesis using that [of "?d2\<lparr>voteTrie := t3\<rparr>"] 1 2 3 by (simp add: kickout_delegator_def same_rest_def)
qed

lemma set_delegate_same [simp]: "set_delegate d (delegateTrie d) = d"
  by (cases d) (simp add: set_delegate_def)

lemma same_rest_trans: "same_rest d d' \<Longrightarrow> same_rest d' d'' \<Longrightarrow> same_rest d d''"
  by (simp add: same_rest_def)

lemma kickout_loop_ok:
  assumes "tries_ok kec db d" and "yields db (it_nodeIt it) L" and "\<forall>y \<in> set L. trie_map db (voteTrie d) (snd y) = Some c"
    and "distinct (map snd L)"
  shows "\<exists>d'. kickout_loop kec db c it d = Some (Inr (), d') \<and> tries_ok kec db d' \<and> candidateTrie d' = candidateTrie d \<and> same_rest d d' \<and>
    trie_map db (voteTrie d') = (\<lambda>x. if x \<in> snd ` set L then None else trie_map db (voteTrie d) x) \<and>
    trie_map db (delegateTrie d') = (\<lambda>k. if \<exists>x \<in> snd ` set L. k = c @ x then None else trie_map db (delegateTrie d) k)"
  using assms
proof (induction L arbitrary: it d)
  case Nil
  from Iterator_Next_yields [OF Nil(2), of kec "delegateTrie d"] obtain it' where
    "Iterator_Next kec db (delegateTrie d) it = Some (Inr False, delegateTrie d, it')" by auto
  then show ?case using Nil(1) by (simp add: kickout_loop.simps [of kec db c it d] same_rest_def)
next
  case (Cons y L)
  obtain k x where y: "y = (k, x)" by (cases y)
  from Iterator_Next_yields [OF Cons.prems(2), of kec "delegateTrie d"] obtain it' where
    it': "Iterator_Next kec db (delegateTrie d) it = Some (Inr True, delegateTrie d, it')" "yields db (it_nodeIt it') L"
      "it_Value it' = Some x" by (auto simp: y)
  have "trie_map db (voteTrie d) x = Some c" using Cons.prems(3) y by simp
  from kickout_delegator_ok [OF Cons.prems(1) this] obtain d1 where d1: "kickout_delegator db c x d = (Inr (), d1)" "tries_ok kec db d1"
    "trie_map db (voteTrie d1) = (trie_map db (voteTrie d))(x := None)"
    "trie_map db (delegateTrie d1) = (trie_map db (delegateTrie d))(c @ x := None)"
    "candidateTrie d1 = candidateTrie d" "same_rest d d1" .
  have "\<forall>z \<in> set L. trie_map db (voteTrie d1) (snd z) = Some c"
    using Cons.prems(3,4) d1(3) y by (auto simp: image_iff)
  with Cons.IH [OF d1(2) it'(2)] Cons.prems(4) obtain d' where d': "kickout_loop kec db c it' d1 = Some (Inr (), d')" "tries_ok kec db d'"
    "candidateTrie d' = candidateTrie d1" "same_rest d1 d'"
    "trie_map db (voteTrie d') = (\<lambda>x. if x \<in> snd ` set L then None else trie_map db (voteTrie d1) x)"
    "trie_map db (delegateTrie d') = (\<lambda>k. if \<exists>x \<in> snd ` set L. k = c @ x then None else trie_map db (delegateTrie d1) k)" by auto
  have "kickout_loop kec db c it d = Some (Inr (), d')"
    using it'(1,3) d1(1) d'(1) by (simp add: kickout_loop.simps [of kec db c it d] value_of_def)
  then show ?case using d' d1 same_rest_trans [OF d1(6) d'(4)] y by (intro exI [of _ d']) (auto simp: fun_eq_iff)
qed

lemma full_key_Nil: "ptrie kec db p t \<Longrightarrow> p \<noteq> [] \<Longrightarrow> full_key t k \<noteq> []"
  by (simp add: ptrie_def full_key_def)

lemma prefixes_Nil [simp]:
  "epochPrefix \<noteq> []" "delegatePrefix \<noteq> []" "votePrefix \<noteq> []" "candidatePrefix \<noteq> []" "mintCntPrefix \<noteq> []"
  by (simp_all add: epochPrefix_def delegatePrefix_def votePrefix_def candidatePrefix_def mintCntPrefix_def ascii_def)

lemma key_less_irrefl: "\<not> key_less x x"
  by (simp add: key_less_def bytes_less_irrefl)

lemma enumerates_distinct:
  assumes "enumerates db t P L"
  shows "distinct L"
proof -
  have "sorted_wrt key_less L" using assms by (simp add: enumerates_def)
  then show ?thesis using key_less_irrefl by (induction L) auto
qed

text \<open>The prefix iterator of a candidate yields its delegators, each once.\<close>

lemma delegators_of:
  assumes r: "register_ok cand vot (trie_map db t)" and "trie_ok kec db t" and "addr c"
    and e: "enumerates db t (\<lambda>k. \<exists>r. k = c @ r) L"
  shows "snd ` set L = {x. vot x = Some c}" and "distinct (map snd L)" and "\<forall>y \<in> set L. \<exists>x. y = (full_key t (c @ x), x)"
proof -
  have set: "set L = {(full_key t (c @ x), x) |x. vot x = Some c}"
  proof -
    have "trie_map db t (c @ r) = Some v \<longleftrightarrow> r = v \<and> vot v = Some c" for r v
    proof -
      have "trie_map db t (c @ r) = Some v \<longleftrightarrow> (\<exists>c'. vot v = Some c' \<and> c @ r = c' @ v)" using r by (simp add: register_ok_def)
      moreover have "addr c'" if "vot v = Some c'" for c' using r that unfolding register_ok_def by blast
      ultimately show ?thesis using addr_append_inj [OF assms(3)] by blast
    qed
    then have "{(full_key t k, v) |k v. trie_map db t k = Some v \<and> (\<exists>r. k = c @ r)} = {(full_key t (c @ x), x) |x. vot x = Some c}"
      by auto
    moreover have "set L = {(full_key t k, v) |k v. trie_map db t k = Some v \<and> (\<exists>r. k = c @ r)}"
      using e by (simp add: enumerates_def)
    ultimately show ?thesis by simp
  qed
  then show "snd ` set L = {x. vot x = Some c}" by force
  show pairs: "\<forall>y \<in> set L. \<exists>x. y = (full_key t (c @ x), x)" using set by blast
  have "distinct L" using e by (rule enumerates_distinct)
  moreover have "inj_on snd (set L)" using pairs by (intro inj_onI) (metis snd_conv)
  ultimately show "distinct (map snd L)" by (simp add: distinct_map)
qed

lemma KickoutCandidate_ok:
  assumes ok: "ctx_ok kec db d" and kec: "kec_ok kec" and c: "addr c"
  shows "\<exists>d'. KickoutCandidate kec db c d = Some (Inr (), d') \<and> ctx_ok kec db d' \<and> candidates db d' = candidates db d - {c} \<and>
    votes db d' = (\<lambda>x. if votes db d x = Some c then None else votes db d x) \<and> same_rest d d'"
proof -
  have reg: "register_ok (trie_map db (candidateTrie d)) (trie_map db (voteTrie d)) (trie_map db (delegateTrie d))"
    and tr: "tries_ok kec db d" using ok by (simp_all add: ctx_ok_def)
  from tr have "ptrie kec db candidatePrefix (candidateTrie d)" by (simp add: tries_ok_def)
  from del_ptrie [OF this, of c] obtain t1 where 1: "TryDelete db (candidateTrie d) c = (Inr (), t1)"
    "ptrie kec db candidatePrefix t1" "trie_map db t1 = (trie_map db (candidateTrie d))(c := None)" by metis
  let ?d1 = "d\<lparr>candidateTrie := t1\<rparr>"
  have del: "ptrie kec db delegatePrefix (delegateTrie d)" using tr by (simp add: tries_ok_def)
  then have tok: "trie_ok kec db (delegateTrie d)" by (simp add: ptrie_def)
  from PrefixIterator_okE [OF tok kec full_key_Nil [OF del prefixes_Nil(2), of c]] obtain t2 x L where
    2: "PrefixIterator kec db (delegateTrie d) c = Some (Inr x, t2)" "trie_ok kec db t2" "trie_map db t2 = trie_map db (delegateTrie d)"
      "tr_prefix t2 = tr_prefix (delegateTrie d)" "yields db x L" "enumerates db (delegateTrie d) (\<lambda>k. \<exists>r. k = c @ r) L" .
  note L = delegators_of [OF reg tok c 2(6)]
  let ?d2 = "set_delegate ?d1 t2"
  have "tries_ok kec db ?d2" using tr 1(2) 2(2,4) del by (simp add: tries_ok_def set_delegate_def ptrie_def)
  moreover have "\<forall>y \<in> set L. trie_map db (voteTrie ?d2) (snd y) = Some c" using L(1) by (auto simp: set_delegate_def)
  moreover have "yields db (it_nodeIt (NewIterator x)) L" using 2(5) by (simp add: NewIterator_def)
  ultimately obtain d' where d': "kickout_loop kec db c (NewIterator x) ?d2 = Some (Inr (), d')" "tries_ok kec db d'"
    "candidateTrie d' = candidateTrie ?d2" "same_rest ?d2 d'"
    "trie_map db (voteTrie d') = (\<lambda>x. if x \<in> snd ` set L then None else trie_map db (voteTrie ?d2) x)"
    "trie_map db (delegateTrie d') = (\<lambda>k. if \<exists>x \<in> snd ` set L. k = c @ x then None else trie_map db (delegateTrie ?d2) k)"
    using kickout_loop_ok [OF _ _ _ L(2)] by blast
  have maps: "trie_map db (candidateTrie d') = (trie_map db (candidateTrie d))(c := None)"
    "trie_map db (voteTrie d') = (\<lambda>x. if trie_map db (voteTrie d) x = Some c then None else trie_map db (voteTrie d) x)"
    "trie_map db (delegateTrie d') = (\<lambda>k. if \<exists>x. trie_map db (voteTrie d) x = Some c \<and> k = c @ x then None else trie_map db (delegateTrie d) k)"
    using d'(3,5,6) 1(3) 2(3) L(1) by (auto simp: set_delegate_def fun_eq_iff)
  have "ctx_ok kec db d'" unfolding ctx_ok_def maps using d'(2) register_kickout [OF reg] by simp
  moreover have "KickoutCandidate kec db c d = Some (Inr (), d')"
    using 1(1) 2(1) d'(1) by (simp add: KickoutCandidate_def on_candidate_def)
  ultimately show ?thesis using d'(4) by (auto simp: candidates_def votes_def maps same_rest_def set_delegate_def)
qed

section \<open>The contract\<close>

definition accepted :: "(ctx_error + unit) \<times> DposContext \<Rightarrow> bool \<times> DposContext" where
  "accepted m = (case m of (Inr _, d) \<Rightarrow> (True, d) | (Inl _, d) \<Rightarrow> (False, d))"

definition kicked_out :: "(bytes \<Rightarrow> bytes) \<Rightarrow> database \<Rightarrow> bytes \<Rightarrow> DposContext \<Rightarrow> bool \<times> DposContext" where
  "kicked_out kec db c d = (case KickoutCandidate kec db c d of None \<Rightarrow> (False, d) | Some m \<Rightarrow> accepted m)"

interpretation ballot: delegation "candidates db" "votes db" "\<lambda>c d. accepted (BecomeCandidate db c d)"
  "\<lambda>x c d. accepted (Delegate db x c d)" "\<lambda>x c d. accepted (UnDelegate db x c d)" "kicked_out kec db"
  "\<lambda>d. ctx_ok kec db d \<and> kec_ok kec" addr for kec db
proof
  fix d :: DposContext and x c :: bytes
  assume inv: "ctx_ok kec db d \<and> kec_ok kec"
  { assume "addr c"
    from BecomeCandidate_ok [OF _ this] inv show "\<exists>d'. accepted (BecomeCandidate db c d) = (True, d') \<and> (ctx_ok kec db d' \<and> kec_ok kec) \<and>
      candidates db d' = insert c (candidates db d) \<and> votes db d' = votes db d" by (fastforce simp: accepted_def) }
  { assume "addr x" "addr c"
    then show "\<exists>d'. accepted (Delegate db x c d) = (c \<in> candidates db d, d') \<and> (ctx_ok kec db d' \<and> kec_ok kec) \<and>
      candidates db d' = candidates db d \<and> votes db d' = (if c \<in> candidates db d then (votes db d)(x \<mapsto> c) else votes db d)"
      using inv Delegate_ok [of kec db d x c] Delegate_refused [of kec db d c x]
      by (cases "c \<in> candidates db d") (fastforce simp: accepted_def)+ }
  { assume "addr x" "addr c"
    then show "\<exists>d'. accepted (UnDelegate db x c d) = (c \<in> candidates db d \<and> votes db d x = Some c, d') \<and> (ctx_ok kec db d' \<and> kec_ok kec) \<and>
      candidates db d' = candidates db d \<and>
      votes db d' = (if c \<in> candidates db d \<and> votes db d x = Some c then (votes db d)(x := None) else votes db d)"
      using inv UnDelegate_ok [of kec db d c x]
      by (cases "c \<in> candidates db d"; cases "votes db d x = Some c") (auto simp: accepted_def) }
  { assume "addr c"
    then show "\<exists>d'. kicked_out kec db c d = (True, d') \<and> (ctx_ok kec db d' \<and> kec_ok kec) \<and> candidates db d' = candidates db d - {c} \<and>
      votes db d' = (\<lambda>x. if votes db d x = Some c then None else votes db d x)"
      using inv KickoutCandidate_ok [of kec db d c] by (fastforce simp: accepted_def kicked_out_def) }
  show "votes db d x = Some c \<Longrightarrow> c \<in> candidates db d"
    using inv by (auto simp: ctx_defs register_ok_def)
qed

end
