(* ===== verification/Epoch_Election.thy ===== *)
theory Epoch_Election
  imports Epoch_Context Dpos_Refine
begin

text \<open>
  Elections are correct: the tally of a candidate is the sum of the balances of its delegators, kicking
  out never leaves fewer than the safe number of candidates, and the elected validators are the
  first candidates by votes, each once, in an order that does not depend on Go's maps.
\<close>

section \<open>Contexts with the same content\<close>

definition same_content :: "database \<Rightarrow> DposContext \<Rightarrow> DposContext \<Rightarrow> bool" where
  "same_content db d d' \<longleftrightarrow> trie_map db (epochTrie d') = trie_map db (epochTrie d) \<and>
     trie_map db (delegateTrie d') = trie_map db (delegateTrie d) \<and> trie_map db (voteTrie d') = trie_map db (voteTrie d) \<and>
     trie_map db (candidateTrie d') = trie_map db (candidateTrie d) \<and>
     trie_map db (mintCntTrie d') = trie_map db (mintCntTrie d) \<and> dc_db d' = dc_db d"

lemma same_content_refl [simp]: "same_content db d d"
  by (simp add: same_content_def)

lemma same_content_trans: "same_content db d d' \<Longrightarrow> same_content db d' d'' \<Longrightarrow> same_content db d d''"
  by (simp add: same_content_def)

lemma same_content_ok: "ctx_ok kec db d \<Longrightarrow> tries_ok kec db d' \<Longrightarrow> same_content db d d' \<Longrightarrow> ctx_ok kec db d'"
  by (simp add: ctx_ok_def same_content_def)

lemma same_content_views: "same_content db d d' \<Longrightarrow> candidates db d' = candidates db d \<and> votes db d' = votes db d"
  by (simp add: same_content_def candidates_def votes_def)

lemma set_candidate_same [simp]: "set_candidate d (candidateTrie d) = d"
  by (cases d) (simp add: set_candidate_def)

lemma set_mintCnt_same [simp]: "set_mintCnt d (mintCntTrie d) = d"
  by (cases d) (simp add: set_mintCnt_def)

lemma replace_delegate:
  assumes "tries_ok kec db d" and "trie_ok kec db t" and "trie_map db t = trie_map db (delegateTrie d)"
    and "tr_prefix t = tr_prefix (delegateTrie d)"
  shows "tries_ok kec db (set_delegate d t)" and "same_content db d (set_delegate d t)"
  using assms by (simp_all add: tries_ok_def set_delegate_def ptrie_def same_content_def)

lemma replace_candidate:
  assumes "tries_ok kec db d" and "trie_ok kec db t" and "trie_map db t = trie_map db (candidateTrie d)"
    and "tr_prefix t = tr_prefix (candidateTrie d)"
  shows "tries_ok kec db (set_candidate d t)" and "same_content db d (set_candidate d t)"
  using assms by (simp_all add: tries_ok_def set_candidate_def ptrie_def same_content_def)

lemma replace_mintCnt:
  assumes "tries_ok kec db d" and "trie_ok kec db t" and "trie_map db t = trie_map db (mintCntTrie d)"
    and "tr_prefix t = tr_prefix (mintCntTrie d)"
  shows "tries_ok kec db (set_mintCnt d t)" and "same_content db d (set_mintCnt d t)"
  using assms by (simp_all add: tries_ok_def set_mintCnt_def ptrie_def same_content_def)

section \<open>Counting votes\<close>

definition tally :: "database \<Rightarrow> (bytes \<Rightarrow> int) \<Rightarrow> DposContext \<Rightarrow> bytes \<Rightarrow> int" where
  "tally db bal d c = (\<Sum>x | votes db d x = Some c. bal x)"

definition add_votes :: "(bytes \<Rightarrow> int) \<Rightarrow> bytes \<Rightarrow> bytes list \<Rightarrow> (bytes \<times> int) list \<Rightarrow> (bytes \<times> int) list" where
  "add_votes bal c xs vs = fold (\<lambda>x. add_vote c (bal (BytesToAddress x))) xs vs"

lemma delegator_loop_ok:
  assumes "yields db (it_nodeIt it) L" and "it_Value it = Some x"
  shows "delegator_loop kec db bal c it vs d = Some (Inr (add_votes bal c (x # map snd L) vs), d)"
  using assms
proof (induction L arbitrary: it x vs)
  case Nil
  from Iterator_Next_yields [OF Nil(1), of kec "delegateTrie d"] obtain it' where
    "Iterator_Next kec db (delegateTrie d) it = Some (Inr False, delegateTrie d, it')" by auto
  then show ?case using Nil(2) by (simp add: delegator_loop.simps [of kec db bal c it vs d] value_of_def add_votes_def)
next
  case (Cons y L)
  from Iterator_Next_yields [OF Cons.prems(1), of kec "delegateTrie d"] obtain it' where
    "Iterator_Next kec db (delegateTrie d) it = Some (Inr True, delegateTrie d, it')" "yields db (it_nodeIt it') L"
    "it_Value it' = Some (snd y)" by auto
  with Cons.IH [of it' "snd y"] Cons.prems(2) show ?case
    by (simp add: delegator_loop.simps [of kec db bal c it vs d] value_of_def add_votes_def)
qed

lemma add_votes_map:
  "xs \<noteq> [] \<Longrightarrow> map_of (add_votes bal c xs vs) =
     (map_of vs)(c \<mapsto> (case map_of vs c of None \<Rightarrow> 0 | Some s \<Rightarrow> s) + sum_list (map (\<lambda>x. bal (BytesToAddress x)) xs))"
proof (induction xs arbitrary: vs)
  case (Cons x xs)
  show ?case
  proof (cases "xs = []")
    case False
    then show ?thesis using Cons.IH [of "add_vote c (bal (BytesToAddress x)) vs"]
      by (simp add: add_votes_def add_vote_def AList.update_conv' add.assoc fun_eq_iff)
  qed (simp add: add_votes_def add_vote_def AList.update_conv')
qed simp

lemma add_votes_distinct: "distinct (map fst vs) \<Longrightarrow> distinct (map fst (add_votes bal c xs vs))"
  by (induction xs arbitrary: vs) (simp_all add: add_votes_def add_vote_def AList.distinct_update)

lemma addr_BytesToAddress: "addr a \<Longrightarrow> BytesToAddress a = a"
  by (simp add: addr_def AddressLength_def)

lemma count_candidate_ok:
  assumes ok: "ctx_ok kec db d" and kec: "kec_ok kec" and c: "addr c" and new: "map_of vs c = None" "distinct (map fst vs)"
  shows "\<exists>vs' d'. count_candidate kec db bal c vs d = Some (Inr vs', d') \<and> ctx_ok kec db d' \<and> same_content db d d' \<and>
    candidateTrie d' = candidateTrie d \<and> map_of vs' = (map_of vs)(c \<mapsto> tally db bal d c) \<and> distinct (map fst vs')"
proof -
  have reg: "register_ok (trie_map db (candidateTrie d)) (trie_map db (voteTrie d)) (trie_map db (delegateTrie d))"
    and tr: "tries_ok kec db d" using ok by (simp_all add: ctx_ok_def)
  have del: "ptrie kec db delegatePrefix (delegateTrie d)" using tr by (simp add: tries_ok_def)
  then have tok: "trie_ok kec db (delegateTrie d)" by (simp add: ptrie_def)
  from PrefixIterator_okE [OF tok kec full_key_Nil [OF del prefixes_Nil(2), of c]] obtain t x L where
    t: "PrefixIterator kec db (delegateTrie d) c = Some (Inr x, t)" "trie_ok kec db t" "trie_map db t = trie_map db (delegateTrie d)"
      "tr_prefix t = tr_prefix (delegateTrie d)" "yields db x L" "enumerates db (delegateTrie d) (\<lambda>k. \<exists>r. k = c @ r) L" .
  note L = delegators_of [OF reg tok c t(6)]
  have y: "yields db (it_nodeIt (NewIterator x)) L" using t(5) by (simp add: NewIterator_def)
  let ?d = "set_delegate d t"
  have d': "tries_ok kec db ?d" "same_content db d ?d" using replace_delegate [OF tr t(2-4)] by simp_all
  have ok': "ctx_ok kec db ?d" using same_content_ok [OF ok d'] .
  have ct: "candidateTrie ?d = candidateTrie d" by (simp add: set_delegate_def)
  have sup: "{x. votes db d x = Some c} = snd ` set L" using L(1) by (simp add: votes_def)
  have "addr x" if "votes db d x = Some c" for x using reg that unfolding register_ok_def votes_def by blast
  then have "map (\<lambda>x. bal (BytesToAddress x)) (map snd L) = map bal (map snd L)"
    using sup addr_BytesToAddress by (intro map_cong refl) (metis (mono_tags) list.set_map mem_Collect_eq)
  then have sum: "sum_list (map (\<lambda>x. bal (BytesToAddress x)) (map snd L)) = tally db bal d c"
    using L(2) by (simp only: tally_def sup sum_list_distinct_conv_sum_set list.set_map)
  show ?thesis
  proof (cases L)
    case Nil
    from Iterator_Next_yields [OF y, of kec t] Nil obtain it where
      "Iterator_Next kec db t (NewIterator x) = Some (Inr False, t, it)" by auto
    then have "count_candidate kec db bal c vs d = Some (Inr (AList.update c 0 vs), ?d)"
      using t(1) addr_BytesToAddress [OF c] by (simp add: count_candidate_def)
    moreover have "tally db bal d c = 0" using sum Nil by simp
    ultimately show ?thesis using ok' d'(2) ct new(2) by (simp add: AList.update_conv' AList.distinct_update)
  next
    case (Cons y L')
    from Iterator_Next_yields [OF y, of kec t] Cons obtain it where
      it: "Iterator_Next kec db t (NewIterator x) = Some (Inr True, t, it)" "yields db (it_nodeIt it) L'" "it_Value it = Some (snd y)"
      by auto
    from delegator_loop_ok [OF it(2,3)] have
      "count_candidate kec db bal c vs d = Some (Inr (add_votes bal c (map snd L) vs), ?d)"
      using t(1) it(1) addr_BytesToAddress [OF c] Cons by (simp add: count_candidate_def)
    moreover have "map_of (add_votes bal c (map snd L) vs) = (map_of vs)(c \<mapsto> tally db bal d c)"
      using add_votes_map [of "map snd L" bal c vs] sum new(1) Cons by simp
    ultimately show ?thesis using ok' d'(2) ct add_votes_distinct [OF new(2)] by blast
  qed
qed

text \<open>The iterator over the candidate trie yields the candidates, each once.\<close>

lemma candidates_of:
  assumes ok: "ctx_ok kec db d" and e: "enumerates db (candidateTrie d) (\<lambda>k. \<not> bytes_less (hexof (candidateTrie d) k)
    (keybytesToNibbles (full_key (candidateTrie d) []))) L"
  shows "snd ` set L = candidates db d" and "distinct (map snd L)"
proof -
  let ?t = "candidateTrie d"
  have id: "trie_map db ?t k = Some v \<Longrightarrow> v = k" for k v using ok by (auto simp: ctx_ok_def register_ok_def)
  have "\<not> bytes_less (hexof ?t k) (keybytesToNibbles (full_key ?t []))" for k
    by (rule bytes_less_HasPrefix) (auto simp: HasPrefix_def keybytesToHex_def full_key_def split: option.splits)
  then have set: "set L = {(full_key ?t k, v) |k v. trie_map db ?t k = Some v}" using e by (simp add: enumerates_def)
  then show "snd ` set L = candidates db d" using id by (force simp: candidates_def)
  have "inj_on snd (set L)" unfolding set by (intro inj_onI) (auto dest!: id)
  then show "distinct (map snd L)" using enumerates_distinct [OF e] by (simp add: distinct_map)
qed

lemma iterate_candidates:
  assumes ok: "ctx_ok kec db d" and kec: "kec_ok kec"
  obtains t x L where "NodeIterator kec db (candidateTrie d) [] = Some (Inr x, t)" "ctx_ok kec db (set_candidate d t)"
    "same_content db d (set_candidate d t)" "yields db (it_nodeIt (NewIterator x)) L" "snd ` set L = candidates db d" "distinct (map snd L)"
proof -
  have tr: "tries_ok kec db d" using ok by (simp add: ctx_ok_def)
  have p: "ptrie kec db candidatePrefix (candidateTrie d)" using tr by (simp add: tries_ok_def)
  then have tok: "trie_ok kec db (candidateTrie d)" by (simp add: ptrie_def)
  from NodeIterator_okE [OF tok kec full_key_Nil [OF p prefixes_Nil(4), of "[]"]] obtain t x L where
    t: "NodeIterator kec db (candidateTrie d) [] = Some (Inr x, t)" "trie_ok kec db t" "trie_map db t = trie_map db (candidateTrie d)"
      "tr_prefix t = tr_prefix (candidateTrie d)" "yields db x L"
      "enumerates db (candidateTrie d) (\<lambda>k. \<not> bytes_less (hexof (candidateTrie d) k) (keybytesToNibbles (full_key (candidateTrie d) []))) L" .
  have d': "tries_ok kec db (set_candidate d t)" "same_content db d (set_candidate d t)" using replace_candidate [OF tr t(2-4)] by simp_all
  show thesis using that [of x t L] t(1,5) d' same_content_ok [OF ok d'] candidates_of [OF ok t(6)] by (simp add: NewIterator_def)
qed

lemma finite_candidates: "ctx_ok kec db d \<Longrightarrow> kec_ok kec \<Longrightarrow> finite (candidates db d)"
  by (rule iterate_candidates [of kec db d]) (auto dest: sym)

lemma candidate_addr: "ctx_ok kec db d \<Longrightarrow> c \<in> candidates db d \<Longrightarrow> addr c"
  by (auto simp: ctx_ok_def register_ok_def candidates_def)

lemma tally_same: "same_content db d d' \<Longrightarrow> tally db bal d' = tally db bal d"
  by (simp add: tally_def same_content_def votes_def fun_eq_iff)

lemma candidate_loop_ok:
  assumes "ctx_ok kec db d" and kec: "kec_ok kec" and "yields db (it_nodeIt it) L" and "it_Value it = Some c"
    and "set (c # map snd L) \<subseteq> candidates db d" and "distinct (c # map snd L)"
    and "distinct (map fst vs)" and "fst ` set vs \<inter> set (c # map snd L) = {}"
  shows "\<exists>vs' d'. candidate_loop kec db bal it vs d = Some (Inr vs', d') \<and> ctx_ok kec db d' \<and> same_content db d d' \<and>
    map_of vs' = (\<lambda>a. if a \<in> set (c # map snd L) then Some (tally db bal d a) else map_of vs a) \<and> distinct (map fst vs')"
  using assms(1,3-)
proof (induction L arbitrary: it c vs d)
  case Nil
  have "addr c" using candidate_addr [OF Nil(1)] Nil(4) by simp
  moreover have "map_of vs c = None" using Nil(7) by (simp add: map_of_eq_None_iff)
  ultimately obtain vs1 d1 where d1: "count_candidate kec db bal c vs d = Some (Inr vs1, d1)" "ctx_ok kec db d1" "same_content db d d1"
    "map_of vs1 = (map_of vs)(c \<mapsto> tally db bal d c)" "distinct (map fst vs1)"
    using count_candidate_ok [OF Nil(1) kec _ _ Nil(6)] by blast
  from Iterator_Next_yields [OF Nil(2), of kec "candidateTrie d1"] obtain it' where
    "Iterator_Next kec db (candidateTrie d1) it = Some (Inr False, candidateTrie d1, it')" by auto
  then show ?case using d1 Nil(3) by (simp add: candidate_loop.simps [of kec db bal it vs d] value_of_def fun_eq_iff)
next
  case (Cons y L)
  have "addr c" using candidate_addr [OF Cons.prems(1)] Cons.prems(4) by simp
  moreover have "map_of vs c = None" using Cons.prems(7) by (simp add: map_of_eq_None_iff)
  ultimately obtain vs1 d1 where d1: "count_candidate kec db bal c vs d = Some (Inr vs1, d1)" "ctx_ok kec db d1" "same_content db d d1"
    "map_of vs1 = (map_of vs)(c \<mapsto> tally db bal d c)" "distinct (map fst vs1)"
    using count_candidate_ok [OF Cons.prems(1) kec _ _ Cons.prems(6)] by blast
  from Iterator_Next_yields [OF Cons.prems(2), of kec "candidateTrie d1"] obtain it' where
    it': "Iterator_Next kec db (candidateTrie d1) it = Some (Inr True, candidateTrie d1, it')" "yields db (it_nodeIt it') L"
      "it_Value it' = Some (snd y)" by auto
  have keys: "fst ` set vs1 = insert c (fst ` set vs)" using d1(4) by (metis dom_fun_upd dom_map_of_conv_image_fst option.discI)
  have "fst ` set vs1 \<inter> set (snd y # map snd L) = {}" using keys Cons.prems(5,7) by auto
  moreover have "set (snd y # map snd L) \<subseteq> candidates db d1" using Cons.prems(4) same_content_views [OF d1(3)] by auto
  ultimately obtain vs2 d2 where d2: "candidate_loop kec db bal it' vs1 d1 = Some (Inr vs2, d2)" "ctx_ok kec db d2" "same_content db d1 d2"
    "map_of vs2 = (\<lambda>a. if a \<in> set (snd y # map snd L) then Some (tally db bal d1 a) else map_of vs1 a)" "distinct (map fst vs2)"
    using Cons.IH [OF d1(2) it'(2,3) _ _ d1(5)] Cons.prems(5) by auto
  have "candidate_loop kec db bal it vs d = Some (Inr vs2, d2)"
    using d1(1) it'(1) d2(1) Cons.prems(3) by (simp add: candidate_loop.simps [of kec db bal it vs d] value_of_def)
  moreover have "map_of vs2 = (\<lambda>a. if a \<in> set (c # map snd (y # L)) then Some (tally db bal d a) else map_of vs a)"
    using d2(4) d1(4) tally_same [OF d1(3)] by (auto simp: fun_eq_iff)
  ultimately show ?case using d2 same_content_trans [OF d1(3) d2(3)] by blast
qed

lemma countVotes_ok:
  assumes ok: "ctx_ok (ev_kec ev) (ev_db ev) d" and kec: "kec_ok (ev_kec ev)"
  shows "\<exists>r d'. countVotes ev bal d = Some (r, d') \<and> ctx_ok (ev_kec ev) (ev_db ev) d' \<and> same_content (ev_db ev) d d' \<and>
    (if candidates (ev_db ev) d = {} then r = Inl NoCandidates
     else \<exists>vs. r = Inr vs \<and> distinct (map fst vs) \<and>
       set vs = {(c, tally (ev_db ev) bal d c) |c. c \<in> candidates (ev_db ev) d})"
proof -
  let ?db = "ev_db ev" and ?kec = "ev_kec ev"
  from iterate_candidates [OF ok kec] obtain t x L where t: "NodeIterator ?kec ?db (candidateTrie d) [] = Some (Inr x, t)"
    "ctx_ok ?kec ?db (set_candidate d t)" "same_content ?db d (set_candidate d t)" "yields ?db (it_nodeIt (NewIterator x)) L"
    "snd ` set L = candidates ?db d" "distinct (map snd L)" .
  let ?d = "set_candidate d t"
  show ?thesis
  proof (cases L)
    case Nil
    from Iterator_Next_yields [OF t(4), of ?kec t] Nil obtain it where
      "Iterator_Next ?kec ?db t (NewIterator x) = Some (Inr False, t, it)" by auto
    then show ?thesis using t(1-3,5) Nil by (simp add: countVotes_def)
  next
    case (Cons y L')
    from Iterator_Next_yields [OF t(4), of ?kec t] Cons obtain it where
      it: "Iterator_Next ?kec ?db t (NewIterator x) = Some (Inr True, t, it)" "yields ?db (it_nodeIt it) L'" "it_Value it = Some (snd y)"
      by auto
    have "set (snd y # map snd L') \<subseteq> candidates ?db ?d" using t(5) Cons same_content_views [OF t(3)] by auto
    from candidate_loop_ok [OF t(2) kec it(2,3) this, of "[]" bal] t(6) Cons obtain vs d' where
      d': "candidate_loop ?kec ?db bal it [] ?d = Some (Inr vs, d')" "ctx_ok ?kec ?db d'" "same_content ?db ?d d'"
      "map_of vs = (\<lambda>a. if a \<in> set (snd y # map snd L') then Some (tally ?db bal ?d a) else map_of [] a)" "distinct (map fst vs)" by auto
    have "map_of vs = (\<lambda>a. if a \<in> candidates ?db d then Some (tally ?db bal d a) else None)"
      using d'(4) t(5) Cons tally_same [OF t(3)] by (auto simp: fun_eq_iff)
    then have "(c, w) \<in> set vs \<longleftrightarrow> c \<in> candidates ?db d \<and> w = tally ?db bal d c" for c w
      using map_of_eq_Some_iff [OF d'(5), of c w] by (auto split: if_splits)
    then have "set vs = {(c, tally ?db bal d c) |c. c \<in> candidates ?db d}" by auto
    moreover have "candidates ?db d \<noteq> {}" using t(5) Cons by auto
    ultimately show ?thesis using t(1) it(1) d' same_content_trans [OF t(3) d'(3)] by (simp add: countVotes_def)
  qed
qed

section \<open>Validators and mint counts\<close>

definition validators_of :: "database \<Rightarrow> DposContext \<Rightarrow> ctx_error + bytes list" where
  "validators_of db d =
     (case decode_arrays AddressLength (case trie_map db (epochTrie d) validator_key of None \<Rightarrow> [] | Some b \<Rightarrow> b) of
        Inl e \<Rightarrow> Inl (FailedToDecodeValidators e) | Inr vs \<Rightarrow> Inr vs)"

lemma Get_ptrie:
  assumes "ptrie kec db p t"
  obtains t' where "Get db t k = (Inr (trie_map db t k), t')" "ptrie kec db p t'" "trie_map db t' = trie_map db t"
  by (rule get_ptrie [OF assms, of k]) (auto simp: Get_def intro: that)

lemma GetValidators_ok:
  assumes "tries_ok kec db d"
  obtains d' where "GetValidators db d = (validators_of db d, d')" "tries_ok kec db d'" "same_content db d d'" "dc_db d' = dc_db d"
proof -
  from assms have p: "ptrie kec db epochPrefix (epochTrie d)" by (simp add: tries_ok_def)
  from Get_ptrie [OF p, of validator_key] obtain t where t: "Get db (epochTrie d) validator_key = (Inr (trie_map db (epochTrie d) validator_key), t)"
    "ptrie kec db epochPrefix t" "trie_map db t = trie_map db (epochTrie d)" .
  show thesis using that [of "d\<lparr>epochTrie := t\<rparr>"] assms t
    by (auto simp: GetValidators_def validators_of_def on_epoch_def tries_ok_def same_content_def split: sum.splits)
qed

lemma validators_addr: "validators_of db d = Inr vs \<Longrightarrow> v \<in> set vs \<Longrightarrow> addr v"
  using decode_addresses_aux [of "case trie_map db (epochTrie d) validator_key of None \<Rightarrow> [] | Some b \<Rightarrow> b" vs]
  by (auto simp: validators_of_def AddressLength_def addr_def filter_empty_conv split: sum.splits)

text \<open>Mint counts are stored in eight bytes.\<close>

definition mint_ok :: "database \<Rightarrow> DposContext \<Rightarrow> bool" where
  "mint_ok db d \<longleftrightarrow> (\<forall>k v. trie_map db (mintCntTrie d) k = Some v \<longrightarrow> length v = 8)"

definition minted :: "database \<Rightarrow> DposContext \<Rightarrow> int \<Rightarrow> bytes \<Rightarrow> int" where
  "minted db d epoch v =
     (case trie_map db (mintCntTrie d) (BigEndian_PutUint64 (uint64 epoch) @ v) of
        None \<Rightarrow> 0 | Some b \<Rightarrow> int64 (word_of_nat (be_nat b)))"

lemma mint_count_ok:
  assumes "tries_ok kec db d" and "mint_ok db d"
  obtains d' where "mint_count db epoch v d = (Inr (minted db d epoch v), d')" "tries_ok kec db d'" "same_content db d d'"
proof -
  let ?k = "BigEndian_PutUint64 (uint64 epoch) @ v"
  from assms have p: "ptrie kec db mintCntPrefix (mintCntTrie d)" by (simp add: tries_ok_def)
  from Get_ptrie [OF p, of ?k] obtain t where t: "Get db (mintCntTrie d) ?k = (Inr (trie_map db (mintCntTrie d) ?k), t)"
    "ptrie kec db mintCntPrefix t" "trie_map db t = trie_map db (mintCntTrie d)" .
  have "tries_ok kec db (d\<lparr>mintCntTrie := t\<rparr>)" "same_content db d (d\<lparr>mintCntTrie := t\<rparr>)"
    using assms(1) t(2,3) by (simp_all add: tries_ok_def same_content_def)
  moreover have "length b = 8" if "trie_map db (mintCntTrie d) ?k = Some b" for b using assms(2) that by (auto simp: mint_ok_def)
  then have "mint_count db epoch v d = (Inr (minted db d epoch v), d\<lparr>mintCntTrie := t\<rparr>)"
    using t(1) by (auto simp: mint_count_def minted_def on_mintCnt_def BigEndian_Uint64_def split: option.splits)
  ultimately show thesis using that by blast
qed

lemma minted_same: "same_content db d d' \<Longrightarrow> minted db d' = minted db d"
  by (simp add: minted_def same_content_def fun_eq_iff)

lemma mint_ok_same: "same_content db d d' \<Longrightarrow> mint_ok db d' = mint_ok db d"
  by (simp add: mint_ok_def same_content_def)

definition inactive :: "database \<Rightarrow> DposContext \<Rightarrow> int \<Rightarrow> int \<Rightarrow> bytes list \<Rightarrow> (bytes \<times> int) list" where
  "inactive db d epoch threshold vs = filter (\<lambda>x. snd x < threshold) (map (\<lambda>v. (v, minted db d epoch v)) vs)"

lemma inactive_validators_ok:
  assumes "tries_ok kec db d" and "mint_ok db d"
  shows "\<exists>d'. inactive_validators db epoch threshold vs d = (Inr (inactive db d epoch threshold vs), d') \<and> tries_ok kec db d' \<and> same_content db d d'"
  using assms
proof (induction vs arbitrary: d)
  case (Cons v vs)
  from mint_count_ok [OF Cons.prems, of epoch v] obtain d1 where d1: "mint_count db epoch v d = (Inr (minted db d epoch v), d1)"
    "tries_ok kec db d1" "same_content db d d1" .
  have "mint_ok db d1" using mint_ok_same [OF d1(3)] Cons.prems(2) by simp
  from Cons.IH [OF d1(2) this] obtain d2 where d2: "inactive_validators db epoch threshold vs d1 = (Inr (inactive db d1 epoch threshold vs), d2)"
    "tries_ok kec db d2" "same_content db d1 d2" by blast
  then show ?case using d1 same_content_trans [OF d1(3) d2(3)] minted_same [OF d1(3)] by (simp add: inactive_def)
qed (simp add: inactive_def)

section \<open>Kicking out\<close>

lemma count_candidates_ok:
  assumes "yields db (it_nodeIt it) L" and "n < limit"
  shows "count_candidates kec db limit n it d = Some (Inr (min limit (n + length L)), d)"
  using assms
proof (induction L arbitrary: it n)
  case Nil
  from Iterator_Next_yields [OF Nil(1), of kec "candidateTrie d"] obtain it' where
    "Iterator_Next kec db (candidateTrie d) it = Some (Inr False, candidateTrie d, it')" by auto
  then show ?case using Nil(2) by (simp add: count_candidates.simps [of kec db limit n it d])
next
  case (Cons y L)
  from Iterator_Next_yields [OF Cons.prems(1), of kec "candidateTrie d"] obtain it' where
    "Iterator_Next kec db (candidateTrie d) it = Some (Inr True, candidateTrie d, it')" "yields db (it_nodeIt it') L" by auto
  then show ?case using Cons.prems(2) Cons.IH [of it' "Suc n"] by (simp add: count_candidates.simps [of kec db limit n it d])
qed

text \<open>What kicking out a list of candidates leaves.\<close>

definition kicked :: "database \<Rightarrow> DposContext \<Rightarrow> bytes set \<Rightarrow> DposContext \<Rightarrow> bool" where
  "kicked db d A d' \<longleftrightarrow> candidates db d' = candidates db d - A \<and>
     votes db d' = (\<lambda>x. if votes db d x \<in> Some ` A then None else votes db d x) \<and>
     trie_map db (epochTrie d') = trie_map db (epochTrie d) \<and> trie_map db (mintCntTrie d') = trie_map db (mintCntTrie d) \<and> dc_db d' = dc_db d"

lemma kicked_refl [simp]: "kicked db d {} d"
  by (simp add: kicked_def)

lemma kicked_same:
  assumes "same_content db d d'" and "kicked db d' A d''"
  shows "kicked db d A d''"
proof -
  have "candidates db d' = candidates db d" "votes db d' = votes db d" using same_content_views [OF assms(1)] by simp_all
  then show ?thesis using assms unfolding kicked_def same_content_def by metis
qed

lemma kickout_each_ok:
  assumes "ctx_ok kec db d" and kec: "kec_ok kec" and "\<forall>v \<in> set vs. addr (fst v)"
  shows "\<exists>d'. kickout_each kec db n vs d = Some (Inr (), d') \<and> ctx_ok kec db d' \<and>
    kicked db d (fst ` set (take (nat (n - int safeSize)) vs)) d'"
  using assms(1,3)
proof (induction vs arbitrary: d n)
  case (Cons v vs)
  show ?case
  proof (cases "n \<le> int safeSize")
    case False
    from KickoutCandidate_ok [OF Cons.prems(1) kec, of "fst v"] Cons.prems(2) obtain d1 where
      d1: "KickoutCandidate kec db (fst v) d = Some (Inr (), d1)" "ctx_ok kec db d1" "candidates db d1 = candidates db d - {fst v}"
        "votes db d1 = (\<lambda>x. if votes db d x = Some (fst v) then None else votes db d x)" "same_rest d d1" by auto
    from Cons.IH [OF d1(2)] Cons.prems(2) obtain d2 where d2: "kickout_each kec db (n - 1) vs d1 = Some (Inr (), d2)" "ctx_ok kec db d2"
      "kicked db d1 (fst ` set (take (nat (n - 1 - int safeSize)) vs)) d2" by fastforce
    have "nat (n - int safeSize) = Suc (nat (n - 1 - int safeSize))" using False by simp
    moreover have "kicked db d (insert (fst v) (fst ` set (take (nat (n - 1 - int safeSize)) vs))) d2"
      using d1(3-5) d2(3) by (auto simp: kicked_def same_rest_def fun_eq_iff)
    ultimately show ?thesis using d1(1) d2(1,2) False by simp
  qed (use Cons.prems in simp)
qed simp

definition kicked_validators :: "election_env \<Rightarrow> int \<Rightarrow> int \<Rightarrow> int \<Rightarrow> DposContext \<Rightarrow> bytes list \<Rightarrow> bytes list" where
  "kicked_validators ev timeOfFirstBlock timeStamp epoch d vs =
     (let inact = inactive (ev_db ev) d epoch (kickout_threshold (epoch_duration timeStamp timeOfFirstBlock)) vs
      in map fst (take (card (candidates (ev_db ev) d) - safeSize) (sort_by (\<lambda>p q. sortable_Less (ev_kec ev) q p) inact)))"

lemma take_kicked: "take (nat (int (min (length xs + s) m) - int s)) xs = take (m - s) xs"
proof -
  have "nat (int (min (length xs + s) m) - int s) = min (length xs + s) m - s" by linarith
  then show ?thesis by (cases "m \<le> length xs + s") (simp_all add: min_def)
qed

lemma kickoutValidator_ok:
  assumes ok: "ctx_ok (ev_kec ev) (ev_db ev) d" and kec: "kec_ok (ev_kec ev)" and mint: "mint_ok (ev_db ev) d"
    and vs: "validators_of (ev_db ev) d = Inr vs" "vs \<noteq> []"
  shows "\<exists>d'. kickoutValidator ev tofb ts epoch d = Some (Inr (), d') \<and> ctx_ok (ev_kec ev) (ev_db ev) d' \<and>
    kicked (ev_db ev) d (set (kicked_validators ev tofb ts epoch d vs)) d'"
proof -
  let ?db = "ev_db ev" and ?kec = "ev_kec ev" and ?lt = "\<lambda>p q. sortable_Less (ev_kec ev) q p"
  let ?thr = "kickout_threshold (epoch_duration ts tofb)"
  from ok have tr: "tries_ok ?kec ?db d" by (simp add: ctx_ok_def)
  from GetValidators_ok [OF tr] obtain d1 where d1: "GetValidators ?db d = (validators_of ?db d, d1)" "tries_ok ?kec ?db d1" "same_content ?db d d1" .
  have "mint_ok ?db d1" using mint mint_ok_same [OF d1(3)] by simp
  from inactive_validators_ok [OF d1(2) this] obtain d2 where d2: "inactive_validators ?db epoch ?thr vs d1 = (Inr (inactive ?db d1 epoch ?thr vs), d2)"
    "tries_ok ?kec ?db d2" "same_content ?db d1 d2" by blast
  let ?in = "inactive ?db d epoch ?thr vs"
  have ineq: "inactive ?db d1 epoch ?thr vs = ?in" using minted_same [OF d1(3)] by (simp add: inactive_def)
  have sc: "same_content ?db d d2" using same_content_trans [OF d1(3) d2(3)] .
  have ok2: "ctx_ok ?kec ?db d2" using same_content_ok [OF ok d2(2) sc] .
  show ?thesis
  proof (cases "?in = []")
    case True
    then have "kicked ?db d {} d2" using kicked_same [OF sc, of "{}" d2] by simp
    then show ?thesis using True ok2 d1(1) d2(1) vs ineq by (simp add: kickoutValidator_def kicked_validators_def)
  next
    case False
    from iterate_candidates [OF ok2 kec] obtain t x L where t: "NodeIterator ?kec ?db (candidateTrie d2) [] = Some (Inr x, t)"
      "ctx_ok ?kec ?db (set_candidate d2 t)" "same_content ?db d2 (set_candidate d2 t)" "yields ?db (it_nodeIt (NewIterator x)) L"
      "snd ` set L = candidates ?db d2" "distinct (map snd L)" .
    have card: "length L = card (candidates ?db d)"
      using t(5,6) same_content_views [OF sc] distinct_card [OF t(6)] by simp
    let ?n = "min (length ?in + safeSize) (length L)"
    have cnt: "count_candidates ?kec ?db (length ?in + safeSize) 0 (NewIterator x) (set_candidate d2 t) = Some (Inr ?n, set_candidate d2 t)"
      using count_candidates_ok [OF t(4), of 0] False by simp
    have "addr (fst v)" if "v \<in> set (sort_by ?lt ?in)" for v
      using that validators_addr [OF vs(1)] by (auto simp: inactive_def)
    with kickout_each_ok [OF t(2) kec, of "sort_by ?lt ?in" "int ?n"] obtain d' where
      d': "kickout_each ?kec ?db (int ?n) (sort_by ?lt ?in) (set_candidate d2 t) = Some (Inr (), d')" "ctx_ok ?kec ?db d'"
        "kicked ?db (set_candidate d2 t) (fst ` set (take (nat (int ?n - int safeSize)) (sort_by ?lt ?in))) d'" by auto
    have "take (nat (int ?n - int safeSize)) (sort_by ?lt ?in) = take (card (candidates ?db d) - safeSize) (sort_by ?lt ?in)"
      using take_kicked [of "sort_by ?lt ?in" safeSize "length L"] card by simp
    then have "kicked ?db d (set (kicked_validators ev tofb ts epoch d vs)) d'"
      using kicked_same [OF sc kicked_same [OF t(3) d'(3)]] by (simp add: kicked_validators_def)
    then show ?thesis using d1(1) d2(1) vs ineq False t(1) cnt d'(1,2) by (simp add: kickoutValidator_def)
  qed
qed

section \<open>Ranking and shuffling\<close>

lemma sortable_order:
  assumes "\<forall>p \<in> A. addr (fst p)"
  shows "strict_order_on A (sortable_Less kec)"
proof -
  have irr: "\<not> bytes_less a a" for a by (induction a) auto
  have "p = q" if "p \<in> A" "q \<in> A" "snd p = snd q" "\<not> bytes_less (Address_Hex kec (fst p)) (Address_Hex kec (fst q))"
    "\<not> bytes_less (Address_Hex kec (fst q)) (Address_Hex kec (fst p))" for p q
    using bytes_less_total [OF that(4,5)] Address_Hex_inj [of kec "fst p" "fst q"] assms that(1-3)
    by (auto simp: addr_def prod_eq_iff)
  then show ?thesis using irr bytes_less_trans unfolding strict_order_on_def sortable_Less_def
    by (auto split: if_splits)
qed

lemma mset_shuffle:
  assumes "\<And>k n. 0 < n \<Longrightarrow> draw k n < n" and "i < length xs"
  shows "mset (shuffle_from draw k i xs) = mset xs"
  using assms(2)
proof (induction i arbitrary: k xs)
  case (Suc i)
  have "draw k (Suc i + 1) < length xs" using assms(1) [of "Suc i + 1" k] Suc.prems by simp
  then have "mset (swap (Suc i) (draw k (Suc i + 1)) xs) = mset xs"
    using Suc.prems mset_swap [of "draw k (Suc i + 1)" xs "Suc i"] by (simp add: swap_def)
  then show ?case using Suc by (simp add: swap_def)
qed simp

definition env_ok :: "election_env \<Rightarrow> bool" where
  "env_ok ev \<longleftrightarrow> kec_ok (ev_kec ev) \<and> (\<forall>x. length (ev_kec512 ev x) = 64) \<and>
     (\<forall>seed k n. 0 < n \<longrightarrow> ev_rand ev seed k n < n) \<and> (\<forall>xs. mset (ev_order ev xs) = mset xs)"

text \<open>The validators a vote elects.\<close>

definition elected :: "election_env \<Rightarrow> (bytes \<Rightarrow> int) \<Rightarrow> DposContext \<Rightarrow> bytes list \<Rightarrow> bool" where
  "elected ev bal d vs \<longleftrightarrow> length vs = min maxValidatorSize (card (candidates (ev_db ev) d)) \<and> distinct vs \<and>
     set vs \<subseteq> candidates (ev_db ev) d \<and>
     (\<forall>a \<in> set vs. \<forall>b \<in> candidates (ev_db ev) d - set vs.
        sortable_Less (ev_kec ev) (a, tally (ev_db ev) bal d a) (b, tally (ev_db ev) bal d b))"

lemma sort_by_perm:
  assumes "mset xs = mset ys" and "distinct xs" and "strict_order_on (set xs) lt"
  shows "sort_by lt xs = sort_by lt ys"
proof (rule sorted_unique)
  have s: "set xs = set ys" using assms(1) by (metis set_mset_mset)
  have "distinct ys" using assms(1,2) by (metis mset_eq_imp_distinct_iff)
  with assms(2,3) s show "sorted_wrt lt (sort_by lt xs)" "sorted_wrt lt (sort_by lt ys)" by (simp_all add: sort_by_sorted)
  show "strict_order_on (set (sort_by lt xs)) lt" "set (sort_by lt xs) = set (sort_by lt ys)" using assms(3) s by simp_all
qed

lemma elect_validators_order:
  assumes "mset cs' = mset cs" and "distinct cs" and "\<forall>p \<in> set cs. addr (fst p)"
  shows "elect_validators ev seed cs' = elect_validators ev seed cs"
proof -
  have "sort_by (sortable_Less (ev_kec ev)) cs = sort_by (sortable_Less (ev_kec ev)) cs'"
    using assms sortable_order by (intro sort_by_perm) auto
  then show ?thesis by (simp add: elect_validators_def)
qed

lemma elect_validators_perm:
  assumes "env_ok ev"
  shows "mset (elect_validators ev seed cs) = mset (map fst (take maxValidatorSize (sort_by (sortable_Less (ev_kec ev)) cs)))"
proof -
  let ?s = "sort_by (sortable_Less (ev_kec ev)) cs"
  have t: "(if length ?s > maxValidatorSize then take maxValidatorSize ?s else ?s) = take maxValidatorSize ?s" by simp
  show ?thesis
  proof (cases "take maxValidatorSize ?s = []")
    case True
    show ?thesis unfolding elect_validators_def Let_def t unfolding True by simp
  next
    case False
    then have "length (take maxValidatorSize ?s) - 1 < length (take maxValidatorSize ?s)" by (rule diff_less [OF zero_less_one, OF length_greater_0_conv [THEN iffD2]])
    moreover have "ev_rand ev seed k n < n" if "0 < n" for k n using assms that by (simp add: env_ok_def)
    ultimately show ?thesis unfolding elect_validators_def Let_def t mset_map using mset_shuffle by metis
  qed
qed

lemma elect_validators_elected:
  assumes ev: "env_ok ev" and cs: "distinct (map fst cs)" "set cs = {(c, tally (ev_db ev) bal d c) |c. c \<in> candidates (ev_db ev) d}"
    and addr: "\<forall>c \<in> candidates (ev_db ev) d. addr c"
  shows "elected ev bal d (elect_validators ev seed cs)"
proof -
  let ?lt = "sortable_Less (ev_kec ev)" and ?C = "candidates (ev_db ev) d"
  let ?s = "sort_by ?lt cs" and ?w = "\<lambda>c. (c, tally (ev_db ev) bal d c)"
  let ?top = "take maxValidatorSize ?s" and ?vs = "elect_validators ev seed cs"
  have dcs: "distinct cs" using cs(1) by (simp add: distinct_map)
  have sorted: "sorted_wrt ?lt ?s" using dcs cs(2) addr by (intro sort_by_sorted sortable_order) auto
  have m: "mset ?vs = mset (map fst ?top)" by (rule elect_validators_perm [OF ev])
  have sets: "set ?s = ?w ` ?C" using cs(2) by auto
  have mfst: "fst ` set ?s = ?C" using cs(2) by force
  have ds: "distinct (map fst ?s)" using cs(1) mset_eq_imp_distinct_iff [of "map fst ?s" "map fst cs"] by simp
  have setvs: "set ?vs = fst ` set ?top" using m by (metis list.set_map set_mset_mset)
  have len: "length ?s = card ?C" using distinct_card [OF ds] mfst by simp
  have "length ?vs = length ?top" using m by (metis length_map size_mset)
  then have "length ?vs = min maxValidatorSize (card ?C)" using len by simp
  moreover have "distinct ?vs" using m ds mset_eq_imp_distinct_iff by (metis distinct_take take_map)
  moreover have "set ?vs \<subseteq> ?C" unfolding setvs using mfst set_take_subset by fast
  moreover have "?lt (?w a) (?w b)" if a: "a \<in> set ?vs" and b: "b \<in> ?C - set ?vs" for a b
  proof -
    have wa: "?w a \<in> set ?top" using a sets set_take_subset [of maxValidatorSize ?s] unfolding setvs by auto
    have "?w b \<in> set ?s" "?w b \<notin> set ?top" using b sets setvs by force+
    then have "?w b \<in> set (drop maxValidatorSize ?s)" using append_take_drop_id [of maxValidatorSize ?s] by (metis Un_iff set_append)
    moreover have "sorted_wrt ?lt (?top @ drop maxValidatorSize ?s)" using sorted by simp
    ultimately show ?thesis using wa unfolding sorted_wrt_append by blast
  qed
  ultimately show ?thesis unfolding elected_def by blast
qed

section \<open>Storing the validators\<close>

lemma Update_ptrie:
  assumes "ptrie kec db p t" and "v \<noteq> []"
  obtains t' where "Update db t k v = (Inr (), t')" "ptrie kec db p t'" "trie_map db t' = (trie_map db t)(k \<mapsto> v)"
  by (rule put_ptrie [OF assms, of k]) (auto simp: Update_def intro: that)

lemma length_str_encs: "\<forall>v \<in> set vs. addr v \<Longrightarrow> length (concat (map str_enc vs)) = 21 * length vs"
proof (induction vs)
  case (Cons v vs)
  then have "length v = 20" by (simp add: addr_def AddressLength_def)
  then have "length (str_enc v) = 21" by (simp add: str_enc_def puthead_def)
  with Cons show ?case by simp
qed simp

lemma encode_validators:
  assumes "\<forall>v \<in> set vs. addr v" and "length vs < 2 ^ 32"
  shows "\<exists>b. EncodeToBytes (ListV (map BytesV vs)) = Inr b \<and> b \<noteq> [] \<and> decode_arrays AddressLength b = Inr vs"
proof -
  let ?it = "Lst (map Str vs)"
  have item: "item_of (ListV (map BytesV vs)) = ?it" by (simp add: o_def)
  have pay: "concat (map rlp_encode (map Str vs)) = concat (map str_enc vs)"
    by (simp add: o_def rlp_encode_Str del: rlp_encode.simps)
  have small: "length (concat (map str_enc vs)) < 2 ^ 40" using length_str_encs [OF assms(1)] assms(2) by simp
  have enc: "rlp_encode ?it = puthead 0xC0 0xF7 (word_of_nat (length (concat (map str_enc vs)))) @ concat (map str_enc vs)"
    using pay by (simp only: rlp_encode.simps Let_def)
  have "length (puthead 0xC0 0xF7 (word_of_nat (length (concat (map str_enc vs))))) \<le> 9"
    using length_putint(2) by (simp add: puthead_def)
  then have len: "length (rlp_encode ?it) < 2 ^ 64" using small unfolding enc length_append by (simp del: length_concat)
  have "EncodeToBytes (ListV (map BytesV vs)) = Inr (rlp_encode ?it)"
    using EncodeToBytes_ok [of "ListV (map BytesV vs)"] len unfolding item by simp
  moreover have "rlp_encode ?it \<noteq> []" unfolding enc by (simp add: puthead_def)
  moreover have "decode_arrays AddressLength (rlp_encode ?it) = Inr vs"
    using decode_addresses_aux [of "rlp_encode ?it" vs] small assms(1) by (auto simp: AddressLength_def addr_def filter_empty_conv simp del: rlp_encode.simps)
  ultimately show ?thesis by blast
qed

lemma SetValidators_ok:
  assumes tr: "tries_ok kec db d" and vs: "\<forall>v \<in> set vs. addr v" "length vs < 2 ^ 32"
  obtains t where "SetValidators db vs d = (Inr (), d\<lparr>epochTrie := t\<rparr>)" "tries_ok kec db (d\<lparr>epochTrie := t\<rparr>)"
    "validators_of db (d\<lparr>epochTrie := t\<rparr>) = Inr vs"
proof -
  from encode_validators [OF vs] obtain b where b: "EncodeToBytes (ListV (map BytesV vs)) = Inr b" "b \<noteq> []" "decode_arrays AddressLength b = Inr vs" by blast
  have "ptrie kec db epochPrefix (epochTrie d)" using tr by (simp add: tries_ok_def)
  from Update_ptrie [OF this b(2), of validator_key] obtain t where t: "Update db (epochTrie d) validator_key b = (Inr (), t)"
    "ptrie kec db epochPrefix t" "trie_map db t = (trie_map db (epochTrie d))(validator_key \<mapsto> b)" .
  show thesis using that [of t] b t tr by (simp add: SetValidators_def on_epoch_def tries_ok_def validators_of_def)
qed

lemma new_epoch_trie: "\<exists>t. NewEpochTrie zero_hash dbo = Inr t \<and> ptrie kec db epochPrefix t"
  by (simp add: NewEpochTrie_def NewTrieWithPrefix_def New_def zero_hash_def ptrie_def nil_trie_ok)

section \<open>Electing\<close>

lemma safeSize_eq [simp]: "safeSize = 3" "maxValidatorSize = 3"
  by (simp_all add: safeSize_def maxValidatorSize_def)

lemma elect_round_ok:
  assumes ok: "ctx_ok (ev_kec ev) (ev_db ev) d" and ev: "env_ok ev" and safe: "safeSize \<le> card (candidates (ev_db ev) d)"
  shows "\<exists>d' vs. elect_round ev bal h i d = Some (Inr (), d') \<and> ctx_ok (ev_kec ev) (ev_db ev) d' \<and>
    candidates (ev_db ev) d' = candidates (ev_db ev) d \<and> votes (ev_db ev) d' = votes (ev_db ev) d \<and>
    trie_map (ev_db ev) (mintCntTrie d') = trie_map (ev_db ev) (mintCntTrie d) \<and> dc_db d' = dc_db d \<and>
    validators_of (ev_db ev) d' = Inr vs \<and> elected ev bal d' vs"
proof -
  let ?db = "ev_db ev" and ?kec = "ev_kec ev"
  have kec: "kec_ok ?kec" using ev by (simp add: env_ok_def)
  have ne: "candidates ?db d \<noteq> {}" using safe by auto
  from countVotes_ok [OF ok kec, of bal] ne obtain cs d1 where d1: "countVotes ev bal d = Some (Inr cs, d1)" "ctx_ok ?kec ?db d1"
    "same_content ?db d d1" "distinct (map fst cs)" "set cs = {(c, tally ?db bal d c) |c. c \<in> candidates ?db d}" by auto
  have ms: "mset (ev_order ev cs) = mset cs" using ev by (simp add: env_ok_def)
  have addr: "\<forall>c \<in> candidates ?db d. addr c" using candidate_addr [OF ok] by blast
  have "fst ` set cs = candidates ?db d" using d1(5) by force
  then have "length cs = card (candidates ?db d)" using distinct_card [OF d1(4)] by simp
  then have len: "\<not> length (ev_order ev cs) < safeSize" using safe ms by (metis not_le size_mset)
  have "length (ev_kec512 ev h) = 64" using ev by (simp add: env_ok_def)
  then obtain seed where seed: "election_seed (ev_kec512 ev) h i = Some seed" by (auto simp: election_seed_def LittleEndian_Uint32_def)
  let ?vs = "elect_validators ev seed cs"
  have vs: "elect_validators ev seed (ev_order ev cs) = ?vs"
    using d1(4,5) addr by (intro elect_validators_order [OF ms]) (auto simp: distinct_map)
  have el: "elected ev bal d ?vs" by (rule elect_validators_elected [OF ev d1(4,5) addr])
  from new_epoch_trie obtain t0 where t0: "NewEpochTrie zero_hash (dc_db d1) = Inr t0" "ptrie ?kec ?db epochPrefix t0" by blast
  have tr: "tries_ok ?kec ?db (SetEpoch t0 d1)" using d1(2) t0(2) by (simp add: ctx_ok_def tries_ok_def SetEpoch_def)
  have "\<forall>v \<in> set ?vs. addr v" "length ?vs < 2 ^ 32" using el addr by (auto simp: elected_def)
  from SetValidators_ok [OF tr this] obtain t where t: "SetValidators ?db ?vs (SetEpoch t0 d1) = (Inr (), (SetEpoch t0 d1)\<lparr>epochTrie := t\<rparr>)"
    "tries_ok ?kec ?db ((SetEpoch t0 d1)\<lparr>epochTrie := t\<rparr>)" "validators_of ?db ((SetEpoch t0 d1)\<lparr>epochTrie := t\<rparr>) = Inr ?vs" .
  let ?d = "(SetEpoch t0 d1)\<lparr>epochTrie := t\<rparr>"
  have maps: "candidates ?db ?d = candidates ?db d" "votes ?db ?d = votes ?db d" "trie_map ?db (mintCntTrie ?d) = trie_map ?db (mintCntTrie d)"
    "dc_db ?d = dc_db d" using d1(3) by (simp_all add: SetEpoch_def candidates_def votes_def same_content_def)
  have "ctx_ok ?kec ?db ?d" using d1(2) t(2) by (simp add: ctx_ok_def SetEpoch_def)
  moreover have "elected ev bal ?d ?vs" using el maps unfolding elected_def tally_def by simp
  moreover have "elect_round ev bal h i d = Some (Inr (), ?d)"
    using d1(1) len seed t0(1) t(1) vs by (simp add: elect_round_def Let_def)
  ultimately show ?thesis using maps t(3) by blast
qed

lemma kicked_card:
  assumes "kicked db d (set xs) d'" and "finite (candidates db d)" and "length xs \<le> card (candidates db d) - n" and "n \<le> card (candidates db d)"
  shows "n \<le> card (candidates db d')"
proof -
  have "card (candidates db d) - card (set xs) \<le> card (candidates db d - set xs)" by (rule diff_card_le_card_Diff) simp
  moreover have "card (set xs) \<le> length xs" by (rule card_length)
  ultimately show ?thesis using assms by (simp add: kicked_def)
qed

definition election_ok :: "election_env \<Rightarrow> bool \<Rightarrow> DposContext \<Rightarrow> bool" where
  "election_ok ev prevEpochIsGenesis d \<longleftrightarrow> ctx_ok (ev_kec ev) (ev_db ev) d \<and> mint_ok (ev_db ev) d \<and>
     safeSize \<le> card (candidates (ev_db ev) d) \<and>
     (\<not> prevEpochIsGenesis \<longrightarrow> (\<exists>vs. validators_of (ev_db ev) d = Inr vs \<and> vs \<noteq> []))"

lemma maybe_kickout_ok:
  assumes el: "election_ok ev g d" and ev: "env_ok ev" and "kick \<longrightarrow> \<not> g"
  shows "\<exists>d'. (if kick then kickoutValidator ev tofb ts epoch d else Some (Inr (), d)) = Some (Inr (), d') \<and> election_ok ev g d' \<and>
    candidates (ev_db ev) d' \<subseteq> candidates (ev_db ev) d \<and> dc_db d' = dc_db d"
proof (cases kick)
  case True
  with assms(3) el obtain vs where vs: "validators_of (ev_db ev) d = Inr vs" "vs \<noteq> []" by (auto simp: election_ok_def)
  have kec: "kec_ok (ev_kec ev)" using ev by (simp add: env_ok_def)
  from kickoutValidator_ok [OF _ kec _ vs, of tofb ts epoch] el obtain d' where d': "kickoutValidator ev tofb ts epoch d = Some (Inr (), d')"
    "ctx_ok (ev_kec ev) (ev_db ev) d'" "kicked (ev_db ev) d (set (kicked_validators ev tofb ts epoch d vs)) d'" by (auto simp: election_ok_def)
  have "finite (candidates (ev_db ev) d)" using el kec finite_candidates by (auto simp: election_ok_def)
  from kicked_card [OF d'(3) this, of safeSize] el have "safeSize \<le> card (candidates (ev_db ev) d')"
    by (auto simp: kicked_validators_def Let_def election_ok_def)
  moreover have "validators_of (ev_db ev) d' = validators_of (ev_db ev) d" "mint_ok (ev_db ev) d' = mint_ok (ev_db ev) d"
    using d'(3) by (simp_all add: kicked_def validators_of_def mint_ok_def)
  ultimately have "election_ok ev g d'" using el d'(2) by (simp add: election_ok_def)
  then show ?thesis using True d' by (auto simp: kicked_def)
qed (use el in simp)

lemma elect_loop_ok:
  assumes ev: "env_ok ev" and "election_ok ev g d" and "yields (ev_db ev) (it_nodeIt it) L"
  shows "\<exists>d'. elect_loop ev bal tofb ts h g prev cur i it d = Some (Inr (), d') \<and> election_ok ev g d' \<and>
    candidates (ev_db ev) d' \<subseteq> candidates (ev_db ev) d \<and> dc_db d' = dc_db d \<and>
    (if i < cur then \<exists>vs. validators_of (ev_db ev) d' = Inr vs \<and> elected ev bal d' vs else d' = d)"
  using assms(2,3)
proof (induction "nat (cur - i)" arbitrary: i d it L)
  case 0
  then show ?case by (simp add: elect_loop.simps [of ev bal tofb ts h g prev cur i it d])
next
  case (Suc n)
  let ?db = "ev_db ev" and ?kec = "ev_kec ev"
  have i: "i < cur" using Suc.hyps(2) by simp
  define step where "step = (if g then Some (Inr False, mintCntTrie d, it) else Iterator_Next ?kec ?db (mintCntTrie d) it)"
  have "\<exists>kick it' L'. step = Some (Inr kick, mintCntTrie d, it') \<and> yields ?db (it_nodeIt it') L' \<and> (kick \<longrightarrow> \<not> g)"
  proof (cases g)
    case False
    with Iterator_Next_yields [OF Suc.prems(2), of ?kec "mintCntTrie d"] show ?thesis by (auto simp: step_def)
  qed (use Suc.prems(2) in \<open>auto simp: step_def\<close>)
  then obtain kick it' L' where st: "step = Some (Inr kick, mintCntTrie d, it')" "yields ?db (it_nodeIt it') L'" "kick \<longrightarrow> \<not> g" by blast
  from maybe_kickout_ok [OF Suc.prems(1) ev st(3), of tofb ts prev] obtain d1 where
    d1: "(if kick then kickoutValidator ev tofb ts prev d else Some (Inr (), d)) = Some (Inr (), d1)" "election_ok ev g d1"
      "candidates ?db d1 \<subseteq> candidates ?db d" "dc_db d1 = dc_db d" by blast
  from elect_round_ok [OF _ ev, of d1 bal h i] d1(2) obtain d2 vs where d2: "elect_round ev bal h i d1 = Some (Inr (), d2)" "ctx_ok ?kec ?db d2"
    "candidates ?db d2 = candidates ?db d1" "trie_map ?db (mintCntTrie d2) = trie_map ?db (mintCntTrie d1)" "dc_db d2 = dc_db d1"
    "validators_of ?db d2 = Inr vs" "elected ev bal d2 vs" by (auto simp: election_ok_def)
  have "vs \<noteq> []" using d2(3,7) d1(2) by (auto simp: elected_def election_ok_def)
  then have el2: "election_ok ev g d2" using d1(2) d2 by (simp add: election_ok_def mint_ok_def)
  have n: "n = nat (cur - (i + 1))" using Suc.hyps(2) by linarith
  from Suc.hyps(1) [OF n el2 st(2)] obtain d' where
    d': "elect_loop ev bal tofb ts h g prev cur (i + 1) it' d2 = Some (Inr (), d')" "election_ok ev g d'"
      "candidates ?db d' \<subseteq> candidates ?db d2" "dc_db d' = dc_db d2"
      "if i + 1 < cur then \<exists>vs. validators_of ?db d' = Inr vs \<and> elected ev bal d' vs else d' = d2" by blast
  have k: "(if kick then kickoutValidator ev tofb ts prev (set_mintCnt d (mintCntTrie d)) else Some (Inr (), set_mintCnt d (mintCntTrie d))) =
    Some (Inr (), d1)" unfolding set_mintCnt_same by (rule d1(1))
  have "elect_loop ev bal tofb ts h g prev cur i it d = Some (Inr (), d')"
    by (subst elect_loop.simps) (simp add: step_def [symmetric] i st(1) k d2(1) d'(1) split del: if_split)
  moreover have "\<exists>vs. validators_of ?db d' = Inr vs \<and> elected ev bal d' vs"
    using d'(5) d2(6,7) by (cases "i + 1 < cur") auto
  ultimately show ?case using d' d2(3,5) d1(3,4) i by auto
qed

lemma election_ok_same:
  assumes "election_ok ev g d" and "tries_ok (ev_kec ev) (ev_db ev) d'" and sc: "same_content (ev_db ev) d d'"
  shows "election_ok ev g d'"
proof -
  have "validators_of (ev_db ev) d' = validators_of (ev_db ev) d" using sc by (simp add: validators_of_def same_content_def)
  then show ?thesis
    using assms same_content_ok [of "ev_kec ev" "ev_db ev" d d'] same_content_views [OF sc] mint_ok_same [OF sc] by (simp add: election_ok_def)
qed

lemma tryElect_ok:
  assumes ev: "env_ok ev" and g: "g \<longleftrightarrow> go_div parentTime epochInterval = go_div genesisTime epochInterval"
    and el: "election_ok ev g (ec_context ec)"
  shows "\<exists>d'. tryElect ev tofb genesisTime parentTime h ec = Some (Inr (), d') \<and> election_ok ev g d' \<and>
    candidates (ev_db ev) d' \<subseteq> candidates (ev_db ev) (ec_context ec) \<and>
    (if go_div parentTime epochInterval < go_div (TimeStamp ec) epochInterval
     then \<exists>vs. validators_of (ev_db ev) d' = Inr vs \<and> elected ev (ec_balance ec) d' vs
     else same_content (ev_db ev) (ec_context ec) d')"
proof -
  let ?db = "ev_db ev" and ?kec = "ev_kec ev" and ?d = "ec_context ec"
  let ?prev0 = "go_div parentTime epochInterval" and ?cur = "go_div (TimeStamp ec) epochInterval"
  let ?prev = "if g \<and> ?prev0 < ?cur then ?cur - 1 else ?prev0"
  have kec: "kec_ok ?kec" using ev by (simp add: env_ok_def)
  have tr: "tries_ok ?kec ?db ?d" using el by (simp add: election_ok_def ctx_ok_def)
  then have p: "ptrie ?kec ?db mintCntPrefix (mintCntTrie ?d)" by (simp add: tries_ok_def)
  then have tok: "trie_ok ?kec ?db (mintCntTrie ?d)" by (simp add: ptrie_def)
  let ?k = "BigEndian_PutUint64 (uint64 ?prev)"
  from PrefixIterator_okE [OF tok kec full_key_Nil [OF p prefixes_Nil(5), of ?k]] obtain t x L where
    t: "PrefixIterator ?kec ?db (mintCntTrie ?d) ?k = Some (Inr x, t)" "trie_ok ?kec ?db t" "trie_map ?db t = trie_map ?db (mintCntTrie ?d)"
      "tr_prefix t = tr_prefix (mintCntTrie ?d)" "yields ?db x L" .
  let ?d1 = "set_mintCnt ?d t"
  note d1 = replace_mintCnt [OF tr t(2-4)]
  have "yields ?db (it_nodeIt (NewIterator x)) L" using t(5) by (simp add: NewIterator_def)
  from elect_loop_ok [OF ev election_ok_same [OF el d1] this, of "ec_balance ec" tofb "TimeStamp ec" h ?prev ?cur ?prev]
  obtain d' where d': "elect_loop ev (ec_balance ec) tofb (TimeStamp ec) h g ?prev ?cur ?prev (NewIterator x) ?d1 = Some (Inr (), d')"
    "election_ok ev g d'" "candidates ?db d' \<subseteq> candidates ?db ?d1"
    "if ?prev < ?cur then \<exists>vs. validators_of ?db d' = Inr vs \<and> elected ev (ec_balance ec) d' vs else d' = ?d1" by blast
  have "tryElect ev tofb genesisTime parentTime h ec = Some (Inr (), d')"
    using t(1) d'(1) by (simp add: tryElect_def Let_def g)
  then show ?thesis using d'(2-4) d1(2) same_content_views [OF d1(2)] by (auto split: if_splits)
qed

section \<open>The round robin\<close>

lemma lookupValidator_ok:
  assumes tr: "tries_ok kec db d" and vs: "validators_of db d = Inr vs" "vs \<noteq> []" and now: "0 \<le> now"
  shows "\<exists>d'. same_content db d d' \<and> lookupValidator db now d =
    (if now mod blockInterval \<noteq> 0 then Inl ErrInvalidMintBlockTime
     else Inr (vs ! (nat (now mod epochInterval) div nat blockInterval mod length vs)), d')"
proof -
  from GetValidators_ok [OF tr] obtain d1 where d1: "GetValidators db d = (Inr vs, d1)" "same_content db d d1" using vs(1) by metis
  have e: "go_mod now epochInterval = now mod epochInterval" using now by (simp add: go_mod_nonneg epochInterval_def)
  have nn: "0 \<le> now mod epochInterval" by (simp add: epochInterval_def)
  have b: "go_mod (now mod epochInterval) blockInterval = now mod blockInterval"
    using nn by (simp add: go_mod_nonneg blockInterval_def epochInterval_def mod_mod_cancel)
  have q: "go_div (now mod epochInterval) blockInterval = int (nat (now mod epochInterval) div nat blockInterval)"
    using nn by (simp add: go_div_nonneg blockInterval_def zdiv_int)
  have i: "go_mod (int n) (int (length vs)) = int (n mod length vs)" for n
    using vs(2) by (simp add: go_mod_nonneg zmod_int)
  show ?thesis
  proof (cases "now mod blockInterval = 0")
    case False
    then show ?thesis by (intro exI [of _ d]) (simp add: lookupValidator_def e b)
  next
    case True
    then show ?thesis using d1 vs(2) by (intro exI [of _ d1]) (simp add: lookupValidator_def e b q i Let_def)
  qed
qed

end
