(* ===== verification/Dpos_Properties.thy ===== *)
theory Dpos_Properties
  imports Epoch_Election
begin

text \<open>
  What the voting register and the elections of \<open>src/core/types/dpos_context.go\<close> and
  \<open>src/consensus/dpos/epoch_context.go\<close> guarantee, from the context of an empty chain on.
\<close>

section \<open>Running the operations\<close>

fun dpos_op :: "(bytes \<Rightarrow> bytes) \<Rightarrow> database \<Rightarrow> bytes ballot_op \<Rightarrow> DposContext \<Rightarrow> ((ctx_error + unit) \<times> DposContext) option" where
  "dpos_op kec db (Become c) d = Some (BecomeCandidate db c d)"
| "dpos_op kec db (Vote x c) d = Some (Delegate db x c d)"
| "dpos_op kec db (Unvote x c) d = Some (UnDelegate db x c d)"
| "dpos_op kec db (Kickout c) d = KickoutCandidate kec db c d"

fun dpos_run :: "(bytes \<Rightarrow> bytes) \<Rightarrow> database \<Rightarrow> bytes ballot_op list \<Rightarrow> DposContext \<Rightarrow> ((ctx_error + unit) list \<times> DposContext) option" where
  "dpos_run kec db [] d = Some ([], d)"
| "dpos_run kec db (p # ps) d =
     (case dpos_op kec db p d of
        None \<Rightarrow> None
      | Some (r, d1) \<Rightarrow> (case dpos_run kec db ps d1 of None \<Rightarrow> None | Some (rs, d2) \<Rightarrow> Some (r # rs, d2)))"

text \<open>Which operations a register answers without an error.\<close>

fun ballot_accepts :: "'a ballot_op \<Rightarrow> 'a set \<times> ('a \<rightharpoonup> 'a) \<Rightarrow> bool" where
  "ballot_accepts (Become c) (C, V) = True"
| "ballot_accepts (Vote x c) (C, V) = (c \<in> C)"
| "ballot_accepts (Unvote x c) (C, V) = (c \<in> C \<and> V x = Some c)"
| "ballot_accepts (Kickout c) (C, V) = True"

fun ballot_answers :: "'a ballot_op list \<Rightarrow> 'a set \<times> ('a \<rightharpoonup> 'a) \<Rightarrow> bool list" where
  "ballot_answers [] s = []"
| "ballot_answers (p # ps) s = ballot_accepts p s # ballot_answers ps (ballot_spec p s)"

abbreviation ballot_valid :: "bytes ballot_op \<Rightarrow> bool" where
  "ballot_valid p \<equiv> \<forall>a \<in> set_ballot_op p. addr a"

definition register :: "database \<Rightarrow> DposContext \<Rightarrow> bytes set \<times> (bytes \<rightharpoonup> bytes)" where
  "register db d = (candidates db d, votes db d)"

lemma dpos_op_ok:
  assumes inv: "ctx_ok kec db d" "kec_ok kec" and v: "ballot_valid p"
  shows "\<exists>r d'. dpos_op kec db p d = Some (r, d') \<and> ctx_ok kec db d' \<and> register db d' = ballot_spec p (register db d) \<and>
    isl r = (\<not> ballot_accepts p (register db d)) \<and> epochTrie d' = epochTrie d \<and> mintCntTrie d' = mintCntTrie d"
proof (cases p)
  case (Become c)
  with BecomeCandidate_ok [OF inv(1), of c] v show ?thesis by (auto simp: register_def)
next
  case (Vote x c)
  show ?thesis
  proof (cases "c \<in> candidates db d")
    case True
    with Delegate_ok [OF inv(1) _ True, of x] v Vote show ?thesis by (auto simp: register_def same_rest_def)
  next
    case False
    with Delegate_refused [OF inv(1) False, of x] Vote show ?thesis by (auto simp: register_def same_rest_def)
  qed
next
  case (Unvote x c)
  with v have "addr c" by simp
  from UnDelegate_ok [OF inv(1) this, of x] Unvote show ?thesis
    by (auto simp: register_def same_rest_def split: if_splits)
next
  case (Kickout c)
  with KickoutCandidate_ok [OF inv, of c] v show ?thesis by (auto simp: register_def same_rest_def)
qed

lemma dpos_run_ok:
  assumes "ctx_ok kec db d" and kec: "kec_ok kec" and "\<forall>p \<in> set ops. ballot_valid p"
  shows "\<exists>rs d'. dpos_run kec db ops d = Some (rs, d') \<and> ctx_ok kec db d' \<and> register db d' = ballot_run ops (register db d) \<and>
    map isl rs = map Not (ballot_answers ops (register db d)) \<and> epochTrie d' = epochTrie d \<and> mintCntTrie d' = mintCntTrie d"
  using assms(1,3)
proof (induction ops arbitrary: d)
  case (Cons p ops)
  from dpos_op_ok [OF Cons.prems(1) kec, of p] Cons.prems(2) obtain r d1 where 1: "dpos_op kec db p d = Some (r, d1)"
    "ctx_ok kec db d1" "register db d1 = ballot_spec p (register db d)" "isl r = (\<not> ballot_accepts p (register db d))"
    "epochTrie d1 = epochTrie d" "mintCntTrie d1 = mintCntTrie d" by auto
  from Cons.IH [OF 1(2)] Cons.prems(2) obtain rs d2 where 2: "dpos_run kec db ops d1 = Some (rs, d2)"
    "ctx_ok kec db d2" "register db d2 = ballot_run ops (register db d1)" "map isl rs = map Not (ballot_answers ops (register db d1))"
    "epochTrie d2 = epochTrie d1" "mintCntTrie d2 = mintCntTrie d1" by auto
  show ?case using 1 2 by (simp add: ballot_run_def)
qed (simp add: ballot_run_def)

section \<open>The context of an empty chain\<close>

lemma nil_trie_map: "tr_root t = NilNode \<Longrightarrow> trie_map db t = Map.empty"
  by (auto simp: trie_map_def TryGet_def Let_def)

lemma new_prefix_trie:
  assumes "NewTrieWithPrefix zero_hash p dbo = Inr t"
  shows "ptrie kec db p t" "trie_map db t = Map.empty"
  using assms by (auto simp: NewTrieWithPrefix_def New_def zero_hash_def ptrie_def intro!: nil_trie_ok nil_trie_map)

lemmas new_trie_defs = NewEpochTrie_def NewDelegateTrie_def NewVoteTrie_def NewCandidateTrie_def NewMintCntTrie_def

lemma new_context_exists: "\<exists>d. NewDposContext dbo = Inr d"
  by (simp add: NewDposContext_def new_trie_defs NewTrieWithPrefix_def New_def zero_hash_def)

lemma new_context:
  assumes "NewDposContext dbo = Inr d"
  shows "ctx_ok kec db d" "register db d = ({}, Map.empty)" "mint_ok db d"
proof -
  from assms obtain e g v c m where t: "NewTrieWithPrefix zero_hash epochPrefix dbo = Inr e" "NewTrieWithPrefix zero_hash delegatePrefix dbo = Inr g"
    "NewTrieWithPrefix zero_hash votePrefix dbo = Inr v" "NewTrieWithPrefix zero_hash candidatePrefix dbo = Inr c"
    "NewTrieWithPrefix zero_hash mintCntPrefix dbo = Inr m"
    and d: "d = \<lparr>epochTrie = e, delegateTrie = g, voteTrie = v, candidateTrie = c, mintCntTrie = m, dc_db = dbo\<rparr>"
    unfolding NewDposContext_def new_trie_defs by (elim bind_InrE) auto
  note ok = t [THEN new_prefix_trie(1) [of _ _ _ kec db]] and em = t [THEN new_prefix_trie(2) [of _ _ _ db]]
  show "ctx_ok kec db d" using ok em by (simp add: ctx_ok_def tries_ok_def register_ok_def d)
  show "register db d = ({}, Map.empty)" "mint_ok db d" using em by (simp_all add: register_def candidates_def votes_def mint_ok_def d)
qed

section \<open>Elections do not depend on the order of Go's maps\<close>

lemma order_env:
  "ev_kec (ev\<lparr>ev_order := f\<rparr>) = ev_kec ev" "ev_kec512 (ev\<lparr>ev_order := f\<rparr>) = ev_kec512 ev"
  "ev_db (ev\<lparr>ev_order := f\<rparr>) = ev_db ev" "ev_rand (ev\<lparr>ev_order := f\<rparr>) = ev_rand ev" "ev_order (ev\<lparr>ev_order := f\<rparr>) = f"
  by simp_all

lemma kickoutValidator_order: "kickoutValidator (ev\<lparr>ev_order := f\<rparr>) tofb ts epoch d = kickoutValidator ev tofb ts epoch d"
  unfolding kickoutValidator_def order_env ..

lemma elect_round_det:
  assumes ok: "ctx_ok (ev_kec ev) (ev_db ev) d" and ev: "env_ok ev" and f: "\<forall>xs. mset (f xs) = mset xs"
  shows "elect_round (ev\<lparr>ev_order := f\<rparr>) bal h i d = elect_round ev bal h i d"
proof -
  have kec: "kec_ok (ev_kec ev)" using ev by (simp add: env_ok_def)
  from countVotes_ok [OF ok kec, of bal] obtain r d' where c: "countVotes ev bal d = Some (r, d')"
    "if candidates (ev_db ev) d = {} then r = Inl NoCandidates
     else \<exists>vs. r = Inr vs \<and> distinct (map fst vs) \<and> set vs = {(c, tally (ev_db ev) bal d c) |c. c \<in> candidates (ev_db ev) d}" by blast
  have c': "countVotes (ev\<lparr>ev_order := f\<rparr>) bal d = countVotes ev bal d"
    unfolding countVotes_def order_env ..
  show ?thesis
  proof (cases r)
    case (Inr vs)
    with c(2) have vs: "distinct vs" "\<forall>p \<in> set vs. addr (fst p)"
      using ok by (auto simp: distinct_map ctx_ok_def register_ok_def candidates_def split: if_splits)
    have m: "mset (f vs) = mset vs" "mset (ev_order ev vs) = mset vs" using f ev by (simp_all add: env_ok_def)
    then have len: "length (f vs) = length (ev_order ev vs)" by (metis mset_eq_length)
    have e: "elect_validators (ev\<lparr>ev_order := f\<rparr>) seed (f vs) = elect_validators ev seed (ev_order ev vs)" for seed
      using elect_validators_order [OF m(1) vs, of ev seed] elect_validators_order [OF m(2) vs, of ev seed]
      by (simp add: elect_validators_def)
    show ?thesis unfolding elect_round_def c' order_env c(1) Inr option.case prod.case sum.case Let_def e len ..
  qed (simp add: elect_round_def c' c(1))
qed

lemma elect_loop_det:
  assumes ev: "env_ok ev" and f: "\<forall>xs. mset (f xs) = mset xs" and "election_ok ev g d" and "yields (ev_db ev) (it_nodeIt it) L"
  shows "elect_loop (ev\<lparr>ev_order := f\<rparr>) bal tofb ts h g prev cur i it d = elect_loop ev bal tofb ts h g prev cur i it d"
  using assms(3,4)
proof (induction "nat (cur - i)" arbitrary: i d it L)
  case 0
  then show ?case by (simp add: elect_loop.simps [of _ bal tofb ts h g prev cur i it d])
next
  case (Suc n)
  let ?db = "ev_db ev" and ?kec = "ev_kec ev" and ?ev = "ev\<lparr>ev_order := f\<rparr>"
  have i: "i < cur" using Suc.hyps(2) by simp
  define step where "step = (if g then Some (Inr False, mintCntTrie d, it) else Iterator_Next ?kec ?db (mintCntTrie d) it)"
  have "\<exists>kick it' L'. step = Some (Inr kick, mintCntTrie d, it') \<and> yields ?db (it_nodeIt it') L' \<and> (kick \<longrightarrow> \<not> g)"
    using Iterator_Next_yields [OF Suc.prems(2), of ?kec "mintCntTrie d"] Suc.prems(2) by (cases g) (auto simp: step_def)
  then obtain kick it' L' where st: "step = Some (Inr kick, mintCntTrie d, it')" "yields ?db (it_nodeIt it') L'" "kick \<longrightarrow> \<not> g" by blast
  from maybe_kickout_ok [OF Suc.prems(1) ev st(3), of tofb ts prev] obtain d1 where
    d1: "(if kick then kickoutValidator ev tofb ts prev d else Some (Inr (), d)) = Some (Inr (), d1)" "election_ok ev g d1" by blast
  from elect_round_ok [OF _ ev, of d1 bal h i] d1(2) obtain d2 vs where d2: "elect_round ev bal h i d1 = Some (Inr (), d2)" "ctx_ok ?kec ?db d2"
    "candidates ?db d2 = candidates ?db d1" "trie_map ?db (mintCntTrie d2) = trie_map ?db (mintCntTrie d1)"
    "validators_of ?db d2 = Inr vs" "elected ev bal d2 vs" by (auto simp: election_ok_def)
  have "vs \<noteq> []" using d2(3,6) d1(2) by (auto simp: elected_def election_ok_def)
  then have el2: "election_ok ev g d2" using d1(2) d2 by (simp add: election_ok_def mint_ok_def)
  have n: "n = nat (cur - (i + 1))" using Suc.hyps(2) by linarith
  have r: "elect_round ?ev bal h i d1 = Some (Inr (), d2)"
    using elect_round_det [OF _ ev f, of d1 bal h i] d1(2) d2(1) by (simp add: election_ok_def)
  have k: "(if kick then kickoutValidator ev tofb ts prev (set_mintCnt d (mintCntTrie d)) else Some (Inr (), set_mintCnt d (mintCntTrie d))) =
    Some (Inr (), d1)" unfolding set_mintCnt_same by (rule d1(1))
  show ?case
    unfolding elect_loop.simps [of _ bal tofb ts h g prev cur i it d] order_env kickoutValidator_order
    by (simp add: step_def [symmetric] i st(1) k d2(1) r Suc.hyps(1) [OF n el2 st(2)] split del: if_split)
qed

section \<open>A small chain\<close>

text \<open>A concrete environment and context, at which the properties below are instantiated.\<close>

definition sample_env :: election_env where
  "sample_env = \<lparr>ev_kec = \<lambda>x. if x = [] then replicate 32 1 else replicate 32 2, ev_kec512 = \<lambda>_. replicate 64 0,
     ev_db = Map.empty, ev_rand = \<lambda>_ _ n. n - 1, ev_order = id\<rparr>"

definition sample_addr :: "byte \<Rightarrow> bytes" where
  "sample_addr b = replicate 20 b"

definition sample_ops :: "bytes ballot_op list" where
  "sample_ops = [Become (sample_addr 1), Become (sample_addr 2), Become (sample_addr 3), Become (sample_addr 4),
     Vote (sample_addr 7) (sample_addr 2), Vote (sample_addr 8) (sample_addr 4)]"

lemma sample_addr_ok [simp]: "addr (sample_addr b)" "sample_addr a = sample_addr b \<longleftrightarrow> a = b"
  by (simp_all add: sample_addr_def addr_def AddressLength_def)

lemma sample_kec: "kec_ok (ev_kec sample_env)"
proof -
  have "(replicate 32 1 :: bytes) \<noteq> replicate 32 2" by (simp add: numeral_eq_Suc)
  moreover have "hd emptyRoot \<noteq> 1" by (simp add: emptyRoot_def)
  then have "emptyRoot \<noteq> replicate 32 1" by (metis hd_replicate zero_neq_numeral)
  ultimately show ?thesis by (auto simp: kec_ok_def sample_env_def)
qed

lemma sample_db [simp]: "ev_db sample_env = Map.empty"
  by (simp add: sample_env_def)

lemma sample_env_ok: "env_ok sample_env"
  using sample_kec by (simp add: env_ok_def sample_env_def)

lemma sample_ctx:
  obtains d where "ctx_ok (ev_kec sample_env) (ev_db sample_env) d" "mint_ok (ev_db sample_env) d"
    "candidates (ev_db sample_env) d = {sample_addr 1, sample_addr 2, sample_addr 3, sample_addr 4}"
    "votes (ev_db sample_env) d = [sample_addr 7 \<mapsto> sample_addr 2, sample_addr 8 \<mapsto> sample_addr 4]"
    "validators_of (ev_db sample_env) d = Inr [sample_addr 1, sample_addr 2, sample_addr 3]"
proof -
  let ?kec = "ev_kec sample_env" and ?db = "ev_db sample_env" and ?vs = "[sample_addr 1, sample_addr 2, sample_addr 3]"
  from new_context_exists obtain d0 where d0: "NewDposContext (Some ?db) = Inr d0" by blast
  note n = new_context(1) [OF d0, of ?kec ?db] new_context(2,3) [OF d0, of ?db]
  from dpos_run_ok [OF n(1) sample_kec, of sample_ops] obtain d where
    d: "ctx_ok ?kec ?db d" "register ?db d = ballot_run sample_ops ({}, Map.empty)" "mintCntTrie d = mintCntTrie d0"
    unfolding n(2) by (auto simp: sample_ops_def)
  have "tries_ok ?kec ?db d" using d(1) by (simp add: ctx_ok_def)
  from SetValidators_ok [OF this, of ?vs] obtain t where t: "tries_ok ?kec ?db (d\<lparr>epochTrie := t\<rparr>)" "validators_of ?db (d\<lparr>epochTrie := t\<rparr>) = Inr ?vs"
    by auto
  show thesis
  proof (rule that [of "d\<lparr>epochTrie := t\<rparr>"])
    show "ctx_ok ?kec ?db (d\<lparr>epochTrie := t\<rparr>)" using d(1) t(1) by (simp add: ctx_ok_def)
    show "mint_ok ?db (d\<lparr>epochTrie := t\<rparr>)" using n(3) d(3) by (simp add: mint_ok_def)
    show "candidates ?db (d\<lparr>epochTrie := t\<rparr>) = {sample_addr 1, sample_addr 2, sample_addr 3, sample_addr 4}"
      "votes ?db (d\<lparr>epochTrie := t\<rparr>) = [sample_addr 7 \<mapsto> sample_addr 2, sample_addr 8 \<mapsto> sample_addr 4]"
      using d(2) by (auto simp: register_def candidates_def votes_def sample_ops_def ballot_run_def)
  qed (rule t(2))
qed

lemma sample_card: "card {sample_addr 1, sample_addr 2, sample_addr 3, sample_addr 4} = 4"
  by simp

section \<open>The register of candidates and votes\<close>

text \<open>C16.  From the context of an empty chain, every sequence of candidacies, delegations, undelegations
  and kick-outs terminates without a trie error and acts as on a set of candidates and a map from
  delegators to candidates: the tries hold that set and that map, and exactly the operations that the
  abstract register refuses are answered with an error.\<close>

theorem dpos_register_refines:
  assumes "NewDposContext (Some db) = Inr d" and "kec_ok kec" and "\<forall>p \<in> set ops. ballot_valid p"
  shows "\<exists>rs d'. dpos_run kec db ops d = Some (rs, d') \<and>
    (candidates db d', votes db d') = ballot_run ops ({}, Map.empty) \<and>
    map isl rs = map Not (ballot_answers ops ({}, Map.empty))"
  using dpos_run_ok [OF new_context(1) [OF assms(1)] assms(2,3), of db] new_context(2) [OF assms(1), of db] by (auto simp: register_def)

theorem dpos_register_refines_witness:
  "\<exists>d rs d'. NewDposContext (Some Map.empty) = Inr d \<and>
    dpos_run (ev_kec sample_env) Map.empty [Become (sample_addr 1), Vote (sample_addr 2) (sample_addr 1), Vote (sample_addr 2) (sample_addr 3)] d =
      Some (rs, d') \<and> map isl rs = [False, False, True] \<and> votes Map.empty d' (sample_addr 2) = Some (sample_addr 1)"
proof -
  let ?ops = "[Become (sample_addr 1), Vote (sample_addr 2) (sample_addr 1), Vote (sample_addr 2) (sample_addr 3)]"
  from new_context_exists obtain d where d: "NewDposContext (Some Map.empty) = Inr d" by blast
  from dpos_register_refines [OF d sample_kec, of ?ops] obtain rs d' where
    "dpos_run (ev_kec sample_env) Map.empty ?ops d = Some (rs, d')"
    "(candidates Map.empty d', votes Map.empty d') = ballot_run ?ops ({}, Map.empty)"
    "map isl rs = map Not (ballot_answers ?ops ({}, Map.empty))" by auto
  with d show ?thesis by (auto simp: ballot_run_def)
qed

text \<open>C17.  In every context that such a sequence reaches, the delegate trie holds exactly the votes of the
  vote trie, filed under candidate and delegator, every vote is for a registered candidate, and every
  entry of the candidate trie is an address filed under itself.\<close>

theorem dpos_register_invariant:
  assumes "NewDposContext (Some db) = Inr d" and "kec_ok kec" and "\<forall>p \<in> set ops. ballot_valid p"
    and "dpos_run kec db ops d = Some (rs, d')"
  shows "(trie_map db (delegateTrie d') k = Some x \<longleftrightarrow> (\<exists>c. trie_map db (voteTrie d') x = Some c \<and> k = c @ x)) \<and>
    (trie_map db (voteTrie d') x = Some c \<longrightarrow> trie_map db (candidateTrie d') c = Some c \<and> length c = 20 \<and> length x = 20)"
proof -
  from dpos_run_ok [OF new_context(1) [OF assms(1)] assms(2,3), of db] assms(4) have "ctx_ok kec db d'" by auto
  then show ?thesis unfolding ctx_ok_def register_ok_def addr_def AddressLength_def by blast
qed

theorem dpos_register_invariant_witness:
  "\<exists>d rs d'. NewDposContext (Some Map.empty) = Inr d \<and> dpos_run (ev_kec sample_env) Map.empty sample_ops d = Some (rs, d') \<and>
    trie_map Map.empty (delegateTrie d') (sample_addr 2 @ sample_addr 7) = Some (sample_addr 7)"
proof -
  from new_context_exists obtain d where d: "NewDposContext (Some Map.empty) = Inr d" by blast
  have ops: "\<forall>p \<in> set sample_ops. ballot_valid p" by (simp add: sample_ops_def)
  from dpos_run_ok [OF new_context(1) [OF d] sample_kec ops, of Map.empty] new_context(2) [OF d, of Map.empty] obtain rs d' where
    r: "dpos_run (ev_kec sample_env) Map.empty sample_ops d = Some (rs, d')" "register Map.empty d' = ballot_run sample_ops ({}, Map.empty)" by auto
  then have "trie_map Map.empty (voteTrie d') (sample_addr 7) = Some (sample_addr 2)"
    by (simp add: register_def votes_def sample_ops_def ballot_run_def)
  with dpos_register_invariant [OF d sample_kec ops r(1), of "sample_addr 2 @ sample_addr 7" "sample_addr 7"] d r(1) show ?thesis by auto
qed

text \<open>In the reachable contexts candidates and votes determine the content of the three tries that
  keep them.\<close>

lemma register_content:
  assumes "ctx_ok kec db d" and "ctx_ok kec db d'" and "candidates db d' = candidates db d" and "votes db d' = votes db d" and "same_rest d d'"
  shows "same_content db d d'"
proof -
  have "trie_map db (candidateTrie e) = (\<lambda>c. if c \<in> candidates db e then Some c else None)" if "ctx_ok kec db e" for e
    using that by (intro ext) (auto simp: ctx_ok_def register_ok_def candidates_def)
  moreover have "trie_map db (delegateTrie e) k = Some v \<longleftrightarrow> (\<exists>c. votes db e v = Some c \<and> k = c @ v)" if "ctx_ok kec db e" for e k v
    using that by (auto simp: ctx_ok_def register_ok_def votes_def)
  then have "trie_map db (delegateTrie d') k = trie_map db (delegateTrie d) k" for k
    using assms(1,2,4) by (metis not_Some_eq)
  ultimately show ?thesis using assms by (auto simp: same_content_def same_rest_def votes_def)
qed

text \<open>C18.  \<open>Delegate\<close> refuses a vote for an address that is no candidate, \<open>UnDelegate\<close> refuses to withdraw
  a vote for such an address and a vote that was not given; each with its own error.  A refused
  operation changes the content of none of the five tries (\<open>same_content\<close>).\<close>

theorem dpos_refusals:
  assumes "ctx_ok kec db d" and "addr c"
  shows "(c \<notin> candidates db d \<longrightarrow> (\<exists>d'. Delegate db x c d = (Inl InvalidCandidateToDelegate, d') \<and> same_content db d d')) \<and>
    (c \<notin> candidates db d \<longrightarrow> (\<exists>d'. UnDelegate db x c d = (Inl InvalidCandidateToUndelegate, d') \<and> same_content db d d')) \<and>
    (c \<in> candidates db d \<and> votes db d x \<noteq> Some c \<longrightarrow>
      (\<exists>d'. UnDelegate db x c d = (Inl MismatchCandidateToUndelegate, d') \<and> same_content db d d'))"
  using Delegate_refused [OF assms(1), of c x] UnDelegate_ok [OF assms, of x] register_content [OF assms(1)]
  by (auto split: if_splits)

theorem dpos_refusals_witness:
  "\<exists>d d'. NewDposContext (Some Map.empty) = Inr d \<and>
    Delegate Map.empty (sample_addr 1) (sample_addr 2) d = (Inl InvalidCandidateToDelegate, d') \<and> same_content Map.empty d d'"
proof -
  from new_context_exists obtain d where d: "NewDposContext (Some Map.empty) = Inr d" by blast
  have "sample_addr 2 \<notin> candidates Map.empty d" using new_context(2) [OF d] by (simp add: register_def)
  with dpos_refusals [OF new_context(1) [OF d] sample_addr_ok(1), where db = Map.empty and x = "sample_addr 1"] d show ?thesis by auto
qed

text \<open>C19.  The list of validators that \<open>SetValidators\<close> writes to the epoch trie is the list that
  \<open>GetValidators\<close> reads back.\<close>

theorem validators_roundtrip:
  assumes "tries_ok kec db d" and "\<forall>v \<in> set vs. addr v" and "length vs < 2 ^ 32"
  shows "\<exists>d1 d2. SetValidators db vs d = (Inr (), d1) \<and> GetValidators db d1 = (Inr vs, d2)"
proof -
  from SetValidators_ok [OF assms] obtain t where t: "SetValidators db vs d = (Inr (), d\<lparr>epochTrie := t\<rparr>)"
    "tries_ok kec db (d\<lparr>epochTrie := t\<rparr>)" "validators_of db (d\<lparr>epochTrie := t\<rparr>) = Inr vs" .
  from GetValidators_ok [OF t(2)] t(3) obtain d2 where "GetValidators db (d\<lparr>epochTrie := t\<rparr>) = (Inr vs, d2)" by metis
  with t(1) show ?thesis by blast
qed

theorem validators_roundtrip_witness:
  "\<exists>d d1 d2. NewDposContext (Some Map.empty) = Inr d \<and> SetValidators Map.empty [sample_addr 1, sample_addr 2] d = (Inr (), d1) \<and>
    GetValidators Map.empty d1 = (Inr [sample_addr 1, sample_addr 2], d2)"
proof -
  from new_context_exists obtain d where d: "NewDposContext (Some Map.empty) = Inr d" by blast
  have "tries_ok (ev_kec sample_env) Map.empty d" using new_context(1) [OF d] by (simp add: ctx_ok_def)
  from validators_roundtrip [OF this, of "[sample_addr 1, sample_addr 2]"] d show ?thesis by auto
qed

section \<open>Elections\<close>

text \<open>C20.  Counting terminates without a trie error, changes the content of no trie and gives every
  candidate exactly the sum of the balances of the delegators that vote for it, candidates without
  delegators included; without candidates it is an error.\<close>

theorem countVotes_correct:
  assumes "ctx_ok (ev_kec ev) (ev_db ev) d" and "kec_ok (ev_kec ev)"
  shows "\<exists>r d'. countVotes ev bal d = Some (r, d') \<and> same_content (ev_db ev) d d' \<and>
    (if candidates (ev_db ev) d = {} then r = Inl NoCandidates
     else \<exists>vs. r = Inr vs \<and> (\<forall>c. map_of vs c =
       (if c \<in> candidates (ev_db ev) d then Some (\<Sum>x | votes (ev_db ev) d x = Some c. bal x) else None)))"
proof -
  let ?C = "candidates (ev_db ev) d"
  from countVotes_ok [OF assms, of bal] obtain r d' where c: "countVotes ev bal d = Some (r, d')" "same_content (ev_db ev) d d'"
    "if ?C = {} then r = Inl NoCandidates
     else \<exists>vs. r = Inr vs \<and> distinct (map fst vs) \<and> set vs = {(c, tally (ev_db ev) bal d c) |c. c \<in> ?C}" by blast
  show ?thesis
  proof (cases "?C = {}")
    case False
    with c(3) obtain vs where vs: "r = Inr vs" "distinct (map fst vs)" "set vs = {(c, tally (ev_db ev) bal d c) |c. c \<in> ?C}" by auto
    have "map_of vs c = (if c \<in> ?C then Some (tally (ev_db ev) bal d c) else None)" for c
      using vs(2,3) by (cases "c \<in> ?C") (auto simp: map_of_eq_None_iff)
    with False c(1,2) vs(1) show ?thesis unfolding tally_def by auto
  qed (use c in auto)
qed

theorem countVotes_correct_witness:
  "\<exists>d vs d'. countVotes sample_env (\<lambda>_. 5) d = Some (Inr vs, d') \<and> map_of vs (sample_addr 2) = Some 5 \<and> map_of vs (sample_addr 1) = Some 0"
proof -
  from sample_ctx obtain d where d: "ctx_ok (ev_kec sample_env) (ev_db sample_env) d"
    "candidates (ev_db sample_env) d = {sample_addr 1, sample_addr 2, sample_addr 3, sample_addr 4}"
    "votes (ev_db sample_env) d = [sample_addr 7 \<mapsto> sample_addr 2, sample_addr 8 \<mapsto> sample_addr 4]" by metis
  have v: "{x. votes (ev_db sample_env) d x = Some (sample_addr 2)} = {sample_addr 7}"
    "{x. votes (ev_db sample_env) d x = Some (sample_addr 1)} = {}" using d(3) by auto
  have "candidates (ev_db sample_env) d \<noteq> {}" using d(2) by simp
  with countVotes_correct [OF d(1) sample_kec, of "\<lambda>_. 5"] obtain vs d' where r: "countVotes sample_env (\<lambda>_. 5) d = Some (Inr vs, d')"
    "\<forall>c. map_of vs c = (if c \<in> candidates (ev_db sample_env) d
      then Some (\<Sum>x | votes (ev_db sample_env) d x = Some c. 5) else None)" by auto
  show ?thesis using r(1) r(2) [rule_format, of "sample_addr 2"] r(2) [rule_format, of "sample_addr 1"] d(2) v
    by (intro exI [of _ d] exI [of _ vs] exI [of _ d']) simp
qed

text \<open>C21.  Kicking out never brings the number of candidates below \<open>safeSize\<close>, removes no one but
  validators that minted fewer blocks in the epoch than the threshold, and drops exactly the votes
  for the removed.\<close>

theorem kickoutValidator_safe:
  assumes "ctx_ok (ev_kec ev) (ev_db ev) d" and "kec_ok (ev_kec ev)" and "mint_ok (ev_db ev) d"
    and "validators_of (ev_db ev) d = Inr vs" "vs \<noteq> []"
  shows "\<exists>d' A. kickoutValidator ev tofb ts epoch d = Some (Inr (), d') \<and> kicked (ev_db ev) d A d' \<and>
    A \<subseteq> {v \<in> set vs. minted (ev_db ev) d epoch v < kickout_threshold (epoch_duration ts tofb)} \<and>
    (safeSize \<le> card (candidates (ev_db ev) d) \<longrightarrow> safeSize \<le> card (candidates (ev_db ev) d'))"
proof -
  let ?A = "set (kicked_validators ev tofb ts epoch d vs)"
  from kickoutValidator_ok [OF assms, of tofb ts epoch] obtain d' where d': "kickoutValidator ev tofb ts epoch d = Some (Inr (), d')"
    "kicked (ev_db ev) d ?A d'" by blast
  have "?A \<subseteq> {v \<in> set vs. minted (ev_db ev) d epoch v < kickout_threshold (epoch_duration ts tofb)}"
    by (auto simp: kicked_validators_def Let_def inactive_def dest!: in_set_takeD)
  moreover have "safeSize \<le> card (candidates (ev_db ev) d')" if "safeSize \<le> card (candidates (ev_db ev) d)"
    by (rule kicked_card [OF d'(2) finite_candidates [OF assms(1,2)] _ that]) (simp add: kicked_validators_def Let_def)
  ultimately show ?thesis using d' by blast
qed

theorem kickoutValidator_safe_witness:
  "\<exists>d d'. kickoutValidator sample_env 0 864000 3 d = Some (Inr (), d') \<and> safeSize \<le> card (candidates Map.empty d')"
proof -
  from sample_ctx obtain d where d: "ctx_ok (ev_kec sample_env) (ev_db sample_env) d" "mint_ok (ev_db sample_env) d"
    "candidates (ev_db sample_env) d = {sample_addr 1, sample_addr 2, sample_addr 3, sample_addr 4}"
    "validators_of (ev_db sample_env) d = Inr [sample_addr 1, sample_addr 2, sample_addr 3]" by metis
  from kickoutValidator_safe [OF d(1) sample_kec d(2,4), of 0 864000 3] d(3) show ?thesis
    by (auto simp: sample_card)
qed

text \<open>C22.  With at least \<open>safeSize\<close> candidates the election at the start of an epoch terminates without
  an error, however many epochs were skipped, and afterwards the validators are distinct candidates,
  as many as there are places and candidates, each ranked before every candidate that was not
  elected; within an epoch nothing changes.\<close>

theorem tryElect_elects:
  assumes "env_ok ev" and "election_ok ev (go_div parentTime epochInterval = go_div genesisTime epochInterval) (ec_context ec)"
  shows "\<exists>d'. tryElect ev tofb genesisTime parentTime h ec = Some (Inr (), d') \<and>
    safeSize \<le> card (candidates (ev_db ev) d') \<and>
    (if go_div parentTime epochInterval < go_div (TimeStamp ec) epochInterval
     then \<exists>vs. validators_of (ev_db ev) d' = Inr vs \<and> elected ev (ec_balance ec) d' vs
     else same_content (ev_db ev) (ec_context ec) d')"
  using tryElect_ok [OF assms(1) refl assms(2), of tofb h] by (auto simp: election_ok_def)

theorem tryElect_elects_witness:
  "\<exists>d d' vs. tryElect sample_env 0 0 100000 [] \<lparr>TimeStamp = 864000, ec_context = d, ec_balance = \<lambda>_. 1\<rparr> = Some (Inr (), d') \<and>
    validators_of Map.empty d' = Inr vs \<and> length vs = 3"
proof -
  from sample_ctx obtain d where d: "ctx_ok (ev_kec sample_env) (ev_db sample_env) d" "mint_ok (ev_db sample_env) d"
    "candidates (ev_db sample_env) d = {sample_addr 1, sample_addr 2, sample_addr 3, sample_addr 4}"
    "validators_of (ev_db sample_env) d = Inr [sample_addr 1, sample_addr 2, sample_addr 3]" by metis
  then have "election_ok sample_env g d" for g by (simp add: election_ok_def)
  with tryElect_elects [OF sample_env_ok, of 100000 0 "\<lparr>TimeStamp = 864000, ec_context = d, ec_balance = \<lambda>_. 1\<rparr>" 0 "[]"]
  obtain d' vs where "tryElect sample_env 0 0 100000 [] \<lparr>TimeStamp = 864000, ec_context = d, ec_balance = \<lambda>_. 1\<rparr> = Some (Inr (), d')"
    "validators_of Map.empty d' = Inr vs" "elected sample_env (\<lambda>_. 1) d' vs" "safeSize \<le> card (candidates Map.empty d')"
    by (auto simp: epochInterval_def go_div_def)
  then show ?thesis by (intro exI [of _ d] exI [of _ d'] exI [of _ vs]) (simp add: elected_def)
qed

text \<open>C23.  The outcome of an election does not depend on the order in which Go iterates over the map of
  votes: nodes that count the same votes elect the same validators in the same order.\<close>

theorem tryElect_deterministic:
  assumes "env_ok ev" and "election_ok ev (go_div parentTime epochInterval = go_div genesisTime epochInterval) (ec_context ec)"
    and "\<forall>xs. mset (f xs) = mset xs"
  shows "tryElect (ev\<lparr>ev_order := f\<rparr>) tofb genesisTime parentTime h ec = tryElect ev tofb genesisTime parentTime h ec"
proof -
  let ?db = "ev_db ev" and ?kec = "ev_kec ev" and ?d = "ec_context ec"
  let ?prev0 = "go_div parentTime epochInterval" and ?cur = "go_div (TimeStamp ec) epochInterval"
  let ?g = "?prev0 = go_div genesisTime epochInterval"
  let ?prev = "if ?g \<and> ?prev0 < ?cur then ?cur - 1 else ?prev0"
  let ?k = "BigEndian_PutUint64 (uint64 ?prev)"
  have kec: "kec_ok ?kec" using assms(1) by (simp add: env_ok_def)
  have tr: "tries_ok ?kec ?db ?d" using assms(2) by (simp add: election_ok_def ctx_ok_def)
  then have p: "ptrie ?kec ?db mintCntPrefix (mintCntTrie ?d)" by (simp add: tries_ok_def)
  then have tok: "trie_ok ?kec ?db (mintCntTrie ?d)" by (simp add: ptrie_def)
  from PrefixIterator_okE [OF tok kec full_key_Nil [OF p prefixes_Nil(5), of ?k]] obtain t x L where
    t: "PrefixIterator ?kec ?db (mintCntTrie ?d) ?k = Some (Inr x, t)" "trie_ok ?kec ?db t" "trie_map ?db t = trie_map ?db (mintCntTrie ?d)"
      "tr_prefix t = tr_prefix (mintCntTrie ?d)" "yields ?db x L" .
  have y: "yields ?db (it_nodeIt (NewIterator x)) L" using t(5) by (simp add: NewIterator_def)
  note det = elect_loop_det [OF assms(1,3) election_ok_same [OF assms(2) replace_mintCnt [OF tr t(2-4)]] y]
  show ?thesis unfolding tryElect_def Let_def order_env t(1) option.case prod.case sum.case by (rule det)
qed

theorem tryElect_deterministic_witness:
  "\<exists>d. tryElect (sample_env\<lparr>ev_order := rev\<rparr>) 0 0 100000 [] \<lparr>TimeStamp = 864000, ec_context = d, ec_balance = \<lambda>_. 1\<rparr> =
    tryElect sample_env 0 0 100000 [] \<lparr>TimeStamp = 864000, ec_context = d, ec_balance = \<lambda>_. 1\<rparr> \<and> 4 = card (candidates Map.empty d)"
proof -
  from sample_ctx obtain d where d: "ctx_ok (ev_kec sample_env) (ev_db sample_env) d" "mint_ok (ev_db sample_env) d"
    "candidates (ev_db sample_env) d = {sample_addr 1, sample_addr 2, sample_addr 3, sample_addr 4}"
    "validators_of (ev_db sample_env) d = Inr [sample_addr 1, sample_addr 2, sample_addr 3]" by metis
  then have "election_ok sample_env g d" for g by (simp add: election_ok_def)
  then show ?thesis
    using tryElect_deterministic [OF sample_env_ok, of 100000 0 "\<lparr>TimeStamp = 864000, ec_context = d, ec_balance = \<lambda>_. 1\<rparr>" rev 0 "[]"] d(3)
    by auto
qed

text \<open>C24.  At a time that is a multiple of \<open>blockInterval\<close> the scheduled validator is the one whose turn it
  is when the validators take turns from the start of the epoch; at other times there is none.\<close>

theorem lookupValidator_round_robin:
  assumes "tries_ok kec db d" and "validators_of db d = Inr vs" "vs \<noteq> []" and "0 \<le> now"
  shows "\<exists>d'. lookupValidator db now d =
    (if now mod blockInterval \<noteq> 0 then Inl ErrInvalidMintBlockTime
     else Inr (vs ! (nat ((now mod epochInterval) div blockInterval) mod length vs)), d') \<and> same_content db d d'"
  using lookupValidator_ok [OF assms] by (auto simp: nat_div_distrib epochInterval_def blockInterval_def)

theorem lookupValidator_round_robin_witness:
  "\<exists>d d'. lookupValidator Map.empty 86440 d = (Inr (sample_addr 2), d')"
proof -
  from sample_ctx obtain d where d: "ctx_ok (ev_kec sample_env) (ev_db sample_env) d"
    "validators_of (ev_db sample_env) d = Inr [sample_addr 1, sample_addr 2, sample_addr 3]" by metis
  then have "tries_ok (ev_kec sample_env) Map.empty d" by (simp add: ctx_ok_def)
  from lookupValidator_round_robin [OF this, of "[sample_addr 1, sample_addr 2, sample_addr 3]" 86440] d(2) show ?thesis
    by (auto simp: blockInterval_def epochInterval_def)
qed

end
