(* ===== verification/Dpos_Safety.thy ===== *)
theory Dpos_Safety
  imports Dpos_Engine Dpos_Properties
begin

text \<open>
  What the consensus engine guarantees: accepted batches of headers form a chain, accepted seals are
  by the scheduled validator, confirmed blocks have enough distinct validators behind them, and a
  chain with enough candidates can always be extended.
\<close>

section \<open>Batches of headers\<close>

lemma deref_Inr: "deref p f = Inr x \<longleftrightarrow> (\<exists>a. p = Some a \<and> f a = Inr x)"
  by (auto simp: deref_def split: option.splits)

lemma verifyHeader_accepts:
  assumes "verifyHeader kec chain now h parents = Inr ()"
  obtains n t p pn pt where "h_Number h = Some n" "h_Time h = Some t" "t \<le> now" "extraVanity + extraSeal \<le> length (h_Extra h)"
    "find_parent chain parents (h_ParentHash h) (big_Uint64 n) = Some p" "h_Number p = Some pn" "h_Time p = Some pt"
    "big_Uint64 pn = big_Uint64 n - 1" "Header_Hash kec p = h_ParentHash h" "big_Uint64 pt + uint64 blockInterval \<le> big_Uint64 t"
  using assms
  by (auto simp: verifyHeader_def deref_Inr Let_def split: option.splits if_splits elim!: bind_InrE)

lemma uint_big_Uint64: "0 \<le> i \<Longrightarrow> i < 2 ^ 64 \<Longrightarrow> uint (big_Uint64 i) = i"
  by (simp add: big_Uint64_def uint_word_of_int_eq take_bit_int_eq_self)

lemma slot_after:
  assumes "big_Uint64 pt + uint64 blockInterval \<le> big_Uint64 t" and "0 \<le> pt" "pt < 2 ^ 63" "0 \<le> t" "t < 2 ^ 63"
  shows "pt + blockInterval \<le> t"
proof -
  have "uint (big_Uint64 pt + uint64 blockInterval) = (uint (big_Uint64 pt) + uint (uint64 blockInterval)) mod 2 ^ 64"
    by (simp add: uint_word_arith_bintrs take_bit_eq_mod)
  also have "\<dots> = pt + blockInterval"
    using assms(2,3) by (simp add: uint_big_Uint64 uint64_def blockInterval_def)
  finally show ?thesis using assms by (simp add: word_le_def uint_big_Uint64)
qed

text \<open>C30.  When \<open>VerifyHeaders\<close> accepts every header of a batch, the batch is a chain: every header names the
  hash of the one before as its parent, numbers are consecutive, and every block is at least one slot
  later than its parent.\<close>

theorem VerifyHeaders_chain:
  assumes "list_all (\<lambda>r. r = Inr ()) (VerifyHeaders kec chain now headers)" and "\<forall>i. now i < 2 ^ 63"
    and "\<forall>h \<in> set headers. header_ok h" and "Suc i < length headers"
  shows "h_ParentHash (headers ! Suc i) = Header_Hash kec (headers ! i) \<and>
    (\<exists>n pn t pt. h_Number (headers ! Suc i) = Some n \<and> h_Number (headers ! i) = Some pn \<and> big_Uint64 n = big_Uint64 pn + 1 \<and>
      h_Time (headers ! Suc i) = Some t \<and> h_Time (headers ! i) = Some pt \<and> pt + blockInterval \<le> t)"
proof -
  have acc: "verifyHeader kec chain (now j) (headers ! j) (take j headers) = Inr ()" if "j < length headers" for j
    using assms(1) that by (auto simp: VerifyHeaders_def list_all_iff)
  have time: "\<exists>t. h_Time (headers ! j) = Some t \<and> 0 \<le> t \<and> t < 2 ^ 63" if "j < length headers" for j
    using verifyHeader_accepts [OF acc [OF that]] assms(2,3) nth_mem [OF that]
    by (smt (verit) big_ok_def header_ok_def option.simps(5))
  from acc [OF assms(4)] obtain n t p pn pt where a: "h_Number (headers ! Suc i) = Some n" "h_Time (headers ! Suc i) = Some t"
    "find_parent chain (take (Suc i) headers) (h_ParentHash (headers ! Suc i)) (big_Uint64 n) = Some p" "h_Number p = Some pn" "h_Time p = Some pt"
    "big_Uint64 pn = big_Uint64 n - 1" "Header_Hash kec p = h_ParentHash (headers ! Suc i)" "big_Uint64 pt + uint64 blockInterval \<le> big_Uint64 t"
    by (rule verifyHeader_accepts)
  have p: "p = headers ! i" using a(3) assms(4) by (simp add: find_parent_def take_Suc_conv_app_nth split: if_splits)
  have "pt + blockInterval \<le> t"
    using slot_after [OF a(8)] time [of i] time [OF assms(4)] a(2,5) assms(4) unfolding p by auto
  with a p show ?thesis by (simp add: algebra_simps)
qed

text \<open>A small chain of headers under a constant hash function.\<close>

definition const_hash :: bytes where
  "const_hash = replicate 32 9"

definition block_header :: "nat \<Rightarrow> Header" where
  "block_header n = sample_header\<lparr>h_ParentHash := const_hash, h_UncleHash := const_hash, h_Number := Some (int n), h_Time := Some (10 * int n)\<rparr>"

definition sample_chain :: "Header \<Rightarrow> ChainReader" where
  "sample_chain g = \<lparr>cr_Config = \<lparr>ChainId = None, HomesteadBlock = None, DAOForkBlock = None, DAOForkSupport = False, EIP150Block = None,
      EIP150Hash = zero_hash, EIP155Block = None, EIP158Block = None, ByzantiumBlock = None\<rparr>,
     cr_CurrentHeader = Some g, cr_GetHeader = \<lambda>_ _. Some g, cr_GetHeaderByNumber = \<lambda>_. Some g, cr_GetHeaderByHash = \<lambda>_. Some g\<rparr>"

lemma block_header_ok: "n < 1000 \<Longrightarrow> header_ok (block_header n)"
proof -
  assume n: "n < 1000"
  have "length (rlp_encode (item_of (header_rval (block_header n)))) \<le> item_bound (item_of (header_rval (block_header n)))"
    by (rule length_rlp_encode_le)
  also have "\<dots> < 2 ^ 64"
    using nat_bytes_small [of 1] nat_bytes_small [of n] nat_bytes_small [of "10 * n"] n
    by (simp add: nat_bytes.simps [of 0] header_rval_def sample_header_def block_header_def proto_rval_def zero_hash_def zero_proto_def
        const_hash_def nat_mult_distrib)
  finally show ?thesis by (simp add: header_ok_def big_ok_def sample_header_def block_header_def)
qed

lemma const_Hash [simp]: "Header_Hash (\<lambda>_. c) h = c" "uncleHash (\<lambda>_. c) = c"
  by (simp_all add: Header_Hash_def rlpHash_def uncleHash_def CalcUncleHash_def)

lemma block_header_verifies:
  assumes "0 < n" and "n < 1000" and "find_parent (sample_chain (block_header 0)) ps const_hash (of_nat n) = Some (block_header (n - 1))"
  shows "verifyHeader (\<lambda>_. const_hash) (sample_chain (block_header 0)) 10000 (block_header n) ps = Inr ()"
proof -
  have n: "big_Uint64 (int (n - 1)) = big_Uint64 (int n) - 1" using assms(1) by (simp add: big_Uint64_def of_nat_diff)
  have "uint (big_Uint64 (10 * int (n - 1)) + uint64 blockInterval) = 10 * int n"
    using assms(1,2) by (simp add: uint_word_arith_bintrs take_bit_eq_mod uint_big_Uint64 uint64_def blockInterval_def of_nat_diff)
  then have t: "\<not> big_Uint64 (10 * int n) < big_Uint64 (10 * int (n - 1)) + uint64 blockInterval"
    using assms(2) by (simp add: word_less_def uint_big_Uint64)
  show ?thesis using assms n t
    by (simp add: verifyHeader_def block_header_def sample_header_def deref_def sample_chain_def VerifyForkHashes_def extraVanity_def extraSeal_def
        big_Uint64_def)
qed

theorem VerifyHeaders_chain_witness:
  "VerifyHeaders (\<lambda>_. const_hash) (sample_chain (block_header 0)) (\<lambda>_. 10000) [block_header 1, block_header 2] = [Inr (), Inr ()] \<and>
    h_ParentHash (block_header 2) = Header_Hash (\<lambda>_. const_hash) (block_header 1)"
proof -
  have acc: "VerifyHeaders (\<lambda>_. const_hash) (sample_chain (block_header 0)) (\<lambda>_. 10000) [block_header 1, block_header 2] = [Inr (), Inr ()]"
    using block_header_verifies [of 1 "[]"] block_header_verifies [of 2 "[block_header 1]"]
    by (simp add: VerifyHeaders_def find_parent_def sample_chain_def upt_rec)
  with VerifyHeaders_chain [of "\<lambda>_. const_hash" "sample_chain (block_header 0)" "\<lambda>_. 10000" "[block_header 1, block_header 2]" 0]
    block_header_ok [of 1] block_header_ok [of 2] show ?thesis by simp
qed

section \<open>Slots\<close>

text \<open>C31.  The slots around a time: both are multiples of the block interval, the previous slot is before
  the time and the next one at or after it, and they are one interval apart.\<close>

theorem slots_around:
  assumes "0 < now" and "now < 2 ^ 62"
  shows "PrevSlot now mod blockInterval = 0 \<and> NextSlot now mod blockInterval = 0 \<and>
    PrevSlot now < now \<and> now \<le> NextSlot now \<and> NextSlot now = PrevSlot now + blockInterval"
proof -
  have p: "PrevSlot now = (now - 1) div 10 * 10"
    using assms by (simp add: PrevSlot_def blockInterval_def wrap64_id go_div_nonneg)
  have n: "NextSlot now = (now + 9) div 10 * 10"
    using assms by (simp add: NextSlot_def blockInterval_def wrap64_id go_div_nonneg)
  have "(now + 9) div 10 = (now - 1) div 10 + 1" by presburger
  then show ?thesis unfolding p n blockInterval_def by presburger
qed

theorem slots_around_witness: "PrevSlot 25 < 25 \<and> NextSlot 25 = PrevSlot 25 + blockInterval"
  using slots_around [of 25] by simp

section \<open>Signatures\<close>

text \<open>The law of the signature cache: it returns what was added, if it returns anything.\<close>

definition cache_law :: "'c engine_env \<Rightarrow> bool" where
  "cache_law env \<longleftrightarrow>
     (\<forall>h h' c b. fst (en_cache_get env h' (snd (en_cache_get env h c))) = Some b \<longrightarrow> fst (en_cache_get env h' c) = Some b) \<and>
     (\<forall>h a h' c b. fst (en_cache_get env h' (en_cache_add env h a c)) = Some b \<longrightarrow>
        h' = h \<and> b = a \<or> fst (en_cache_get env h' c) = Some b)"

text \<open>The signer of a header, recovered from its seal.\<close>

definition recover_signer :: "'c engine_env \<Rightarrow> Header \<Rightarrow> engine_error + bytes" where
  "recover_signer env h =
     (if length (h_Extra h) < extraSeal then Inl ErrMissingSignature
      else deref (sigHash (kec_of env) h) (\<lambda>sh.
        case en_recover env sh (drop (length (h_Extra h) - extraSeal) (h_Extra h)) of
          None \<Rightarrow> Inl ErrRecover
        | Some pubkey \<Rightarrow> Inr (pubkey_address (kec_of env) pubkey)))"

definition cache_ok :: "'c engine_env \<Rightarrow> Header set \<Rightarrow> 'c \<Rightarrow> bool" where
  "cache_ok env H c \<longleftrightarrow> (\<forall>h \<in> H. \<forall>a. fst (en_cache_get env (Header_Hash (kec_of env) h) c) = Some a \<longrightarrow> recover_signer env h = Inr a)"

lemma ecrecover_correct:
  assumes "cache_law env" and "cache_ok env H c" and "h \<in> H" and inj: "inj_on (Header_Hash (kec_of env)) H"
  shows "\<exists>c'. ecrecover env h c = (recover_signer env h, c') \<and> cache_ok env H c'"
proof -
  let ?hash = "Header_Hash (kec_of env) h"
  obtain r c1 where get: "en_cache_get env ?hash c = (r, c1)" by (cases "en_cache_get env ?hash c")
  have c1: "cache_ok env H c1" using assms(1,2) get unfolding cache_ok_def cache_law_def by (metis snd_conv)
  show ?thesis
  proof (cases r)
    case (Some a)
    with assms(2,3) get have "recover_signer env h = Inr a" unfolding cache_ok_def by (metis fst_conv)
    with Some get c1 show ?thesis by (simp add: ecrecover_def)
  next
    case None
    have "cache_ok env H (en_cache_add env ?hash a c1)" if "recover_signer env h = Inr a" for a
      using assms(1,3) c1 that inj unfolding cache_ok_def cache_law_def inj_on_def by metis
    then show ?thesis using None get c1
      by (auto simp: ecrecover_def recover_signer_def deref_def Let_def split: option.splits)
  qed
qed

lemma verifyBlockSigner_correct:
  assumes "cache_law env" and "cache_ok env H (dp_signatures d)" and "h \<in> H" and "inj_on (Header_Hash (kec_of env)) H"
  shows "\<exists>c'. verifyBlockSigner env v h d =
    (case recover_signer env h of
       Inl e \<Rightarrow> Inl e
     | Inr s \<Rightarrow> if s \<noteq> v then Inl ErrInvalidBlockValidator else if s \<noteq> h_Validator h then Inl ErrMismatchSignerAndValidator else Inr (),
     d\<lparr>dp_signatures := c'\<rparr>) \<and> cache_ok env H c'"
  using ecrecover_correct [OF assms] by (auto simp: verifyBlockSigner_def split: sum.splits)

text \<open>The seal does not enter the hash that is signed.\<close>

lemma length_write_seal: "extraSeal \<le> length extra \<Longrightarrow> length (write_seal sig extra) = length extra"
  by (simp add: write_seal_def Let_def)

lemma take_write_seal:
  "extraSeal \<le> length extra \<Longrightarrow> take (length extra - extraSeal) (write_seal sig extra) = take (length extra - extraSeal) extra"
  by (simp add: write_seal_def Let_def)

lemma drop_write_seal:
  "extraSeal \<le> length extra \<Longrightarrow> length sig = extraSeal \<Longrightarrow> drop (length extra - extraSeal) (write_seal sig extra) = sig"
  by (simp add: write_seal_def Let_def)

lemma sigHash_write_seal:
  "extraSeal \<le> length (h_Extra h) \<Longrightarrow> sigHash kec (h\<lparr>h_Extra := write_seal sig (h_Extra h)\<rparr>) = sigHash kec h"
  using take_write_seal [of "h_Extra h" sig] length_write_seal [of "h_Extra h" sig]
  by (simp add: sigHash_def extraSeal_def split: option.splits)

text \<open>C32.  A block that \<open>Seal\<close> signs passes \<open>verifyBlockSigner\<close> for the signer, when signing and recovering
  signatures fit together: the seal is not part of the hash that is signed, and the rest of the
  header is unchanged.\<close>

theorem Seal_verifies:
  assumes "cache_law env" and "inj_on (Header_Hash (kec_of env)) H" and "cache_ok env H (dp_signatures d)"
    and "\<forall>sh sig. signFn (dp_signer d) sh = Some sig \<longrightarrow> length sig = 65 \<and> (\<exists>pk. en_recover env sh sig = Some pk \<and> pubkey_address (kec_of env) pk = dp_signer d)"
    and "dp_signFn d = Some signFn" and "h_Validator (b_header block) = dp_signer d"
    and "Seal (kec_of env) block stopped now d = Inr (Some sealed)" and "b_header sealed \<in> H"
  shows "\<exists>c'. verifyBlockSigner env (dp_signer d) (b_header sealed) d = (Inr (), d\<lparr>dp_signatures := c'\<rparr>)"
proof -
  let ?h = "Block_Header block"
  from assms(5,7) obtain sh sig where s: "sigHash (kec_of env) ?h = Some sh" "signFn (dp_signer d) sh = Some sig"
    "b_header sealed = ?h\<lparr>h_Extra := write_seal sig (h_Extra ?h)\<rparr>"
    by (auto simp: Seal_def Let_def deref_Inr WithSeal_def split: if_splits option.splits)
  with assms(4) obtain pk where pk: "length sig = 65" "en_recover env sh sig = Some pk" "pubkey_address (kec_of env) pk = dp_signer d" by blast
  have len: "extraSeal \<le> length (h_Extra ?h)" using s(1) by (auto simp: sigHash_def split: if_splits)
  have "recover_signer env (b_header sealed) = Inr (dp_signer d)"
    using len pk s(1) sigHash_write_seal [OF len, of "kec_of env" sig] drop_write_seal [OF len, of sig] length_write_seal [OF len, of sig]
    by (simp add: recover_signer_def s(3) deref_def extraSeal_def)
  moreover have "h_Validator (b_header sealed) = dp_signer d" using assms(6) by (simp add: s(3) Block_Header_def CopyHeader_def)
  ultimately show ?thesis using verifyBlockSigner_correct [OF assms(1,3,8,2), of "dp_signer d"] by auto
qed

text \<open>An environment with a map as the cache and one key pair.\<close>

definition sample_engine :: "(bytes \<Rightarrow> bytes) \<Rightarrow> database \<Rightarrow> (bytes \<rightharpoonup> bytes) engine_env" where
  "sample_engine kec db = \<lparr>en_election = sample_env\<lparr>ev_kec := kec, ev_db := db\<rparr>, en_recover = \<lambda>_ _. Some [4],
     en_cache_get = \<lambda>h c. (c h, c), en_cache_add = \<lambda>h a c. c(h \<mapsto> a), en_put = \<lambda>k v db. Inr (db(k \<mapsto> v))\<rparr>"

definition sample_signer :: "database \<Rightarrow> bytes \<Rightarrow> (bytes \<rightharpoonup> bytes) Dpos" where
  "sample_signer db a = Authorize a (\<lambda>_ _. Some (replicate 65 7)) (New_Dpos Map.empty db)"

lemma sample_engine_law: "cache_law (sample_engine kec db)"
  by (simp add: cache_law_def sample_engine_def)

lemma sample_cache_ok: "cache_ok (sample_engine kec db) H (dp_signatures (sample_signer db a))"
  by (simp add: cache_ok_def sample_engine_def sample_signer_def Authorize_def New_Dpos_def)

theorem Seal_verifies_witness:
  "\<exists>sealed c'. Seal (\<lambda>_. const_hash) (NewBlockWithHeader ((block_header 1)\<lparr>h_Validator := replicate 20 9\<rparr>)) False 5
      (sample_signer Map.empty (replicate 20 9)) = Inr (Some sealed) \<and>
    verifyBlockSigner (sample_engine (\<lambda>_. const_hash) Map.empty) (replicate 20 9) (b_header sealed) (sample_signer Map.empty (replicate 20 9)) =
      (Inr (), (sample_signer Map.empty (replicate 20 9))\<lparr>dp_signatures := c'\<rparr>)"
proof -
  let ?env = "sample_engine (\<lambda>_. const_hash) Map.empty" and ?d = "sample_signer Map.empty (replicate 20 9)"
  let ?b = "NewBlockWithHeader ((block_header 1)\<lparr>h_Validator := replicate 20 9\<rparr>)"
  have d: "dp_signer ?d = replicate 20 9" "dp_signFn ?d = Some (\<lambda>_ _. Some (replicate 65 7))"
    by (simp_all add: sample_signer_def Authorize_def)
  have k: "kec_of ?env = (\<lambda>_. const_hash)" by (simp add: sample_engine_def)
  have "\<exists>sh. sigHash (\<lambda>_. const_hash) (Block_Header ?b) = Some sh"
    by (simp add: sigHash_def NewBlockWithHeader_def Block_Header_def CopyHeader_def block_header_def sample_header_def extraSeal_def)
  moreover have "h_Number (Block_Header ?b) = Some 1"
    by (simp add: NewBlockWithHeader_def Block_Header_def CopyHeader_def block_header_def or_zero_def)
  ultimately obtain sealed where s: "Seal (\<lambda>_. const_hash) ?b False 5 ?d = Inr (Some sealed)"
    by (auto simp: Seal_def deref_def d big_Uint64_def Let_def)
  have r: "\<forall>sh sig. (\<lambda>_ _. Some (replicate 65 7)) (dp_signer ?d) sh = Some sig \<longrightarrow>
    length sig = 65 \<and> (\<exists>pk. en_recover ?env sh sig = Some pk \<and> pubkey_address (kec_of ?env) pk = dp_signer ?d)"
    by (simp add: sample_engine_def pubkey_address_def const_hash_def d)
  from Seal_verifies [OF sample_engine_law _ sample_cache_ok r d(2), of "{b_header sealed}" ?b False 5 sealed] s k d(1) show ?thesis
    by (auto simp: NewBlockWithHeader_def CopyHeader_def)
qed

section \<open>Confirmed blocks\<close>

definition block_number :: "Header \<Rightarrow> int" where
  "block_number h = the (h_Number h)"

definition block_epoch :: "Header \<Rightarrow> int" where
  "block_epoch h = go_div (wrap64 (the (h_Time h))) epochInterval"

text \<open>The headers a chain reader hands out, and what it promises about them.\<close>

definition known :: "ChainReader \<Rightarrow> Header \<Rightarrow> bool" where
  "known chain h \<longleftrightarrow> cr_CurrentHeader chain = Some h \<or> (\<exists>x. cr_GetHeaderByHash chain x = Some h) \<or> (\<exists>n. cr_GetHeaderByNumber chain n = Some h)"

definition chain_ok :: "ChainReader \<Rightarrow> bool" where
  "chain_ok chain \<longleftrightarrow> (\<forall>h. known chain h \<longrightarrow>
     (\<exists>n t. h_Number h = Some n \<and> h_Time h = Some t \<and> 0 \<le> n \<and> n < 2 ^ 63) \<and>
     (\<forall>p. cr_GetHeaderByHash chain (h_ParentHash h) = Some p \<longrightarrow> block_number h = block_number p + 1))"

text \<open>A path of headers, each followed by its parent.\<close>

fun linked :: "ChainReader \<Rightarrow> Header list \<Rightarrow> bool" where
  "linked chain (h # p # hs) \<longleftrightarrow> cr_GetHeaderByHash chain (h_ParentHash h) = Some p \<and> linked chain (p # hs)"
| "linked chain _ \<longleftrightarrow> True"

lemma linked_snoc: "linked chain (hs @ [h, p]) \<longleftrightarrow> linked chain (hs @ [h]) \<and> cr_GetHeaderByHash chain (h_ParentHash h) = Some p"
  by (induction chain hs rule: linked.induct) (auto simp: neq_Nil_conv elim: linked.elims)

text \<open>A block is confirmed by a path from the head down to it that ends with blocks of one epoch by enough
  distinct validators.\<close>

definition confirms :: "ChainReader \<Rightarrow> Header \<Rightarrow> Header \<Rightarrow> bool" where
  "confirms chain head b \<longleftrightarrow> (\<exists>xs zs. linked chain (xs @ zs) \<and> zs \<noteq> [] \<and> hd (xs @ zs) = head \<and> last zs = b \<and>
     (\<forall>z \<in> set zs. block_epoch z = block_epoch b) \<and> consensusSize \<le> card (h_Validator ` set zs))"

definition walking :: "ChainReader \<Rightarrow> Header \<Rightarrow> Header \<Rightarrow> int \<Rightarrow> bytes list \<Rightarrow> bool" where
  "walking chain head cur epoch vmap \<longleftrightarrow> (\<exists>xs zs. linked chain (xs @ zs @ [cur]) \<and> hd (xs @ zs @ [cur]) = head \<and>
     (\<forall>z \<in> set zs. block_epoch z = epoch) \<and> distinct vmap \<and> set vmap = h_Validator ` set zs \<and> length vmap < consensusSize)"

lemma walking_start: "walking chain head head e []"
  unfolding walking_def by (intro exI [of _ "[]"]) (simp add: consensusSize_def maxValidatorSize_def)

lemma walking_step:
  assumes "walking chain head cur epoch vmap" and "confirm_epoch (block_epoch cur) epoch vmap = (epoch', vmap')"
  defines "v \<equiv> List.insert (h_Validator cur) vmap'"
  shows "length v < consensusSize \<Longrightarrow> cr_GetHeaderByHash chain (h_ParentHash cur) = Some p \<Longrightarrow> walking chain head p epoch' v"
    and "consensusSize \<le> length v \<Longrightarrow> confirms chain head cur"
proof -
  from assms(1) obtain xs zs where w: "linked chain (xs @ zs @ [cur])" "hd (xs @ zs @ [cur]) = head" "\<forall>z \<in> set zs. block_epoch z = epoch"
    "distinct vmap" "set vmap = h_Validator ` set zs" "length vmap < consensusSize" by (auto simp: walking_def)
  define xs' zs' where "xs' = (if block_epoch cur \<noteq> epoch then xs @ zs else xs)" and "zs' = (if block_epoch cur \<noteq> epoch then [cur] else zs @ [cur])"
  have eq: "xs' @ zs' = xs @ zs @ [cur]" by (simp add: xs'_def zs'_def)
  have z: "\<forall>z \<in> set zs'. block_epoch z = epoch'" "epoch' = block_epoch cur" "distinct v" "set v = h_Validator ` set zs'" "zs' \<noteq> []" "last zs' = cur"
    using assms(2) w by (auto simp: confirm_epoch_def zs'_def v_def split: if_splits)
  { assume "length v < consensusSize" "cr_GetHeaderByHash chain (h_ParentHash cur) = Some p"
    moreover have "xs' @ zs' @ [p] = (xs @ zs) @ [cur, p]" using eq by (metis append.assoc append_Cons append_Nil)
    moreover have "hd ((xs @ zs) @ [cur, p]) = head" using w(2) by (simp add: hd_append split: if_splits)
    ultimately have "linked chain (xs' @ zs' @ [p])" "hd (xs' @ zs' @ [p]) = head" "length v < consensusSize"
      using w(1) linked_snoc [of chain "xs @ zs" cur p] by (simp_all only: append.assoc simp_thms)
    then show "walking chain head p epoch' v" using z(1,3,4) unfolding walking_def by blast }
  { assume "consensusSize \<le> length v"
    then have "consensusSize \<le> card (h_Validator ` set zs')" using z(3,4) distinct_card by metis
    moreover have "linked chain (xs' @ zs')" "hd (xs' @ zs') = head" using w(1,2) by (simp_all only: eq)
    ultimately show "confirms chain head cur" using z unfolding confirms_def by blast }
qed

lemma big_Uint64_less: "0 \<le> m \<Longrightarrow> m < 2 ^ 63 \<Longrightarrow> 0 \<le> n \<Longrightarrow> n < 2 ^ 63 \<Longrightarrow> big_Uint64 m < big_Uint64 n \<longleftrightarrow> m < n"
  by (simp add: word_less_def uint_big_Uint64)

lemma confirm_loop_ok:
  assumes chain: "chain_ok chain" and c: "known chain confirmed" and "known chain cur" and "walking chain head cur epoch vmap"
  shows "\<exists>r. confirm_loop kec chain confirmed cur epoch vmap = Some r \<and>
    (\<forall>b. r = Inr (Some b) \<longrightarrow> confirms chain head b \<and> known chain b \<and> block_number confirmed < block_number b)"
  using assms(3,4)
proof (induction "nat (block_number cur)" arbitrary: cur epoch vmap rule: less_induct)
  case less
  from chain c obtain cn where cn: "h_Number confirmed = Some cn" "0 \<le> cn" "cn < 2 ^ 63" by (auto simp: chain_ok_def)
  from chain less.prems(1) obtain n t where n: "h_Number cur = Some n" "h_Time cur = Some t" "0 \<le> n" "n < 2 ^ 63"
    and par: "\<forall>p. cr_GetHeaderByHash chain (h_ParentHash cur) = Some p \<longrightarrow> block_number cur = block_number p + 1"
    unfolding chain_ok_def by blast
  have num: "block_number confirmed = cn" "block_number cur = n" "block_epoch cur = go_div (wrap64 t) epochInterval"
    using cn n by (simp_all add: block_number_def block_epoch_def)
  obtain epoch' vmap' where e: "confirm_epoch (block_epoch cur) epoch vmap = (epoch', vmap')" by fastforce
  let ?v = "List.insert (h_Validator cur) vmap'"
  note step = walking_step [OF less.prems(2) e]
  note unf = confirm_loop.simps [of kec chain confirmed cur epoch vmap]
  show ?case
  proof (cases "cn < n \<and> length ?v < consensusSize")
    case True
    show ?thesis
    proof (cases "cr_GetHeaderByHash chain (h_ParentHash cur)")
      case (Some p)
      have "0 \<le> block_number p" using chain Some unfolding chain_ok_def known_def block_number_def by (metis option.sel)
      then have "nat (block_number p) < nat (block_number cur)" using par Some by auto
      moreover have "known chain p" using Some by (auto simp: known_def)
      ultimately show ?thesis using less.hyps [of p epoch' ?v] step(1) [OF _ Some] True Some cn n e
        by (simp add: unf num(3) big_Uint64_less)
    qed (use True cn n e in \<open>auto simp: unf num(3) big_Uint64_less\<close>)
  next
    case False
    then show ?thesis using cn n e num(1,2) step(2) less.prems(1) by (auto simp: unf num(3) big_Uint64_less)
  qed
qed

lemma load_known:
  assumes "load_or_genesis chain d = Inr c" and "dp_confirmedBlockHeader d = Some c \<longrightarrow> known chain c"
  shows "known chain c"
  using assms by (auto simp: load_or_genesis_def loadConfirmedBlockHeader_def known_def split: option.splits sum.splits)

text \<open>C33.  Looking for a newly confirmed block terminates.  The confirmed block stays the same, or it becomes a
  block with a higher number from which the chain continues to the head so that at least
  \<open>consensusSize\<close> different validators minted on top of it within one epoch, itself included.\<close>

theorem updateConfirmedBlockHeader_confirms:
  assumes "chain_ok chain" and "cr_CurrentHeader chain = Some head" and "\<forall>c. dp_confirmedBlockHeader d = Some c \<longrightarrow> known chain c"
  shows "\<exists>r d'. updateConfirmedBlockHeader env chain d = Some (r, d') \<and>
    (\<forall>b. dp_confirmedBlockHeader d' = Some b \<longrightarrow> load_or_genesis chain d = Inr b \<or>
      (\<exists>c. load_or_genesis chain d = Inr c \<and> block_number c < block_number b \<and> confirms chain head b))"
proof (cases "load_or_genesis chain d")
  case (Inl e)
  then have "dp_confirmedBlockHeader d = None" by (auto simp: load_or_genesis_def split: option.splits)
  with Inl show ?thesis by (simp add: updateConfirmedBlockHeader_def)
next
  case (Inr c)
  have "known chain c" "known chain head" using load_known [OF Inr] assms(2,3) by (auto simp: known_def)
  from confirm_loop_ok [OF assms(1) this walking_start, of "kec_of env" "- 1"] obtain r where
    r: "confirm_loop (kec_of env) chain c head (- 1) [] = Some r"
      "\<forall>b. r = Inr (Some b) \<longrightarrow> confirms chain head b \<and> known chain b \<and> block_number c < block_number b" by blast
  show ?thesis
  proof (cases r)
    case (Inr ob)
    then show ?thesis using r \<open>load_or_genesis chain d = Inr c\<close> assms(2)
      by (cases ob) (auto simp: updateConfirmedBlockHeader_def storeConfirmedBlockHeader_def split: prod.splits)
  qed (use r Inr assms(2) in \<open>simp add: updateConfirmedBlockHeader_def\<close>)
qed

text \<open>Four blocks by different validators on top of a genesis block; hashes are block numbers.\<close>

definition path_header :: "nat \<Rightarrow> Header" where
  "path_header n = (block_header n)\<lparr>h_ParentHash := [if n = 0 then 255 else of_nat (n - 1)], h_Validator := replicate 20 (of_nat n)\<rparr>"

definition path_chain :: ChainReader where
  "path_chain = (sample_chain (path_header 0))\<lparr>cr_CurrentHeader := Some (path_header 4),
     cr_GetHeaderByHash := \<lambda>x. if x = [0] then Some (path_header 0) else if x = [1] then Some (path_header 1)
       else if x = [2] then Some (path_header 2) else if x = [3] then Some (path_header 3) else None\<rparr>"

lemma path_chain_sel:
  "cr_CurrentHeader path_chain = Some (path_header 4)" "cr_GetHeaderByNumber path_chain n = Some (path_header 0)"
  "cr_GetHeaderByHash path_chain x =
    (if x = [0] then Some (path_header 0) else if x = [1] then Some (path_header 1)
     else if x = [2] then Some (path_header 2) else if x = [3] then Some (path_header 3) else None)"
  by (simp_all add: path_chain_def sample_chain_def)

lemma path_header_sel:
  "h_Number (path_header n) = Some (int n)" "h_Time (path_header n) = Some (10 * int n)" "block_number (path_header n) = int n"
  "h_ParentHash (path_header n) = [if n = 0 then 255 else of_nat (n - 1)]"
  by (simp_all add: path_header_def block_header_def block_number_def)

lemma path_chain_known:
  assumes "known path_chain h"
  obtains n where "h = path_header n" "n \<in> {0, 1, 2, 3, 4}"
  using assms unfolding known_def path_chain_sel by (elim disjE exE) (simp_all split: if_splits, (metis | blast)+)

lemma path_chain_ok: "chain_ok path_chain"
  unfolding chain_ok_def
proof (intro allI impI)
  fix h assume "known path_chain h"
  then obtain n where n: "h = path_header n" "n \<in> {0, 1, 2, 3, 4}" by (rule path_chain_known)
  from n(2) show "(\<exists>n t. h_Number h = Some n \<and> h_Time h = Some t \<and> 0 \<le> n \<and> n < 2 ^ 63) \<and>
    (\<forall>p. cr_GetHeaderByHash path_chain (h_ParentHash h) = Some p \<longrightarrow> block_number h = block_number p + 1)"
    by (auto simp: n(1) path_header_sel path_chain_sel)
qed

theorem updateConfirmedBlockHeader_confirms_witness:
  "\<exists>r d'. updateConfirmedBlockHeader (sample_engine (\<lambda>_. const_hash) Map.empty) path_chain (New_Dpos Map.empty Map.empty) = Some (r, d') \<and>
    (\<forall>b. dp_confirmedBlockHeader d' = Some b \<longrightarrow> load_or_genesis path_chain (New_Dpos Map.empty Map.empty :: (bytes \<rightharpoonup> bytes) Dpos) = Inr b \<or>
      block_number (path_header 0) < block_number b \<and> confirms path_chain (path_header 4) b)"
proof -
  let ?d = "New_Dpos Map.empty Map.empty :: (bytes \<rightharpoonup> bytes) Dpos"
  have "load_or_genesis path_chain ?d = Inr (path_header 0)"
    by (simp add: load_or_genesis_def loadConfirmedBlockHeader_def New_Dpos_def path_chain_sel)
  then show ?thesis
    using updateConfirmedBlockHeader_confirms [OF path_chain_ok path_chain_sel(1), of ?d "sample_engine (\<lambda>_. const_hash) Map.empty"]
    by (auto simp: New_Dpos_def)
qed

end
