(* ===== verification/Dpos_Liveness.thy ===== *)
theory Dpos_Liveness
  imports Dpos_Safety
begin

text \<open>
  Extending the chain: counting minted blocks (\<open>updateMintCnt\<close>) and the context that \<open>Finalize\<close> leaves
  behind (\<open>src/consensus/dpos/dpos.go\<close>).
\<close>

section \<open>Counting minted blocks\<close>

lemma not_less_prefix: "\<not> bytes_less (s @ x) s"
  by (induction s) auto

lemma next_mint_count_ok:
  assumes tr: "tries_ok kec db ctx" and kec: "kec_ok kec" and mint: "mint_ok db ctx"
  shows "\<exists>ctx'. next_mint_count kec db epoch v ctx =
      Some (Inr (case trie_map db (mintCntTrie ctx) (BigEndian_PutUint64 (uint64 epoch) @ v) of None \<Rightarrow> 1 | Some _ \<Rightarrow> wrap64 (minted db ctx epoch v + 1)), ctx') \<and>
    tries_ok kec db ctx' \<and> same_content db ctx ctx'"
proof -
  let ?e = "BigEndian_PutUint64 (uint64 epoch)" and ?t = "mintCntTrie ctx"
  have p: "ptrie kec db mintCntPrefix ?t" using tr by (simp add: tries_ok_def)
  then have tok: "trie_ok kec db ?t" by (simp add: ptrie_def)
  from NodeIterator_okE [OF tok kec full_key_Nil [OF p prefixes_Nil(5), of ?e]] obtain t x L where
    t: "NodeIterator kec db ?t ?e = Some (Inr x, t)" "trie_ok kec db t" "trie_map db t = trie_map db ?t" "tr_prefix t = tr_prefix ?t" "yields db x L"
      "enumerates db ?t (\<lambda>k. \<not> bytes_less (hexof ?t k) (keybytesToNibbles (full_key ?t ?e))) L" .
  let ?c = "set_mintCnt ctx t"
  note c = replace_mintCnt [OF tr t(2-4)]
  have "yields db (it_nodeIt (NewIterator x)) L" using t(5) by (simp add: NewIterator_def)
  from Iterator_Next_yields [OF this, of kec t] obtain it where it: "Iterator_Next kec db t (NewIterator x) = Some (Inr (L \<noteq> []), t, it)" by blast
  have "full_key ?t (?e @ v) = full_key ?t ?e @ v" by (simp add: full_key_def split: option.splits)
  then have "hexof ?t (?e @ v) = keybytesToNibbles (full_key ?t ?e) @ keybytesToNibbles v @ [16]"
    by (simp add: keybytesToHex_def keybytesToNibbles_append)
  then have absent: "trie_map db ?t (?e @ v) = None" if "L = []"
    using t(6) that not_less_prefix unfolding enumerates_def by (cases "trie_map db ?t (?e @ v)") fastforce+
  from c(1) have "ptrie kec db mintCntPrefix (mintCntTrie ?c)" by (simp add: tries_ok_def)
  from Get_ptrie [OF this, of "?e @ v"] obtain t2 where t2: "Get db (mintCntTrie ?c) (?e @ v) = (Inr (trie_map db ?t (?e @ v)), t2)"
    "ptrie kec db mintCntPrefix t2" "trie_map db t2 = trie_map db ?t" using t(3) by (auto simp: set_mintCnt_def)
  let ?c2 = "?c\<lparr>mintCntTrie := t2\<rparr>"
  have c2: "tries_ok kec db ?c2" "same_content db ctx ?c2" using c t2(2,3) by (simp_all add: tries_ok_def same_content_def set_mintCnt_def)
  have "length b = 8" if "trie_map db ?t (?e @ v) = Some b" for b using mint that by (auto simp: mint_ok_def)
  then have "next_mint_count kec db epoch v ctx =
      Some (Inr (case trie_map db ?t (?e @ v) of None \<Rightarrow> 1 | Some _ \<Rightarrow> wrap64 (minted db ctx epoch v + 1)), if L = [] then ?c else ?c2)"
    using t(1) it t2(1) absent
    by (auto simp: next_mint_count_def Let_def on_mintCnt_def minted_def BigEndian_Uint64_def split: option.splits)
  then show ?thesis using c c2 by (cases "L = []") auto
qed

lemma updateMintCnt_ok:
  assumes ok: "ctx_ok kec db ctx" and kec: "kec_ok kec" and mint: "mint_ok db ctx"
    and e_def: "e = go_div pt epochInterval" and e'_def: "e' = go_div t epochInterval"
  shows "\<exists>ctx' cnt. updateMintCnt kec db pt t v ctx = Some (Inr (), ctx') \<and> ctx_ok kec db ctx' \<and> mint_ok db ctx' \<and>
    candidates db ctx' = candidates db ctx \<and> votes db ctx' = votes db ctx \<and> validators_of db ctx' = validators_of db ctx \<and>
    cnt = (if e = e' \<and> trie_map db (mintCntTrie ctx) (BigEndian_PutUint64 (uint64 e') @ v) \<noteq> None then wrap64 (minted db ctx e' v + 1) else 1) \<and>
    trie_map db (mintCntTrie ctx') = (trie_map db (mintCntTrie ctx))(BigEndian_PutUint64 (uint64 e') @ v \<mapsto> BigEndian_PutUint64 (uint64 cnt))"
proof -
  let ?k = "BigEndian_PutUint64 (uint64 e') @ v"
  let ?cnt = "if e = e' \<and> trie_map db (mintCntTrie ctx) ?k \<noteq> None then wrap64 (minted db ctx e' v + 1) else 1"
  have tr: "tries_ok kec db ctx" using ok by (simp add: ctx_ok_def)
  have "\<exists>c. (if e = e' then next_mint_count kec db e v ctx else Some (Inr 1, ctx)) = Some (Inr ?cnt, c) \<and> tries_ok kec db c \<and> same_content db ctx c"
    using next_mint_count_ok [OF tr kec mint, of e v] tr by (cases "e = e'") (auto split: option.splits)
  then obtain c where c: "(if e = e' then next_mint_count kec db e v ctx else Some (Inr 1, ctx)) = Some (Inr ?cnt, c)" "tries_ok kec db c"
    "same_content db ctx c" by blast
  have "ptrie kec db mintCntPrefix (mintCntTrie c)" using c(2) by (simp add: tries_ok_def)
  from put_ptrie [OF this, of "BigEndian_PutUint64 (uint64 ?cnt)" ?k] obtain t' where
    t': "TryUpdate db (mintCntTrie c) ?k (BigEndian_PutUint64 (uint64 ?cnt)) = (Inr (), t')" "ptrie kec db mintCntPrefix t'"
      "trie_map db t' = (trie_map db (mintCntTrie c))(?k \<mapsto> BigEndian_PutUint64 (uint64 ?cnt))"
    using length_PutUint64 by (metis length_0_conv zero_neq_numeral)
  let ?c' = "c\<lparr>mintCntTrie := t'\<rparr>"
  have m: "trie_map db (mintCntTrie ?c') = (trie_map db (mintCntTrie ctx))(?k \<mapsto> BigEndian_PutUint64 (uint64 ?cnt))"
    using t'(3) c(3) by (simp add: same_content_def)
  have "updateMintCnt kec db pt t v ctx = Some (Inr (), ?c')"
    unfolding updateMintCnt_def Let_def e_def [symmetric] e'_def [symmetric] c(1) option.case prod.case sum.case on_mintCnt_def t'(1) by simp
  moreover have "ctx_ok kec db ?c'" "candidates db ?c' = candidates db ctx" "votes db ?c' = votes db ctx" "validators_of db ?c' = validators_of db ctx"
    using ok c(2,3) t'(2) by (simp_all add: ctx_ok_def tries_ok_def same_content_def candidates_def votes_def validators_of_def)
  moreover have "mint_ok db ?c'" using mint unfolding mint_ok_def m by (auto split: if_splits)
  ultimately show ?thesis using m by blast
qed

text \<open>C34.  Minting a block raises the count of its validator in the epoch of the block by one, from zero when the
  block opens the epoch, and changes no other count, no candidate, no vote and no validator.\<close>

theorem updateMintCnt_counts:
  assumes "ctx_ok kec db ctx" and "kec_ok kec" and "mint_ok db ctx"
    and "minted db ctx (go_div t epochInterval) v < 2 ^ 62" and "- 1 \<le> minted db ctx (go_div t epochInterval) v"
  shows "\<exists>ctx'. updateMintCnt kec db pt t v ctx = Some (Inr (), ctx') \<and>
    minted db ctx' (go_div t epochInterval) v =
      (if go_div pt epochInterval = go_div t epochInterval then minted db ctx (go_div t epochInterval) v else 0) + 1 \<and>
    (\<forall>k. k \<noteq> BigEndian_PutUint64 (uint64 (go_div t epochInterval)) @ v \<longrightarrow> trie_map db (mintCntTrie ctx') k = trie_map db (mintCntTrie ctx) k) \<and>
    register db ctx' = register db ctx \<and> validators_of db ctx' = validators_of db ctx"
proof -
  let ?e = "go_div t epochInterval" and ?same = "go_div pt epochInterval = go_div t epochInterval"
  let ?k = "BigEndian_PutUint64 (uint64 ?e) @ v"
  let ?cnt = "if ?same \<and> trie_map db (mintCntTrie ctx) ?k \<noteq> None then wrap64 (minted db ctx ?e v + 1) else 1"
  from updateMintCnt_ok [OF assms(1-3) refl refl, of pt t v] obtain ctx' where c: "updateMintCnt kec db pt t v ctx = Some (Inr (), ctx')"
    "candidates db ctx' = candidates db ctx" "votes db ctx' = votes db ctx" "validators_of db ctx' = validators_of db ctx"
    "trie_map db (mintCntTrie ctx') = (trie_map db (mintCntTrie ctx))(?k \<mapsto> BigEndian_PutUint64 (uint64 ?cnt))" by blast
  have "minted db ctx ?e v = 0" if "trie_map db (mintCntTrie ctx) ?k = None" using that by (simp add: minted_def)
  then have cnt: "?cnt = (if ?same then minted db ctx ?e v else 0) + 1" using assms(4,5) by (simp add: wrap64_id)
  have "BigEndian_Uint64 (BigEndian_PutUint64 w) = Some (word_of_nat (be_nat (BigEndian_PutUint64 w)))" for w by (simp add: BigEndian_Uint64_def)
  then have "word_of_nat (be_nat (BigEndian_PutUint64 w)) = w" for w by (metis Uint64_PutUint64 option.inject)
  then have "minted db ctx' ?e v = int64 (uint64 ?cnt)" unfolding minted_def c(5) by (simp only: fun_upd_same option.case)
  also have "\<dots> = wrap64 ?cnt" by (simp only: int64_def uint64_def wrap64_def)
  also have "\<dots> = (if ?same then minted db ctx ?e v else 0) + 1" unfolding cnt using assms(4,5) by (simp add: wrap64_id)
  finally show ?thesis using c by (auto simp: register_def)
qed

theorem updateMintCnt_counts_witness:
  "\<exists>d d'. updateMintCnt (ev_kec sample_env) Map.empty 86400 86410 (sample_addr 1) d = Some (Inr (), d') \<and> minted Map.empty d' 1 (sample_addr 1) = 1"
proof -
  from new_context_exists obtain d where d: "NewDposContext (Some Map.empty) = Inr d" by blast
  have e: "go_div 86410 epochInterval = 1" "go_div 86400 epochInterval = 1" by (simp_all add: go_div_def epochInterval_def)
  have "trie_map Map.empty (mintCntTrie d) = Map.empty"
    using d by (auto simp: NewDposContext_def new_trie_defs new_prefix_trie(2) elim!: bind_InrE)
  then have m: "minted Map.empty d 1 (sample_addr 1) = 0" by (simp add: minted_def)
  from updateMintCnt_counts [OF new_context(1) [OF d] sample_kec new_context(3) [OF d], of Map.empty 86410 "sample_addr 1" 86400] show ?thesis
    unfolding e m by auto
qed

section \<open>Finalizing\<close>

lemma Hash_ptrie:
  assumes "ptrie kec db p t" and "kec_ok kec"
  obtains h t' where "Hash kec t = (Inr h, t')" "ptrie kec db p t'" "trie_map db t' = trie_map db t"
  using Hash_okE [of kec db t] assms unfolding ptrie_def by metis

lemma ToProto_ok:
  assumes tr: "tries_ok kec db d" and kec: "kec_ok kec"
  shows "\<exists>p d'. ToProto kec d = (Inr p, d') \<and> tries_ok kec db d' \<and> same_content db d d'"
proof -
  from tr have "ptrie kec db epochPrefix (epochTrie d)" "ptrie kec db delegatePrefix (delegateTrie d)" "ptrie kec db candidatePrefix (candidateTrie d)"
    "ptrie kec db votePrefix (voteTrie d)" "ptrie kec db mintCntPrefix (mintCntTrie d)" by (simp_all add: tries_ok_def)
  note p = this
  from Hash_ptrie [OF p(1) kec] obtain h1 t1 where 1: "Hash kec (epochTrie d) = (Inr h1, t1)" "ptrie kec db epochPrefix t1" "trie_map db t1 = trie_map db (epochTrie d)" .
  from Hash_ptrie [OF p(2) kec] obtain h2 t2 where 2: "Hash kec (delegateTrie d) = (Inr h2, t2)" "ptrie kec db delegatePrefix t2" "trie_map db t2 = trie_map db (delegateTrie d)" .
  from Hash_ptrie [OF p(3) kec] obtain h3 t3 where 3: "Hash kec (candidateTrie d) = (Inr h3, t3)" "ptrie kec db candidatePrefix t3" "trie_map db t3 = trie_map db (candidateTrie d)" .
  from Hash_ptrie [OF p(4) kec] obtain h4 t4 where 4: "Hash kec (voteTrie d) = (Inr h4, t4)" "ptrie kec db votePrefix t4" "trie_map db t4 = trie_map db (voteTrie d)" .
  from Hash_ptrie [OF p(5) kec] obtain h5 t5 where 5: "Hash kec (mintCntTrie d) = (Inr h5, t5)" "ptrie kec db mintCntPrefix t5" "trie_map db t5 = trie_map db (mintCntTrie d)" .
  let ?d = "d\<lparr>epochTrie := t1, delegateTrie := t2, candidateTrie := t3, voteTrie := t4, mintCntTrie := t5\<rparr>"
  have "\<exists>p. ToProto kec d = (Inr p, ?d)"
    using 1(1) 2(1) 3(1) 4(1) 5(1) by (simp add: ToProto_def on_epoch_def on_delegate_def on_candidate_def on_vote_def on_mintCnt_def)
  moreover have "tries_ok kec db ?d" "same_content db d ?d" using 1 2 3 4 5 by (simp_all add: tries_ok_def same_content_def)
  ultimately show ?thesis by blast
qed

lemma election_ok_elected:
  assumes "env_ok ev" and "go_div pt epochInterval < go_div t epochInterval" and "election_ok ev g d'" and "validators_of (ev_db ev) d' = Inr vs"
    and "elected ev bal d' vs"
  shows "election_ok ev g' d'"
proof -
  have "vs \<noteq> []" using assms(3,5) by (auto simp: elected_def election_ok_def)
  with assms(3,4) show ?thesis by (auto simp: election_ok_def)
qed

text \<open>The invariant that a block hands to the next one: \<open>t\<close> is the time of the block.\<close>

definition live :: "election_env \<Rightarrow> int \<Rightarrow> int \<Rightarrow> DposContext \<Rightarrow> bool" where
  "live ev genesisTime t d \<longleftrightarrow> election_ok ev (go_div t epochInterval = go_div genesisTime epochInterval) d"

lemma finalize_context_ok:
  assumes ev: "env_ok (en_election env)" and live: "live (en_election env) genesisTime pt ctx"
    and order: "go_div genesisTime epochInterval \<le> go_div pt epochInterval" "go_div pt epochInterval \<le> go_div t epochInterval"
  shows "\<exists>p ctx'. finalize_context env bal tofb genesisTime pt t h v ctx = Some (Inr p, ctx') \<and> live (en_election env) genesisTime t ctx'"
proof -
  let ?ev = "en_election env" and ?db = "ev_db (en_election env)" and ?kec = "ev_kec (en_election env)"
  let ?ec = "\<lparr>TimeStamp = t, ec_context = ctx, ec_balance = bal\<rparr>"
  let ?g = "go_div pt epochInterval = go_div genesisTime epochInterval" and ?g' = "go_div t epochInterval = go_div genesisTime epochInterval"
  have kec: "kec_ok ?kec" using ev by (simp add: env_ok_def)
  from tryElect_ok [OF ev refl, of pt genesisTime ?ec tofb h, unfolded EpochContext.select_convs, OF live [unfolded live_def]] obtain d1 where
    d1: "tryElect ?ev tofb genesisTime pt h ?ec = Some (Inr (), d1)" "election_ok ?ev ?g d1"
      "if go_div pt epochInterval < go_div t epochInterval then \<exists>vs. validators_of ?db d1 = Inr vs \<and> elected ?ev bal d1 vs else same_content ?db ctx d1"
    by blast
  have el: "election_ok ?ev ?g' d1"
  proof (cases "go_div pt epochInterval < go_div t epochInterval")
    case True
    with d1(2,3) election_ok_elected [OF ev True] show ?thesis by metis
  next
    case False
    with order have "?g = ?g'" by simp
    with d1(2) show ?thesis by simp
  qed
  then have ok: "ctx_ok ?kec ?db d1" "mint_ok ?db d1" by (simp_all add: election_ok_def)
  from updateMintCnt_ok [OF ok(1) kec ok(2) refl refl, of pt t v] obtain d2 where d2: "updateMintCnt ?kec ?db pt t v d1 = Some (Inr (), d2)"
    "ctx_ok ?kec ?db d2" "mint_ok ?db d2" "candidates ?db d2 = candidates ?db d1" "validators_of ?db d2 = validators_of ?db d1" by blast
  have el2: "election_ok ?ev ?g' d2" using el d2 by (simp add: election_ok_def)
  have "tries_ok ?kec ?db d2" using d2(2) by (simp add: ctx_ok_def)
  from ToProto_ok [OF this kec] obtain p d3 where d3: "ToProto ?kec d2 = (Inr p, d3)" "tries_ok ?kec ?db d3" "same_content ?db d2 d3" by blast
  have "election_ok ?ev ?g' d3" using election_ok_same [OF el2 d3(2,3)] .
  then show ?thesis using d1(1) d2(1) d3(1) by (simp add: finalize_context_def live_def)
qed

text \<open>C35.  A chain with at least \<open>safeSize\<close> candidates can always be extended: whatever the time of the next
  block and its validator, the election, the count of minted blocks and the new roots are computed
  without an error, and the resulting context satisfies the same condition for the block after it.\<close>

theorem finalize_context_live:
  assumes "env_ok (en_election env)" and "live (en_election env) genesisTime pt ctx"
    and "0 \<le> genesisTime" "genesisTime \<le> pt" "pt \<le> t"
  shows "\<exists>p ctx'. finalize_context env bal tofb genesisTime pt t h v ctx = Some (Inr p, ctx') \<and> live (en_election env) genesisTime t ctx'"
proof (rule finalize_context_ok [OF assms(1,2)])
  show "go_div genesisTime epochInterval \<le> go_div pt epochInterval" "go_div pt epochInterval \<le> go_div t epochInterval"
    using assms(3-5) by (simp_all add: go_div_nonneg epochInterval_def zdiv_mono1)
qed

theorem finalize_context_live_witness:
  "\<exists>d p d'. finalize_context (sample_engine (ev_kec sample_env) Map.empty) (\<lambda>_. 1) 0 0 100000 864000 [] (sample_addr 1) d = Some (Inr p, d') \<and>
    live sample_env 0 864000 d'"
proof -
  from sample_ctx obtain d where d: "ctx_ok (ev_kec sample_env) (ev_db sample_env) d" "mint_ok (ev_db sample_env) d"
    "candidates (ev_db sample_env) d = {sample_addr 1, sample_addr 2, sample_addr 3, sample_addr 4}"
    "validators_of (ev_db sample_env) d = Inr [sample_addr 1, sample_addr 2, sample_addr 3]" by metis
  then have "live sample_env 0 100000 d" by (simp add: live_def election_ok_def)
  moreover have e: "en_election (sample_engine (ev_kec sample_env) Map.empty) = sample_env" by (simp add: sample_engine_def sample_env_def)
  ultimately show ?thesis
    using finalize_context_live [of "sample_engine (ev_kec sample_env) Map.empty" 0 100000 d 864000 "\<lambda>_. 1" 0 "[]" "sample_addr 1"] sample_env_ok
    by auto
qed

section \<open>A seal over an unknown parent\<close>

text \<open>\<open>verifySeal\<close> reads the context of the parent without asking whether the parent was found.\<close>

lemma verifySeal_unknown_parent:
  assumes "h_Number h = Some n" and "big_Uint64 n \<noteq> 0" and "cr_GetHeader chain (h_ParentHash h) (big_Uint64 n - 1) = None"
  shows "VerifySeal env chain h d = Some (Inl EnginePanic, d)"
  using assms by (simp add: VerifySeal_def verifySeal_def find_parent_def)

end
