(* ===== verification/Go_Math.thy ===== *)
theory Go_Math
  imports Rlp_Encode Chain_Config "HOL-Library.Signed_Division"
begin

text \<open>
  The integer helpers of \<open>src/common/math/integer.go\<close> and \<open>src/common/math/big.go\<close>: checked 64-bit
  arithmetic, and the 256-bit arithmetic of the virtual machine on \<open>big.Int\<close>.  A \<open>big.Int\<close> is an
  integer; \<open>Bits\<close> are the 64-bit words of its absolute value, the least significant first, on which
  \<open>Exp\<close>, \<open>ReadBits\<close> and \<open>Byte\<close> work.
\<close>

section \<open>Checked 64-bit arithmetic\<close>

definition MaxUint64 :: u64 where
  "MaxUint64 = 0xFFFFFFFFFFFFFFFF"

definition SafeSub :: "u64 \<Rightarrow> u64 \<Rightarrow> u64 \<times> bool" where
  "SafeSub x y = (x - y, x < y)"

definition SafeAdd :: "u64 \<Rightarrow> u64 \<Rightarrow> u64 \<times> bool" where
  "SafeAdd x y = (x + y, y > MaxUint64 - x)"

definition SafeMul :: "u64 \<Rightarrow> u64 \<Rightarrow> u64 \<times> bool" where
  "SafeMul x y = (if x = 0 \<or> y = 0 then (0, False) else (x * y, y > MaxUint64 div x))"

section \<open>Big integers\<close>

function bit_len :: "nat \<Rightarrow> nat" where
  "bit_len n = (if n = 0 then 0 else Suc (bit_len (n div 2)))"
  by pat_completeness auto
termination
  by (relation "measure id") auto

declare bit_len.simps [simp del]

definition BitLen :: "int \<Rightarrow> nat" where
  "BitLen x = bit_len (nat \<bar>x\<bar>)"

text \<open>\<open>Int64\<close> of a \<open>big.Int\<close>: the low 64 bits of the absolute value, with the sign.\<close>

definition big_Int64 :: "int \<Rightarrow> int" where
  "big_Int64 x = wrap64 (sgn x * uint (word_of_int \<bar>x\<bar> :: u64))"

function word_digits :: "nat \<Rightarrow> u64 list" where
  "word_digits n = (if n = 0 then [] else word_of_nat n # word_digits (n div 2 ^ 64))"
  by pat_completeness auto
termination
  by (relation "measure id") auto

declare word_digits.simps [simp del]

definition Bits :: "int \<Rightarrow> u64 list" where
  "Bits x = word_digits (nat \<bar>x\<bar>)"

definition wordBytes :: nat where
  "wordBytes = 8"

definition wordBits :: nat where
  "wordBits = 64"

definition tt255 :: int where
  "tt255 = 2 ^ 255"

definition tt256 :: int where
  "tt256 = 2 ^ 256"

definition tt256m1 :: int where
  "tt256m1 = tt256 - 1"

definition BigMax :: "int \<Rightarrow> int \<Rightarrow> int" where
  "BigMax x y = (if x < y then y else x)"

definition BigMin :: "int \<Rightarrow> int \<Rightarrow> int" where
  "BigMin x y = (if x > y then y else x)"

text \<open>\<open>ReadBits\<close> fills the buffer from its end; the bytes that do not fit are dropped.  The model
  builds the written suffix, \<open>i\<close> is the number of bytes still free.\<close>

fun read_word :: "nat \<Rightarrow> u64 \<Rightarrow> nat \<Rightarrow> bytes \<Rightarrow> nat \<times> bytes" where
  "read_word 0 d i acc = (i, acc)"
| "read_word (Suc j) d i acc = (if i > 0 then read_word j (drop_bit 8 d) (i - 1) (ucast d # acc) else (i, acc))"

fun read_words :: "u64 list \<Rightarrow> nat \<Rightarrow> bytes \<Rightarrow> nat \<times> bytes" where
  "read_words [] i acc = (i, acc)"
| "read_words (d # ds) i acc = (case read_word wordBytes d i acc of (i', acc') \<Rightarrow> read_words ds i' acc')"

definition ReadBits :: "int \<Rightarrow> bytes \<Rightarrow> bytes" where
  "ReadBits bigint buf = (case read_words (Bits bigint) (length buf) [] of (i, written) \<Rightarrow> take i buf @ written)"

definition PaddedBigBytes :: "int \<Rightarrow> nat \<Rightarrow> bytes" where
  "PaddedBigBytes bigint n =
     (if BitLen bigint div 8 \<ge> n then nat_bytes (nat \<bar>bigint\<bar>)
      else ReadBits bigint (replicate n 0))"

definition bigEndianByteAt :: "int \<Rightarrow> nat \<Rightarrow> byte" where
  "bigEndianByteAt bigint n =
     (let words = Bits bigint; i = n div wordBytes in
      if i \<ge> length words then 0
      else ucast (drop_bit (8 * (n mod wordBytes)) (words ! i)))"

definition Byte :: "int \<Rightarrow> nat \<Rightarrow> nat \<Rightarrow> byte" where
  "Byte bigint padlength n = (if n \<ge> padlength then 0 else bigEndianByteAt bigint (padlength - 1 - n))"

definition U256 :: "int \<Rightarrow> int" where
  "U256 x = x AND tt256m1"

definition S256 :: "int \<Rightarrow> int" where
  "S256 x = (if x < tt255 then x else x - tt256)"

text \<open>\<open>Exp\<close> squares and multiplies over the bits of every word of the exponent.\<close>

fun exp_word :: "nat \<Rightarrow> u64 \<Rightarrow> int \<times> int \<Rightarrow> int \<times> int" where
  "exp_word 0 word (result, base) = (result, base)"
| "exp_word (Suc i) word (result, base) =
     exp_word i (drop_bit 1 word) (if word AND 1 = 1 then U256 (result * base) else result, U256 (base * base))"

fun exp_words :: "u64 list \<Rightarrow> int \<times> int \<Rightarrow> int \<times> int" where
  "exp_words [] rb = rb"
| "exp_words (word # ws) rb = exp_words ws (exp_word wordBits word rb)"

definition Exp :: "int \<Rightarrow> int \<Rightarrow> int" where
  "Exp base exponent = fst (exp_words (Bits exponent) (1, base))"

section \<open>Checked arithmetic is exact or reports overflow\<close>

lemma SafeAdd_iff: "snd (SafeAdd x y) \<longleftrightarrow> 2 ^ 64 \<le> unat x + unat y"
proof -
  have "unat (MaxUint64 - x) = 2 ^ 64 - 1 - unat x"
    using unat_u64_less [of x] by (subst unat_sub) (auto simp: MaxUint64_def word_le_nat_alt)
  then show ?thesis using unat_u64_less [of x] unat_u64_less [of y]
    by (auto simp: SafeAdd_def word_less_nat_alt)
qed

lemma SafeAdd_exact: "\<not> snd (SafeAdd x y) \<Longrightarrow> unat (fst (SafeAdd x y)) = unat x + unat y"
  by (simp only: SafeAdd_iff not_le) (simp add: SafeAdd_def unat_word_ariths)

lemma SafeMul_iff: "snd (SafeMul x y) \<longleftrightarrow> 2 ^ 64 \<le> unat x * unat y"
proof (cases "x = 0 \<or> y = 0")
  case False
  have u: "unat (MaxUint64 div x) = (2 ^ 64 - 1) div unat x" by (simp add: unat_div MaxUint64_def)
  have "0 < unat x" using False by (simp add: unat_gt_0)
  then have "(2 ^ 64 - 1) div unat x < unat y \<longleftrightarrow> 2 ^ 64 - 1 < unat y * unat x" by (rule div_less_iff_less_mult)
  then show ?thesis using False u by (auto simp: SafeMul_def word_less_nat_alt mult.commute)
qed (auto simp: SafeMul_def)

lemma SafeMul_exact: "\<not> snd (SafeMul x y) \<Longrightarrow> unat (fst (SafeMul x y)) = unat x * unat y"
  by (simp only: SafeMul_iff not_le) (auto simp: SafeMul_def unat_word_ariths)

section \<open>256-bit arithmetic\<close>

lemma U256_mod: "U256 x = x mod 2 ^ 256"
proof -
  have "U256 x = take_bit 256 x" by (simp add: U256_def tt256m1_def tt256_def take_bit_eq_mask mask_eq_exp_minus_1)
  then show ?thesis by (simp add: take_bit_eq_mod)
qed

text \<open>The numbers the virtual machine works with.\<close>

definition is_u256 :: "int \<Rightarrow> bool" where
  "is_u256 x \<longleftrightarrow> 0 \<le> x \<and> x < 2 ^ 256"

lemma is_u256_U256 [simp]: "is_u256 (U256 x)"
  by (simp add: is_u256_def U256_mod)

lemma is_u256_small: "0 \<le> x \<Longrightarrow> x < 2 ^ 64 \<Longrightarrow> is_u256 x"
  by (simp add: is_u256_def)

lemma is_u256_nonneg: "is_u256 x \<Longrightarrow> 0 \<le> x"
  by (simp add: is_u256_def)

lemma U256_id [simp]: "is_u256 x \<Longrightarrow> U256 x = x"
  by (simp add: U256_mod is_u256_def)

lemma bit_len_le: "bit_len n \<le> k \<longleftrightarrow> n < 2 ^ k"
proof (induction k arbitrary: n)
  case 0
  then show ?case by (subst bit_len.simps) simp
next
  case (Suc k)
  show ?case
  proof (cases "n = 0")
    case False
    then have "bit_len n \<le> Suc k \<longleftrightarrow> n div 2 < 2 ^ k" using Suc [of "n div 2"] by (subst bit_len.simps) simp
    then show ?thesis by (simp add: div_less_iff_less_mult mult.commute)
  qed (simp add: bit_len.simps)
qed

lemma BitLen_le: "0 \<le> x \<Longrightarrow> BitLen x \<le> k \<longleftrightarrow> x < 2 ^ k"
proof -
  assume "0 \<le> x"
  then have "BitLen x \<le> k \<longleftrightarrow> nat x < 2 ^ k" by (simp add: BitLen_def bit_len_le)
  also have "\<dots> \<longleftrightarrow> x < 2 ^ k" using \<open>0 \<le> x\<close> by (simp add: nat_less_iff)
  finally show ?thesis .
qed

lemma big_Int64_small: "0 \<le> x \<Longrightarrow> x < 2 ^ 63 \<Longrightarrow> big_Int64 x = x"
  by (cases "x = 0") (simp_all add: big_Int64_def uint_word_of_int take_bit_int_eq_self wrap64_id)

lemma big_Uint64_small: "0 \<le> x \<Longrightarrow> x < 2 ^ 64 \<Longrightarrow> unat (big_Uint64 x) = nat x"
  by (simp add: big_Uint64_def unat_eq_nat_uint uint_word_of_int take_bit_int_eq_self)

text \<open>The value of a list of words, the least significant first.\<close>

fun words_val :: "u64 list \<Rightarrow> nat" where
  "words_val [] = 0"
| "words_val (w # ws) = unat w + 2 ^ 64 * words_val ws"

lemma words_val_digits: "words_val (word_digits n) = n"
proof (induction n rule: word_digits.induct)
  case (1 n)
  show ?case
  proof (cases "n = 0")
    case False
    then have "words_val (word_digits n) = n mod 2 ^ 64 + 2 ^ 64 * (n div 2 ^ 64)"
      using 1 by (subst word_digits.simps) (simp add: unat_of_nat take_bit_eq_mod)
    then show ?thesis by simp
  qed (simp add: word_digits.simps)
qed

lemma words_val_Bits: "0 \<le> x \<Longrightarrow> words_val (Bits x) = nat x"
  by (simp add: Bits_def words_val_digits)

lemma word_lsb: "(w :: u64) AND 1 = 1 \<longleftrightarrow> odd (unat w)"
proof -
  have "odd (unat w) \<longleftrightarrow> odd w" by (simp add: bit_unsigned_iff flip: bit_0)
  then show ?thesis by (simp add: and_one_eq mod_2_eq_odd)
qed

lemma exp_word_mod:
  assumes "exp_word k w (r, b) = (r', b')" and "unat w < 2 ^ k"
  shows "r' mod 2 ^ 256 = r * b ^ unat w mod 2 ^ 256 \<and> b' mod 2 ^ 256 = b ^ (2 ^ k) mod 2 ^ 256"
  using assms
proof (induction k arbitrary: w r b)
  case (Suc k)
  have w2: "unat (drop_bit 1 w) = unat w div 2" by (simp add: unat_drop_bit_div)
  then have less: "unat (drop_bit 1 w) < 2 ^ k" using Suc.prems(2) by (simp add: div_less_iff_less_mult mult.commute)
  let ?r = "if w AND 1 = 1 then U256 (r * b) else r"
  have IH: "r' mod 2 ^ 256 = ?r * U256 (b * b) ^ (unat w div 2) mod 2 ^ 256"
    "b' mod 2 ^ 256 = U256 (b * b) ^ (2 ^ k) mod 2 ^ 256"
    using Suc.IH [OF _ less] Suc.prems(1) w2 by auto
  have sq: "U256 (b * b) ^ n mod 2 ^ 256 = b ^ (2 * n) mod 2 ^ 256" for n
    by (simp add: U256_mod power_mod power_mult power2_eq_square)
  have r: "?r mod 2 ^ 256 = r * b ^ (unat w mod 2) mod 2 ^ 256"
    by (simp add: word_lsb U256_mod odd_iff_mod_2_eq_one)
  have "r' mod 2 ^ 256 = (?r mod 2 ^ 256) * (U256 (b * b) ^ (unat w div 2) mod 2 ^ 256) mod 2 ^ 256"
    unfolding IH(1) by (rule mod_mult_eq [symmetric])
  also have "\<dots> = (r * b ^ (unat w mod 2)) * b ^ (2 * (unat w div 2)) mod 2 ^ 256"
    unfolding r sq by (rule mod_mult_eq)
  also have "(r * b ^ (unat w mod 2)) * b ^ (2 * (unat w div 2)) = r * b ^ (unat w)"
    by (simp flip: power_add mult.assoc add: mult.assoc)
  finally show ?case unfolding IH(2) sq by (simp only: power_Suc)
qed simp

lemma exp_words_mod:
  assumes "exp_words ws (r, b) = (r', b')"
  shows "r' mod 2 ^ 256 = r * b ^ words_val ws mod 2 ^ 256"
  using assms
proof (induction ws arbitrary: r b)
  case (Cons w ws)
  obtain r1 b1 where e: "exp_word wordBits w (r, b) = (r1, b1)" by (metis prod.exhaust)
  have "unat w < 2 ^ wordBits" using unat_u64_less [of w] by (simp add: wordBits_def)
  note one = exp_word_mod [OF e this, THEN conjunct1] exp_word_mod [OF e this, THEN conjunct2]
  have "exp_words ws (r1, b1) = (r', b')" using Cons.prems e by simp
  from Cons.IH [OF this] have "r' mod 2 ^ 256 = r1 * b1 ^ words_val ws mod 2 ^ 256" .
  also have "\<dots> = (r1 mod 2 ^ 256) * ((b1 mod 2 ^ 256) ^ words_val ws mod 2 ^ 256) mod 2 ^ 256"
    by (simp only: mod_mult_eq power_mod)
  also have "\<dots> = r * b ^ unat w * (b ^ (2 ^ wordBits)) ^ words_val ws mod 2 ^ 256"
    unfolding one by (simp only: mod_mult_eq power_mod)
  also have "r * b ^ unat w * (b ^ (2 ^ wordBits)) ^ words_val ws = r * b ^ words_val (w # ws)"
    by (simp only: words_val.simps power_add power_mult mult.assoc wordBits_def)
  finally show ?case .
qed simp

lemma exp_word_range: "is_u256 r \<Longrightarrow> exp_word k w (r, b) = (r', b') \<Longrightarrow> is_u256 r'"
proof (induction k arbitrary: w r b)
  case (Suc k)
  have "is_u256 (if w AND 1 = 1 then U256 (r * b) else r)" using Suc.prems(1) by simp
  then show ?case using Suc.IH Suc.prems(2) unfolding exp_word.simps by blast
qed simp

lemma exp_words_range: "is_u256 r \<Longrightarrow> exp_words ws (r, b) = (r', b') \<Longrightarrow> is_u256 r'"
proof (induction ws arbitrary: r b)
  case (Cons w ws)
  obtain r1 b1 where e: "exp_word wordBits w (r, b) = (r1, b1)" by fastforce
  then show ?case using Cons exp_word_range [OF Cons.prems(1) e] by auto
qed simp

text \<open>Square and multiply is exponentiation modulo \<open>2 ^ 256\<close>.\<close>

lemma Exp_power: "0 \<le> exponent \<Longrightarrow> Exp base exponent = base ^ nat exponent mod 2 ^ 256"
proof -
  assume "0 \<le> exponent"
  obtain r b where e: "exp_words (Bits exponent) (1, base) = (r, b)" by fastforce
  then have "r mod 2 ^ 256 = base ^ nat exponent mod 2 ^ 256"
    using exp_words_mod [OF e] \<open>0 \<le> exponent\<close> by (simp add: words_val_Bits)
  moreover have "is_u256 r" using exp_words_range [OF _ e] by (simp add: is_u256_small)
  ultimately show ?thesis by (simp add: Exp_def e is_u256_def)
qed

section \<open>Bytes of a big integer\<close>

lemma be_digits_snoc: "be_digits (Suc n) u = be_digits n (u div 256) @ [word_of_nat u]"
proof (induction n)
  case (Suc n)
  have "be_digits (Suc (Suc n)) u = word_of_nat (u div 2 ^ (8 * Suc n)) # be_digits (Suc n) u" by (rule be_digits_unfold)
  also have "u div 2 ^ (8 * Suc n) = u div (256 * 2 ^ (8 * n))" by (simp add: power_add)
  also have "\<dots> = u div 256 div 2 ^ (8 * n)" by (rule div_mult2_eq)
  finally show ?case using Suc by (simp add: be_digits_unfold)
qed (simp add: be_digits_unfold)

lemma read_word_spec:
  "read_word k d i acc = (i - min k i, be_digits (min k i) (unat d) @ acc)"
proof (induction k d i acc rule: read_word.induct)
  case (2 j d i acc)
  show ?case
  proof (cases i)
    case (Suc i')
    have "read_word (Suc j) d i acc = read_word j (drop_bit 8 d) i' (ucast d # acc)" using Suc by simp
    also have "\<dots> = (i' - min j i', be_digits (min j i') (unat (drop_bit 8 d)) @ ucast d # acc)" using 2 Suc by simp
    also have "be_digits (min j i') (unat (drop_bit 8 d)) @ ucast d # acc = be_digits (Suc (min j i')) (unat d) @ acc"
      by (simp only: be_digits_snoc unat_drop_bit_div ucast_eq_of_nat append_assoc) simp
    finally show ?thesis using Suc by simp
  qed (simp add: be_digits_unfold(1))
qed (simp add: be_digits_unfold(1))

lemma be_digits_take_bit: "k \<le> 8 \<Longrightarrow> be_digits k (take_bit 64 u) = be_digits k u"
proof (induction k)
  case (Suc k)
  then have "(word_of_nat (drop_bit (8 * k) (take_bit 64 u)) :: byte) = word_of_nat (drop_bit (8 * k) u)"
    by (intro bit_word_eqI) (auto simp: bit_simps)
  with Suc show ?case by (simp add: be_digits_unfold drop_bit_eq_div)
qed (simp add: be_digits_unfold)

lemma be_digits_append: "be_digits (m + k) u = be_digits m (u div 2 ^ (8 * k)) @ be_digits k u"
proof (induction m)
  case (Suc m)
  have "u div 2 ^ (8 * k) div 2 ^ (8 * m) = u div (2 ^ (8 * k) * 2 ^ (8 * m))" by (rule div_mult2_eq [symmetric])
  also have "(2 :: nat) ^ (8 * k) * 2 ^ (8 * m) = 2 ^ (8 * (m + k))" by (simp add: power_add mult.commute distrib_left)
  finally show ?case using Suc by (simp add: be_digits_unfold)
qed (simp add: be_digits_unfold)

lemma be_digits_0: "be_digits n 0 = replicate n 0"
  by (induction n) (simp_all add: be_digits_unfold)

lemma word_digits_take_bit: "n \<noteq> 0 \<Longrightarrow> word_digits n = word_of_nat n # word_digits (n div 2 ^ 64)"
  by (subst word_digits.simps) simp

lemma read_words_spec:
  "\<exists>j. read_words (word_digits n) i acc = (j, be_digits (i - j) n @ acc) \<and> j \<le> i \<and> be_digits i n = replicate j 0 @ be_digits (i - j) n"
proof (induction n arbitrary: i acc rule: word_digits.induct)
  case (1 n)
  show ?case
  proof (cases "n = 0")
    case True
    then show ?thesis by (simp add: word_digits.simps be_digits_0)
  next
    case False
    let ?m = "min 8 i"
    have d: "be_digits ?m (unat (word_of_nat n :: u64)) = be_digits ?m n"
      using be_digits_take_bit [of ?m n] by (simp add: unat_of_nat take_bit_eq_mod)
    from 1 [OF False, of "i - ?m" "be_digits ?m n @ acc"] obtain j where
      j: "read_words (word_digits (n div 2 ^ 64)) (i - ?m) (be_digits ?m n @ acc) = (j, be_digits (i - ?m - j) (n div 2 ^ 64) @ be_digits ?m n @ acc)"
      "j \<le> i - ?m" "be_digits (i - ?m) (n div 2 ^ 64) = replicate j 0 @ be_digits (i - ?m - j) (n div 2 ^ 64)" by blast
    have split: "be_digits (k + ?m) n = be_digits k (n div 2 ^ 64) @ be_digits ?m n" if "k = 0 \<or> 8 \<le> i" for k
      using that be_digits_append [of k ?m n] by (auto simp: be_digits_unfold)
    have cases: "i - ?m = 0 \<or> 8 \<le> i" by auto
    have s1: "be_digits (i - j) n = be_digits (i - ?m - j) (n div 2 ^ 64) @ be_digits ?m n"
      using split [of "i - ?m - j"] cases j(2) by (auto simp: le_diff_conv2 diff_commute)
    have s2: "be_digits i n = be_digits (i - ?m) (n div 2 ^ 64) @ be_digits ?m n"
      using split [of "i - ?m"] cases by auto
    have "read_words (word_digits n) i acc = (j, be_digits (i - j) n @ acc)"
      using j(1) False by (simp add: word_digits_take_bit wordBytes_def read_word_spec d s1)
    moreover have "be_digits i n = replicate j 0 @ be_digits (i - j) n" using j(3) s1 s2 by simp
    ultimately show ?thesis using j(2) by auto
  qed
qed

text \<open>A number that fits is written in the given width.\<close>

lemma ReadBits_be_digits: "0 \<le> x \<Longrightarrow> ReadBits x (replicate n 0) = be_digits n (nat x)"
proof -
  assume "0 \<le> x"
  obtain j where "read_words (Bits x) n [] = (j, be_digits (n - j) (nat x) @ [])"
    "j \<le> n" "be_digits n (nat x) = replicate j 0 @ be_digits (n - j) (nat x)"
    using read_words_spec [of "nat x" n "[]"] \<open>0 \<le> x\<close> by (auto simp: Bits_def)
  then show ?thesis by (simp add: ReadBits_def min_absorb1)
qed

lemma nat_bytes_be_digits: "256 ^ n \<le> u \<Longrightarrow> u < 256 ^ Suc n \<Longrightarrow> nat_bytes u = be_digits (Suc n) u"
proof -
  assume u: "256 ^ n \<le> u" "u < 256 ^ Suc n"
  have "be_digits (Suc n) u = word_of_nat (u div 256 ^ n) # be_digits n u" by (simp add: be_digits_unfold power_mult)
  moreover have "(word_of_nat (u div 256 ^ n) :: byte) \<noteq> 0"
  proof -
    have "u div 256 ^ n < 256" using u(2) by (simp add: div_less_iff_less_mult)
    moreover have "0 < u div 256 ^ n" using u(1) by (simp add: div_greater_zero_iff)
    ultimately show ?thesis by (metis mod_less unat_of_nat_byte unat_0 less_irrefl)
  qed
  ultimately have "nat_bytes (be_nat (be_digits (Suc n) u)) = be_digits (Suc n) u" by (intro nat_bytes_be_nat) simp
  then show ?thesis using u(2) by (simp add: be_nat_be_digits)
qed

lemma PaddedBigBytes_32: "is_u256 x \<Longrightarrow> PaddedBigBytes x 32 = be_digits 32 (nat x)"
proof -
  assume x: "is_u256 x"
  show ?thesis
  proof (cases "BitLen x div 8 \<ge> 32")
    case True
    then have "\<not> BitLen x \<le> 255" by auto
    then have "2 ^ 255 \<le> x" using x BitLen_le [of x 255] by (simp add: is_u256_def)
    then have "256 ^ 31 \<le> nat x" "nat x < 256 ^ Suc 31" using x by (simp_all add: is_u256_def nat_less_iff le_nat_iff)
    then have "nat_bytes (nat x) = be_digits (Suc 31) (nat x)" by (rule nat_bytes_be_digits)
    then show ?thesis using True x by (simp add: PaddedBigBytes_def is_u256_def)
  next
    case False
    then show ?thesis using x by (simp add: PaddedBigBytes_def ReadBits_be_digits is_u256_def)
  qed
qed

end
