(* ===== verification/Evm_Base.thy ===== *)
theory Evm_Base
  imports Go_Math Common_Types
begin

text \<open>
  The parts of the virtual machine that do not depend on the chain state: the stack, the memory, the
  helpers of \<open>common.go\<close>, the stack and memory tables and the constant prices
  (\<open>src/core/vm\<close>, \<open>src/params/protocol_params.go\<close>).

  The \<open>big.Int\<close> on the stack are not shared: an operation that changes one in place has popped it,
  and the pool of integers only recycles popped ones.  So the stack is a list of integers, with its
  top first.  A run-time panic of Go is the value \<open>Panic\<close>, which every caller passes on.
\<close>

section \<open>Errors and panics\<close>

datatype vm_error =
    ErrOutOfGas
  | ErrCodeStoreOutOfGas
  | ErrDepth
  | ErrInsufficientBalance
  | ErrContractAddressCollision
  | ErrWriteProtection
  | ErrReturnDataOutOfBounds
  | ErrExecutionReverted
  | ErrMaxCodeSizeExceeded
  | ErrGasUintOverflow
  | ErrInvalidOpcode byte
  | ErrStackUnderflow nat nat
  | ErrStackLimit nat
  | ErrInvalidJump byte int
  | ErrNotOnCurve
  | ErrInvalidCurvePoint
  | ErrBadPairingInput

datatype 'a go = Panic | Ret 'a

definition go_bind :: "'a go \<Rightarrow> ('a \<Rightarrow> 'b go) \<Rightarrow> 'b go" where
  "go_bind m f = (case m of Panic \<Rightarrow> Panic | Ret x \<Rightarrow> f x)"

lemma go_bind_simps [simp]: "go_bind Panic f = Panic" "go_bind (Ret x) f = f x"
  by (simp_all add: go_bind_def)

section \<open>Prices\<close>

definition GasQuickStep :: u64 where "GasQuickStep = 2"
definition GasFastestStep :: u64 where "GasFastestStep = 3"
definition GasFastStep :: u64 where "GasFastStep = 5"
definition GasMidStep :: u64 where "GasMidStep = 8"
definition GasSlowStep :: u64 where "GasSlowStep = 10"
definition GasExtStep :: u64 where "GasExtStep = 20"
definition CallValueTransferGas :: u64 where "CallValueTransferGas = 9000"
definition CallNewAccountGas :: u64 where "CallNewAccountGas = 25000"
definition QuadCoeffDiv :: u64 where "QuadCoeffDiv = 512"
definition SstoreSetGas :: u64 where "SstoreSetGas = 20000"
definition LogDataGas :: u64 where "LogDataGas = 8"
definition CallStipend :: u64 where "CallStipend = 2300"
definition Sha3Gas :: u64 where "Sha3Gas = 30"
definition Sha3WordGas :: u64 where "Sha3WordGas = 6"
definition SstoreResetGas :: u64 where "SstoreResetGas = 5000"
definition SstoreClearGas :: u64 where "SstoreClearGas = 5000"
definition SstoreRefundGas :: u64 where "SstoreRefundGas = 15000"
definition JumpdestGas :: u64 where "JumpdestGas = 1"
definition CreateDataGas :: u64 where "CreateDataGas = 200"
definition CallCreateDepth :: nat where "CallCreateDepth = 1024"
definition LogGas :: u64 where "LogGas = 375"
definition CopyGas :: u64 where "CopyGas = 3"
definition StackLimit :: nat where "StackLimit = 1024"
definition LogTopicGas :: u64 where "LogTopicGas = 375"
definition CreateGas :: u64 where "CreateGas = 32000"
definition SuicideRefundGas :: u64 where "SuicideRefundGas = 24000"
definition MemoryGas :: u64 where "MemoryGas = 3"
definition MaxCodeSize :: nat where "MaxCodeSize = 24576"

lemmas gas_prices = GasQuickStep_def GasFastestStep_def GasFastStep_def GasMidStep_def GasSlowStep_def
  GasExtStep_def CallValueTransferGas_def CallNewAccountGas_def QuadCoeffDiv_def SstoreSetGas_def LogDataGas_def
  CallStipend_def Sha3Gas_def Sha3WordGas_def SstoreResetGas_def SstoreClearGas_def SstoreRefundGas_def
  JumpdestGas_def CreateDataGas_def LogGas_def CopyGas_def LogTopicGas_def CreateGas_def SuicideRefundGas_def
  MemoryGas_def

section \<open>Stack\<close>

type_synonym stack = "int list"

definition newstack :: stack where
  "newstack = []"

definition push :: "int \<Rightarrow> stack \<Rightarrow> stack" where
  "push d st = d # st"

definition pop :: "stack \<Rightarrow> (int \<times> stack) go" where
  "pop st = (case st of [] \<Rightarrow> Panic | ret # rest \<Rightarrow> Ret (ret, rest))"

definition swap :: "nat \<Rightarrow> stack \<Rightarrow> stack go" where
  "swap n st =
     (if n = 0 \<or> n > length st then Panic
      else Ret (st[0 := st ! (n - 1), n - 1 := st ! 0]))"

definition dup :: "nat \<Rightarrow> stack \<Rightarrow> stack go" where
  "dup n st = (if n = 0 \<or> n > length st then Panic else Ret (push (st ! (n - 1)) st))"

definition peek :: "stack \<Rightarrow> int go" where
  "peek st = (case st of [] \<Rightarrow> Panic | x # _ \<Rightarrow> Ret x)"

definition Back :: "nat \<Rightarrow> stack \<Rightarrow> int go" where
  "Back n st = (if n < length st then Ret (st ! n) else Panic)"

definition require :: "nat \<Rightarrow> stack \<Rightarrow> vm_error option" where
  "require n st = (if length st < n then Some (ErrStackUnderflow (length st) n) else None)"

definition makeStackFunc :: "nat \<Rightarrow> nat \<Rightarrow> stack \<Rightarrow> vm_error option" where
  "makeStackFunc npop npush st =
     (case require npop st of
        Some err \<Rightarrow> Some err
      | None \<Rightarrow> if length st + npush - npop > StackLimit then Some (ErrStackLimit (length st)) else None)"

definition makeDupStackFunc :: "nat \<Rightarrow> stack \<Rightarrow> vm_error option" where
  "makeDupStackFunc n = makeStackFunc n (n + 1)"

definition makeSwapStackFunc :: "nat \<Rightarrow> stack \<Rightarrow> vm_error option" where
  "makeSwapStackFunc n = makeStackFunc n n"

section \<open>Memory\<close>

record Memory =
  store :: bytes
  lastGasCost :: u64

definition NewMemory :: Memory where
  "NewMemory = \<lparr>store = [], lastGasCost = 0\<rparr>"

text \<open>A slice expression that leaves the length of the store is a panic.  (Go admits it up to the
  capacity, which depends on the allocator; it does not occur when the memory was resized.)\<close>

definition copy_at :: "nat \<Rightarrow> bytes \<Rightarrow> bytes \<Rightarrow> bytes" where
  "copy_at i value s = take i s @ value @ drop (i + length value) s"

definition Memory_Set :: "u64 \<Rightarrow> u64 \<Rightarrow> bytes \<Rightarrow> Memory \<Rightarrow> Memory go" where
  "Memory_Set offset sz value m =
     (if unat sz > length (store m) then Panic
      else if sz > 0 then
        (if offset \<le> offset + sz \<and> unat (offset + sz) \<le> length (store m)
         then Ret (m\<lparr>store := copy_at (unat offset) (take (unat sz) value) (store m)\<rparr>)
         else Panic)
      else Ret m)"

definition Resize :: "u64 \<Rightarrow> Memory \<Rightarrow> Memory" where
  "Resize sz m =
     (if length (store m) < unat sz then m\<lparr>store := store m @ replicate (unat sz - length (store m)) 0\<rparr> else m)"

definition Memory_Get :: "int \<Rightarrow> int \<Rightarrow> Memory \<Rightarrow> bytes go" where
  "Memory_Get offset sz m =
     (if sz = 0 then Ret []
      else if int (length (store m)) > offset then
        (if 0 \<le> offset \<and> offset \<le> wrap64 (offset + sz) \<and> wrap64 (offset + sz) \<le> int (length (store m))
         then Ret (take (nat sz) (drop (nat offset) (store m)))
         else Panic)
      else Ret [])"

text \<open>\<open>GetPtr\<close> returns the same bytes without copying them; its callers stop the frame afterwards.\<close>

definition Memory_GetPtr :: "int \<Rightarrow> int \<Rightarrow> Memory \<Rightarrow> bytes go" where
  "Memory_GetPtr offset sz m =
     (if sz = 0 then Ret []
      else if int (length (store m)) > offset then
        (if 0 \<le> offset \<and> offset \<le> wrap64 (offset + sz) \<and> wrap64 (offset + sz) \<le> int (length (store m))
         then Ret (take (nat sz) (drop (nat offset) (store m)))
         else Panic)
      else Ret [])"

definition Memory_Len :: "Memory \<Rightarrow> int" where
  "Memory_Len m = int (length (store m))"

section \<open>Helpers\<close>

definition RightPadBytes :: "bytes \<Rightarrow> int \<Rightarrow> bytes" where
  "RightPadBytes bs l = (if l \<le> int (length bs) then bs else bs @ replicate (nat l - length bs) 0)"

definition LeftPadBytes :: "bytes \<Rightarrow> int \<Rightarrow> bytes" where
  "LeftPadBytes bs l = (if l \<le> int (length bs) then bs else replicate (nat l - length bs) 0 @ bs)"

definition calcMemSize :: "int \<Rightarrow> int \<Rightarrow> int" where
  "calcMemSize off l = (if l = 0 then 0 else off + l)"

definition slice_from_to :: "bytes \<Rightarrow> u64 \<Rightarrow> u64 \<Rightarrow> bytes go" where
  "slice_from_to data s e =
     (if s \<le> e \<and> unat e \<le> length data then Ret (take (unat e - unat s) (drop (unat s) data)) else Panic)"

definition getData :: "bytes \<Rightarrow> u64 \<Rightarrow> u64 \<Rightarrow> bytes go" where
  "getData data start sz =
     (let len = word_of_nat (length data);
          start' = (if start > len then len else start);
          end' = start' + sz;
          end'' = (if end' > len then len else end')
      in go_bind (slice_from_to data start' end'') (\<lambda>s. Ret (RightPadBytes s (sint sz))))"

definition getDataBig :: "bytes \<Rightarrow> int \<Rightarrow> int \<Rightarrow> bytes go" where
  "getDataBig data start sz =
     (let dlen = int (length data);
          s = BigMin start dlen;
          e = BigMin (s + sz) dlen
      in go_bind (slice_from_to data (big_Uint64 s) (big_Uint64 e)) (\<lambda>b. Ret (RightPadBytes b (sint (big_Uint64 sz)))))"

definition bigUint64 :: "int \<Rightarrow> u64 \<times> bool" where
  "bigUint64 v = (big_Uint64 v, BitLen v > 64)"

definition toWordSize :: "u64 \<Rightarrow> u64" where
  "toWordSize sz = (if sz > MaxUint64 - 31 then MaxUint64 div 32 + 1 else (sz + 31) div 32)"

definition allZero :: "bytes \<Rightarrow> bool" where
  "allZero b \<longleftrightarrow> list_all (\<lambda>x. x = 0) b"

section \<open>Memory size of an operation\<close>

definition back_size :: "nat \<Rightarrow> nat \<Rightarrow> stack \<Rightarrow> int go" where
  "back_size i j st = go_bind (Back i st) (\<lambda>off. go_bind (Back j st) (\<lambda>l. Ret (calcMemSize off l)))"

definition back_fixed :: "nat \<Rightarrow> int \<Rightarrow> stack \<Rightarrow> int go" where
  "back_fixed i l st = go_bind (Back i st) (\<lambda>off. Ret (calcMemSize off l))"

definition back_max :: "nat \<Rightarrow> nat \<Rightarrow> nat \<Rightarrow> nat \<Rightarrow> stack \<Rightarrow> int go" where
  "back_max i j k l st = go_bind (back_size i j st) (\<lambda>x. go_bind (back_size k l st) (\<lambda>y. Ret (BigMax x y)))"

definition memorySha3 :: "stack \<Rightarrow> int go" where "memorySha3 = back_size 0 1"
definition memoryCallDataCopy :: "stack \<Rightarrow> int go" where "memoryCallDataCopy = back_size 0 2"
definition memoryReturnDataCopy :: "stack \<Rightarrow> int go" where "memoryReturnDataCopy = back_size 0 2"
definition memoryCodeCopy :: "stack \<Rightarrow> int go" where "memoryCodeCopy = back_size 0 2"
definition memoryExtCodeCopy :: "stack \<Rightarrow> int go" where "memoryExtCodeCopy = back_size 1 3"
definition memoryMLoad :: "stack \<Rightarrow> int go" where "memoryMLoad = back_fixed 0 32"
definition memoryMStore8 :: "stack \<Rightarrow> int go" where "memoryMStore8 = back_fixed 0 1"
definition memoryMStore :: "stack \<Rightarrow> int go" where "memoryMStore = back_fixed 0 32"
definition memoryCreate :: "stack \<Rightarrow> int go" where "memoryCreate = back_size 1 2"
definition memoryCall :: "stack \<Rightarrow> int go" where "memoryCall = back_max 5 6 3 4"
definition memoryCallCode :: "stack \<Rightarrow> int go" where "memoryCallCode = back_max 5 6 3 4"
definition memoryDelegateCall :: "stack \<Rightarrow> int go" where "memoryDelegateCall = back_max 4 5 2 3"
definition memoryStaticCall :: "stack \<Rightarrow> int go" where "memoryStaticCall = back_max 4 5 2 3"
definition memoryReturn :: "stack \<Rightarrow> int go" where "memoryReturn = back_size 0 1"
definition memoryRevert :: "stack \<Rightarrow> int go" where "memoryRevert = back_size 0 1"
definition memoryLog :: "stack \<Rightarrow> int go" where "memoryLog = back_size 0 1"

lemmas memory_table = memorySha3_def memoryCallDataCopy_def memoryReturnDataCopy_def memoryCodeCopy_def
  memoryExtCodeCopy_def memoryMLoad_def memoryMStore8_def memoryMStore_def memoryCreate_def memoryCall_def
  memoryCallCode_def  memoryDelegateCall_def memoryStaticCall_def memoryReturn_def memoryRevert_def memoryLog_def

end
