(* ===== verification/Evm_Analysis.thy ===== *)
theory Evm_Analysis
  imports Evm_Base
begin

text \<open>
  Jump destination analysis (\<open>src/core/vm/analysis.go\<close>): a bitmap marks the bytes of a code that are
  data of push instructions, with a fast path that marks eight positions at once.  The reference is
  \<open>instr\<close>: an instruction starts at position 0 and after every instruction with its data.
  \<open>codeBitmap_correct\<close> relates the two and shows that the bitmap is long enough for a push
  instruction that runs over the end of the code.
\<close>

type_synonym bitvec = bytes

text \<open>The analysis results by the hash of the code; contracts that call each other share the map.\<close>

type_synonym destinations = "bytes \<rightharpoonup> bitvec"

abbreviation JUMPDEST :: byte where "JUMPDEST \<equiv> 0x5b"
abbreviation PUSH1 :: byte where "PUSH1 \<equiv> 0x60"
abbreviation PUSH32 :: byte where "PUSH32 \<equiv> 0x7f"

definition or_at :: "nat \<Rightarrow> byte \<Rightarrow> bitvec \<Rightarrow> bitvec go" where
  "or_at i m bits = (if i < length bits then Ret (bits[i := bits ! i OR m]) else Panic)"

definition bitvec_set :: "nat \<Rightarrow> bitvec \<Rightarrow> bitvec go" where
  "bitvec_set pos bits = or_at (pos div 8) (drop_bit (pos mod 8) 0x80) bits"

definition bitvec_set8 :: "nat \<Rightarrow> bitvec \<Rightarrow> bitvec go" where
  "bitvec_set8 pos bits =
     go_bind (or_at (pos div 8) (drop_bit (pos mod 8) 0xFF) bits) (\<lambda>bits1.
       or_at (pos div 8 + 1) (NOT (drop_bit (pos mod 8) 0xFF)) bits1)"

definition codeSegment :: "nat \<Rightarrow> bitvec \<Rightarrow> bool go" where
  "codeSegment pos bits =
     (if pos div 8 < length bits then Ret ((bits ! (pos div 8)) AND drop_bit (pos mod 8) 0x80 = 0) else Panic)"

text \<open>The loops over the data of one push instruction: by eight, then one by one.\<close>

fun set_ones :: "nat \<Rightarrow> nat \<Rightarrow> bitvec \<Rightarrow> bitvec go" where
  "set_ones 0 pc bits = Ret bits"
| "set_ones (Suc numbits) pc bits = go_bind (bitvec_set pc bits) (\<lambda>bits1. set_ones numbits (pc + 1) bits1)"

fun set_eights :: "nat \<Rightarrow> nat \<Rightarrow> bitvec \<Rightarrow> bitvec go" where
  "set_eights numbits pc bits =
     (if numbits \<ge> 8 then
        (case bitvec_set8 pc bits of Panic \<Rightarrow> Panic | Ret bits1 \<Rightarrow> set_eights (numbits - 8) (pc + 8) bits1)
      else set_ones numbits pc bits)"

declare set_eights.simps [simp del]

definition is_push :: "byte \<Rightarrow> bool" where
  "is_push op \<longleftrightarrow> PUSH1 \<le> op \<and> op \<le> PUSH32"

definition push_len :: "byte \<Rightarrow> nat" where
  "push_len op = unat (op - PUSH1 + 1)"

function bitmap_loop :: "bytes \<Rightarrow> nat \<Rightarrow> bitvec \<Rightarrow> bitvec go" where
  "bitmap_loop code pc bits =
     (if pc < length code then
        (let op = code ! pc in
         if is_push op then
           (case set_eights (push_len op) (pc + 1) bits of
              Panic \<Rightarrow> Panic
            | Ret bits1 \<Rightarrow> bitmap_loop code (pc + 1 + push_len op) bits1)
         else bitmap_loop code (pc + 1) bits)
      else Ret bits)"
  by pat_completeness auto
termination
  by (relation "measure (\<lambda>(code, pc, _). length code - pc)") auto

declare bitmap_loop.simps [simp del]

definition codeBitmap :: "bytes \<Rightarrow> bitvec go" where
  "codeBitmap code = bitmap_loop code 0 (replicate (length code div 8 + 1 + 4) 0)"

definition destinations_has :: "bytes \<Rightarrow> bytes \<Rightarrow> int \<Rightarrow> destinations \<Rightarrow> (bool \<times> destinations) go" where
  "destinations_has codehash code dest d =
     (let udest = unat (big_Uint64 dest) in
      if BitLen dest \<ge> 63 \<or> udest \<ge> length code then Ret (False, d)
      else go_bind (case d codehash of Some m \<Rightarrow> Ret (m, d) | None \<Rightarrow> go_bind (codeBitmap code) (\<lambda>m. Ret (m, d(codehash \<mapsto> m))))
        (\<lambda>(m, d1). if code ! udest = JUMPDEST then go_bind (codeSegment udest m) (\<lambda>b. Ret (b, d1)) else Ret (False, d1)))"

section \<open>Where instructions start\<close>

definition next_instr :: "bytes \<Rightarrow> nat \<Rightarrow> nat" where
  "next_instr code pc = pc + 1 + (if pc < length code \<and> is_push (code ! pc) then push_len (code ! pc) else 0)"

inductive instr :: "bytes \<Rightarrow> nat \<Rightarrow> bool" for code where
  instr_zero: "instr code 0"
| instr_next: "instr code pc \<Longrightarrow> pc < length code \<Longrightarrow> instr code (next_instr code pc)"

lemma next_instr_gt: "pc < next_instr code pc"
  by (simp add: next_instr_def)

lemma instr_iterate: "instr code q \<Longrightarrow> \<exists>k. q = (next_instr code ^^ k) 0"
  by (induction rule: instr.induct) (metis funpow_0, metis comp_apply funpow.simps(2))

lemma iterate_mono: "i < j \<Longrightarrow> (next_instr code ^^ i) 0 < (next_instr code ^^ j) 0"
proof (induction j)
  case (Suc j)
  then show ?case using next_instr_gt [of "(next_instr code ^^ j) 0" code] by (cases "i = j") auto
qed simp

text \<open>No instruction starts inside another one.\<close>

lemma instr_gap:
  assumes "instr code pc" and "instr code q" and "pc < q"
  shows "next_instr code pc \<le> q"
proof -
  obtain i j where ij: "pc = (next_instr code ^^ i) 0" "q = (next_instr code ^^ j) 0"
    using assms(1,2) instr_iterate by meson
  have "i < j" using assms(3) ij iterate_mono [of j i code] by (cases i j rule: linorder_cases) auto
  then have "Suc i \<le> j" by simp
  then have "(next_instr code ^^ Suc i) 0 \<le> q"
    using iterate_mono [of "Suc i" j code] ij(2) by (cases "Suc i = j") (auto simp: less_imp_le)
  then show ?thesis using ij(1) by simp
qed

section \<open>The bitmap marks the data of push instructions\<close>

definition marked :: "bitvec \<Rightarrow> nat \<Rightarrow> bool" where
  "marked bits q \<longleftrightarrow> q div 8 < length bits \<and> bit (bits ! (q div 8)) (7 - q mod 8)"

lemma bit_0x80: "bit (drop_bit n (0x80 :: byte)) i \<longleftrightarrow> n \<le> 7 \<and> i = 7 - n"
proof -
  have e: "(0x80 :: byte) = push_bit 7 1" by simp
  have "bit (drop_bit n (0x80 :: byte)) i \<longleftrightarrow> n + i = 7"
    unfolding e by (simp only: bit_drop_bit_eq bit_push_bit_iff bit_1_iff comp_apply) auto
  then show ?thesis by auto
qed

lemma bit_0xFF: "bit (drop_bit n (0xFF :: byte)) i \<longleftrightarrow> n + i < 8"
proof -
  have e: "(0xFF :: byte) = mask 8" by (simp add: mask_eq_exp_minus_1)
  show ?thesis unfolding e by (simp only: bit_drop_bit_eq bit_mask_iff comp_apply) auto
qed

lemma or_at_marked:
  assumes "i < length bits"
  shows "\<exists>bits'. or_at i m bits = Ret bits' \<and> length bits' = length bits \<and>
    (\<forall>q. marked bits' q \<longleftrightarrow> marked bits q \<or> q div 8 = i \<and> bit m (7 - q mod 8))"
  using assms by (auto simp: or_at_def marked_def nth_list_update bit_simps)

lemma split8:
  obtains a r where "q = 8 * a + r" and "r < 8" and "(q :: nat) div 8 = a" and "q mod 8 = r"
  by (metis mult_div_mod_eq mod_less_divisor zero_less_numeral)

lemma bit_range8:
  fixes q pos :: nat
  shows "q div 8 = pos div 8 \<and> pos mod 8 \<le> 7 \<and> 7 - q mod 8 = 7 - pos mod 8 \<longleftrightarrow> q = pos"
    and "q div 8 = pos div 8 \<and> pos mod 8 + (7 - q mod 8) < 8 \<longleftrightarrow> q div 8 = pos div 8 \<and> pos \<le> q"
    and "q div 8 = pos div 8 + 1 \<and> \<not> pos mod 8 + (7 - q mod 8) < 8 \<longleftrightarrow> q div 8 = pos div 8 + 1 \<and> q < pos + 8"
    and "q div 8 = pos div 8 \<and> pos \<le> q \<or> q div 8 = pos div 8 + 1 \<and> q < pos + 8 \<longleftrightarrow> pos \<le> q \<and> q < pos + 8"
proof -
  obtain a r where q: "q = 8 * a + r" "r < 8" and qd: "q div 8 = a" "q mod 8 = r" by (rule split8)
  obtain b t where p: "pos = 8 * b + t" "t < 8" and pd: "pos div 8 = b" "pos mod 8 = t" by (rule split8)
  show "q div 8 = pos div 8 \<and> pos mod 8 \<le> 7 \<and> 7 - q mod 8 = 7 - pos mod 8 \<longleftrightarrow> q = pos"
  proof
    assume "q div 8 = pos div 8 \<and> pos mod 8 \<le> 7 \<and> 7 - q mod 8 = 7 - pos mod 8"
    then show "q = pos" unfolding qd pd using q p by linarith
  qed (use p(2) pd in simp)
  show "q div 8 = pos div 8 \<and> pos mod 8 + (7 - q mod 8) < 8 \<longleftrightarrow> q div 8 = pos div 8 \<and> pos \<le> q"
    "q div 8 = pos div 8 + 1 \<and> \<not> pos mod 8 + (7 - q mod 8) < 8 \<longleftrightarrow> q div 8 = pos div 8 + 1 \<and> q < pos + 8"
    "q div 8 = pos div 8 \<and> pos \<le> q \<or> q div 8 = pos div 8 + 1 \<and> q < pos + 8 \<longleftrightarrow> pos \<le> q \<and> q < pos + 8"
    unfolding qd pd using q p by auto
qed

lemma set_marked:
  assumes "pos div 8 < length bits"
  shows "\<exists>bits'. bitvec_set pos bits = Ret bits' \<and> length bits' = length bits \<and>
    (\<forall>q. marked bits' q \<longleftrightarrow> marked bits q \<or> q = pos)"
proof -
  have "q div 8 = pos div 8 \<and> bit (drop_bit (pos mod 8) (0x80 :: byte)) (7 - q mod 8) \<longleftrightarrow> q = pos" for q
    unfolding bit_0x80 by (rule bit_range8)
  with or_at_marked [OF assms, of "drop_bit (pos mod 8) 0x80"] show ?thesis by (simp only: bitvec_set_def)
qed

lemma set8_marked:
  assumes "pos div 8 + 1 < length bits"
  shows "\<exists>bits'. bitvec_set8 pos bits = Ret bits' \<and> length bits' = length bits \<and>
    (\<forall>q. marked bits' q \<longleftrightarrow> marked bits q \<or> pos \<le> q \<and> q < pos + 8)"
proof -
  let ?m = "drop_bit (pos mod 8) (0xFF :: byte)"
  obtain b1 where b1: "or_at (pos div 8) ?m bits = Ret b1" "length b1 = length bits"
    "\<And>q. marked b1 q \<longleftrightarrow> marked bits q \<or> q div 8 = pos div 8 \<and> bit ?m (7 - q mod 8)"
    using or_at_marked [of "pos div 8" bits ?m] assms by auto
  obtain b2 where b2: "or_at (pos div 8 + 1) (NOT ?m) b1 = Ret b2" "length b2 = length b1"
    "\<And>q. marked b2 q \<longleftrightarrow> marked b1 q \<or> q div 8 = pos div 8 + 1 \<and> bit (NOT ?m) (7 - q mod 8)"
    using or_at_marked [of "pos div 8 + 1" b1 "NOT ?m"] assms b1(2) by auto
  have lo: "q div 8 = pos div 8 \<and> bit ?m (7 - q mod 8) \<longleftrightarrow> q div 8 = pos div 8 \<and> pos \<le> q" for q
    unfolding bit_0xFF by (rule bit_range8)
  have "bit (NOT ?m) (7 - q mod 8) \<longleftrightarrow> \<not> bit ?m (7 - q mod 8)" for q
    by (simp add: bit_not_iff less_imp_diff_less)
  then have hi: "q div 8 = pos div 8 + 1 \<and> bit (NOT ?m) (7 - q mod 8) \<longleftrightarrow> q div 8 = pos div 8 + 1 \<and> q < pos + 8" for q
    unfolding bit_0xFF by (simp only: bit_range8(3))
  have "marked b2 q \<longleftrightarrow> marked bits q \<or> pos \<le> q \<and> q < pos + 8" for q
    unfolding b2(3) b1(3) lo hi by (simp only: disj_assoc bit_range8(4))
  then show ?thesis using b1(1,2) b2(1,2) unfolding bitvec_set8_def by auto
qed

lemma set_ones_marked:
  assumes "(pc + n) div 8 < length bits"
  shows "\<exists>bits'. set_ones n pc bits = Ret bits' \<and> length bits' = length bits \<and>
    (\<forall>q. marked bits' q \<longleftrightarrow> marked bits q \<or> pc \<le> q \<and> q < pc + n)"
  using assms
proof (induction n arbitrary: pc bits)
  case (Suc n)
  have "pc div 8 < length bits" using Suc.prems div_le_mono [of pc "pc + Suc n" 8] by linarith
  from set_marked [OF this] obtain b1 where b1: "bitvec_set pc bits = Ret b1" "length b1 = length bits"
    "\<And>q. marked b1 q \<longleftrightarrow> marked bits q \<or> q = pc" by blast
  from Suc.IH [of "pc + 1" b1] Suc.prems b1(2) obtain b2 where b2: "set_ones n (pc + 1) b1 = Ret b2"
    "length b2 = length b1" "\<And>q. marked b2 q \<longleftrightarrow> marked b1 q \<or> pc + 1 \<le> q \<and> q < pc + 1 + n" by auto
  have "marked b2 q \<longleftrightarrow> marked bits q \<or> pc \<le> q \<and> q < pc + Suc n" for q
    unfolding b2(3) b1(3) by auto
  then show ?case using b1(1,2) b2(1,2) by auto
qed auto

lemma set_eights_marked:
  assumes "(pc + n) div 8 < length bits"
  shows "\<exists>bits'. set_eights n pc bits = Ret bits' \<and> length bits' = length bits \<and>
    (\<forall>q. marked bits' q \<longleftrightarrow> marked bits q \<or> pc \<le> q \<and> q < pc + n)"
  using assms
proof (induction n pc bits rule: set_eights.induct)
  case (1 n pc bits)
  show ?case
  proof (cases "n \<ge> 8")
    case True
    have "(pc + 8) div 8 \<le> (pc + n) div 8" using True by (intro div_le_mono) simp
    then have "pc div 8 + 1 < length bits" using 1(2) by simp
    from set8_marked [OF this] obtain b1 where b1: "bitvec_set8 pc bits = Ret b1" "length b1 = length bits"
      "\<And>q. marked b1 q \<longleftrightarrow> marked bits q \<or> pc \<le> q \<and> q < pc + 8" by blast
    from 1(1) [OF True b1(1)] 1(2) True b1(2) obtain b2 where b2: "set_eights (n - 8) (pc + 8) b1 = Ret b2"
      "length b2 = length b1" "\<And>q. marked b2 q \<longleftrightarrow> marked b1 q \<or> pc + 8 \<le> q \<and> q < pc + 8 + (n - 8)" by auto
    have "marked b2 q \<longleftrightarrow> marked bits q \<or> pc \<le> q \<and> q < pc + n" for q
      unfolding b2(3) b1(3) using True by auto
    then show ?thesis using b1(1,2) b2(1,2) True by (subst set_eights.simps) auto
  next
    case False
    then show ?thesis using set_ones_marked [OF 1(2)] by (subst set_eights.simps) simp
  qed
qed

lemma push_len_range: "is_push op \<Longrightarrow> 1 \<le> push_len op \<and> push_len op \<le> 32"
  by (simp add: is_push_def push_len_def word_le_nat_alt unat_word_ariths unat_sub) linarith

definition bitmap_inv :: "bytes \<Rightarrow> nat \<Rightarrow> bitvec \<Rightarrow> bool" where
  "bitmap_inv code pc bits \<longleftrightarrow> instr code pc \<and> length bits = length code div 8 + 5 \<and>
     (\<forall>q. marked bits q \<longleftrightarrow> q < pc \<and> \<not> instr code q)"

lemma instr_below:
  assumes "instr code pc" and "pc < length code"
  shows "q < next_instr code pc \<and> \<not> instr code q \<longleftrightarrow> (q < pc \<and> \<not> instr code q) \<or> pc < q \<and> q < next_instr code pc"
  using instr_gap [OF assms(1), of q] assms next_instr_gt [of pc code]
  by (cases q pc rule: linorder_cases) auto

lemma bitmap_loop_inv:
  assumes "bitmap_inv code pc bits"
  shows "\<exists>pc' bits'. bitmap_loop code pc bits = Ret bits' \<and> bitmap_inv code pc' bits' \<and> length code \<le> pc'"
  using assms
proof (induction code pc bits rule: bitmap_loop.induct)
  case (1 code pc bits)
  show ?case
  proof (cases "pc < length code")
    case True
    let ?op = "code ! pc" and ?n = "next_instr code pc"
    have inv: "instr code pc" "length bits = length code div 8 + 5" "\<And>q. marked bits q \<longleftrightarrow> q < pc \<and> \<not> instr code q"
      using 1(3) by (auto simp: bitmap_inv_def)
    note nxt = instr_next [OF inv(1) True] and below = instr_below [OF inv(1) True]
    show ?thesis
    proof (cases "is_push ?op")
      case push: True
      have n: "?n = pc + 1 + push_len ?op" using True push by (simp add: next_instr_def)
      have "pc + 1 + push_len ?op \<le> length code + 32" using push_len_range [OF push] True by linarith
      then have "(pc + 1 + push_len ?op) div 8 \<le> (length code + 4 * 8) div 8" by (intro div_le_mono) simp
      then have "(pc + 1 + push_len ?op) div 8 < length bits" using inv(2) by simp
      from set_eights_marked [OF this] obtain b1 where b1: "set_eights (push_len ?op) (pc + 1) bits = Ret b1"
        "length b1 = length bits" "\<And>q. marked b1 q \<longleftrightarrow> marked bits q \<or> pc + 1 \<le> q \<and> q < pc + 1 + push_len ?op" by blast
      have "bitmap_inv code ?n b1" unfolding bitmap_inv_def b1(3) inv(3) below
        using nxt b1(2) inv(2) n by auto
      from 1(1) [OF True refl push b1(1)] this n show ?thesis
        using True push b1(1) by (subst bitmap_loop.simps) (simp add: Let_def)
    next
      case False
      then have n: "?n = pc + 1" by (simp add: next_instr_def)
      have "bitmap_inv code ?n bits" unfolding bitmap_inv_def inv(3) below using nxt inv(2) n by auto
      from 1(2) [OF True refl False] this n show ?thesis
        using True False by (subst bitmap_loop.simps) (simp add: Let_def)
    qed
  next
    case False
    then show ?thesis using 1(3) by (subst bitmap_loop.simps) auto
  qed
qed

lemma zero_iff_bits: "(w :: byte) = 0 \<longleftrightarrow> (\<forall>i. \<not> bit w i)"
  by (auto intro: bit_word_eqI)

lemma codeBitmap_ok:
  "\<exists>m. codeBitmap code = Ret m \<and> length m = length code div 8 + 5 \<and>
    (\<forall>q < length code. codeSegment q m = Ret (instr code q))"
proof -
  let ?z = "replicate (length code div 8 + 1 + 4) (0 :: byte)"
  have "bitmap_inv code 0 ?z" by (auto simp: bitmap_inv_def marked_def instr_zero)
  from bitmap_loop_inv [OF this] obtain pc' m where m: "codeBitmap code = Ret m" "bitmap_inv code pc' m" "length code \<le> pc'"
    by (auto simp: codeBitmap_def)
  have "codeSegment q m = Ret (instr code q)" if "q < length code" for q
  proof -
    have le: "q div 8 \<le> length code div 8" using that by (intro div_le_mono) simp
    have "m ! (q div 8) AND drop_bit (q mod 8) 0x80 = 0 \<longleftrightarrow> \<not> bit (m ! (q div 8)) (7 - q mod 8)"
      unfolding zero_iff_bits by (auto simp: bit_and_iff bit_0x80)
    moreover have "marked m q \<longleftrightarrow> \<not> instr code q" using m(2,3) that by (simp add: bitmap_inv_def)
    ultimately show ?thesis using m(2) le by (simp add: codeSegment_def bitmap_inv_def marked_def)
  qed
  then show ?thesis using m by (auto simp: bitmap_inv_def)
qed

section \<open>Valid jump destinations\<close>

definition valid_jump :: "bytes \<Rightarrow> int \<Rightarrow> bool" where
  "valid_jump code dest \<longleftrightarrow> 0 \<le> dest \<and> dest < int (length code) \<and> code ! nat dest = JUMPDEST \<and> instr code (nat dest)"

lemma destinations_has_ok:
  assumes "0 \<le> dest" and "length code < 2 ^ 62"
    and "case d codehash of None \<Rightarrow> True | Some m \<Rightarrow> codeBitmap code = Ret m"
  shows "\<exists>d'. destinations_has codehash code dest d = Ret (valid_jump code dest, d') \<and>
    (d' = d \<or> (\<exists>m. codeBitmap code = Ret m \<and> d' = d(codehash \<mapsto> m)))"
proof (cases "BitLen dest \<ge> 63 \<or> unat (big_Uint64 dest) \<ge> length code")
  case True
  have "\<not> dest < int (length code)"
  proof
    assume less: "dest < int (length code)"
    then have "dest < 2 ^ 62" using assms(2) by simp
    then have "BitLen dest \<le> 62" using BitLen_le [OF assms(1), of 62] by simp
    moreover have "unat (big_Uint64 dest) = nat dest" using \<open>dest < 2 ^ 62\<close> assms(1) by (intro big_Uint64_small) auto
    ultimately show False using True less assms(1) by auto
  qed
  then show ?thesis using True by (auto simp: destinations_has_def valid_jump_def)
next
  case False
  then have "dest < 2 ^ 62" using BitLen_le [OF assms(1), of 62] by simp
  then have u: "unat (big_Uint64 dest) = nat dest" using assms(1) by (intro big_Uint64_small) auto
  obtain m where m: "codeBitmap code = Ret m" "\<forall>q < length code. codeSegment q m = Ret (instr code q)"
    using codeBitmap_ok by blast
  have lt: "nat dest < length code" using False u by simp
  then have vj: "valid_jump code dest \<longleftrightarrow> code ! nat dest = JUMPDEST \<and> instr code (nat dest)"
    using assms(1) by (auto simp: valid_jump_def)
  show ?thesis
  proof (cases "d codehash")
    case None
    then have "destinations_has codehash code dest d = Ret (valid_jump code dest, d(codehash \<mapsto> m))"
      using False u m lt vj by (simp add: destinations_has_def Let_def)
    then show ?thesis using m(1) by blast
  next
    case (Some m')
    then have "destinations_has codehash code dest d = Ret (valid_jump code dest, d)"
      using False u m lt vj assms(3) by (simp add: destinations_has_def Let_def)
    then show ?thesis by blast
  qed
qed

end
