(* ===== verification/Evm_Types.thy ===== *)
theory Evm_Types
  imports Evm_Analysis Log_Bloom
begin

text \<open>
  The objects of the virtual machine (\<open>src/core/vm/contract.go\<close>, \<open>interface.go\<close>, \<open>evm.go\<close>,
  \<open>interpreter.go\<close>).  What does not change while a transaction runs is in \<open>evm_env\<close>: the block context,
  the implementation of the state interface, the chain configuration, the hash function and the
  native cryptography.  What changes is in \<open>EVM\<close> (for all frames) and \<open>frame\<close> (the local variables of
  one \<open>Interpreter.Run\<close>).

  The state is any type \<open>'s\<close> with the operations of the interface \<open>StateDB\<close>; reading may fill caches
  of an implementation, which the interface does not show, so reads are functions of the state.
\<close>

section \<open>Contracts\<close>

text \<open>A \<open>ContractRef\<close> is an account or a pointer to a calling contract.  Through the pointer the code
  reads the address, the caller, the value and the shared map of jump destinations.\<close>

datatype ContractRef =
    AccountRef (ref_Address: bytes)
  | ContractPtr (ref_Address: bytes) (ref_Caller: bytes) (ref_value: "int option") (ref_jumpdests: destinations)

record Contract =
  CallerAddress :: bytes
  caller :: ContractRef
  c_self :: bytes
  jumpdests :: destinations
  Code :: bytes
  CodeHash :: bytes
  CodeAddr :: "bytes option"
  Input :: bytes
  Gas :: u64
  c_value :: "int option"
  c_DelegateCall :: bool

definition zero_hash32 :: bytes where
  "zero_hash32 = replicate 32 0"

definition NewContract :: "ContractRef \<Rightarrow> bytes \<Rightarrow> int option \<Rightarrow> u64 \<Rightarrow> Contract" where
  "NewContract cref obj val gas =
     \<lparr>CallerAddress = ref_Address cref, caller = cref, c_self = obj,
      jumpdests = (case cref of ContractPtr _ _ _ d \<Rightarrow> d | AccountRef _ \<Rightarrow> Map.empty),
      Code = [], CodeHash = zero_hash32, CodeAddr = None, Input = [], Gas = gas, c_value = val, c_DelegateCall = False\<rparr>"

definition AsDelegate :: "Contract \<Rightarrow> Contract go" where
  "AsDelegate c =
     (case caller c of
        ContractPtr _ pcaller pvalue _ \<Rightarrow> Ret (c\<lparr>c_DelegateCall := True, CallerAddress := pcaller, c_value := pvalue\<rparr>)
      | AccountRef _ \<Rightarrow> Panic)"

definition GetByte :: "u64 \<Rightarrow> Contract \<Rightarrow> byte" where
  "GetByte n c = (if unat n < length (Code c) then Code c ! unat n else 0)"

definition GetOp :: "u64 \<Rightarrow> Contract \<Rightarrow> byte" where
  "GetOp n c = GetByte n c"

definition UseGas :: "u64 \<Rightarrow> Contract \<Rightarrow> bool \<times> Contract" where
  "UseGas gas c = (if Gas c < gas then (False, c) else (True, c\<lparr>Gas := Gas c - gas\<rparr>))"

definition SetCallCode :: "bytes \<Rightarrow> bytes \<Rightarrow> bytes \<Rightarrow> Contract \<Rightarrow> Contract" where
  "SetCallCode addr hash code c = c\<lparr>Code := code, CodeHash := hash, CodeAddr := Some addr\<rparr>"

definition contract_ref :: "Contract \<Rightarrow> ContractRef" where
  "contract_ref c = ContractPtr (c_self c) (CallerAddress c) (c_value c) (jumpdests c)"

section \<open>The state interface\<close>

record 's StateDB =
  db_CreateAccount :: "'s \<Rightarrow> bytes \<Rightarrow> 's"
  db_SubBalance :: "'s \<Rightarrow> bytes \<Rightarrow> int \<Rightarrow> 's"
  db_AddBalance :: "'s \<Rightarrow> bytes \<Rightarrow> int \<Rightarrow> 's"
  db_GetBalance :: "'s \<Rightarrow> bytes \<Rightarrow> int"
  db_GetNonce :: "'s \<Rightarrow> bytes \<Rightarrow> u64"
  db_SetNonce :: "'s \<Rightarrow> bytes \<Rightarrow> u64 \<Rightarrow> 's"
  db_GetCodeHash :: "'s \<Rightarrow> bytes \<Rightarrow> bytes"
  db_GetCode :: "'s \<Rightarrow> bytes \<Rightarrow> bytes"
  db_SetCode :: "'s \<Rightarrow> bytes \<Rightarrow> bytes \<Rightarrow> 's"
  db_GetCodeSize :: "'s \<Rightarrow> bytes \<Rightarrow> int"
  db_AddRefund :: "'s \<Rightarrow> int \<Rightarrow> 's"
  db_GetRefund :: "'s \<Rightarrow> int"
  db_GetState :: "'s \<Rightarrow> bytes \<Rightarrow> bytes \<Rightarrow> bytes"
  db_SetState :: "'s \<Rightarrow> bytes \<Rightarrow> bytes \<Rightarrow> bytes \<Rightarrow> 's"
  db_Suicide :: "'s \<Rightarrow> bytes \<Rightarrow> bool \<times> 's"
  db_HasSuicided :: "'s \<Rightarrow> bytes \<Rightarrow> bool"
  db_Exist :: "'s \<Rightarrow> bytes \<Rightarrow> bool"
  db_Empty :: "'s \<Rightarrow> bytes \<Rightarrow> bool"
  db_RevertToSnapshot :: "'s \<Rightarrow> nat \<Rightarrow> 's go"
  db_Snapshot :: "'s \<Rightarrow> nat \<times> 's"
  db_AddLog :: "'s \<Rightarrow> Log \<Rightarrow> 's"
  db_AddPreimage :: "'s \<Rightarrow> bytes \<Rightarrow> bytes \<Rightarrow> 's"

section \<open>The machine\<close>

record 's Context =
  CanTransfer :: "'s \<Rightarrow> bytes \<Rightarrow> int \<Rightarrow> bool"
  Transfer :: "'s \<Rightarrow> bytes \<Rightarrow> bytes \<Rightarrow> int \<Rightarrow> 's"
  GetHash :: "u64 \<Rightarrow> bytes"
  Origin :: bytes
  GasPrice :: int
  Coinbase :: bytes
  GasLimit :: int
  BlockNumber :: int
  cx_Time :: int
  cx_Difficulty :: int

text \<open>Of \<open>Config\<close> the fields that change what is computed; the tracer and the unused fields of the
  compiler are left out.\<close>

record Config =
  NoRecursion :: bool
  DisableGasMetering :: bool
  EnablePreimageRecording :: bool

text \<open>Native cryptography: SHA-256, RIPEMD-160, public key recovery (\<open>crypto.Ecrecover\<close>) and the three
  operations on the curve of \<open>crypto/bn256\<close> on marshalled points.\<close>

record native =
  nat_sha256 :: "bytes \<Rightarrow> bytes"
  nat_ripemd160 :: "bytes \<Rightarrow> bytes"
  nat_Ecrecover :: "bytes \<Rightarrow> bytes \<Rightarrow> bytes option"
  nat_bn256Add :: "bytes \<Rightarrow> bytes \<Rightarrow> vm_error + bytes"
  nat_bn256ScalarMul :: "bytes \<Rightarrow> int \<Rightarrow> vm_error + bytes"
  nat_bn256Pairing :: "(bytes \<times> bytes) list \<Rightarrow> vm_error + bool"

record 's evm_env =
  e_Context :: "'s Context"
  e_db :: "'s StateDB"
  e_chainConfig :: ChainConfig
  e_vmConfig :: Config
  e_kec :: "bytes \<Rightarrow> bytes"
  e_native :: native

text \<open>\<open>abort\<close> is read before every instruction and can be set by another goroutine: \<open>Some n\<close> is a
  machine that is cancelled after \<open>n\<close> more instructions, \<open>None\<close> one that is not.\<close>

record 's EVM =
  e_StateDB :: 's
  e_depth :: nat
  e_abort :: "nat option"
  e_readOnly :: bool
  e_returnData :: bytes

record 's frame =
  f_pc :: u64
  f_mem :: Memory
  f_stack :: stack
  f_contract :: Contract
  f_evm :: "'s EVM"

definition blockNumber :: "'s evm_env \<Rightarrow> int option" where
  "blockNumber env = Some (BlockNumber (e_Context env))"

definition gasTable :: "'s evm_env \<Rightarrow> GasTable" where
  "gasTable env = GasTable_of (e_chainConfig env) (blockNumber env)"

definition f_db :: "'s frame \<Rightarrow> 's" where
  "f_db f = e_StateDB (f_evm f)"

definition set_db :: "'s \<Rightarrow> 's frame \<Rightarrow> 's frame" where
  "set_db s f = f\<lparr>f_evm := (f_evm f)\<lparr>e_StateDB := s\<rparr>\<rparr>"

text \<open>An instruction returns data or an error and the new frame; calls may not return.  The result of
  running a contract is \<open>(ret, err)\<close>, both of which the callers use.\<close>

type_synonym 's exec = "'s frame \<Rightarrow> ((vm_error + bytes) \<times> 's frame) go"
type_synonym ret_err = "bytes \<times> vm_error option"
type_synonym 's runner = "'s EVM \<Rightarrow> Contract \<Rightarrow> bytes \<Rightarrow> (ret_err \<times> Contract \<times> 's EVM) go option"

definition BigToAddress :: "int \<Rightarrow> bytes" where
  "BigToAddress b = BytesToAddress (nat_bytes (nat \<bar>b\<bar>))"

definition BigToHash :: "int \<Rightarrow> bytes" where
  "BigToHash b = BytesToHash (nat_bytes (nat \<bar>b\<bar>))"

definition EmptyHash :: "bytes \<Rightarrow> bool" where
  "EmptyHash h \<longleftrightarrow> h = zero_hash32"

text \<open>\<open>Big\<close> of a hash or an address, and \<open>SetBytes\<close> of a \<open>big.Int\<close>.\<close>

definition big_SetBytes :: "bytes \<Rightarrow> int" where
  "big_SetBytes b = int (be_nat b)"

end
