(* ===== verification/Evm_Calls.thy ===== *)
theory Evm_Calls
  imports Evm_Types
begin

text \<open>
  Precompiled contracts (\<open>src/core/vm/contracts.go\<close>) and the entry points of the machine
  (\<open>src/core/vm/evm.go\<close>): calls, the three variants that run foreign code, and contract creation.
  They run code through the argument \<open>run\<close>, which the interpreter instantiates; its result is
  \<open>None\<close> when it does not return.
\<close>

section \<open>Precompiled contracts\<close>

datatype PrecompiledContract =
    ecrecover | sha256hash | ripemd160hash | dataCopy | bigModExp | bn256Add | bn256ScalarMul | bn256Pairing

definition PrecompiledContractsHomestead :: "bytes \<rightharpoonup> PrecompiledContract" where
  "PrecompiledContractsHomestead = map_of
     [(BytesToAddress [1], ecrecover), (BytesToAddress [2], sha256hash), (BytesToAddress [3], ripemd160hash),
      (BytesToAddress [4], dataCopy)]"

definition PrecompiledContractsByzantium :: "bytes \<rightharpoonup> PrecompiledContract" where
  "PrecompiledContractsByzantium = map_of
     [(BytesToAddress [1], ecrecover), (BytesToAddress [2], sha256hash), (BytesToAddress [3], ripemd160hash),
      (BytesToAddress [4], dataCopy), (BytesToAddress [5], bigModExp), (BytesToAddress [6], bn256Add),
      (BytesToAddress [7], bn256ScalarMul), (BytesToAddress [8], bn256Pairing)]"

definition precompiles :: "'s evm_env \<Rightarrow> bytes \<rightharpoonup> PrecompiledContract" where
  "precompiles env =
     (if IsByzantium (e_chainConfig env) (blockNumber env) then PrecompiledContractsByzantium
      else PrecompiledContractsHomestead)"

text \<open>The price of a word of input, and its quadratic part for modular exponentiation.\<close>

definition words_price :: "bytes \<Rightarrow> u64 \<Rightarrow> u64 \<Rightarrow> u64" where
  "words_price input perWord base = word_of_nat (length input + 31) div 32 * perWord + base"

definition big_data :: "bytes \<Rightarrow> u64 \<Rightarrow> u64 \<Rightarrow> int go" where
  "big_data input start sz = go_bind (getData input start sz) (\<lambda>b. Ret (big_SetBytes b))"

definition modexp_expHead :: "bytes \<Rightarrow> int \<Rightarrow> int \<Rightarrow> int go" where
  "modexp_expHead input baseLen expLen =
     (if int (length input) \<le> baseLen then Ret 0
      else if expLen > 32 then big_data input (big_Uint64 baseLen) 32
      else big_data input (big_Uint64 baseLen) (big_Uint64 expLen))"

definition modexp_complexity :: "int \<Rightarrow> int" where
  "modexp_complexity gas =
     (if gas \<le> 64 then gas * gas
      else if gas \<le> 1024 then gas * gas div 4 + (96 * gas - 3072)
      else gas * gas div 16 + (480 * gas - 199680))"

definition bigModExp_RequiredGas :: "bytes \<Rightarrow> u64 go" where
  "bigModExp_RequiredGas input =
     go_bind (big_data input 0 32) (\<lambda>baseLen. go_bind (big_data input 32 32) (\<lambda>expLen.
     go_bind (big_data input 64 32) (\<lambda>modLen.
     go_bind (modexp_expHead (drop 96 input) baseLen expLen) (\<lambda>expHead.
       let msb = (if BitLen expHead > 0 then BitLen expHead - 1 else 0);
           adjExpLen = (if expLen > 32 then 8 * (expLen - 32) else 0) + int msb;
           gas = modexp_complexity (BigMax modLen baseLen) * BigMax adjExpLen 1 div 20
       in Ret (if BitLen gas > 64 then MaxUint64 else big_Uint64 gas)))))"

text \<open>\<open>base.Exp(base, exp, mod)\<close> of \<open>math/big\<close>, for a positive modulus.\<close>

function mod_exp :: "nat \<Rightarrow> nat \<Rightarrow> nat \<Rightarrow> nat" where
  "mod_exp b e m =
     (if e = 0 then 1 mod m
      else if even e then mod_exp (b * b mod m) (e div 2) m
      else b * mod_exp (b * b mod m) (e div 2) m mod m)"
  by pat_completeness auto
termination
  by (relation "measure (\<lambda>(b, e, m). e)") auto

declare mod_exp.simps [simp del]

definition bigModExp_Run :: "bytes \<Rightarrow> ret_err go" where
  "bigModExp_Run input =
     go_bind (big_data input 0 32) (\<lambda>baseLen'. go_bind (big_data input 32 32) (\<lambda>expLen'.
     go_bind (big_data input 64 32) (\<lambda>modLen'.
       let baseLen = big_Uint64 baseLen'; expLen = big_Uint64 expLen'; modLen = big_Uint64 modLen';
           rest = drop 96 input in
       if baseLen = 0 \<and> modLen = 0 then Ret ([], None)
       else
         go_bind (big_data rest 0 baseLen) (\<lambda>base. go_bind (big_data rest baseLen expLen) (\<lambda>ex.
         go_bind (big_data rest (baseLen + expLen) modLen) (\<lambda>m.
           if m = 0 then Ret (LeftPadBytes [] (sint modLen), None)
           else Ret (LeftPadBytes (nat_bytes (mod_exp (nat base) (nat ex) (nat m))) (sint modLen), None)))))))"

text \<open>\<open>ValidateSignatureValues\<close> without the homestead rule; the order of the curve is \<open>secp256k1_N\<close>.\<close>

definition secp256k1_N :: int where
  "secp256k1_N = 0xfffffffffffffffffffffffffffffffebaaedce6af48a03bbfd25e8cd0364141"

definition ValidateSignatureValues :: "byte \<Rightarrow> int \<Rightarrow> int \<Rightarrow> bool \<Rightarrow> bool" where
  "ValidateSignatureValues v r s homestead \<longleftrightarrow>
     \<not> (r < 1 \<or> s < 1) \<and> \<not> (homestead \<and> s > secp256k1_N div 2) \<and>
     r < secp256k1_N \<and> s < secp256k1_N \<and> (v = 0 \<or> v = 1)"

definition ecrecover_Run :: "'s evm_env \<Rightarrow> bytes \<Rightarrow> ret_err" where
  "ecrecover_Run env input0 =
     (let input = RightPadBytes input0 128;
          r = big_SetBytes (take 32 (drop 64 input));
          s = big_SetBytes (take 32 (drop 96 input));
          v = input ! 63 - 27 in
      if \<not> allZero (take 31 (drop 32 input)) \<or> \<not> ValidateSignatureValues v r s False then ([], None)
      else (case nat_Ecrecover (e_native env) (take 32 input) (take 64 (drop 64 input) @ [v]) of
          None \<Rightarrow> ([], None)
        | Some pubKey \<Rightarrow> (LeftPadBytes (drop 12 (e_kec env (drop 1 pubKey))) 32, None)))"

definition pair_result :: "vm_error + bytes \<Rightarrow> ret_err" where
  "pair_result r = (case r of Inl e \<Rightarrow> ([], Some e) | Inr b \<Rightarrow> (b, None))"

function pairing_points :: "bytes \<Rightarrow> (bytes \<times> bytes) list" where
  "pairing_points input =
     (if input = [] then [] else (take 64 input, take 128 (drop 64 input)) # pairing_points (drop 192 input))"
  by pat_completeness auto
termination
  by (relation "measure length") auto

declare pairing_points.simps [simp del]

definition RequiredGas :: "PrecompiledContract \<Rightarrow> bytes \<Rightarrow> u64 go" where
  "RequiredGas p input =
     (case p of
        ecrecover \<Rightarrow> Ret 3000
      | sha256hash \<Rightarrow> Ret (words_price input 12 60)
      | ripemd160hash \<Rightarrow> Ret (words_price input 120 600)
      | dataCopy \<Rightarrow> Ret (words_price input 3 15)
      | bigModExp \<Rightarrow> bigModExp_RequiredGas input
      | bn256Add \<Rightarrow> Ret 500
      | bn256ScalarMul \<Rightarrow> Ret 40000
      | bn256Pairing \<Rightarrow> Ret (100000 + word_of_nat (length input div 192) * 80000))"

definition Precompiled_Run :: "'s evm_env \<Rightarrow> PrecompiledContract \<Rightarrow> bytes \<Rightarrow> ret_err go" where
  "Precompiled_Run env p input =
     (case p of
        ecrecover \<Rightarrow> Ret (ecrecover_Run env input)
      | sha256hash \<Rightarrow> Ret (nat_sha256 (e_native env) input, None)
      | ripemd160hash \<Rightarrow> Ret (LeftPadBytes (nat_ripemd160 (e_native env) input) 32, None)
      | dataCopy \<Rightarrow> Ret (input, None)
      | bigModExp \<Rightarrow> bigModExp_Run input
      | bn256Add \<Rightarrow>
          go_bind (getData input 0 64) (\<lambda>x. go_bind (getData input 64 64) (\<lambda>y.
            Ret (pair_result (nat_bn256Add (e_native env) x y))))
      | bn256ScalarMul \<Rightarrow>
          go_bind (getData input 0 64) (\<lambda>p. go_bind (big_data input 64 32) (\<lambda>k.
            Ret (pair_result (nat_bn256ScalarMul (e_native env) p k))))
      | bn256Pairing \<Rightarrow>
          if length input mod 192 > 0 then Ret ([], Some ErrBadPairingInput)
          else (case nat_bn256Pairing (e_native env) (pairing_points input) of
              Inl e \<Rightarrow> Ret ([], Some e)
            | Inr b \<Rightarrow> Ret (replicate 31 0 @ [if b then 1 else 0], None)))"

definition RunPrecompiledContract :: "'s evm_env \<Rightarrow> PrecompiledContract \<Rightarrow> bytes \<Rightarrow> Contract \<Rightarrow> (ret_err \<times> Contract) go" where
  "RunPrecompiledContract env p input contract =
     go_bind (RequiredGas p input) (\<lambda>gas.
       case UseGas gas contract of
         (True, contract') \<Rightarrow> go_bind (Precompiled_Run env p input) (\<lambda>r. Ret (r, contract'))
       | (False, contract') \<Rightarrow> Ret (([], Some ErrOutOfGas), contract'))"

section \<open>Calls\<close>

text \<open>The end of every call: on an error the state is reverted, and unless the code asked for it the
  rest of the gas is consumed.\<close>

definition end_call :: "'s evm_env \<Rightarrow> nat \<Rightarrow> (ret_err \<times> Contract \<times> 's EVM) go option \<Rightarrow>
    ((bytes \<times> u64 \<times> vm_error option) \<times> destinations \<times> 's EVM) go option" where
  "end_call env snapshot m =
     (case m of
        None \<Rightarrow> None
      | Some Panic \<Rightarrow> Some Panic
      | Some (Ret ((ret, None), contract, evm)) \<Rightarrow> Some (Ret ((ret, Gas contract, None), jumpdests contract, evm))
      | Some (Ret ((ret, Some err), contract, evm)) \<Rightarrow>
          Some (go_bind (db_RevertToSnapshot (e_db env) (e_StateDB evm) snapshot) (\<lambda>s.
            let contract' = (if err \<noteq> ErrExecutionReverted then snd (UseGas (Gas contract) contract) else contract)
            in Ret ((ret, Gas contract', Some err), jumpdests contract', evm\<lparr>e_StateDB := s\<rparr>))))"

definition no_recursion :: "'s evm_env \<Rightarrow> 's EVM \<Rightarrow> bool" where
  "no_recursion env evm \<longleftrightarrow> NoRecursion (e_vmConfig env) \<and> e_depth evm > 0"

text \<open>The map of jump destinations a caller has when nothing was run.\<close>

definition caller_dests :: "ContractRef \<Rightarrow> destinations" where
  "caller_dests cref = (case cref of ContractPtr _ _ _ d \<Rightarrow> d | AccountRef _ \<Rightarrow> Map.empty)"

type_synonym 's call_result = "((bytes \<times> u64 \<times> vm_error option) \<times> destinations \<times> 's EVM) go option"

definition Call :: "'s evm_env \<Rightarrow> 's runner \<Rightarrow> 's EVM \<Rightarrow> ContractRef \<Rightarrow> bytes \<Rightarrow> bytes \<Rightarrow> u64 \<Rightarrow> int \<Rightarrow> 's call_result" where
  "Call env run evm cref addr input gas val =
     (let db = e_db env; cx = e_Context env in
      if no_recursion env evm then Some (Ret (([], gas, None), caller_dests cref, evm))
      else if e_depth evm > CallCreateDepth then Some (Ret (([], gas, Some ErrDepth), caller_dests cref, evm))
      else if \<not> CanTransfer cx (e_StateDB evm) (ref_Address cref) val
      then Some (Ret (([], gas, Some ErrInsufficientBalance), caller_dests cref, evm))
      else (case db_Snapshot db (e_StateDB evm) of (snapshot, s1) \<Rightarrow>
        if \<not> db_Exist db s1 addr \<and> precompiles env addr = None \<and> IsEIP158 (e_chainConfig env) (blockNumber env) \<and> val = 0
        then Some (Ret (([], gas, None), caller_dests cref, evm\<lparr>e_StateDB := s1\<rparr>))
        else
          let s2 = (if \<not> db_Exist db s1 addr then db_CreateAccount db s1 addr else s1);
              s3 = Transfer cx s2 (ref_Address cref) addr val;
              contract = SetCallCode addr (db_GetCodeHash db s3 addr) (db_GetCode db s3 addr) (NewContract cref addr (Some val) gas)
          in end_call env snapshot (run (evm\<lparr>e_StateDB := s3\<rparr>) contract input)))"

definition CallCode :: "'s evm_env \<Rightarrow> 's runner \<Rightarrow> 's EVM \<Rightarrow> ContractRef \<Rightarrow> bytes \<Rightarrow> bytes \<Rightarrow> u64 \<Rightarrow> int \<Rightarrow> 's call_result" where
  "CallCode env run evm cref addr input gas val =
     (let db = e_db env in
      if no_recursion env evm then Some (Ret (([], gas, None), caller_dests cref, evm))
      else if e_depth evm > CallCreateDepth then Some (Ret (([], gas, Some ErrDepth), caller_dests cref, evm))
      else if \<not> CanTransfer (e_Context env) (e_StateDB evm) (ref_Address cref) val
      then Some (Ret (([], gas, Some ErrInsufficientBalance), caller_dests cref, evm))
      else (case db_Snapshot db (e_StateDB evm) of (snapshot, s1) \<Rightarrow>
        let contract = SetCallCode addr (db_GetCodeHash db s1 addr) (db_GetCode db s1 addr)
              (NewContract cref (ref_Address cref) (Some val) gas)
        in end_call env snapshot (run (evm\<lparr>e_StateDB := s1\<rparr>) contract input)))"

definition DelegateCall :: "'s evm_env \<Rightarrow> 's runner \<Rightarrow> 's EVM \<Rightarrow> ContractRef \<Rightarrow> bytes \<Rightarrow> bytes \<Rightarrow> u64 \<Rightarrow> 's call_result" where
  "DelegateCall env run evm cref addr input gas =
     (let db = e_db env in
      if no_recursion env evm then Some (Ret (([], gas, None), caller_dests cref, evm))
      else if e_depth evm > CallCreateDepth then Some (Ret (([], gas, Some ErrDepth), caller_dests cref, evm))
      else (case db_Snapshot db (e_StateDB evm) of (snapshot, s1) \<Rightarrow>
        (case AsDelegate (NewContract cref (ref_Address cref) None gas) of
           Panic \<Rightarrow> Some Panic
         | Ret contract0 \<Rightarrow>
             let contract = SetCallCode addr (db_GetCodeHash db s1 addr) (db_GetCode db s1 addr) contract0
             in end_call env snapshot (run (evm\<lparr>e_StateDB := s1\<rparr>) contract input))))"

text \<open>\<open>StaticCall\<close> sets the flag that forbids changes of the state and resets it when it was the one
  that set it.\<close>

definition reset_readOnly :: "bool \<Rightarrow> 's call_result \<Rightarrow> 's call_result" where
  "reset_readOnly was r =
     (case r of Some (Ret (x, d, evm)) \<Rightarrow> Some (Ret (x, d, if was then evm else evm\<lparr>e_readOnly := False\<rparr>)) | _ \<Rightarrow> r)"

definition StaticCall :: "'s evm_env \<Rightarrow> 's runner \<Rightarrow> 's EVM \<Rightarrow> ContractRef \<Rightarrow> bytes \<Rightarrow> bytes \<Rightarrow> u64 \<Rightarrow> 's call_result" where
  "StaticCall env run evm cref addr input gas =
     (let db = e_db env in
      if no_recursion env evm then Some (Ret (([], gas, None), caller_dests cref, evm))
      else if e_depth evm > CallCreateDepth then Some (Ret (([], gas, Some ErrDepth), caller_dests cref, evm))
      else (case db_Snapshot db (e_StateDB evm) of (snapshot, s1) \<Rightarrow>
        let contract = SetCallCode addr (db_GetCodeHash db s1 addr) (db_GetCode db s1 addr)
              (NewContract cref addr (Some 0) gas)
        in reset_readOnly (e_readOnly evm)
             (end_call env snapshot (run (evm\<lparr>e_StateDB := s1, e_readOnly := True\<rparr>) contract input))))"

section \<open>Contract creation\<close>

definition CreateAddress :: "(bytes \<Rightarrow> bytes) \<Rightarrow> bytes \<Rightarrow> u64 \<Rightarrow> bytes" where
  "CreateAddress kec b nonce =
     (let data = (case EncodeToBytes (ListV [BytesV b, UintV nonce]) of Inr d \<Rightarrow> d | Inl _ \<Rightarrow> [])
      in BytesToAddress (drop 12 (kec data)))"

text \<open>What happens after the constructor has run: storing the code costs gas, code above the maximal
  size is an error.\<close>

definition store_code :: "'s evm_env \<Rightarrow> bytes \<Rightarrow> bytes \<Rightarrow> Contract \<Rightarrow> 's EVM \<Rightarrow> vm_error option \<times> Contract \<times> 's EVM" where
  "store_code env contractAddr ret contract evm =
     (case UseGas (word_of_nat (length ret) * CreateDataGas) contract of (enough, contract') \<Rightarrow>
        if enough then (None, contract', evm\<lparr>e_StateDB := db_SetCode (e_db env) (e_StateDB evm) contractAddr ret\<rparr>)
        else (Some ErrCodeStoreOutOfGas, contract', evm))"

text \<open>On an error the state is reverted and the gas consumed; before homestead a contract whose code
  could not be paid for stays without code.\<close>

definition revert_create :: "'s evm_env \<Rightarrow> nat \<Rightarrow> bool \<Rightarrow> vm_error option \<Rightarrow> Contract \<Rightarrow> 's EVM \<Rightarrow> (Contract \<times> 's EVM) go" where
  "revert_create env snapshot maxCodeSizeExceeded err contract evm =
     (if maxCodeSizeExceeded \<or>
         (err \<noteq> None \<and> (IsHomestead (e_chainConfig env) (blockNumber env) \<or> err \<noteq> Some ErrCodeStoreOutOfGas))
      then go_bind (db_RevertToSnapshot (e_db env) (e_StateDB evm) snapshot) (\<lambda>s.
        Ret (if err \<noteq> Some ErrExecutionReverted then snd (UseGas (Gas contract) contract) else contract, evm\<lparr>e_StateDB := s\<rparr>))
      else Ret (contract, evm))"

definition end_create :: "'s evm_env \<Rightarrow> nat \<Rightarrow> bytes \<Rightarrow> (ret_err \<times> Contract \<times> 's EVM) go option \<Rightarrow>
    ((bytes \<times> bytes \<times> u64 \<times> vm_error option) \<times> destinations \<times> 's EVM) go option" where
  "end_create env snapshot contractAddr m =
     (case m of
        None \<Rightarrow> None
      | Some Panic \<Rightarrow> Some Panic
      | Some (Ret ((ret, err0), contract0, evm0)) \<Rightarrow>
          (let maxCodeSizeExceeded = (IsEIP158 (e_chainConfig env) (blockNumber env) \<and> length ret > MaxCodeSize) in
           case (if err0 = None \<and> \<not> maxCodeSizeExceeded then store_code env contractAddr ret contract0 evm0
                 else (err0, contract0, evm0)) of (err, contract, evm) \<Rightarrow>
             Some (go_bind (revert_create env snapshot maxCodeSizeExceeded err contract evm) (\<lambda>(contract', evm').
               let err' = (if maxCodeSizeExceeded \<and> err = None then Some ErrMaxCodeSizeExceeded else err)
               in Ret ((ret, contractAddr, Gas contract', err'), jumpdests contract', evm')))))"

definition Create :: "'s evm_env \<Rightarrow> 's runner \<Rightarrow> 's EVM \<Rightarrow> ContractRef \<Rightarrow> bytes \<Rightarrow> u64 \<Rightarrow> int \<Rightarrow>
    ((bytes \<times> bytes \<times> u64 \<times> vm_error option) \<times> destinations \<times> 's EVM) go option" where
  "Create env run evm cref code gas val =
     (let db = e_db env; kec = e_kec env; cx = e_Context env; zero_addr = replicate 20 0; me = ref_Address cref in
      if e_depth evm > CallCreateDepth
      then Some (Ret (([], zero_addr, gas, Some ErrDepth), caller_dests cref, evm))
      else if \<not> CanTransfer cx (e_StateDB evm) me val
      then Some (Ret (([], zero_addr, gas, Some ErrInsufficientBalance), caller_dests cref, evm))
      else
        let nonce = db_GetNonce db (e_StateDB evm) me;
            s1 = db_SetNonce db (e_StateDB evm) me (nonce + 1);
            contractAddr = CreateAddress kec me nonce;
            contractHash = db_GetCodeHash db s1 contractAddr in
        if db_GetNonce db s1 contractAddr \<noteq> 0 \<or> (contractHash \<noteq> zero_hash32 \<and> contractHash \<noteq> kec [])
        then Some (Ret (([], zero_addr, 0, Some ErrContractAddressCollision), caller_dests cref, evm\<lparr>e_StateDB := s1\<rparr>))
        else (case db_Snapshot db s1 of (snapshot, s2) \<Rightarrow>
          let s3 = db_CreateAccount db s2 contractAddr;
              s4 = (if IsEIP158 (e_chainConfig env) (blockNumber env) then db_SetNonce db s3 contractAddr 1 else s3);
              s5 = Transfer cx s4 me contractAddr val;
              contract = SetCallCode contractAddr (kec code) code (NewContract cref contractAddr (Some val) gas);
              evm5 = evm\<lparr>e_StateDB := s5\<rparr> in
          if no_recursion env evm then Some (Ret (([], contractAddr, gas, None), caller_dests cref, evm5))
          else end_create env snapshot contractAddr (run evm5 contract [])))"

end
