(* ===== verification/Evm_Instructions.thy ===== *)
theory Evm_Instructions
  imports Evm_Calls
begin

text \<open>
  The instructions of the virtual machine (\<open>src/core/vm/instructions.go\<close>), in the order of the source.
  An instruction pops its arguments; on a stack that is too short it panics, which the
  interpreter excludes by validating the stack first.
\<close>

definition set_stack :: "'s frame \<Rightarrow> stack \<Rightarrow> ((vm_error + bytes) \<times> 's frame) go" where
  "set_stack f st = Ret (Inr [], f\<lparr>f_stack := st\<rparr>)"

text \<open>Instructions that pop one, two or three numbers and push one.\<close>

definition stack_op1 :: "(int \<Rightarrow> int) \<Rightarrow> 's exec" where
  "stack_op1 g f = (case f_stack f of x # st \<Rightarrow> set_stack f (push (g x) st) | _ \<Rightarrow> Panic)"

definition stack_op2 :: "(int \<Rightarrow> int \<Rightarrow> int) \<Rightarrow> 's exec" where
  "stack_op2 g f = (case f_stack f of x # y # st \<Rightarrow> set_stack f (push (g x y) st) | _ \<Rightarrow> Panic)"

definition stack_op3 :: "(int \<Rightarrow> int \<Rightarrow> int \<Rightarrow> int) \<Rightarrow> 's exec" where
  "stack_op3 g f = (case f_stack f of x # y # z # st \<Rightarrow> set_stack f (push (g x y z) st) | _ \<Rightarrow> Panic)"

text \<open>Division of \<open>math/big\<close> is Euclidean.\<close>

definition big_Div :: "int \<Rightarrow> int \<Rightarrow> int" where
  "big_Div x y = sgn y * (x div \<bar>y\<bar>)"

definition big_Mod :: "int \<Rightarrow> int \<Rightarrow> int" where
  "big_Mod x y = x mod \<bar>y\<bar>"

definition of_test :: "bool \<Rightarrow> int" where
  "of_test b = (if b then 1 else 0)"

section \<open>Arithmetic\<close>

definition opAdd :: "'s exec" where
  "opAdd = stack_op2 (\<lambda>x y. U256 (x + y))"

definition opSub :: "'s exec" where
  "opSub = stack_op2 (\<lambda>x y. U256 (x - y))"

definition opMul :: "'s exec" where
  "opMul = stack_op2 (\<lambda>x y. U256 (x * y))"

definition opDiv :: "'s exec" where
  "opDiv = stack_op2 (\<lambda>x y. if y \<noteq> 0 then U256 (big_Div x y) else 0)"

definition opSdiv :: "'s exec" where
  "opSdiv = stack_op2 (\<lambda>x' y'.
     let x = S256 x'; y = S256 y' in
     if y = 0 then 0
     else let n = (if x * y < 0 then - 1 else 1) in U256 (big_Div \<bar>x\<bar> \<bar>y\<bar> * n))"

definition opMod :: "'s exec" where
  "opMod = stack_op2 (\<lambda>x y. if y = 0 then 0 else U256 (big_Mod x y))"

definition opSmod :: "'s exec" where
  "opSmod = stack_op2 (\<lambda>x' y'.
     let x = S256 x'; y = S256 y' in
     if y = 0 then 0
     else let n = (if x < 0 then - 1 else 1) in U256 (big_Mod \<bar>x\<bar> \<bar>y\<bar> * n))"

definition opExp :: "'s exec" where
  "opExp = stack_op2 (\<lambda>base exponent. Exp base exponent)"

definition opSignExtend :: "'s exec" where
  "opSignExtend f =
     (case f_stack f of
        ext # st \<Rightarrow>
          if ext < 31 then
            (case st of
               num # st' \<Rightarrow>
                 (let bitn = unat (big_Uint64 ext * 8 + 7); mask = 2 ^ bitn - 1 in
                  set_stack f (push (U256 (if bit num bitn then num OR (NOT mask) else num AND mask)) st'))
             | [] \<Rightarrow> Panic)
          else set_stack f st
      | [] \<Rightarrow> Panic)"

definition opNot :: "'s exec" where
  "opNot = stack_op1 (\<lambda>x. U256 (NOT x))"

definition opLt :: "'s exec" where
  "opLt = stack_op2 (\<lambda>x y. of_test (x < y))"

definition opGt :: "'s exec" where
  "opGt = stack_op2 (\<lambda>x y. of_test (x > y))"

definition opSlt :: "'s exec" where
  "opSlt = stack_op2 (\<lambda>x' y'. let x = S256 x'; y = S256 y' in of_test (x < S256 y))"

definition opSgt :: "'s exec" where
  "opSgt = stack_op2 (\<lambda>x' y'. let x = S256 x'; y = S256 y' in of_test (x > y))"

definition opEq :: "'s exec" where
  "opEq = stack_op2 (\<lambda>x y. of_test (x = y))"

definition opIszero :: "'s exec" where
  "opIszero = stack_op1 (\<lambda>x. if x > 0 then 0 else 1)"

definition opAnd :: "'s exec" where
  "opAnd = stack_op2 (\<lambda>x y. x AND y)"

definition opOr :: "'s exec" where
  "opOr = stack_op2 (\<lambda>x y. x OR y)"

definition opXor :: "'s exec" where
  "opXor = stack_op2 (\<lambda>x y. x XOR y)"

definition opByte :: "'s exec" where
  "opByte = stack_op2 (\<lambda>th val. if th < 32 then uint (Byte val 32 (nat (big_Int64 th))) else 0)"

definition opAddmod :: "'s exec" where
  "opAddmod = stack_op3 (\<lambda>x y z. if z > 0 then U256 (big_Mod (x + y) z) else 0)"

definition opMulmod :: "'s exec" where
  "opMulmod = stack_op3 (\<lambda>x y z. if z > 0 then U256 (big_Mod (x * y) z) else 0)"

section \<open>Data of the call, the block and the accounts\<close>

definition push_value :: "int \<Rightarrow> 's exec" where
  "push_value v f = set_stack f (push v (f_stack f))"

definition opSha3 :: "'s evm_env \<Rightarrow> 's exec" where
  "opSha3 env f =
     (case f_stack f of
        offset # sz # st \<Rightarrow>
          go_bind (Memory_Get (big_Int64 offset) (big_Int64 sz) (f_mem f)) (\<lambda>data.
            let hash = e_kec env data;
                f1 = (if EnablePreimageRecording (e_vmConfig env)
                      then set_db (db_AddPreimage (e_db env) (f_db f) (BytesToHash hash) data) f else f)
            in set_stack f1 (push (big_SetBytes hash) st))
      | _ \<Rightarrow> Panic)"

definition opAddress :: "'s exec" where
  "opAddress f = push_value (big_SetBytes (c_self (f_contract f))) f"

definition opBalance :: "'s evm_env \<Rightarrow> 's exec" where
  "opBalance env f = stack_op1 (\<lambda>a. db_GetBalance (e_db env) (f_db f) (BigToAddress a)) f"

definition opOrigin :: "'s evm_env \<Rightarrow> 's exec" where
  "opOrigin env = push_value (big_SetBytes (Origin (e_Context env)))"

definition opCaller :: "'s exec" where
  "opCaller f = push_value (big_SetBytes (CallerAddress (f_contract f))) f"

definition opCallValue :: "'s exec" where
  "opCallValue f = (case c_value (f_contract f) of None \<Rightarrow> Panic | Some v \<Rightarrow> push_value v f)"

definition opCallDataLoad :: "'s exec" where
  "opCallDataLoad f =
     (case f_stack f of
        x # st \<Rightarrow> go_bind (getDataBig (Input (f_contract f)) x 32) (\<lambda>b. set_stack f (push (big_SetBytes b) st))
      | _ \<Rightarrow> Panic)"

definition opCallDataSize :: "'s exec" where
  "opCallDataSize f = push_value (int (length (Input (f_contract f)))) f"

text \<open>The copying instructions write the padded data at the memory offset.\<close>

definition copy_to_memory :: "int \<Rightarrow> int \<Rightarrow> int \<Rightarrow> bytes \<Rightarrow> stack \<Rightarrow> 's exec" where
  "copy_to_memory memOffset dataOffset len data st f =
     go_bind (getDataBig data dataOffset len) (\<lambda>d.
     go_bind (Memory_Set (big_Uint64 memOffset) (big_Uint64 len) d (f_mem f)) (\<lambda>m.
       set_stack (f\<lparr>f_mem := m\<rparr>) st))"

definition opCallDataCopy :: "'s exec" where
  "opCallDataCopy f =
     (case f_stack f of
        memOffset # dataOffset # len # st \<Rightarrow> copy_to_memory memOffset dataOffset len (Input (f_contract f)) st f
      | _ \<Rightarrow> Panic)"

definition opReturnDataSize :: "'s exec" where
  "opReturnDataSize f = push_value (int (length (e_returnData (f_evm f)))) f"

definition opReturnDataCopy :: "'s exec" where
  "opReturnDataCopy f =
     (case f_stack f of
        memOffset # dataOffset # len # st \<Rightarrow>
          (let end' = dataOffset + len; rd = e_returnData (f_evm f) in
           if BitLen end' > 64 \<or> length rd < unat (big_Uint64 end')
           then Ret (Inl ErrReturnDataOutOfBounds, f\<lparr>f_stack := st\<rparr>)
           else go_bind (slice_from_to rd (big_Uint64 dataOffset) (big_Uint64 end')) (\<lambda>d.
                go_bind (Memory_Set (big_Uint64 memOffset) (big_Uint64 len) d (f_mem f)) (\<lambda>m.
                  set_stack (f\<lparr>f_mem := m\<rparr>) st)))
      | _ \<Rightarrow> Panic)"

definition opExtCodeSize :: "'s evm_env \<Rightarrow> 's exec" where
  "opExtCodeSize env f = stack_op1 (\<lambda>a. db_GetCodeSize (e_db env) (f_db f) (BigToAddress a)) f"

definition opCodeSize :: "'s exec" where
  "opCodeSize f = push_value (int (length (Code (f_contract f)))) f"

definition opCodeCopy :: "'s exec" where
  "opCodeCopy f =
     (case f_stack f of
        memOffset # codeOffset # len # st \<Rightarrow> copy_to_memory memOffset codeOffset len (Code (f_contract f)) st f
      | _ \<Rightarrow> Panic)"

definition opExtCodeCopy :: "'s evm_env \<Rightarrow> 's exec" where
  "opExtCodeCopy env f =
     (case f_stack f of
        a # memOffset # codeOffset # len # st \<Rightarrow>
          copy_to_memory memOffset codeOffset len (db_GetCode (e_db env) (f_db f) (BigToAddress a)) st f
      | _ \<Rightarrow> Panic)"

definition opGasprice :: "'s evm_env \<Rightarrow> 's exec" where
  "opGasprice env = push_value (GasPrice (e_Context env))"

definition opBlockhash :: "'s evm_env \<Rightarrow> 's exec" where
  "opBlockhash env = stack_op1 (\<lambda>num.
     let bn = BlockNumber (e_Context env); n = bn - 257 in
     if num > n \<and> num < bn then big_SetBytes (GetHash (e_Context env) (big_Uint64 num)) else 0)"

definition opCoinbase :: "'s evm_env \<Rightarrow> 's exec" where
  "opCoinbase env = push_value (big_SetBytes (Coinbase (e_Context env)))"

definition opTimestamp :: "'s evm_env \<Rightarrow> 's exec" where
  "opTimestamp env = push_value (U256 (cx_Time (e_Context env)))"

definition opNumber :: "'s evm_env \<Rightarrow> 's exec" where
  "opNumber env = push_value (U256 (BlockNumber (e_Context env)))"

definition opDifficulty :: "'s evm_env \<Rightarrow> 's exec" where
  "opDifficulty env = push_value (U256 (cx_Difficulty (e_Context env)))"

definition opGasLimit :: "'s evm_env \<Rightarrow> 's exec" where
  "opGasLimit env = push_value (U256 (GasLimit (e_Context env)))"

section \<open>Stack, memory, storage and jumps\<close>

definition opPop :: "'s exec" where
  "opPop f = (case f_stack f of x # st \<Rightarrow> set_stack f st | _ \<Rightarrow> Panic)"

definition opMload :: "'s exec" where
  "opMload f =
     (case f_stack f of
        offset # st \<Rightarrow> go_bind (Memory_Get (big_Int64 offset) 32 (f_mem f)) (\<lambda>b. set_stack f (push (big_SetBytes b) st))
      | _ \<Rightarrow> Panic)"

definition opMstore :: "'s exec" where
  "opMstore f =
     (case f_stack f of
        mStart # val # st \<Rightarrow>
          go_bind (Memory_Set (big_Uint64 mStart) 32 (PaddedBigBytes val 32) (f_mem f)) (\<lambda>m. set_stack (f\<lparr>f_mem := m\<rparr>) st)
      | _ \<Rightarrow> Panic)"

definition opMstore8 :: "'s exec" where
  "opMstore8 f =
     (case f_stack f of
        o' # v' # st \<Rightarrow>
          (let off = big_Int64 o'; val = big_Int64 v'; m = f_mem f in
           if 0 \<le> off \<and> off < int (length (store m))
           then set_stack (f\<lparr>f_mem := m\<lparr>store := (store m)[nat off := word_of_int (val AND 0xff)]\<rparr>\<rparr>) st
           else Panic)
      | _ \<Rightarrow> Panic)"

definition opSload :: "'s evm_env \<Rightarrow> 's exec" where
  "opSload env f = stack_op1 (\<lambda>loc. big_SetBytes (db_GetState (e_db env) (f_db f) (c_self (f_contract f)) (BigToHash loc))) f"

definition opSstore :: "'s evm_env \<Rightarrow> 's exec" where
  "opSstore env f =
     (case f_stack f of
        loc # val # st \<Rightarrow>
          set_stack (set_db (db_SetState (e_db env) (f_db f) (c_self (f_contract f)) (BigToHash loc) (BigToHash val)) f) st
      | _ \<Rightarrow> Panic)"

text \<open>\<open>jumpdests.has\<close> of the contract, which may add an analysis to the shared map.\<close>

definition jump_to :: "int \<Rightarrow> stack \<Rightarrow> 's exec" where
  "jump_to pos st f =
     (let c = f_contract f in
      go_bind (destinations_has (CodeHash c) (Code c) pos (jumpdests c)) (\<lambda>(ok, d).
        let f1 = f\<lparr>f_stack := st, f_contract := c\<lparr>jumpdests := d\<rparr>\<rparr> in
        if \<not> ok then Ret (Inl (ErrInvalidJump (GetOp (big_Uint64 pos) c) pos), f1)
        else Ret (Inr [], f1\<lparr>f_pc := big_Uint64 pos\<rparr>)))"

definition opJump :: "'s exec" where
  "opJump f = (case f_stack f of pos # st \<Rightarrow> jump_to pos st f | _ \<Rightarrow> Panic)"

definition opJumpi :: "'s exec" where
  "opJumpi f =
     (case f_stack f of
        pos # cond # st \<Rightarrow> if cond \<noteq> 0 then jump_to pos st f else set_stack (f\<lparr>f_pc := f_pc f + 1\<rparr>) st
      | _ \<Rightarrow> Panic)"

definition opJumpdest :: "'s exec" where
  "opJumpdest f = Ret (Inr [], f)"

definition opPc :: "'s exec" where
  "opPc f = push_value (uint (f_pc f)) f"

definition opMsize :: "'s exec" where
  "opMsize f = push_value (Memory_Len (f_mem f)) f"

definition opGas :: "'s exec" where
  "opGas f = push_value (uint (Gas (f_contract f))) f"

section \<open>Calls and creation\<close>

text \<open>What a calling frame does with the result of a call: the shared map and the machine, the result
  on the stack, the returned data in memory, and the gas that was left.\<close>

definition after_call :: "'s frame \<Rightarrow> stack \<Rightarrow> int \<Rightarrow> int \<Rightarrow> 's call_result \<Rightarrow> ((vm_error + bytes) \<times> 's frame) go option" where
  "after_call f st retOffset retSize r =
     (case r of
        None \<Rightarrow> None
      | Some Panic \<Rightarrow> Some Panic
      | Some (Ret ((ret, returnGas, err), d, evm)) \<Rightarrow>
          (let st' = push (of_test (err = None)) st in
           Some (go_bind (if err = None \<or> err = Some ErrExecutionReverted
                          then Memory_Set (big_Uint64 retOffset) (big_Uint64 retSize) ret (f_mem f) else Ret (f_mem f))
             (\<lambda>m. let c = f_contract f in
               Ret (Inr ret, f\<lparr>f_stack := st', f_mem := m, f_contract := c\<lparr>jumpdests := d, Gas := Gas c + returnGas\<rparr>, f_evm := evm\<rparr>)))))"

definition lift_go :: "'a go \<Rightarrow> ('a \<Rightarrow> 'b go option) \<Rightarrow> 'b go option" where
  "lift_go m k = (case m of Panic \<Rightarrow> Some Panic | Ret x \<Rightarrow> k x)"

text \<open>The same for a creation: \<open>c\<close> is the contract without the gas it has passed on.\<close>

definition after_create :: "'s evm_env \<Rightarrow> 's frame \<Rightarrow> Contract \<Rightarrow> stack \<Rightarrow>
    ((bytes \<times> bytes \<times> u64 \<times> vm_error option) \<times> destinations \<times> 's EVM) go option \<Rightarrow> ((vm_error + bytes) \<times> 's frame) go option" where
  "after_create env f c st r =
     (case r of
        None \<Rightarrow> None
      | Some Panic \<Rightarrow> Some Panic
      | Some (Ret ((res, addr, returnGas, suberr), d, evm)) \<Rightarrow>
          (let item = (if IsHomestead (e_chainConfig env) (blockNumber env) \<and> suberr = Some ErrCodeStoreOutOfGas then 0
                       else if suberr \<noteq> None \<and> suberr \<noteq> Some ErrCodeStoreOutOfGas then 0
                       else big_SetBytes addr)
           in Some (Ret (Inr (if suberr = Some ErrExecutionReverted then res else []),
                f\<lparr>f_stack := push item st, f_contract := c\<lparr>jumpdests := d, Gas := Gas c + returnGas\<rparr>, f_evm := evm\<rparr>))))"

definition create_gas :: "'s evm_env \<Rightarrow> Contract \<Rightarrow> u64" where
  "create_gas env c = (if IsEIP150 (e_chainConfig env) (blockNumber env) then Gas c - Gas c div 64 else Gas c)"

definition opCreate :: "'s evm_env \<Rightarrow> 's runner \<Rightarrow> 's frame \<Rightarrow> ((vm_error + bytes) \<times> 's frame) go option" where
  "opCreate env run f =
     (case f_stack f of
        val # offset # sz # st \<Rightarrow>
          lift_go (Memory_Get (big_Int64 offset) (big_Int64 sz) (f_mem f)) (\<lambda>input.
            let gas = create_gas env (f_contract f);
                c1 = snd (UseGas gas (f_contract f))
            in after_create env f c1 st (Create env run (f_evm f) (contract_ref c1) input gas val))
      | _ \<Rightarrow> Some Panic)"

definition opCall :: "'s evm_env \<Rightarrow> 's runner \<Rightarrow> 's frame \<Rightarrow> ((vm_error + bytes) \<times> 's frame) go option" where
  "opCall env run f =
     (case f_stack f of
        g # addr # val' # inOffset # inSize # retOffset # retSize # st \<Rightarrow>
          lift_go (Memory_Get (big_Int64 inOffset) (big_Int64 inSize) (f_mem f)) (\<lambda>args.
            let val = U256 val'; gas = (if val \<noteq> 0 then big_Uint64 g + CallStipend else big_Uint64 g)
            in after_call f st retOffset retSize
                 (Call env run (f_evm f) (contract_ref (f_contract f)) (BigToAddress addr) args gas val))
      | _ \<Rightarrow> Some Panic)"

definition opCallCode :: "'s evm_env \<Rightarrow> 's runner \<Rightarrow> 's frame \<Rightarrow> ((vm_error + bytes) \<times> 's frame) go option" where
  "opCallCode env run f =
     (case f_stack f of
        g # addr # val' # inOffset # inSize # retOffset # retSize # st \<Rightarrow>
          lift_go (Memory_Get (big_Int64 inOffset) (big_Int64 inSize) (f_mem f)) (\<lambda>args.
            let val = U256 val'; gas = (if val \<noteq> 0 then big_Uint64 g + CallStipend else big_Uint64 g)
            in after_call f st retOffset retSize
                 (CallCode env run (f_evm f) (contract_ref (f_contract f)) (BigToAddress addr) args gas val))
      | _ \<Rightarrow> Some Panic)"

definition opDelegateCall :: "'s evm_env \<Rightarrow> 's runner \<Rightarrow> 's frame \<Rightarrow> ((vm_error + bytes) \<times> 's frame) go option" where
  "opDelegateCall env run f =
     (case f_stack f of
        g # to # inOffset # inSize # outOffset # outSize # st \<Rightarrow>
          lift_go (Memory_Get (big_Int64 inOffset) (big_Int64 inSize) (f_mem f)) (\<lambda>args.
            after_call f st outOffset outSize
              (DelegateCall env run (f_evm f) (contract_ref (f_contract f)) (BigToAddress to) args (big_Uint64 g)))
      | _ \<Rightarrow> Some Panic)"

definition opStaticCall :: "'s evm_env \<Rightarrow> 's runner \<Rightarrow> 's frame \<Rightarrow> ((vm_error + bytes) \<times> 's frame) go option" where
  "opStaticCall env run f =
     (case f_stack f of
        g # addr # inOffset # inSize # retOffset # retSize # st \<Rightarrow>
          lift_go (Memory_Get (big_Int64 inOffset) (big_Int64 inSize) (f_mem f)) (\<lambda>args.
            after_call f st retOffset retSize
              (StaticCall env run (f_evm f) (contract_ref (f_contract f)) (BigToAddress addr) args (big_Uint64 g)))
      | _ \<Rightarrow> Some Panic)"

definition opReturn :: "'s exec" where
  "opReturn f =
     (case f_stack f of
        offset # sz # st \<Rightarrow>
          go_bind (Memory_GetPtr (big_Int64 offset) (big_Int64 sz) (f_mem f)) (\<lambda>ret. Ret (Inr ret, f\<lparr>f_stack := st\<rparr>))
      | _ \<Rightarrow> Panic)"

definition opRevert :: "'s exec" where
  "opRevert f =
     (case f_stack f of
        offset # sz # st \<Rightarrow>
          go_bind (Memory_GetPtr (big_Int64 offset) (big_Int64 sz) (f_mem f)) (\<lambda>ret. Ret (Inr ret, f\<lparr>f_stack := st\<rparr>))
      | _ \<Rightarrow> Panic)"

definition opStop :: "'s exec" where
  "opStop f = Ret (Inr [], f)"

definition opSuicide :: "'s evm_env \<Rightarrow> 's exec" where
  "opSuicide env f =
     (case f_stack f of
        a # st \<Rightarrow>
          (let db = e_db env; s = f_db f; self = c_self (f_contract f);
               s1 = db_AddBalance db s (BigToAddress a) (db_GetBalance db s self)
           in set_stack (set_db (snd (db_Suicide db s1 self)) f) st)
      | _ \<Rightarrow> Panic)"

section \<open>Families of instructions\<close>

definition makeLog :: "'s evm_env \<Rightarrow> nat \<Rightarrow> 's exec" where
  "makeLog env sz f =
     (case f_stack f of
        mStart # mSize # st \<Rightarrow>
          if length st < sz then Panic
          else go_bind (Memory_Get (big_Int64 mStart) (big_Int64 mSize) (f_mem f)) (\<lambda>d.
            let log = \<lparr>log_Address = c_self (f_contract f), log_Topics = map BigToHash (take sz st), log_Data = d,
                  log_BlockNumber = big_Uint64 (BlockNumber (e_Context env)), log_TxHash = zero_hash32, log_TxIndex = 0,
                  log_BlockHash = zero_hash32, log_Index = 0, log_Removed = False\<rparr>
            in set_stack (set_db (db_AddLog (e_db env) (f_db f) log) f) (drop sz st))
      | _ \<Rightarrow> Panic)"

text \<open>\<open>int(*pc+1)\<close> and the length of the code are far below the range of \<open>int\<close>.\<close>

definition makePush :: "u64 \<Rightarrow> nat \<Rightarrow> 's exec" where
  "makePush sz pushByteSize f =
     (let code = Code (f_contract f);
          codeLen = length code;
          startMin = (if unat (f_pc f + 1) < codeLen then unat (f_pc f + 1) else codeLen);
          endMin = (if startMin + pushByteSize < codeLen then startMin + pushByteSize else codeLen);
          integer = big_SetBytes (RightPadBytes (take (endMin - startMin) (drop startMin code)) (int pushByteSize))
      in Ret (Inr [], f\<lparr>f_stack := push integer (f_stack f), f_pc := f_pc f + sz\<rparr>))"

definition makeDup :: "nat \<Rightarrow> 's exec" where
  "makeDup sz f = go_bind (dup sz (f_stack f)) (\<lambda>st. set_stack f st)"

definition makeSwap :: "nat \<Rightarrow> 's exec" where
  "makeSwap sz f = go_bind (swap (sz + 1) (f_stack f)) (\<lambda>st. set_stack f st)"

end
