(* ===== verification/Evm_Gas.thy ===== *)
theory Evm_Gas
  imports Evm_Types
begin

text \<open>
  The prices of the instructions (\<open>src/core/vm/gas_table.go\<close>, \<open>gas.go\<close>).  A gas function may change the
  frame: the memory remembers the fee that has been paid, clearing storage and self-destruction
  add a refund, and a call replaces the requested gas on the stack by the gas it will pass on.
\<close>

type_synonym 's gasFunc = "u64 \<Rightarrow> 's frame \<Rightarrow> ((vm_error + u64) \<times> 's frame) go"

definition memoryGasCost :: "Memory \<Rightarrow> u64 \<Rightarrow> (vm_error + u64) \<times> Memory" where
  "memoryGasCost mem newMemSize =
     (if newMemSize = 0 then (Inr 0, mem)
      else if newMemSize > 0xffffffffe0 then (Inl ErrGasUintOverflow, mem)
      else
        (let newMemSizeWords = toWordSize newMemSize;
             newMemSize' = newMemSizeWords * 32 in
         if newMemSize' > word_of_int (Memory_Len mem) then
           (let square = newMemSizeWords * newMemSizeWords;
                linCoef = newMemSizeWords * MemoryGas;
                quadCoef = square div QuadCoeffDiv;
                newTotalFee = linCoef + quadCoef;
                fee = newTotalFee - lastGasCost mem
            in (Inr fee, mem\<lparr>lastGasCost := newTotalFee\<rparr>))
         else (Inr 0, mem)))"

text \<open>Sequencing: an error ends a gas function and keeps what was changed before.\<close>

definition gas_bind :: "((vm_error + 'a) \<times> 's frame) go \<Rightarrow> ('a \<Rightarrow> 's frame \<Rightarrow> ((vm_error + 'b) \<times> 's frame) go) \<Rightarrow>
    ((vm_error + 'b) \<times> 's frame) go" where
  "gas_bind m k =
     (case m of
        Panic \<Rightarrow> Panic
      | Ret (Inl e, f) \<Rightarrow> Ret (Inl e, f)
      | Ret (Inr g, f) \<Rightarrow> k g f)"

definition memory_gas :: "u64 \<Rightarrow> 's frame \<Rightarrow> ((vm_error + u64) \<times> 's frame) go" where
  "memory_gas memorySize f = (case memoryGasCost (f_mem f) memorySize of (r, m) \<Rightarrow> Ret (r, f\<lparr>f_mem := m\<rparr>))"

definition safe_add :: "u64 \<Rightarrow> u64 \<Rightarrow> 's frame \<Rightarrow> ((vm_error + u64) \<times> 's frame) go" where
  "safe_add x y f = (case SafeAdd x y of (g, overflow) \<Rightarrow> Ret (if overflow then Inl ErrGasUintOverflow else Inr g, f))"

definition safe_mul :: "u64 \<Rightarrow> u64 \<Rightarrow> 's frame \<Rightarrow> ((vm_error + u64) \<times> 's frame) go" where
  "safe_mul x y f = (case SafeMul x y of (g, overflow) \<Rightarrow> Ret (if overflow then Inl ErrGasUintOverflow else Inr g, f))"

definition back_uint64 :: "nat \<Rightarrow> 's frame \<Rightarrow> ((vm_error + u64) \<times> 's frame) go" where
  "back_uint64 n f =
     go_bind (Back n (f_stack f)) (\<lambda>x. case bigUint64 x of (w, overflow) \<Rightarrow>
       Ret (if overflow then Inl ErrGasUintOverflow else Inr w, f))"

definition constGasFunc :: "u64 \<Rightarrow> 's gasFunc" where
  "constGasFunc gas memorySize f = Ret (Inr gas, f)"

text \<open>Memory, a base price, and a price for every word of the size in stack position \<open>n\<close>.\<close>

definition gas_words :: "u64 \<Rightarrow> nat \<Rightarrow> u64 \<Rightarrow> 's gasFunc" where
  "gas_words base n wordGas memorySize f =
     gas_bind (memory_gas memorySize f) (\<lambda>gas f1.
     gas_bind (safe_add gas base f1) (\<lambda>gas f2.
     gas_bind (back_uint64 n f2) (\<lambda>words f3.
     gas_bind (safe_mul (toWordSize words) wordGas f3) (\<lambda>words f4.
       safe_add gas words f4))))"

definition gas_memory_plus :: "u64 \<Rightarrow> 's gasFunc" where
  "gas_memory_plus base memorySize f = gas_bind (memory_gas memorySize f) (\<lambda>gas f1. safe_add gas base f1)"

definition gasCallDataCopy :: "'s gasFunc" where
  "gasCallDataCopy = gas_words GasFastestStep 2 CopyGas"

definition gasReturnDataCopy :: "'s gasFunc" where
  "gasReturnDataCopy = gas_words GasFastestStep 2 CopyGas"

definition gasSStore :: "'s evm_env \<Rightarrow> 's gasFunc" where
  "gasSStore env memorySize f =
     go_bind (Back 1 (f_stack f)) (\<lambda>y. go_bind (Back 0 (f_stack f)) (\<lambda>x.
       let val = db_GetState (e_db env) (f_db f) (c_self (f_contract f)) (BigToHash x) in
       if EmptyHash val \<and> \<not> EmptyHash (BigToHash y) then Ret (Inr SstoreSetGas, f)
       else if \<not> EmptyHash val \<and> EmptyHash (BigToHash y)
       then Ret (Inr SstoreClearGas, set_db (db_AddRefund (e_db env) (f_db f) (uint SstoreRefundGas)) f)
       else Ret (Inr SstoreResetGas, f)))"

definition makeGasLog :: "u64 \<Rightarrow> 's gasFunc" where
  "makeGasLog n memorySize f =
     gas_bind (back_uint64 1 f) (\<lambda>requestedSize f1.
     gas_bind (memory_gas memorySize f1) (\<lambda>gas f2.
     gas_bind (safe_add gas LogGas f2) (\<lambda>gas f3.
     gas_bind (safe_add gas (n * LogTopicGas) f3) (\<lambda>gas f4.
     gas_bind (safe_mul requestedSize LogDataGas f4) (\<lambda>memorySizeGas f5.
       safe_add gas memorySizeGas f5)))))"

definition gasSha3 :: "'s gasFunc" where
  "gasSha3 = gas_words Sha3Gas 1 Sha3WordGas"

definition gasCodeCopy :: "'s gasFunc" where
  "gasCodeCopy = gas_words GasFastestStep 2 CopyGas"

definition gasExtCodeCopy :: "'s evm_env \<Rightarrow> 's gasFunc" where
  "gasExtCodeCopy env = gas_words (ExtcodeCopy (gasTable env)) 3 CopyGas"

definition gasMLoad :: "'s gasFunc" where
  "gasMLoad = gas_memory_plus GasFastestStep"

definition gasMStore8 :: "'s gasFunc" where
  "gasMStore8 = gas_memory_plus GasFastestStep"

definition gasMStore :: "'s gasFunc" where
  "gasMStore = gas_memory_plus GasFastestStep"

definition gasCreate :: "'s gasFunc" where
  "gasCreate = gas_memory_plus CreateGas"

definition gasBalance :: "'s evm_env \<Rightarrow> 's gasFunc" where
  "gasBalance env memorySize f = Ret (Inr (gt_Balance (gasTable env)), f)"

definition gasExtCodeSize :: "'s evm_env \<Rightarrow> 's gasFunc" where
  "gasExtCodeSize env memorySize f = Ret (Inr (ExtcodeSize (gasTable env)), f)"

definition gasSLoad :: "'s evm_env \<Rightarrow> 's gasFunc" where
  "gasSLoad env memorySize f = Ret (Inr (SLoad (gasTable env)), f)"

definition gasExp :: "'s evm_env \<Rightarrow> 's gasFunc" where
  "gasExp env memorySize f =
     go_bind (Back 1 (f_stack f)) (\<lambda>y.
       let expByteLen = word_of_nat ((BitLen y + 7) div 8) in
       safe_add (expByteLen * ExpByte (gasTable env)) GasSlowStep f)"

text \<open>\<open>callGas\<close> of \<open>gas.go\<close>: since the repricing a call passes on at most all but one 64th.\<close>

definition callGas :: "GasTable \<Rightarrow> u64 \<Rightarrow> u64 \<Rightarrow> int \<Rightarrow> vm_error + u64" where
  "callGas gt availableGas base callCost =
     (let availableGas' = availableGas - base;
          gas = availableGas' - availableGas' div 64 in
      if CreateBySuicide gt > 0 \<and> (BitLen callCost > 64 \<or> gas < big_Uint64 callCost) then Inr gas
      else if BitLen callCost > 64 then Inl ErrGasUintOverflow
      else Inr (big_Uint64 callCost))"

text \<open>The common end of the four gas functions of calls: the gas for the callee replaces the request on
  the stack and is part of the price.\<close>

definition call_gas_from :: "'s evm_env \<Rightarrow> u64 \<Rightarrow> 's frame \<Rightarrow> ((vm_error + u64) \<times> 's frame) go" where
  "call_gas_from env gas f =
     go_bind (Back 0 (f_stack f)) (\<lambda>req.
       case callGas (gasTable env) (Gas (f_contract f)) gas req of
         Inl e \<Rightarrow> Ret (Inl e, f)
       | Inr cg \<Rightarrow> safe_add gas cg (f\<lparr>f_stack := (f_stack f)[0 := uint cg]\<rparr>))"

definition call_price :: "'s evm_env \<Rightarrow> u64 \<Rightarrow> 's gasFunc" where
  "call_price env gas memorySize f =
     gas_bind (memory_gas memorySize f) (\<lambda>memoryGas f1.
     gas_bind (safe_add gas memoryGas f1) (\<lambda>gas f2. call_gas_from env gas f2))"

text \<open>The price of \<open>CALL\<close> before the memory: calling, creating the account, transferring value.\<close>

definition gasCall_base :: "'s evm_env \<Rightarrow> 's \<Rightarrow> bool \<Rightarrow> bytes \<Rightarrow> u64" where
  "gasCall_base env s transfersValue address =
     (let gas0 = Calls (gasTable env);
          gas1 = (if IsEIP158 (e_chainConfig env) (blockNumber env)
                  then if transfersValue \<and> db_Empty (e_db env) s address then gas0 + CallNewAccountGas else gas0
                  else if \<not> db_Exist (e_db env) s address then gas0 + CallNewAccountGas else gas0)
      in if transfersValue then gas1 + CallValueTransferGas else gas1)"

definition gasCall :: "'s evm_env \<Rightarrow> 's gasFunc" where
  "gasCall env memorySize f =
     go_bind (Back 2 (f_stack f)) (\<lambda>v. go_bind (Back 1 (f_stack f)) (\<lambda>a.
       call_price env (gasCall_base env (f_db f) (v \<noteq> 0) (BigToAddress a)) memorySize f))"

definition gasCallCode :: "'s evm_env \<Rightarrow> 's gasFunc" where
  "gasCallCode env memorySize f =
     go_bind (Back 2 (f_stack f)) (\<lambda>v.
       call_price env (if v \<noteq> 0 then Calls (gasTable env) + CallValueTransferGas else Calls (gasTable env)) memorySize f)"

definition gasReturn :: "'s gasFunc" where
  "gasReturn = memory_gas"

definition gasRevert :: "'s gasFunc" where
  "gasRevert = memory_gas"

definition gasSuicide :: "'s evm_env \<Rightarrow> 's gasFunc" where
  "gasSuicide env memorySize f =
     (let db = e_db env; s = f_db f; self = c_self (f_contract f);
          refund = (if \<not> db_HasSuicided db s self then set_db (db_AddRefund db s (uint SuicideRefundGas)) f else f) in
      if IsEIP150 (e_chainConfig env) (blockNumber env) then
        go_bind (Back 0 (f_stack f)) (\<lambda>a.
          let address = BigToAddress a;
              gas0 = gt_Suicide (gasTable env);
              gas = (if IsEIP158 (e_chainConfig env) (blockNumber env)
                     then if db_Empty db s address \<and> db_GetBalance db s self \<noteq> 0
                          then gas0 + CreateBySuicide (gasTable env) else gas0
                     else if \<not> db_Exist db s address then gas0 + CreateBySuicide (gasTable env) else gas0)
          in Ret (Inr gas, refund))
      else Ret (Inr 0, refund))"

definition gasDelegateCall :: "'s evm_env \<Rightarrow> 's gasFunc" where
  "gasDelegateCall env memorySize f =
     gas_bind (memory_gas memorySize f) (\<lambda>gas f1.
     gas_bind (safe_add gas (Calls (gasTable env)) f1) (\<lambda>gas f2. call_gas_from env gas f2))"

definition gasStaticCall :: "'s evm_env \<Rightarrow> 's gasFunc" where
  "gasStaticCall env memorySize f =
     gas_bind (memory_gas memorySize f) (\<lambda>gas f1.
     gas_bind (safe_add gas (Calls (gasTable env)) f1) (\<lambda>gas f2. call_gas_from env gas f2))"

definition gasPush :: "'s gasFunc" where
  "gasPush memorySize f = Ret (Inr GasFastestStep, f)"

definition gasSwap :: "'s gasFunc" where
  "gasSwap memorySize f = Ret (Inr GasFastestStep, f)"

definition gasDup :: "'s gasFunc" where
  "gasDup memorySize f = Ret (Inr GasFastestStep, f)"

end
