(* ===== verification/Evm_Jump_Table.thy ===== *)
theory Evm_Jump_Table
  imports Evm_Instructions Evm_Gas
begin

text \<open>
  The opcodes (\<open>src/core/vm/opcodes.go\<close>) and the instruction tables of the three protocol versions
  (\<open>src/core/vm/jump_table.go\<close>).  An entry of a table holds the instruction, its price, the check of the
  stack, the memory it needs and the flags the interpreter reads; a missing entry is an invalid
  opcode.
\<close>

type_synonym OpCode = byte

abbreviation CALL :: OpCode where "CALL \<equiv> 0xf1"

definition opCodeToString :: "(OpCode \<times> string) list" where
  "opCodeToString =
     [(0x00, ''STOP''), (0x01, ''ADD''), (0x02, ''MUL''), (0x03, ''SUB''), (0x04, ''DIV''), (0x05, ''SDIV''),
      (0x06, ''MOD''), (0x07, ''SMOD''), (0x0a, ''EXP''), (0x19, ''NOT''), (0x10, ''LT''), (0x11, ''GT''),
      (0x12, ''SLT''), (0x13, ''SGT''), (0x14, ''EQ''), (0x15, ''ISZERO''), (0x0b, ''SIGNEXTEND''),
      (0x16, ''AND''), (0x17, ''OR''), (0x18, ''XOR''), (0x1a, ''BYTE''), (0x08, ''ADDMOD''), (0x09, ''MULMOD''),
      (0x20, ''SHA3''), (0x30, ''ADDRESS''), (0x31, ''BALANCE''), (0x32, ''ORIGIN''), (0x33, ''CALLER''),
      (0x34, ''CALLVALUE''), (0x35, ''CALLDATALOAD''), (0x36, ''CALLDATASIZE''), (0x37, ''CALLDATACOPY''),
      (0x38, ''CODESIZE''), (0x39, ''CODECOPY''), (0x3a, ''GASPRICE''), (0x3b, ''EXTCODESIZE''),
      (0x3c, ''EXTCODECOPY''), (0x3d, ''RETURNDATASIZE''), (0x3e, ''RETURNDATACOPY''), (0x40, ''BLOCKHASH''),
      (0x41, ''COINBASE''), (0x42, ''TIMESTAMP''), (0x43, ''NUMBER''), (0x44, ''DIFFICULTY''),
      (0x45, ''GASLIMIT''), (0x50, ''POP''), (0x51, ''MLOAD''), (0x52, ''MSTORE''), (0x53, ''MSTORE8''),
      (0x54, ''SLOAD''), (0x55, ''SSTORE''), (0x56, ''JUMP''), (0x57, ''JUMPI''), (0x58, ''PC''),
      (0x59, ''MSIZE''), (0x5a, ''GAS''), (0x5b, ''JUMPDEST''), (0x60, ''PUSH1''), (0x61, ''PUSH2''),
      (0x62, ''PUSH3''), (0x63, ''PUSH4''), (0x64, ''PUSH5''), (0x65, ''PUSH6''), (0x66, ''PUSH7''),
      (0x67, ''PUSH8''), (0x68, ''PUSH9''), (0x69, ''PUSH10''), (0x6a, ''PUSH11''), (0x6b, ''PUSH12''),
      (0x6c, ''PUSH13''), (0x6d, ''PUSH14''), (0x6e, ''PUSH15''), (0x6f, ''PUSH16''), (0x70, ''PUSH17''),
      (0x71, ''PUSH18''), (0x72, ''PUSH19''), (0x73, ''PUSH20''), (0x74, ''PUSH21''), (0x75, ''PUSH22''),
      (0x76, ''PUSH23''), (0x77, ''PUSH24''), (0x78, ''PUSH25''), (0x79, ''PUSH26''), (0x7a, ''PUSH27''),
      (0x7b, ''PUSH28''), (0x7c, ''PUSH29''), (0x7d, ''PUSH30''), (0x7e, ''PUSH31''), (0x7f, ''PUSH32''),
      (0x80, ''DUP1''), (0x81, ''DUP2''), (0x82, ''DUP3''), (0x83, ''DUP4''), (0x84, ''DUP5''), (0x85, ''DUP6''),
      (0x86, ''DUP7''), (0x87, ''DUP8''), (0x88, ''DUP9''), (0x89, ''DUP10''), (0x8a, ''DUP11''),
      (0x8b, ''DUP12''), (0x8c, ''DUP13''), (0x8d, ''DUP14''), (0x8e, ''DUP15''), (0x8f, ''DUP16''),
      (0x90, ''SWAP1''), (0x91, ''SWAP2''), (0x92, ''SWAP3''), (0x93, ''SWAP4''), (0x94, ''SWAP5''),
      (0x95, ''SWAP6''), (0x96, ''SWAP7''), (0x97, ''SWAP8''), (0x98, ''SWAP9''), (0x99, ''SWAP10''),
      (0x9a, ''SWAP11''), (0x9b, ''SWAP12''), (0x9c, ''SWAP13''), (0x9d, ''SWAP14''), (0x9e, ''SWAP15''),
      (0x9f, ''SWAP16''), (0xa0, ''LOG0''), (0xa1, ''LOG1''), (0xa2, ''LOG2''), (0xa3, ''LOG3''),
      (0xa4, ''LOG4''), (0xf0, ''CREATE''), (0xf1, ''CALL''), (0xf3, ''RETURN''), (0xf2, ''CALLCODE''),
      (0xf4, ''DELEGATECALL''), (0xfa, ''STATICCALL''), (0xfd, ''REVERT''), (0xff, ''SELFDESTRUCT''),
      (0xb0, ''PUSH''), (0xb1, ''DUP''), (0xb2, ''SWAP'')]"

definition IsPush :: "OpCode \<Rightarrow> bool" where
  "IsPush op \<longleftrightarrow> op \<in> set (map (\<lambda>i. 0x60 + word_of_nat i) [0..<32])"

definition stringToOp :: "(string \<times> OpCode) list" where
  "stringToOp =
     [(''STOP'', 0x00), (''ADD'', 0x01), (''MUL'', 0x02), (''SUB'', 0x03), (''DIV'', 0x04), (''SDIV'', 0x05),
      (''MOD'', 0x06), (''SMOD'', 0x07), (''EXP'', 0x0a), (''NOT'', 0x19), (''LT'', 0x10), (''GT'', 0x11),
      (''SLT'', 0x12), (''SGT'', 0x13), (''EQ'', 0x14), (''ISZERO'', 0x15), (''SIGNEXTEND'', 0x0b),
      (''AND'', 0x16), (''OR'', 0x17), (''XOR'', 0x18), (''BYTE'', 0x1a), (''ADDMOD'', 0x08), (''MULMOD'', 0x09),
      (''SHA3'', 0x20), (''ADDRESS'', 0x30), (''BALANCE'', 0x31), (''ORIGIN'', 0x32), (''CALLER'', 0x33),
      (''CALLVALUE'', 0x34), (''CALLDATALOAD'', 0x35), (''CALLDATASIZE'', 0x36), (''CALLDATACOPY'', 0x37),
      (''DELEGATECALL'', 0xf4), (''STATICCALL'', 0xfa), (''CODESIZE'', 0x38), (''CODECOPY'', 0x39),
      (''GASPRICE'', 0x3a), (''EXTCODESIZE'', 0x3b), (''EXTCODECOPY'', 0x3c), (''RETURNDATASIZE'', 0x3d),
      (''RETURNDATACOPY'', 0x3e), (''BLOCKHASH'', 0x40), (''COINBASE'', 0x41), (''TIMESTAMP'', 0x42),
      (''NUMBER'', 0x43), (''DIFFICULTY'', 0x44), (''GASLIMIT'', 0x45), (''POP'', 0x50), (''MLOAD'', 0x51),
      (''MSTORE'', 0x52), (''MSTORE8'', 0x53), (''SLOAD'', 0x54), (''SSTORE'', 0x55), (''JUMP'', 0x56),
      (''JUMPI'', 0x57), (''PC'', 0x58), (''MSIZE'', 0x59), (''GAS'', 0x5a), (''JUMPDEST'', 0x5b),
      (''PUSH1'', 0x60), (''PUSH2'', 0x61), (''PUSH3'', 0x62), (''PUSH4'', 0x63), (''PUSH5'', 0x64),
      (''PUSH6'', 0x65), (''PUSH7'', 0x66), (''PUSH8'', 0x67), (''PUSH9'', 0x68), (''PUSH10'', 0x69),
      (''PUSH11'', 0x6a), (''PUSH12'', 0x6b), (''PUSH13'', 0x6c), (''PUSH14'', 0x6d), (''PUSH15'', 0x6e),
      (''PUSH16'', 0x6f), (''PUSH17'', 0x70), (''PUSH18'', 0x71), (''PUSH19'', 0x72), (''PUSH20'', 0x73),
      (''PUSH21'', 0x74), (''PUSH22'', 0x75), (''PUSH23'', 0x76), (''PUSH24'', 0x77), (''PUSH25'', 0x78),
      (''PUSH26'', 0x79), (''PUSH27'', 0x7a), (''PUSH28'', 0x7b), (''PUSH29'', 0x7c), (''PUSH30'', 0x7d),
      (''PUSH31'', 0x7e), (''PUSH32'', 0x7f), (''DUP1'', 0x80), (''DUP2'', 0x81), (''DUP3'', 0x82),
      (''DUP4'', 0x83), (''DUP5'', 0x84), (''DUP6'', 0x85), (''DUP7'', 0x86), (''DUP8'', 0x87), (''DUP9'', 0x88),
      (''DUP10'', 0x89), (''DUP11'', 0x8a), (''DUP12'', 0x8b), (''DUP13'', 0x8c), (''DUP14'', 0x8d),
      (''DUP15'', 0x8e), (''DUP16'', 0x8f), (''SWAP1'', 0x90), (''SWAP2'', 0x91), (''SWAP3'', 0x92),
      (''SWAP4'', 0x93), (''SWAP5'', 0x94), (''SWAP6'', 0x95), (''SWAP7'', 0x96), (''SWAP8'', 0x97),
      (''SWAP9'', 0x98), (''SWAP10'', 0x99), (''SWAP11'', 0x9a), (''SWAP12'', 0x9b), (''SWAP13'', 0x9c),
      (''SWAP14'', 0x9d), (''SWAP15'', 0x9e), (''SWAP16'', 0x9f), (''LOG0'', 0xa0), (''LOG1'', 0xa1),
      (''LOG2'', 0xa2), (''LOG3'', 0xa3), (''LOG4'', 0xa4), (''CREATE'', 0xf0), (''CALL'', 0xf1),
      (''RETURN'', 0xf3), (''CALLCODE'', 0xf2), (''REVERT'', 0xfd), (''SELFDESTRUCT'', 0xff)]"

text \<open>A name that is not in the map gives the zero value, \<open>STOP\<close>.\<close>

definition StringToOp :: "string \<Rightarrow> OpCode" where
  "StringToOp str = (case map_of stringToOp str of Some op \<Rightarrow> op | None \<Rightarrow> 0)"

record 's operation =
  execute :: "'s frame \<Rightarrow> ((vm_error + bytes) \<times> 's frame) go option"
  gasCost :: "'s gasFunc"
  validateStack :: "stack \<Rightarrow> vm_error option"
  memorySize :: "(stack \<Rightarrow> int go) option"
  halts :: bool
  jumps :: bool
  writes :: bool
  reverts :: bool
  returns :: bool

definition base_operation :: "('s frame \<Rightarrow> ((vm_error + bytes) \<times> 's frame) go option) \<Rightarrow> 's gasFunc \<Rightarrow>
    (stack \<Rightarrow> vm_error option) \<Rightarrow> 's operation" where
  "base_operation ex gc vs = \<lparr>execute = ex, gasCost = gc, validateStack = vs, memorySize = None, halts = False,
     jumps = False, writes = False, reverts = False, returns = False\<rparr>"

text \<open>An instruction that does not call another contract.\<close>

definition simple :: "'s exec \<Rightarrow> 's frame \<Rightarrow> ((vm_error + bytes) \<times> 's frame) go option" where
  "simple ex f = Some (ex f)"

section \<open>The frontier instructions\<close>

definition arithmetic_operations :: "'s evm_env \<Rightarrow> (OpCode \<times> 's operation) list" where
  "arithmetic_operations env =
     [(0x00, (base_operation (simple opStop) (constGasFunc 0) (makeStackFunc 0 0))\<lparr>halts := True\<rparr>),
      (0x01, base_operation (simple opAdd) (constGasFunc GasFastestStep) (makeStackFunc 2 1)),
      (0x02, base_operation (simple opMul) (constGasFunc GasFastStep) (makeStackFunc 2 1)),
      (0x03, base_operation (simple opSub) (constGasFunc GasFastestStep) (makeStackFunc 2 1)),
      (0x04, base_operation (simple opDiv) (constGasFunc GasFastStep) (makeStackFunc 2 1)),
      (0x05, base_operation (simple opSdiv) (constGasFunc GasFastStep) (makeStackFunc 2 1)),
      (0x06, base_operation (simple opMod) (constGasFunc GasFastStep) (makeStackFunc 2 1)),
      (0x07, base_operation (simple opSmod) (constGasFunc GasFastStep) (makeStackFunc 2 1)),
      (0x08, base_operation (simple opAddmod) (constGasFunc GasMidStep) (makeStackFunc 3 1)),
      (0x09, base_operation (simple opMulmod) (constGasFunc GasMidStep) (makeStackFunc 3 1)),
      (0x0a, base_operation (simple opExp) (gasExp env) (makeStackFunc 2 1)),
      (0x0b, base_operation (simple opSignExtend) (constGasFunc GasFastStep) (makeStackFunc 2 1)),
      (0x10, base_operation (simple opLt) (constGasFunc GasFastestStep) (makeStackFunc 2 1)),
      (0x11, base_operation (simple opGt) (constGasFunc GasFastestStep) (makeStackFunc 2 1)),
      (0x12, base_operation (simple opSlt) (constGasFunc GasFastestStep) (makeStackFunc 2 1)),
      (0x13, base_operation (simple opSgt) (constGasFunc GasFastestStep) (makeStackFunc 2 1)),
      (0x14, base_operation (simple opEq) (constGasFunc GasFastestStep) (makeStackFunc 2 1)),
      (0x15, base_operation (simple opIszero) (constGasFunc GasFastestStep) (makeStackFunc 1 1)),
      (0x16, base_operation (simple opAnd) (constGasFunc GasFastestStep) (makeStackFunc 2 1)),
      (0x18, base_operation (simple opXor) (constGasFunc GasFastestStep) (makeStackFunc 2 1)),
      (0x17, base_operation (simple opOr) (constGasFunc GasFastestStep) (makeStackFunc 2 1)),
      (0x19, base_operation (simple opNot) (constGasFunc GasFastestStep) (makeStackFunc 1 1)),
      (0x1a, base_operation (simple opByte) (constGasFunc GasFastestStep) (makeStackFunc 2 1))]"

definition environment_operations :: "'s evm_env \<Rightarrow> (OpCode \<times> 's operation) list" where
  "environment_operations env =
     [(0x20, (base_operation (simple (opSha3 env)) gasSha3 (makeStackFunc 2 1))\<lparr>memorySize := Some memorySha3\<rparr>),
      (0x30, base_operation (simple opAddress) (constGasFunc GasQuickStep) (makeStackFunc 0 1)),
      (0x31, base_operation (simple (opBalance env)) (gasBalance env) (makeStackFunc 1 1)),
      (0x32, base_operation (simple (opOrigin env)) (constGasFunc GasQuickStep) (makeStackFunc 0 1)),
      (0x33, base_operation (simple opCaller) (constGasFunc GasQuickStep) (makeStackFunc 0 1)),
      (0x34, base_operation (simple opCallValue) (constGasFunc GasQuickStep) (makeStackFunc 0 1)),
      (0x35, base_operation (simple opCallDataLoad) (constGasFunc GasFastestStep) (makeStackFunc 1 1)),
      (0x36, base_operation (simple opCallDataSize) (constGasFunc GasQuickStep) (makeStackFunc 0 1)),
      (0x37, (base_operation (simple opCallDataCopy) gasCallDataCopy (makeStackFunc 3 0))
         \<lparr>memorySize := Some memoryCallDataCopy\<rparr>),
      (0x38, base_operation (simple opCodeSize) (constGasFunc GasQuickStep) (makeStackFunc 0 1)),
      (0x39, (base_operation (simple opCodeCopy) gasCodeCopy (makeStackFunc 3 0))
         \<lparr>memorySize := Some memoryCodeCopy\<rparr>),
      (0x3a, base_operation (simple (opGasprice env)) (constGasFunc GasQuickStep) (makeStackFunc 0 1)),
      (0x3b, base_operation (simple (opExtCodeSize env)) (gasExtCodeSize env) (makeStackFunc 1 1)),
      (0x3c, (base_operation (simple (opExtCodeCopy env)) (gasExtCodeCopy env) (makeStackFunc 4 0))
         \<lparr>memorySize := Some memoryExtCodeCopy\<rparr>),
      (0x40, base_operation (simple (opBlockhash env)) (constGasFunc GasExtStep) (makeStackFunc 1 1)),
      (0x41, base_operation (simple (opCoinbase env)) (constGasFunc GasQuickStep) (makeStackFunc 0 1)),
      (0x42, base_operation (simple (opTimestamp env)) (constGasFunc GasQuickStep) (makeStackFunc 0 1)),
      (0x43, base_operation (simple (opNumber env)) (constGasFunc GasQuickStep) (makeStackFunc 0 1)),
      (0x44, base_operation (simple (opDifficulty env)) (constGasFunc GasQuickStep) (makeStackFunc 0 1)),
      (0x45, base_operation (simple (opGasLimit env)) (constGasFunc GasQuickStep) (makeStackFunc 0 1))]"

definition flow_operations :: "'s evm_env \<Rightarrow> (OpCode \<times> 's operation) list" where
  "flow_operations env =
     [(0x50, base_operation (simple opPop) (constGasFunc GasQuickStep) (makeStackFunc 1 0)),
      (0x51, (base_operation (simple opMload) gasMLoad (makeStackFunc 1 1))\<lparr>memorySize := Some memoryMLoad\<rparr>),
      (0x52, (base_operation (simple opMstore) gasMStore (makeStackFunc 2 0))\<lparr>memorySize := Some memoryMStore\<rparr>),
      (0x53, (base_operation (simple opMstore8) gasMStore8 (makeStackFunc 2 0))\<lparr>memorySize := Some memoryMStore8\<rparr>),
      (0x54, base_operation (simple (opSload env)) (gasSLoad env) (makeStackFunc 1 1)),
      (0x55, (base_operation (simple (opSstore env)) (gasSStore env) (makeStackFunc 2 0))\<lparr>writes := True\<rparr>),
      (0x56, (base_operation (simple opJump) (constGasFunc GasMidStep) (makeStackFunc 1 0))\<lparr>jumps := True\<rparr>),
      (0x57, (base_operation (simple opJumpi) (constGasFunc GasSlowStep) (makeStackFunc 2 0))\<lparr>jumps := True\<rparr>),
      (0x58, base_operation (simple opPc) (constGasFunc GasQuickStep) (makeStackFunc 0 1)),
      (0x59, base_operation (simple opMsize) (constGasFunc GasQuickStep) (makeStackFunc 0 1)),
      (0x5a, base_operation (simple opGas) (constGasFunc GasQuickStep) (makeStackFunc 0 1)),
      (0x5b, base_operation (simple opJumpdest) (constGasFunc JumpdestGas) (makeStackFunc 0 0))]"

definition call_operations :: "'s evm_env \<Rightarrow> 's runner \<Rightarrow> (OpCode \<times> 's operation) list" where
  "call_operations env run =
     [(0xf0, (base_operation (opCreate env run) gasCreate (makeStackFunc 3 1))
         \<lparr>memorySize := Some memoryCreate, writes := True, returns := True\<rparr>),
      (0xf1, (base_operation (opCall env run) (gasCall env) (makeStackFunc 7 1))
         \<lparr>memorySize := Some memoryCall, returns := True\<rparr>),
      (0xf2, (base_operation (opCallCode env run) (gasCallCode env) (makeStackFunc 7 1))
         \<lparr>memorySize := Some memoryCall, returns := True\<rparr>),
      (0xf3, (base_operation (simple opReturn) gasReturn (makeStackFunc 2 0))
         \<lparr>memorySize := Some memoryReturn, halts := True\<rparr>),
      (0xff, (base_operation (simple (opSuicide env)) (gasSuicide env) (makeStackFunc 1 0))
         \<lparr>halts := True, writes := True\<rparr>)]"

definition push_operations :: "(OpCode \<times> 's operation) list" where
  "push_operations =
     map (\<lambda>n. (0x5f + word_of_nat n, base_operation (simple (makePush (word_of_nat n) n)) gasPush (makeStackFunc 0 1))) [1..<33]"

definition dup_operations :: "(OpCode \<times> 's operation) list" where
  "dup_operations = map (\<lambda>n. (0x7f + word_of_nat n, base_operation (simple (makeDup n)) gasDup (makeDupStackFunc n))) [1..<17]"

definition swap_operations :: "(OpCode \<times> 's operation) list" where
  "swap_operations = map (\<lambda>n. (0x8f + word_of_nat n, base_operation (simple (makeSwap n)) gasSwap (makeSwapStackFunc (n + 1)))) [1..<17]"

definition log_operations :: "'s evm_env \<Rightarrow> (OpCode \<times> 's operation) list" where
  "log_operations env =
     map (\<lambda>n. (0xa0 + word_of_nat n, (base_operation (simple (makeLog env n)) (makeGasLog (word_of_nat n)) (makeStackFunc (n + 2) 0))
       \<lparr>memorySize := Some memoryLog, writes := True\<rparr>)) [0..<5]"

definition NewFrontierInstructionSet :: "'s evm_env \<Rightarrow> 's runner \<Rightarrow> (OpCode \<times> 's operation) list" where
  "NewFrontierInstructionSet env run =
     arithmetic_operations env @ environment_operations env @ flow_operations env @ push_operations @ dup_operations @
     swap_operations @ log_operations env @ call_operations env run"

section \<open>Later instructions\<close>

definition NewHomesteadInstructionSet :: "'s evm_env \<Rightarrow> 's runner \<Rightarrow> (OpCode \<times> 's operation) list" where
  "NewHomesteadInstructionSet env run =
     (0xf4, (base_operation (opDelegateCall env run) (gasDelegateCall env) (makeStackFunc 6 1))
         \<lparr>memorySize := Some memoryDelegateCall, returns := True\<rparr>) #
     NewFrontierInstructionSet env run"

definition NewByzantiumInstructionSet :: "'s evm_env \<Rightarrow> 's runner \<Rightarrow> (OpCode \<times> 's operation) list" where
  "NewByzantiumInstructionSet env run =
     [(0xfa, (base_operation (opStaticCall env run) (gasStaticCall env) (makeStackFunc 6 1))
         \<lparr>memorySize := Some memoryStaticCall, returns := True\<rparr>),
      (0x3d, base_operation (simple opReturnDataSize) (constGasFunc GasQuickStep) (makeStackFunc 0 1)),
      (0x3e, (base_operation (simple opReturnDataCopy) gasReturnDataCopy (makeStackFunc 3 0))
         \<lparr>memorySize := Some memoryReturnDataCopy\<rparr>),
      (0xfd, (base_operation (simple opRevert) gasRevert (makeStackFunc 2 0))
         \<lparr>memorySize := Some memoryRevert, reverts := True, returns := True\<rparr>)] @
     NewHomesteadInstructionSet env run"

end
