(* ===== verification/Evm_Interpreter.thy ===== *)
theory Evm_Interpreter
  imports Evm_Jump_Table
begin

text \<open>
  The interpreter loop (\<open>src/core/vm/interpreter.go\<close>) and the machine as a whole.  One round of the loop
  is \<open>interp_step\<close>; the loop is a partial function, because without gas metering code may run for
  ever.  The interpreter runs the contracts it calls through the argument \<open>run\<close>; \<open>evm_run\<close> closes the
  circle by recursion on the number of frames that may still be opened.  The check of the call
  depth admits frames up to depth 1025, so \<open>run_levels\<close> levels are enough: the innermost one refuses
  every call by itself.
\<close>

definition instruction_set :: "'s evm_env \<Rightarrow> 's runner \<Rightarrow> (OpCode \<times> 's operation) list" where
  "instruction_set env run =
     (if IsByzantium (e_chainConfig env) (blockNumber env) then NewByzantiumInstructionSet env run
      else if IsHomestead (e_chainConfig env) (blockNumber env) then NewHomesteadInstructionSet env run
      else NewFrontierInstructionSet env run)"

definition enforceRestrictions :: "'s evm_env \<Rightarrow> OpCode \<Rightarrow> 's operation \<Rightarrow> 's frame \<Rightarrow> vm_error option go" where
  "enforceRestrictions env op opn f =
     (if ru_IsByzantium (Rules_of (e_chainConfig env) (blockNumber env)) \<and> e_readOnly (f_evm f) then
        if writes opn then Ret (Some ErrWriteProtection)
        else if op = CALL then
          go_bind (Back 2 (f_stack f)) (\<lambda>v. Ret (if BitLen v > 0 then Some ErrWriteProtection else None))
        else Ret None
      else Ret None)"

text \<open>The memory an instruction needs, rounded up to words.\<close>

definition memory_size :: "'s operation \<Rightarrow> 's frame \<Rightarrow> (vm_error + u64) go" where
  "memory_size opn f =
     (case memorySize opn of
        None \<Rightarrow> Ret (Inr 0)
      | Some ms \<Rightarrow>
          go_bind (ms (f_stack f)) (\<lambda>sz.
            case bigUint64 sz of (memSize, overflow) \<Rightarrow>
              if overflow then Ret (Inl ErrGasUintOverflow)
              else (case SafeMul (toWordSize memSize) 32 of (m, overflow') \<Rightarrow>
                Ret (if overflow' then Inl ErrGasUintOverflow else Inr m))))"

text \<open>Consuming the gas of an instruction; every failure is \<open>ErrOutOfGas\<close>.\<close>

definition use_gas :: "'s evm_env \<Rightarrow> 's operation \<Rightarrow> u64 \<Rightarrow> 's frame \<Rightarrow> (vm_error option \<times> 's frame) go" where
  "use_gas env opn memSize f =
     (if DisableGasMetering (e_vmConfig env) then Ret (None, f)
      else go_bind (gasCost opn memSize f) (\<lambda>(r, f1).
        case r of
          Inl e \<Rightarrow> Ret (Some ErrOutOfGas, f1)
        | Inr cost \<Rightarrow>
            (case UseGas cost (f_contract f1) of
               (False, c) \<Rightarrow> Ret (Some ErrOutOfGas, f1\<lparr>f_contract := c\<rparr>)
             | (True, c) \<Rightarrow> Ret (None, f1\<lparr>f_contract := c\<rparr>))))"

text \<open>A round ends the loop with a result or goes on with a new frame.\<close>

datatype 's outcome = Done ret_err "'s frame" | Next "'s frame"

text \<open>What follows the execution of an instruction.\<close>

definition finish_step :: "'s operation \<Rightarrow> ((vm_error + bytes) \<times> 's frame) go option \<Rightarrow> 's outcome go option" where
  "finish_step opn m =
     (case m of
        None \<Rightarrow> None
      | Some Panic \<Rightarrow> Some Panic
      | Some (Ret (r, f)) \<Rightarrow>
          (let res = (case r of Inl _ \<Rightarrow> [] | Inr b \<Rightarrow> b);
               f' = (if returns opn then f\<lparr>f_evm := (f_evm f)\<lparr>e_returnData := res\<rparr>\<rparr> else f) in
           Some (Ret (case r of
               Inl err \<Rightarrow> Done ([], Some err) f'
             | Inr _ \<Rightarrow>
                 if reverts opn then Done (res, Some ErrExecutionReverted) f'
                 else if halts opn then Done (res, None) f'
                 else if \<not> jumps opn then Next (f'\<lparr>f_pc := f_pc f' + 1\<rparr>)
                 else Next f'))))"

definition poll_abort :: "'s frame \<Rightarrow> bool \<times> 's frame" where
  "poll_abort f =
     (case e_abort (f_evm f) of
        None \<Rightarrow> (False, f)
      | Some 0 \<Rightarrow> (True, f)
      | Some (Suc n) \<Rightarrow> (False, f\<lparr>f_evm := (f_evm f)\<lparr>e_abort := Some n\<rparr>\<rparr>))"

text \<open>Charging the gas, expanding the memory and executing the instruction.\<close>

definition charge_and_execute :: "'s evm_env \<Rightarrow> 's operation \<Rightarrow> u64 \<Rightarrow> 's frame \<Rightarrow> 's outcome go option" where
  "charge_and_execute env opn memSize f =
     lift_go (use_gas env opn memSize f) (\<lambda>(failed, f1).
       case failed of
         Some err \<Rightarrow> Some (Ret (Done ([], Some err) f1))
       | None \<Rightarrow>
           let f2 = (if memSize > 0 then f1\<lparr>f_mem := Resize memSize (f_mem f1)\<rparr> else f1)
           in finish_step opn (execute opn f2))"

text \<open>From a valid opcode to the execution of its instruction.\<close>

definition exec_operation :: "'s evm_env \<Rightarrow> OpCode \<Rightarrow> 's operation \<Rightarrow> 's frame \<Rightarrow> 's outcome go option" where
  "exec_operation env op opn f =
     (case validateStack opn (f_stack f) of
        Some err \<Rightarrow> Some (Ret (Done ([], Some err) f))
      | None \<Rightarrow>
          lift_go (enforceRestrictions env op opn f) (\<lambda>restricted.
            case restricted of
              Some err \<Rightarrow> Some (Ret (Done ([], Some err) f))
            | None \<Rightarrow>
                lift_go (memory_size opn f) (\<lambda>ms.
                  case ms of
                    Inl err \<Rightarrow> Some (Ret (Done ([], Some err) f))
                  | Inr memSize \<Rightarrow> charge_and_execute env opn memSize f)))"

definition interp_step :: "'s evm_env \<Rightarrow> 's runner \<Rightarrow> 's frame \<Rightarrow> 's outcome go option" where
  "interp_step env run f0 =
     (case poll_abort f0 of (aborted, f) \<Rightarrow>
        if aborted then Some (Ret (Done ([], None) f))
        else
          let op = GetOp (f_pc f) (f_contract f) in
          (case map_of (instruction_set env run) op of
             None \<Rightarrow> Some (Ret (Done ([], Some (ErrInvalidOpcode op)) f))
           | Some opn \<Rightarrow> exec_operation env op opn f))"

partial_function (option) interp_loop :: "'s evm_env \<Rightarrow> 's runner \<Rightarrow> 's frame \<Rightarrow> (ret_err \<times> 's frame) go option" where
  "interp_loop env run f =
     (case interp_step env run f of
        None \<Rightarrow> None
      | Some Panic \<Rightarrow> Some Panic
      | Some (Ret (Done r f')) \<Rightarrow> Some (Ret (r, f'))
      | Some (Ret (Next f')) \<Rightarrow> interp_loop env run f')"

definition Interpreter_Run :: "'s evm_env \<Rightarrow> 's runner \<Rightarrow> 's runner" where
  "Interpreter_Run env run evm0 contract input =
     (let evm = evm0\<lparr>e_depth := e_depth evm0 + 1, e_returnData := []\<rparr> in
      if Code contract = [] then Some (Ret (([], None), contract, evm\<lparr>e_depth := e_depth evm0\<rparr>))
      else
        (case interp_loop env run
            \<lparr>f_pc = 0, f_mem = NewMemory, f_stack = newstack, f_contract = contract\<lparr>Input := input\<rparr>, f_evm = evm\<rparr> of
           None \<Rightarrow> None
         | Some Panic \<Rightarrow> Some Panic
         | Some (Ret (r, f)) \<Rightarrow>
             Some (Ret (r, f_contract f, (f_evm f)\<lparr>e_depth := e_depth (f_evm f) - 1\<rparr>))))"

text \<open>\<open>run\<close> of \<open>evm.go\<close>: a precompiled contract or the interpreter.\<close>

definition run_contract :: "'s evm_env \<Rightarrow> 's runner \<Rightarrow> 's runner" where
  "run_contract env run evm contract input =
     (case (case CodeAddr contract of None \<Rightarrow> None | Some a \<Rightarrow> precompiles env a) of
        Some p \<Rightarrow> Some (go_bind (RunPrecompiledContract env p input contract) (\<lambda>(r, c). Ret (r, c, evm)))
      | None \<Rightarrow> Interpreter_Run env run evm contract input)"

fun evm_run :: "'s evm_env \<Rightarrow> nat \<Rightarrow> 's runner" where
  "evm_run env 0 = (\<lambda>evm contract input. None)"
| "evm_run env (Suc n) = run_contract env (evm_run env n)"

definition run_levels :: nat where
  "run_levels = CallCreateDepth + 2"

section \<open>The entry points\<close>

definition EVM_Call :: "'s evm_env \<Rightarrow> 's EVM \<Rightarrow> ContractRef \<Rightarrow> bytes \<Rightarrow> bytes \<Rightarrow> u64 \<Rightarrow> int \<Rightarrow> 's call_result" where
  "EVM_Call env = Call env (evm_run env run_levels)"

definition EVM_CallCode :: "'s evm_env \<Rightarrow> 's EVM \<Rightarrow> ContractRef \<Rightarrow> bytes \<Rightarrow> bytes \<Rightarrow> u64 \<Rightarrow> int \<Rightarrow> 's call_result" where
  "EVM_CallCode env = CallCode env (evm_run env run_levels)"

definition EVM_DelegateCall :: "'s evm_env \<Rightarrow> 's EVM \<Rightarrow> ContractRef \<Rightarrow> bytes \<Rightarrow> bytes \<Rightarrow> u64 \<Rightarrow> 's call_result" where
  "EVM_DelegateCall env = DelegateCall env (evm_run env run_levels)"

definition EVM_StaticCall :: "'s evm_env \<Rightarrow> 's EVM \<Rightarrow> ContractRef \<Rightarrow> bytes \<Rightarrow> bytes \<Rightarrow> u64 \<Rightarrow> 's call_result" where
  "EVM_StaticCall env = StaticCall env (evm_run env run_levels)"

definition EVM_Create :: "'s evm_env \<Rightarrow> 's EVM \<Rightarrow> ContractRef \<Rightarrow> bytes \<Rightarrow> u64 \<Rightarrow> int \<Rightarrow>
    ((bytes \<times> bytes \<times> u64 \<times> vm_error option) \<times> destinations \<times> 's EVM) go option" where
  "EVM_Create env = Create env (evm_run env run_levels)"

definition NewEVM :: "'s \<Rightarrow> 's EVM" where
  "NewEVM statedb = \<lparr>e_StateDB = statedb, e_depth = 0, e_abort = None, e_readOnly = False, e_returnData = []\<rparr>"

definition Cancel :: "'s EVM \<Rightarrow> 's EVM" where
  "Cancel evm = evm\<lparr>e_abort := Some 0\<rparr>"

end
