(* ===== verification/Evm_Frame.thy ===== *)
theory Evm_Frame
  imports Evm_Interpreter
begin

text \<open>
  What the instructions and the gas functions leave alone.  An instruction that calls no other
  contract keeps its contract, up to the cache of jump analyses, and of the machine it changes at
  most the chain state; \<open>exec_keeps R\<close> says this together with a relation \<open>R\<close> between the states
  before and after.  The facts for the single instructions are in \<open>evm_exec\<close>, those for the gas
  functions in \<open>evm_price\<close>.
\<close>

named_theorems evm_exec \<open>what the instructions keep\<close>
named_theorems evm_price \<open>what the gas functions keep\<close>

definition same_contract :: "Contract \<Rightarrow> Contract \<Rightarrow> bool" where
  "same_contract c c' \<longleftrightarrow> c' = c\<lparr>jumpdests := jumpdests c'\<rparr>"

definition same_machine :: "('s \<Rightarrow> 's \<Rightarrow> bool) \<Rightarrow> 's EVM \<Rightarrow> 's EVM \<Rightarrow> bool" where
  "same_machine R e e' \<longleftrightarrow> e' = e\<lparr>e_StateDB := e_StateDB e'\<rparr> \<and> R (e_StateDB e) (e_StateDB e')"

definition exec_keeps :: "('s \<Rightarrow> 's \<Rightarrow> bool) \<Rightarrow> 's exec \<Rightarrow> bool" where
  "exec_keeps R ex \<longleftrightarrow> (\<forall>f x f'. ex f = Ret (x, f') \<longrightarrow>
     same_contract (f_contract f) (f_contract f') \<and> same_machine R (f_evm f) (f_evm f'))"

definition price_keeps :: "('s \<Rightarrow> 's \<Rightarrow> bool) \<Rightarrow> 's gasFunc \<Rightarrow> bool" where
  "price_keeps R gc \<longleftrightarrow> (\<forall>ms f x f'. gc ms f = Ret (x, f') \<longrightarrow>
     f_contract f' = f_contract f \<and> same_machine R (f_evm f) (f_evm f') \<and> f_pc f' = f_pc f \<and> store (f_mem f') = store (f_mem f) \<and>
     tl (f_stack f') = tl (f_stack f) \<and> length (f_stack f') = length (f_stack f))"

abbreviation any :: "'s \<Rightarrow> 's \<Rightarrow> bool" where
  "any \<equiv> \<lambda>s s'. True"

lemma same_contract_refl [simp]: "same_contract c c"
  by (simp add: same_contract_def)

lemma same_contract_jumpdests [simp]: "same_contract c (c\<lparr>jumpdests := d\<rparr>)"
  by (simp add: same_contract_def)

lemma same_contractD:
  assumes "same_contract c c'"
  shows "Gas c' = Gas c" "Code c' = Code c" "CodeHash c' = CodeHash c" "c_self c' = c_self c" "c_value c' = c_value c"
    "Input c' = Input c" "CallerAddress c' = CallerAddress c" "caller c' = caller c" "CodeAddr c' = CodeAddr c"
  using assms unfolding same_contract_def by (metis Contract.select_convs Contract.surjective Contract.update_convs(4))+

lemma same_machine_refl [simp]: "R (e_StateDB e) (e_StateDB e) \<Longrightarrow> same_machine R e e"
  by (simp add: same_machine_def)

lemma same_machine_db [simp]: "same_machine R e (e\<lparr>e_StateDB := s\<rparr>) \<longleftrightarrow> R (e_StateDB e) s"
  by (simp add: same_machine_def)

lemma same_machineD:
  assumes "same_machine R e e'"
  shows "e_depth e' = e_depth e" "e_abort e' = e_abort e" "e_readOnly e' = e_readOnly e" "e_returnData e' = e_returnData e"
    "R (e_StateDB e) (e_StateDB e')"
proof -
  have "e' = e\<lparr>e_StateDB := e_StateDB e'\<rparr>" "R (e_StateDB e) (e_StateDB e')" using assms by (simp_all add: same_machine_def)
  then show "e_depth e' = e_depth e" "e_abort e' = e_abort e" "e_readOnly e' = e_readOnly e" "e_returnData e' = e_returnData e"
    "R (e_StateDB e) (e_StateDB e')"
    by (metis EVM.select_convs EVM.surjective EVM.update_convs(1))+
qed

lemma same_machine_mono: "same_machine R e e' \<Longrightarrow> R (e_StateDB e) (e_StateDB e') \<longrightarrow> S (e_StateDB e) (e_StateDB e') \<Longrightarrow> same_machine S e e'"
  by (simp add: same_machine_def)

lemma exec_keeps_mono: "exec_keeps R ex \<Longrightarrow> (\<And>s s'. R s s' \<Longrightarrow> S s s') \<Longrightarrow> exec_keeps S ex"
  unfolding exec_keeps_def by (meson same_machine_mono)

lemma price_keeps_mono: "price_keeps R gc \<Longrightarrow> (\<And>s s'. R s s' \<Longrightarrow> S s s') \<Longrightarrow> price_keeps S gc"
  unfolding price_keeps_def by (meson same_machine_mono)

lemma set_stack_Ret [simp]: "set_stack f st = Ret (x, f') \<longleftrightarrow> x = Inr [] \<and> f' = f\<lparr>f_stack := st\<rparr>"
  by (auto simp: set_stack_def)

lemma set_db_simps [simp]:
  "f_contract (set_db s f) = f_contract f" "f_stack (set_db s f) = f_stack f" "f_mem (set_db s f) = f_mem f"
  "f_pc (set_db s f) = f_pc f" "f_evm (set_db s f) = (f_evm f)\<lparr>e_StateDB := s\<rparr>"
  by (simp_all add: set_db_def)

lemma go_bind_Ret: "go_bind m k = Ret y \<longleftrightarrow> (\<exists>x. m = Ret x \<and> k x = Ret y)"
  by (cases m) auto

section \<open>Instructions\<close>

lemma stack_ops_keep [simp]:
  "exec_keeps (=) (stack_op1 g)" "exec_keeps (=) (stack_op2 g2)" "exec_keeps (=) (stack_op3 g3)" "exec_keeps (=) (push_value v)"
  by (auto simp: exec_keeps_def stack_op1_def stack_op2_def stack_op3_def push_value_def split: list.splits)

lemma arithmetic_keep [evm_exec]:
  "exec_keeps (=) opStop" "exec_keeps (=) opAdd" "exec_keeps (=) opMul" "exec_keeps (=) opSub" "exec_keeps (=) opDiv"
  "exec_keeps (=) opSdiv" "exec_keeps (=) opMod" "exec_keeps (=) opSmod" "exec_keeps (=) opAddmod" "exec_keeps (=) opMulmod"
  "exec_keeps (=) opExp" "exec_keeps (=) opLt" "exec_keeps (=) opGt" "exec_keeps (=) opSlt" "exec_keeps (=) opSgt"
  "exec_keeps (=) opEq" "exec_keeps (=) opIszero" "exec_keeps (=) opAnd" "exec_keeps (=) opXor" "exec_keeps (=) opOr"
  "exec_keeps (=) opNot" "exec_keeps (=) opByte"
  unfolding opAdd_def opMul_def opSub_def opDiv_def opSdiv_def opMod_def opSmod_def opAddmod_def opMulmod_def opExp_def
    opLt_def opGt_def opSlt_def opSgt_def opEq_def opIszero_def opAnd_def opXor_def opOr_def opNot_def opByte_def
  by simp_all (simp add: exec_keeps_def opStop_def)

lemma opSignExtend_keeps [evm_exec]: "exec_keeps (=) opSignExtend"
  by (auto simp: exec_keeps_def opSignExtend_def Let_def split: list.splits if_splits)

lemma environment_keep [evm_exec]:
  "exec_keeps (=) (opOrigin env)" "exec_keeps (=) (opGasprice env)" "exec_keeps (=) (opBlockhash env)"
  "exec_keeps (=) (opCoinbase env)" "exec_keeps (=) (opTimestamp env)" "exec_keeps (=) (opNumber env)"
  "exec_keeps (=) (opDifficulty env)" "exec_keeps (=) (opGasLimit env)"
  unfolding opOrigin_def opGasprice_def opBlockhash_def opCoinbase_def opTimestamp_def opNumber_def opDifficulty_def opGasLimit_def
  by simp_all

lemma reading_keep [evm_exec]:
  "exec_keeps (=) opAddress" "exec_keeps (=) (opBalance env)" "exec_keeps (=) opCaller" "exec_keeps (=) opCallValue"
  "exec_keeps (=) opCallDataSize" "exec_keeps (=) opReturnDataSize" "exec_keeps (=) (opExtCodeSize env)"
  "exec_keeps (=) opCodeSize" "exec_keeps (=) (opSload env)" "exec_keeps (=) opPc" "exec_keeps (=) opMsize" "exec_keeps (=) opGas"
  "exec_keeps (=) opPop" "exec_keeps (=) opJumpdest"
  by (auto simp: exec_keeps_def opAddress_def opBalance_def opCaller_def opCallValue_def opCallDataSize_def
      opReturnDataSize_def opExtCodeSize_def opCodeSize_def opSload_def opPc_def opMsize_def opGas_def opPop_def opJumpdest_def
      stack_op1_def push_value_def split: list.splits option.splits)

lemma memory_keep [evm_exec]:
  "exec_keeps (=) opCallDataLoad" "exec_keeps (=) opCallDataCopy" "exec_keeps (=) opReturnDataCopy"
  "exec_keeps (=) opCodeCopy" "exec_keeps (=) (opExtCodeCopy env)" "exec_keeps (=) opMload" "exec_keeps (=) opMstore"
  "exec_keeps (=) opMstore8" "exec_keeps (=) opReturn" "exec_keeps (=) opRevert"
  by (auto simp: exec_keeps_def opCallDataLoad_def opCallDataCopy_def opReturnDataCopy_def opCodeCopy_def opExtCodeCopy_def
      opMload_def opMstore_def opMstore8_def opReturn_def opRevert_def copy_to_memory_def Let_def go_bind_Ret
      split: list.splits if_splits)

lemma jump_keep [evm_exec]: "exec_keeps (=) opJump" "exec_keeps (=) opJumpi"
  by (auto simp: exec_keeps_def opJump_def opJumpi_def jump_to_def Let_def go_bind_Ret split: list.splits if_splits prod.splits)

lemma family_keep [evm_exec]: "exec_keeps (=) (makePush n k)" "exec_keeps (=) (makeDup k)" "exec_keeps (=) (makeSwap k)"
  by (auto simp: exec_keeps_def makePush_def makeDup_def makeSwap_def Let_def go_bind_Ret)

lemma state_keep [evm_exec]:
  "exec_keeps any (opSha3 env)" "exec_keeps any (opSstore env)" "exec_keeps any (opSuicide env)" "exec_keeps any (makeLog env k)"
  by (auto simp: exec_keeps_def opSha3_def opSstore_def opSuicide_def makeLog_def Let_def go_bind_Ret split: list.splits if_splits)

lemma opSha3_keeps: "\<not> EnablePreimageRecording (e_vmConfig env) \<Longrightarrow> exec_keeps (=) (opSha3 env)"
  by (auto simp: exec_keeps_def opSha3_def go_bind_Ret split: list.splits)

section \<open>Gas functions\<close>

lemma gas_bind_Ret:
  "gas_bind m k = Ret (x, f') \<longleftrightarrow> (\<exists>e. m = Ret (Inl e, f') \<and> x = Inl e) \<or> (\<exists>g f. m = Ret (Inr g, f) \<and> k g f = Ret (x, f'))"
  by (auto simp: gas_bind_def split: go.splits sum.splits)

definition price_frame :: "'s frame \<Rightarrow> 's frame \<Rightarrow> bool" where
  "price_frame f f' \<longleftrightarrow> f_pc f' = f_pc f \<and> f_contract f' = f_contract f \<and> f_evm f' = f_evm f \<and>
     store (f_mem f') = store (f_mem f) \<and> tl (f_stack f') = tl (f_stack f) \<and> length (f_stack f') = length (f_stack f)"

lemma price_frame_refl [simp]: "price_frame f f"
  by (simp add: price_frame_def)

lemma price_frame_trans: "price_frame f g \<Longrightarrow> price_frame g h \<Longrightarrow> price_frame f h"
  by (simp add: price_frame_def)

lemma memory_gas_frame: "memory_gas ms f = Ret (x, f') \<Longrightarrow> price_frame f f'"
  by (auto simp: memory_gas_def memoryGasCost_def price_frame_def Let_def split: prod.splits if_splits)

lemma safe_frame:
  "safe_add a b f = Ret (x, f') \<Longrightarrow> price_frame f f'" "safe_mul a b f = Ret (x, f') \<Longrightarrow> price_frame f f'"
  "back_uint64 n f = Ret (x, f') \<Longrightarrow> price_frame f f'"
  by (auto simp: safe_add_def safe_mul_def back_uint64_def bigUint64_def go_bind_Ret split: prod.splits)

lemma call_gas_from_frame: "call_gas_from env gas f = Ret (x, f') \<Longrightarrow> price_frame f f'"
proof -
  assume e: "call_gas_from env gas f = Ret (x, f')"
  then obtain req where "Back 0 (f_stack f) = Ret req" by (auto simp: call_gas_from_def go_bind_Ret)
  then obtain y st where st: "f_stack f = y # st" by (cases "f_stack f") (auto simp: Back_def)
  show ?thesis
  proof (cases "callGas (gasTable env) (Gas (f_contract f)) gas y")
    case (Inr cg)
    then have "safe_add gas cg (f\<lparr>f_stack := uint cg # st\<rparr>) = Ret (x, f')"
      using e st by (auto simp: call_gas_from_def Back_def)
    from safe_frame(1) [OF this] st show ?thesis by (simp add: price_frame_def)
  qed (use e st in \<open>auto simp: call_gas_from_def Back_def\<close>)
qed

lemma gas_bind_frame:
  assumes "gas_bind m k = Ret (x, f')" and "\<And>y g. m = Ret (y, g) \<Longrightarrow> price_frame f g"
    and "\<And>y g. k y g = Ret (x, f') \<Longrightarrow> price_frame g f'"
  shows "price_frame f f'"
proof (cases m)
  case (Ret r)
  obtain y g where r: "r = (y, g)" by fastforce
  have "price_frame f g" using assms(2) Ret r by simp
  with assms(1,3) Ret r show ?thesis by (cases y) (auto simp: gas_bind_def intro: price_frame_trans)
qed (use assms(1) in \<open>simp add: gas_bind_def\<close>)

lemmas frame_steps = memory_gas_frame safe_frame call_gas_from_frame

lemma gas_words_frame: "gas_words base n w ms f = Ret (x, f') \<Longrightarrow> price_frame f f'"
  unfolding gas_words_def by (erule gas_bind_frame | erule frame_steps)+

lemma gas_memory_plus_frame: "gas_memory_plus base ms f = Ret (x, f') \<Longrightarrow> price_frame f f'"
  unfolding gas_memory_plus_def by (erule gas_bind_frame | erule frame_steps)+

lemma makeGasLog_frame: "makeGasLog n ms f = Ret (x, f') \<Longrightarrow> price_frame f f'"
  unfolding makeGasLog_def by (erule gas_bind_frame | erule frame_steps)+

lemma gasExp_frame: "gasExp env ms f = Ret (x, f') \<Longrightarrow> price_frame f f'"
  unfolding gasExp_def Let_def by (auto simp: go_bind_Ret dest: safe_frame)

lemma call_price_frame: "call_price env base ms f = Ret (x, f') \<Longrightarrow> price_frame f f'"
  unfolding call_price_def by (erule gas_bind_frame | erule frame_steps)+

lemma gasCall_frame:
  "gasCall env ms f = Ret (x, f') \<Longrightarrow> price_frame f f'" "gasCallCode env ms f = Ret (x, f') \<Longrightarrow> price_frame f f'"
  "gasDelegateCall env ms f = Ret (x, f') \<Longrightarrow> price_frame f f'" "gasStaticCall env ms f = Ret (x, f') \<Longrightarrow> price_frame f f'"
  unfolding gasCall_def gasCallCode_def gasDelegateCall_def gasStaticCall_def Let_def go_bind_Ret
  by ((elim exE conjE)?, (erule call_price_frame | (erule gas_bind_frame | erule frame_steps)+))+

lemma price_frame_keeps: "(\<And>ms f x f'. gc ms f = Ret (x, f') \<Longrightarrow> price_frame f f') \<Longrightarrow> price_keeps (=) gc"
  unfolding price_keeps_def price_frame_def by simp

lemma price_frames:
  "price_keeps (=) (gas_words base n w)" "price_keeps (=) (gas_memory_plus base)" "price_keeps (=) (makeGasLog k)"
  "price_keeps (=) (gasExp env)" "price_keeps (=) (gasCall env)" "price_keeps (=) (gasCallCode env)"
  "price_keeps (=) (gasDelegateCall env)" "price_keeps (=) (gasStaticCall env)" "price_keeps (=) memory_gas"
  by (rule price_frame_keeps, erule gas_words_frame gas_memory_plus_frame makeGasLog_frame gasExp_frame gasCall_frame memory_gas_frame)+

lemma constant_prices:
  "price_keeps (=) (constGasFunc c)" "price_keeps (=) (gasBalance env)" "price_keeps (=) (gasExtCodeSize env)"
  "price_keeps (=) (gasSLoad env)" "price_keeps (=) gasPush" "price_keeps (=) gasSwap" "price_keeps (=) gasDup"
  by (simp_all add: price_keeps_def constGasFunc_def gasBalance_def gasExtCodeSize_def gasSLoad_def gasPush_def gasSwap_def gasDup_def)

lemma price_keep [evm_price]:
  "price_keeps (=) (constGasFunc c)" "price_keeps (=) gasCallDataCopy" "price_keeps (=) gasReturnDataCopy"
  "price_keeps (=) (makeGasLog n)" "price_keeps (=) gasSha3" "price_keeps (=) gasCodeCopy" "price_keeps (=) (gasExtCodeCopy env)"
  "price_keeps (=) gasMLoad" "price_keeps (=) gasMStore8" "price_keeps (=) gasMStore" "price_keeps (=) gasCreate"
  "price_keeps (=) (gasBalance env)" "price_keeps (=) (gasExtCodeSize env)" "price_keeps (=) (gasSLoad env)" "price_keeps (=) (gasExp env)"
  "price_keeps (=) (gasCall env)" "price_keeps (=) (gasCallCode env)" "price_keeps (=) gasReturn" "price_keeps (=) gasRevert"
  "price_keeps (=) (gasDelegateCall env)" "price_keeps (=) (gasStaticCall env)" "price_keeps (=) gasPush" "price_keeps (=) gasSwap"
  "price_keeps (=) gasDup"
  unfolding gasCallDataCopy_def gasReturnDataCopy_def gasSha3_def gasCodeCopy_def gasExtCodeCopy_def gasMLoad_def gasMStore8_def
    gasMStore_def gasCreate_def gasReturn_def gasRevert_def
  by (simp_all add: price_frames constant_prices)

lemma price_state_keeps:
  assumes "\<And>ms f x f'. gc ms f = Ret (x, f') \<Longrightarrow> f' = f \<or> (\<exists>s. f' = set_db s f)"
  shows "price_keeps any gc"
proof -
  have "f_contract f' = f_contract f \<and> same_machine any (f_evm f) (f_evm f') \<and> f_pc f' = f_pc f \<and> f_mem f' = f_mem f \<and> f_stack f' = f_stack f"
    if "gc ms f = Ret (x, f')" for ms f x f'
    using assms [OF that] by auto
  then show ?thesis unfolding price_keeps_def by simp
qed

lemma gasSStore_keeps [evm_price]: "price_keeps any (gasSStore env)"
proof (rule price_state_keeps)
  fix ms f x f'
  assume e: "gasSStore env ms f = Ret (x, f')"
  then obtain y z where "Back 1 (f_stack f) = Ret y" "Back 0 (f_stack f) = Ret z"
    by (cases "Back 1 (f_stack f)"; cases "Back 0 (f_stack f)") (auto simp: gasSStore_def)
  with e show "f' = f \<or> (\<exists>s. f' = set_db s f)" unfolding gasSStore_def Let_def by (auto split: if_split_asm)
qed

lemma gasSuicide_keeps [evm_price]: "price_keeps any (gasSuicide env)"
proof (rule price_state_keeps)
  fix ms f x f'
  assume e: "gasSuicide env ms f = Ret (x, f')"
  then show "f' = f \<or> (\<exists>s. f' = set_db s f)"
    unfolding gasSuicide_def Let_def
    by (cases "IsEIP150 (e_chainConfig env) (blockNumber env)"; cases "Back 0 (f_stack f)";
        cases "db_HasSuicided (e_db env) (f_db f) (c_self (f_contract f))") auto
qed

end
