(* ===== verification/Evm_Termination.thy ===== *)
theory Evm_Termination
  imports Evm_Frame
begin

text \<open>
  With gas metering the virtual machine stops: every instruction that does not end its frame costs
  gas, a call costs more than it passes on, and the gas a call returns is at most what it was
  given.  So the loop of a frame is bounded by its gas, and the nesting of frames by the check of the
  call depth.
\<close>

section \<open>Prices are positive\<close>

definition price_pos :: "'s gasFunc \<Rightarrow> bool" where
  "price_pos gc \<longleftrightarrow> (\<forall>ms f cost f'. gc ms f = Ret (Inr cost, f') \<longrightarrow> 0 < unat cost)"

lemma safe_add_exact: "safe_add a b f = Ret (Inr g, f') \<Longrightarrow> unat g = unat a + unat b"
  using SafeAdd_exact [of a b] by (auto simp: safe_add_def split: prod.splits if_splits)

lemma gas_bind_Inr: "gas_bind m k = Ret (Inr g, f') \<longleftrightarrow> (\<exists>x f. m = Ret (Inr x, f) \<and> k x f = Ret (Inr g, f'))"
  by (auto simp: gas_bind_Ret)

lemma gasTable_cases: "gasTable env \<in> {GasTableHomestead, GasTableEIP150, GasTableEIP158}"
  by (simp add: gasTable_def GasTable_of_def)

lemma gasTable_pos:
  "0 < unat (gt_Balance (gasTable env))" "0 < unat (ExtcodeSize (gasTable env))" "0 < unat (SLoad (gasTable env))"
  "0 < unat (ExtcodeCopy (gasTable env))" "40 \<le> unat (Calls (gasTable env))" "unat (Calls (gasTable env)) \<le> 700"
  using gasTable_cases [of env] by (auto simp: GasTableHomestead_def GasTableEIP150_def GasTableEIP158_def)

lemma gas_words_pos: "0 < unat base \<Longrightarrow> price_pos (gas_words base n w)"
  unfolding price_pos_def gas_words_def gas_bind_Inr by (auto dest!: safe_add_exact)

lemma gas_memory_plus_pos: "0 < unat base \<Longrightarrow> price_pos (gas_memory_plus base)"
  unfolding price_pos_def gas_memory_plus_def gas_bind_Inr by (auto dest!: safe_add_exact)

lemma makeGasLog_pos: "price_pos (makeGasLog n)"
  unfolding price_pos_def makeGasLog_def gas_bind_Inr by (auto dest!: safe_add_exact simp: LogGas_def)

lemma gasExp_pos: "price_pos (gasExp env)"
  unfolding price_pos_def gasExp_def go_bind_Ret Let_def by (auto dest!: safe_add_exact simp: GasSlowStep_def)

lemma gasSStore_pos: "price_pos (gasSStore env)"
  unfolding price_pos_def gasSStore_def go_bind_Ret Let_def by (auto simp: gas_prices split: if_split_asm)

lemma price_pos_all:
  "0 < unat c \<Longrightarrow> price_pos (constGasFunc c)" "price_pos gasCallDataCopy" "price_pos gasReturnDataCopy" "price_pos gasSha3"
  "price_pos gasCodeCopy" "price_pos (gasExtCodeCopy env)" "price_pos gasMLoad" "price_pos gasMStore8" "price_pos gasMStore"
  "price_pos gasCreate" "price_pos (gasBalance env)" "price_pos (gasExtCodeSize env)" "price_pos (gasSLoad env)"
  "price_pos gasPush" "price_pos gasSwap" "price_pos gasDup"
  unfolding gasCallDataCopy_def gasReturnDataCopy_def gasSha3_def gasCodeCopy_def gasExtCodeCopy_def gasMLoad_def gasMStore8_def
    gasMStore_def gasCreate_def
  using gasTable_pos [of env]
  by (simp_all add: gas_words_pos gas_memory_plus_pos gas_prices) (simp_all add: price_pos_def constGasFunc_def gasBalance_def gasExtCodeSize_def
      gasSLoad_def gasPush_def gasSwap_def gasDup_def gas_prices)

section \<open>One round\<close>

definition f_gas :: "'s frame \<Rightarrow> nat" where
  "f_gas f = unat (Gas (f_contract f))"

definition f_depth :: "'s frame \<Rightarrow> nat" where
  "f_depth f = e_depth (f_evm f)"

definition exec_fine :: "nat \<Rightarrow> nat \<Rightarrow> 's operation \<Rightarrow> ((vm_error + bytes) \<times> 's frame) go option \<Rightarrow> bool" where
  "exec_fine d g opn r \<longleftrightarrow> r \<noteq> None \<and> (\<forall>y f'. r = Some (Ret (y, f')) \<longrightarrow>
     f_depth f' = d \<and> f_gas f' \<le> g \<and> (\<not> halts opn \<and> \<not> reverts opn \<longrightarrow> f_gas f' < g))"

definition op_fine :: "nat \<Rightarrow> 's operation \<Rightarrow> bool" where
  "op_fine d opn \<longleftrightarrow> price_keeps any (gasCost opn) \<and>
     (\<forall>ms f cost f1 m. gasCost opn ms f = Ret (Inr cost, f1) \<longrightarrow> f_depth f = d \<longrightarrow> cost \<le> Gas (f_contract f) \<longrightarrow>
       exec_fine d (f_gas f) opn
         (execute opn (f1\<lparr>f_contract := (f_contract f1)\<lparr>Gas := Gas (f_contract f1) - cost\<rparr>, f_mem := m\<rparr>)))"

definition step_fine :: "nat \<Rightarrow> nat \<Rightarrow> 's outcome go option \<Rightarrow> bool" where
  "step_fine d g r \<longleftrightarrow> r \<noteq> None \<and> (\<forall>x f'. r = Some (Ret (Done x f')) \<longrightarrow> f_depth f' = d \<and> f_gas f' \<le> g) \<and>
     (\<forall>f'. r = Some (Ret (Next f')) \<longrightarrow> f_depth f' = d \<and> f_gas f' < g)"

lemma step_fine_simps [simp]:
  "step_fine d g (Some Panic)" "step_fine d g (Some (Ret (Done x f))) \<longleftrightarrow> f_depth f = d \<and> f_gas f \<le> g"
  "step_fine d g (Some (Ret (Next f))) \<longleftrightarrow> f_depth f = d \<and> f_gas f < g"
  by (auto simp: step_fine_def)

lemma f_simps [simp]:
  "f_gas (f\<lparr>f_pc := p\<rparr>) = f_gas f" "f_depth (f\<lparr>f_pc := p\<rparr>) = f_depth f"
  "f_gas (f\<lparr>f_mem := m\<rparr>) = f_gas f" "f_depth (f\<lparr>f_mem := m\<rparr>) = f_depth f"
  "f_gas (f\<lparr>f_evm := e\<rparr>) = f_gas f" "f_depth (f\<lparr>f_evm := e\<rparr>) = e_depth e"
  "f_depth (f\<lparr>f_contract := c\<rparr>) = f_depth f"
  by (simp_all add: f_gas_def f_depth_def)

lemma lift_go_fine: "(\<And>x. m = Ret x \<Longrightarrow> step_fine d g (k x)) \<Longrightarrow> step_fine d g (lift_go m k)"
  by (cases m) (auto simp: lift_go_def)

lemma finish_step_fine: "exec_fine d g opn r \<Longrightarrow> step_fine d g (finish_step opn r)"
  unfolding exec_fine_def finish_step_def
  by (auto simp: Let_def f_depth_def f_gas_def split: option.splits go.splits sum.splits)

lemma charge_and_execute_fine:
  assumes "op_fine d opn" and "f_depth f = d" and "\<not> DisableGasMetering (e_vmConfig env)"
  shows "step_fine d (f_gas f) (charge_and_execute env opn ms f)"
proof (cases "gasCost opn ms f")
  case Panic
  then show ?thesis using assms(3) by (simp add: charge_and_execute_def use_gas_def lift_go_def)
next
  case (Ret x)
  then obtain r f0 where gc: "gasCost opn ms f = Ret (r, f0)" by (cases x) auto
  have keep: "f_contract f0 = f_contract f" "f_depth f0 = d"
    using assms(1,2) gc unfolding op_fine_def price_keeps_def f_depth_def by (metis same_machineD(1))+
  show ?thesis
  proof (cases "\<exists>cost. r = Inr cost \<and> cost \<le> Gas (f_contract f)")
    case True
    then obtain cost where cost: "r = Inr cost" "cost \<le> Gas (f_contract f)" by blast
    let ?f1 = "f0\<lparr>f_contract := (f_contract f0)\<lparr>Gas := Gas (f_contract f0) - cost\<rparr>\<rparr>"
    have u: "use_gas env opn ms f = Ret (None, ?f1)"
      using assms(3) gc cost keep by (simp add: use_gas_def UseGas_def not_less)
    have "exec_fine d (f_gas f) opn (execute opn (?f1\<lparr>f_mem := m\<rparr>))" for m
      using assms(1,2) gc cost unfolding op_fine_def by simp
    from this [of "f_mem ?f1"] this [of "Resize ms (f_mem ?f1)"] show ?thesis
      unfolding charge_and_execute_def u lift_go_def by (simp add: finish_step_fine)
  next
    case False
    then have "use_gas env opn ms f = Ret (Some ErrOutOfGas, f0)"
      using assms(3) gc keep by (cases r) (auto simp: use_gas_def UseGas_def not_le)
    then show ?thesis using keep by (simp add: charge_and_execute_def lift_go_def f_gas_def)
  qed
qed

lemma exec_operation_fine:
  assumes "op_fine d opn" and "f_depth f = d" and "\<not> DisableGasMetering (e_vmConfig env)"
  shows "step_fine d (f_gas f) (exec_operation env op opn f)"
  unfolding exec_operation_def
  using assms by (auto intro!: lift_go_fine charge_and_execute_fine split: option.split sum.split)

section \<open>Instructions that call no contract\<close>

lemma simple_fine:
  assumes "exec_keeps any ex" and "price_keeps any (gasCost opn)" and "execute opn = simple ex"
    and "\<not> halts opn \<and> \<not> reverts opn \<Longrightarrow> price_pos (gasCost opn)"
  shows "op_fine d opn"
proof -
  have "exec_fine d (f_gas f) opn
      (execute opn (f1\<lparr>f_contract := (f_contract f1)\<lparr>Gas := Gas (f_contract f1) - cost\<rparr>, f_mem := m\<rparr>))"
    if gc: "gasCost opn ms f = Ret (Inr cost, f1)" and d: "f_depth f = d" and le: "cost \<le> Gas (f_contract f)" for ms f cost f1 m
  proof -
    let ?f = "f1\<lparr>f_contract := (f_contract f1)\<lparr>Gas := Gas (f_contract f1) - cost\<rparr>, f_mem := m\<rparr>"
    have keep: "f_contract f1 = f_contract f" "f_depth f1 = d"
      using assms(2) gc d unfolding price_keeps_def f_depth_def by (metis same_machineD(1))+
    have gas: "f_gas ?f = f_gas f - unat cost" using le keep(1) by (simp add: f_gas_def unat_sub)
    have pos: "0 < unat cost" if "\<not> halts opn \<and> \<not> reverts opn"
      using assms(4) [OF that] gc unfolding price_pos_def by blast
    have "unat cost \<le> f_gas f" using le by (simp add: f_gas_def word_le_nat_alt)
    moreover have "f_gas f' = f_gas ?f \<and> f_depth f' = d" if "ex ?f = Ret (y, f')" for y f'
    proof -
      have "same_contract (f_contract ?f) (f_contract f')" "same_machine any (f_evm ?f) (f_evm f')"
        using assms(1) that unfolding exec_keeps_def by blast+
      then show ?thesis using keep(2) same_contractD(1) same_machineD(1) unfolding f_gas_def f_depth_def by fastforce
    qed
    ultimately show ?thesis using gas pos unfolding exec_fine_def assms(3) simple_def by auto
  qed
  then show ?thesis using assms(2) unfolding op_fine_def by blast
qed

lemma any_keeps: "exec_keeps (=) ex \<Longrightarrow> exec_keeps any ex" "price_keeps (=) gc \<Longrightarrow> price_keeps any gc"
  by (auto intro: exec_keeps_mono price_keeps_mono)

lemmas fine_simps = any_keeps evm_exec evm_price price_pos_all makeGasLog_pos gasExp_pos gasSStore_pos

lemma base_fine:
  assumes "exec_keeps any ex" and "price_keeps any gc" and "price_pos gc"
  shows "op_fine d (base_operation (simple ex) gc vs)" "op_fine d ((base_operation (simple ex) gc vs)\<lparr>memorySize := ms\<rparr>)"
    "op_fine d ((base_operation (simple ex) gc vs)\<lparr>writes := w\<rparr>)" "op_fine d ((base_operation (simple ex) gc vs)\<lparr>jumps := j\<rparr>)"
    "op_fine d ((base_operation (simple ex) gc vs)\<lparr>memorySize := ms, writes := w\<rparr>)"
  by (rule simple_fine [where ex = ex]; simp add: base_operation_def assms)+

lemma halting_fine:
  assumes "exec_keeps any ex" and "price_keeps any gc"
  shows "op_fine d ((base_operation (simple ex) gc vs)\<lparr>halts := True\<rparr>)"
    "op_fine d ((base_operation (simple ex) gc vs)\<lparr>memorySize := ms, halts := True\<rparr>)"
    "op_fine d ((base_operation (simple ex) gc vs)\<lparr>halts := True, writes := w\<rparr>)"
    "op_fine d ((base_operation (simple ex) gc vs)\<lparr>memorySize := ms, reverts := True, returns := r\<rparr>)"
  by (rule simple_fine [where ex = ex]; simp add: base_operation_def assms)+

lemma arithmetic_fine: "list_all (op_fine d \<circ> snd) (arithmetic_operations env)"
  by (simp add: arithmetic_operations_def base_fine halting_fine fine_simps gas_prices)

lemma environment_fine: "list_all (op_fine d \<circ> snd) (environment_operations env)"
  by (simp add: environment_operations_def base_fine halting_fine fine_simps gas_prices)

lemma flow_fine: "list_all (op_fine d \<circ> snd) (flow_operations env)"
  by (simp add: flow_operations_def base_fine halting_fine fine_simps gas_prices)

lemma families_fine:
  "list_all (op_fine d \<circ> snd) push_operations" "list_all (op_fine d \<circ> snd) dup_operations"
  "list_all (op_fine d \<circ> snd) swap_operations" "list_all (op_fine d \<circ> snd) (log_operations env)"
  by (simp_all add: push_operations_def dup_operations_def swap_operations_def log_operations_def list.pred_map comp_def
      base_fine fine_simps list.pred_True)

section \<open>Calls\<close>

text \<open>A runner that returns, with at most the gas it was given and at the depth it was called.\<close>

definition runner_fine :: "nat \<Rightarrow> 's runner \<Rightarrow> bool" where
  "runner_fine d run \<longleftrightarrow> (\<forall>evm c input. e_depth evm = d \<longrightarrow> run evm c input \<noteq> None \<and>
     (\<forall>r c' evm'. run evm c input = Some (Ret (r, c', evm')) \<longrightarrow> unat (Gas c') \<le> unat (Gas c) \<and> e_depth evm' = d))"

definition call_fine :: "nat \<Rightarrow> u64 \<Rightarrow> 's call_result \<Rightarrow> bool" where
  "call_fine d gas r \<longleftrightarrow> r \<noteq> None \<and>
     (\<forall>ret g err ds evm. r = Some (Ret ((ret, g, err), ds, evm)) \<longrightarrow> unat g \<le> unat gas \<and> e_depth evm = d)"

lemma call_fine_simps [simp]:
  "call_fine d gas (Some Panic)" "call_fine d gas (Some (Ret ((ret, g, err), ds, evm))) \<longleftrightarrow> unat g \<le> unat gas \<and> e_depth evm = d"
  by (auto simp: call_fine_def)

lemma UseGas_le: "unat (Gas (snd (UseGas g c))) \<le> unat (Gas c)"
  by (simp add: UseGas_def unat_sub not_less)

lemma end_call_fine:
  assumes "runner_fine d run" and "e_depth evm = d" and "Gas c = gas"
  shows "call_fine d gas (end_call env snap (run evm c input))"
proof -
  have "run evm c input \<noteq> None" using assms(1,2) unfolding runner_fine_def by blast
  then obtain x where x: "run evm c input = Some x" by blast
  show ?thesis
  proof (cases x)
    case (Ret y)
    obtain ret err c' evm' where y: "y = ((ret, err), c', evm')" by (metis prod.exhaust)
    have "unat (Gas c') \<le> unat gas \<and> e_depth evm' = d" using assms x Ret y unfolding runner_fine_def by blast
    then show ?thesis unfolding x Ret y end_call_def
      using UseGas_le [of "Gas c'" c']
      by (cases err; cases "db_RevertToSnapshot (e_db env) (e_StateDB evm') snap") (auto simp: Let_def)
  qed (simp add: x end_call_def)
qed

lemma NewContract_Gas [simp]: "Gas (NewContract r a v g) = g" "Gas (SetCallCode a h code c) = Gas c"
  by (simp_all add: NewContract_def SetCallCode_def)

lemma AsDelegate_Gas: "AsDelegate c = Ret c' \<Longrightarrow> Gas c' = Gas c"
  by (auto simp: AsDelegate_def split: ContractRef.splits)

lemma reset_readOnly_fine: "call_fine d gas r \<Longrightarrow> call_fine d gas (reset_readOnly b r)"
proof (cases "\<exists>y. r = Some (Ret y)")
  case True
  then obtain ret g err ds evm where "r = Some (Ret ((ret, g, err), ds, evm))" by (metis prod.exhaust)
  then show "call_fine d gas r \<Longrightarrow> call_fine d gas (reset_readOnly b r)" by (simp add: reset_readOnly_def)
next
  case False
  then have "reset_readOnly b r = r" by (auto simp: reset_readOnly_def split: option.split go.split)
  then show "call_fine d gas r \<Longrightarrow> call_fine d gas (reset_readOnly b r)" by simp
qed

lemma calls_fine:
  assumes "d \<le> CallCreateDepth \<Longrightarrow> runner_fine d run" and "e_depth evm = d"
  shows "call_fine d gas (Call env run evm cref addr input gas val)" "call_fine d gas (CallCode env run evm cref addr input gas val)"
    "call_fine d gas (DelegateCall env run evm cref addr input gas)" "call_fine d gas (StaticCall env run evm cref addr input gas)"
proof -
  have run: "call_fine d gas (end_call env snap (run (evm\<lparr>e_StateDB := s\<rparr>) c input))"
    "call_fine d gas (end_call env snap (run (evm\<lparr>e_StateDB := s, e_readOnly := b\<rparr>) c input))"
    if "\<not> d > CallCreateDepth" and "Gas c = gas" for snap s c b
    using end_call_fine [OF assms(1)] assms(2) that by simp_all
  show "call_fine d gas (Call env run evm cref addr input gas val)"
    unfolding Call_def Let_def assms(2) by (auto simp: assms(2) intro!: run split: prod.split)
  show "call_fine d gas (CallCode env run evm cref addr input gas val)"
    unfolding CallCode_def Let_def assms(2) by (auto simp: assms(2) intro!: run split: prod.split)
  show "call_fine d gas (DelegateCall env run evm cref addr input gas)"
    unfolding DelegateCall_def Let_def assms(2)
    by (auto simp: assms(2) dest!: AsDelegate_Gas intro!: run split: prod.split go.split)
  show "call_fine d gas (StaticCall env run evm cref addr input gas)"
    unfolding StaticCall_def Let_def assms(2) by (auto simp: assms(2) intro!: reset_readOnly_fine run split: prod.split)
qed

definition create_fine :: "nat \<Rightarrow> u64 \<Rightarrow> ((bytes \<times> bytes \<times> u64 \<times> vm_error option) \<times> destinations \<times> 's EVM) go option \<Rightarrow> bool" where
  "create_fine d gas r \<longleftrightarrow> r \<noteq> None \<and>
     (\<forall>ret a g err ds evm. r = Some (Ret ((ret, a, g, err), ds, evm)) \<longrightarrow> unat g \<le> unat gas \<and> e_depth evm = d)"

lemma create_fine_simps [simp]:
  "create_fine d gas (Some Panic)" "create_fine d gas (Some (Ret ((ret, a, g, err), ds, evm))) \<longleftrightarrow> unat g \<le> unat gas \<and> e_depth evm = d"
  by (auto simp: create_fine_def)

lemma store_code_fine: "store_code env addr ret c evm = (err, c', evm') \<Longrightarrow> unat (Gas c') \<le> unat (Gas c) \<and> e_depth evm' = e_depth evm"
  using UseGas_le [of "word_of_nat (length ret) * CreateDataGas" c] by (auto simp: store_code_def split: prod.splits if_splits)

lemma revert_create_fine: "revert_create env snap mx err c evm = Ret (c', evm') \<Longrightarrow> unat (Gas c') \<le> unat (Gas c) \<and> e_depth evm' = e_depth evm"
  using UseGas_le [of "Gas c" c] by (auto simp: revert_create_def go_bind_Ret split: if_splits)

lemma end_create_fine:
  assumes "runner_fine d run" and "e_depth evm = d" and "Gas c = gas"
  shows "create_fine d gas (end_create env snap addr (run evm c input))"
proof -
  have "run evm c input \<noteq> None" using assms(1,2) unfolding runner_fine_def by blast
  then obtain x where x: "run evm c input = Some x" by blast
  show ?thesis
  proof (cases x)
    case (Ret y)
    obtain ret err0 c0 evm0 where y: "y = ((ret, err0), c0, evm0)" by (metis prod.exhaust)
    have le: "unat (Gas c0) \<le> unat gas \<and> e_depth evm0 = d" using assms x Ret y unfolding runner_fine_def by blast
    let ?mx = "IsEIP158 (e_chainConfig env) (blockNumber env) \<and> length ret > MaxCodeSize"
    obtain err1 c1 evm1 where s: "(if err0 = None \<and> \<not> ?mx then store_code env addr ret c0 evm0 else (err0, c0, evm0)) = (err1, c1, evm1)"
      by (metis prod.exhaust)
    then have le1: "unat (Gas c1) \<le> unat gas \<and> e_depth evm1 = d"
      using le store_code_fine [of env addr ret c0 evm0 err1 c1 evm1] by (auto split: if_splits)
    show ?thesis
    proof (cases "revert_create env snap ?mx err1 c1 evm1")
      case Panic
      then show ?thesis using s unfolding x Ret y end_create_def by simp
    next
      case (Ret z)
      then obtain c2 evm2 where z: "revert_create env snap ?mx err1 c1 evm1 = Ret (c2, evm2)" by (metis prod.exhaust)
      from revert_create_fine [OF this] le1 show ?thesis
        using s z unfolding x \<open>x = Ret y\<close> y end_create_def by (simp add: Let_def)
    qed
  qed (simp add: x end_create_def)
qed

lemma Create_fine:
  assumes "d \<le> CallCreateDepth \<Longrightarrow> runner_fine d run" and "e_depth evm = d"
  shows "create_fine d gas (Create env run evm cref code gas val)"
proof -
  have run: "create_fine d gas (end_create env snap addr (run (evm\<lparr>e_StateDB := s\<rparr>) c input))"
    if "\<not> d > CallCreateDepth" and "Gas c = gas" for snap addr s c input
    using end_create_fine [OF assms(1)] assms(2) that by simp
  show ?thesis unfolding Create_def Let_def assms(2)
    by (auto simp: assms(2) intro!: run split: prod.split)
qed

section \<open>A call costs more than it passes on\<close>

lemma call_gas_from_Inr:
  assumes "call_gas_from env gas f = Ret (Inr cost, f')"
  shows "\<exists>cg :: u64. f_stack f' = uint cg # tl (f_stack f) \<and> unat cost = unat gas + unat cg"
proof -
  from assms obtain req where "Back 0 (f_stack f) = Ret req" by (auto simp: call_gas_from_def go_bind_Ret)
  then obtain y st where st: "f_stack f = y # st" by (cases "f_stack f") (auto simp: Back_def)
  with assms obtain cg where cg: "safe_add gas cg (f\<lparr>f_stack := uint cg # st\<rparr>) = Ret (Inr cost, f')"
    by (auto simp: call_gas_from_def Back_def split: sum.splits)
  then have "f' = f\<lparr>f_stack := uint cg # st\<rparr>" by (simp add: safe_add_def split: prod.splits if_splits)
  with safe_add_exact [OF cg] st show ?thesis by (intro exI [of _ cg]) simp
qed

lemma safe_add_stack: "safe_add a b f = Ret (x, f') \<Longrightarrow> f' = f"
  by (simp add: safe_add_def split: prod.splits)

lemma memory_gas_stack: "memory_gas ms f = Ret (x, f') \<Longrightarrow> f_stack f' = f_stack f"
  by (auto simp: memory_gas_def split: prod.splits)

lemma gas_plus: "unat g \<le> 100000 \<Longrightarrow> unat (g + CallValueTransferGas) = unat g + 9000" "unat g \<le> 100000 \<Longrightarrow> unat (g + CallNewAccountGas) = unat g + 25000"
  by (simp_all add: gas_prices unat_word_ariths)

lemma call_price_Inr:
  assumes "call_price env base ms f = Ret (Inr cost, f')"
  shows "\<exists>cg :: u64. f_stack f' = uint cg # tl (f_stack f) \<and> unat cg + unat base \<le> unat cost"
proof -
  obtain mg f1 gas where m: "memory_gas ms f = Ret (Inr mg, f1)" "safe_add base mg f1 = Ret (Inr gas, f1)"
    "call_gas_from env gas f1 = Ret (Inr cost, f')"
    using assms safe_add_stack unfolding call_price_def gas_bind_Inr by metis
  then show ?thesis using call_gas_from_Inr [OF m(3)] safe_add_exact [OF m(2)] memory_gas_stack [OF m(1)] by auto
qed

text \<open>The gas of the callee is on top of the stack; a transfer of value costs more than the stipend the
  callee gets for it.\<close>

lemma gasCall_base_ge: "40 + (if tv then 9000 else 0) \<le> unat (gasCall_base env s tv addr)"
proof -
  let ?c = "Calls (gasTable env)"
  have "unat ?c \<le> 700" "40 \<le> unat ?c" by (rule gasTable_pos)+
  moreover have "unat (?c + CallNewAccountGas) = unat ?c + 25000" using \<open>unat ?c \<le> 700\<close> by (intro gas_plus) simp
  moreover have "unat (?c + CallValueTransferGas) = unat ?c + 9000" using \<open>unat ?c \<le> 700\<close> by (intro gas_plus) simp
  moreover have "unat (?c + CallNewAccountGas + CallValueTransferGas) = unat ?c + 34000"
    using \<open>unat ?c \<le> 700\<close> gas_plus(1) [of "?c + CallNewAccountGas"] \<open>unat (?c + CallNewAccountGas) = unat ?c + 25000\<close> by simp
  ultimately show ?thesis unfolding gasCall_base_def Let_def by simp
qed

lemma gasCall_price:
  assumes "gasCall env ms f = Ret (Inr cost, f')"
  shows "\<exists>(cg :: u64) v. f_stack f' = uint cg # tl (f_stack f) \<and> Back 2 (f_stack f) = Ret v \<and>
    unat cg + 40 + (if v \<noteq> 0 then 9000 else 0) \<le> unat cost"
proof -
  obtain v a where va: "Back 2 (f_stack f) = Ret v"
    "call_price env (gasCall_base env (f_db f) (v \<noteq> 0) (BigToAddress a)) ms f = Ret (Inr cost, f')"
    using assms unfolding gasCall_def go_bind_Ret by blast
  then show ?thesis using call_price_Inr [OF va(2)] gasCall_base_ge [of "v \<noteq> 0" env "f_db f" "BigToAddress a"] by auto
qed

lemma gasCallCode_price:
  assumes "gasCallCode env ms f = Ret (Inr cost, f')"
  shows "\<exists>(cg :: u64) v. f_stack f' = uint cg # tl (f_stack f) \<and> Back 2 (f_stack f) = Ret v \<and>
    unat cg + 40 + (if v \<noteq> 0 then 9000 else 0) \<le> unat cost"
proof -
  obtain v where va: "Back 2 (f_stack f) = Ret v"
    "call_price env (if v \<noteq> 0 then Calls (gasTable env) + CallValueTransferGas else Calls (gasTable env)) ms f = Ret (Inr cost, f')"
    using assms unfolding gasCallCode_def go_bind_Ret by blast
  then show ?thesis using call_price_Inr [OF va(2)] gasTable_pos(5,6) [of env] gas_plus(1) [of "Calls (gasTable env)"] by auto
qed

lemma gasDelegateCall_price:
  assumes "gasDelegateCall env ms f = Ret (Inr cost, f')"
  shows "\<exists>cg :: u64. f_stack f' = uint cg # tl (f_stack f) \<and> unat cg + 40 \<le> unat cost"
proof -
  obtain mg f1 gas where m: "memory_gas ms f = Ret (Inr mg, f1)" "safe_add mg (Calls (gasTable env)) f1 = Ret (Inr gas, f1)"
    "call_gas_from env gas f1 = Ret (Inr cost, f')"
    using assms safe_add_stack unfolding gasDelegateCall_def gas_bind_Inr by metis
  then show ?thesis using call_gas_from_Inr [OF m(3)] safe_add_exact [OF m(2)] memory_gas_stack [OF m(1)] gasTable_pos(5) [of env] by auto
qed

lemma gasStaticCall_price:
  assumes "gasStaticCall env ms f = Ret (Inr cost, f')"
  shows "\<exists>cg :: u64. f_stack f' = uint cg # tl (f_stack f) \<and> unat cg + 40 \<le> unat cost"
  using gasDelegateCall_price [of env ms f cost f'] assms unfolding gasDelegateCall_def gasStaticCall_def by blast

section \<open>Instructions that call contracts\<close>

lemma after_call_fine:
  assumes "call_fine d gas r"
  shows "after_call f st ro rs r \<noteq> None" "after_call f st ro rs r = Some (Ret (y, f')) \<Longrightarrow> f_depth f' = d \<and> f_gas f' \<le> f_gas f + unat gas"
proof -
  have add: "unat (a + b) \<le> unat a + unat b" for a b :: u64 by (simp add: unat_word_ariths)
  show "after_call f st ro rs r \<noteq> None"
    using assms by (auto simp: after_call_def call_fine_def Let_def split: option.split go.split prod.split)
  assume a: "after_call f st ro rs r = Some (Ret (y, f'))"
  then obtain z where z: "r = Some (Ret z)" by (auto simp: after_call_def split: option.splits go.splits)
  obtain ret g err ds evm where r: "r = Some (Ret ((ret, g, err), ds, evm))" using z by (metis prod.exhaust)
  then have g: "unat g \<le> unat gas" "e_depth evm = d" using assms by auto
  from a r obtain m where "f' = f\<lparr>f_stack := push (of_test (err = None)) st, f_mem := m,
      f_contract := (f_contract f)\<lparr>jumpdests := ds, Gas := Gas (f_contract f) + g\<rparr>, f_evm := evm\<rparr>"
    by (auto simp: after_call_def Let_def go_bind_Ret)
  then show "f_depth f' = d \<and> f_gas f' \<le> f_gas f + unat gas"
    using g add [of "Gas (f_contract f)" g] by (simp add: f_depth_def f_gas_def)
qed

text \<open>What an instruction that runs other code may do: return, with at most \<open>n\<close> units of gas more.\<close>

definition exec_adds :: "nat \<Rightarrow> 's frame \<Rightarrow> nat \<Rightarrow> ((vm_error + bytes) \<times> 's frame) go option \<Rightarrow> bool" where
  "exec_adds d f n r \<longleftrightarrow> r \<noteq> None \<and> (\<forall>y f'. r = Some (Ret (y, f')) \<longrightarrow> f_depth f' = d \<and> f_gas f' \<le> f_gas f + n)"

lemma exec_adds_Panic [simp]: "exec_adds d f n (Some Panic)"
  by (simp add: exec_adds_def)

lemma lift_go_adds: "(\<And>x. exec_adds d f n (k x)) \<Longrightarrow> exec_adds d f n (lift_go m k)"
  by (cases m) (auto simp: lift_go_def)

lemma after_call_adds: "call_fine d gas r \<Longrightarrow> unat gas \<le> n \<Longrightarrow> exec_adds d f n (after_call f st ro rs r)"
  unfolding exec_adds_def using after_call_fine [of d gas r f st ro rs] by (meson add_left_mono order_trans)

lemma stipend_le: "unat (if b then g + CallStipend else g) \<le> unat g + (if b then 2300 else 0)"
  by (simp add: CallStipend_def unat_word_ariths)

lemma U256_0 [simp]: "U256 0 = 0"
  by (simp add: U256_mod)

lemma opCall_adds:
  assumes "d \<le> CallCreateDepth \<Longrightarrow> runner_fine d run" and "f_depth f = d" and "f_stack f = g # a # v # st"
  shows "exec_adds d f (unat (big_Uint64 g) + (if v \<noteq> 0 then 2300 else 0)) (opCall env run f)"
    "exec_adds d f (unat (big_Uint64 g) + (if v \<noteq> 0 then 2300 else 0)) (opCallCode env run f)"
proof -
  let ?gas = "if U256 v \<noteq> 0 then big_Uint64 g + CallStipend else big_Uint64 g"
  have gas: "unat ?gas \<le> unat (big_Uint64 g) + (if v \<noteq> 0 then 2300 else 0)"
    using stipend_le [of "U256 v \<noteq> 0" "big_Uint64 g"] by (cases "v = 0") auto
  have "e_depth (f_evm f) = d" using assms(2) by (simp add: f_depth_def)
  note fine = calls_fine [OF assms(1) this]
  have "exec_adds d f (unat (big_Uint64 g) + (if v \<noteq> 0 then 2300 else 0)) (opCall env run f) \<and>
    exec_adds d f (unat (big_Uint64 g) + (if v \<noteq> 0 then 2300 else 0)) (opCallCode env run f)"
  proof (cases "\<exists>io iz ro rs st'. st = io # iz # ro # rs # st'")
    case True
    then obtain io iz ro rs st' where st: "st = io # iz # ro # rs # st'" by blast
    show ?thesis
      unfolding opCall_def opCallCode_def assms(3) st list.case Let_def
      by (intro conjI lift_go_adds after_call_adds [OF fine(1) gas] after_call_adds [OF fine(2) gas])
  next
    case False
    then have "opCall env run f = Some Panic" "opCallCode env run f = Some Panic"
      unfolding opCall_def opCallCode_def assms(3) by (simp_all split: list.split)
    then show ?thesis by simp
  qed
  then show "exec_adds d f (unat (big_Uint64 g) + (if v \<noteq> 0 then 2300 else 0)) (opCall env run f)"
    "exec_adds d f (unat (big_Uint64 g) + (if v \<noteq> 0 then 2300 else 0)) (opCallCode env run f)" by simp_all
qed

lemma opDelegateCall_adds:
  assumes "d \<le> CallCreateDepth \<Longrightarrow> runner_fine d run" and "f_depth f = d" and "f_stack f = g # st"
  shows "exec_adds d f (unat (big_Uint64 g)) (opDelegateCall env run f)" "exec_adds d f (unat (big_Uint64 g)) (opStaticCall env run f)"
proof -
  have "e_depth (f_evm f) = d" using assms(2) by (simp add: f_depth_def)
  note fine = calls_fine [OF assms(1) this]
  show "exec_adds d f (unat (big_Uint64 g)) (opDelegateCall env run f)"
    unfolding opDelegateCall_def assms(3) Let_def
    by (auto intro!: lift_go_adds after_call_adds [OF fine(3) order_refl] split: list.split)
  show "exec_adds d f (unat (big_Uint64 g)) (opStaticCall env run f)"
    unfolding opStaticCall_def assms(3) Let_def
    by (auto intro!: lift_go_adds after_call_adds [OF fine(4) order_refl] split: list.split)
qed

text \<open>\<open>CREATE\<close> gives the gas it has to the constructor and gets back what is left.\<close>

lemma create_gas_le: "create_gas env c \<le> Gas c"
proof -
  have "Gas c div 64 \<le> Gas c" by (simp add: word_le_nat_alt unat_div)
  then show ?thesis by (simp add: create_gas_def word_sub_le)
qed

lemma after_create_adds:
  assumes "create_fine d gas r" and "gas \<le> Gas (f_contract f)" and "Gas c = Gas (f_contract f) - gas"
  shows "exec_adds d f 0 (after_create env f c st r)"
proof -
  consider "r = Some Panic" | res addr rg err ds evm where "r = Some (Ret ((res, addr, rg, err), ds, evm))"
    using assms(1) unfolding create_fine_def by (metis go.exhaust option.exhaust prod.exhaust)
  then show ?thesis
  proof cases
    case 2
    then have rg: "unat rg \<le> unat gas" "e_depth evm = d" using assms(1) by simp_all
    have "unat (Gas c + rg) \<le> unat (Gas c) + unat rg" by (simp add: unat_word_ariths)
    also have "unat (Gas c) = unat (Gas (f_contract f)) - unat gas" unfolding assms(3) by (rule unat_sub [OF assms(2)])
    finally have "unat (Gas c + rg) \<le> unat (Gas (f_contract f))" using rg(1) assms(2) by (simp add: word_le_nat_alt)
    then show ?thesis unfolding 2 exec_adds_def after_create_def using rg(2) by (simp add: f_gas_def f_depth_def Let_def)
  qed (simp add: after_create_def)
qed

lemma opCreate_adds:
  assumes "d \<le> CallCreateDepth \<Longrightarrow> runner_fine d run" and "f_depth f = d"
  shows "exec_adds d f 0 (opCreate env run f)"
proof -
  let ?c = "f_contract f" and ?gas = "create_gas env (f_contract f)"
  have use: "snd (UseGas ?gas ?c) = ?c\<lparr>Gas := Gas ?c - ?gas\<rparr>"
    using create_gas_le [of env ?c] by (simp add: UseGas_def not_less)
  have "e_depth (f_evm f) = d" using assms(2) by (simp add: f_depth_def)
  note fine = Create_fine [OF assms(1) this]
  have "exec_adds d f 0 (lift_go m (\<lambda>input. after_create env f (?c\<lparr>Gas := Gas ?c - ?gas\<rparr>) st
      (Create env run (f_evm f) (contract_ref (?c\<lparr>Gas := Gas ?c - ?gas\<rparr>)) input ?gas v)))" for m st v
    by (intro lift_go_adds after_create_adds [OF fine create_gas_le] | simp)+
  then show ?thesis unfolding opCreate_def Let_def use by (simp split: list.split)
qed

section \<open>The tables\<close>

text \<open>An instruction that costs more gas than it may add.\<close>

lemma adding_fine:
  assumes "price_keeps any (gasCost opn)"
    and "\<And>ms f cost f1 m. gasCost opn ms f = Ret (Inr cost, f1) \<Longrightarrow> f_depth f1 = d \<Longrightarrow>
      \<exists>n. n < unat cost \<and> (\<forall>c. exec_adds d (f1\<lparr>f_contract := c, f_mem := m\<rparr>) n (execute opn (f1\<lparr>f_contract := c, f_mem := m\<rparr>)))"
  shows "op_fine d opn"
proof -
  have "exec_fine d (f_gas f) opn
      (execute opn (f1\<lparr>f_contract := (f_contract f1)\<lparr>Gas := Gas (f_contract f1) - cost\<rparr>, f_mem := m\<rparr>))"
    if gc: "gasCost opn ms f = Ret (Inr cost, f1)" and d: "f_depth f = d" and le: "cost \<le> Gas (f_contract f)" for ms f cost f1 m
  proof -
    let ?f = "f1\<lparr>f_contract := (f_contract f1)\<lparr>Gas := Gas (f_contract f1) - cost\<rparr>, f_mem := m\<rparr>"
    have keep: "f_contract f1 = f_contract f" "f_depth f1 = d"
      using assms(1) gc d unfolding price_keeps_def f_depth_def by (metis same_machineD(1))+
    have gas: "f_gas ?f = f_gas f - unat cost" using le keep(1) by (simp add: f_gas_def unat_sub)
    have "unat cost \<le> f_gas f" using le by (simp add: f_gas_def word_le_nat_alt)
    with gas assms(2) [OF gc keep(2)] show ?thesis unfolding exec_fine_def exec_adds_def by fastforce
  qed
  then show ?thesis using assms(1) unfolding op_fine_def by blast
qed

lemma base_operation_simps [simp]:
  "execute (base_operation ex gc vs) = ex" "gasCost (base_operation ex gc vs) = gc" "validateStack (base_operation ex gc vs) = vs"
  "memorySize (base_operation ex gc vs) = None" "\<not> halts (base_operation ex gc vs)" "\<not> jumps (base_operation ex gc vs)"
  "\<not> writes (base_operation ex gc vs)" "\<not> reverts (base_operation ex gc vs)" "\<not> returns (base_operation ex gc vs)"
  by (simp_all add: base_operation_def)

lemma Uint64_uint [simp]: "big_Uint64 (uint (w :: u64)) = w"
  by (simp add: big_Uint64_def)

lemma CALL_adds:
  assumes "d \<le> CallCreateDepth \<Longrightarrow> runner_fine d run" and "f_depth f1 = d"
    and "\<exists>(cg :: u64) v. f_stack f1 = uint cg # tl (f_stack f) \<and> Back 2 (f_stack f) = Ret v \<and>
      unat cg + 40 + (if v \<noteq> 0 then 9000 else 0) \<le> unat cost"
  shows "\<exists>n. n < unat cost \<and> (\<forall>c. exec_adds d (f1\<lparr>f_contract := c, f_mem := m\<rparr>) n (opCall env run (f1\<lparr>f_contract := c, f_mem := m\<rparr>)))"
    "\<exists>n. n < unat cost \<and> (\<forall>c. exec_adds d (f1\<lparr>f_contract := c, f_mem := m\<rparr>) n (opCallCode env run (f1\<lparr>f_contract := c, f_mem := m\<rparr>)))"
proof -
  obtain cg :: u64 and v where cg: "f_stack f1 = uint cg # tl (f_stack f)" "Back 2 (f_stack f) = Ret v"
    "unat cg + 40 + (if v \<noteq> 0 then 9000 else 0) \<le> unat cost" using assms(3) by blast
  from cg(2) obtain y a st where "f_stack f = y # a # v # st"
    by (cases "f_stack f"; cases "tl (f_stack f)"; cases "tl (tl (f_stack f))") (auto simp: Back_def split: if_splits)
  then have st: "f_stack (f1\<lparr>f_contract := c, f_mem := m\<rparr>) = uint cg # a # v # st" for c using cg(1) by simp
  have d: "f_depth (f1\<lparr>f_contract := c, f_mem := m\<rparr>) = d" for c using assms(2) by simp
  let ?n = "unat cg + (if v \<noteq> 0 then 2300 else 0)"
  have "?n < unat cost" using cg(3) by (cases "v = 0") auto
  then show "\<exists>n. n < unat cost \<and> (\<forall>c. exec_adds d (f1\<lparr>f_contract := c, f_mem := m\<rparr>) n (opCall env run (f1\<lparr>f_contract := c, f_mem := m\<rparr>)))"
    "\<exists>n. n < unat cost \<and> (\<forall>c. exec_adds d (f1\<lparr>f_contract := c, f_mem := m\<rparr>) n (opCallCode env run (f1\<lparr>f_contract := c, f_mem := m\<rparr>)))"
    using opCall_adds [OF assms(1) d st, where env = env] unfolding Uint64_uint by blast+
qed

lemma DELEGATECALL_adds:
  assumes "d \<le> CallCreateDepth \<Longrightarrow> runner_fine d run" and "f_depth f1 = d"
    and "\<exists>cg :: u64. f_stack f1 = uint cg # tl (f_stack f) \<and> unat cg + 40 \<le> unat cost"
  shows "\<exists>n. n < unat cost \<and> (\<forall>c. exec_adds d (f1\<lparr>f_contract := c, f_mem := m\<rparr>) n (opDelegateCall env run (f1\<lparr>f_contract := c, f_mem := m\<rparr>)))"
    "\<exists>n. n < unat cost \<and> (\<forall>c. exec_adds d (f1\<lparr>f_contract := c, f_mem := m\<rparr>) n (opStaticCall env run (f1\<lparr>f_contract := c, f_mem := m\<rparr>)))"
proof -
  obtain cg :: u64 where cg: "f_stack f1 = uint cg # tl (f_stack f)" "unat cg < unat cost" using assms(3) by fastforce
  have st: "f_stack (f1\<lparr>f_contract := c, f_mem := m\<rparr>) = uint cg # tl (f_stack f)" for c using cg(1) by simp
  have d: "f_depth (f1\<lparr>f_contract := c, f_mem := m\<rparr>) = d" for c using assms(2) by simp
  show "\<exists>n. n < unat cost \<and> (\<forall>c. exec_adds d (f1\<lparr>f_contract := c, f_mem := m\<rparr>) n (opDelegateCall env run (f1\<lparr>f_contract := c, f_mem := m\<rparr>)))"
    "\<exists>n. n < unat cost \<and> (\<forall>c. exec_adds d (f1\<lparr>f_contract := c, f_mem := m\<rparr>) n (opStaticCall env run (f1\<lparr>f_contract := c, f_mem := m\<rparr>)))"
    using opDelegateCall_adds [OF assms(1) d st, where env = env] cg(2) unfolding Uint64_uint by blast+
qed

lemma calling_fine:
  assumes "d \<le> CallCreateDepth \<Longrightarrow> runner_fine d run"
  shows "op_fine d ((base_operation (opCall env run) (gasCall env) vs)\<lparr>memorySize := ms, returns := r\<rparr>)"
    "op_fine d ((base_operation (opCallCode env run) (gasCallCode env) vs)\<lparr>memorySize := ms, returns := r\<rparr>)"
    "op_fine d ((base_operation (opDelegateCall env run) (gasDelegateCall env) vs)\<lparr>memorySize := ms, returns := r\<rparr>)"
    "op_fine d ((base_operation (opStaticCall env run) (gasStaticCall env) vs)\<lparr>memorySize := ms, returns := r\<rparr>)"
    "op_fine d ((base_operation (opCreate env run) gasCreate vs)\<lparr>memorySize := ms, writes := w, returns := r\<rparr>)"
proof -
  show "op_fine d ((base_operation (opCall env run) (gasCall env) vs)\<lparr>memorySize := ms, returns := r\<rparr>)"
    by (rule adding_fine) (simp_all add: fine_simps CALL_adds(1) [OF assms _ gasCall_price])
  show "op_fine d ((base_operation (opCallCode env run) (gasCallCode env) vs)\<lparr>memorySize := ms, returns := r\<rparr>)"
    by (rule adding_fine) (simp_all add: fine_simps CALL_adds(2) [OF assms _ gasCallCode_price])
  show "op_fine d ((base_operation (opDelegateCall env run) (gasDelegateCall env) vs)\<lparr>memorySize := ms, returns := r\<rparr>)"
    by (rule adding_fine) (simp_all add: fine_simps DELEGATECALL_adds(1) [OF assms _ gasDelegateCall_price])
  show "op_fine d ((base_operation (opStaticCall env run) (gasStaticCall env) vs)\<lparr>memorySize := ms, returns := r\<rparr>)"
    by (rule adding_fine) (simp_all add: fine_simps DELEGATECALL_adds(2) [OF assms _ gasStaticCall_price])
  have pos: "0 < unat cost" if "gasCreate ms f = Ret (Inr cost, f1)" for ms f cost f1
    using that price_pos_all(10) unfolding price_pos_def by blast
  show "op_fine d ((base_operation (opCreate env run) gasCreate vs)\<lparr>memorySize := ms, writes := w, returns := r\<rparr>)"
  proof (rule adding_fine)
    fix ms' f cost f1 m
    assume "gasCost ((base_operation (opCreate env run) gasCreate vs)\<lparr>memorySize := ms, writes := w, returns := r\<rparr>) ms' f = Ret (Inr cost, f1)"
      and d: "f_depth f1 = d"
    then have "0 < unat cost" using pos by simp
    moreover have "exec_adds d (f1\<lparr>f_contract := c, f_mem := m\<rparr>) 0 (opCreate env run (f1\<lparr>f_contract := c, f_mem := m\<rparr>))" for c
      using d by (intro opCreate_adds assms) simp_all
    ultimately show "\<exists>n. n < unat cost \<and> (\<forall>c. exec_adds d (f1\<lparr>f_contract := c, f_mem := m\<rparr>) n (execute
        ((base_operation (opCreate env run) gasCreate vs)\<lparr>memorySize := ms, writes := w, returns := r\<rparr>) (f1\<lparr>f_contract := c, f_mem := m\<rparr>)))"
      by auto
  qed (simp add: fine_simps)
qed

lemma instruction_set_fine:
  assumes "d \<le> CallCreateDepth \<Longrightarrow> runner_fine d run"
  shows "list_all (op_fine d \<circ> snd) (instruction_set env run)"
proof -
  have "list_all (op_fine d \<circ> snd) (call_operations env run)"
    by (simp add: call_operations_def calling_fine [OF assms] halting_fine fine_simps)
  then have frontier: "list_all (op_fine d \<circ> snd) (NewFrontierInstructionSet env run)"
    unfolding NewFrontierInstructionSet_def list_all_append by (simp add: arithmetic_fine environment_fine flow_fine families_fine)
  then have homestead: "list_all (op_fine d \<circ> snd) (NewHomesteadInstructionSet env run)"
    by (simp add: NewHomesteadInstructionSet_def calling_fine [OF assms])
  have "list_all (op_fine d \<circ> snd) (NewByzantiumInstructionSet env run)"
    using homestead by (simp add: NewByzantiumInstructionSet_def calling_fine [OF assms] base_fine halting_fine fine_simps gas_prices)
  with frontier homestead show ?thesis by (simp add: instruction_set_def)
qed

section \<open>The loop and the machine\<close>

lemma interp_step_fine:
  assumes "d \<le> CallCreateDepth \<Longrightarrow> runner_fine d run" and "f_depth f = d" and "\<not> DisableGasMetering (e_vmConfig env)"
  shows "step_fine d (f_gas f) (interp_step env run f)"
proof -
  obtain b f1 where p: "poll_abort f = (b, f1)" by fastforce
  then have f1: "f_depth f1 = d" "f_gas f1 = f_gas f"
    using assms(2) by (auto simp: poll_abort_def f_depth_def f_gas_def split: option.splits nat.splits)
  have "op_fine d opn" if "map_of (instruction_set env run) op = Some opn" for op opn
    using instruction_set_fine [OF assms(1), of env] map_of_SomeD [OF that] unfolding list_all_iff by fastforce
  then show ?thesis unfolding interp_step_def p prod.case
    using f1 exec_operation_fine [OF _ f1(1) assms(3)] by (auto simp: Let_def split: option.split)
qed

lemma interp_loop_fine:
  assumes "d \<le> CallCreateDepth \<Longrightarrow> runner_fine d run" and "f_depth f = d" and "\<not> DisableGasMetering (e_vmConfig env)"
  shows "interp_loop env run f \<noteq> None \<and>
    (\<forall>r f'. interp_loop env run f = Some (Ret (r, f')) \<longrightarrow> f_gas f' \<le> f_gas f \<and> f_depth f' = d)"
  using assms(2)
proof (induction "f_gas f" arbitrary: f rule: less_induct)
  case less
  from interp_step_fine [OF assms(1) less.prems assms(3)] consider "interp_step env run f = Some Panic"
    | x f' where "interp_step env run f = Some (Ret (Done x f'))" "f_depth f' = d" "f_gas f' \<le> f_gas f"
    | f' where "interp_step env run f = Some (Ret (Next f'))" "f_depth f' = d" "f_gas f' < f_gas f"
    unfolding step_fine_def by (metis go.exhaust option.exhaust outcome.exhaust)
  then show ?case
  proof cases
    case 3
    from less.hyps [OF 3(3) 3(2)] 3 show ?thesis by (subst (1 2) interp_loop.simps) auto
  qed (subst (1 2) interp_loop.simps; simp)+
qed

lemma Interpreter_Run_fine:
  assumes "Suc d \<le> CallCreateDepth \<Longrightarrow> runner_fine (Suc d) run" and "\<not> DisableGasMetering (e_vmConfig env)"
  shows "runner_fine d (Interpreter_Run env run)"
  unfolding runner_fine_def
proof (intro allI impI)
  fix evm :: "'a EVM" and c input
  assume d: "e_depth evm = d"
  let ?f = "\<lparr>f_pc = 0, f_mem = NewMemory, f_stack = newstack, f_contract = c\<lparr>Input := input\<rparr>,
    f_evm = evm\<lparr>e_depth := e_depth evm + 1, e_returnData := []\<rparr>\<rparr>"
  have "f_depth ?f = Suc d" "f_gas ?f = unat (Gas c)" using d by (simp_all add: f_depth_def f_gas_def)
  with interp_loop_fine [of "Suc d" run ?f env] assms
  have loop: "interp_loop env run ?f \<noteq> None" "\<And>r f'. interp_loop env run ?f = Some (Ret (r, f')) \<Longrightarrow> f_gas f' \<le> unat (Gas c) \<and> f_depth f' = Suc d"
    by simp_all
  show "Interpreter_Run env run evm c input \<noteq> None \<and> (\<forall>r c' evm'. Interpreter_Run env run evm c input = Some (Ret (r, c', evm')) \<longrightarrow>
      unat (Gas c') \<le> unat (Gas c) \<and> e_depth evm' = d)"
  proof (cases "Code c = []")
    case True
    then show ?thesis using d by (simp add: Interpreter_Run_def)
  next
    case False
    from loop consider "interp_loop env run ?f = Some Panic" | r f' where "interp_loop env run ?f = Some (Ret (r, f'))"
      by (metis go.exhaust option.exhaust prod.exhaust)
    then show ?thesis
    proof cases
      case 2
      with loop(2) [OF 2] False show ?thesis by (auto simp: Interpreter_Run_def f_gas_def f_depth_def)
    qed (simp add: Interpreter_Run_def False)
  qed
qed

lemma RunPrecompiledContract_gas: "RunPrecompiledContract env p input c = Ret (r, c') \<Longrightarrow> unat (Gas c') \<le> unat (Gas c)"
  unfolding RunPrecompiledContract_def go_bind_Ret
  by (auto simp: UseGas_def go_bind_Ret unat_sub not_less split: if_splits)

lemma run_contract_fine:
  assumes "Suc d \<le> CallCreateDepth \<Longrightarrow> runner_fine (Suc d) run" and "\<not> DisableGasMetering (e_vmConfig env)"
  shows "runner_fine d (run_contract env run)"
proof -
  note ir = Interpreter_Run_fine [OF assms, unfolded runner_fine_def]
  show ?thesis unfolding runner_fine_def run_contract_def
    using ir RunPrecompiledContract_gas [of env]
    by (auto simp: go_bind_Ret split: option.split option.splits)
qed

lemma evm_run_fine:
  assumes "\<not> DisableGasMetering (e_vmConfig env)" and "d \<le> CallCreateDepth" and "CallCreateDepth + 2 \<le> n + d"
  shows "runner_fine d (evm_run env n)"
  using assms(2,3)
proof (induction n arbitrary: d)
  case (Suc n)
  then show ?case by (simp add: run_contract_fine [OF _ assms(1)])
qed simp

end
