(* ===== verification/Secure_Trie.thy ===== *)
theory Secure_Trie
  imports Trie_Hasher "HOL-Library.AList"
begin

text \<open>
  The secure trie (\<open>src/trie/secure_trie.go\<close>): a trie whose keys are hashed, with a cache of the
  preimages of the keys that were written.  The cache belongs to one object: a copy of the trie
  starts with an empty one (\<open>secKeyOwned\<close> says whether \<open>secKeyCacheOwner\<close> points to the trie itself).
  Go iterates over the cache in any order; the model takes the order of insertion.
\<close>

record secure_trie =
  st_trie :: trie
  secKeyCache :: "(bytes \<times> bytes) list"
  secKeyOwned :: bool

definition secureKeyPrefix :: bytes where
  "secureKeyPrefix = [0x73, 0x65, 0x63, 0x75, 0x72, 0x65, 0x2d, 0x6b, 0x65, 0x79, 0x2d]"

definition NewSecure :: "bytes \<Rightarrow> database \<Rightarrow> u16 \<Rightarrow> trie_error + secure_trie" where
  "NewSecure root db cachelimit =
     bind_result (New root (Some db)) (\<lambda>t. Inr \<lparr>st_trie = SetCacheLimit cachelimit t, secKeyCache = [], secKeyOwned = False\<rparr>)"

definition hashKey :: "(bytes \<Rightarrow> bytes) \<Rightarrow> bytes \<Rightarrow> bytes" where
  "hashKey kec key = kec key"

definition secKey :: "bytes \<Rightarrow> bytes" where
  "secKey key = secureKeyPrefix @ key"

definition getSecKeyCache :: "secure_trie \<Rightarrow> secure_trie" where
  "getSecKeyCache t = (if secKeyOwned t then t else t\<lparr>secKeyCache := [], secKeyOwned := True\<rparr>)"

definition Secure_TryGet :: "(bytes \<Rightarrow> bytes) \<Rightarrow> database \<Rightarrow> secure_trie \<Rightarrow> bytes \<Rightarrow> (trie_error + bytes option) \<times> secure_trie" where
  "Secure_TryGet kec db t key =
     (case TryGet db (st_trie t) (hashKey kec key) of (r, tr) \<Rightarrow> (r, t\<lparr>st_trie := tr\<rparr>))"

definition Secure_TryUpdate :: "(bytes \<Rightarrow> bytes) \<Rightarrow> database \<Rightarrow> secure_trie \<Rightarrow> bytes \<Rightarrow> bytes \<Rightarrow> (trie_error + unit) \<times> secure_trie" where
  "Secure_TryUpdate kec db t key v =
     (let hk = hashKey kec key in
      case TryUpdate db (st_trie t) hk v of
        (Inl e, tr) \<Rightarrow> (Inl e, t\<lparr>st_trie := tr\<rparr>)
      | (Inr _, tr) \<Rightarrow>
          (let t1 = getSecKeyCache (t\<lparr>st_trie := tr\<rparr>)
           in (Inr (), t1\<lparr>secKeyCache := AList.update hk key (secKeyCache t1)\<rparr>)))"

definition Secure_TryDelete :: "(bytes \<Rightarrow> bytes) \<Rightarrow> database \<Rightarrow> secure_trie \<Rightarrow> bytes \<Rightarrow> (trie_error + unit) \<times> secure_trie" where
  "Secure_TryDelete kec db t key =
     (let hk = hashKey kec key; t1 = getSecKeyCache t in
      case TryDelete db (st_trie t1) hk of
        (r, tr) \<Rightarrow> (r, t1\<lparr>secKeyCache := AList.delete hk (secKeyCache t1), st_trie := tr\<rparr>))"

definition Secure_GetKey :: "database \<Rightarrow> secure_trie \<Rightarrow> bytes \<Rightarrow> bytes \<times> secure_trie" where
  "Secure_GetKey db t shaKey =
     (let t1 = getSecKeyCache t in
      case map_of (secKeyCache t1) shaKey of
        Some key \<Rightarrow> (key, t1)
      | None \<Rightarrow> ((case db (secKey shaKey) of Some key \<Rightarrow> key | None \<Rightarrow> []), t1))"

definition Secure_Hash :: "(bytes \<Rightarrow> bytes) \<Rightarrow> secure_trie \<Rightarrow> (trie_error + bytes) \<times> secure_trie" where
  "Secure_Hash kec t = (case Hash kec (st_trie t) of (r, tr) \<Rightarrow> (r, t\<lparr>st_trie := tr\<rparr>))"

definition Secure_Copy :: "secure_trie \<Rightarrow> secure_trie" where
  "Secure_Copy t = t\<lparr>secKeyOwned := False\<rparr>"

fun put_preimages :: "writer \<Rightarrow> (bytes \<times> bytes) list \<Rightarrow> database \<Rightarrow> (trie_error + unit) \<times> database" where
  "put_preimages put [] db = (Inr (), db)"
| "put_preimages put ((hk, key) # ks) db =
     (case db_put put (secKey hk) key db of
        (Inl e, db1) \<Rightarrow> (Inl e, db1)
      | (Inr _, db1) \<Rightarrow> put_preimages put ks db1)"

definition Secure_CommitTo :: "(bytes \<Rightarrow> bytes) \<Rightarrow> writer \<Rightarrow> secure_trie \<times> database \<Rightarrow> (trie_error + bytes) \<times> secure_trie \<times> database" where
  "Secure_CommitTo kec put = (\<lambda>(t0, db).
     let t = getSecKeyCache t0 in
     case put_preimages put (secKeyCache t) db of
       (Inl e, db1) \<Rightarrow> (Inl e, t, db1)
     | (Inr _, db1) \<Rightarrow>
         (case CommitTo kec put (st_trie t, db1) of
            (r, tr, db2) \<Rightarrow> (r, t\<lparr>secKeyCache := [], st_trie := tr\<rparr>, db2)))"

section \<open>A secure trie is a map\<close>

text \<open>Two keys with the same hash are one key of the trie.\<close>

definition secure_ok :: "database \<Rightarrow> secure_trie \<Rightarrow> bool" where
  "secure_ok db t \<longleftrightarrow> trie_wf db (st_trie t)"

definition secure_map :: "(bytes \<Rightarrow> bytes) \<Rightarrow> database \<Rightarrow> secure_trie \<Rightarrow> bytes \<Rightarrow> bytes option" where
  "secure_map kec db t key = trie_map db (st_trie t) (kec key)"

lemma getSecKeyCache_trie [simp]: "st_trie (getSecKeyCache t) = st_trie t"
  by (simp add: getSecKeyCache_def)

lemma Secure_TryGet_spec:
  assumes "secure_ok db t"
  obtains t' where "Secure_TryGet kec db t key = (Inr (secure_map kec db t key), t')" "secure_ok db t'"
    "secure_map kec db t' = secure_map kec db t" "trie_map db (st_trie t') = trie_map db (st_trie t)"
proof -
  from TryGet_spec [OF assms [unfolded secure_ok_def], of "kec key"] obtain tr where
    tr: "TryGet db (st_trie t) (kec key) = (Inr (trie_map db (st_trie t) (kec key)), tr)" "trie_wf db tr"
    "trie_map db tr = trie_map db (st_trie t)" by blast
  show ?thesis by (rule that [of "t\<lparr>st_trie := tr\<rparr>"])
    (use tr in \<open>auto simp: Secure_TryGet_def hashKey_def secure_map_def secure_ok_def\<close>)
qed

lemma Secure_TryUpdate_spec:
  assumes "secure_ok db t" and "v \<noteq> []"
  obtains t' where "Secure_TryUpdate kec db t key v = (Inr (), t')" "secure_ok db t'"
    "trie_map db (st_trie t') = (trie_map db (st_trie t))(kec key \<mapsto> v)"
proof -
  from put_spec [OF assms(1) [unfolded secure_ok_def] assms(2), of "kec key"] obtain tr where
    tr: "TryUpdate db (st_trie t) (kec key) v = (Inr (), tr)" "trie_wf db tr"
    "trie_map db tr = (trie_map db (st_trie t))(kec key \<mapsto> v)" by blast
  show ?thesis
  proof (rule that)
    show "Secure_TryUpdate kec db t key v = (Inr (), (getSecKeyCache (t\<lparr>st_trie := tr\<rparr>))\<lparr>secKeyCache :=
      AList.update (kec key) key (secKeyCache (getSecKeyCache (t\<lparr>st_trie := tr\<rparr>)))\<rparr>)"
      by (simp add: Secure_TryUpdate_def hashKey_def tr(1) Let_def)
  qed (use tr in \<open>simp_all add: secure_ok_def\<close>)
qed

lemma Secure_TryDelete_spec:
  assumes "secure_ok db t"
  obtains t' where "Secure_TryDelete kec db t key = (Inr (), t')" "secure_ok db t'"
    "trie_map db (st_trie t') = (trie_map db (st_trie t))(kec key := None)"
proof -
  from del_spec [OF assms [unfolded secure_ok_def], of "kec key"] obtain tr where
    tr: "TryDelete db (st_trie t) (kec key) = (Inr (), tr)" "trie_wf db tr"
    "trie_map db tr = (trie_map db (st_trie t))(kec key := None)" by blast
  show ?thesis
  proof (rule that)
    show "Secure_TryDelete kec db t key = (Inr (), (getSecKeyCache t)\<lparr>secKeyCache :=
      AList.delete (kec key) (secKeyCache (getSecKeyCache t)), st_trie := tr\<rparr>)"
      by (simp add: Secure_TryDelete_def hashKey_def tr(1) Let_def)
  qed (use tr in \<open>simp_all add: secure_ok_def\<close>)
qed

end
