(* ===== verification/State_Object.thy ===== *)
theory State_Object
  imports Secure_Trie Rlp_Decode Log_Bloom Evm_Base
begin

text \<open>
  Accounts and the objects of the state (\<open>src/core/state/state_object.go\<close>, \<open>journal.go\<close>, the
  database wrapper of \<open>database.go\<close> and the data of \<open>statedb.go\<close>).

  An object is reached through the map of live objects of its state, so a method of an object is a
  function of the object that returns the new object and, where it calls back, the new state.  The
  callback \<open>onDirty\<close> is always \<open>MarkStateObjectDirty\<close>; \<open>onDirty\<close> of the model says whether it is
  still set.  Balances are integers: a new value replaces the old, no \<open>big.Int\<close> of an account is
  changed in place.
\<close>

section \<open>Accounts\<close>

record Account =
  acc_Nonce :: u64
  acc_Balance :: int
  acc_Root :: bytes
  acc_CodeHash :: bytes

definition account_rval :: "Account \<Rightarrow> rval" where
  "account_rval a = ListV [UintV (acc_Nonce a), BigV (Some (acc_Balance a)), BytesV (acc_Root a), BytesV (acc_CodeHash a)]"

text \<open>The decoder of a struct reads the list head, its fields in order and the end of the list.\<close>

definition struct_field :: "'a sop \<Rightarrow> 'a sop" where
  "struct_field dec s =
     (case dec s of
        (Inl e, s') \<Rightarrow> (Inl (if e = EOL then DecodeError ''too few elements'' else e), s')
      | (Inr v, s') \<Rightarrow> (Inr v, s'))"

definition decode_struct :: "'a sop \<Rightarrow> 'a sop" where
  "decode_struct flds = sbind (wrapped List_op) (\<lambda>_. sbind flds (\<lambda>v. sbind (wrapped ListEnd) (\<lambda>_ s. (Inr v, s))))"

definition account_fields :: "Account sop" where
  "account_fields =
     sbind (struct_field (decodeUint 64)) (\<lambda>nonce. sbind (struct_field decodeBigInt) (\<lambda>balance.
     sbind (struct_field (decodeByteArray 32)) (\<lambda>root. sbind (struct_field decodeByteSlice) (\<lambda>codeHash s.
       (Inr \<lparr>acc_Nonce = word_of_nat nonce, acc_Balance = int balance, acc_Root = root, acc_CodeHash = codeHash\<rparr>, s)))))"

definition decode_account :: "bytes \<Rightarrow> rlp_error + Account" where
  "decode_account enc = DecodeBytes (decode_struct account_fields) enc"

section \<open>The database of the state\<close>

record cachingDB =
  cd_db :: database
  pastTries :: "secure_trie list"

definition MaxTrieCacheGen :: u16 where
  "MaxTrieCacheGen = 120"

definition maxPastTries :: nat where
  "maxPastTries = 12"

text \<open>The search for a recent trie with the wanted root goes backwards; hashing fills the hash caches
  of the nodes it looks at.\<close>

fun find_past :: "(bytes \<Rightarrow> bytes) \<Rightarrow> bytes \<Rightarrow> secure_trie list \<Rightarrow> secure_trie option \<times> secure_trie list" where
  "find_past kec root [] = (None, [])"
| "find_past kec root (t # older) =
     (case Secure_Hash kec t of (r, t1) \<Rightarrow>
        if r = Inr root then (Some (Secure_Copy t1), t1 # older)
        else (case find_past kec root older of (found, older') \<Rightarrow> (found, t1 # older')))"

definition OpenTrie :: "(bytes \<Rightarrow> bytes) \<Rightarrow> cachingDB \<Rightarrow> bytes \<Rightarrow> (trie_error + secure_trie) \<times> cachingDB" where
  "OpenTrie kec cdb root =
     (case find_past kec root (rev (pastTries cdb)) of (found, older) \<Rightarrow>
        let cdb1 = cdb\<lparr>pastTries := rev older\<rparr> in
        case found of
          Some t \<Rightarrow> (Inr t, cdb1)
        | None \<Rightarrow> (NewSecure root (cd_db cdb1) MaxTrieCacheGen, cdb1))"

definition pushTrie :: "secure_trie \<Rightarrow> cachingDB \<Rightarrow> cachingDB" where
  "pushTrie t cdb =
     (if length (pastTries cdb) \<ge> maxPastTries then cdb\<lparr>pastTries := tl (pastTries cdb) @ [t]\<rparr>
      else cdb\<lparr>pastTries := pastTries cdb @ [t]\<rparr>)"

definition OpenStorageTrie :: "cachingDB \<Rightarrow> bytes \<Rightarrow> trie_error + secure_trie" where
  "OpenStorageTrie cdb root = NewSecure root (cd_db cdb) 0"

text \<open>Contract code is stored under its hash.  The cache of code sizes holds the sizes of these
  entries and is left out.\<close>

definition ContractCode :: "cachingDB \<Rightarrow> bytes \<Rightarrow> trie_error + bytes" where
  "ContractCode cdb codeHash = (case cd_db cdb codeHash of Some code \<Rightarrow> Inr code | None \<Rightarrow> Inl DbError)"

definition ContractCodeSize :: "cachingDB \<Rightarrow> bytes \<Rightarrow> nat \<times> trie_error option" where
  "ContractCodeSize cdb codeHash =
     (case ContractCode cdb codeHash of Inr code \<Rightarrow> (length code, None) | Inl e \<Rightarrow> (0, Some e))"

section \<open>Objects, journal and state\<close>

datatype state_error = TrieErr trie_error | RlpErr rlp_error | NoStorageTrie | NoCode

type_synonym Storage = "(bytes \<times> bytes) list"

record stateObject =
  so_address :: bytes
  so_addrHash :: bytes
  so_data :: Account
  so_dbErr :: "state_error option"
  so_trie :: "secure_trie option"
  so_code :: "bytes option"
  cachedStorage :: Storage
  dirtyStorage :: Storage
  dirtyCode :: bool
  suicided :: bool
  touched :: bool
  deleted :: bool
  onDirty :: bool

datatype journalEntry =
    createObjectChange bytes
  | resetObjectChange stateObject
  | suicideChange bytes bool int
  | balanceChange bytes int
  | nonceChange bytes u64
  | storageChange bytes bytes bytes
  | codeChange bytes "bytes option" bytes
  | refundChange int
  | addLogChange bytes
  | addPreimageChange bytes
  | touchChange bytes bool bool

record state_db =
  sd_db :: cachingDB
  sd_trie :: secure_trie
  stateObjects :: "(bytes \<times> stateObject) list"
  stateObjectsDirty :: "bytes list"
  sd_dbErr :: "state_error option"
  sd_refund :: int
  sd_thash :: bytes
  sd_bhash :: bytes
  sd_txIndex :: nat
  sd_logs :: "(bytes \<times> Log list) list"
  sd_logSize :: nat
  sd_preimages :: "(bytes \<times> bytes) list"
  sd_journal :: "journalEntry list"
  validRevisions :: "(nat \<times> nat) list"
  nextRevisionId :: nat

section \<open>Methods of an object\<close>

definition emptyCodeHash :: "(bytes \<Rightarrow> bytes) \<Rightarrow> bytes" where
  "emptyCodeHash kec = kec []"

text \<open>\<open>Account{}\<close>, whose nil balance and code hash are replaced by \<open>newObject\<close>.\<close>

definition new_account :: "(bytes \<Rightarrow> bytes) \<Rightarrow> Account" where
  "new_account kec = \<lparr>acc_Nonce = 0, acc_Balance = 0, acc_Root = replicate 32 0, acc_CodeHash = emptyCodeHash kec\<rparr>"

definition newObject :: "(bytes \<Rightarrow> bytes) \<Rightarrow> bytes \<Rightarrow> Account \<Rightarrow> bool \<Rightarrow> stateObject" where
  "newObject kec address data onD =
     \<lparr>so_address = address, so_addrHash = kec address, so_data = data, so_dbErr = None, so_trie = None, so_code = None,
      cachedStorage = [], dirtyStorage = [], dirtyCode = False, suicided = False, touched = False, deleted = False, onDirty = onD\<rparr>"

definition empty_object :: "(bytes \<Rightarrow> bytes) \<Rightarrow> stateObject \<Rightarrow> bool" where
  "empty_object kec o1 \<longleftrightarrow> acc_Nonce (so_data o1) = 0 \<and> acc_Balance (so_data o1) = 0 \<and> acc_CodeHash (so_data o1) = emptyCodeHash kec"

definition obj_setError :: "state_error option \<Rightarrow> stateObject \<Rightarrow> stateObject" where
  "obj_setError err o1 = (if so_dbErr o1 = None then o1\<lparr>so_dbErr := err\<rparr> else o1)"

definition MarkStateObjectDirty :: "bytes \<Rightarrow> state_db \<Rightarrow> state_db" where
  "MarkStateObjectDirty addr s = s\<lparr>stateObjectsDirty := List.insert addr (stateObjectsDirty s)\<rparr>"

text \<open>The callback is called once and dropped.\<close>

definition call_onDirty :: "stateObject \<Rightarrow> state_db \<Rightarrow> stateObject \<times> state_db" where
  "call_onDirty o1 s = (if onDirty o1 then (o1\<lparr>onDirty := False\<rparr>, MarkStateObjectDirty (so_address o1) s) else (o1, s))"

definition append_journal :: "journalEntry \<Rightarrow> state_db \<Rightarrow> state_db" where
  "append_journal e s = s\<lparr>sd_journal := sd_journal s @ [e]\<rparr>"

definition markSuicided :: "stateObject \<Rightarrow> state_db \<Rightarrow> stateObject \<times> state_db" where
  "markSuicided o1 s = call_onDirty (o1\<lparr>suicided := True\<rparr>) s"

definition touch :: "stateObject \<Rightarrow> state_db \<Rightarrow> stateObject \<times> state_db" where
  "touch c s =
     (case call_onDirty c (append_journal (touchChange (so_address c) (touched c) (\<not> onDirty c)) s) of
        (c1, s1) \<Rightarrow> (c1\<lparr>touched := True\<rparr>, s1))"

text \<open>What \<open>OpenStorageTrie\<close> returns for the zero root.\<close>

definition empty_storage_trie :: secure_trie where
  "empty_storage_trie =
     \<lparr>st_trie = \<lparr>tr_root = NilNode, tr_originalRoot = replicate 32 0, tr_prefix = None, tr_cachegen = 0, tr_cachelimit = 0\<rparr>,
      secKeyCache = [], secKeyOwned = False\<rparr>"

definition getTrie :: "cachingDB \<Rightarrow> stateObject \<Rightarrow> secure_trie \<times> stateObject" where
  "getTrie cdb c =
     (case so_trie c of
        Some t \<Rightarrow> (t, c)
      | None \<Rightarrow>
          (case OpenStorageTrie cdb (acc_Root (so_data c)) of
             Inr t \<Rightarrow> (t, c\<lparr>so_trie := Some t\<rparr>)
           | Inl e \<Rightarrow> (empty_storage_trie, obj_setError (Some NoStorageTrie) (c\<lparr>so_trie := Some empty_storage_trie\<rparr>))))"

text \<open>What is read from the storage trie is the content of an RLP string.\<close>

definition storage_value :: "bytes option \<Rightarrow> bytes \<times> state_error option" where
  "storage_value enc =
     (case enc of
        None \<Rightarrow> (replicate 32 0, None)
      | Some e \<Rightarrow>
          if e = [] then (replicate 32 0, None)
          else (case Split e of
              Inl err \<Rightarrow> (BytesToHash [], Some (RlpErr err))
            | Inr (_, content, _) \<Rightarrow> (BytesToHash content, None)))"

definition obj_GetState :: "(bytes \<Rightarrow> bytes) \<Rightarrow> cachingDB \<Rightarrow> bytes \<Rightarrow> stateObject \<Rightarrow> bytes \<times> stateObject" where
  "obj_GetState kec cdb key o1 =
     (case map_of (cachedStorage o1) key of
        Some v \<Rightarrow> (v, o1)
      | None \<Rightarrow>
          (case getTrie cdb o1 of (t, o2) \<Rightarrow>
           case Secure_TryGet kec (cd_db cdb) t key of
             (Inl e, t1) \<Rightarrow> (replicate 32 0, obj_setError (Some (TrieErr e)) (o2\<lparr>so_trie := Some t1\<rparr>))
           | (Inr enc, t1) \<Rightarrow>
               (case storage_value enc of (v, err) \<Rightarrow>
                let o3 = obj_setError err (o2\<lparr>so_trie := Some t1\<rparr>) in
                (v, if v \<noteq> replicate 32 0 then o3\<lparr>cachedStorage := AList.update key v (cachedStorage o3)\<rparr> else o3))))"

definition obj_setState :: "bytes \<Rightarrow> bytes \<Rightarrow> stateObject \<Rightarrow> state_db \<Rightarrow> stateObject \<times> state_db" where
  "obj_setState key v o1 s =
     call_onDirty (o1\<lparr>cachedStorage := AList.update key v (cachedStorage o1),
       dirtyStorage := AList.update key v (dirtyStorage o1)\<rparr>) s"

definition obj_SetState :: "(bytes \<Rightarrow> bytes) \<Rightarrow> bytes \<Rightarrow> bytes \<Rightarrow> stateObject \<Rightarrow> state_db \<Rightarrow> stateObject \<times> state_db" where
  "obj_SetState kec key v o1 s =
     (case obj_GetState kec (sd_db s) key o1 of (prevalue, o2) \<Rightarrow>
      obj_setState key v o2 (append_journal (storageChange (so_address o2) key prevalue) s))"

text \<open>\<open>bytes.TrimLeft(value, "\x00")\<close>.\<close>

definition trim_zeros :: "bytes \<Rightarrow> bytes" where
  "trim_zeros v = dropWhile (\<lambda>b. b = 0) v"

fun flush_storage :: "(bytes \<Rightarrow> bytes) \<Rightarrow> cachingDB \<Rightarrow> (bytes \<times> bytes) list \<Rightarrow> secure_trie \<times> stateObject \<Rightarrow> secure_trie \<times> stateObject" where
  "flush_storage kec cdb [] (tr, o1) = (tr, o1)"
| "flush_storage kec cdb ((key, v) # rest) (tr, o1) =
     (let o2 = o1\<lparr>dirtyStorage := AList.delete key (dirtyStorage o1)\<rparr> in
      case (if v = replicate 32 0 then Secure_TryDelete kec (cd_db cdb) tr key
            else Secure_TryUpdate kec (cd_db cdb) tr key (case EncodeToBytes (BytesV (trim_zeros v)) of Inr e \<Rightarrow> e | Inl _ \<Rightarrow> [])) of
        (r, tr1) \<Rightarrow>
          flush_storage kec cdb rest (tr1, obj_setError (case r of Inl e \<Rightarrow> Some (TrieErr e) | Inr _ \<Rightarrow> None) o2))"

definition updateTrie :: "(bytes \<Rightarrow> bytes) \<Rightarrow> cachingDB \<Rightarrow> stateObject \<Rightarrow> secure_trie \<times> stateObject" where
  "updateTrie kec cdb o1 =
     (case getTrie cdb o1 of (tr, o2) \<Rightarrow>
      case flush_storage kec cdb (dirtyStorage o2) (tr, o2) of (tr1, o3) \<Rightarrow> (tr1, o3\<lparr>so_trie := Some tr1\<rparr>))"

definition updateRoot :: "(bytes \<Rightarrow> bytes) \<Rightarrow> cachingDB \<Rightarrow> stateObject \<Rightarrow> stateObject go" where
  "updateRoot kec cdb o1 =
     (case updateTrie kec cdb o1 of (tr, o2) \<Rightarrow>
      case Secure_Hash kec tr of
        (Inl _, _) \<Rightarrow> Panic
      | (Inr h, tr1) \<Rightarrow> Ret (o2\<lparr>so_trie := Some tr1, so_data := (so_data o2)\<lparr>acc_Root := h\<rparr>\<rparr>))"

definition CommitTrie :: "(bytes \<Rightarrow> bytes) \<Rightarrow> cachingDB \<Rightarrow> writer \<Rightarrow> stateObject \<times> database \<Rightarrow> (state_error + unit) \<times> stateObject \<times> database" where
  "CommitTrie kec cdb put = (\<lambda>(o1, dbw).
     case updateTrie kec cdb o1 of (tr, o2) \<Rightarrow>
     case so_dbErr o2 of
       Some e \<Rightarrow> (Inl e, o2, dbw)
     | None \<Rightarrow>
         (case Secure_CommitTo kec put (tr, dbw) of
            (Inl e, tr1, dbw1) \<Rightarrow> (Inl (TrieErr e), o2\<lparr>so_trie := Some tr1\<rparr>, dbw1)
          | (Inr root, tr1, dbw1) \<Rightarrow>
              (Inr (), o2\<lparr>so_trie := Some tr1, so_data := (so_data o2)\<lparr>acc_Root := root\<rparr>\<rparr>, dbw1)))"

definition obj_setBalance :: "int \<Rightarrow> stateObject \<Rightarrow> state_db \<Rightarrow> stateObject \<times> state_db" where
  "obj_setBalance amount o1 s = call_onDirty (o1\<lparr>so_data := (so_data o1)\<lparr>acc_Balance := amount\<rparr>\<rparr>) s"

definition obj_SetBalance :: "int \<Rightarrow> stateObject \<Rightarrow> state_db \<Rightarrow> stateObject \<times> state_db" where
  "obj_SetBalance amount o1 s =
     obj_setBalance amount o1 (append_journal (balanceChange (so_address o1) (acc_Balance (so_data o1))) s)"

definition obj_AddBalance :: "(bytes \<Rightarrow> bytes) \<Rightarrow> int \<Rightarrow> stateObject \<Rightarrow> state_db \<Rightarrow> stateObject \<times> state_db" where
  "obj_AddBalance kec amount c s =
     (if amount = 0 then (if empty_object kec c then touch c s else (c, s))
      else obj_SetBalance (acc_Balance (so_data c) + amount) c s)"

definition obj_SubBalance :: "int \<Rightarrow> stateObject \<Rightarrow> state_db \<Rightarrow> stateObject \<times> state_db" where
  "obj_SubBalance amount c s = (if amount = 0 then (c, s) else obj_SetBalance (acc_Balance (so_data c) - amount) c s)"

definition deepCopy :: "(bytes \<Rightarrow> bytes) \<Rightarrow> stateObject \<Rightarrow> bool \<Rightarrow> stateObject" where
  "deepCopy kec o1 onD =
     (newObject kec (so_address o1) (so_data o1) onD)\<lparr>so_trie := map_option Secure_Copy (so_trie o1), so_code := so_code o1,
       dirtyStorage := dirtyStorage o1, cachedStorage := dirtyStorage o1, suicided := suicided o1, dirtyCode := dirtyCode o1,
       deleted := deleted o1\<rparr>"

text \<open>Loaded code is kept in the object; a failed load leaves nil.  Empty code is the nil slice, as the
  virtual machine passes it.\<close>

definition obj_Code :: "(bytes \<Rightarrow> bytes) \<Rightarrow> cachingDB \<Rightarrow> stateObject \<Rightarrow> bytes option \<times> stateObject" where
  "obj_Code kec cdb o1 =
     (case so_code o1 of
        Some c \<Rightarrow> (Some c, o1)
      | None \<Rightarrow>
          if acc_CodeHash (so_data o1) = emptyCodeHash kec then (None, o1)
          else (case ContractCode cdb (BytesToHash (acc_CodeHash (so_data o1))) of
              Inl e \<Rightarrow> (None, obj_setError (Some NoCode) o1)
            | Inr code \<Rightarrow> (Some code, o1\<lparr>so_code := Some code\<rparr>)))"

definition obj_setCode :: "bytes \<Rightarrow> bytes option \<Rightarrow> stateObject \<Rightarrow> state_db \<Rightarrow> stateObject \<times> state_db" where
  "obj_setCode codeHash code o1 s =
     call_onDirty (o1\<lparr>so_code := code, so_data := (so_data o1)\<lparr>acc_CodeHash := codeHash\<rparr>, dirtyCode := True\<rparr>) s"

definition obj_SetCode :: "(bytes \<Rightarrow> bytes) \<Rightarrow> bytes \<Rightarrow> bytes \<Rightarrow> stateObject \<Rightarrow> state_db \<Rightarrow> stateObject \<times> state_db" where
  "obj_SetCode kec codeHash code o1 s =
     (case obj_Code kec (sd_db s) o1 of (prevcode, o2) \<Rightarrow>
      obj_setCode codeHash (if code = [] then None else Some code) o2 (append_journal (codeChange (so_address o2) prevcode (acc_CodeHash (so_data o2))) s))"

definition obj_setNonce :: "u64 \<Rightarrow> stateObject \<Rightarrow> state_db \<Rightarrow> stateObject \<times> state_db" where
  "obj_setNonce nonce o1 s = call_onDirty (o1\<lparr>so_data := (so_data o1)\<lparr>acc_Nonce := nonce\<rparr>\<rparr>) s"

definition obj_SetNonce :: "u64 \<Rightarrow> stateObject \<Rightarrow> state_db \<Rightarrow> stateObject \<times> state_db" where
  "obj_SetNonce nonce o1 s =
     obj_setNonce nonce o1 (append_journal (nonceChange (so_address o1) (acc_Nonce (so_data o1))) s)"

lemma OpenStorageTrie_zero: "OpenStorageTrie cdb (replicate 32 0) = Inr empty_storage_trie"
  by (simp add: OpenStorageTrie_def NewSecure_def New_def empty_storage_trie_def SetCacheLimit_def)

end
