(* ===== verification/State_Db.thy ===== *)
theory State_Db
  imports State_Object
begin

text \<open>
  The state database (\<open>src/core/state/statedb.go\<close>) and the entries of its journal
  (\<open>src/core/state/journal.go\<close>).  Reading loads objects, code and storage into the caches of the
  state, so a reader returns its value and the new state.  A panic (an entry undone on an account
  that is not there, a revision that is not valid, an account that cannot be encoded) is \<open>Panic\<close>.
  Go iterates over its maps in any order; the model takes the order of insertion.
\<close>

section \<open>Objects of the state\<close>

definition State_New :: "(bytes \<Rightarrow> bytes) \<Rightarrow> bytes \<Rightarrow> cachingDB \<Rightarrow> trie_error + state_db" where
  "State_New kec root db =
     (case OpenTrie kec db root of
        (Inl e, _) \<Rightarrow> Inl e
      | (Inr tr, db1) \<Rightarrow> Inr
          \<lparr>sd_db = db1, sd_trie = tr, stateObjects = [], stateObjectsDirty = [], sd_dbErr = None, sd_refund = 0,
           sd_thash = replicate 32 0, sd_bhash = replicate 32 0, sd_txIndex = 0, sd_logs = [], sd_logSize = 0,
           sd_preimages = [], sd_journal = [], validRevisions = [], nextRevisionId = 0\<rparr>)"

definition setError :: "state_error option \<Rightarrow> state_db \<Rightarrow> state_db" where
  "setError err s = (if sd_dbErr s = None then s\<lparr>sd_dbErr := err\<rparr> else s)"

definition setStateObject :: "stateObject \<Rightarrow> state_db \<Rightarrow> state_db" where
  "setStateObject obj s = s\<lparr>stateObjects := AList.update (so_address obj) obj (stateObjects s)\<rparr>"

definition getStateObject :: "(bytes \<Rightarrow> bytes) \<Rightarrow> bytes \<Rightarrow> state_db \<Rightarrow> stateObject option \<times> state_db" where
  "getStateObject kec addr s =
     (case map_of (stateObjects s) addr of
        Some obj \<Rightarrow> (if deleted obj then None else Some obj, s)
      | None \<Rightarrow>
          (case Secure_TryGet kec (cd_db (sd_db s)) (sd_trie s) addr of (r, tr) \<Rightarrow>
           let s1 = s\<lparr>sd_trie := tr\<rparr> in
           case r of
             Inl e \<Rightarrow> (None, setError (Some (TrieErr e)) s1)
           | Inr None \<Rightarrow> (None, setError None s1)
           | Inr (Some enc) \<Rightarrow>
               if enc = [] then (None, setError None s1)
               else (case decode_account enc of
                   Inl _ \<Rightarrow> (None, s1)
                 | Inr data \<Rightarrow>
                     (let obj = newObject kec addr data True in (Some obj, setStateObject obj s1)))))"

definition createObject :: "(bytes \<Rightarrow> bytes) \<Rightarrow> bytes \<Rightarrow> state_db \<Rightarrow> (stateObject \<times> stateObject option) \<times> state_db" where
  "createObject kec addr s =
     (case getStateObject kec addr s of (prev, s1) \<Rightarrow>
      case obj_setNonce 0 (newObject kec addr (new_account kec) True) s1 of (newobj, s2) \<Rightarrow>
      let s3 = append_journal (case prev of None \<Rightarrow> createObjectChange addr | Some p \<Rightarrow> resetObjectChange p) s2
      in ((newobj, prev), setStateObject newobj s3))"

definition GetOrNewStateObject :: "(bytes \<Rightarrow> bytes) \<Rightarrow> bytes \<Rightarrow> state_db \<Rightarrow> stateObject \<times> state_db" where
  "GetOrNewStateObject kec addr s =
     (case getStateObject kec addr s of
        (Some obj, s1) \<Rightarrow> if deleted obj then (case createObject kec addr s1 of ((newobj, _), s2) \<Rightarrow> (newobj, s2)) else (obj, s1)
      | (None, s1) \<Rightarrow> (case createObject kec addr s1 of ((newobj, _), s2) \<Rightarrow> (newobj, s2)))"

text \<open>Calling a method of the object at an address, which the object's pointer in the map shows.\<close>

definition with_object :: "(bytes \<Rightarrow> bytes) \<Rightarrow> bytes \<Rightarrow> (stateObject \<Rightarrow> state_db \<Rightarrow> stateObject \<times> state_db) \<Rightarrow> state_db \<Rightarrow> state_db" where
  "with_object kec addr f s =
     (case GetOrNewStateObject kec addr s of (obj, s1) \<Rightarrow> case f obj s1 of (obj', s2) \<Rightarrow> setStateObject obj' s2)"

section \<open>Reading\<close>

definition State_Exist :: "(bytes \<Rightarrow> bytes) \<Rightarrow> bytes \<Rightarrow> state_db \<Rightarrow> bool \<times> state_db" where
  "State_Exist kec addr s = (case getStateObject kec addr s of (obj, s1) \<Rightarrow> (obj \<noteq> None, s1))"

definition State_Empty :: "(bytes \<Rightarrow> bytes) \<Rightarrow> bytes \<Rightarrow> state_db \<Rightarrow> bool \<times> state_db" where
  "State_Empty kec addr s =
     (case getStateObject kec addr s of (None, s1) \<Rightarrow> (True, s1) | (Some so, s1) \<Rightarrow> (empty_object kec so, s1))"

definition State_GetBalance :: "(bytes \<Rightarrow> bytes) \<Rightarrow> bytes \<Rightarrow> state_db \<Rightarrow> int \<times> state_db" where
  "State_GetBalance kec addr s =
     (case getStateObject kec addr s of (None, s1) \<Rightarrow> (0, s1) | (Some so, s1) \<Rightarrow> (acc_Balance (so_data so), s1))"

definition State_GetNonce :: "(bytes \<Rightarrow> bytes) \<Rightarrow> bytes \<Rightarrow> state_db \<Rightarrow> u64 \<times> state_db" where
  "State_GetNonce kec addr s =
     (case getStateObject kec addr s of (None, s1) \<Rightarrow> (0, s1) | (Some so, s1) \<Rightarrow> (acc_Nonce (so_data so), s1))"

definition State_GetCode :: "(bytes \<Rightarrow> bytes) \<Rightarrow> bytes \<Rightarrow> state_db \<Rightarrow> bytes \<times> state_db" where
  "State_GetCode kec addr s =
     (case getStateObject kec addr s of
        (None, s1) \<Rightarrow> ([], s1)
      | (Some so, s1) \<Rightarrow>
          (case obj_Code kec (sd_db s1) so of (code, so') \<Rightarrow>
             ((case code of None \<Rightarrow> [] | Some c \<Rightarrow> c), setStateObject so' s1)))"

definition State_GetCodeSize :: "(bytes \<Rightarrow> bytes) \<Rightarrow> bytes \<Rightarrow> state_db \<Rightarrow> int \<times> state_db" where
  "State_GetCodeSize kec addr s =
     (case getStateObject kec addr s of
        (None, s1) \<Rightarrow> (0, s1)
      | (Some so, s1) \<Rightarrow>
          (case so_code so of
             Some c \<Rightarrow> (int (length c), s1)
           | None \<Rightarrow>
               (case ContractCodeSize (sd_db s1) (BytesToHash (acc_CodeHash (so_data so))) of
                  (n, None) \<Rightarrow> (int n, s1)
                | (n, Some e) \<Rightarrow> (int n, setError (Some (TrieErr e)) s1))))"

definition State_GetCodeHash :: "(bytes \<Rightarrow> bytes) \<Rightarrow> bytes \<Rightarrow> state_db \<Rightarrow> bytes \<times> state_db" where
  "State_GetCodeHash kec addr s =
     (case getStateObject kec addr s of
        (None, s1) \<Rightarrow> (replicate 32 0, s1)
      | (Some so, s1) \<Rightarrow> (BytesToHash (acc_CodeHash (so_data so)), s1))"

definition State_GetState :: "(bytes \<Rightarrow> bytes) \<Rightarrow> bytes \<Rightarrow> bytes \<Rightarrow> state_db \<Rightarrow> bytes \<times> state_db" where
  "State_GetState kec addr key s =
     (case getStateObject kec addr s of
        (None, s1) \<Rightarrow> (replicate 32 0, s1)
      | (Some so, s1) \<Rightarrow> (case obj_GetState kec (sd_db s1) key so of (v, so') \<Rightarrow> (v, setStateObject so' s1)))"

definition State_HasSuicided :: "(bytes \<Rightarrow> bytes) \<Rightarrow> bytes \<Rightarrow> state_db \<Rightarrow> bool \<times> state_db" where
  "State_HasSuicided kec addr s =
     (case getStateObject kec addr s of (None, s1) \<Rightarrow> (False, s1) | (Some so, s1) \<Rightarrow> (suicided so, s1))"

definition GetLogs :: "bytes \<Rightarrow> state_db \<Rightarrow> Log list" where
  "GetLogs hash s = (case map_of (sd_logs s) hash of None \<Rightarrow> [] | Some ls \<Rightarrow> ls)"

definition Logs :: "state_db \<Rightarrow> Log list" where
  "Logs s = concat (map snd (sd_logs s))"

section \<open>Writing\<close>

definition State_AddLog :: "Log \<Rightarrow> state_db \<Rightarrow> state_db" where
  "State_AddLog lg s0 =
     (let s = append_journal (addLogChange (sd_thash s0)) s0;
          lg' = lg\<lparr>log_TxHash := sd_thash s, log_BlockHash := sd_bhash s, log_TxIndex := sd_txIndex s, log_Index := sd_logSize s\<rparr>
      in s\<lparr>sd_logs := AList.update (sd_thash s) (GetLogs (sd_thash s) s @ [lg']) (sd_logs s), sd_logSize := sd_logSize s + 1\<rparr>)"

definition State_AddPreimage :: "bytes \<Rightarrow> bytes \<Rightarrow> state_db \<Rightarrow> state_db" where
  "State_AddPreimage hash preimage s =
     (case map_of (sd_preimages s) hash of
        Some _ \<Rightarrow> s
      | None \<Rightarrow> (append_journal (addPreimageChange hash) s)\<lparr>sd_preimages := AList.update hash preimage (sd_preimages s)\<rparr>)"

definition State_AddRefund :: "int \<Rightarrow> state_db \<Rightarrow> state_db" where
  "State_AddRefund gas s = (append_journal (refundChange (sd_refund s)) s)\<lparr>sd_refund := sd_refund s + gas\<rparr>"

definition State_AddBalance :: "(bytes \<Rightarrow> bytes) \<Rightarrow> bytes \<Rightarrow> int \<Rightarrow> state_db \<Rightarrow> state_db" where
  "State_AddBalance kec addr amount s = with_object kec addr (obj_AddBalance kec amount) s"

definition State_SubBalance :: "(bytes \<Rightarrow> bytes) \<Rightarrow> bytes \<Rightarrow> int \<Rightarrow> state_db \<Rightarrow> state_db" where
  "State_SubBalance kec addr amount s = with_object kec addr (obj_SubBalance amount) s"

definition State_SetBalance :: "(bytes \<Rightarrow> bytes) \<Rightarrow> bytes \<Rightarrow> int \<Rightarrow> state_db \<Rightarrow> state_db" where
  "State_SetBalance kec addr amount s = with_object kec addr (obj_SetBalance amount) s"

definition State_SetNonce :: "(bytes \<Rightarrow> bytes) \<Rightarrow> bytes \<Rightarrow> u64 \<Rightarrow> state_db \<Rightarrow> state_db" where
  "State_SetNonce kec addr nonce s = with_object kec addr (obj_SetNonce nonce) s"

definition State_SetCode :: "(bytes \<Rightarrow> bytes) \<Rightarrow> bytes \<Rightarrow> bytes \<Rightarrow> state_db \<Rightarrow> state_db" where
  "State_SetCode kec addr code s = with_object kec addr (obj_SetCode kec (kec code) code) s"

definition State_SetState :: "(bytes \<Rightarrow> bytes) \<Rightarrow> bytes \<Rightarrow> bytes \<Rightarrow> bytes \<Rightarrow> state_db \<Rightarrow> state_db" where
  "State_SetState kec addr key v s = with_object kec addr (obj_SetState kec key v) s"

definition State_Suicide :: "(bytes \<Rightarrow> bytes) \<Rightarrow> bytes \<Rightarrow> state_db \<Rightarrow> bool \<times> state_db" where
  "State_Suicide kec addr s =
     (case getStateObject kec addr s of
        (None, s1) \<Rightarrow> (False, s1)
      | (Some so, s1) \<Rightarrow>
          (case markSuicided so (append_journal (suicideChange addr (suicided so) (acc_Balance (so_data so))) s1) of
             (so', s2) \<Rightarrow> (True, setStateObject (so'\<lparr>so_data := (so_data so')\<lparr>acc_Balance := 0\<rparr>\<rparr>) s2)))"

definition State_CreateAccount :: "(bytes \<Rightarrow> bytes) \<Rightarrow> bytes \<Rightarrow> state_db \<Rightarrow> state_db" where
  "State_CreateAccount kec addr s =
     (case createObject kec addr s of ((newobj, prev), s1) \<Rightarrow>
      case prev of
        None \<Rightarrow> s1
      | Some p \<Rightarrow> (case obj_setBalance (acc_Balance (so_data p)) newobj s1 of (obj', s2) \<Rightarrow> setStateObject obj' s2))"

definition Prepare :: "bytes \<Rightarrow> bytes \<Rightarrow> nat \<Rightarrow> state_db \<Rightarrow> state_db" where
  "Prepare th bh ti s = s\<lparr>sd_thash := th, sd_bhash := bh, sd_txIndex := ti\<rparr>"

section \<open>Undoing\<close>

definition ripemd :: bytes where
  "ripemd = replicate 19 0 @ [3]"

text \<open>A method call on the result of \<open>getStateObject\<close>, which panics on nil.\<close>

definition on_object :: "(bytes \<Rightarrow> bytes) \<Rightarrow> bytes \<Rightarrow> (stateObject \<Rightarrow> state_db \<Rightarrow> stateObject \<times> state_db) \<Rightarrow> state_db \<Rightarrow> state_db go" where
  "on_object kec addr f s =
     (case getStateObject kec addr s of
        (None, _) \<Rightarrow> Panic
      | (Some obj, s1) \<Rightarrow> (case f obj s1 of (obj', s2) \<Rightarrow> Ret (setStateObject obj' s2)))"

definition delete_dirty :: "bytes \<Rightarrow> state_db \<Rightarrow> state_db" where
  "delete_dirty addr s = s\<lparr>stateObjectsDirty := filter (\<lambda>a. a \<noteq> addr) (stateObjectsDirty s)\<rparr>"

definition delete_object :: "bytes \<Rightarrow> state_db \<Rightarrow> state_db" where
  "delete_object addr s = s\<lparr>stateObjects := AList.delete addr (stateObjects s)\<rparr>"

fun undo :: "(bytes \<Rightarrow> bytes) \<Rightarrow> journalEntry \<Rightarrow> state_db \<Rightarrow> state_db go" where
  "undo kec (createObjectChange a) s = Ret (delete_dirty a (delete_object a s))"
| "undo kec (resetObjectChange prev) s = Ret (setStateObject prev s)"
| "undo kec (suicideChange a prev prevbalance) s =
     (case getStateObject kec a s of
        (None, s1) \<Rightarrow> Ret s1
      | (Some obj, s1) \<Rightarrow>
          (case obj_setBalance prevbalance (obj\<lparr>suicided := prev\<rparr>) s1 of (obj', s2) \<Rightarrow> Ret (setStateObject obj' s2)))"
| "undo kec (touchChange a prev prevDirty) s =
     (if \<not> prev \<and> a \<noteq> ripemd
      then go_bind (on_object kec a (\<lambda>obj s1. (obj\<lparr>touched := prev\<rparr>, s1)) s)
        (\<lambda>s1. Ret (if \<not> prevDirty then delete_dirty a s1 else s1))
      else Ret s)"
| "undo kec (balanceChange a prev) s = on_object kec a (obj_setBalance prev) s"
| "undo kec (nonceChange a prev) s = on_object kec a (obj_setNonce prev) s"
| "undo kec (codeChange a prevcode prevhash) s = on_object kec a (obj_setCode (BytesToHash prevhash) prevcode) s"
| "undo kec (storageChange a key prevalue) s = on_object kec a (obj_setState key prevalue) s"
| "undo kec (refundChange prev) s = Ret (s\<lparr>sd_refund := prev\<rparr>)"
| "undo kec (addLogChange txhash) s =
     (let ls = GetLogs txhash s in
      if length ls = 1 then Ret (s\<lparr>sd_logs := AList.delete txhash (sd_logs s), sd_logSize := sd_logSize s - 1\<rparr>)
      else if ls = [] then Panic
      else Ret (s\<lparr>sd_logs := AList.update txhash (butlast ls) (sd_logs s), sd_logSize := sd_logSize s - 1\<rparr>))"
| "undo kec (addPreimageChange hash) s = Ret (s\<lparr>sd_preimages := AList.delete hash (sd_preimages s)\<rparr>)"

text \<open>The entries are undone from the last to the first.\<close>

fun undo_all :: "(bytes \<Rightarrow> bytes) \<Rightarrow> journalEntry list \<Rightarrow> state_db \<Rightarrow> state_db go" where
  "undo_all kec [] s = Ret s"
| "undo_all kec (e # es) s = go_bind (undo_all kec es s) (undo kec e)"

section \<open>Snapshots\<close>

text \<open>\<open>sort.Search\<close>: the smallest index for which a monotone test holds, by bisection.\<close>

function sort_Search :: "(nat \<Rightarrow> bool) \<Rightarrow> nat \<Rightarrow> nat \<Rightarrow> nat" where
  "sort_Search f i j =
     (if i < j then (let h = (i + j) div 2 in if \<not> f h then sort_Search f (h + 1) j else sort_Search f i h) else i)"
  by pat_completeness auto
termination
  by (relation "measure (\<lambda>(_, i, j). j - i)") auto

declare sort_Search.simps [simp del]

definition State_Snapshot :: "state_db \<Rightarrow> nat \<times> state_db" where
  "State_Snapshot s =
     (nextRevisionId s, s\<lparr>nextRevisionId := nextRevisionId s + 1,
        validRevisions := validRevisions s @ [(nextRevisionId s, length (sd_journal s))]\<rparr>)"

definition State_RevertToSnapshot :: "(bytes \<Rightarrow> bytes) \<Rightarrow> nat \<Rightarrow> state_db \<Rightarrow> state_db go" where
  "State_RevertToSnapshot kec revid s =
     (let revs = validRevisions s; idx = sort_Search (\<lambda>i. revid \<le> fst (revs ! i)) 0 (length revs) in
      if idx = length revs \<or> fst (revs ! idx) \<noteq> revid then Panic
      else
        let snapshot = snd (revs ! idx) in
        go_bind (undo_all kec (drop snapshot (sd_journal s)) s) (\<lambda>s1.
          Ret (s1\<lparr>sd_journal := take snapshot (sd_journal s1), validRevisions := take idx (validRevisions s1)\<rparr>)))"

section \<open>The end of a transaction and of a block\<close>

definition clearJournalAndRefund :: "state_db \<Rightarrow> state_db" where
  "clearJournalAndRefund s = s\<lparr>sd_journal := [], validRevisions := [], sd_refund := 0\<rparr>"

definition updateStateObject :: "(bytes \<Rightarrow> bytes) \<Rightarrow> stateObject \<Rightarrow> state_db \<Rightarrow> state_db go" where
  "updateStateObject kec obj s =
     (case EncodeToBytes (account_rval (so_data obj)) of
        Inl _ \<Rightarrow> Panic
      | Inr data \<Rightarrow>
          (case Secure_TryUpdate kec (cd_db (sd_db s)) (sd_trie s) (so_address obj) data of (r, tr) \<Rightarrow>
             Ret (setError (case r of Inl e \<Rightarrow> Some (TrieErr e) | Inr _ \<Rightarrow> None) (s\<lparr>sd_trie := tr\<rparr>))))"

definition deleteStateObject :: "(bytes \<Rightarrow> bytes) \<Rightarrow> stateObject \<Rightarrow> state_db \<Rightarrow> state_db" where
  "deleteStateObject kec obj s =
     (let s1 = setStateObject (obj\<lparr>deleted := True\<rparr>) s in
      case Secure_TryDelete kec (cd_db (sd_db s1)) (sd_trie s1) (so_address obj) of (r, tr) \<Rightarrow>
        setError (case r of Inl e \<Rightarrow> Some (TrieErr e) | Inr _ \<Rightarrow> None) (s1\<lparr>sd_trie := tr\<rparr>))"

definition finalise_object :: "(bytes \<Rightarrow> bytes) \<Rightarrow> bool \<Rightarrow> bytes \<Rightarrow> state_db \<Rightarrow> state_db go" where
  "finalise_object kec deleteEmptyObjects addr s =
     (case map_of (stateObjects s) addr of
        None \<Rightarrow> Panic
      | Some obj \<Rightarrow>
          if suicided obj \<or> (deleteEmptyObjects \<and> empty_object kec obj) then Ret (deleteStateObject kec obj s)
          else go_bind (updateRoot kec (sd_db s) obj) (\<lambda>obj'. updateStateObject kec obj' (setStateObject obj' s)))"

fun finalise_objects :: "(bytes \<Rightarrow> bytes) \<Rightarrow> bool \<Rightarrow> bytes list \<Rightarrow> state_db \<Rightarrow> state_db go" where
  "finalise_objects kec de [] s = Ret s"
| "finalise_objects kec de (a # as) s = go_bind (finalise_object kec de a s) (finalise_objects kec de as)"

definition Finalise :: "(bytes \<Rightarrow> bytes) \<Rightarrow> bool \<Rightarrow> state_db \<Rightarrow> state_db go" where
  "Finalise kec deleteEmptyObjects s =
     go_bind (finalise_objects kec deleteEmptyObjects (stateObjectsDirty s) s) (\<lambda>s1. Ret (clearJournalAndRefund s1))"

definition IntermediateRoot :: "(bytes \<Rightarrow> bytes) \<Rightarrow> bool \<Rightarrow> state_db \<Rightarrow> (bytes \<times> state_db) go" where
  "IntermediateRoot kec deleteEmptyObjects s =
     go_bind (Finalise kec deleteEmptyObjects s) (\<lambda>s1.
       case Secure_Hash kec (sd_trie s1) of
         (Inl _, _) \<Rightarrow> Panic
       | (Inr h, tr) \<Rightarrow> Ret (h, s1\<lparr>sd_trie := tr\<rparr>))"

section \<open>Storage tries, copies and commits\<close>

definition Reset :: "(bytes \<Rightarrow> bytes) \<Rightarrow> bytes \<Rightarrow> state_db \<Rightarrow> (trie_error + unit) \<times> state_db" where
  "Reset kec root s =
     (case OpenTrie kec (sd_db s) root of
        (Inl e, db1) \<Rightarrow> (Inl e, s\<lparr>sd_db := db1\<rparr>)
      | (Inr tr, db1) \<Rightarrow>
          (Inr (), clearJournalAndRefund (s\<lparr>sd_db := db1, sd_trie := tr, stateObjects := [], stateObjectsDirty := [],
             sd_thash := replicate 32 0, sd_bhash := replicate 32 0, sd_txIndex := 0, sd_logs := [], sd_logSize := 0,
             sd_preimages := []\<rparr>)))"

definition StorageTrie :: "(bytes \<Rightarrow> bytes) \<Rightarrow> bytes \<Rightarrow> state_db \<Rightarrow> secure_trie option \<times> state_db" where
  "StorageTrie kec a s =
     (case getStateObject kec a s of
        (None, s1) \<Rightarrow> (None, s1)
      | (Some obj, s1) \<Rightarrow> (Some (fst (updateTrie kec (sd_db s1) (deepCopy kec obj False))), s1))"

text \<open>The copies of the dirty objects mark their addresses in the copy.  A dirty address without an
  object would be a nil pointer.\<close>

fun copy_objects :: "(bytes \<Rightarrow> bytes) \<Rightarrow> (bytes \<times> stateObject) list \<Rightarrow> bytes list \<Rightarrow> (bytes \<times> stateObject) list go" where
  "copy_objects kec objs [] = Ret []"
| "copy_objects kec objs (a # as) =
     (case map_of objs a of
        None \<Rightarrow> Panic
      | Some obj \<Rightarrow> go_bind (copy_objects kec objs as) (\<lambda>rest. Ret ((a, deepCopy kec obj True) # rest)))"

definition State_Copy :: "(bytes \<Rightarrow> bytes) \<Rightarrow> state_db \<Rightarrow> state_db go" where
  "State_Copy kec s =
     go_bind (copy_objects kec (stateObjects s) (stateObjectsDirty s)) (\<lambda>objs.
       Ret \<lparr>sd_db = sd_db s, sd_trie = sd_trie s, stateObjects = objs, stateObjectsDirty = stateObjectsDirty s, sd_dbErr = None,
            sd_refund = sd_refund s, sd_thash = replicate 32 0, sd_bhash = replicate 32 0, sd_txIndex = 0, sd_logs = sd_logs s,
            sd_logSize = sd_logSize s, sd_preimages = sd_preimages s, sd_journal = [], validRevisions = [], nextRevisionId = 0\<rparr>)"

fun delete_suicides :: "bytes list \<Rightarrow> state_db \<Rightarrow> state_db go" where
  "delete_suicides [] s = Ret s"
| "delete_suicides (a # as) s =
     (case map_of (stateObjects s) a of
        None \<Rightarrow> Panic
      | Some obj \<Rightarrow> delete_suicides as (delete_dirty a (if suicided obj then setStateObject (obj\<lparr>deleted := True\<rparr>) s else s)))"

definition DeleteSuicides :: "state_db \<Rightarrow> state_db go" where
  "DeleteSuicides s = (let s1 = clearJournalAndRefund s in delete_suicides (stateObjectsDirty s1) s1)"

text \<open>Committing writes to a database \<open>dbw\<close> through \<open>put\<close>: the code, the storage trie and the entry of
  every dirty object, then the trie of the accounts.\<close>

definition commit_code :: "writer \<Rightarrow> stateObject \<times> database \<Rightarrow> (state_error + unit) \<times> stateObject \<times> database" where
  "commit_code put = (\<lambda>(obj, dbw).
     case so_code obj of
       Some code \<Rightarrow>
         if dirtyCode obj
         then (case db_put put (acc_CodeHash (so_data obj)) code dbw of
                 (Inl e, dbw1) \<Rightarrow> (Inl (TrieErr e), obj, dbw1)
               | (Inr _, dbw1) \<Rightarrow> (Inr (), obj\<lparr>dirtyCode := False\<rparr>, dbw1))
         else (Inr (), obj, dbw)
     | None \<Rightarrow> (Inr (), obj, dbw))"

definition commit_dirty :: "(bytes \<Rightarrow> bytes) \<Rightarrow> writer \<Rightarrow> stateObject \<Rightarrow> state_db \<times> database \<Rightarrow> ((state_error + unit) \<times> state_db \<times> database) go" where
  "commit_dirty kec put obj = (\<lambda>(s, dbw).
     case commit_code put (obj, dbw) of
       (Inl e, obj1, dbw1) \<Rightarrow> Ret (Inl e, setStateObject obj1 s, dbw1)
     | (Inr _, obj1, dbw1) \<Rightarrow>
         (case CommitTrie kec (sd_db s) put (obj1, dbw1) of
            (Inl e, obj2, dbw2) \<Rightarrow> Ret (Inl e, setStateObject obj2 s, dbw2)
          | (Inr _, obj2, dbw2) \<Rightarrow>
              go_bind (updateStateObject kec obj2 (setStateObject obj2 s)) (\<lambda>s1. Ret (Inr (), s1, dbw2))))"

definition commit_object :: "(bytes \<Rightarrow> bytes) \<Rightarrow> writer \<Rightarrow> bool \<Rightarrow> bytes \<times> stateObject \<Rightarrow> state_db \<times> database \<Rightarrow>
    ((state_error + unit) \<times> state_db \<times> database) go" where
  "commit_object kec put deleteEmptyObjects = (\<lambda>(addr, obj) (s, dbw).
     let isDirty = addr \<in> set (stateObjectsDirty s) in
     if suicided obj \<or> (isDirty \<and> deleteEmptyObjects \<and> empty_object kec obj)
     then Ret (Inr (), delete_dirty addr (deleteStateObject kec obj s), dbw)
     else if isDirty
     then go_bind (commit_dirty kec put obj (s, dbw)) (\<lambda>(r, s1, dbw1).
       Ret (case r of Inl e \<Rightarrow> (Inl e, s1, dbw1) | Inr _ \<Rightarrow> (Inr (), delete_dirty addr s1, dbw1)))
     else Ret (Inr (), delete_dirty addr s, dbw))"

fun commit_objects :: "(bytes \<Rightarrow> bytes) \<Rightarrow> writer \<Rightarrow> bool \<Rightarrow> (bytes \<times> stateObject) list \<Rightarrow> state_db \<times> database \<Rightarrow>
    ((state_error + unit) \<times> state_db \<times> database) go" where
  "commit_objects kec put de [] sd = Ret (Inr (), sd)"
| "commit_objects kec put de (x # xs) sd =
     go_bind (commit_object kec put de x sd) (\<lambda>(r, sd1).
       case r of Inl e \<Rightarrow> Ret (Inl e, sd1) | Inr _ \<Rightarrow> commit_objects kec put de xs sd1)"

text \<open>The trie of the accounts is a \<open>cachedTrie\<close>: when its commit succeeds it joins the past tries.\<close>

definition cachedTrie_CommitTo :: "(bytes \<Rightarrow> bytes) \<Rightarrow> writer \<Rightarrow> state_db \<times> database \<Rightarrow> (state_error + bytes) \<times> state_db \<times> database" where
  "cachedTrie_CommitTo kec put = (\<lambda>(s, dbw).
     case Secure_CommitTo kec put (sd_trie s, dbw) of
       (Inl e, tr, dbw1) \<Rightarrow> (Inl (TrieErr e), s\<lparr>sd_trie := tr\<rparr>, dbw1)
     | (Inr root, tr, dbw1) \<Rightarrow> (Inr root, s\<lparr>sd_trie := tr, sd_db := pushTrie tr (sd_db s)\<rparr>, dbw1))"

definition State_CommitTo :: "(bytes \<Rightarrow> bytes) \<Rightarrow> writer \<Rightarrow> bool \<Rightarrow> state_db \<times> database \<Rightarrow> ((state_error + bytes) \<times> state_db \<times> database) go" where
  "State_CommitTo kec put deleteEmptyObjects = (\<lambda>(s, dbw).
     go_bind (commit_objects kec put deleteEmptyObjects (stateObjects s) (s, dbw)) (\<lambda>(r, s1, dbw1).
       case r of
         Inl e \<Rightarrow> Ret (Inl e, clearJournalAndRefund s1, dbw1)
       | Inr _ \<Rightarrow>
           (case cachedTrie_CommitTo kec put (s1, dbw1) of (res, s2, dbw2) \<Rightarrow> Ret (res, clearJournalAndRefund s2, dbw2))))"

end
