(* ===== verification/State_View.thy ===== *)
theory State_View
  imports State_Db
begin

text \<open>
  What the state shows: a world of accounts with balances, nonces, code and storage, the refund, the
  logs and the preimages.  The caches, the dirty marks and the tries behind it are not seen.  This
  theory shows that reading does not change the world, and what every operation of an object does to
  the account it shows.
\<close>

section \<open>The world\<close>

record acct =
  w_nonce :: u64
  w_balance :: int
  w_codehash :: bytes
  w_code :: bytes
  w_storage :: "bytes \<Rightarrow> bytes"
  w_suicided :: bool

record world =
  w_acct :: "bytes \<Rightarrow> acct option"
  w_refund :: int
  w_logs :: "bytes \<Rightarrow> Log list"
  w_logSize :: nat
  w_preimages :: "bytes \<Rightarrow> bytes option"

definition empty_acct :: "(bytes \<Rightarrow> bytes) \<Rightarrow> acct" where
  "empty_acct kec = \<lparr>w_nonce = 0, w_balance = 0, w_codehash = kec [], w_code = [], w_storage = (\<lambda>_. replicate 32 0), w_suicided = False\<rparr>"

definition acct_at :: "(bytes \<Rightarrow> bytes) \<Rightarrow> world \<Rightarrow> bytes \<Rightarrow> acct" where
  "acct_at kec w a = (case w_acct w a of Some x \<Rightarrow> x | None \<Rightarrow> empty_acct kec)"

definition set_acct :: "bytes \<Rightarrow> acct \<Rightarrow> world \<Rightarrow> world" where
  "set_acct a x w = w\<lparr>w_acct := (w_acct w)(a \<mapsto> x)\<rparr>"

section \<open>The account an object shows\<close>

definition obj_trie :: "cachingDB \<Rightarrow> stateObject \<Rightarrow> secure_trie" where
  "obj_trie cdb c =
     (case so_trie c of
        Some t \<Rightarrow> t
      | None \<Rightarrow> (case OpenStorageTrie cdb (acc_Root (so_data c)) of Inr t \<Rightarrow> t | Inl _ \<Rightarrow> empty_storage_trie))"

definition obj_storage :: "(bytes \<Rightarrow> bytes) \<Rightarrow> cachingDB \<Rightarrow> stateObject \<Rightarrow> bytes \<Rightarrow> bytes" where
  "obj_storage kec cdb c key =
     (case map_of (cachedStorage c) key of
        Some v \<Rightarrow> v
      | None \<Rightarrow> fst (storage_value (secure_map kec (cd_db cdb) (obj_trie cdb c) key)))"

definition obj_code :: "(bytes \<Rightarrow> bytes) \<Rightarrow> cachingDB \<Rightarrow> stateObject \<Rightarrow> bytes" where
  "obj_code kec cdb c = (case fst (obj_Code kec cdb c) of None \<Rightarrow> [] | Some code \<Rightarrow> code)"

definition obj_view :: "(bytes \<Rightarrow> bytes) \<Rightarrow> cachingDB \<Rightarrow> stateObject \<Rightarrow> acct" where
  "obj_view kec cdb c =
     \<lparr>w_nonce = acc_Nonce (so_data c), w_balance = acc_Balance (so_data c), w_codehash = acc_CodeHash (so_data c),
      w_code = obj_code kec cdb c, w_storage = obj_storage kec cdb c, w_suicided = suicided c\<rparr>"

section \<open>Well-formed objects\<close>

text \<open>Code is stored under its hash and is shorter than memory can be.\<close>

definition code_limit :: nat where
  "code_limit = 2 ^ 41"

definition code_fits :: "(bytes \<Rightarrow> bytes) \<Rightarrow> cachingDB \<Rightarrow> bytes option \<Rightarrow> bytes \<Rightarrow> bool" where
  "code_fits kec cdb code h \<longleftrightarrow> length h = 32 \<and>
     (case code of
        Some c \<Rightarrow> kec c = h \<and> c \<noteq> [] \<and> length c < code_limit
      | None \<Rightarrow> h = kec [] \<or> (\<exists>c. cd_db cdb h = Some c \<and> kec c = h \<and> c \<noteq> [] \<and> length c < code_limit))"

definition obj_ok :: "(bytes \<Rightarrow> bytes) \<Rightarrow> cachingDB \<Rightarrow> bytes \<Rightarrow> stateObject \<Rightarrow> bool" where
  "obj_ok kec cdb a c \<longleftrightarrow> so_address c = a \<and> 0 \<le> acc_Balance (so_data c) \<and>
     code_fits kec cdb (so_code c) (acc_CodeHash (so_data c)) \<and> secure_ok (cd_db cdb) (obj_trie cdb c) \<and>
     (\<forall>v \<in> ran (map_of (cachedStorage c)). length v = 32)"

lemma storage_value_length [simp]: "length (fst (storage_value e)) = 32"
  by (auto simp: storage_value_def split: option.split sum.split)

lemma obj_storage_length: "obj_ok kec cdb a c \<Longrightarrow> length (obj_storage kec cdb c k) = 32"
  by (auto simp: obj_ok_def obj_storage_def ranI split: option.split)

lemma obj_setError_simps [simp]:
  "so_address (obj_setError e c) = so_address c" "so_data (obj_setError e c) = so_data c" "so_trie (obj_setError e c) = so_trie c"
  "so_code (obj_setError e c) = so_code c" "cachedStorage (obj_setError e c) = cachedStorage c" "dirtyStorage (obj_setError e c) = dirtyStorage c"
  "suicided (obj_setError e c) = suicided c" "deleted (obj_setError e c) = deleted c" "onDirty (obj_setError e c) = onDirty c"
  "touched (obj_setError e c) = touched c"
  by (simp_all add: obj_setError_def)

lemma obj_trie_cong: "so_trie c = so_trie d \<Longrightarrow> acc_Root (so_data c) = acc_Root (so_data d) \<Longrightarrow> obj_trie cdb c = obj_trie cdb d"
  by (simp only: obj_trie_def)

lemma obj_storage_cong: "cachedStorage c = cachedStorage d \<Longrightarrow> so_trie c = so_trie d \<Longrightarrow> acc_Root (so_data c) = acc_Root (so_data d)
  \<Longrightarrow> obj_storage kec cdb c = obj_storage kec cdb d"
  by (rule ext) (simp only: obj_storage_def obj_trie_cong [of c d])

lemma obj_code_cong: "so_code c = so_code d \<Longrightarrow> acc_CodeHash (so_data c) = acc_CodeHash (so_data d) \<Longrightarrow> obj_code kec cdb c = obj_code kec cdb d"
  by (auto simp: obj_code_def obj_Code_def split: option.splits sum.splits)

lemma getTrie_obj: "getTrie cdb c = (t, c') \<Longrightarrow> t = obj_trie cdb c \<and> so_trie c' = Some t \<and> so_address c' = so_address c \<and>
  so_data c' = so_data c \<and> so_code c' = so_code c \<and> cachedStorage c' = cachedStorage c \<and> dirtyStorage c' = dirtyStorage c \<and>
  suicided c' = suicided c \<and> deleted c' = deleted c \<and> onDirty c' = onDirty c \<and> touched c' = touched c"
  by (auto simp: getTrie_def obj_trie_def split: option.splits sum.splits)

text \<open>Objects that differ in caches only.\<close>

definition same_obj :: "(bytes \<Rightarrow> bytes) \<Rightarrow> cachingDB \<Rightarrow> stateObject \<Rightarrow> stateObject \<Rightarrow> bool" where
  "same_obj kec cdb c d \<longleftrightarrow> obj_view kec cdb d = obj_view kec cdb c \<and> so_address d = so_address c \<and> deleted d = deleted c \<and>
     (obj_ok kec cdb (so_address c) c \<longrightarrow> obj_ok kec cdb (so_address d) d)"

lemma same_obj_refl [simp]: "same_obj kec cdb c c"
  by (simp add: same_obj_def)

lemma storage_cached:
  assumes "map_of (cachedStorage d) = map_of (cachedStorage c) \<or>
      map_of (cachedStorage d) = (map_of (cachedStorage c))(key \<mapsto> fst (storage_value (secure_map kec (cd_db cdb) (obj_trie cdb c) key)))"
    and "map_of (cachedStorage c) key = None" and "secure_map kec (cd_db cdb) (obj_trie cdb d) = secure_map kec (cd_db cdb) (obj_trie cdb c)"
  shows "obj_storage kec cdb d = obj_storage kec cdb c"
  by (rule ext) (use assms in \<open>auto simp: obj_storage_def split: option.splits if_splits\<close>)

lemma obj_GetState_ok:
  assumes ok: "obj_ok kec cdb a c" and g: "obj_GetState kec cdb key c = (v, d)"
  shows "v = w_storage (obj_view kec cdb c) key \<and> same_obj kec cdb c d"
proof (cases "map_of (cachedStorage c) key")
  case None
  obtain t c2 where t: "getTrie cdb c = (t, c2)" by fastforce
  note c2 = getTrie_obj [OF t]
  have "secure_ok (cd_db cdb) t" using ok c2 by (simp add: obj_ok_def)
  then obtain t1 where t1: "Secure_TryGet kec (cd_db cdb) t key = (Inr (secure_map kec (cd_db cdb) t key), t1)"
    "secure_ok (cd_db cdb) t1" "secure_map kec (cd_db cdb) t1 = secure_map kec (cd_db cdb) t"
    by (rule Secure_TryGet_spec)
  obtain u err where u: "storage_value (secure_map kec (cd_db cdb) t key) = (u, err)" by fastforce
  define c3 where "c3 = obj_setError err (c2\<lparr>so_trie := Some t1\<rparr>)"
  have d: "v = u" "d = (if u \<noteq> replicate 32 0 then c3\<lparr>cachedStorage := AList.update key u (cachedStorage c3)\<rparr> else c3)"
    using g None by (auto simp: obj_GetState_def t t1(1) u c3_def Let_def)
  have ot: "obj_trie cdb d = t1" by (simp add: obj_trie_def d c3_def)
  have tc: "t = obj_trie cdb c" and cc: "cachedStorage c3 = cachedStorage c" using c2 by (simp_all add: c3_def)
  have "map_of (cachedStorage d) = map_of (cachedStorage c) \<or> map_of (cachedStorage d) = (map_of (cachedStorage c))(key \<mapsto> u)"
    by (simp add: d(2) cc update_conv')
  then have st: "obj_storage kec cdb d = obj_storage kec cdb c"
    by (intro storage_cached [of d c key]) (use None ot t1(3) u tc in simp_all)
  have cd: "obj_code kec cdb d = obj_code kec cdb c" by (rule obj_code_cong) (use c2 in \<open>simp_all add: d c3_def\<close>)
  have "obj_view kec cdb d = obj_view kec cdb c" using c2 st cd by (simp add: obj_view_def d c3_def)
  moreover have "length u = 32" using storage_value_length [of "secure_map kec (cd_db cdb) t key"] u by simp
  then have "\<forall>x \<in> ran (map_of (cachedStorage d)). length x = 32"
    using ok cc None by (auto simp: d(2) obj_ok_def update_conv')
  then have "obj_ok kec cdb (so_address d) d" using ok ot t1(2) c2 by (simp add: obj_ok_def d c3_def)
  moreover have "so_address d = so_address c" "deleted d = deleted c" using c2 by (simp_all add: d c3_def)
  ultimately have "same_obj kec cdb c d" by (simp add: same_obj_def)
  moreover have "v = w_storage (obj_view kec cdb c) key" using None u c2 by (simp add: obj_view_def obj_storage_def d)
  ultimately show ?thesis by blast
qed (use g in \<open>auto simp: obj_GetState_def obj_view_def obj_storage_def\<close>)

lemma obj_Code_ok:
  assumes ok: "obj_ok kec cdb a c" and g: "obj_Code kec cdb c = (code, d)"
  shows "w_code (obj_view kec cdb c) = (case code of None \<Rightarrow> [] | Some x \<Rightarrow> x) \<and> same_obj kec cdb c d \<and>
    code_fits kec cdb code (acc_CodeHash (so_data d)) \<and> acc_CodeHash (so_data d) = acc_CodeHash (so_data c) \<and>
    (code = None \<longrightarrow> acc_CodeHash (so_data c) = kec [])"
proof -
  have fits: "code_fits kec cdb (so_code c) (acc_CodeHash (so_data c))" using ok by (simp add: obj_ok_def)
  have view: "w_code (obj_view kec cdb c) = (case code of None \<Rightarrow> [] | Some x \<Rightarrow> x)"
    using g by (simp add: obj_view_def obj_code_def)
  have d: "(d = c \<and> (code = so_code c) \<and> (code = None \<longrightarrow> acc_CodeHash (so_data c) = kec [])) \<or>
      (\<exists>x. code = Some x \<and> d = c\<lparr>so_code := Some x\<rparr> \<and> so_code c = None \<and> acc_CodeHash (so_data c) \<noteq> kec [] \<and> cd_db cdb (acc_CodeHash (so_data c)) = Some x)"
  proof (cases "so_code c = None \<and> acc_CodeHash (so_data c) \<noteq> kec []")
    case True
    then obtain x where x: "cd_db cdb (acc_CodeHash (so_data c)) = Some x" "length (acc_CodeHash (so_data c)) = 32"
      using fits by (auto simp: code_fits_def)
    then have "code = Some x" "d = c\<lparr>so_code := Some x\<rparr>" using g True by (auto simp: obj_Code_def emptyCodeHash_def ContractCode_def)
    then show ?thesis using True x by blast
  qed (use g in \<open>auto simp: obj_Code_def emptyCodeHash_def split: option.splits\<close>)
  then show ?thesis
  proof (elim disjE exE conjE)
    fix x assume x: "code = Some x" "d = c\<lparr>so_code := Some x\<rparr>" "so_code c = None" "acc_CodeHash (so_data c) \<noteq> kec []"
      "cd_db cdb (acc_CodeHash (so_data c)) = Some x"
    have f: "code_fits kec cdb (Some x) (acc_CodeHash (so_data c))" using fits x by (auto simp: code_fits_def)
    have len: "length (acc_CodeHash (so_data c)) = 32" using fits by (simp add: code_fits_def)
    have ot: "obj_trie cdb d = obj_trie cdb c" by (rule obj_trie_cong) (simp_all add: x)
    have st: "obj_storage kec cdb d = obj_storage kec cdb c" by (rule obj_storage_cong) (simp_all add: x)
    have "obj_code kec cdb d = obj_code kec cdb c" using x len by (simp add: obj_code_def obj_Code_def emptyCodeHash_def ContractCode_def)
    then have "same_obj kec cdb c d" using ot st f x by (simp add: same_obj_def obj_view_def obj_ok_def)
    moreover have "code_fits kec cdb code (acc_CodeHash (so_data d))" "acc_CodeHash (so_data d) = acc_CodeHash (so_data c)" "code \<noteq> None"
      using f x(1,2) by simp_all
    ultimately show ?thesis using view by blast
  next
    assume h: "d = c" "code = so_code c" "code = None \<longrightarrow> acc_CodeHash (so_data c) = kec []"
    show ?thesis using view fits h(3) same_obj_refl unfolding h(1,2) by blast
  qed
qed

section \<open>Setting the fields of an object\<close>

text \<open>The state changes in its dirty marks and its journal only.\<close>

definition only_marks :: "state_db \<Rightarrow> state_db \<Rightarrow> bool" where
  "only_marks s s' \<longleftrightarrow> (\<exists>d. s' = s\<lparr>stateObjectsDirty := d\<rparr>)"

lemma call_onDirty_ok: "call_onDirty c s = (d, s') \<Longrightarrow> only_marks s s' \<and> (d = c \<or> d = c\<lparr>onDirty := False\<rparr>)"
  by (auto simp: call_onDirty_def MarkStateObjectDirty_def only_marks_def split: if_splits intro: exI [of _ "stateObjectsDirty s"])

lemma onDirty_view [simp]: "obj_view kec cdb (c\<lparr>onDirty := b\<rparr>) = obj_view kec cdb c" "obj_ok kec cdb a (c\<lparr>onDirty := b\<rparr>) = obj_ok kec cdb a c"
proof -
  have "obj_trie cdb (c\<lparr>onDirty := b\<rparr>) = obj_trie cdb c" "obj_storage kec cdb (c\<lparr>onDirty := b\<rparr>) = obj_storage kec cdb c"
    "obj_code kec cdb (c\<lparr>onDirty := b\<rparr>) = obj_code kec cdb c"
    by (auto intro: obj_trie_cong obj_storage_cong obj_code_cong)
  then show "obj_view kec cdb (c\<lparr>onDirty := b\<rparr>) = obj_view kec cdb c" "obj_ok kec cdb a (c\<lparr>onDirty := b\<rparr>) = obj_ok kec cdb a c"
    by (simp_all add: obj_view_def obj_ok_def)
qed

lemma flags_view [simp]: "obj_view kec cdb (c\<lparr>touched := b\<rparr>) = obj_view kec cdb c" "obj_ok kec cdb a (c\<lparr>touched := b\<rparr>) = obj_ok kec cdb a c"
  "obj_view kec cdb (c\<lparr>suicided := b\<rparr>) = (obj_view kec cdb c)\<lparr>w_suicided := b\<rparr>" "obj_ok kec cdb a (c\<lparr>suicided := b\<rparr>) = obj_ok kec cdb a c"
proof -
  have e: "obj_trie cdb (c\<lparr>touched := b\<rparr>) = obj_trie cdb c" "obj_storage kec cdb (c\<lparr>touched := b\<rparr>) = obj_storage kec cdb c"
    "obj_code kec cdb (c\<lparr>touched := b\<rparr>) = obj_code kec cdb c" "obj_trie cdb (c\<lparr>suicided := b\<rparr>) = obj_trie cdb c"
    "obj_storage kec cdb (c\<lparr>suicided := b\<rparr>) = obj_storage kec cdb c" "obj_code kec cdb (c\<lparr>suicided := b\<rparr>) = obj_code kec cdb c"
    by (auto intro: obj_trie_cong obj_storage_cong obj_code_cong)
  show "obj_view kec cdb (c\<lparr>touched := b\<rparr>) = obj_view kec cdb c" "obj_ok kec cdb a (c\<lparr>touched := b\<rparr>) = obj_ok kec cdb a c"
    "obj_view kec cdb (c\<lparr>suicided := b\<rparr>) = (obj_view kec cdb c)\<lparr>w_suicided := b\<rparr>" "obj_ok kec cdb a (c\<lparr>suicided := b\<rparr>) = obj_ok kec cdb a c"
    using e by (simp_all add: obj_view_def obj_ok_def)
qed

lemma data_view:
  assumes "acc_Root x = acc_Root (so_data c)" and "acc_CodeHash x = acc_CodeHash (so_data c)"
  shows "obj_view kec cdb (c\<lparr>so_data := x\<rparr>) = (obj_view kec cdb c)\<lparr>w_nonce := acc_Nonce x, w_balance := acc_Balance x\<rparr>"
    "obj_ok kec cdb a c \<Longrightarrow> 0 \<le> acc_Balance x \<Longrightarrow> obj_ok kec cdb a (c\<lparr>so_data := x\<rparr>)"
proof -
  have e: "obj_trie cdb (c\<lparr>so_data := x\<rparr>) = obj_trie cdb c" "obj_storage kec cdb (c\<lparr>so_data := x\<rparr>) = obj_storage kec cdb c"
    "obj_code kec cdb (c\<lparr>so_data := x\<rparr>) = obj_code kec cdb c"
    using assms by (auto intro: obj_trie_cong obj_storage_cong obj_code_cong)
  show "obj_view kec cdb (c\<lparr>so_data := x\<rparr>) = (obj_view kec cdb c)\<lparr>w_nonce := acc_Nonce x, w_balance := acc_Balance x\<rparr>"
    using e assms by (simp add: obj_view_def)
  assume "obj_ok kec cdb a c" "0 \<le> acc_Balance x"
  then show "obj_ok kec cdb a (c\<lparr>so_data := x\<rparr>)" using e assms by (simp add: obj_ok_def)
qed

text \<open>A setter of an object: what it makes of the account, when it keeps the object well formed.\<close>

definition setter :: "(bytes \<Rightarrow> bytes) \<Rightarrow> cachingDB \<Rightarrow> (stateObject \<Rightarrow> state_db \<Rightarrow> stateObject \<times> state_db) \<Rightarrow> (acct \<Rightarrow> acct) \<Rightarrow> bool" where
  "setter kec cdb f g \<longleftrightarrow> (\<forall>a c s d s'. f c s = (d, s') \<longrightarrow> obj_ok kec cdb a c \<longrightarrow>
     only_marks s s' \<and> obj_view kec cdb d = g (obj_view kec cdb c) \<and> obj_ok kec cdb a d \<and> deleted d = deleted c)"

lemma setterI:
  assumes "\<And>a c s. obj_ok kec cdb a c \<Longrightarrow> f c s = call_onDirty (h c) s \<and> obj_view kec cdb (h c) = g (obj_view kec cdb c) \<and>
    obj_ok kec cdb a (h c) \<and> deleted (h c) = deleted c"
  shows "setter kec cdb f g"
  unfolding setter_def
proof (intro allI impI)
  fix a c s d s' assume f: "f c s = (d, s')" and ok: "obj_ok kec cdb a c"
  from assms [OF ok, of s] f have "call_onDirty (h c) s = (d, s')" by simp
  from call_onDirty_ok [OF this] assms [OF ok, of s]
  show "only_marks s s' \<and> obj_view kec cdb d = g (obj_view kec cdb c) \<and> obj_ok kec cdb a d \<and> deleted d = deleted c" by auto
qed

lemma obj_ok_balance: "obj_ok kec cdb a c \<Longrightarrow> 0 \<le> acc_Balance (so_data c)"
  by (simp add: obj_ok_def)

lemma setBalance_setter: "0 \<le> v \<Longrightarrow> setter kec cdb (obj_setBalance v) (\<lambda>x. x\<lparr>w_balance := v\<rparr>)"
  by (rule setterI [where h = "\<lambda>c. c\<lparr>so_data := (so_data c)\<lparr>acc_Balance := v\<rparr>\<rparr>"])
    (simp add: obj_setBalance_def data_view, simp add: obj_view_def)

lemma setNonce_setter: "setter kec cdb (obj_setNonce v) (\<lambda>x. x\<lparr>w_nonce := v\<rparr>)"
  by (rule setterI [where h = "\<lambda>c. c\<lparr>so_data := (so_data c)\<lparr>acc_Nonce := v\<rparr>\<rparr>"])
    (simp add: obj_setNonce_def data_view obj_ok_balance, simp add: obj_view_def)

lemma setCode_setter:
  assumes "code_fits kec cdb code h" and "code = None \<longrightarrow> h = kec []"
  shows "setter kec cdb (obj_setCode h code) (\<lambda>x. x\<lparr>w_codehash := h, w_code := (case code of None \<Rightarrow> [] | Some c \<Rightarrow> c)\<rparr>)"
proof (rule setterI [where h = "\<lambda>c. c\<lparr>so_code := code, so_data := (so_data c)\<lparr>acc_CodeHash := h\<rparr>, dirtyCode := True\<rparr>"])
  fix a c s assume ok: "obj_ok kec cdb a c"
  let ?c = "c\<lparr>so_code := code, so_data := (so_data c)\<lparr>acc_CodeHash := h\<rparr>, dirtyCode := True\<rparr>"
  have "obj_trie cdb ?c = obj_trie cdb c" "obj_storage kec cdb ?c = obj_storage kec cdb c"
    by (auto intro: obj_trie_cong obj_storage_cong)
  moreover have "obj_code kec cdb ?c = (case code of None \<Rightarrow> [] | Some c \<Rightarrow> c)"
    using assms(2) by (simp add: obj_code_def obj_Code_def emptyCodeHash_def split: option.split)
  ultimately show "obj_setCode h code c s = call_onDirty ?c s \<and>
    obj_view kec cdb ?c = (obj_view kec cdb c)\<lparr>w_codehash := h, w_code := (case code of None \<Rightarrow> [] | Some c \<Rightarrow> c)\<rparr> \<and>
    obj_ok kec cdb a ?c \<and> deleted ?c = deleted c"
    using ok assms(1) by (simp add: obj_setCode_def obj_view_def obj_ok_def)
qed

lemma setState_setter: "length v = 32 \<Longrightarrow> setter kec cdb (obj_setState key v) (\<lambda>x. x\<lparr>w_storage := (w_storage x)(key := v)\<rparr>)"
proof (rule setterI [where h = "\<lambda>c. c\<lparr>cachedStorage := AList.update key v (cachedStorage c), dirtyStorage := AList.update key v (dirtyStorage c)\<rparr>"])
  fix a c s assume v: "length v = 32" and ok: "obj_ok kec cdb a c"
  let ?c = "c\<lparr>cachedStorage := AList.update key v (cachedStorage c), dirtyStorage := AList.update key v (dirtyStorage c)\<rparr>"
  have t: "obj_trie cdb ?c = obj_trie cdb c" "obj_code kec cdb ?c = obj_code kec cdb c"
    by (auto intro: obj_trie_cong obj_code_cong)
  have "obj_storage kec cdb ?c = (obj_storage kec cdb c)(key := v)"
    by (rule ext) (auto simp: obj_storage_def update_conv' t(1) split: option.splits)
  then show "obj_setState key v c s = call_onDirty ?c s \<and>
    obj_view kec cdb ?c = (obj_view kec cdb c)\<lparr>w_storage := (w_storage (obj_view kec cdb c))(key := v)\<rparr> \<and>
    obj_ok kec cdb a ?c \<and> deleted ?c = deleted c"
    using ok t v by (auto simp: obj_setState_def obj_view_def obj_ok_def update_conv' ran_def)
qed

section \<open>New objects\<close>

lemma empty_storage_ok: "secure_ok db empty_storage_trie" "secure_map kec db empty_storage_trie k = None"
  by (simp_all add: secure_ok_def trie_wf_def empty_storage_trie_def secure_map_def trie_map_def TryGet_def Let_def)

lemma newObject_simps [simp]:
  "so_address (newObject kec a x b) = a" "so_data (newObject kec a x b) = x" "so_trie (newObject kec a x b) = None"
  "so_code (newObject kec a x b) = None" "cachedStorage (newObject kec a x b) = []" "deleted (newObject kec a x b) = False"
  "suicided (newObject kec a x b) = False" "onDirty (newObject kec a x b) = b"
  by (simp_all add: newObject_def)

lemma new_account_view:
  assumes "length (kec []) = 32"
  shows "obj_ok kec cdb a (newObject kec a (new_account kec) b)" "obj_view kec cdb (newObject kec a (new_account kec) b) = empty_acct kec"
proof -
  let ?c = "newObject kec a (new_account kec) b"
  have t: "obj_trie cdb ?c = empty_storage_trie" by (simp add: obj_trie_def new_account_def OpenStorageTrie_zero)
  show "obj_ok kec cdb a ?c" using assms t
    by (simp add: obj_ok_def new_account_def code_fits_def emptyCodeHash_def empty_storage_ok)
  have "obj_storage kec cdb ?c = (\<lambda>_. replicate 32 0)"
    by (rule ext) (simp add: obj_storage_def t empty_storage_ok storage_value_def)
  then show "obj_view kec cdb ?c = empty_acct kec"
    by (simp add: obj_view_def empty_acct_def obj_code_def obj_Code_def new_account_def emptyCodeHash_def)
qed

end
