(* ===== verification/State_Journal.thy ===== *)
theory State_Journal
  imports State_View
begin

text \<open>
  The journal undoes what the operations of the state did.  \<open>world\<close> is what a state shows,
  \<open>wundo\<close> is the effect of undoing one entry on it, and \<open>extends\<close> says that an operation has added
  the entries that lead back to where it started.
\<close>

section \<open>Well-formed states\<close>

definition base_map :: "(bytes \<Rightarrow> bytes) \<Rightarrow> state_db \<Rightarrow> bytes \<Rightarrow> bytes option" where
  "base_map kec s = secure_map kec (cd_db (sd_db s)) (sd_trie s)"

definition find_obj :: "(bytes \<Rightarrow> bytes) \<Rightarrow> (bytes \<Rightarrow> bytes option) \<Rightarrow> (bytes \<Rightarrow> stateObject option) \<Rightarrow> bytes \<Rightarrow> stateObject option" where
  "find_obj kec m objs a =
     (case objs a of
        Some c \<Rightarrow> if deleted c then None else Some c
      | None \<Rightarrow>
          (case m a of
             None \<Rightarrow> None
           | Some enc \<Rightarrow> (case decode_account enc of Inl _ \<Rightarrow> None | Inr x \<Rightarrow> Some (newObject kec a x True))))"

definition core_ok :: "(bytes \<Rightarrow> bytes) \<Rightarrow> state_db \<Rightarrow> bool" where
  "core_ok kec s \<longleftrightarrow> secure_ok (cd_db (sd_db s)) (sd_trie s) \<and>
     (\<forall>a c. map_of (stateObjects s) a = Some c \<longrightarrow> obj_ok kec (sd_db s) a c \<and> (deleted c \<longrightarrow> base_map kec s a = None)) \<and>
     (\<forall>a enc. base_map kec s a = Some enc \<longrightarrow> enc \<noteq> [] \<and>
        (\<exists>x. decode_account enc = Inr x \<and> obj_ok kec (sd_db s) a (newObject kec a x True))) \<and>
     (\<forall>code. cd_db (sd_db s) (kec []) = Some code \<longrightarrow> code = [])"

definition accts :: "(bytes \<Rightarrow> bytes) \<Rightarrow> state_db \<Rightarrow> bytes \<Rightarrow> acct option" where
  "accts kec s a = map_option (obj_view kec (sd_db s)) (find_obj kec (base_map kec s) (map_of (stateObjects s)) a)"

definition world :: "(bytes \<Rightarrow> bytes) \<Rightarrow> state_db \<Rightarrow> world" where
  "world kec s = \<lparr>w_acct = accts kec s, w_refund = sd_refund s, w_logs = (\<lambda>h. GetLogs h s), w_logSize = sd_logSize s,
     w_preimages = map_of (sd_preimages s)\<rparr>"

text \<open>The part of a state that no operation of a transaction changes.\<close>

definition same_env :: "(bytes \<Rightarrow> bytes) \<Rightarrow> state_db \<Rightarrow> state_db \<Rightarrow> bool" where
  "same_env kec s s' \<longleftrightarrow> sd_db s' = sd_db s \<and> base_map kec s' = base_map kec s \<and> validRevisions s' = validRevisions s \<and>
     nextRevisionId s' = nextRevisionId s \<and> sd_thash s' = sd_thash s \<and> sd_bhash s' = sd_bhash s \<and> sd_txIndex s' = sd_txIndex s"

lemma same_env_refl [simp]: "same_env kec s s"
  by (simp add: same_env_def)

lemma same_env_trans: "same_env kec s s' \<Longrightarrow> same_env kec s' s'' \<Longrightarrow> same_env kec s s''"
  by (simp add: same_env_def)

text \<open>A step that leaves the journal alone and ends in the world \<open>w\<close>.\<close>

definition goes :: "(bytes \<Rightarrow> bytes) \<Rightarrow> state_db \<Rightarrow> state_db \<Rightarrow> world \<Rightarrow> bool" where
  "goes kec s s' w \<longleftrightarrow> core_ok kec s' \<and> world kec s' = w \<and> same_env kec s s' \<and> sd_journal s' = sd_journal s"

lemma goes_trans: "goes kec s s' w \<Longrightarrow> goes kec s' s'' w' \<Longrightarrow> goes kec s s'' w'"
  by (auto simp: goes_def intro: same_env_trans)

lemma goes_refl: "core_ok kec s \<Longrightarrow> goes kec s s (world kec s)"
  by (simp add: goes_def)

lemma core_ok_obj: "core_ok kec s \<Longrightarrow> map_of (stateObjects s) a = Some c \<Longrightarrow> obj_ok kec (sd_db s) a c"
  by (simp add: core_ok_def)

lemma find_obj_ok:
  assumes "core_ok kec s" and "find_obj kec (base_map kec s) (map_of (stateObjects s)) a = Some c"
  shows "obj_ok kec (sd_db s) a c \<and> \<not> deleted c"
proof (cases "map_of (stateObjects s) a")
  case None
  with assms(2) obtain enc x where e: "base_map kec s a = Some enc" "decode_account enc = Inr x" "c = newObject kec a x True"
    by (auto simp: find_obj_def split: option.splits sum.splits)
  obtain y where "decode_account enc = Inr y" "obj_ok kec (sd_db s) a (newObject kec a y True)"
    using assms(1) e(1) unfolding core_ok_def by blast
  with e show ?thesis by simp
next
  case (Some d)
  then show ?thesis using assms by (auto simp: find_obj_def core_ok_def split: if_splits)
qed

lemma acct_Some: "core_ok kec s \<Longrightarrow> w_acct (world kec s) a = Some x \<longleftrightarrow>
    (\<exists>c. find_obj kec (base_map kec s) (map_of (stateObjects s)) a = Some c \<and> x = obj_view kec (sd_db s) c)"
  by (auto simp: world_def accts_def)

lemma acct_None: "w_acct (world kec s) a = None \<longleftrightarrow> find_obj kec (base_map kec s) (map_of (stateObjects s)) a = None"
  by (simp add: world_def accts_def)

lemma world_cong:
  assumes "accts kec s' = accts kec s" and "sd_refund s' = sd_refund s" and "sd_logs s' = sd_logs s" and "sd_logSize s' = sd_logSize s"
    and "sd_preimages s' = sd_preimages s"
  shows "world kec s' = world kec s"
  using assms by (simp add: world_def GetLogs_def)

section \<open>Steps on the objects\<close>

lemma setStateObject_goes:
  assumes ok: "core_ok kec s" and c: "obj_ok kec (sd_db s) a c" and d: "\<not> deleted c"
  shows "goes kec s (setStateObject c s) (set_acct a (obj_view kec (sd_db s) c) (world kec s))"
    "map_of (stateObjects (setStateObject c s)) a = Some c"
proof -
  let ?s = "setStateObject c s"
  have a: "so_address c = a" using c by (simp add: obj_ok_def)
  have objs: "map_of (stateObjects ?s) = (map_of (stateObjects s))(a \<mapsto> c)" by (simp add: setStateObject_def update_conv' a)
  have db: "sd_db ?s = sd_db s" "sd_trie ?s = sd_trie s" by (simp_all add: setStateObject_def)
  have base: "base_map kec ?s = base_map kec s" by (simp add: base_map_def db)
  have "core_ok kec ?s" using ok c d unfolding core_ok_def base db objs by simp
  moreover have "accts kec ?s = (accts kec s)(a \<mapsto> obj_view kec (sd_db s) c)"
    by (rule ext) (simp add: accts_def base db objs find_obj_def d)
  then have "world kec ?s = set_acct a (obj_view kec (sd_db s) c) (world kec s)"
    by (simp add: world_def set_acct_def setStateObject_def GetLogs_def)
  moreover have "same_env kec s ?s" by (simp add: same_env_def base db) (simp add: setStateObject_def)
  ultimately show "goes kec s ?s (set_acct a (obj_view kec (sd_db s) c) (world kec s))"
    by (simp add: goes_def) (simp add: setStateObject_def)
  show "map_of (stateObjects ?s) a = Some c" by (simp add: objs)
qed

lemma trie_goes:
  assumes ok: "core_ok kec s" and t: "secure_ok (cd_db (sd_db s)) t" "secure_map kec (cd_db (sd_db s)) t = base_map kec s"
  shows "goes kec s (setError e (s\<lparr>sd_trie := t\<rparr>)) (world kec s)" "goes kec s (s\<lparr>sd_trie := t\<rparr>) (world kec s)"
proof -
  have b: "base_map kec (setError e (s\<lparr>sd_trie := t\<rparr>)) = base_map kec s" "base_map kec (s\<lparr>sd_trie := t\<rparr>) = base_map kec s"
    using t(2) by (simp_all add: base_map_def setError_def)
  have sel: "sd_db (setError e (s\<lparr>sd_trie := t\<rparr>)) = sd_db s" "stateObjects (setError e (s\<lparr>sd_trie := t\<rparr>)) = stateObjects s"
    "sd_trie (setError e (s\<lparr>sd_trie := t\<rparr>)) = t"
    by (simp_all add: setError_def)
  have "core_ok kec (setError e (s\<lparr>sd_trie := t\<rparr>))" "core_ok kec (s\<lparr>sd_trie := t\<rparr>)"
    using ok t(1) unfolding core_ok_def b sel by simp_all
  moreover have "accts kec (setError e (s\<lparr>sd_trie := t\<rparr>)) = accts kec s" "accts kec (s\<lparr>sd_trie := t\<rparr>) = accts kec s"
    by (rule ext, simp add: accts_def b sel)+
  then have "world kec (setError e (s\<lparr>sd_trie := t\<rparr>)) = world kec s" "world kec (s\<lparr>sd_trie := t\<rparr>) = world kec s"
    by (auto intro!: world_cong simp: setError_def)
  moreover have "same_env kec s (setError e (s\<lparr>sd_trie := t\<rparr>))" "same_env kec s (s\<lparr>sd_trie := t\<rparr>)"
    by (simp_all add: same_env_def b sel) (simp_all add: setError_def)
  ultimately show "goes kec s (setError e (s\<lparr>sd_trie := t\<rparr>)) (world kec s)" "goes kec s (s\<lparr>sd_trie := t\<rparr>) (world kec s)"
    by (simp_all add: goes_def) (simp add: setError_def)
qed

lemma set_acct_same: "w_acct w a = Some x \<Longrightarrow> set_acct a x w = w"
  by (simp add: set_acct_def fun_upd_idem)

text \<open>Looking up an object loads it and changes nothing that can be seen.\<close>

lemma getStateObject_goes:
  assumes ok: "core_ok kec s" and g: "getStateObject kec a s = (r, s1)"
  shows "r = find_obj kec (base_map kec s) (map_of (stateObjects s)) a" "goes kec s s1 (world kec s)"
    "r = Some c \<Longrightarrow> map_of (stateObjects s1) a = Some c"
proof -
  have "r = find_obj kec (base_map kec s) (map_of (stateObjects s)) a \<and> goes kec s s1 (world kec s) \<and>
      (\<forall>c. r = Some c \<longrightarrow> map_of (stateObjects s1) a = Some c)"
  proof (cases "map_of (stateObjects s) a")
    case (Some d)
    then show ?thesis using g ok by (auto simp: getStateObject_def find_obj_def goes_refl split: if_splits)
  next
    case None
    have "secure_ok (cd_db (sd_db s)) (sd_trie s)" using ok by (simp add: core_ok_def)
    then obtain t where t: "Secure_TryGet kec (cd_db (sd_db s)) (sd_trie s) a = (Inr (base_map kec s a), t)"
      "secure_ok (cd_db (sd_db s)) t" "secure_map kec (cd_db (sd_db s)) t = base_map kec s"
      unfolding base_map_def by (rule Secure_TryGet_spec)
    note tg = trie_goes [OF ok t(2,3)]
    show ?thesis
    proof (cases "base_map kec s a")
      case n: None
      then show ?thesis using g tg(1) [of None] None by (auto simp: getStateObject_def find_obj_def t(1) Let_def)
    next
      case enc: (Some enc)
      then obtain x where x: "enc \<noteq> []" "decode_account enc = Inr x" "obj_ok kec (sd_db s) a (newObject kec a x True)"
        using ok unfolding core_ok_def by blast
      let ?c = "newObject kec a x True" and ?s = "s\<lparr>sd_trie := t\<rparr>"
      have r: "r = Some ?c" "s1 = setStateObject ?c ?s" using g None enc x by (auto simp: getStateObject_def t(1) Let_def)
      have f: "find_obj kec (base_map kec s) (map_of (stateObjects s)) a = Some ?c" using None enc x by (simp add: find_obj_def)
      have ok': "core_ok kec ?s" and w: "world kec ?s = world kec s" using tg(2) by (simp_all add: goes_def)
      have "obj_ok kec (sd_db ?s) a ?c" using x(3) by simp
      from setStateObject_goes [OF ok' this] have
        st: "goes kec ?s s1 (set_acct a (obj_view kec (sd_db s) ?c) (world kec s))" "map_of (stateObjects s1) a = Some ?c"
        by (simp_all add: r w)
      have "w_acct (world kec s) a = Some (obj_view kec (sd_db s) ?c)" by (simp add: world_def accts_def f)
      then have "goes kec s s1 (world kec s)" using goes_trans [OF tg(2) st(1)] by (simp add: set_acct_same)
      then show ?thesis using r f st(2) by simp
    qed
  qed
  then show "r = find_obj kec (base_map kec s) (map_of (stateObjects s)) a" "goes kec s s1 (world kec s)"
    "r = Some c \<Longrightarrow> map_of (stateObjects s1) a = Some c" by blast+
qed

lemma marks_goes:
  assumes "core_ok kec s" and "only_marks s s'"
  shows "goes kec s s' (world kec s)" "map_of (stateObjects s') = map_of (stateObjects s)"
proof -
  obtain d where d: "s' = s\<lparr>stateObjectsDirty := d\<rparr>" using assms(2) by (auto simp: only_marks_def)
  have b: "base_map kec s' = base_map kec s" by (simp add: base_map_def d)
  have "core_ok kec s'" using assms(1) unfolding core_ok_def b by (simp add: d)
  moreover have "accts kec s' = accts kec s" by (rule ext) (simp add: accts_def b, simp add: d)
  then have "world kec s' = world kec s" by (rule world_cong) (simp_all add: d)
  ultimately show "goes kec s s' (world kec s)" by (simp add: goes_def same_env_def b) (simp add: d)
  show "map_of (stateObjects s') = map_of (stateObjects s)" by (simp add: d)
qed

lemma delete_dirty_marks: "only_marks s (delete_dirty a s)"
  by (auto simp: delete_dirty_def only_marks_def)

section \<open>Undoing an entry\<close>

definition change_acct :: "bytes \<Rightarrow> (acct \<Rightarrow> acct) \<Rightarrow> world \<Rightarrow> world option" where
  "change_acct a g w = (case w_acct w a of None \<Rightarrow> None | Some x \<Rightarrow> Some (set_acct a (g x) w))"

text \<open>\<open>None\<close> is an entry that cannot be undone.\<close>

fun wundo :: "(bytes \<Rightarrow> bytes) \<Rightarrow> cachingDB \<Rightarrow> journalEntry \<Rightarrow> world \<Rightarrow> world option" where
  "wundo kec cdb (createObjectChange a) w = Some (w\<lparr>w_acct := (w_acct w)(a := None)\<rparr>)"
| "wundo kec cdb (resetObjectChange p) w = Some (set_acct (so_address p) (obj_view kec cdb p) w)"
| "wundo kec cdb (suicideChange a prev b) w =
     (if w_acct w a = None then Some w else change_acct a (\<lambda>x. x\<lparr>w_suicided := prev, w_balance := b\<rparr>) w)"
| "wundo kec cdb (touchChange a prev pd) w = (if \<not> prev \<and> a \<noteq> ripemd then change_acct a (\<lambda>x. x) w else Some w)"
| "wundo kec cdb (balanceChange a v) w = change_acct a (\<lambda>x. x\<lparr>w_balance := v\<rparr>) w"
| "wundo kec cdb (nonceChange a v) w = change_acct a (\<lambda>x. x\<lparr>w_nonce := v\<rparr>) w"
| "wundo kec cdb (codeChange a pc ph) w =
     change_acct a (\<lambda>x. x\<lparr>w_codehash := ph, w_code := (case pc of None \<Rightarrow> [] | Some c \<Rightarrow> c)\<rparr>) w"
| "wundo kec cdb (storageChange a k v) w = change_acct a (\<lambda>x. x\<lparr>w_storage := (w_storage x)(k := v)\<rparr>) w"
| "wundo kec cdb (refundChange p) w = Some (w\<lparr>w_refund := p\<rparr>)"
| "wundo kec cdb (addLogChange h) w =
     (if w_logs w h = [] then None
      else Some (w\<lparr>w_logs := (w_logs w)(h := butlast (w_logs w h)), w_logSize := w_logSize w - 1\<rparr>))"
| "wundo kec cdb (addPreimageChange h) w = Some (w\<lparr>w_preimages := (w_preimages w)(h := None)\<rparr>)"

fun wundo_all :: "(bytes \<Rightarrow> bytes) \<Rightarrow> cachingDB \<Rightarrow> journalEntry list \<Rightarrow> world \<Rightarrow> world option" where
  "wundo_all kec cdb [] w = Some w"
| "wundo_all kec cdb (e # es) w = Option.bind (wundo_all kec cdb es w) (wundo kec cdb e)"

fun entry_ok :: "(bytes \<Rightarrow> bytes) \<Rightarrow> cachingDB \<Rightarrow> (bytes \<Rightarrow> bytes option) \<Rightarrow> journalEntry \<Rightarrow> bool" where
  "entry_ok kec cdb m (createObjectChange a) \<longleftrightarrow> m a = None"
| "entry_ok kec cdb m (resetObjectChange p) \<longleftrightarrow> obj_ok kec cdb (so_address p) p \<and> \<not> deleted p"
| "entry_ok kec cdb m (suicideChange a prev b) \<longleftrightarrow> 0 \<le> b"
| "entry_ok kec cdb m (balanceChange a b) \<longleftrightarrow> 0 \<le> b"
| "entry_ok kec cdb m (codeChange a pc ph) \<longleftrightarrow> code_fits kec cdb pc ph \<and> (pc = None \<longrightarrow> ph = kec [])"
| "entry_ok kec cdb m (storageChange a k v) \<longleftrightarrow> length v = 32"
| "entry_ok kec cdb m _ \<longleftrightarrow> True"

lemma wundo_all_append: "wundo_all kec cdb (es @ fs) w = Option.bind (wundo_all kec cdb fs w) (wundo_all kec cdb es)"
  by (induction es) (simp_all add: bind_assoc)

text \<open>A setter called on the object at an address.\<close>

lemma setter_goes:
  assumes ok: "core_ok kec s" and c: "map_of (stateObjects s) a = Some c" "\<not> deleted c" and f: "f c s = (d, s1)" and g: "setter kec (sd_db s) f g"
  shows "goes kec s (setStateObject d s1) (set_acct a (g (obj_view kec (sd_db s) c)) (world kec s))"
    "map_of (stateObjects (setStateObject d s1)) a = Some d \<and> \<not> deleted d \<and> obj_view kec (sd_db s) d = g (obj_view kec (sd_db s) c)"
proof -
  have d: "only_marks s s1" "obj_view kec (sd_db s) d = g (obj_view kec (sd_db s) c)" "obj_ok kec (sd_db s) a d" "deleted d = deleted c"
    using g f core_ok_obj [OF ok c(1)] unfolding setter_def by blast+
  from marks_goes [OF ok d(1)] have m: "goes kec s s1 (world kec s)" by blast
  then have ok1: "core_ok kec s1" "sd_db s1 = sd_db s" "world kec s1 = world kec s" by (simp_all add: goes_def same_env_def)
  have "obj_ok kec (sd_db s1) a d" "\<not> deleted d" using d c ok1 by simp_all
  from setStateObject_goes [OF ok1(1) this] goes_trans [OF m]
  show "goes kec s (setStateObject d s1) (set_acct a (g (obj_view kec (sd_db s) c)) (world kec s))"
    "map_of (stateObjects (setStateObject d s1)) a = Some d \<and> \<not> deleted d \<and> obj_view kec (sd_db s) d = g (obj_view kec (sd_db s) c)"
    using d c ok1 by auto
qed

lemma on_object_goes:
  assumes ok: "core_ok kec s" and g: "setter kec (sd_db s) f g" and w: "change_acct a g (world kec s) = Some w"
  shows "\<exists>s'. on_object kec a f s = Ret s' \<and> goes kec s s' w"
proof -
  obtain r s1 where r: "getStateObject kec a s = (r, s1)" by fastforce
  note go = getStateObject_goes [OF ok r]
  obtain x where x: "w_acct (world kec s) a = Some x" "w = set_acct a (g x) (world kec s)"
    using w by (auto simp: change_acct_def split: option.splits)
  then obtain c where c: "r = Some c" "x = obj_view kec (sd_db s) c" using go(1) acct_Some [OF ok] by auto
  have ok1: "core_ok kec s1" "sd_db s1 = sd_db s" "world kec s1 = world kec s" using go(2) by (simp_all add: goes_def same_env_def)
  obtain d s2 where f: "f c s1 = (d, s2)" by fastforce
  have "\<not> deleted c" using find_obj_ok [OF ok] go(1) c by auto
  from setter_goes(1) [where f = f and g = g, OF ok1(1) go(3) [OF c(1)] this f] g ok1 c x
  have "goes kec s1 (setStateObject d s2) w" by simp
  then have "goes kec s (setStateObject d s2) w" by (rule goes_trans [OF go(2)])
  then show ?thesis by (simp add: on_object_def r c f)
qed

lemma only_marks_refl: "only_marks s s"
  unfolding only_marks_def by (rule exI [of _ "stateObjectsDirty s"]) simp

lemma touched_setter: "setter kec cdb (\<lambda>c s. (c\<lparr>touched := b\<rparr>, s)) (\<lambda>x. x)"
  by (simp add: setter_def only_marks_refl)

lemma suicide_setter: "0 \<le> v \<Longrightarrow> setter kec cdb (\<lambda>c. obj_setBalance v (c\<lparr>suicided := b\<rparr>)) (\<lambda>x. x\<lparr>w_suicided := b, w_balance := v\<rparr>)"
  by (rule setterI [where h = "\<lambda>c. c\<lparr>suicided := b, so_data := (so_data c)\<lparr>acc_Balance := v\<rparr>\<rparr>"])
    (simp add: obj_setBalance_def data_view, simp add: obj_view_def)

lemma delete_object_goes:
  assumes ok: "core_ok kec s" and m: "base_map kec s a = None"
  shows "goes kec s (delete_object a s) ((world kec s)\<lparr>w_acct := (w_acct (world kec s))(a := None)\<rparr>)"
proof -
  let ?s = "delete_object a s"
  have sel: "sd_db ?s = sd_db s" "sd_trie ?s = sd_trie s" "map_of (stateObjects ?s) = (map_of (stateObjects s))(a := None)"
    by (simp_all add: delete_object_def delete_conv')
  have b: "base_map kec ?s = base_map kec s" by (simp add: base_map_def sel)
  have "core_ok kec ?s" using ok unfolding core_ok_def b sel by simp
  moreover have "accts kec ?s = (accts kec s)(a := None)" by (rule ext) (simp add: accts_def b sel find_obj_def m)
  then have "world kec ?s = (world kec s)\<lparr>w_acct := (w_acct (world kec s))(a := None)\<rparr>"
    by (simp add: world_def delete_object_def GetLogs_def)
  ultimately show ?thesis by (simp add: goes_def same_env_def b sel) (simp add: delete_object_def)
qed

text \<open>Steps that change the refund, the logs or the preimages.\<close>

lemma fields_goes:
  assumes "core_ok kec s"
  shows "goes kec s (s\<lparr>sd_refund := r\<rparr>) ((world kec s)\<lparr>w_refund := r\<rparr>)"
    "goes kec s (s\<lparr>sd_logs := ls, sd_logSize := n\<rparr>) ((world kec s)\<lparr>w_logs := (\<lambda>h. case map_of ls h of None \<Rightarrow> [] | Some l \<Rightarrow> l), w_logSize := n\<rparr>)"
    "goes kec s (s\<lparr>sd_preimages := ps\<rparr>) ((world kec s)\<lparr>w_preimages := map_of ps\<rparr>)"
proof -
  have b: "base_map kec (s\<lparr>sd_refund := r\<rparr>) = base_map kec s" "base_map kec (s\<lparr>sd_logs := ls, sd_logSize := n\<rparr>) = base_map kec s"
    "base_map kec (s\<lparr>sd_preimages := ps\<rparr>) = base_map kec s" by (simp_all add: base_map_def)
  have "core_ok kec (s\<lparr>sd_refund := r\<rparr>)" "core_ok kec (s\<lparr>sd_logs := ls, sd_logSize := n\<rparr>)" "core_ok kec (s\<lparr>sd_preimages := ps\<rparr>)"
    using assms unfolding core_ok_def b by simp_all
  moreover have "accts kec (s\<lparr>sd_refund := r\<rparr>) = accts kec s" "accts kec (s\<lparr>sd_logs := ls, sd_logSize := n\<rparr>) = accts kec s"
    "accts kec (s\<lparr>sd_preimages := ps\<rparr>) = accts kec s" by (rule ext, simp add: accts_def b)+
  ultimately show "goes kec s (s\<lparr>sd_refund := r\<rparr>) ((world kec s)\<lparr>w_refund := r\<rparr>)"
    "goes kec s (s\<lparr>sd_logs := ls, sd_logSize := n\<rparr>) ((world kec s)\<lparr>w_logs := (\<lambda>h. case map_of ls h of None \<Rightarrow> [] | Some l \<Rightarrow> l), w_logSize := n\<rparr>)"
    "goes kec s (s\<lparr>sd_preimages := ps\<rparr>) ((world kec s)\<lparr>w_preimages := map_of ps\<rparr>)"
    by (simp_all add: goes_def same_env_def b world_def GetLogs_def)
qed

lemma undo_goes:
  assumes ok: "core_ok kec s" and e: "entry_ok kec (sd_db s) (base_map kec s) e" and w: "wundo kec (sd_db s) e (world kec s) = Some w"
  shows "\<exists>s'. undo kec e s = Ret s' \<and> goes kec s s' w"
proof (cases e)
  case (createObjectChange a)
  with e have d: "goes kec s (delete_object a s) w" using delete_object_goes [OF ok, of a] w by simp
  then have "core_ok kec (delete_object a s)" "world kec (delete_object a s) = w" by (simp_all add: goes_def)
  with marks_goes(1) [OF _ delete_dirty_marks] goes_trans [OF d] show ?thesis by (auto simp: createObjectChange)
next
  case (resetObjectChange p)
  with e w setStateObject_goes(1) [OF ok] show ?thesis by auto
next
  case (suicideChange a prev b)
  obtain r s1 where r: "getStateObject kec a s = (r, s1)" by fastforce
  note go = getStateObject_goes [OF ok r]
  show ?thesis
  proof (cases r)
    case None
    then have "w_acct (world kec s) a = None" using go(1) by (simp add: acct_None)
    with w go(2) None r show ?thesis by (simp add: suicideChange)
  next
    case (Some c)
    then have "w_acct (world kec s) a \<noteq> None" using go(1) by (simp add: acct_None)
    then have "change_acct a (\<lambda>x. x\<lparr>w_suicided := prev, w_balance := b\<rparr>) (world kec s) = Some w" using w by (auto simp: suicideChange)
    from on_object_goes [OF ok suicide_setter this] e show ?thesis using r Some
      by (simp add: suicideChange on_object_def split: prod.splits)
  qed
next
  case (touchChange a prev pd)
  show ?thesis
  proof (cases "\<not> prev \<and> a \<noteq> ripemd")
    case True
    with w have "change_acct a (\<lambda>x. x) (world kec s) = Some w" by (simp add: touchChange)
    from on_object_goes [OF ok touched_setter this] obtain s1 where
      s1: "on_object kec a (\<lambda>obj s1. (obj\<lparr>touched := prev\<rparr>, s1)) s = Ret s1" "goes kec s s1 w" by blast
    then have c1: "core_ok kec s1" "world kec s1 = w" by (simp_all add: goes_def)
    have "goes kec s (delete_dirty a s1) w" using marks_goes(1) [OF c1(1) delete_dirty_marks] goes_trans [OF s1(2)] c1(2) by simp
    then show ?thesis using s1 True by (simp add: touchChange)
  qed (use w ok in \<open>auto simp: touchChange goes_refl\<close>)
next
  case (balanceChange a b)
  with on_object_goes [OF ok setBalance_setter] e w show ?thesis by simp
next
  case (nonceChange a v)
  with on_object_goes [OF ok setNonce_setter] w show ?thesis by simp
next
  case (storageChange a k v)
  with on_object_goes [OF ok setState_setter] e w show ?thesis by simp
next
  case (codeChange a pc ph)
  with on_object_goes [OF ok setCode_setter] e w show ?thesis by (simp add: code_fits_def)
next
  case (refundChange p)
  with w fields_goes(1) [OF ok] show ?thesis by auto
next
  case (addLogChange h)
  then have ne: "GetLogs h s \<noteq> []" and w': "w = (world kec s)\<lparr>w_logs := (\<lambda>h. GetLogs h s)(h := butlast (GetLogs h s)), w_logSize := sd_logSize s - 1\<rparr>"
    using w by (auto simp: world_def split: if_splits)
  show ?thesis
  proof (cases "length (GetLogs h s) = 1")
    case True
    then have bl: "butlast (GetLogs h s) = []" by (cases "GetLogs h s") auto
    have "(\<lambda>x. case map_of (AList.delete h (sd_logs s)) x of None \<Rightarrow> [] | Some l \<Rightarrow> l) = (\<lambda>h. GetLogs h s)(h := butlast (GetLogs h s))"
      by (rule ext) (simp add: delete_conv' bl, simp add: GetLogs_def)
    then show ?thesis using fields_goes(2) [OF ok, where ls = "AList.delete h (sd_logs s)" and n = "sd_logSize s - 1"] True
      by (simp add: addLogChange w')
  next
    case False
    have "(\<lambda>x. case map_of (AList.update h (butlast (GetLogs h s)) (sd_logs s)) x of None \<Rightarrow> [] | Some l \<Rightarrow> l)
        = (\<lambda>h. GetLogs h s)(h := butlast (GetLogs h s))"
      by (rule ext) (simp add: update_conv', simp add: GetLogs_def)
    then show ?thesis using fields_goes(2) [OF ok, where ls = "AList.update h (butlast (GetLogs h s)) (sd_logs s)" and n = "sd_logSize s - 1"] False ne
      by (simp add: addLogChange w')
  qed
next
  case (addPreimageChange h)
  then have "w = (world kec s)\<lparr>w_preimages := map_of (AList.delete h (sd_preimages s))\<rparr>" using w by (simp add: delete_conv' world_def)
  with fields_goes(3) [OF ok] show ?thesis by (simp add: addPreimageChange)
qed

lemma undo_all_goes:
  assumes "core_ok kec s" and "\<forall>e \<in> set es. entry_ok kec (sd_db s) (base_map kec s) e" and "wundo_all kec (sd_db s) es (world kec s) = Some w"
  shows "\<exists>s'. undo_all kec es s = Ret s' \<and> goes kec s s' w"
  using assms(2,3)
proof (induction es arbitrary: w)
  case Nil
  then show ?case using goes_refl [OF assms(1)] by simp
next
  case (Cons e es)
  then obtain w1 where w1: "wundo_all kec (sd_db s) es (world kec s) = Some w1" "wundo kec (sd_db s) e w1 = Some w"
    by (auto simp: bind_eq_Some_conv)
  from Cons.IH [OF _ w1(1)] Cons.prems(1) obtain s1 where s1: "undo_all kec es s = Ret s1" "goes kec s s1 w1" by auto
  then have c1: "core_ok kec s1" "world kec s1 = w1" "sd_db s1 = sd_db s" "base_map kec s1 = base_map kec s"
    by (simp_all add: goes_def same_env_def)
  from undo_goes [OF c1(1), of e w] Cons.prems(1) w1(2) obtain s2 where "undo kec e s1 = Ret s2" "goes kec s1 s2 w" by (auto simp: c1)
  then show ?case using s1 goes_trans by auto
qed

end
