(* ===== verification/State_Ops.thy ===== *)
theory State_Ops
  imports State_Journal
begin

text \<open>
  Every operation of the state has the effect on the world that its name says, and journals how to
  undo it: afterwards the state \<open>extends\<close> the state before.
\<close>

definition extends :: "(bytes \<Rightarrow> bytes) \<Rightarrow> state_db \<Rightarrow> state_db \<Rightarrow> bool" where
  "extends kec s s' \<longleftrightarrow> core_ok kec s' \<and> same_env kec s s' \<and>
     (\<exists>es. sd_journal s' = sd_journal s @ es \<and> (\<forall>e \<in> set es. entry_ok kec (sd_db s) (base_map kec s) e) \<and>
        wundo_all kec (sd_db s) es (world kec s') = Some (world kec s))"

lemma extends_trans:
  assumes "extends kec s s'" and "extends kec s' s''"
  shows "extends kec s s''"
proof -
  from assms(1) obtain es where es: "sd_journal s' = sd_journal s @ es" "\<forall>e \<in> set es. entry_ok kec (sd_db s) (base_map kec s) e"
    "wundo_all kec (sd_db s) es (world kec s') = Some (world kec s)" "same_env kec s s'" by (auto simp: extends_def)
  from assms(2) obtain fs where fs: "sd_journal s'' = sd_journal s' @ fs" "\<forall>e \<in> set fs. entry_ok kec (sd_db s) (base_map kec s) e"
    "wundo_all kec (sd_db s) fs (world kec s'') = Some (world kec s')" "core_ok kec s''" "same_env kec s' s''"
    using es(4) by (auto simp: extends_def same_env_def)
  have "sd_journal s'' = sd_journal s @ (es @ fs)" "\<forall>e \<in> set (es @ fs). entry_ok kec (sd_db s) (base_map kec s) e"
    "wundo_all kec (sd_db s) (es @ fs) (world kec s'') = Some (world kec s)"
    using es fs by (auto simp: wundo_all_append)
  then show ?thesis unfolding extends_def using fs(4) same_env_trans [OF es(4) fs(5)] by blast
qed

lemma goes_extends: "goes kec s s' (world kec s) \<Longrightarrow> extends kec s s'"
  unfolding extends_def goes_def by (auto intro!: exI [of _ "[]"])

lemma extends_refl: "core_ok kec s \<Longrightarrow> extends kec s s"
  by (rule goes_extends) (rule goes_refl)

lemma extends_core: "extends kec s s' \<Longrightarrow> core_ok kec s' \<and> sd_db s' = sd_db s \<and> base_map kec s' = base_map kec s"
  by (auto simp: extends_def same_env_def)

lemma goes_core: "goes kec s s' w \<Longrightarrow> core_ok kec s' \<and> sd_db s' = sd_db s \<and> base_map kec s' = base_map kec s \<and> world kec s' = w"
  by (auto simp: goes_def same_env_def)

lemma journal_facts:
  assumes "core_ok kec s"
  shows "core_ok kec (append_journal e s)" "world kec (append_journal e s) = world kec s" "same_env kec s (append_journal e s)"
    "sd_journal (append_journal e s) = sd_journal s @ [e]" "map_of (stateObjects (append_journal e s)) = map_of (stateObjects s)"
    "sd_db (append_journal e s) = sd_db s" "base_map kec (append_journal e s) = base_map kec s"
proof -
  show b: "base_map kec (append_journal e s) = base_map kec s" by (simp add: base_map_def append_journal_def)
  show "core_ok kec (append_journal e s)" using assms unfolding core_ok_def b by (simp add: append_journal_def)
  have "accts kec (append_journal e s) = accts kec s" by (rule ext) (simp add: accts_def b, simp add: append_journal_def)
  then show "world kec (append_journal e s) = world kec s" by (rule world_cong) (simp_all add: append_journal_def)
  show "same_env kec s (append_journal e s)" by (simp add: same_env_def b) (simp add: append_journal_def)
qed (simp_all add: append_journal_def)

text \<open>An entry is journalled, then the change is made.\<close>

lemma journalled_extends:
  assumes "core_ok kec s" and "goes kec (append_journal e s) s' w" and "entry_ok kec (sd_db s) (base_map kec s) e"
    and "wundo kec (sd_db s) e w = Some (world kec s)"
  shows "extends kec s s'"
proof -
  note j = journal_facts [OF assms(1), of e]
  have "sd_journal s' = sd_journal s @ [e]" "core_ok kec s'" "world kec s' = w" "same_env kec s s'"
    using assms(2) j by (auto simp: goes_def intro: same_env_trans)
  then show ?thesis using assms(3,4) by (auto simp: extends_def intro!: exI [of _ "[e]"])
qed

section \<open>Getting or creating an object\<close>

lemma set_acct_set_acct [simp]: "set_acct a x (set_acct a y w) = set_acct a x w"
  by (simp add: set_acct_def)

lemma set_acct_at [simp]: "w_acct (set_acct a x w) a = Some x" "acct_at kec (set_acct a x w) a = x"
  by (simp_all add: set_acct_def acct_at_def)

lemma set_acct_other [simp]: "b \<noteq> a \<Longrightarrow> w_acct (set_acct a x w) b = w_acct w b"
  by (simp add: set_acct_def)

lemma unset_acct: "w_acct w a = None \<Longrightarrow> (set_acct a x w)\<lparr>w_acct := (w_acct (set_acct a x w))(a := None)\<rparr> = w"
  by (simp add: set_acct_def fun_upd_idem)

lemma find_obj_None:
  assumes "core_ok kec s" and "find_obj kec (base_map kec s) (map_of (stateObjects s)) a = None"
  shows "base_map kec s a = None"
proof (cases "map_of (stateObjects s) a")
  case None
  show ?thesis
  proof (cases "base_map kec s a")
    case (Some enc)
    then obtain x where "decode_account enc = Inr x" using assms(1) unfolding core_ok_def by blast
    then show ?thesis using assms(2) None Some by (simp add: find_obj_def)
  qed
next
  case (Some c)
  then show ?thesis using assms by (auto simp: find_obj_def core_ok_def split: if_splits)
qed

lemma create_extends:
  assumes ok: "core_ok kec s" and len: "length (kec []) = 32" and c: "createObject kec a s = ((c, prev), s')"
  shows "extends kec s s'" "world kec s' = set_acct a (empty_acct kec) (world kec s)"
    "map_of (stateObjects s') a = Some c" "\<not> deleted c" "obj_view kec (sd_db s) c = empty_acct kec"
    "prev = find_obj kec (base_map kec s) (map_of (stateObjects s)) a"
    "prev = Some p \<Longrightarrow> sd_journal s' = sd_journal s @ [resetObjectChange p]"
proof -
  obtain s1 where g: "getStateObject kec a s = (prev, s1)" using c by (auto simp: createObject_def Let_def split: prod.splits)
  note go = getStateObject_goes [OF ok g]
  from goes_core [OF go(2)] have c1: "core_ok kec s1" "sd_db s1 = sd_db s" "base_map kec s1 = base_map kec s" "world kec s1 = world kec s" by auto
  let ?n = "newObject kec a (new_account kec) True"
  obtain s2 where n: "obj_setNonce 0 ?n s1 = (c, s2)" using c g by (auto simp: createObject_def Let_def split: prod.splits)
  have nv: "obj_ok kec (sd_db s) a ?n" "obj_view kec (sd_db s) ?n = empty_acct kec" "\<not> deleted ?n"
    using new_account_view [where kec = kec, OF len] by simp_all
  from setNonce_setter [of kec "sd_db s" 0] nv n have cv: "only_marks s1 s2" "obj_ok kec (sd_db s) a c" "\<not> deleted c"
    "obj_view kec (sd_db s) c = (empty_acct kec)\<lparr>w_nonce := 0\<rparr>" unfolding setter_def by metis+
  have view: "obj_view kec (sd_db s) c = empty_acct kec" using cv(4) by (simp add: empty_acct_def)
  note m = marks_goes [OF c1(1) cv(1)]
  from goes_core [OF m(1)] have c2: "core_ok kec s2" "sd_db s2 = sd_db s" "base_map kec s2 = base_map kec s" "world kec s2 = world kec s"
    using c1 by auto
  let ?e = "case prev of None \<Rightarrow> createObjectChange a | Some p \<Rightarrow> resetObjectChange p"
  have s': "s' = setStateObject c (append_journal ?e s2)" using c g n by (simp add: createObject_def Let_def)
  note j = journal_facts [OF c2(1), of ?e]
  have st: "goes kec (append_journal ?e s2) s' (set_acct a (empty_acct kec) (world kec s))" "map_of (stateObjects s') a = Some c"
    using setStateObject_goes [OF j(1), of a c] cv(2,3) c2 j view by (simp_all add: s')
  have e: "entry_ok kec (sd_db s2) (base_map kec s2) ?e \<and> wundo kec (sd_db s2) ?e (set_acct a (empty_acct kec) (world kec s)) = Some (world kec s2)"
  proof (cases prev)
    case None
    then have "find_obj kec (base_map kec s) (map_of (stateObjects s)) a = None" using go(1) by simp
    then have "base_map kec s a = None" "w_acct (world kec s) a = None"
      using find_obj_None [OF ok] by (simp_all add: world_def accts_def)
    then show ?thesis using None c2 unset_acct [of "world kec s" a] by simp
  next
    case (Some p)
    then have f: "find_obj kec (base_map kec s) (map_of (stateObjects s)) a = Some p" using go(1) by simp
    from find_obj_ok [OF ok f] have p: "obj_ok kec (sd_db s) a p" "\<not> deleted p" by auto
    then have "so_address p = a" by (simp add: obj_ok_def)
    moreover have "w_acct (world kec s) a = Some (obj_view kec (sd_db s) p)" using f by (simp add: world_def accts_def)
    ultimately show ?thesis using Some c2 p by (simp add: set_acct_same)
  qed
  have "extends kec s2 s'" using journalled_extends [OF c2(1) st(1)] e by blast
  then have "extends kec s1 s'" using goes_extends m(1) c1 extends_trans by metis
  then show "extends kec s s'" using goes_extends go(2) extends_trans by metis
  show "world kec s' = set_acct a (empty_acct kec) (world kec s)" using st(1) by (simp add: goes_def)
  show "map_of (stateObjects s') a = Some c" "\<not> deleted c" "obj_view kec (sd_db s) c = empty_acct kec" using st cv view by auto
  show "prev = find_obj kec (base_map kec s) (map_of (stateObjects s)) a" by (rule go(1))
  show "sd_journal s' = sd_journal s @ [resetObjectChange p]" if "prev = Some p"
    using that st(1) j(4) m(1) go(2) by (simp add: goes_def)
qed

lemma GetOrNew_extends:
  assumes ok: "core_ok kec s" and len: "length (kec []) = 32" and g: "GetOrNewStateObject kec a s = (c, s')"
  shows "extends kec s s'" "world kec s' = set_acct a (acct_at kec (world kec s) a) (world kec s)"
    "map_of (stateObjects s') a = Some c" "\<not> deleted c" "obj_view kec (sd_db s) c = acct_at kec (world kec s) a"
proof -
  obtain r s1 where r: "getStateObject kec a s = (r, s1)" by fastforce
  note go = getStateObject_goes [OF ok r]
  from goes_core [OF go(2)] have c1: "core_ok kec s1" "sd_db s1 = sd_db s" "world kec s1 = world kec s" by auto
  have "extends kec s s' \<and> world kec s' = set_acct a (acct_at kec (world kec s) a) (world kec s) \<and>
    map_of (stateObjects s') a = Some c \<and> \<not> deleted c \<and> obj_view kec (sd_db s) c = acct_at kec (world kec s) a"
  proof (cases r)
    case None
    then obtain prev where p: "createObject kec a s1 = ((c, prev), s')" using g r
      by (auto simp: GetOrNewStateObject_def split: prod.splits)
    note cr = create_extends [where kec = kec, OF c1(1) len p]
    have "acct_at kec (world kec s) a = empty_acct kec" using None go(1) by (simp add: acct_at_def world_def accts_def)
    moreover have "extends kec s s'" using goes_extends [OF go(2)] cr(1) by (rule extends_trans)
    ultimately show ?thesis using cr c1 by simp
  next
    case (Some d)
    have f: "find_obj kec (base_map kec s) (map_of (stateObjects s)) a = Some d" using go(1) Some by simp
    from find_obj_ok [OF ok f] have d: "\<not> deleted d" by simp
    then have "c = d" "s' = s1" using g r Some by (auto simp: GetOrNewStateObject_def)
    moreover have v: "w_acct (world kec s) a = Some (obj_view kec (sd_db s) d)" using f by (simp add: world_def accts_def)
    ultimately show ?thesis using goes_extends [OF go(2)] c1 go(3) [OF Some] d by (simp add: acct_at_def set_acct_same)
  qed
  then show "extends kec s s'" "world kec s' = set_acct a (acct_at kec (world kec s) a) (world kec s)"
    "map_of (stateObjects s') a = Some c" "\<not> deleted c" "obj_view kec (sd_db s) c = acct_at kec (world kec s) a" by blast+
qed

section \<open>Journalled setters\<close>

text \<open>A method of an object that journals the account's old value and sets the new one.\<close>

definition jsetter :: "(bytes \<Rightarrow> bytes) \<Rightarrow> cachingDB \<Rightarrow> (acct \<Rightarrow> bool) \<Rightarrow> (stateObject \<Rightarrow> state_db \<Rightarrow> stateObject \<times> state_db) \<Rightarrow> (acct \<Rightarrow> acct) \<Rightarrow> bool" where
  "jsetter kec cdb P f h \<longleftrightarrow> (\<forall>a c s d s'. f c s = (d, s') \<longrightarrow> obj_ok kec cdb a c \<longrightarrow> P (obj_view kec cdb c) \<longrightarrow> sd_db s = cdb \<longrightarrow>
     (\<exists>es s1. (es = [] \<and> s1 = s \<or> (\<exists>e. es = [e] \<and> s1 = append_journal e s)) \<and> only_marks s1 s' \<and>
        obj_view kec cdb d = h (obj_view kec cdb c) \<and> obj_ok kec cdb a d \<and> deleted d = deleted c \<and>
        (\<forall>m. \<forall>e \<in> set es. entry_ok kec cdb m e) \<and>
        (\<forall>w. w_acct w a = Some (h (obj_view kec cdb c)) \<longrightarrow> wundo_all kec cdb es w = Some (set_acct a (obj_view kec cdb c) w))))"

lemma with_object_extends:
  assumes ok: "core_ok kec s" and len: "length (kec []) = 32" and f: "jsetter kec (sd_db s) P f h" and P: "P (acct_at kec (world kec s) a)"
  shows "extends kec s (with_object kec a f s)" "world kec (with_object kec a f s) = set_acct a (h (acct_at kec (world kec s) a)) (world kec s)"
proof -
  obtain c s1 where g: "GetOrNewStateObject kec a s = (c, s1)" by fastforce
  note n = GetOrNew_extends [where kec = kec, OF ok len g]
  from extends_core [OF n(1)] have c1: "core_ok kec s1" "sd_db s1 = sd_db s" "base_map kec s1 = base_map kec s" by auto
  obtain d s3 where fc: "f c s1 = (d, s3)" by fastforce
  let ?x = "acct_at kec (world kec s) a" and ?o = "setStateObject d s3"
  have cok: "obj_ok kec (sd_db s) a c" using core_ok_obj [OF c1(1) n(3)] c1 by simp
  from f [unfolded jsetter_def, rule_format, OF fc cok] P n(5) c1(2)
  obtain es s2 where j: "es = [] \<and> s2 = s1 \<or> (\<exists>e. es = [e] \<and> s2 = append_journal e s1)" "only_marks s2 s3"
    "obj_view kec (sd_db s) d = h ?x" "obj_ok kec (sd_db s) a d" "deleted d = deleted c"
    "\<And>m e. e \<in> set es \<Longrightarrow> entry_ok kec (sd_db s) m e"
    "\<And>w. w_acct w a = Some (h ?x) \<Longrightarrow> wundo_all kec (sd_db s) es w = Some (set_acct a ?x w)" by auto
  have c2: "core_ok kec s2" "sd_db s2 = sd_db s" "base_map kec s2 = base_map kec s" "world kec s2 = world kec s1" "same_env kec s1 s2"
    "sd_journal s2 = sd_journal s1 @ es"
    using j(1) journal_facts [OF c1(1)] c1 by auto
  note m = marks_goes(1) [OF c2(1) j(2)]
  from goes_core [OF m] have c3: "core_ok kec s3" "sd_db s3 = sd_db s" "world kec s3 = world kec s1" using c2 by auto
  have "goes kec s3 ?o (set_acct a (h ?x) (world kec s1))"
    using setStateObject_goes(1) [OF c3(1), of a d] j n(4) c3 by simp
  then have go: "goes kec s2 ?o (set_acct a (h ?x) (world kec s))" using goes_trans [OF m] n(2) by simp
  have w: "world kec ?o = set_acct a (h ?x) (world kec s)" using goes_core [OF go] by simp
  have "wundo_all kec (sd_db s) es (world kec ?o) = Some (world kec s1)" using j(7) [of "world kec ?o"] w n(2) by simp
  moreover have "sd_journal ?o = sd_journal s1 @ es" "core_ok kec ?o" "same_env kec s1 ?o"
    using go c2 by (auto simp: goes_def intro: same_env_trans)
  ultimately have "extends kec s1 ?o" unfolding extends_def using j(6) c1 by auto
  then have e: "extends kec s ?o" by (rule extends_trans [OF n(1)])
  have "with_object kec a f s = ?o" by (simp add: with_object_def g fc)
  then show "extends kec s (with_object kec a f s)" "world kec (with_object kec a f s) = set_acct a (h ?x) (world kec s)"
    using e w by simp_all
qed

lemma jsetterI:
  assumes "\<And>a c s. \<lbrakk>obj_ok kec cdb a c; P (obj_view kec cdb c); sd_db s = cdb\<rbrakk> \<Longrightarrow>
    \<exists>c' e g. f c s = g c' (append_journal e s) \<and> setter kec cdb g h \<and> same_obj kec cdb c c' \<and> (\<forall>m. entry_ok kec cdb m e) \<and>
      (\<forall>w. w_acct w a = Some (h (obj_view kec cdb c)) \<longrightarrow> wundo kec cdb e w = Some (set_acct a (obj_view kec cdb c) w))"
  shows "jsetter kec cdb P f h"
  unfolding jsetter_def
proof (intro allI impI)
  fix a c s d s' assume f: "f c s = (d, s')" and ok: "obj_ok kec cdb a c" and P: "P (obj_view kec cdb c)" and s: "sd_db s = cdb"
  from assms [OF ok P s] obtain c' e g where e: "f c s = g c' (append_journal e s)" "setter kec cdb g h" "same_obj kec cdb c c'"
    "\<forall>m. entry_ok kec cdb m e"
    "\<forall>w. w_acct w a = Some (h (obj_view kec cdb c)) \<longrightarrow> wundo kec cdb e w = Some (set_acct a (obj_view kec cdb c) w)" by blast
  have "so_address c = a" using ok by (simp add: obj_ok_def)
  then have c': "obj_ok kec cdb a c'" "obj_view kec cdb c' = obj_view kec cdb c" "deleted c' = deleted c"
    using e(3) ok by (auto simp: same_obj_def)
  from e(2) [unfolded setter_def, rule_format, of c' "append_journal e s" d s' a] e(1) f c'
  have "only_marks (append_journal e s) s' \<and> obj_view kec cdb d = h (obj_view kec cdb c) \<and> obj_ok kec cdb a d \<and> deleted d = deleted c" by simp
  then show "\<exists>es s1. (es = [] \<and> s1 = s \<or> (\<exists>e. es = [e] \<and> s1 = append_journal e s)) \<and> only_marks s1 s' \<and>
        obj_view kec cdb d = h (obj_view kec cdb c) \<and> obj_ok kec cdb a d \<and> deleted d = deleted c \<and>
        (\<forall>m. \<forall>e \<in> set es. entry_ok kec cdb m e) \<and>
        (\<forall>w. w_acct w a = Some (h (obj_view kec cdb c)) \<longrightarrow> wundo_all kec cdb es w = Some (set_acct a (obj_view kec cdb c) w))"
    using e(4,5) by (intro exI [of _ "[e]"] exI [of _ "append_journal e s"]) simp
qed

lemma undo_change: "w_acct w a = Some y \<Longrightarrow> g y = x \<Longrightarrow> change_acct a g w = Some (set_acct a x w)"
  by (simp add: change_acct_def)

lemma obj_ok_address: "obj_ok kec cdb a c \<Longrightarrow> so_address c = a"
  by (simp add: obj_ok_def)

lemma obj_view_simps [simp]: "w_balance (obj_view kec cdb c) = acc_Balance (so_data c)" "w_nonce (obj_view kec cdb c) = acc_Nonce (so_data c)"
  "w_codehash (obj_view kec cdb c) = acc_CodeHash (so_data c)" "w_suicided (obj_view kec cdb c) = suicided c"
  by (simp_all add: obj_view_def)

lemma SetBalance_jsetter: "0 \<le> v \<Longrightarrow> jsetter kec cdb (\<lambda>_. True) (obj_SetBalance v) (\<lambda>x. x\<lparr>w_balance := v\<rparr>)"
proof (rule jsetterI)
  fix a c s assume v: "0 \<le> v" and ok: "obj_ok kec cdb a c"
  show "\<exists>c' e g. obj_SetBalance v c s = g c' (append_journal e s) \<and> setter kec cdb g (\<lambda>x. x\<lparr>w_balance := v\<rparr>) \<and> same_obj kec cdb c c' \<and>
    (\<forall>m. entry_ok kec cdb m e) \<and> (\<forall>w. w_acct w a = Some ((obj_view kec cdb c)\<lparr>w_balance := v\<rparr>) \<longrightarrow>
      wundo kec cdb e w = Some (set_acct a (obj_view kec cdb c) w))"
    by (intro exI [of _ c] exI [of _ "balanceChange (so_address c) (acc_Balance (so_data c))"] exI [of _ "obj_setBalance v"])
      (auto simp: obj_SetBalance_def setBalance_setter v obj_ok_balance [OF ok] obj_ok_address [OF ok] obj_view_def intro!: undo_change)
qed

lemma SetNonce_jsetter: "jsetter kec cdb (\<lambda>_. True) (obj_SetNonce v) (\<lambda>x. x\<lparr>w_nonce := v\<rparr>)"
proof (rule jsetterI)
  fix a c s assume ok: "obj_ok kec cdb a c"
  show "\<exists>c' e g. obj_SetNonce v c s = g c' (append_journal e s) \<and> setter kec cdb g (\<lambda>x. x\<lparr>w_nonce := v\<rparr>) \<and> same_obj kec cdb c c' \<and>
    (\<forall>m. entry_ok kec cdb m e) \<and> (\<forall>w. w_acct w a = Some ((obj_view kec cdb c)\<lparr>w_nonce := v\<rparr>) \<longrightarrow>
      wundo kec cdb e w = Some (set_acct a (obj_view kec cdb c) w))"
    by (intro exI [of _ c] exI [of _ "nonceChange (so_address c) (acc_Nonce (so_data c))"] exI [of _ "obj_setNonce v"])
      (auto simp: obj_SetNonce_def setNonce_setter obj_ok_address [OF ok] obj_view_def intro!: undo_change)
qed

lemma SetState_jsetter: "length v = 32 \<Longrightarrow> jsetter kec cdb (\<lambda>_. True) (obj_SetState kec k v) (\<lambda>x. x\<lparr>w_storage := (w_storage x)(k := v)\<rparr>)"
proof (rule jsetterI)
  fix a c and s :: state_db assume v: "length v = 32" and ok: "obj_ok kec cdb a c" and s: "sd_db s = cdb"
  obtain pv d where g: "obj_GetState kec cdb k c = (pv, d)" by fastforce
  from obj_GetState_ok [OF ok g] have d: "pv = w_storage (obj_view kec cdb c) k" "same_obj kec cdb c d" by auto
  then have pv: "length pv = 32" using obj_storage_length [OF ok, of k] by (simp add: obj_view_def)
  have ad: "so_address d = a" using d(2) obj_ok_address [OF ok] by (simp add: same_obj_def)
  show "\<exists>c' e g. obj_SetState kec k v c s = g c' (append_journal e s) \<and> setter kec cdb g (\<lambda>x. x\<lparr>w_storage := (w_storage x)(k := v)\<rparr>) \<and>
    same_obj kec cdb c c' \<and> (\<forall>m. entry_ok kec cdb m e) \<and>
    (\<forall>w. w_acct w a = Some ((obj_view kec cdb c)\<lparr>w_storage := (w_storage (obj_view kec cdb c))(k := v)\<rparr>) \<longrightarrow>
      wundo kec cdb e w = Some (set_acct a (obj_view kec cdb c) w))"
    by (intro exI [of _ d] exI [of _ "storageChange (so_address d) k pv"] exI [of _ "obj_setState k v"])
      (auto simp: obj_SetState_def s g setState_setter v pv [unfolded d(1)] d ad intro!: undo_change)
qed

lemma SetCode_jsetter:
  assumes len: "length (kec code) = 32" "length code < code_limit"
  shows "jsetter kec cdb (\<lambda>_. True) (obj_SetCode kec (kec code) code) (\<lambda>x. x\<lparr>w_codehash := kec code, w_code := code\<rparr>)"
proof (rule jsetterI)
  fix a c and s :: state_db assume ok: "obj_ok kec cdb a c" and s: "sd_db s = cdb"
  obtain pc d where g: "obj_Code kec cdb c = (pc, d)" by fastforce
  note d = obj_Code_ok [OF ok g]
  then have ad: "so_address d = a" using obj_ok_address [OF ok] by (simp add: same_obj_def)
  let ?cd = "if code = [] then None else Some code"
  have st: "setter kec cdb (obj_setCode (kec code) ?cd) (\<lambda>x. x\<lparr>w_codehash := kec code, w_code := code\<rparr>)"
    using setCode_setter [of kec cdb ?cd "kec code"] len by (cases "code = []") (simp_all add: code_fits_def)
  have e: "\<forall>m. entry_ok kec cdb m (codeChange (so_address d) pc (acc_CodeHash (so_data d)))" using d by auto
  have u: "(obj_view kec cdb c)\<lparr>w_codehash := acc_CodeHash (so_data d), w_code := (case pc of None \<Rightarrow> [] | Some x \<Rightarrow> x)\<rparr> = obj_view kec cdb c"
    using d by (simp add: obj_view_def)
  show "\<exists>c' e g. obj_SetCode kec (kec code) code c s = g c' (append_journal e s) \<and>
    setter kec cdb g (\<lambda>x. x\<lparr>w_codehash := kec code, w_code := code\<rparr>) \<and> same_obj kec cdb c c' \<and> (\<forall>m. entry_ok kec cdb m e) \<and>
    (\<forall>w. w_acct w a = Some ((obj_view kec cdb c)\<lparr>w_codehash := kec code, w_code := code\<rparr>) \<longrightarrow>
      wundo kec cdb e w = Some (set_acct a (obj_view kec cdb c) w))"
    using st e u d by (intro exI [of _ d] exI [of _ "codeChange (so_address d) pc (acc_CodeHash (so_data d))"]
        exI [of _ "obj_setCode (kec code) ?cd"]) (auto simp: obj_SetCode_def s g ad intro!: undo_change)
qed

text \<open>Adding and subtracting: nothing is journalled for zero, except that an empty account is touched.\<close>

lemma jsetter_cases:
  assumes "\<And>c s. f c s = f1 c s \<or> f c s = f2 c s" and "jsetter kec cdb P f1 h" and "jsetter kec cdb P f2 h"
  shows "jsetter kec cdb P f h"
  unfolding jsetter_def
proof (intro allI impI, goal_cases)
  case (1 a c s d s')
  from assms(1) [of c s] 1(1) have "f1 c s = (d, s') \<or> f2 c s = (d, s')" by auto
  then show ?case
  proof
    assume "f1 c s = (d, s')"
    from assms(2) [unfolded jsetter_def, rule_format, OF this 1(2-4)] show ?thesis .
  next
    assume "f2 c s = (d, s')"
    from assms(3) [unfolded jsetter_def, rule_format, OF this 1(2-4)] show ?thesis .
  qed
qed

lemma skip_jsetter: "jsetter kec cdb P (\<lambda>c s. (c, s)) (\<lambda>x. x)"
  unfolding jsetter_def
proof (intro allI impI)
  fix a c d and s s' :: state_db assume f: "(c, s) = (d, s')" and "obj_ok kec cdb a c"
  then show "\<exists>es s1. (es = [] \<and> s1 = s \<or> (\<exists>e. es = [e] \<and> s1 = append_journal e s)) \<and> only_marks s1 s' \<and>
        obj_view kec cdb d = obj_view kec cdb c \<and> obj_ok kec cdb a d \<and> deleted d = deleted c \<and>
        (\<forall>m. \<forall>e \<in> set es. entry_ok kec cdb m e) \<and>
        (\<forall>w. w_acct w a = Some (obj_view kec cdb c) \<longrightarrow> wundo_all kec cdb es w = Some (set_acct a (obj_view kec cdb c) w))"
    by (intro exI [of _ "[]"] exI [of _ s]) (auto simp: set_acct_same only_marks_refl)
qed

lemma touch_jsetter: "jsetter kec cdb P touch (\<lambda>x. x)"
proof (rule jsetterI)
  fix a c and s :: state_db assume ok: "obj_ok kec cdb a c"
  let ?g = "\<lambda>c s. case call_onDirty c s of (c1, s1) \<Rightarrow> (c1\<lparr>touched := True\<rparr>, s1)"
  have "setter kec cdb ?g (\<lambda>x. x)" unfolding setter_def
    using call_onDirty_ok by (fastforce split: prod.splits)
  then show "\<exists>c' e g. touch c s = g c' (append_journal e s) \<and> setter kec cdb g (\<lambda>x. x) \<and> same_obj kec cdb c c' \<and>
    (\<forall>m. entry_ok kec cdb m e) \<and> (\<forall>w. w_acct w a = Some (obj_view kec cdb c) \<longrightarrow>
      wundo kec cdb e w = Some (set_acct a (obj_view kec cdb c) w))"
    by (intro exI [of _ c] exI [of _ "touchChange (so_address c) (touched c) (\<not> onDirty c)"] exI [of _ ?g])
      (auto simp: touch_def obj_ok_address [OF ok] set_acct_same change_acct_def)
qed

lemma AddBalance_jsetter:
  assumes "0 \<le> v"
  shows "jsetter kec cdb (\<lambda>x. 0 \<le> w_balance x) (obj_AddBalance kec v) (\<lambda>x. x\<lparr>w_balance := w_balance x + v\<rparr>)"
proof (cases "v = 0")
  case True
  have "jsetter kec cdb (\<lambda>x. 0 \<le> w_balance x) (obj_AddBalance kec v) (\<lambda>x. x)"
    by (rule jsetter_cases [OF _ touch_jsetter skip_jsetter]) (simp add: obj_AddBalance_def True)
  then show ?thesis using True by simp
next
  case False
  show ?thesis unfolding jsetter_def
  proof (intro allI impI)
    fix a c s d s' assume f: "obj_AddBalance kec v c s = (d, s')" and ok: "obj_ok kec cdb a c" and P: "0 \<le> w_balance (obj_view kec cdb c)"
      and s: "sd_db s = cdb"
    have "0 \<le> acc_Balance (so_data c) + v" using assms P by simp
    from SetBalance_jsetter [OF this, unfolded jsetter_def, rule_format, of c s d s' kec cdb a] f ok s False
    show "\<exists>es s1. (es = [] \<and> s1 = s \<or> (\<exists>e. es = [e] \<and> s1 = append_journal e s)) \<and> only_marks s1 s' \<and>
        obj_view kec cdb d = (obj_view kec cdb c)\<lparr>w_balance := w_balance (obj_view kec cdb c) + v\<rparr> \<and> obj_ok kec cdb a d \<and> deleted d = deleted c \<and>
        (\<forall>m. \<forall>e \<in> set es. entry_ok kec cdb m e) \<and>
        (\<forall>w. w_acct w a = Some ((obj_view kec cdb c)\<lparr>w_balance := w_balance (obj_view kec cdb c) + v\<rparr>) \<longrightarrow>
          wundo_all kec cdb es w = Some (set_acct a (obj_view kec cdb c) w))"
      by (simp add: obj_AddBalance_def)
  qed
qed

lemma SubBalance_jsetter:
  "jsetter kec cdb (\<lambda>x. v \<le> w_balance x) (obj_SubBalance v) (\<lambda>x. x\<lparr>w_balance := w_balance x - v\<rparr>)"
proof (cases "v = 0")
  case True
  have "jsetter kec cdb (\<lambda>x. v \<le> w_balance x) (obj_SubBalance v) (\<lambda>x. x)"
    by (rule jsetter_cases [OF _ skip_jsetter skip_jsetter]) (simp add: obj_SubBalance_def True)
  then show ?thesis using True by simp
next
  case False
  show ?thesis unfolding jsetter_def
  proof (intro allI impI)
    fix a c s d s' assume f: "obj_SubBalance v c s = (d, s')" and ok: "obj_ok kec cdb a c" and P: "v \<le> w_balance (obj_view kec cdb c)"
      and s: "sd_db s = cdb"
    have "0 \<le> acc_Balance (so_data c) - v" using P by simp
    from SetBalance_jsetter [OF this, unfolded jsetter_def, rule_format, of c s d s' kec cdb a] f ok s False
    show "\<exists>es s1. (es = [] \<and> s1 = s \<or> (\<exists>e. es = [e] \<and> s1 = append_journal e s)) \<and> only_marks s1 s' \<and>
        obj_view kec cdb d = (obj_view kec cdb c)\<lparr>w_balance := w_balance (obj_view kec cdb c) - v\<rparr> \<and> obj_ok kec cdb a d \<and> deleted d = deleted c \<and>
        (\<forall>m. \<forall>e \<in> set es. entry_ok kec cdb m e) \<and>
        (\<forall>w. w_acct w a = Some ((obj_view kec cdb c)\<lparr>w_balance := w_balance (obj_view kec cdb c) - v\<rparr>) \<longrightarrow>
          wundo_all kec cdb es w = Some (set_acct a (obj_view kec cdb c) w))"
      by (simp add: obj_SubBalance_def)
  qed
qed

lemma suicide_mark_setter:
  "setter kec cdb (\<lambda>c s. case markSuicided c s of (c', s2) \<Rightarrow> (c'\<lparr>so_data := (so_data c')\<lparr>acc_Balance := 0\<rparr>\<rparr>, s2))
    (\<lambda>x. x\<lparr>w_suicided := True, w_balance := 0\<rparr>)"
proof (rule setterI [where h = "\<lambda>c. c\<lparr>suicided := True, so_data := (so_data c)\<lparr>acc_Balance := 0\<rparr>\<rparr>"])
  fix a c and s :: state_db assume ok: "obj_ok kec cdb a c"
  let ?c = "c\<lparr>suicided := True, so_data := (so_data c)\<lparr>acc_Balance := 0\<rparr>\<rparr>"
  have "(case markSuicided c s of (c', s2) \<Rightarrow> (c'\<lparr>so_data := (so_data c')\<lparr>acc_Balance := 0\<rparr>\<rparr>, s2)) = call_onDirty ?c s"
    by (simp add: markSuicided_def call_onDirty_def)
  moreover have "obj_view kec cdb ?c = (obj_view kec cdb c)\<lparr>w_suicided := True, w_balance := 0\<rparr>" "obj_ok kec cdb a ?c"
    using ok by (simp_all add: data_view)
  ultimately show "(case markSuicided c s of (c', s2) \<Rightarrow> (c'\<lparr>so_data := (so_data c')\<lparr>acc_Balance := 0\<rparr>\<rparr>, s2)) = call_onDirty ?c s \<and>
    obj_view kec cdb ?c = (obj_view kec cdb c)\<lparr>w_suicided := True, w_balance := 0\<rparr> \<and> obj_ok kec cdb a ?c \<and> deleted ?c = deleted c" by simp
qed

end
