(* ===== verification/State_Snapshots.thy ===== *)
theory State_Snapshots
  imports State_Ops
begin

text \<open>
  The operations of the state as steps of the world, snapshots, and reverting to them.  A snapshot
  stands for the world at the time it was taken; it stays valid until the state is reverted to an
  older one.
\<close>

definition kec_len :: "(bytes \<Rightarrow> bytes) \<Rightarrow> bool" where
  "kec_len kec \<longleftrightarrow> (\<forall>x. length (kec x) = 32)"

section \<open>What the operations do\<close>

lemma acct_at_balance: "core_ok kec s \<Longrightarrow> 0 \<le> w_balance (acct_at kec (world kec s) a)"
  using find_obj_ok [of kec s a]
  by (auto simp: acct_at_def world_def accts_def empty_acct_def obj_ok_def split: option.splits)

lemma State_AddBalance_ok:
  assumes "core_ok kec s" and "kec_len kec" and "0 \<le> v"
  shows "extends kec s (State_AddBalance kec a v s)"
    "world kec (State_AddBalance kec a v s) = (let x = acct_at kec (world kec s) a in set_acct a (x\<lparr>w_balance := w_balance x + v\<rparr>) (world kec s))"
  unfolding State_AddBalance_def Let_def
  by (rule with_object_extends [OF assms(1) _ AddBalance_jsetter [OF assms(3)] acct_at_balance [OF assms(1)]], use assms(2) in \<open>simp add: kec_len_def\<close>)+

lemma State_SubBalance_ok:
  assumes "core_ok kec s" and "kec_len kec" and "v \<le> w_balance (acct_at kec (world kec s) a)"
  shows "extends kec s (State_SubBalance kec a v s)"
    "world kec (State_SubBalance kec a v s) = (let x = acct_at kec (world kec s) a in set_acct a (x\<lparr>w_balance := w_balance x - v\<rparr>) (world kec s))"
  unfolding State_SubBalance_def Let_def
  by (rule with_object_extends [OF assms(1) _ SubBalance_jsetter assms(3)], use assms(2) in \<open>simp add: kec_len_def\<close>)+

lemma State_SetNonce_ok:
  assumes "core_ok kec s" and "kec_len kec"
  shows "extends kec s (State_SetNonce kec a v s)"
    "world kec (State_SetNonce kec a v s) = set_acct a ((acct_at kec (world kec s) a)\<lparr>w_nonce := v\<rparr>) (world kec s)"
  unfolding State_SetNonce_def
  by (rule with_object_extends [OF assms(1) _ SetNonce_jsetter TrueI], use assms(2) in \<open>simp add: kec_len_def\<close>)+

lemma State_SetCode_ok:
  assumes "core_ok kec s" and "kec_len kec" and "length code < code_limit"
  shows "extends kec s (State_SetCode kec a code s)"
    "world kec (State_SetCode kec a code s) = set_acct a ((acct_at kec (world kec s) a)\<lparr>w_codehash := kec code, w_code := code\<rparr>) (world kec s)"
proof -
  have len: "length (kec []) = 32" "length (kec code) = 32" using assms(2) by (simp_all add: kec_len_def)
  note w = with_object_extends [where kec = kec, OF assms(1) len(1) SetCode_jsetter [where kec = kec, OF len(2) assms(3)] TrueI]
  show "extends kec s (State_SetCode kec a code s)"
    "world kec (State_SetCode kec a code s) = set_acct a ((acct_at kec (world kec s) a)\<lparr>w_codehash := kec code, w_code := code\<rparr>) (world kec s)"
    unfolding State_SetCode_def by (rule w(1), rule w(2))
qed

lemma State_SetState_ok:
  assumes "core_ok kec s" and "kec_len kec" and "length v = 32"
  shows "extends kec s (State_SetState kec a k v s)"
    "world kec (State_SetState kec a k v s) =
       (let x = acct_at kec (world kec s) a in set_acct a (x\<lparr>w_storage := (w_storage x)(k := v)\<rparr>) (world kec s))"
  unfolding State_SetState_def Let_def
  by (rule with_object_extends [OF assms(1) _ SetState_jsetter [OF assms(3)] TrueI], use assms(2) in \<open>simp add: kec_len_def\<close>)+

lemma State_CreateAccount_ok:
  assumes ok: "core_ok kec s" and len: "kec_len kec"
  shows "extends kec s (State_CreateAccount kec a s)"
    "world kec (State_CreateAccount kec a s) = set_acct a ((empty_acct kec)\<lparr>w_balance := w_balance (acct_at kec (world kec s) a)\<rparr>) (world kec s)"
proof -
  have l: "length (kec []) = 32" using len by (simp add: kec_len_def)
  obtain c prev s1 where c: "createObject kec a s = ((c, prev), s1)" by (metis prod.exhaust)
  note cr = create_extends [where kec = kec, OF ok l c]
  from extends_core [OF cr(1)] have c1: "core_ok kec s1" "sd_db s1 = sd_db s" by auto
  have "extends kec s (State_CreateAccount kec a s) \<and> world kec (State_CreateAccount kec a s) =
    set_acct a ((empty_acct kec)\<lparr>w_balance := w_balance (acct_at kec (world kec s) a)\<rparr>) (world kec s)"
  proof (cases prev)
    case None
    then have "w_acct (world kec s) a = None" using cr(6) by (simp add: world_def accts_def)
    then have "(empty_acct kec)\<lparr>w_balance := w_balance (acct_at kec (world kec s) a)\<rparr> = empty_acct kec"
      by (simp add: acct_at_def empty_acct_def)
    then show ?thesis using None cr by (simp add: State_CreateAccount_def c)
  next
    case (Some p)
    have f: "find_obj kec (base_map kec s) (map_of (stateObjects s)) a = Some p" using cr(6) Some by simp
    from find_obj_ok [OF ok f] have p: "obj_ok kec (sd_db s) a p" "\<not> deleted p" by auto
    let ?b = "acc_Balance (so_data p)"
    have wp: "w_acct (world kec s) a = Some (obj_view kec (sd_db s) p)" using f by (simp add: world_def accts_def)
    then have b: "?b = w_balance (acct_at kec (world kec s) a)" "0 \<le> ?b" using obj_ok_balance [OF p(1)] by (simp_all add: acct_at_def)
    obtain d s2 where d: "obj_setBalance ?b c s1 = (d, s2)" by fastforce
    let ?o = "setStateObject d s2"
    have go: "goes kec s1 ?o (set_acct a ((empty_acct kec)\<lparr>w_balance := ?b\<rparr>) (world kec s1))"
      using setter_goes(1) [where f = "obj_setBalance ?b" and g = "\<lambda>x. x\<lparr>w_balance := ?b\<rparr>", OF c1(1) cr(3,4) d setBalance_setter [OF b(2)]] cr(5) c1 by simp
    then have w: "world kec ?o = set_acct a ((empty_acct kec)\<lparr>w_balance := ?b\<rparr>) (world kec s)" "core_ok kec ?o" using cr(2) by (simp_all add: goes_def)
    have "wundo kec (sd_db s) (resetObjectChange p) (world kec ?o) = Some (world kec s)"
      using w wp obj_ok_address [OF p(1)] by (simp add: set_acct_same)
    moreover have "sd_journal ?o = sd_journal s @ [resetObjectChange p]" using cr(7) [OF Some] go by (simp add: goes_def)
    moreover have "same_env kec s ?o" using cr(1) go by (auto simp: extends_def goes_def intro: same_env_trans)
    ultimately have "extends kec s ?o" unfolding extends_def using w(2) p obj_ok_address [OF p(1)] by (auto intro!: exI [of _ "[resetObjectChange p]"])
    moreover have "State_CreateAccount kec a s = ?o" using Some by (simp add: State_CreateAccount_def c d)
    ultimately show ?thesis using w b by simp
  qed
  then show "extends kec s (State_CreateAccount kec a s)"
    "world kec (State_CreateAccount kec a s) = set_acct a ((empty_acct kec)\<lparr>w_balance := w_balance (acct_at kec (world kec s) a)\<rparr>) (world kec s)" by blast+
qed

lemma State_Suicide_ok:
  assumes ok: "core_ok kec s"
  shows "extends kec s (snd (State_Suicide kec a s))"
    "world kec (snd (State_Suicide kec a s)) =
       (case w_acct (world kec s) a of None \<Rightarrow> world kec s | Some x \<Rightarrow> set_acct a (x\<lparr>w_suicided := True, w_balance := 0\<rparr>) (world kec s))"
proof -
  obtain r s1 where r: "getStateObject kec a s = (r, s1)" by fastforce
  note go = getStateObject_goes [OF ok r]
  from goes_core [OF go(2)] have c1: "core_ok kec s1" "sd_db s1 = sd_db s" "base_map kec s1 = base_map kec s" "world kec s1 = world kec s" by auto
  have "extends kec s (snd (State_Suicide kec a s)) \<and> world kec (snd (State_Suicide kec a s)) =
       (case w_acct (world kec s) a of None \<Rightarrow> world kec s | Some x \<Rightarrow> set_acct a (x\<lparr>w_suicided := True, w_balance := 0\<rparr>) (world kec s))"
  proof (cases r)
    case None
    then have "w_acct (world kec s) a = None" using go(1) by (simp add: acct_None)
    then show ?thesis using None r c1 goes_extends [OF go(2)] by (simp add: State_Suicide_def)
  next
    case (Some c)
    have f: "find_obj kec (base_map kec s) (map_of (stateObjects s)) a = Some c" using go(1) Some by simp
    from find_obj_ok [OF ok f] have p: "obj_ok kec (sd_db s) a c" "\<not> deleted c" by auto
    let ?e = "suicideChange a (suicided c) (acc_Balance (so_data c))" and ?x = "obj_view kec (sd_db s) c"
    let ?f = "\<lambda>c s. case markSuicided c s of (c', s2) \<Rightarrow> (c'\<lparr>so_data := (so_data c')\<lparr>acc_Balance := 0\<rparr>\<rparr>, s2)"
    have wp: "w_acct (world kec s) a = Some ?x" using f by (simp add: world_def accts_def)
    note j = journal_facts [OF c1(1), of ?e]
    have st: "setter kec (sd_db s) ?f (\<lambda>x. x\<lparr>w_suicided := True, w_balance := 0\<rparr>)" by (rule suicide_mark_setter)
    obtain d s2 where d: "?f c (append_journal ?e s1) = (d, s2)" by fastforce
    have o: "snd (State_Suicide kec a s) = setStateObject d s2" using r Some d by (auto simp: State_Suicide_def split: prod.splits)
    have m: "map_of (stateObjects (append_journal ?e s1)) a = Some c" using go(3) [OF Some] j by simp
    have "goes kec (append_journal ?e s1) (setStateObject d s2) (set_acct a (?x\<lparr>w_suicided := True, w_balance := 0\<rparr>) (world kec s))"
      using setter_goes(1) [where f = ?f, OF j(1) m p(2) d] st j c1 by simp
    moreover from this have "world kec (setStateObject d s2) = set_acct a (?x\<lparr>w_suicided := True, w_balance := 0\<rparr>) (world kec s)" by (simp add: goes_def)
    moreover have "wundo kec (sd_db s1) ?e (set_acct a (?x\<lparr>w_suicided := True, w_balance := 0\<rparr>) (world kec s)) = Some (world kec s1)"
      using wp c1 by (simp add: change_acct_def set_acct_same obj_view_def)
    ultimately have "extends kec s1 (setStateObject d s2)" using journalled_extends [OF c1(1)] obj_ok_balance [OF p(1)] by auto
    then have "extends kec s (setStateObject d s2)" by (rule extends_trans [OF goes_extends [OF go(2)]])
    then show ?thesis using o wp \<open>world kec (setStateObject d s2) = _\<close> by simp
  qed
  then show "extends kec s (snd (State_Suicide kec a s))"
    "world kec (snd (State_Suicide kec a s)) =
       (case w_acct (world kec s) a of None \<Rightarrow> world kec s | Some x \<Rightarrow> set_acct a (x\<lparr>w_suicided := True, w_balance := 0\<rparr>) (world kec s))" by blast+
qed

lemma State_AddRefund_ok:
  assumes "core_ok kec s"
  shows "extends kec s (State_AddRefund g s)" "world kec (State_AddRefund g s) = (world kec s)\<lparr>w_refund := w_refund (world kec s) + g\<rparr>"
proof -
  let ?e = "refundChange (sd_refund s)"
  note j = journal_facts [OF assms, of ?e]
  have go: "goes kec (append_journal ?e s) (State_AddRefund g s) ((world kec s)\<lparr>w_refund := sd_refund s + g\<rparr>)"
    using fields_goes(1) [OF j(1), of "sd_refund s + g"] j by (simp add: State_AddRefund_def)
  then show "world kec (State_AddRefund g s) = (world kec s)\<lparr>w_refund := w_refund (world kec s) + g\<rparr>" by (simp add: goes_def world_def)
  show "extends kec s (State_AddRefund g s)" by (rule journalled_extends [OF assms go]) (simp_all add: world_def)
qed

lemma State_AddPreimage_ok:
  assumes "core_ok kec s"
  shows "extends kec s (State_AddPreimage h p s)"
    "world kec (State_AddPreimage h p s) = (if w_preimages (world kec s) h = None then (world kec s)\<lparr>w_preimages := (w_preimages (world kec s))(h \<mapsto> p)\<rparr> else world kec s)"
proof -
  let ?e = "addPreimageChange h"
  note j = journal_facts [OF assms, of ?e]
  have "extends kec s (State_AddPreimage h p s) \<and> world kec (State_AddPreimage h p s) =
      (if w_preimages (world kec s) h = None then (world kec s)\<lparr>w_preimages := (w_preimages (world kec s))(h \<mapsto> p)\<rparr> else world kec s)"
  proof (cases "map_of (sd_preimages s) h")
    case None
    have go: "goes kec (append_journal ?e s) (State_AddPreimage h p s) ((world kec s)\<lparr>w_preimages := (map_of (sd_preimages s))(h \<mapsto> p)\<rparr>)"
      using fields_goes(3) [OF j(1), of "AList.update h p (sd_preimages s)"] j None by (simp add: State_AddPreimage_def update_conv')
    then have "world kec (State_AddPreimage h p s) = (world kec s)\<lparr>w_preimages := (map_of (sd_preimages s))(h \<mapsto> p)\<rparr>" by (simp add: goes_def)
    moreover have "extends kec s (State_AddPreimage h p s)"
      by (rule journalled_extends [OF assms go]) (use None in \<open>simp_all add: world_def fun_upd_idem\<close>)
    ultimately show ?thesis using None by (simp add: world_def)
  qed (use extends_refl [OF assms] in \<open>auto simp: State_AddPreimage_def world_def\<close>)
  then show "extends kec s (State_AddPreimage h p s)"
    "world kec (State_AddPreimage h p s) = (if w_preimages (world kec s) h = None then (world kec s)\<lparr>w_preimages := (w_preimages (world kec s))(h \<mapsto> p)\<rparr> else world kec s)"
    by blast+
qed

definition stamped :: "state_db \<Rightarrow> Log \<Rightarrow> Log" where
  "stamped s lg = lg\<lparr>log_TxHash := sd_thash s, log_BlockHash := sd_bhash s, log_TxIndex := sd_txIndex s, log_Index := sd_logSize s\<rparr>"

lemma State_AddLog_ok:
  assumes "core_ok kec s"
  shows "extends kec s (State_AddLog lg s)"
    "world kec (State_AddLog lg s) = (world kec s)\<lparr>w_logs := (w_logs (world kec s))(sd_thash s := w_logs (world kec s) (sd_thash s) @ [stamped s lg]),
       w_logSize := w_logSize (world kec s) + 1\<rparr>"
proof -
  let ?e = "addLogChange (sd_thash s)" and ?h = "sd_thash s"
  note j = journal_facts [OF assms, of ?e]
  let ?ls = "AList.update ?h (GetLogs ?h s @ [stamped s lg]) (sd_logs s)"
  have f: "(\<lambda>h. case map_of ?ls h of None \<Rightarrow> [] | Some l \<Rightarrow> l) = (\<lambda>h. GetLogs h s)(?h := GetLogs ?h s @ [stamped s lg])"
    by (rule ext) (simp add: update_conv', simp add: GetLogs_def)
  have "State_AddLog lg s = (append_journal ?e s)\<lparr>sd_logs := ?ls, sd_logSize := sd_logSize s + 1\<rparr>"
    by (simp add: State_AddLog_def Let_def stamped_def append_journal_def GetLogs_def)
  then have go: "goes kec (append_journal ?e s) (State_AddLog lg s)
      ((world kec s)\<lparr>w_logs := (\<lambda>h. GetLogs h s)(?h := GetLogs ?h s @ [stamped s lg]), w_logSize := sd_logSize s + 1\<rparr>)"
    using fields_goes(2) [OF j(1), where ls = ?ls and n = "sd_logSize s + 1"] j f by simp
  then show "world kec (State_AddLog lg s) = (world kec s)\<lparr>w_logs := (w_logs (world kec s))(?h := w_logs (world kec s) ?h @ [stamped s lg]),
       w_logSize := w_logSize (world kec s) + 1\<rparr>" by (simp add: goes_def world_def)
  show "extends kec s (State_AddLog lg s)" by (rule journalled_extends [OF assms go]) (simp_all add: world_def fun_upd_idem)
qed

section \<open>Snapshots\<close>

definition revs_ok :: "state_db \<Rightarrow> bool" where
  "revs_ok s \<longleftrightarrow> sorted_wrt (\<lambda>p q. fst p < fst q \<and> snd p \<le> snd q) (validRevisions s) \<and>
     (\<forall>p \<in> set (validRevisions s). fst p < nextRevisionId s \<and> snd p \<le> length (sd_journal s))"

definition state_ok :: "(bytes \<Rightarrow> bytes) \<Rightarrow> state_db \<Rightarrow> bool" where
  "state_ok kec s \<longleftrightarrow> core_ok kec s \<and> (\<forall>e \<in> set (sd_journal s). entry_ok kec (sd_db s) (base_map kec s) e) \<and> revs_ok s"

text \<open>The revision \<open>rid\<close> of \<open>s\<close> stands for the world \<open>w\<close>.\<close>

definition revertible :: "(bytes \<Rightarrow> bytes) \<Rightarrow> state_db \<Rightarrow> nat \<Rightarrow> world \<Rightarrow> bool" where
  "revertible kec s rid w \<longleftrightarrow> (\<exists>idx. (rid, idx) \<in> set (validRevisions s) \<and>
     wundo_all kec (sd_db s) (drop idx (sd_journal s)) (world kec s) = Some w)"

lemma state_ok_extends:
  assumes ok: "state_ok kec s" and ext: "extends kec s s'"
  shows "state_ok kec s'" "revertible kec s rid w \<Longrightarrow> revertible kec s' rid w"
proof -
  from ext obtain es where es: "sd_journal s' = sd_journal s @ es" "\<forall>e \<in> set es. entry_ok kec (sd_db s) (base_map kec s) e"
    "wundo_all kec (sd_db s) es (world kec s') = Some (world kec s)" by (auto simp: extends_def)
  have env: "sd_db s' = sd_db s" "base_map kec s' = base_map kec s" "validRevisions s' = validRevisions s" "nextRevisionId s' = nextRevisionId s"
    "core_ok kec s'" using ext by (auto simp: extends_def same_env_def)
  show "state_ok kec s'" using ok es env by (fastforce simp: state_ok_def revs_ok_def)
  assume "revertible kec s rid w"
  then obtain idx where idx: "(rid, idx) \<in> set (validRevisions s)" "wundo_all kec (sd_db s) (drop idx (sd_journal s)) (world kec s) = Some w"
    by (auto simp: revertible_def)
  then have "idx \<le> length (sd_journal s)" using ok by (fastforce simp: state_ok_def revs_ok_def)
  then have "wundo_all kec (sd_db s') (drop idx (sd_journal s')) (world kec s') = Some w"
    using es idx env by (simp add: wundo_all_append)
  then show "revertible kec s' rid w" unfolding revertible_def using idx(1) env by auto
qed

lemma Snapshot_ok:
  assumes ok: "state_ok kec s" and sn: "State_Snapshot s = (rid, s')"
  shows "state_ok kec s'" "world kec s' = world kec s" "revertible kec s' rid (world kec s)"
    "revertible kec s j w \<Longrightarrow> j < rid \<and> revertible kec s' j w"
proof -
  have s': "rid = nextRevisionId s" "s' = s\<lparr>nextRevisionId := nextRevisionId s + 1,
      validRevisions := validRevisions s @ [(nextRevisionId s, length (sd_journal s))]\<rparr>"
    using sn by (auto simp: State_Snapshot_def)
  have b: "base_map kec s' = base_map kec s" by (simp add: base_map_def s')
  have c: "core_ok kec s'" using ok unfolding state_ok_def core_ok_def b by (simp add: s')
  have "revs_ok s'" using ok by (fastforce simp: state_ok_def revs_ok_def s' sorted_wrt_append)
  then show "state_ok kec s'" using ok c by (simp add: state_ok_def b) (simp add: s')
  have "accts kec s' = accts kec s" by (rule ext) (simp add: accts_def b, simp add: s')
  then show w: "world kec s' = world kec s" by (rule world_cong) (simp_all add: s')
  show "revertible kec s' rid (world kec s)" unfolding revertible_def w
    by (rule exI [of _ "length (sd_journal s)"]) (simp add: s')
  show "j < rid \<and> revertible kec s' j w" if "revertible kec s j w"
    using that ok unfolding revertible_def \<open>world kec s' = world kec s\<close> by (fastforce simp: s' state_ok_def revs_ok_def)
qed

lemma sort_Search_first:
  assumes "i \<le> j" and "\<And>k l. f k \<Longrightarrow> k \<le> l \<Longrightarrow> l < j \<Longrightarrow> f l"
  shows "i \<le> sort_Search f i j \<and> sort_Search f i j \<le> j \<and> (\<forall>k. i \<le> k \<longrightarrow> k < sort_Search f i j \<longrightarrow> \<not> f k) \<and>
    (sort_Search f i j < j \<longrightarrow> f (sort_Search f i j))"
  using assms
proof (induction f i j rule: sort_Search.induct)
  case (1 f i j)
  show ?case
  proof (cases "i < j")
    case True
    define h where "h = (i + j) div 2"
    have h: "i \<le> h" "h < j" using True by (simp_all add: h_def)
    show ?thesis
    proof (cases "f h")
      case f: True
      have "i \<le> sort_Search f i h \<and> sort_Search f i h \<le> h \<and> (\<forall>k. i \<le> k \<longrightarrow> k < sort_Search f i h \<longrightarrow> \<not> f k) \<and>
        (sort_Search f i h < h \<longrightarrow> f (sort_Search f i h))"
        using 1(2) [OF True h_def] f h 1(4) by fastforce
      moreover have "sort_Search f i j = sort_Search f i h" using True f by (subst sort_Search.simps) (simp add: Let_def h_def)
      ultimately show ?thesis using f h by (auto simp: le_less)
    next
      case f: False
      have "h + 1 \<le> sort_Search f (h + 1) j \<and> sort_Search f (h + 1) j \<le> j \<and> (\<forall>k. h + 1 \<le> k \<longrightarrow> k < sort_Search f (h + 1) j \<longrightarrow> \<not> f k) \<and>
        (sort_Search f (h + 1) j < j \<longrightarrow> f (sort_Search f (h + 1) j))"
        using 1(1) [OF True h_def] f h 1(4) by fastforce
      moreover have "sort_Search f i j = sort_Search f (h + 1) j" using True f by (subst sort_Search.simps) (simp add: Let_def h_def)
      moreover have "\<not> f k" if "k \<le> h" for k using f 1(4) [of k h] that h by blast
      ultimately show ?thesis using h by (metis Suc_eq_plus1 Suc_leD Suc_leI le_trans not_less)
    qed
  next
    case False
    then have "sort_Search f i j = i" by (subst sort_Search.simps) simp
    then show ?thesis using 1(3) False by simp
  qed
qed

lemma search_revision:
  fixes revs :: "(nat \<times> nat) list"
  assumes "sorted_wrt (\<lambda>p q. fst p < fst q \<and> snd p \<le> snd q) revs" and "(rid, idx) \<in> set revs"
  shows "\<exists>n < length revs. sort_Search (\<lambda>i. rid \<le> fst (revs ! i)) 0 (length revs) = n \<and> revs ! n = (rid, idx) \<and>
    (\<forall>p \<in> set revs. fst p < rid \<longrightarrow> p \<in> set (take n revs) \<and> snd p \<le> idx)"
proof -
  let ?f = "\<lambda>i. rid \<le> fst (revs ! i)"
  obtain n where n: "n < length revs" "revs ! n = (rid, idx)" using assms(2) by (auto simp: in_set_conv_nth)
  have lt: "fst (revs ! k) < fst (revs ! l) \<and> snd (revs ! k) \<le> snd (revs ! l)" if "k < l" "l < length revs" for k l
    using sorted_wrt_nth_less [OF assms(1) that] .
  have mono: "?f l" if "?f k" "k \<le> l" "l < length revs" for k l using that lt [of k l] by (cases "k = l") auto
  let ?r = "sort_Search ?f 0 (length revs)"
  have "0 \<le> ?r \<and> ?r \<le> length revs \<and> (\<forall>k. 0 \<le> k \<longrightarrow> k < ?r \<longrightarrow> \<not> ?f k) \<and> (?r < length revs \<longrightarrow> ?f ?r)"
    by (rule sort_Search_first) (use mono in auto)
  then have r: "?r \<le> length revs" "\<forall>k < ?r. \<not> ?f k" "?r < length revs \<longrightarrow> ?f ?r" by blast+
  have "?f n" using n by simp
  then have "\<not> n < ?r" using r(2) by blast
  moreover have "\<not> ?r < n"
  proof
    assume rn: "?r < n"
    then have "rid \<le> fst (revs ! ?r)" using r(3) n by simp
    then show False using lt [OF rn n(1)] n(2) by simp
  qed
  ultimately have rn: "?r = n" by simp
  have "p \<in> set (take n revs) \<and> snd p \<le> idx" if "p \<in> set revs" "fst p < rid" for p
  proof -
    obtain k where k: "k < length revs" "revs ! k = p" using \<open>p \<in> set revs\<close> by (auto simp: in_set_conv_nth)
    have "\<not> n < k" "k \<noteq> n" using lt [of n k] k n \<open>fst p < rid\<close> by auto
    then have "k < n" by simp
    then show ?thesis using lt [of k n] k n by (auto simp: in_set_conv_nth intro!: exI [of _ k])
  qed
  then show ?thesis using rn n by (intro exI [of _ n]) simp
qed

lemma Revert_ok:
  assumes ok: "state_ok kec s" and rv: "revertible kec s rid w"
  shows "\<exists>s'. State_RevertToSnapshot kec rid s = Ret s' \<and> state_ok kec s' \<and> world kec s' = w \<and>
    sd_thash s' = sd_thash s \<and> (\<forall>j \<in> fst ` set (validRevisions s'). j < rid \<and> j \<in> fst ` set (validRevisions s)) \<and>
    (\<forall>j v. j < rid \<longrightarrow> revertible kec s j v \<longrightarrow> revertible kec s' j v)"
proof -
  from ok have c: "core_ok kec s" "\<forall>e \<in> set (sd_journal s). entry_ok kec (sd_db s) (base_map kec s) e" "revs_ok s" by (simp_all add: state_ok_def)
  from rv obtain idx where idx: "(rid, idx) \<in> set (validRevisions s)" "wundo_all kec (sd_db s) (drop idx (sd_journal s)) (world kec s) = Some w"
    by (auto simp: revertible_def)
  have sorted: "sorted_wrt (\<lambda>p q. fst p < fst q \<and> snd p \<le> snd q) (validRevisions s)" using c(3) by (simp add: revs_ok_def)
  from search_revision [OF sorted idx(1)] obtain n where
    n: "n < length (validRevisions s)" "sort_Search (\<lambda>i. rid \<le> fst (validRevisions s ! i)) 0 (length (validRevisions s)) = n"
      "validRevisions s ! n = (rid, idx)" "\<forall>p \<in> set (validRevisions s). fst p < rid \<longrightarrow> p \<in> set (take n (validRevisions s)) \<and> snd p \<le> idx"
    by blast
  have "\<forall>e \<in> set (drop idx (sd_journal s)). entry_ok kec (sd_db s) (base_map kec s) e" using c(2) by (meson in_set_dropD)
  from undo_all_goes [OF c(1) this idx(2)] obtain s1 where s1: "undo_all kec (drop idx (sd_journal s)) s = Ret s1" "goes kec s s1 w" by blast
  then have c1: "core_ok kec s1" "world kec s1 = w" "sd_db s1 = sd_db s" "base_map kec s1 = base_map kec s" "sd_journal s1 = sd_journal s"
    "validRevisions s1 = validRevisions s" "nextRevisionId s1 = nextRevisionId s" "sd_thash s1 = sd_thash s" by (simp_all add: goes_def same_env_def)
  define s' where "s' = s1\<lparr>sd_journal := take idx (sd_journal s1), validRevisions := take n (validRevisions s1)\<rparr>"
  have r: "State_RevertToSnapshot kec rid s = Ret s'" using n s1(1) by (simp add: State_RevertToSnapshot_def Let_def s'_def)
  have b: "base_map kec s' = base_map kec s" using c1(4) by (simp add: base_map_def s'_def)
  have core: "core_ok kec s'" using c1(1) unfolding core_ok_def b c1(4) by (simp add: s'_def)
  have "accts kec s' = accts kec s1" by (rule ext) (simp add: accts_def b c1(4), simp add: s'_def)
  then have w: "world kec s' = w" using world_cong [of kec s' s1] c1(2) by (simp add: s'_def)
  have len: "idx \<le> length (sd_journal s)" using c(3) idx(1) by (fastforce simp: revs_ok_def)
  have low: "snd p \<le> idx \<and> fst p < rid" if p: "p \<in> set (take n (validRevisions s))" for p
  proof -
    obtain k where "k < n" "validRevisions s ! k = p" using p by (auto simp: in_set_conv_nth)
    then show ?thesis using sorted_wrt_nth_less [OF sorted \<open>k < n\<close> n(1)] n(3) by simp
  qed
  have "revs_ok s'" using c(3) low len unfolding revs_ok_def s'_def
    by (auto simp: c1 sorted_wrt_take dest: in_set_takeD)
  moreover have "sd_db s' = sd_db s" "sd_journal s' = take idx (sd_journal s)" by (simp_all add: s'_def c1)
  ultimately have "state_ok kec s'" using core c(2) by (auto simp: state_ok_def b dest: in_set_takeD)
  moreover have "revertible kec s' j v" if j: "j < rid" "revertible kec s j v" for j v
  proof -
    obtain jd where jd: "(j, jd) \<in> set (validRevisions s)" "wundo_all kec (sd_db s) (drop jd (sd_journal s)) (world kec s) = Some v"
      using j(2) by (auto simp: revertible_def)
    with n(4) j(1) have m: "(j, jd) \<in> set (take n (validRevisions s))" "jd \<le> idx" by auto
    have "drop jd (sd_journal s) = drop jd (take idx (sd_journal s)) @ drop idx (sd_journal s)"
      using drop_append [of jd "take idx (sd_journal s)" "drop idx (sd_journal s)"] m(2) len by simp
    then have "wundo_all kec (sd_db s) (drop jd (take idx (sd_journal s))) w = Some v" using jd(2) idx(2) by (simp add: wundo_all_append)
    then show ?thesis unfolding revertible_def w using m(1) by (auto simp: s'_def c1)
  qed
  moreover have "\<forall>j \<in> fst ` set (validRevisions s'). j < rid \<and> j \<in> fst ` set (validRevisions s)"
    using low by (auto simp: s'_def c1 dest: in_set_takeD)
  ultimately show ?thesis using r w c1(8) by (auto simp: s'_def)
qed

end
