(* ===== verification/State_Reverts.thy ===== *)
theory State_Reverts
  imports State_Snapshots
begin

text \<open>
  The state as a machine.  \<open>state_op\<close> are the operations that change it, \<open>apply_op\<close> runs them on the
  model of the code and \<open>world_op\<close> on the world; the first refines the second.  \<open>state_step\<close> adds
  snapshots and reverts, and whatever happens after a snapshot is undone by reverting to it.
\<close>

datatype state_op =
    OpCreateAccount bytes
  | OpSubBalance bytes int
  | OpAddBalance bytes int
  | OpSetNonce bytes u64
  | OpSetCode bytes bytes
  | OpAddRefund int
  | OpSetState bytes bytes bytes
  | OpSuicide bytes
  | OpAddLog Log
  | OpAddPreimage bytes bytes

fun apply_op :: "(bytes \<Rightarrow> bytes) \<Rightarrow> state_op \<Rightarrow> state_db \<Rightarrow> state_db" where
  "apply_op kec (OpCreateAccount a) s = State_CreateAccount kec a s"
| "apply_op kec (OpSubBalance a v) s = State_SubBalance kec a v s"
| "apply_op kec (OpAddBalance a v) s = State_AddBalance kec a v s"
| "apply_op kec (OpSetNonce a n) s = State_SetNonce kec a n s"
| "apply_op kec (OpSetCode a code) s = State_SetCode kec a code s"
| "apply_op kec (OpAddRefund g) s = State_AddRefund g s"
| "apply_op kec (OpSetState a k v) s = State_SetState kec a k v s"
| "apply_op kec (OpSuicide a) s = snd (State_Suicide kec a s)"
| "apply_op kec (OpAddLog lg) s = State_AddLog lg s"
| "apply_op kec (OpAddPreimage h p) s = State_AddPreimage h p s"

text \<open>The same on the world; a log is stamped with the current transaction \<open>th\<close>, block \<open>bh\<close> and index \<open>ti\<close>.\<close>

fun world_op :: "(bytes \<Rightarrow> bytes) \<Rightarrow> bytes \<times> bytes \<times> nat \<Rightarrow> state_op \<Rightarrow> world \<Rightarrow> world" where
  "world_op kec _ (OpCreateAccount a) w = set_acct a ((empty_acct kec)\<lparr>w_balance := w_balance (acct_at kec w a)\<rparr>) w"
| "world_op kec _ (OpSubBalance a v) w = (let x = acct_at kec w a in set_acct a (x\<lparr>w_balance := w_balance x - v\<rparr>) w)"
| "world_op kec _ (OpAddBalance a v) w = (let x = acct_at kec w a in set_acct a (x\<lparr>w_balance := w_balance x + v\<rparr>) w)"
| "world_op kec _ (OpSetNonce a n) w = set_acct a ((acct_at kec w a)\<lparr>w_nonce := n\<rparr>) w"
| "world_op kec _ (OpSetCode a code) w = set_acct a ((acct_at kec w a)\<lparr>w_codehash := kec code, w_code := code\<rparr>) w"
| "world_op kec _ (OpAddRefund g) w = w\<lparr>w_refund := w_refund w + g\<rparr>"
| "world_op kec _ (OpSetState a k v) w = (let x = acct_at kec w a in set_acct a (x\<lparr>w_storage := (w_storage x)(k := v)\<rparr>) w)"
| "world_op kec _ (OpSuicide a) w =
     (case w_acct w a of None \<Rightarrow> w | Some x \<Rightarrow> set_acct a (x\<lparr>w_suicided := True, w_balance := 0\<rparr>) w)"
| "world_op kec (th, bh, ti) (OpAddLog lg) w =
     w\<lparr>w_logs := (w_logs w)(th := w_logs w th @ [lg\<lparr>log_TxHash := th, log_BlockHash := bh, log_TxIndex := ti, log_Index := w_logSize w\<rparr>]),
       w_logSize := w_logSize w + 1\<rparr>"
| "world_op kec _ (OpAddPreimage h p) w =
     (if w_preimages w h = None then w\<lparr>w_preimages := (w_preimages w)(h \<mapsto> p)\<rparr> else w)"

text \<open>What the callers guarantee: amounts are not negative, no balance is overdrawn, code is shorter
  than memory can be and stored values are hashes.\<close>

fun op_legal :: "(bytes \<Rightarrow> bytes) \<Rightarrow> state_op \<Rightarrow> world \<Rightarrow> bool" where
  "op_legal kec (OpSubBalance a v) w \<longleftrightarrow> v \<le> w_balance (acct_at kec w a)"
| "op_legal kec (OpAddBalance a v) w \<longleftrightarrow> 0 \<le> v"
| "op_legal kec (OpSetCode a code) w \<longleftrightarrow> length code < code_limit"
| "op_legal kec (OpSetState a k v) w \<longleftrightarrow> length v = 32"
| "op_legal kec _ w \<longleftrightarrow> True"

definition tx_of :: "state_db \<Rightarrow> bytes \<times> bytes \<times> nat" where
  "tx_of s = (sd_thash s, sd_bhash s, sd_txIndex s)"

lemma apply_op_ok:
  assumes ok: "core_ok kec s" and len: "kec_len kec" and legal: "op_legal kec p (world kec s)"
  shows "extends kec s (apply_op kec p s) \<and> world kec (apply_op kec p s) = world_op kec (tx_of s) p (world kec s)"
proof -
  have n: "sd_logSize s = w_logSize (world kec s)" by (simp add: world_def)
  show ?thesis
  proof (cases p)
    case (OpCreateAccount a)
    then show ?thesis using legal by (simp only: apply_op.simps world_op.simps op_legal.simps State_CreateAccount_ok [OF ok len] HOL.simp_thms)
  next
    case (OpSubBalance a v)
    then show ?thesis using legal by (simp only: apply_op.simps world_op.simps op_legal.simps State_SubBalance_ok [OF ok len, of v a] HOL.simp_thms)
  next
    case (OpAddBalance a v)
    then show ?thesis using legal by (simp only: apply_op.simps world_op.simps op_legal.simps State_AddBalance_ok [OF ok len, of v a] HOL.simp_thms)
  next
    case (OpSetNonce a n)
    then show ?thesis using legal by (simp only: apply_op.simps world_op.simps op_legal.simps State_SetNonce_ok [OF ok len] HOL.simp_thms)
  next
    case (OpSetCode a code)
    then show ?thesis using legal by (simp only: apply_op.simps world_op.simps op_legal.simps State_SetCode_ok [OF ok len, of code a] HOL.simp_thms)
  next
    case (OpAddRefund g)
    then show ?thesis using legal by (simp only: apply_op.simps world_op.simps op_legal.simps State_AddRefund_ok [OF ok] HOL.simp_thms)
  next
    case (OpSetState a k v)
    then show ?thesis using legal by (simp only: apply_op.simps world_op.simps op_legal.simps State_SetState_ok [OF ok len, where v = v] HOL.simp_thms)
  next
    case (OpSuicide a)
    then show ?thesis using legal by (simp only: apply_op.simps world_op.simps op_legal.simps State_Suicide_ok [OF ok] HOL.simp_thms)
  next
    case (OpAddPreimage h p)
    then show ?thesis using legal by (simp only: apply_op.simps world_op.simps op_legal.simps State_AddPreimage_ok [OF ok] HOL.simp_thms)
  next
    case (OpAddLog lg)
    have "stamped s lg = lg\<lparr>log_TxHash := sd_thash s, log_BlockHash := sd_bhash s, log_TxIndex := sd_txIndex s, log_Index := w_logSize (world kec s)\<rparr>"
      by (simp add: stamped_def n)
    then show ?thesis using OpAddLog by (simp only: apply_op.simps world_op.simps tx_of_def State_AddLog_ok [OF ok] HOL.simp_thms)
  qed
qed

section \<open>A state on an empty database\<close>

text \<open>A function with results of 32 bytes that stands for the hash function in examples.\<close>

definition kec_sample :: "bytes \<Rightarrow> bytes" where
  "kec_sample x = be_digits 32 (length x)"

definition empty_db :: cachingDB where
  "empty_db = \<lparr>cd_db = Map.empty, pastTries = []\<rparr>"

definition start_state :: "(bytes \<Rightarrow> bytes) \<Rightarrow> state_db" where
  "start_state kec = (case State_New kec (replicate 32 0) empty_db of Inr s \<Rightarrow> s)"

definition state_inv :: "(bytes \<Rightarrow> bytes) \<Rightarrow> state_db \<Rightarrow> bool" where
  "state_inv kec s \<longleftrightarrow> kec_len kec \<and> state_ok kec s \<and> (\<forall>rid \<in> fst ` set (validRevisions s). \<exists>w. revertible kec s rid w)"

lemma kec_sample_len [simp]: "kec_len kec_sample"
  by (simp add: kec_len_def kec_sample_def)

lemma start_state_simps:
  "sd_db (start_state kec) = empty_db" "stateObjects (start_state kec) = []" "sd_journal (start_state kec) = []"
  "validRevisions (start_state kec) = []" "nextRevisionId (start_state kec) = 0"
  "secure_ok Map.empty (sd_trie (start_state kec))" "secure_map kec Map.empty (sd_trie (start_state kec)) a = None"
  by (simp_all add: start_state_def State_New_def OpenTrie_def empty_db_def NewSecure_def New_def SetCacheLimit_def
      secure_ok_def trie_wf_def secure_map_def trie_map_def TryGet_def Let_def)

lemma start_state_ok: "state_ok kec (start_state kec)"
  by (simp add: state_ok_def core_ok_def revs_ok_def base_map_def start_state_simps) (simp add: empty_db_def start_state_simps)

lemma start_state_inv: "kec_len kec \<Longrightarrow> state_inv kec (start_state kec)"
  by (simp add: state_inv_def start_state_ok start_state_simps)

section \<open>Refinement\<close>

text \<open>C37. Each of the ten operations by which the virtual machine changes the state database - creating
  an account, adding to and subtracting from a balance, setting a nonce, code or a storage slot, adding
  a refund, self-destruction, logging, recording a preimage - does to the world of accounts the state shows exactly what the abstract operation does,
  although it works on cached objects over tries, marks them dirty and journals the change; the state
  stays well formed, and every snapshot taken before still stands for the same world.\<close>

theorem state_ops_refine_world:
  assumes "state_ok kec s" and "kec_len kec" and "op_legal kec p (world kec s)"
  shows "world kec (apply_op kec p s) = world_op kec (tx_of s) p (world kec s) \<and> state_ok kec (apply_op kec p s) \<and>
    (\<forall>rid w. revertible kec s rid w \<longrightarrow> revertible kec (apply_op kec p s) rid w)"
proof -
  have c: "core_ok kec s" using assms(1) by (simp add: state_ok_def)
  from apply_op_ok [OF c assms(2,3)] have e: "extends kec s (apply_op kec p s)"
    and w: "world kec (apply_op kec p s) = world_op kec (tx_of s) p (world kec s)" by blast+
  show ?thesis using w state_ok_extends [OF assms(1) e] by blast
qed

theorem state_ops_refine_world_witness:
  "world kec_sample (apply_op kec_sample (OpAddBalance (replicate 20 1) 5) (start_state kec_sample)) =
     world_op kec_sample (tx_of (start_state kec_sample)) (OpAddBalance (replicate 20 1) 5) (world kec_sample (start_state kec_sample)) \<and>
   state_ok kec_sample (apply_op kec_sample (OpAddBalance (replicate 20 1) 5) (start_state kec_sample))"
  using state_ops_refine_world [OF start_state_ok kec_sample_len, of "OpAddBalance (replicate 20 1) 5"] by simp

section \<open>Reverting\<close>

text \<open>Steps after the snapshot \<open>base\<close>: operations, snapshots, and reverts to newer snapshots.\<close>

inductive state_step :: "(bytes \<Rightarrow> bytes) \<Rightarrow> nat \<Rightarrow> state_db \<Rightarrow> state_db \<Rightarrow> bool" for kec base where
  step_op: "op_legal kec p (world kec s) \<Longrightarrow> state_step kec base s (apply_op kec p s)"
| step_snapshot: "State_Snapshot s = (rid, s') \<Longrightarrow> state_step kec base s s'"
| step_revert: "base < rid \<Longrightarrow> rid \<in> fst ` set (validRevisions s) \<Longrightarrow> State_RevertToSnapshot kec rid s = Ret s' \<Longrightarrow> state_step kec base s s'"

lemma Snapshot_inv:
  assumes "state_inv kec s" and sn: "State_Snapshot s = (rid, s')"
  shows "state_inv kec s'"
proof -
  have ok: "state_ok kec s" using assms(1) by (simp add: state_inv_def)
  note n = Snapshot_ok [OF ok sn]
  have v: "fst ` set (validRevisions s') = insert rid (fst ` set (validRevisions s))" using sn by (auto simp: State_Snapshot_def)
  have "\<exists>w. revertible kec s' j w" if j: "j \<in> fst ` set (validRevisions s')" for j
  proof (cases "j = rid")
    case False
    then have "j \<in> fst ` set (validRevisions s)" using j v by simp
    then obtain w where "revertible kec s j w" using assms(1) unfolding state_inv_def by blast
    from n(4) [OF this] show ?thesis by (intro exI [of _ w]) (rule conjunct2)
  qed (use n(3) in \<open>auto intro: exI [of _ "world kec s"]\<close>)
  then show ?thesis using assms(1) n(1) unfolding state_inv_def by simp
qed

lemma apply_op_inv:
  assumes "state_inv kec s" and "op_legal kec p (world kec s)"
  shows "state_inv kec (apply_op kec p s)"
proof -
  have s: "state_ok kec s" "kec_len kec" "core_ok kec s" using assms(1) by (simp_all add: state_inv_def state_ok_def)
  from apply_op_ok [OF s(3,2) assms(2)] have e: "extends kec s (apply_op kec p s)" ..
  then have "validRevisions (apply_op kec p s) = validRevisions s" by (simp add: extends_def same_env_def)
  moreover have "\<exists>w. revertible kec (apply_op kec p s) j w" if "j \<in> fst ` set (validRevisions s)" for j
    using assms(1) that state_ok_extends(2) [OF s(1) e, of j] unfolding state_inv_def by blast
  ultimately show ?thesis using s(2) state_ok_extends(1) [OF s(1) e] unfolding state_inv_def by simp
qed

lemma Revert_inv:
  assumes "state_inv kec s" and "revertible kec s rid w"
  shows "\<exists>s'. State_RevertToSnapshot kec rid s = Ret s' \<and> state_inv kec s' \<and> world kec s' = w \<and>
    (\<forall>j v. j < rid \<longrightarrow> revertible kec s j v \<longrightarrow> revertible kec s' j v)"
proof -
  have s: "state_ok kec s" "kec_len kec" using assms(1) by (simp_all add: state_inv_def)
  from Revert_ok [OF s(1) assms(2)] obtain s' where s': "State_RevertToSnapshot kec rid s = Ret s'" "state_ok kec s'" "world kec s' = w"
    "\<forall>j \<in> fst ` set (validRevisions s'). j < rid \<and> j \<in> fst ` set (validRevisions s)"
    "\<forall>j v. j < rid \<longrightarrow> revertible kec s j v \<longrightarrow> revertible kec s' j v"
    by (elim exE conjE) (rule that)
  have "\<exists>v. revertible kec s' j v" if j: "j \<in> fst ` set (validRevisions s')" for j
  proof -
    from bspec [OF s'(4) j] have k: "j < rid" "j \<in> fst ` set (validRevisions s)" by auto
    then obtain v where "revertible kec s j v" using assms(1) unfolding state_inv_def by blast
    with s'(5) k(1) show ?thesis by (intro exI [of _ v]) simp
  qed
  then have "state_inv kec s'" using s s'(2) by (simp add: state_inv_def)
  then show ?thesis using s' by blast
qed

lemma state_step_keeps:
  assumes "state_step kec base s s'" and "state_inv kec s" and "revertible kec s base w"
  shows "state_inv kec s' \<and> revertible kec s' base w"
  using assms
proof (cases rule: state_step.cases)
  case (step_op p)
  have c: "core_ok kec s" "kec_len kec" "state_ok kec s" using assms(2) by (simp_all add: state_inv_def state_ok_def)
  from apply_op_ok [OF c(1,2) step_op(2)] have "extends kec s s'" using step_op(1) by simp
  then show ?thesis using apply_op_inv [OF assms(2) step_op(2)] state_ok_extends(2) [OF c(3)] assms(3) step_op(1) by blast
next
  case (step_snapshot rid)
  then show ?thesis using Snapshot_inv [OF assms(2)] Snapshot_ok(4) [of kec s rid s'] assms(2,3) by (auto simp: state_inv_def)
next
  case (step_revert rid)
  then obtain v where "revertible kec s rid v" using assms(2) by (auto simp: state_inv_def)
  from Revert_inv [OF assms(2) this] step_revert assms(3) show ?thesis by auto
qed

lemma state_steps_keep:
  assumes "(state_step kec base)\<^sup>*\<^sup>* s s'" and "state_inv kec s" and "revertible kec s base w"
  shows "state_inv kec s' \<and> revertible kec s' base w"
  using assms by (induction rule: rtranclp_induct) (simp, metis state_step_keeps)

text \<open>C36. Reverting to a snapshot restores the world: after any sequence of operations, of further
  snapshots and of reverts to those, \<open>RevertToSnapshot\<close> with the identifier of the snapshot does not
  panic and leads to a well-formed state that shows the accounts, storage, code, logs, preimages
  and refund the state had when the snapshot was taken.\<close>

theorem revert_restores_world:
  assumes "state_inv kec s" and "State_Snapshot s = (rid, s1)" and "(state_step kec rid)\<^sup>*\<^sup>* s1 s2"
  shows "\<exists>s3. State_RevertToSnapshot kec rid s2 = Ret s3 \<and> world kec s3 = world kec s \<and> state_inv kec s3"
proof -
  have ok: "state_ok kec s" using assms(1) by (simp add: state_inv_def)
  have "state_inv kec s2 \<and> revertible kec s2 rid (world kec s)"
    using state_steps_keep [OF assms(3) Snapshot_inv [OF assms(1,2)] Snapshot_ok(3) [OF ok assms(2)]] .
  then show ?thesis using Revert_inv by blast
qed

theorem revert_restores_world_witness:
  "\<exists>s3. State_RevertToSnapshot kec_sample 0
      (apply_op kec_sample (OpAddBalance (replicate 20 1) 5) (snd (State_Snapshot (start_state kec_sample)))) = Ret s3 \<and>
    world kec_sample s3 = world kec_sample (start_state kec_sample) \<and> state_inv kec_sample s3"
proof (rule revert_restores_world)
  show "state_inv kec_sample (start_state kec_sample)" by (simp add: start_state_inv)
  show "State_Snapshot (start_state kec_sample) = (0, snd (State_Snapshot (start_state kec_sample)))"
    by (simp add: State_Snapshot_def start_state_simps)
  show "(state_step kec_sample 0)\<^sup>*\<^sup>* (snd (State_Snapshot (start_state kec_sample)))
      (apply_op kec_sample (OpAddBalance (replicate 20 1) 5) (snd (State_Snapshot (start_state kec_sample))))"
    by (rule r_into_rtranclp, rule step_op) simp
qed

end
