(* ===== verification/Evm_Contract.thy ===== *)
theory Evm_Contract
  imports Evm_Termination State_Reverts
begin

text \<open>
  What the virtual machine relies on.  The locale \<open>evm_state\<close> is the contract of the interface
  \<open>StateDB\<close>: the readers are functions of the world the state shows, every writing operation does to
  the world what \<open>world_op\<close> says, and a revision stands for the world of its snapshot until the state is
  reverted to an older one.  The properties of the machine are proved from it.

  The relation \<open>st_rel\<close> collects what a step of the machine may do to the state: it keeps it well formed
  and its revisions valid and does not create money, and where writing is forbidden it leaves the
  accounts, the refund and the logs as they were.
\<close>

section \<open>The environment\<close>

text \<open>Codes with the same hash have the same length.  (Equal hashes mean equal codes in practice; this is
  the part of it that can hold for all codes.)\<close>

definition kec_sized :: "(bytes \<Rightarrow> bytes) \<Rightarrow> bool" where
  "kec_sized kec \<longleftrightarrow> (\<forall>c d. length c < code_limit \<longrightarrow> length d < code_limit \<longrightarrow> kec c = kec d \<longrightarrow> length c = length d)"

definition native_ok :: "native \<Rightarrow> bool" where
  "native_ok nt \<longleftrightarrow> (\<forall>x. length (nat_sha256 nt x) = 32) \<and> (\<forall>x. length (nat_ripemd160 nt x) = 20) \<and>
     (\<forall>x y r. nat_bn256Add nt x y = Inr r \<longrightarrow> length r = 64) \<and> (\<forall>x y r. nat_bn256ScalarMul nt x y = Inr r \<longrightarrow> length r = 64)"

definition context_ok :: "'s StateDB \<Rightarrow> 's Context \<Rightarrow> bool" where
  "context_ok db cx \<longleftrightarrow> (\<forall>s a v. CanTransfer cx s a v \<longleftrightarrow> v \<le> db_GetBalance db s a) \<and>
     (\<forall>s a b v. Transfer cx s a b v = db_AddBalance db (db_SubBalance db s a v) b v) \<and>
     (\<forall>n. length (GetHash cx n) = 32) \<and> length (Origin cx) = 20 \<and> length (Coinbase cx) = 20 \<and> is_u256 (GasPrice cx)"

definition env_ok :: "'s evm_env \<Rightarrow> bool" where
  "env_ok env \<longleftrightarrow> \<not> DisableGasMetering (e_vmConfig env) \<and> kec_len (e_kec env) \<and> kec_sized (e_kec env) \<and>
     native_ok (e_native env) \<and> context_ok (e_db env) (e_Context env)"

section \<open>Worlds\<close>

definition acct_ok :: "(bytes \<Rightarrow> bytes) \<Rightarrow> acct \<Rightarrow> bool" where
  "acct_ok kec x \<longleftrightarrow> 0 \<le> w_balance x \<and> length (w_code x) < code_limit \<and> (w_code x \<noteq> [] \<longrightarrow> w_codehash x = kec (w_code x)) \<and>
     (\<forall>k. length (w_storage x k) = 32)"

definition world_ok :: "(bytes \<Rightarrow> bytes) \<Rightarrow> world \<Rightarrow> bool" where
  "world_ok kec w \<longleftrightarrow> (\<forall>a x. w_acct w a = Some x \<longrightarrow> acct_ok kec x)"

lemma world_ok_at: "world_ok kec w \<Longrightarrow> acct_ok kec (acct_at kec w a)"
  by (auto simp: world_ok_def acct_at_def acct_ok_def empty_acct_def code_limit_def split: option.splits)

definition bal :: "world \<Rightarrow> bytes \<Rightarrow> int" where
  "bal w a = (case w_acct w a of None \<Rightarrow> 0 | Some x \<Rightarrow> w_balance x)"

text \<open>The money of all accounts.\<close>

definition addresses :: "bytes set" where
  "addresses = {a. length a = 20}"

definition total_balance :: "world \<Rightarrow> int" where
  "total_balance w = (\<Sum>a \<in> addresses. bal w a)"

text \<open>Worlds that differ in empty accounts and recorded preimages only.\<close>

definition same_world :: "(bytes \<Rightarrow> bytes) \<Rightarrow> world \<Rightarrow> world \<Rightarrow> bool" where
  "same_world kec w w' \<longleftrightarrow> (\<forall>a. acct_at kec w' a = acct_at kec w a) \<and> w_refund w' = w_refund w \<and> w_logs w' = w_logs w \<and>
     w_logSize w' = w_logSize w"

lemma bal_at: "bal w a = w_balance (acct_at kec w a)"
  by (simp add: bal_def acct_at_def empty_acct_def split: option.split)

lemma finite_addresses [simp]: "finite addresses"
proof -
  have "addresses = {xs. set xs \<subseteq> UNIV \<and> length xs = 20}" by (auto simp: addresses_def)
  then show ?thesis using finite_lists_length_eq [of "UNIV :: byte set" 20] by simp
qed

lemma same_world_refl [simp]: "same_world kec w w"
  by (simp add: same_world_def)

lemma same_world_trans: "same_world kec w w' \<Longrightarrow> same_world kec w' w'' \<Longrightarrow> same_world kec w w''"
  by (simp add: same_world_def)

lemma total_cong: "(\<And>a. a \<in> addresses \<Longrightarrow> bal w' a = bal w a) \<Longrightarrow> total_balance w' = total_balance w"
  by (simp add: total_balance_def)

lemma total_update:
  assumes "length a = 20" and "\<And>b. bal w' b = (if b = a then bal w a + v else bal w b)"
  shows "total_balance w' = total_balance w + v"
proof -
  have a: "a \<in> addresses" using assms(1) by (simp add: addresses_def)
  have "total_balance w' = (\<Sum>b \<in> addresses. bal w b + (if b = a then v else 0))"
    unfolding total_balance_def by (rule sum.cong) (simp_all add: assms(2))
  also have "\<dots> = total_balance w + v" using a by (simp add: sum.distrib total_balance_def)
  finally show ?thesis .
qed

lemma bal_le_total:
  assumes "world_ok kec w" and "length a = 20"
  shows "0 \<le> bal w a \<and> bal w a \<le> total_balance w"
proof -
  have a: "a \<in> addresses" using assms(2) by (simp add: addresses_def)
  have nn: "0 \<le> bal w b" for b using world_ok_at [OF assms(1), of b] by (simp add: bal_at [of w b kec] acct_ok_def)
  have "bal w a \<le> (\<Sum>b \<in> addresses. bal w b)" by (rule member_le_sum) (use a in \<open>simp_all add: nn\<close>)
  then show ?thesis using nn by (simp add: total_balance_def)
qed

lemma acct_at_set [simp]: "acct_at kec (set_acct a x w) b = (if b = a then x else acct_at kec w b)"
  by (simp add: acct_at_def set_acct_def)

lemma set_acct_simps [simp]:
  "w_refund (set_acct a x w) = w_refund w" "w_logs (set_acct a x w) = w_logs w" "w_logSize (set_acct a x w) = w_logSize w"
  by (simp_all add: set_acct_def)

lemma acct_at_fields [simp]:
  "acct_at kec (w\<lparr>w_refund := r\<rparr>) b = acct_at kec w b" "acct_at kec (w\<lparr>w_preimages := p\<rparr>) b = acct_at kec w b"
  "acct_at kec (w\<lparr>w_logs := l, w_logSize := n\<rparr>) b = acct_at kec w b"
  by (simp_all add: acct_at_def)

lemma bal_set [simp]: "bal (set_acct a x w) b = (if b = a then w_balance x else bal w b)"
  by (simp add: bal_at [of _ _ undefined])

lemma bal_fields [simp]:
  "bal (w\<lparr>w_refund := r\<rparr>) b = bal w b" "bal (w\<lparr>w_preimages := p\<rparr>) b = bal w b" "bal (w\<lparr>w_logs := l, w_logSize := n\<rparr>) b = bal w b"
  by (simp_all add: bal_def)

section \<open>What the operations do to balances\<close>

lemma bal_world_op:
  "bal (world_op kec tx (OpCreateAccount a) w) b = bal w b" "bal (world_op kec tx (OpSetNonce a n) w) b = bal w b"
  "bal (world_op kec tx (OpSetCode a c) w) b = bal w b" "bal (world_op kec tx (OpAddRefund g) w) b = bal w b"
  "bal (world_op kec tx (OpSetState a k u) w) b = bal w b" "bal (world_op kec tx (OpAddLog lg) w) b = bal w b"
  "bal (world_op kec tx (OpAddPreimage h p) w) b = bal w b"
  "bal (world_op kec tx (OpSubBalance a v) w) b = (if b = a then bal w a + - v else bal w b)"
  "bal (world_op kec tx (OpAddBalance a v) w) b = (if b = a then bal w a + v else bal w b)"
  "bal (world_op kec tx (OpSuicide a) w) b = (if b = a then bal w a + - bal w a else bal w b)"
proof -
  obtain th bh ti where tx: "tx = (th, bh, ti)" by (metis prod.exhaust)
  note b = bal_at [of w a kec, symmetric]
  show "bal (world_op kec tx (OpCreateAccount a) w) b = bal w b" "bal (world_op kec tx (OpSetNonce a n) w) b = bal w b"
    "bal (world_op kec tx (OpSetCode a c) w) b = bal w b" "bal (world_op kec tx (OpAddRefund g) w) b = bal w b"
    "bal (world_op kec tx (OpSetState a k u) w) b = bal w b" "bal (world_op kec tx (OpAddLog lg) w) b = bal w b"
    "bal (world_op kec tx (OpAddPreimage h p) w) b = bal w b"
    "bal (world_op kec tx (OpSubBalance a v) w) b = (if b = a then bal w a + - v else bal w b)"
    "bal (world_op kec tx (OpAddBalance a v) w) b = (if b = a then bal w a + v else bal w b)"
    by (simp_all add: tx b Let_def)
  show "bal (world_op kec tx (OpSuicide a) w) b = (if b = a then bal w a + - bal w a else bal w b)"
    by (simp add: tx bal_def split: option.split) (simp add: set_acct_def)
qed

lemma total_world_op:
  "total_balance (world_op kec tx (OpCreateAccount a) w) = total_balance w" "total_balance (world_op kec tx (OpSetNonce a n) w) = total_balance w"
  "total_balance (world_op kec tx (OpSetCode a c) w) = total_balance w" "total_balance (world_op kec tx (OpAddRefund g) w) = total_balance w"
  "total_balance (world_op kec tx (OpSetState a k u) w) = total_balance w" "total_balance (world_op kec tx (OpAddLog lg) w) = total_balance w"
  "total_balance (world_op kec tx (OpAddPreimage h p) w) = total_balance w"
  by (rule total_cong, simp only: bal_world_op)+

lemma total_money:
  assumes "length a = 20"
  shows "total_balance (world_op kec tx (OpSubBalance a v) w) = total_balance w + - v" "total_balance (world_op kec tx (OpAddBalance a v) w) = total_balance w + v"
    "total_balance (world_op kec tx (OpSuicide a) w) = total_balance w + - bal w a"
  by (rule total_update [OF assms], simp only: bal_world_op)+

section \<open>The contract of the state\<close>

fun db_op :: "'s StateDB \<Rightarrow> state_op \<Rightarrow> 's \<Rightarrow> 's" where
  "db_op db (OpCreateAccount a) s = db_CreateAccount db s a"
| "db_op db (OpSubBalance a v) s = db_SubBalance db s a v"
| "db_op db (OpAddBalance a v) s = db_AddBalance db s a v"
| "db_op db (OpSetNonce a n) s = db_SetNonce db s a n"
| "db_op db (OpSetCode a code) s = db_SetCode db s a code"
| "db_op db (OpAddRefund g) s = db_AddRefund db s g"
| "db_op db (OpSetState a k v) s = db_SetState db s a k v"
| "db_op db (OpSuicide a) s = snd (db_Suicide db s a)"
| "db_op db (OpAddLog lg) s = db_AddLog db s lg"
| "db_op db (OpAddPreimage h p) s = db_AddPreimage db s h p"

locale evm_state =
  fixes env :: "'s evm_env" and ok :: "'s \<Rightarrow> bool" and W :: "'s \<Rightarrow> world" and revision :: "'s \<Rightarrow> nat \<Rightarrow> world \<Rightarrow> bool"
  assumes env: "ok s \<Longrightarrow> env_ok env"
    and world: "ok s \<Longrightarrow> world_ok (e_kec env) (W s)"
    and GetBalance: "ok s \<Longrightarrow> db_GetBalance (e_db env) s a = w_balance (acct_at (e_kec env) (W s) a)"
    and GetNonce: "ok s \<Longrightarrow> db_GetNonce (e_db env) s a = w_nonce (acct_at (e_kec env) (W s) a)"
    and GetCode: "ok s \<Longrightarrow> db_GetCode (e_db env) s a = w_code (acct_at (e_kec env) (W s) a)"
    and GetCodeSize: "ok s \<Longrightarrow> db_GetCodeSize (e_db env) s a = int (length (w_code (acct_at (e_kec env) (W s) a)))"
    and GetCodeHash: "ok s \<Longrightarrow> db_GetCodeHash (e_db env) s a = (case w_acct (W s) a of None \<Rightarrow> zero_hash32 | Some x \<Rightarrow> w_codehash x)"
    and GetState: "ok s \<Longrightarrow> db_GetState (e_db env) s a k = w_storage (acct_at (e_kec env) (W s) a) k"
    and HasSuicided: "ok s \<Longrightarrow> db_HasSuicided (e_db env) s a = w_suicided (acct_at (e_kec env) (W s) a)"
    and Exist: "ok s \<Longrightarrow> db_Exist (e_db env) s a \<longleftrightarrow> w_acct (W s) a \<noteq> None"
    and Empty: "ok s \<Longrightarrow> db_Empty (e_db env) s a \<longleftrightarrow> (let x = acct_at (e_kec env) (W s) a in
      w_nonce x = 0 \<and> w_balance x = 0 \<and> w_codehash x = e_kec env [])"
    and GetRefund: "ok s \<Longrightarrow> db_GetRefund (e_db env) s = w_refund (W s)"
    and writes: "ok s \<Longrightarrow> op_legal (e_kec env) p (W s) \<Longrightarrow> ok (db_op (e_db env) p s) \<and>
      (\<exists>tx. W (db_op (e_db env) p s) = world_op (e_kec env) tx p (W s)) \<and>
      (\<forall>j w. revision s j w \<longrightarrow> revision (db_op (e_db env) p s) j w)"
    and Snapshot: "ok s \<Longrightarrow> db_Snapshot (e_db env) s = (rid, s') \<Longrightarrow> ok s' \<and> W s' = W s \<and> revision s' rid (W s) \<and>
      (\<forall>j w. revision s j w \<longrightarrow> j < rid \<and> revision s' j w)"
    and Revert: "ok s \<Longrightarrow> revision s rid w \<Longrightarrow> \<exists>s'. db_RevertToSnapshot (e_db env) s rid = Ret s' \<and> ok s' \<and> W s' = w \<and>
      (\<forall>j v. j < rid \<longrightarrow> revision s j v \<longrightarrow> revision s' j v)"
begin

definition st_rel :: "bool \<Rightarrow> 's \<Rightarrow> 's \<Rightarrow> bool" where
  "st_rel ro s s' \<longleftrightarrow> ok s' \<and> total_balance (W s') \<le> total_balance (W s) \<and> (\<forall>j w. revision s j w \<longrightarrow> revision s' j w) \<and>
     (ro \<longrightarrow> same_world (e_kec env) (W s) (W s'))"

lemma st_rel_refl: "ok s \<Longrightarrow> st_rel ro s s"
  by (simp add: st_rel_def)

lemma st_rel_trans: "st_rel ro s s' \<Longrightarrow> st_rel ro s' s'' \<Longrightarrow> st_rel ro s s''"
  unfolding st_rel_def by (meson order_trans same_world_trans)

lemma op_rel:
  assumes "ok s" and "op_legal (e_kec env) p (W s)" and "\<And>tx. total_balance (world_op (e_kec env) tx p (W s)) \<le> total_balance (W s)"
    and "\<And>tx. ro \<Longrightarrow> same_world (e_kec env) (W s) (world_op (e_kec env) tx p (W s))"
  shows "st_rel ro s (db_op (e_db env) p s)"
proof -
  from writes [OF assms(1,2)] obtain tx where "ok (db_op (e_db env) p s)" "W (db_op (e_db env) p s) = world_op (e_kec env) tx p (W s)"
    "\<forall>j w. revision s j w \<longrightarrow> revision (db_op (e_db env) p s) j w" by (elim conjE exE)
  then show ?thesis using assms(3,4) by (simp add: st_rel_def)
qed

lemma write_rels:
  assumes "ok s"
  shows "st_rel False s (db_SetNonce (e_db env) s a n)" "length c < code_limit \<Longrightarrow> st_rel False s (db_SetCode (e_db env) s a c)"
    "st_rel False s (db_AddRefund (e_db env) s g)" "length v = 32 \<Longrightarrow> st_rel False s (db_SetState (e_db env) s a k v)"
    "st_rel False s (db_AddLog (e_db env) s lg)" "st_rel False s (db_CreateAccount (e_db env) s a)"
  using op_rel [OF assms, of "OpSetNonce a n" False] op_rel [OF assms, of "OpSetCode a c" False] op_rel [OF assms, of "OpAddRefund g" False]
    op_rel [OF assms, of "OpSetState a k v" False] op_rel [OF assms, of "OpAddLog lg" False] op_rel [OF assms, of "OpCreateAccount a" False]
  by (simp_all only: total_world_op db_op.simps op_legal.simps simp_thms order_refl)

lemma preimage_rel:
  assumes "ok s"
  shows "st_rel ro s (db_AddPreimage (e_db env) s h p)"
  using op_rel [OF assms, of "OpAddPreimage h p" ro] total_world_op(7) by (simp add: same_world_def)

lemma create_rel:
  assumes "ok s" and "\<not> db_Exist (e_db env) s a"
  shows "st_rel ro s (db_CreateAccount (e_db env) s a)"
proof -
  have "w_acct (W s) a = None" using assms Exist by simp
  then have "same_world (e_kec env) (W s) (world_op (e_kec env) tx (OpCreateAccount a) (W s))" for tx
    by (simp add: same_world_def) (simp add: acct_at_def empty_acct_def)
  then show ?thesis using op_rel [OF assms(1), of "OpCreateAccount a" ro] by (simp only: total_world_op db_op.simps op_legal.simps simp_thms order_refl)
qed

lemma money_ops:
  assumes "ok s" and "length a = 20"
  shows "0 \<le> v \<Longrightarrow> v \<le> bal (W s) a \<Longrightarrow> ok (db_SubBalance (e_db env) s a v) \<and> (\<forall>j w. revision s j w \<longrightarrow> revision (db_SubBalance (e_db env) s a v) j w) \<and>
      total_balance (W (db_SubBalance (e_db env) s a v)) = total_balance (W s) - v \<and>
      (v = 0 \<longrightarrow> same_world (e_kec env) (W s) (W (db_SubBalance (e_db env) s a v)))"
    "0 \<le> v \<Longrightarrow> ok (db_AddBalance (e_db env) s a v) \<and> (\<forall>j w. revision s j w \<longrightarrow> revision (db_AddBalance (e_db env) s a v) j w) \<and>
      total_balance (W (db_AddBalance (e_db env) s a v)) = total_balance (W s) + v \<and>
      (v = 0 \<longrightarrow> same_world (e_kec env) (W s) (W (db_AddBalance (e_db env) s a v)))"
proof -
  assume v: "0 \<le> v" "v \<le> bal (W s) a"
  then have l: "op_legal (e_kec env) (OpSubBalance a v) (W s)" by (simp add: bal_at [of _ _ "e_kec env"])
  have "same_world (e_kec env) (W s) (world_op (e_kec env) tx (OpSubBalance a 0) (W s))" for tx by (cases tx) (simp add: same_world_def Let_def)
  then show "ok (db_SubBalance (e_db env) s a v) \<and> (\<forall>j w. revision s j w \<longrightarrow> revision (db_SubBalance (e_db env) s a v) j w) \<and>
      total_balance (W (db_SubBalance (e_db env) s a v)) = total_balance (W s) - v \<and>
      (v = 0 \<longrightarrow> same_world (e_kec env) (W s) (W (db_SubBalance (e_db env) s a v)))"
    using writes [OF assms(1) l] total_money(1) [OF assms(2)] by auto
next
  assume v: "0 \<le> v"
  then have l: "op_legal (e_kec env) (OpAddBalance a v) (W s)" by simp
  have "same_world (e_kec env) (W s) (world_op (e_kec env) tx (OpAddBalance a 0) (W s))" for tx by (cases tx) (simp add: same_world_def Let_def)
  then show "ok (db_AddBalance (e_db env) s a v) \<and> (\<forall>j w. revision s j w \<longrightarrow> revision (db_AddBalance (e_db env) s a v) j w) \<and>
      total_balance (W (db_AddBalance (e_db env) s a v)) = total_balance (W s) + v \<and>
      (v = 0 \<longrightarrow> same_world (e_kec env) (W s) (W (db_AddBalance (e_db env) s a v)))"
    using writes [OF assms(1) l] total_money(2) [OF assms(2)] by auto
qed

lemma bal_GetBalance: "ok s \<Longrightarrow> db_GetBalance (e_db env) s a = bal (W s) a"
  by (simp add: GetBalance bal_at [of _ _ "e_kec env"])

text \<open>A transfer moves money; where writing is forbidden only nothing can be moved.\<close>

lemma transfer_rel:
  assumes "ok s" and "length a = 20" and "length b = 20" and "0 \<le> v" and "CanTransfer (e_Context env) s a v" and "ro \<Longrightarrow> v = 0"
  shows "st_rel ro s (Transfer (e_Context env) s a b v)"
proof -
  have cx: "context_ok (e_db env) (e_Context env)" using env [OF assms(1)] by (simp add: env_ok_def)
  let ?s1 = "db_SubBalance (e_db env) s a v"
  have "v \<le> bal (W s) a" using assms(5) cx bal_GetBalance [OF assms(1)] by (simp add: context_ok_def)
  note s1 = money_ops(1) [OF assms(1,2,4) this]
  then have "ok ?s1" by blast
  note s2 = money_ops(2) [OF this assms(3,4)]
  have "Transfer (e_Context env) s a b v = db_AddBalance (e_db env) ?s1 b v" using cx by (simp add: context_ok_def)
  then show ?thesis using s1 s2 assms(6) same_world_trans unfolding st_rel_def by auto
qed

lemma suicide_rel:
  assumes "ok s" and "length a = 20" and "length b = 20"
  shows "st_rel False s (snd (db_Suicide (e_db env) (db_AddBalance (e_db env) s b (db_GetBalance (e_db env) s a)) a))"
proof -
  let ?v = "db_GetBalance (e_db env) s a"
  let ?s1 = "db_AddBalance (e_db env) s b ?v"
  have v: "?v = bal (W s) a" "0 \<le> ?v" using bal_GetBalance [OF assms(1)] bal_le_total [OF world [OF assms(1)] assms(2)] by auto
  note s1 = money_ops(2) [OF assms(1,3) v(2)]
  have "op_legal (e_kec env) (OpAddBalance b ?v) (W s)" using v(2) by simp
  from writes [OF assms(1) this] obtain tx where w1: "W ?s1 = world_op (e_kec env) tx (OpAddBalance b ?v) (W s)" by auto
  have ge: "?v \<le> bal (W ?s1) a" unfolding w1 bal_world_op(9) using v by auto
  have ok1: "ok ?s1" using s1 by blast
  have "op_legal (e_kec env) (OpSuicide a) (W ?s1)" by simp
  from writes [OF ok1 this] obtain tx2 where w2: "ok (snd (db_Suicide (e_db env) ?s1 a))"
    "W (snd (db_Suicide (e_db env) ?s1 a)) = world_op (e_kec env) tx2 (OpSuicide a) (W ?s1)"
    "\<forall>j w. revision ?s1 j w \<longrightarrow> revision (snd (db_Suicide (e_db env) ?s1 a)) j w" by auto
  have "total_balance (W (snd (db_Suicide (e_db env) ?s1 a))) \<le> total_balance (W s)"
    unfolding w2(2) total_money(3) [OF assms(2)] using s1 ge by simp
  then show ?thesis using w2 s1 by (simp add: st_rel_def)
qed

text \<open>Taking a snapshot, doing something and reverting.\<close>

lemma snapshot_rel:
  assumes "ok s" and "db_Snapshot (e_db env) s = (rid, s1)"
  shows "st_rel ro s s1" "revision s1 rid (W s)" "W s1 = W s" "ok s1"
  using Snapshot [OF assms] by (auto simp: st_rel_def)

lemma revert_rel:
  assumes "ok s" and "db_Snapshot (e_db env) s = (rid, s1)" and "st_rel ro s1 s2"
  shows "\<exists>s3. db_RevertToSnapshot (e_db env) s2 rid = Ret s3 \<and> W s3 = W s \<and> (\<forall>ro'. st_rel ro' s s3)"
proof -
  note sn = Snapshot [OF assms(1,2)]
  have "ok s2" "revision s2 rid (W s)" using assms(3) sn by (auto simp: st_rel_def)
  from Revert [OF this] obtain s3 where s3: "db_RevertToSnapshot (e_db env) s2 rid = Ret s3" "ok s3" "W s3 = W s"
    "\<forall>j v. j < rid \<longrightarrow> revision s2 j v \<longrightarrow> revision s3 j v" by auto
  moreover have "revision s3 j v" if "revision s j v" for j v
    using s3(4) sn assms(3) that unfolding st_rel_def by blast
  ultimately show ?thesis by (auto simp: st_rel_def)
qed

end

end
