(* ===== verification/Evm_Memory.thy ===== *)
theory Evm_Memory
  imports Evm_Contract
begin

text \<open>
  Ranges: what the helpers of the virtual machine return when their arguments are 256-bit words and the
  memory has the size the instruction asked for.  No slice expression leaves its bounds then, and every
  number an instruction computes is a 256-bit word again.
\<close>

section \<open>Memory\<close>

definition mem_limit :: nat where
  "mem_limit = 2 ^ 40"

abbreviation mlen :: "Memory \<Rightarrow> nat" where
  "mlen m \<equiv> length (Memory.store m)"

text \<open>The region of \<open>l\<close> bytes at \<open>off\<close> is inside the memory.\<close>

definition in_mem :: "int \<Rightarrow> int \<Rightarrow> Memory \<Rightarrow> bool" where
  "in_mem off l m \<longleftrightarrow> 0 \<le> off \<and> 0 \<le> l \<and> calcMemSize off l \<le> int (mlen m) \<and> mlen m \<le> mem_limit"

lemma in_mem_bounds:
  assumes "in_mem off l m" and "l \<noteq> 0"
  shows "0 \<le> off" "0 < l" "off + l \<le> int (mlen m)" "off + l \<le> 2 ^ 40"
  using assms by (auto simp: in_mem_def calcMemSize_def mem_limit_def)

lemma Memory_Get_ok:
  assumes "in_mem off l m"
  shows "\<exists>b. Memory_Get (big_Int64 off) (big_Int64 l) m = Ret b \<and> length b = nat l"
proof (cases "l = 0")
  case False
  note b = in_mem_bounds [OF assms False]
  have i: "big_Int64 off = off" "big_Int64 l = l" "wrap64 (off + l) = off + l"
    using b by (simp_all add: big_Int64_small wrap64_id)
  show ?thesis using b by (simp add: Memory_Get_def i)
qed (simp add: Memory_Get_def big_Int64_small)

lemma Memory_GetPtr_ok:
  assumes "in_mem off l m"
  shows "\<exists>b. Memory_GetPtr (big_Int64 off) (big_Int64 l) m = Ret b \<and> length b = nat l"
  using Memory_Get_ok [OF assms] by (simp add: Memory_Get_def Memory_GetPtr_def)

lemma copy_at_length: "i + length v \<le> length s \<Longrightarrow> length (copy_at i v s) = length s"
  by (simp add: copy_at_def)

lemma Memory_Set_ok:
  assumes "in_mem off l m"
  shows "\<exists>m'. Memory_Set (big_Uint64 off) (big_Uint64 l) v m = Ret m' \<and> mlen m' = mlen m"
proof (cases "l = 0")
  case False
  note b = in_mem_bounds [OF assms False]
  have u: "unat (big_Uint64 off) = nat off" "unat (big_Uint64 l) = nat l" using b by (simp_all add: big_Uint64_small)
  have add: "unat (big_Uint64 off + big_Uint64 l) = nat off + nat l" using b by (simp add: unat_word_ariths u)
  have "big_Uint64 l > 0" using b u by (simp add: word_less_nat_alt)
  moreover have "big_Uint64 off \<le> big_Uint64 off + big_Uint64 l" by (simp add: word_le_nat_alt add u)
  moreover have "nat off + nat l \<le> mlen m" using b by linarith
  ultimately show ?thesis by (simp add: Memory_Set_def u add copy_at_length)
qed (simp add: Memory_Set_def big_Uint64_def)

lemma Resize_length: "mlen (Resize sz m) = max (mlen m) (unat sz)"
  by (simp add: Resize_def)

section \<open>Slices of data\<close>

lemma slice_ok: "s \<le> e \<Longrightarrow> unat e \<le> length data \<Longrightarrow> \<exists>b. slice_from_to data s e = Ret b \<and> length b = unat e - unat s"
  by (simp add: slice_from_to_def)

lemma getDataBig_ok:
  assumes "0 \<le> start" and "0 \<le> sz" and "length data < 2 ^ 63"
  shows "\<exists>b. getDataBig data start sz = Ret b \<and> (sz = 32 \<longrightarrow> length b = 32)"
proof -
  define u where "u = BigMin start (int (length data))"
  define e where "e = BigMin (u + sz) (int (length data))"
  have r: "0 \<le> u" "u \<le> e" "e \<le> int (length data)" "e \<le> u + sz" using assms by (auto simp: BigMin_def u_def e_def)
  have n: "unat (big_Uint64 u) = nat u" "unat (big_Uint64 e) = nat e" using r assms(3) by (simp_all add: big_Uint64_small)
  have "big_Uint64 u \<le> big_Uint64 e" "unat (big_Uint64 e) \<le> length data" using r by (simp_all add: word_le_nat_alt n)
  from slice_ok [OF this] obtain b where b: "slice_from_to data (big_Uint64 u) (big_Uint64 e) = Ret b" "length b = nat e - nat u"
    unfolding n by blast
  have "length b \<le> nat sz" using b(2) r by linarith
  moreover have "getDataBig data start sz = Ret (RightPadBytes b (sint (big_Uint64 sz)))"
    by (simp add: getDataBig_def Let_def b(1) flip: u_def e_def)
  ultimately show ?thesis by (auto simp: RightPadBytes_def big_Uint64_def)
qed

lemma RightPadBytes_length: "length (RightPadBytes b l) = max (length b) (nat l)"
  by (simp add: RightPadBytes_def)

lemma LeftPadBytes_length: "length (LeftPadBytes b l) = max (length b) (nat l)"
  by (simp add: LeftPadBytes_def)

section \<open>Words\<close>

lemma is_u256_SetBytes: "length b \<le> 32 \<Longrightarrow> is_u256 (big_SetBytes b)"
proof -
  assume "length b \<le> 32"
  then have "(256 :: nat) ^ length b \<le> 256 ^ 32" by (intro power_increasing) simp_all
  then have "be_nat b < 256 ^ 32" using be_nat_less [of b] by linarith
  then show ?thesis by (simp add: is_u256_def big_SetBytes_def)
qed

lemma is_u256_of_test [simp]: "is_u256 (of_test b)"
  by (simp add: of_test_def is_u256_def)

lemma is_u256_numerals [simp]: "is_u256 0" "is_u256 1"
  by (simp_all add: is_u256_def)

lemma is_u256_uint [simp]: "is_u256 (uint (w :: u64))" "is_u256 (uint (b :: byte))"
proof -
  have "uint w < 2 ^ 64" "uint b < 2 ^ 8" using uint_lt2p [of w] uint_lt2p [of b] by simp_all
  then show "is_u256 (uint (w :: u64))" "is_u256 (uint (b :: byte))" by (auto intro: is_u256_small)
qed

lemma is_u256_bits:
  assumes "is_u256 x" and "is_u256 y"
  shows "is_u256 (x AND y)" "is_u256 (x OR y)" "is_u256 (x XOR y)"
  using assms OR_upper [of x 256 y] XOR_upper [of x 256 y] AND_upper1 [of x y] by (auto simp: is_u256_def intro: le_less_trans)

lemma is_u256_Exp: "is_u256 (Exp b e)"
proof -
  obtain r c where "exp_words (Bits e) (1, b) = (r, c)" by fastforce
  then show ?thesis using exp_words_range [of 1 "Bits e" b r c] by (simp add: Exp_def)
qed

lemma BigToAddress_length [simp]: "length (BigToAddress a) = 20"
  by (simp add: BigToAddress_def BytesToAddress_def AddressLength_def)

lemma BigToHash_length [simp]: "length (BigToHash a) = 32"
  by (simp add: BigToHash_def)

end
