(* ===== verification/Evm_Safe.thy ===== *)
theory Evm_Safe
  imports Evm_Memory
begin

text \<open>
  A frame is well typed when its stack holds at most 1024 words of 256 bits, its memory has at most
  $2^{40}$ bytes, its contract is well formed and the machine is.  The instructions that call no
  contract keep a frame well typed and do not panic, provided the interpreter has validated the stack
  and expanded the memory.
\<close>

section \<open>Well-formed contracts and cached analyses\<close>

definition input_limit :: nat where
  "input_limit = 2 ^ 62"

definition dests_ok :: "(bytes \<Rightarrow> bytes) \<Rightarrow> destinations \<Rightarrow> bool" where
  "dests_ok kec d \<longleftrightarrow> (\<forall>h m. d h = Some m \<longrightarrow> (\<exists>code. kec code = h \<and> length code < code_limit \<and> codeBitmap code = Ret m))"

definition contract_ok :: "(bytes \<Rightarrow> bytes) \<Rightarrow> Contract \<Rightarrow> bool" where
  "contract_ok kec c \<longleftrightarrow> length (Code c) < code_limit \<and> (Code c \<noteq> [] \<longrightarrow> CodeHash c = kec (Code c)) \<and> dests_ok kec (jumpdests c) \<and>
     (\<exists>v. c_value c = Some v \<and> is_u256 v) \<and> length (c_self c) = 20 \<and> length (CallerAddress c) = 20"

lemma codeBitmap_length: "codeBitmap code = Ret m \<Longrightarrow> length m = length code div 8 + 5"
  using codeBitmap_ok [of code] by auto

text \<open>A lookup of a jump destination does not panic and keeps the cache.\<close>

lemma destinations_has_safe:
  assumes "kec_sized kec" and "dests_ok kec d" and "length code < code_limit" and "code \<noteq> [] \<longrightarrow> h = kec code" and "0 \<le> dest"
  shows "\<exists>b d'. destinations_has h code dest d = Ret (b, d') \<and> dests_ok kec d'"
proof (cases "BitLen dest \<ge> 63 \<or> unat (big_Uint64 dest) \<ge> length code")
  case True
  then show ?thesis using assms(2) by (intro exI [of _ False] exI [of _ d]) (simp add: destinations_has_def Let_def)
next
  case False
  let ?u = "unat (big_Uint64 dest)"
  have u: "?u < length code" using False by simp
  then have h: "h = kec code" using assms(4) by auto
  have seg: "\<exists>b. codeSegment ?u m = Ret b" if "length m = length code div 8 + 5" for m
  proof -
    have "?u div 8 \<le> length code div 8" using u by (intro div_le_mono) simp
    then show ?thesis using that by (simp add: codeSegment_def)
  qed
  show ?thesis
  proof (cases "d h")
    case None
    obtain m where m: "codeBitmap code = Ret m" "length m = length code div 8 + 5" using codeBitmap_ok by blast
    have "dests_ok kec (d(h \<mapsto> m))" using assms(2,3) m h by (auto simp: dests_ok_def)
    then show ?thesis using False None m seg [OF m(2)] by (auto simp: destinations_has_def Let_def)
  next
    case (Some m)
    then obtain c where c: "kec c = h" "length c < code_limit" "codeBitmap c = Ret m" using assms(2) unfolding dests_ok_def by blast
    then have "length c = length code" using assms(1,3) h unfolding kec_sized_def by metis
    then have "length m = length code div 8 + 5" using codeBitmap_length [OF c(3)] by simp
    from seg [OF this] obtain b where "codeSegment ?u m = Ret b" ..
    then show ?thesis using False Some assms(2) by (auto simp: destinations_has_def Let_def)
  qed
qed

section \<open>Well-typed frames\<close>

context evm_state
begin

definition machine_ok :: "'s EVM \<Rightarrow> bool" where
  "machine_ok e \<longleftrightarrow> ok (e_StateDB e) \<and> total_balance (W (e_StateDB e)) < 2 ^ 256 \<and> length (e_returnData e) < 2 ^ 64"

definition frame_ok :: "'s frame \<Rightarrow> bool" where
  "frame_ok f \<longleftrightarrow> list_all is_u256 (f_stack f) \<and> length (f_stack f) \<le> StackLimit \<and> mlen (f_mem f) \<le> mem_limit \<and>
     contract_ok (e_kec env) (f_contract f) \<and> length (Input (f_contract f)) < input_limit \<and> machine_ok (f_evm f)"

text \<open>Writing is forbidden.\<close>

definition static :: "'s EVM \<Rightarrow> bool" where
  "static e \<longleftrightarrow> ru_IsByzantium (Rules_of (e_chainConfig env) (blockNumber env)) \<and> e_readOnly e"

definition moves :: "'s frame \<Rightarrow> 's frame \<Rightarrow> bool" where
  "moves f f' \<longleftrightarrow> frame_ok f' \<and> st_rel (static (f_evm f)) (f_db f) (f_db f') \<and> e_readOnly (f_evm f') = e_readOnly (f_evm f)"

definition out_ok :: "vm_error + bytes \<Rightarrow> bool" where
  "out_ok y \<longleftrightarrow> (\<forall>b. y = Inr b \<longrightarrow> length b \<le> mem_limit)"

definition safe_at :: "'s frame \<Rightarrow> ((vm_error + bytes) \<times> 's frame) go \<Rightarrow> bool" where
  "safe_at f r \<longleftrightarrow> (\<exists>y f'. r = Ret (y, f') \<and> moves f f' \<and> out_ok y)"

lemma frame_okD:
  assumes "frame_ok f"
  shows "list_all is_u256 (f_stack f)" "length (f_stack f) \<le> StackLimit" "mlen (f_mem f) \<le> mem_limit"
    "contract_ok (e_kec env) (f_contract f)" "length (Input (f_contract f)) < input_limit" "ok (f_db f)"
    "total_balance (W (f_db f)) < 2 ^ 256" "length (e_returnData (f_evm f)) < 2 ^ 64" "env_ok env"
  using assms env [of "f_db f"] by (auto simp: frame_ok_def machine_ok_def f_db_def)

lemma moves_refl: "frame_ok f \<Longrightarrow> moves f f"
  by (simp add: moves_def st_rel_refl frame_okD)

lemma moves_trans: "moves f f' \<Longrightarrow> moves f' f'' \<Longrightarrow> moves f f''"
  unfolding moves_def static_def using st_rel_trans by auto

lemma out_ok_simps [simp]: "out_ok (Inl e)" "out_ok (Inr [])" "out_ok (Inr b) \<longleftrightarrow> length b \<le> mem_limit"
  by (simp_all add: out_ok_def)

text \<open>A local change: stack, memory, program counter.\<close>

lemma moves_local:
  assumes "frame_ok f" and "list_all is_u256 st" and "length st \<le> StackLimit" and "mlen m \<le> mem_limit"
  shows "moves f (f\<lparr>f_stack := st\<rparr>)" "moves f (f\<lparr>f_stack := st, f_mem := m\<rparr>)" "moves f (f\<lparr>f_mem := m, f_stack := st\<rparr>)"
    "moves f (f\<lparr>f_stack := st, f_pc := p\<rparr>)" "moves f (f\<lparr>f_pc := p, f_stack := st\<rparr>)" "moves f (f\<lparr>f_mem := m\<rparr>)"
  using assms st_rel_refl [OF frame_okD(6) [OF assms(1)]] by (auto simp: moves_def frame_ok_def f_db_def)

lemma moves_db:
  assumes "frame_ok f" and "st_rel (static (f_evm f)) (f_db f) s"
  shows "moves f (set_db s f)"
  using assms by (auto simp: moves_def frame_ok_def machine_ok_def f_db_def st_rel_def)

lemma set_stack_safe:
  assumes "frame_ok f" and "list_all is_u256 st" and "length st \<le> StackLimit"
  shows "safe_at f (set_stack f st)"
  using moves_local(1) [OF assms frame_okD(3) [OF assms(1)]] by (simp add: safe_at_def set_stack_def)

text \<open>The memory an instruction declares is there.\<close>

definition covers :: "(stack \<Rightarrow> int go) option \<Rightarrow> 's frame \<Rightarrow> bool" where
  "covers need f \<longleftrightarrow> (\<forall>g. need = Some g \<longrightarrow> (\<exists>sz. g (f_stack f) = Ret sz \<and> sz \<le> int (mlen (f_mem f))))"

definition ex_safe :: "nat \<Rightarrow> nat \<Rightarrow> (stack \<Rightarrow> int go) option \<Rightarrow> bool \<Rightarrow> 's exec \<Rightarrow> bool" where
  "ex_safe n k need wr ex \<longleftrightarrow> (\<forall>f. frame_ok f \<longrightarrow> n \<le> length (f_stack f) \<longrightarrow> length (f_stack f) + k \<le> StackLimit + n \<longrightarrow>
     covers need f \<longrightarrow> (wr \<longrightarrow> \<not> static (f_evm f)) \<longrightarrow> safe_at f (ex f))"

lemma ex_safeI:
  assumes "\<And>f. frame_ok f \<Longrightarrow> n \<le> length (f_stack f) \<Longrightarrow> length (f_stack f) + k \<le> StackLimit + n \<Longrightarrow> covers need f \<Longrightarrow>
    (wr \<Longrightarrow> \<not> static (f_evm f)) \<Longrightarrow> safe_at f (ex f)"
  shows "ex_safe n k need wr ex"
  using assms by (simp add: ex_safe_def)

text \<open>Stacks with known tops.\<close>

lemma stack1: "1 \<le> length st \<Longrightarrow> \<exists>x st'. st = x # st'"
  by (cases st) auto

lemma stack2: "2 \<le> length st \<Longrightarrow> \<exists>x y st'. st = x # y # st'"
  by (cases st; cases "tl st") auto

lemma stack3: "3 \<le> length st \<Longrightarrow> \<exists>x y z st'. st = x # y # z # st'"
  by (cases st; cases "tl st"; cases "tl (tl st)") auto

lemma stack4: "4 \<le> length st \<Longrightarrow> \<exists>x y z u st'. st = x # y # z # u # st'"
  using stack3 [of "tl st"] by (cases st) auto

section \<open>Arithmetic\<close>

lemma stack_ops_safe:
  "(\<And>x. is_u256 x \<Longrightarrow> is_u256 (g x)) \<Longrightarrow> ex_safe 1 1 need wr (stack_op1 g)"
  "(\<And>x y. is_u256 x \<Longrightarrow> is_u256 y \<Longrightarrow> is_u256 (g2 x y)) \<Longrightarrow> ex_safe 2 1 need wr (stack_op2 g2)"
  "(\<And>x y z. is_u256 x \<Longrightarrow> is_u256 y \<Longrightarrow> is_u256 z \<Longrightarrow> is_u256 (g3 x y z)) \<Longrightarrow> ex_safe 3 1 need wr (stack_op3 g3)"
  "is_u256 v \<Longrightarrow> ex_safe 0 1 need wr (push_value v)"
proof -
  assume g: "\<And>x. is_u256 x \<Longrightarrow> is_u256 (g x)"
  show "ex_safe 1 1 need wr (stack_op1 g)"
  proof (rule ex_safeI)
    fix f assume f: "frame_ok f" "1 \<le> length (f_stack f)" "length (f_stack f) + 1 \<le> StackLimit + 1"
    then obtain x st where st: "f_stack f = x # st" using stack1 by blast
    show "safe_at f (stack_op1 g f)" using f g frame_okD(1) [OF f(1)] by (simp add: stack_op1_def st push_def set_stack_safe)
  qed
next
  assume g: "\<And>x y. is_u256 x \<Longrightarrow> is_u256 y \<Longrightarrow> is_u256 (g2 x y)"
  show "ex_safe 2 1 need wr (stack_op2 g2)"
  proof (rule ex_safeI)
    fix f assume f: "frame_ok f" "2 \<le> length (f_stack f)" "length (f_stack f) + 1 \<le> StackLimit + 2"
    then obtain x y st where st: "f_stack f = x # y # st" using stack2 by blast
    show "safe_at f (stack_op2 g2 f)" using f g frame_okD(1) [OF f(1)] by (simp add: stack_op2_def st push_def set_stack_safe)
  qed
next
  assume g: "\<And>x y z. is_u256 x \<Longrightarrow> is_u256 y \<Longrightarrow> is_u256 z \<Longrightarrow> is_u256 (g3 x y z)"
  show "ex_safe 3 1 need wr (stack_op3 g3)"
  proof (rule ex_safeI)
    fix f assume f: "frame_ok f" "3 \<le> length (f_stack f)" "length (f_stack f) + 1 \<le> StackLimit + 3"
    then obtain x y z st where st: "f_stack f = x # y # z # st" using stack3 by blast
    show "safe_at f (stack_op3 g3 f)" using f g frame_okD(1) [OF f(1)] by (simp add: stack_op3_def st push_def set_stack_safe)
  qed
next
  assume v: "is_u256 v"
  show "ex_safe 0 1 need wr (push_value v)"
    by (rule ex_safeI) (use v frame_okD(1) in \<open>simp add: push_value_def push_def set_stack_safe\<close>)
qed

lemma arithmetic_safe:
  "ex_safe 2 1 need wr opAdd" "ex_safe 2 1 need wr opMul" "ex_safe 2 1 need wr opSub" "ex_safe 2 1 need wr opDiv"
  "ex_safe 2 1 need wr opSdiv" "ex_safe 2 1 need wr opMod" "ex_safe 2 1 need wr opSmod" "ex_safe 3 1 need wr opAddmod"
  "ex_safe 3 1 need wr opMulmod" "ex_safe 2 1 need wr opExp" "ex_safe 2 1 need wr opLt" "ex_safe 2 1 need wr opGt"
  "ex_safe 2 1 need wr opSlt" "ex_safe 2 1 need wr opSgt" "ex_safe 2 1 need wr opEq" "ex_safe 1 1 need wr opIszero"
  "ex_safe 2 1 need wr opAnd" "ex_safe 2 1 need wr opXor" "ex_safe 2 1 need wr opOr" "ex_safe 1 1 need wr opNot" "ex_safe 2 1 need wr opByte"
  unfolding opAdd_def opMul_def opSub_def opDiv_def opSdiv_def opMod_def opSmod_def opAddmod_def opMulmod_def opExp_def
    opLt_def opGt_def opSlt_def opSgt_def opEq_def opIszero_def opAnd_def opXor_def opOr_def opNot_def opByte_def Let_def
  by (rule stack_ops_safe, simp add: is_u256_bits is_u256_Exp)+

lemma opSignExtend_safe: "ex_safe 2 1 need wr opSignExtend"
proof (rule ex_safeI)
  fix f assume f: "frame_ok f" "2 \<le> length (f_stack f)" "length (f_stack f) + 1 \<le> StackLimit + 2"
  then obtain x y st where st: "f_stack f = x # y # st" using stack2 by blast
  show "safe_at f (opSignExtend f)" using f frame_okD(1) [OF f(1)]
    by (auto simp: opSignExtend_def st push_def Let_def intro!: set_stack_safe)
qed

lemma simple_stops: "ex_safe 0 0 need wr opStop" "ex_safe 0 0 need wr opJumpdest" "ex_safe 1 0 need wr opPop"
proof -
  show "ex_safe 0 0 need wr opStop" "ex_safe 0 0 need wr opJumpdest"
    by (rule ex_safeI; simp add: safe_at_def opStop_def opJumpdest_def moves_refl)+
  show "ex_safe 1 0 need wr opPop"
  proof (rule ex_safeI)
    fix f assume f: "frame_ok f" "1 \<le> length (f_stack f)" "length (f_stack f) + 0 \<le> StackLimit + 1"
    then obtain x st where st: "f_stack f = x # st" using stack1 by blast
    then show "safe_at f (opPop f)" using f frame_okD(1,2) [OF f(1)] by (simp add: opPop_def set_stack_safe)
  qed
qed

section \<open>Data of the call, the block and the accounts\<close>

lemma push_safe: "frame_ok f \<Longrightarrow> length (f_stack f) + 1 \<le> StackLimit + 0 \<Longrightarrow> is_u256 v \<Longrightarrow> safe_at f (push_value v f)"
  using frame_okD(1) by (simp add: push_value_def push_def set_stack_safe)

lemma op1_safe: "frame_ok f \<Longrightarrow> 1 \<le> length (f_stack f) \<Longrightarrow> (\<And>x. is_u256 x \<Longrightarrow> is_u256 (g x)) \<Longrightarrow> safe_at f (stack_op1 g f)"
  using stack_ops_safe(1) [of g None False] frame_okD(2) [of f] unfolding ex_safe_def covers_def by simp

lemma code_small: "code_limit < 2 ^ 64" "int code_limit < 2 ^ 64" "int code_limit < 2 ^ 256" "input_limit < 2 ^ 64" "input_limit < 2 ^ 63"
  by (simp_all add: code_limit_def input_limit_def)

lemma contract_words:
  assumes "frame_ok f"
  shows "is_u256 (big_SetBytes (c_self (f_contract f)))" "is_u256 (big_SetBytes (CallerAddress (f_contract f)))"
    "\<exists>v. c_value (f_contract f) = Some v \<and> is_u256 v" "is_u256 (int (length (Input (f_contract f))))" "is_u256 (int (length (Code (f_contract f))))"
    "is_u256 (int (length (e_returnData (f_evm f))))" "is_u256 (Memory_Len (f_mem f))"
  using frame_okD [OF assms] code_small
  by (auto simp: contract_ok_def mem_limit_def Memory_Len_def code_limit_def input_limit_def intro: is_u256_SetBytes is_u256_small)

lemma context_words:
  assumes "env_ok env"
  shows "is_u256 (big_SetBytes (Origin (e_Context env)))" "is_u256 (big_SetBytes (Coinbase (e_Context env)))"
    "is_u256 (GasPrice (e_Context env))" "is_u256 (big_SetBytes (GetHash (e_Context env) n))"
  using assms by (auto simp: env_ok_def context_ok_def intro: is_u256_SetBytes)

lemma environment_safe:
  "ex_safe 0 1 need wr opAddress" "ex_safe 0 1 need wr (opOrigin env)" "ex_safe 0 1 need wr opCaller" "ex_safe 0 1 need wr opCallValue"
  "ex_safe 0 1 need wr opCallDataSize" "ex_safe 0 1 need wr opCodeSize" "ex_safe 0 1 need wr (opGasprice env)"
  "ex_safe 0 1 need wr (opCoinbase env)" "ex_safe 0 1 need wr (opTimestamp env)" "ex_safe 0 1 need wr (opNumber env)"
  "ex_safe 0 1 need wr (opDifficulty env)" "ex_safe 0 1 need wr (opGasLimit env)" "ex_safe 0 1 need wr opPc" "ex_safe 0 1 need wr opMsize"
  "ex_safe 0 1 need wr opGas" "ex_safe 0 1 need wr opReturnDataSize" "ex_safe 1 1 need wr (opBlockhash env)"
proof -
  note words = contract_words context_words [OF frame_okD(9)]
  show "ex_safe 0 1 need wr opCallValue"
  proof (rule ex_safeI)
    fix f assume f: "frame_ok f" "length (f_stack f) + 1 \<le> StackLimit + 0"
    from words(3) [OF f(1)] show "safe_at f (opCallValue f)" using push_safe [OF f] by (auto simp: opCallValue_def)
  qed
  show "ex_safe 0 1 need wr opAddress" "ex_safe 0 1 need wr (opOrigin env)" "ex_safe 0 1 need wr opCaller"
    "ex_safe 0 1 need wr opCallDataSize" "ex_safe 0 1 need wr opCodeSize" "ex_safe 0 1 need wr (opGasprice env)"
    "ex_safe 0 1 need wr (opCoinbase env)" "ex_safe 0 1 need wr (opTimestamp env)" "ex_safe 0 1 need wr (opNumber env)"
    "ex_safe 0 1 need wr (opDifficulty env)" "ex_safe 0 1 need wr (opGasLimit env)" "ex_safe 0 1 need wr opPc" "ex_safe 0 1 need wr opMsize"
    "ex_safe 0 1 need wr opGas" "ex_safe 0 1 need wr opReturnDataSize"
    unfolding opAddress_def opOrigin_def opCaller_def opCallDataSize_def opCodeSize_def opGasprice_def
      opCoinbase_def opTimestamp_def opNumber_def opDifficulty_def opGasLimit_def opPc_def opMsize_def opGas_def opReturnDataSize_def
    by (rule ex_safeI, rule push_safe, assumption+, simp add: words)+
  show "ex_safe 1 1 need wr (opBlockhash env)"
    unfolding opBlockhash_def Let_def by (rule ex_safeI, rule op1_safe, assumption+, simp add: words)
qed

lemma acct_words:
  assumes "frame_ok f"
  shows "length a = 20 \<Longrightarrow> is_u256 (db_GetBalance (e_db env) (f_db f) a)" "is_u256 (db_GetCodeSize (e_db env) (f_db f) a)"
    "is_u256 (big_SetBytes (db_GetState (e_db env) (f_db f) a k))" "length (db_GetCode (e_db env) (f_db f) a) < code_limit"
    "db_GetCode (e_db env) (f_db f) a \<noteq> [] \<longrightarrow> db_GetCodeHash (e_db env) (f_db f) a = e_kec env (db_GetCode (e_db env) (f_db f) a)"
proof -
  have s: "ok (f_db f)" "total_balance (W (f_db f)) < 2 ^ 256" by (rule frame_okD [OF assms])+
  have x: "acct_ok (e_kec env) (acct_at (e_kec env) (W (f_db f)) a)" by (rule world_ok_at [OF world [OF s(1)]])
  show "is_u256 (db_GetBalance (e_db env) (f_db f) a)" if "length a = 20"
    using bal_le_total [OF world [OF s(1)] that] s(2) by (simp add: bal_GetBalance [OF s(1)] is_u256_def)
  show "is_u256 (db_GetCodeSize (e_db env) (f_db f) a)" "length (db_GetCode (e_db env) (f_db f) a) < code_limit"
    using x code_small by (auto simp: GetCodeSize [OF s(1)] GetCode [OF s(1)] acct_ok_def intro!: is_u256_small)
  show "is_u256 (big_SetBytes (db_GetState (e_db env) (f_db f) a k))"
    using x by (intro is_u256_SetBytes) (simp add: GetState [OF s(1)] acct_ok_def)
  show "db_GetCode (e_db env) (f_db f) a \<noteq> [] \<longrightarrow> db_GetCodeHash (e_db env) (f_db f) a = e_kec env (db_GetCode (e_db env) (f_db f) a)"
    using x by (auto simp: GetCodeHash [OF s(1)] GetCode [OF s(1)] acct_ok_def acct_at_def empty_acct_def split: option.splits)
qed

lemma accounts_safe: "ex_safe 1 1 need wr (opBalance env)" "ex_safe 1 1 need wr (opExtCodeSize env)" "ex_safe 1 1 need wr (opSload env)"
  unfolding opBalance_def opExtCodeSize_def opSload_def
  by (rule ex_safeI, rule op1_safe, assumption+, simp add: acct_words)+

section \<open>Memory\<close>

lemma stack_word: "frame_ok f \<Longrightarrow> i < length (f_stack f) \<Longrightarrow> is_u256 (f_stack f ! i)"
  using frame_okD(1) by (auto simp: list_all_length)

lemma covers_in_mem:
  assumes "frame_ok f" and "i < length (f_stack f)"
  shows "covers (Some (back_size i j)) f \<Longrightarrow> j < length (f_stack f) \<Longrightarrow> in_mem (f_stack f ! i) (f_stack f ! j) (f_mem f)"
    "covers (Some (back_fixed i l)) f \<Longrightarrow> 0 \<le> l \<Longrightarrow> in_mem (f_stack f ! i) l (f_mem f)"
proof -
  have w: "0 \<le> f_stack f ! k" if "k < length (f_stack f)" for k using stack_word [OF assms(1) that] by (rule is_u256_nonneg)
  show "covers (Some (back_size i j)) f \<Longrightarrow> j < length (f_stack f) \<Longrightarrow> in_mem (f_stack f ! i) (f_stack f ! j) (f_mem f)"
    "covers (Some (back_fixed i l)) f \<Longrightarrow> 0 \<le> l \<Longrightarrow> in_mem (f_stack f ! i) l (f_mem f)"
    using w assms(2) frame_okD(3) [OF assms(1)] by (auto simp: covers_def in_mem_def back_size_def back_fixed_def Back_def)
qed

lemma in_mem_out: "in_mem off l m \<Longrightarrow> nat l \<le> mem_limit"
  by (auto simp: in_mem_def calcMemSize_def split: if_splits)

lemma set_stack_mem_safe:
  assumes "frame_ok f" and "list_all is_u256 st" and "length st \<le> StackLimit" and "mlen m \<le> mem_limit"
  shows "safe_at f (set_stack (f\<lparr>f_mem := m\<rparr>) st)"
  using moves_local(3) [OF assms] by (simp add: safe_at_def set_stack_def)

lemma memory_set_safe:
  assumes "frame_ok f" and "list_all is_u256 st" and "length st \<le> StackLimit" and "in_mem off l (f_mem f)"
  shows "safe_at f (go_bind (Memory_Set (big_Uint64 off) (big_Uint64 l) v (f_mem f)) (\<lambda>m. set_stack (f\<lparr>f_mem := m\<rparr>) st))"
proof -
  obtain m where "Memory_Set (big_Uint64 off) (big_Uint64 l) v (f_mem f) = Ret m" "mlen m = mlen (f_mem f)"
    using Memory_Set_ok [OF assms(4)] by blast
  then show ?thesis using set_stack_mem_safe [OF assms(1-3)] frame_okD(3) [OF assms(1)] by simp
qed

lemma copy_safe:
  assumes "frame_ok f" and "list_all is_u256 st" and "length st \<le> StackLimit" and "in_mem off l (f_mem f)" and "0 \<le> d" and "length data < 2 ^ 63"
  shows "safe_at f (copy_to_memory off d l data st f)"
proof -
  have "0 \<le> l" using assms(4) by (simp add: in_mem_def)
  then obtain b where "getDataBig data d l = Ret b" using getDataBig_ok [OF assms(5) _ assms(6)] by blast
  then show ?thesis using memory_set_safe [OF assms(1-4)] by (simp add: copy_to_memory_def)
qed

lemma copies_safe:
  "ex_safe 3 0 (Some memoryCallDataCopy) wr opCallDataCopy" "ex_safe 3 0 (Some memoryCodeCopy) wr opCodeCopy"
  "ex_safe 4 0 (Some memoryExtCodeCopy) wr (opExtCodeCopy env)"
proof -
  have l: "code_limit < 2 ^ 63" by (simp add: code_limit_def)
  show "ex_safe 3 0 (Some memoryCallDataCopy) wr opCallDataCopy" "ex_safe 3 0 (Some memoryCodeCopy) wr opCodeCopy"
  proof (rule_tac [!] ex_safeI)
    fix f assume f: "frame_ok f" "3 \<le> length (f_stack f)" "covers (Some memoryCallDataCopy) f"
    obtain a b c st where st: "f_stack f = a # b # c # st" using stack3 [OF f(2)] by blast
    have "in_mem a c (f_mem f)" using covers_in_mem(1) [OF f(1), of 0 2] f(3) by (simp add: memory_table st)
    then show "safe_at f (opCallDataCopy f)" using frame_okD [OF f(1)] code_small
      by (simp add: opCallDataCopy_def st) (intro copy_safe [OF f(1)], auto intro: is_u256_nonneg)
  next
    fix f assume f: "frame_ok f" "3 \<le> length (f_stack f)" "covers (Some memoryCodeCopy) f"
    obtain a b c st where st: "f_stack f = a # b # c # st" using stack3 [OF f(2)] by blast
    have "in_mem a c (f_mem f)" using covers_in_mem(1) [OF f(1), of 0 2] f(3) by (simp add: memory_table st)
    then show "safe_at f (opCodeCopy f)" using frame_okD [OF f(1)] l
      by (simp add: opCodeCopy_def st contract_ok_def) (intro copy_safe [OF f(1)], auto intro: is_u256_nonneg)
  qed
  show "ex_safe 4 0 (Some memoryExtCodeCopy) wr (opExtCodeCopy env)"
  proof (rule ex_safeI)
    fix f assume f: "frame_ok f" "4 \<le> length (f_stack f)" "covers (Some memoryExtCodeCopy) f"
    obtain a b c d st where st: "f_stack f = a # b # c # d # st" using stack4 [OF f(2)] by blast
    have "in_mem b d (f_mem f)" using covers_in_mem(1) [OF f(1), of 1 3] f(3) by (simp add: memory_table st)
    then show "safe_at f (opExtCodeCopy env f)" using frame_okD [OF f(1)] acct_words(4) [OF f(1), of "BigToAddress a"] l
      by (simp add: opExtCodeCopy_def st) (intro copy_safe [OF f(1)], auto intro: is_u256_nonneg)
  qed
qed

lemma opReturnDataCopy_safe: "ex_safe 3 0 (Some memoryReturnDataCopy) wr opReturnDataCopy"
proof (rule ex_safeI)
  fix f assume f: "frame_ok f" "3 \<le> length (f_stack f)" "covers (Some memoryReturnDataCopy) f"
  obtain a b c st where st: "f_stack f = a # b # c # st" using stack3 [OF f(2)] by blast
  have m: "in_mem a c (f_mem f)" using covers_in_mem(1) [OF f(1), of 0 2] f(3) by (simp add: memory_table st)
  have w: "0 \<le> b" "0 \<le> c" "list_all is_u256 st" "length st \<le> StackLimit" using frame_okD(1,2) [OF f(1)] st by (auto simp: is_u256_def)
  let ?rd = "e_returnData (f_evm f)"
  show "safe_at f (opReturnDataCopy f)"
  proof (cases "BitLen (b + c) > 64 \<or> length ?rd < unat (big_Uint64 (b + c))")
    case True
    then show ?thesis using moves_local(1) [OF f(1) w(3,4) frame_okD(3) [OF f(1)]] by (auto simp: opReturnDataCopy_def st Let_def safe_at_def)
  next
    case False
    then have "b + c < 2 ^ 64" using BitLen_le [of "b + c" 64] w by simp
    then have u: "unat (big_Uint64 b) = nat b" "unat (big_Uint64 (b + c)) = nat (b + c)" using w by (simp_all add: big_Uint64_small)
    then have "big_Uint64 b \<le> big_Uint64 (b + c)" using w by (simp add: word_le_nat_alt)
    then obtain d where "slice_from_to ?rd (big_Uint64 b) (big_Uint64 (b + c)) = Ret d" using slice_ok [of _ _ ?rd] False by force
    then show ?thesis using False memory_set_safe [OF f(1) w(3,4) m, of d] by (simp add: opReturnDataCopy_def st Let_def)
  qed
qed

lemma loads_safe: "ex_safe 1 1 need wr opCallDataLoad" "ex_safe 1 1 (Some memoryMLoad) wr opMload"
proof -
  show "ex_safe 1 1 need wr opCallDataLoad"
  proof (rule ex_safeI)
    fix f assume f: "frame_ok f" "1 \<le> length (f_stack f)"
    obtain x st where st: "f_stack f = x # st" using stack1 [OF f(2)] by blast
    have w: "0 \<le> x" "list_all is_u256 st" "length st < StackLimit" using frame_okD(1,2) [OF f(1)] st by (auto simp: is_u256_def)
    have "length (Input (f_contract f)) < 2 ^ 63" using frame_okD(5) [OF f(1)] code_small by simp
    from getDataBig_ok [OF w(1) _ this, of 32] obtain b where "getDataBig (Input (f_contract f)) x 32 = Ret b" "length b = 32" by auto
    then show "safe_at f (opCallDataLoad f)" using w f(1) by (simp add: opCallDataLoad_def st push_def set_stack_safe is_u256_SetBytes)
  qed
  show "ex_safe 1 1 (Some memoryMLoad) wr opMload"
  proof (rule ex_safeI)
    fix f assume f: "frame_ok f" "1 \<le> length (f_stack f)" "covers (Some memoryMLoad) f"
    obtain x st where st: "f_stack f = x # st" using stack1 [OF f(2)] by blast
    have w: "list_all is_u256 st" "length st < StackLimit" using frame_okD(1,2) [OF f(1)] st by auto
    have "in_mem x 32 (f_mem f)" using covers_in_mem(2) [OF f(1), of 0 32] f(3) by (simp add: memory_table st)
    from Memory_Get_ok [OF this] obtain b where "Memory_Get (big_Int64 x) 32 (f_mem f) = Ret b" "length b = 32"
      by (auto simp: big_Int64_small)
    then show "safe_at f (opMload f)" using w f(1) by (simp add: opMload_def st push_def set_stack_safe is_u256_SetBytes)
  qed
qed

lemma stores_safe: "ex_safe 2 0 (Some memoryMStore) wr opMstore" "ex_safe 2 0 (Some memoryMStore8) wr opMstore8"
proof -
  show "ex_safe 2 0 (Some memoryMStore) wr opMstore"
  proof (rule ex_safeI)
    fix f assume f: "frame_ok f" "2 \<le> length (f_stack f)" "covers (Some memoryMStore) f"
    obtain x y st where st: "f_stack f = x # y # st" using stack2 [OF f(2)] by blast
    have w: "list_all is_u256 st" "length st \<le> StackLimit" using frame_okD(1,2) [OF f(1)] st by auto
    have m: "in_mem x 32 (f_mem f)" using covers_in_mem(2) [OF f(1), of 0 32] f(3) by (simp add: memory_table st)
    have "(32 :: u64) = big_Uint64 32" by (simp add: big_Uint64_def)
    then show "safe_at f (opMstore f)" using memory_set_safe [OF f(1) w m, of "PaddedBigBytes y 32"] by (simp add: opMstore_def st)
  qed
  show "ex_safe 2 0 (Some memoryMStore8) wr opMstore8"
  proof (rule ex_safeI)
    fix f assume f: "frame_ok f" "2 \<le> length (f_stack f)" "covers (Some memoryMStore8) f"
    obtain x y st where st: "f_stack f = x # y # st" using stack2 [OF f(2)] by blast
    have w: "list_all is_u256 st" "length st \<le> StackLimit" using frame_okD(1,2) [OF f(1)] st by auto
    have m: "in_mem x 1 (f_mem f)" using covers_in_mem(2) [OF f(1), of 0 1] f(3) by (simp add: memory_table st)
    note b = in_mem_bounds [OF m]
    have "big_Int64 x = x" using b by (simp add: big_Int64_small)
    then show "safe_at f (opMstore8 f)" using b frame_okD(3) [OF f(1)] set_stack_mem_safe [OF f(1) w] by (simp add: opMstore8_def st Let_def)
  qed
qed

lemma returns_safe: "ex_safe 2 0 (Some memoryReturn) wr opReturn" "ex_safe 2 0 (Some memoryRevert) wr opRevert"
proof -
  have "safe_at f (opReturn f) \<and> safe_at f (opRevert f)"
    if f: "frame_ok f" "2 \<le> length (f_stack f)" "covers (Some memoryReturn) f" for f
  proof -
    obtain x y st where st: "f_stack f = x # y # st" using stack2 [OF f(2)] by blast
    have w: "list_all is_u256 st" "length st \<le> StackLimit" using frame_okD(1,2) [OF f(1)] st by auto
    have m: "in_mem x y (f_mem f)" using covers_in_mem(1) [OF f(1), of 0 1] f(3) by (simp add: memory_table st)
    obtain b where "Memory_GetPtr (big_Int64 x) (big_Int64 y) (f_mem f) = Ret b" "length b = nat y" using Memory_GetPtr_ok [OF m] by blast
    then show ?thesis using in_mem_out [OF m] moves_local(1) [OF f(1) w frame_okD(3) [OF f(1)]]
      by (simp add: opReturn_def opRevert_def st safe_at_def)
  qed
  then show "ex_safe 2 0 (Some memoryReturn) wr opReturn" "ex_safe 2 0 (Some memoryRevert) wr opRevert"
    by (auto intro!: ex_safeI simp: memory_table)
qed

section \<open>Jumps\<close>

lemma jump_to_safe:
  assumes "frame_ok f" and "list_all is_u256 st" and "length st \<le> StackLimit" and "is_u256 pos"
  shows "safe_at f (jump_to pos st f)"
proof -
  have k: "kec_sized (e_kec env)" using frame_okD(9) [OF assms(1)] by (simp add: env_ok_def)
  have c: "contract_ok (e_kec env) (f_contract f)" by (rule frame_okD(4) [OF assms(1)])
  obtain b d where d: "destinations_has (CodeHash (f_contract f)) (Code (f_contract f)) pos (jumpdests (f_contract f)) = Ret (b, d)"
    "dests_ok (e_kec env) d"
    using destinations_has_safe [OF k, of "jumpdests (f_contract f)"] c is_u256_nonneg [OF assms(4)] unfolding contract_ok_def by blast
  let ?f = "f\<lparr>f_stack := st, f_contract := (f_contract f)\<lparr>jumpdests := d\<rparr>\<rparr>"
  have "contract_ok (e_kec env) ((f_contract f)\<lparr>jumpdests := d\<rparr>)" using c d(2) by (simp add: contract_ok_def)
  then have "frame_ok ?f" "frame_ok (?f\<lparr>f_pc := p\<rparr>)" for p using assms(1-3) by (simp_all add: frame_ok_def)
  then have "moves f ?f" "moves f (?f\<lparr>f_pc := p\<rparr>)" for p
    using st_rel_refl [OF frame_okD(6) [OF assms(1)]] by (simp_all add: moves_def f_db_def)
  then show ?thesis by (simp add: jump_to_def Let_def d(1) safe_at_def)
qed

lemma jumps_safe: "ex_safe 1 0 need wr opJump" "ex_safe 2 0 need wr opJumpi"
proof -
  show "ex_safe 1 0 need wr opJump"
  proof (rule ex_safeI)
    fix f assume f: "frame_ok f" "1 \<le> length (f_stack f)"
    obtain x st where st: "f_stack f = x # st" using stack1 [OF f(2)] by blast
    then show "safe_at f (opJump f)" using frame_okD(1,2) [OF f(1)] by (simp add: opJump_def jump_to_safe [OF f(1)])
  qed
  show "ex_safe 2 0 need wr opJumpi"
  proof (rule ex_safeI)
    fix f assume f: "frame_ok f" "2 \<le> length (f_stack f)"
    obtain x y st where st: "f_stack f = x # y # st" using stack2 [OF f(2)] by blast
    then have w: "list_all is_u256 st" "length st \<le> StackLimit" "is_u256 x" using frame_okD(1,2) [OF f(1)] by auto
    then show "safe_at f (opJumpi f)" using moves_local(5) [OF f(1) w(1,2) frame_okD(3) [OF f(1)]] jump_to_safe [OF f(1) w]
      by (simp add: opJumpi_def st safe_at_def set_stack_def)
  qed
qed

section \<open>Writing\<close>

lemma set_db_stack_safe:
  assumes "frame_ok f" and "st_rel (static (f_evm f)) (f_db f) s" and "list_all is_u256 st" and "length st \<le> StackLimit"
  shows "safe_at f (set_stack (set_db s f) st)"
proof -
  have m: "moves f (set_db s f)" by (rule moves_db [OF assms(1,2)])
  then have g: "frame_ok (set_db s f)" by (simp add: moves_def)
  from moves_trans [OF m moves_local(1) [OF g assms(3,4) frame_okD(3) [OF g]]] show ?thesis by (simp add: safe_at_def set_stack_def)
qed

lemma opSha3_safe: "ex_safe 2 1 (Some memorySha3) wr (opSha3 env)"
proof (rule ex_safeI)
  fix f assume f: "frame_ok f" "2 \<le> length (f_stack f)" "covers (Some memorySha3) f"
  obtain x y st where st: "f_stack f = x # y # st" using stack2 [OF f(2)] by blast
  have "in_mem x y (f_mem f)" using covers_in_mem(1) [OF f(1), of 0 1] f(3) by (simp add: memory_table st)
  from Memory_Get_ok [OF this] obtain b where b: "Memory_Get (big_Int64 x) (big_Int64 y) (f_mem f) = Ret b" by blast
  have "kec_len (e_kec env)" using frame_okD(9) [OF f(1)] by (simp add: env_ok_def)
  then have "is_u256 (big_SetBytes (e_kec env b))" by (intro is_u256_SetBytes) (simp add: kec_len_def)
  then have w: "list_all is_u256 (big_SetBytes (e_kec env b) # st)" "length (big_SetBytes (e_kec env b) # st) \<le> StackLimit"
    using frame_okD(1,2) [OF f(1)] st by auto
  show "safe_at f (opSha3 env f)"
    using set_db_stack_safe [OF f(1) preimage_rel [OF frame_okD(6) [OF f(1)]] w] set_stack_safe [OF f(1) w] by (simp add: opSha3_def st b push_def Let_def)
qed

lemma writes_safe: "ex_safe 2 0 need True (opSstore env)" "ex_safe 1 0 need True (opSuicide env)"
proof -
  show "ex_safe 2 0 need True (opSstore env)"
  proof (rule ex_safeI)
    fix f assume f: "frame_ok f" "2 \<le> length (f_stack f)" and s: "True \<Longrightarrow> \<not> static (f_evm f)"
    obtain x y st where st: "f_stack f = x # y # st" using stack2 [OF f(2)] by blast
    have w: "list_all is_u256 st" "length st \<le> StackLimit" using frame_okD(1,2) [OF f(1)] st by auto
    show "safe_at f (opSstore env f)"
      using set_db_stack_safe [OF f(1) _ w] write_rels(4) [OF frame_okD(6) [OF f(1)]] s by (simp add: opSstore_def st)
  qed
  show "ex_safe 1 0 need True (opSuicide env)"
  proof (rule ex_safeI)
    fix f assume f: "frame_ok f" "1 \<le> length (f_stack f)" and s: "True \<Longrightarrow> \<not> static (f_evm f)"
    obtain x st where st: "f_stack f = x # st" using stack1 [OF f(2)] by blast
    have w: "list_all is_u256 st" "length st \<le> StackLimit" using frame_okD(1,2) [OF f(1)] st by auto
    have "length (c_self (f_contract f)) = 20" using frame_okD(4) [OF f(1)] by (simp add: contract_ok_def)
    from suicide_rel [OF frame_okD(6) [OF f(1)] this, of "BigToAddress x"] s
    show "safe_at f (opSuicide env f)" using set_db_stack_safe [OF f(1) _ w] by (simp add: opSuicide_def st Let_def)
  qed
qed

lemma makeLog_safe: "ex_safe (n + 2) 0 (Some memoryLog) True (makeLog env n)"
proof (rule ex_safeI)
  fix f assume f: "frame_ok f" "n + 2 \<le> length (f_stack f)" "covers (Some memoryLog) f" and s: "True \<Longrightarrow> \<not> static (f_evm f)"
  obtain x y st where st: "f_stack f = x # y # st" using stack2 [of "f_stack f"] f(2) by auto
  have "in_mem x y (f_mem f)" using covers_in_mem(1) [OF f(1), of 0 1] f(3) by (simp add: memory_table st)
  from Memory_Get_ok [OF this] obtain b where b: "Memory_Get (big_Int64 x) (big_Int64 y) (f_mem f) = Ret b" by blast
  have w: "list_all is_u256 (drop n st)" "length (drop n st) \<le> StackLimit" using frame_okD(1,2) [OF f(1)] st by (auto dest: in_set_dropD simp: list_all_iff)
  show "safe_at f (makeLog env n f)" using set_db_stack_safe [OF f(1) _ w] write_rels(5) [OF frame_okD(6) [OF f(1)]] s f(2)
    by (simp add: makeLog_def st b Let_def)
qed

section \<open>Families\<close>

lemma makePush_safe: "k \<le> 32 \<Longrightarrow> ex_safe 0 1 need wr (makePush n k)"
proof (rule ex_safeI)
  fix f assume k: "k \<le> 32" and f: "frame_ok f" "length (f_stack f) + 1 \<le> StackLimit + 0"
  have "is_u256 (big_SetBytes (RightPadBytes (take j c) (int k)))" if "j \<le> k" for j c
    by (rule is_u256_SetBytes) (use that k in \<open>simp add: RightPadBytes_length\<close>)
  moreover define sm em where "sm = (if unat (f_pc f + 1) < length (Code (f_contract f)) then unat (f_pc f + 1) else length (Code (f_contract f)))"
    and "em = (if sm + k < length (Code (f_contract f)) then sm + k else length (Code (f_contract f)))"
  moreover have "em - sm \<le> k" unfolding em_def by auto
  ultimately have v: "is_u256 (big_SetBytes (RightPadBytes (take (em - sm) (drop sm (Code (f_contract f)))) (int k)))" (is "is_u256 ?v") by blast
  have "makePush n k f = Ret (Inr [], f\<lparr>f_stack := ?v # f_stack f, f_pc := f_pc f + n\<rparr>)"
    unfolding makePush_def Let_def push_def sm_def em_def ..
  then show "safe_at f (makePush n k f)"
    using moves_local(4) [OF f(1) _ _ frame_okD(3) [OF f(1)], of "?v # f_stack f"] frame_okD(1) [OF f(1)] f(2) v by (simp add: safe_at_def)
qed

lemma dup_swap_safe: "0 < n \<Longrightarrow> ex_safe n (n + 1) need wr (makeDup n)" "ex_safe (n + 1) (n + 1) need wr (makeSwap n)"
proof -
  show "0 < n \<Longrightarrow> ex_safe n (n + 1) need wr (makeDup n)"
  proof (rule ex_safeI)
    fix f assume n: "0 < n" and f: "frame_ok f" "n \<le> length (f_stack f)" "length (f_stack f) + (n + 1) \<le> StackLimit + n"
    then show "safe_at f (makeDup n f)" using stack_word [OF f(1), of "n - 1"] frame_okD(1) [OF f(1)]
      by (auto simp: makeDup_def dup_def push_def intro!: set_stack_safe)
  qed
  show "ex_safe (n + 1) (n + 1) need wr (makeSwap n)"
  proof (rule ex_safeI)
    fix f assume f: "frame_ok f" "n + 1 \<le> length (f_stack f)"
    let ?st = "(f_stack f)[0 := f_stack f ! n, n := f_stack f ! 0]"
    have "set ?st \<subseteq> insert (f_stack f ! 0) (insert (f_stack f ! n) (set (f_stack f)))"
      by (rule order_trans [OF set_update_subset_insert]) (intro insert_mono set_update_subset_insert)
    moreover have "is_u256 (f_stack f ! 0)" "is_u256 (f_stack f ! n)" by (rule stack_word [OF f(1)], use f(2) in linarith)+
    ultimately have "list_all is_u256 ?st" using frame_okD(1) [OF f(1)] by (auto simp: list_all_iff)
    then show "safe_at f (makeSwap n f)" using f set_stack_safe [OF f(1), of ?st] frame_okD(2) [OF f(1)] by (simp add: makeSwap_def swap_def)
  qed
qed

end

end
