(* ===== verification/Evm_Steps.thy ===== *)
theory Evm_Steps
  imports Evm_Safe
begin

text \<open>
  One round of the interpreter.  The gas functions do not panic on a validated stack, change at most the
  remembered fee of the memory, the refund and the gas of a call on top of the stack, and refuse sizes
  of memory beyond the limit.  \<open>op_safe\<close> says that an entry of the instruction table behaves; here it
  is shown for every instruction that calls no contract.
\<close>

section \<open>Gas functions\<close>

definition price_local :: "'s frame \<Rightarrow> 's frame \<Rightarrow> bool" where
  "price_local f f' \<longleftrightarrow> (\<exists>m. f' = f\<lparr>f_mem := m\<rparr> \<and> Memory.store m = Memory.store (f_mem f))"

definition res_local :: "'s frame \<Rightarrow> ((vm_error + 'a) \<times> 's frame) go \<Rightarrow> bool" where
  "res_local f r \<longleftrightarrow> (\<exists>x f'. r = Ret (x, f') \<and> price_local f f')"

lemma price_local_refl [simp]: "price_local f f"
  unfolding price_local_def by (intro exI [of _ "f_mem f"]) simp

lemma price_local_trans: "price_local f g \<Longrightarrow> price_local g h \<Longrightarrow> price_local f h"
  by (auto simp: price_local_def)

lemma price_local_simps:
  "price_local f f' \<Longrightarrow> f_stack f' = f_stack f \<and> f_contract f' = f_contract f \<and> f_evm f' = f_evm f \<and> mlen (f_mem f') = mlen (f_mem f)"
  by (auto simp: price_local_def)

lemma res_local_Ret [simp]: "res_local f (Ret (x, f))"
  by (auto simp: res_local_def)

lemma res_local_steps:
  "res_local f (memory_gas ms f)" "res_local f (safe_add a b f)" "res_local f (safe_mul a b f)"
  "n < length (f_stack f) \<Longrightarrow> res_local f (back_uint64 n f)"
proof -
  obtain r m where m: "memoryGasCost (f_mem f) ms = (r, m)" by fastforce
  then have "Memory.store m = Memory.store (f_mem f)" by (auto simp: memoryGasCost_def Let_def split: if_splits)
  then show "res_local f (memory_gas ms f)" unfolding res_local_def price_local_def by (intro exI) (auto simp: memory_gas_def m)
qed (auto simp: safe_add_def safe_mul_def back_uint64_def Back_def bigUint64_def split: prod.splits)

lemma gas_bind_local:
  assumes "res_local f m" and "\<And>g f1. price_local f f1 \<Longrightarrow> res_local f1 (k g f1)"
  shows "res_local f (gas_bind m k)"
proof -
  obtain x f1 where m: "m = Ret (x, f1)" "price_local f f1" using assms(1) by (auto simp: res_local_def)
  show ?thesis
  proof (cases x)
    case (Inr g)
    from assms(2) [OF m(2), of g] obtain y f2 where "k g f1 = Ret (y, f2)" "price_local f1 f2" by (auto simp: res_local_def)
    then show ?thesis using price_local_trans [OF m(2)] by (auto simp: m(1) Inr gas_bind_def res_local_def)
  qed (use m in \<open>auto simp: gas_bind_def res_local_def\<close>)
qed

lemma gas_words_local: "n < length (f_stack f) \<Longrightarrow> res_local f (gas_words base n w ms f)"
  unfolding gas_words_def by (intro gas_bind_local res_local_steps) (simp add: price_local_def, elim exE conjE, simp)

lemma gas_memory_plus_local: "res_local f (gas_memory_plus base ms f)"
  unfolding gas_memory_plus_def by (intro gas_bind_local res_local_steps)

lemma makeGasLog_local: "1 < length (f_stack f) \<Longrightarrow> res_local f (makeGasLog n ms f)"
  unfolding makeGasLog_def by (intro gas_bind_local res_local_steps)

lemma gasExp_local: "1 < length (f_stack f) \<Longrightarrow> res_local f (gasExp env ms f)"
  unfolding gasExp_def by (simp add: Back_def Let_def res_local_steps)

lemma constant_local: "res_local f (constGasFunc c ms f)" "res_local f (gasBalance env ms f)" "res_local f (gasExtCodeSize env ms f)"
  "res_local f (gasSLoad env ms f)" "res_local f (gasPush ms f)" "res_local f (gasSwap ms f)" "res_local f (gasDup ms f)"
  by (simp_all add: constGasFunc_def gasBalance_def gasExtCodeSize_def gasSLoad_def gasPush_def gasSwap_def gasDup_def)

text \<open>A price that includes memory bounds it.\<close>

definition max_mem :: u64 where
  "max_mem = 0xffffffffe0"

definition bounded_mem :: "'s gasFunc \<Rightarrow> bool" where
  "bounded_mem gc \<longleftrightarrow> (\<forall>ms f c f'. gc ms f = Ret (Inr c, f') \<longrightarrow> ms \<le> max_mem)"

lemma memory_gas_bounded: "memory_gas ms f = Ret (Inr c, f') \<Longrightarrow> ms \<le> max_mem"
  by (auto simp: memory_gas_def memoryGasCost_def max_mem_def split: if_splits)

lemma bounded_mems:
  "bounded_mem (gas_words base n w)" "bounded_mem (gas_memory_plus base)" "bounded_mem (makeGasLog k)" "bounded_mem memory_gas"
  unfolding bounded_mem_def gas_words_def gas_memory_plus_def makeGasLog_def gas_bind_Inr using memory_gas_bounded by blast+

lemma call_price_bounded: "call_price env base ms f = Ret (Inr c, f') \<Longrightarrow> ms \<le> max_mem"
  unfolding call_price_def gas_bind_Inr using memory_gas_bounded by blast

lemma bounded_calls:
  "bounded_mem (gasCall env)" "bounded_mem (gasCallCode env)" "bounded_mem (gasDelegateCall env)" "bounded_mem (gasStaticCall env)"
  unfolding bounded_mem_def gasCall_def gasCallCode_def gasDelegateCall_def gasStaticCall_def gas_bind_Inr go_bind_Ret
  using memory_gas_bounded call_price_bounded by blast+

section \<open>Memory sizes\<close>

lemma toWordSize_ge: "unat sz \<le> unat (toWordSize sz) * 32"
proof (cases "sz > MaxUint64 - 31")
  case True
  have "unat sz < 2 ^ 64" by (rule unat_u64_less)
  then show ?thesis using True by (simp add: toWordSize_def MaxUint64_def)
next
  case False
  then have "unat sz \<le> 2 ^ 64 - 32" by (simp add: MaxUint64_def not_less word_le_nat_alt)
  then have "unat (sz + 31) = unat sz + 31" by (simp add: unat_word_ariths)
  then have "unat (toWordSize sz) = (unat sz + 31) div 32" using False by (simp add: toWordSize_def unat_div)
  then show ?thesis by simp
qed

lemma memory_size_ok:
  assumes "memorySize opn = Some g" and "g (f_stack f) = Ret sz" and "0 \<le> sz"
  shows "\<exists>r. memory_size opn f = Ret r" "memory_size opn f = Ret (Inr ms) \<Longrightarrow> sz \<le> int (unat ms)"
proof -
  show "\<exists>r. memory_size opn f = Ret r" using assms by (auto simp: memory_size_def bigUint64_def split: prod.splits)
  assume m: "memory_size opn f = Ret (Inr ms)"
  then have b: "\<not> BitLen sz > 64" and sm: "\<not> snd (SafeMul (toWordSize (big_Uint64 sz)) 32)" "ms = fst (SafeMul (toWordSize (big_Uint64 sz)) 32)"
    using assms(1,2) by (auto simp: memory_size_def bigUint64_def split: prod.splits if_splits)
  have "sz < 2 ^ 64" using b BitLen_le [OF assms(3), of 64] by simp
  then have u: "unat (big_Uint64 sz) = nat sz" by (rule big_Uint64_small [OF assms(3)])
  have "unat ms = unat (toWordSize (big_Uint64 sz)) * 32" using SafeMul_exact [OF sm(1)] sm(2) by simp
  then have "nat sz \<le> unat ms" using toWordSize_ge [of "big_Uint64 sz"] u by simp
  then show "sz \<le> int (unat ms)" using assms(3) by linarith
qed

text \<open>The size functions do not panic on a validated stack and are not negative.\<close>

definition need_fine :: "nat \<Rightarrow> (stack \<Rightarrow> int go) option \<Rightarrow> bool" where
  "need_fine n need \<longleftrightarrow> (\<forall>g st. need = Some g \<longrightarrow> n \<le> length st \<longrightarrow> list_all is_u256 st \<longrightarrow> (\<exists>sz. g st = Ret sz \<and> 0 \<le> sz))"

lemma calcMemSize_nonneg: "0 \<le> a \<Longrightarrow> 0 \<le> b \<Longrightarrow> 0 \<le> calcMemSize a b"
  by (simp add: calcMemSize_def)

lemma need_fines:
  "need_fine n None" "i < n \<Longrightarrow> j < n \<Longrightarrow> need_fine n (Some (back_size i j))" "i < n \<Longrightarrow> 0 \<le> l \<Longrightarrow> need_fine n (Some (back_fixed i l))"
  "i < n \<Longrightarrow> j < n \<Longrightarrow> k < n \<Longrightarrow> m < n \<Longrightarrow> need_fine n (Some (back_max i j k m))"
proof -
  have w: "0 \<le> st ! i" if "list_all is_u256 st" "n \<le> length st" "i < n" for st :: stack and i
    using that by (auto simp: list_all_length is_u256_def)
  show "need_fine n None" by (simp add: need_fine_def)
  show s: "need_fine n (Some (back_size i j))" if "i < n" "j < n" for i j
    using w that calcMemSize_nonneg by (auto simp: need_fine_def back_size_def Back_def)
  show "i < n \<Longrightarrow> 0 \<le> l \<Longrightarrow> need_fine n (Some (back_fixed i l))"
    using w calcMemSize_nonneg by (auto simp: need_fine_def back_fixed_def Back_def)
  assume "i < n" "j < n" "k < n" "m < n"
  show "need_fine n (Some (back_max i j k m))"
    using s [OF \<open>i < n\<close> \<open>j < n\<close>] s [OF \<open>k < n\<close> \<open>m < n\<close>] by (fastforce simp: need_fine_def back_max_def BigMax_def)
qed

lemma makeStackFunc_None: "makeStackFunc n k st = None \<Longrightarrow> n \<le> length st \<and> length st + k \<le> StackLimit + n"
  by (auto simp: makeStackFunc_def require_def split: if_splits)

section \<open>Entries of the instruction table\<close>

definition charged :: "u64 \<Rightarrow> u64 \<Rightarrow> 's frame \<Rightarrow> 's frame" where
  "charged ms cost f1 =
     (let f2 = f1\<lparr>f_contract := (f_contract f1)\<lparr>Gas := Gas (f_contract f1) - cost\<rparr>\<rparr>
      in if ms > 0 then f2\<lparr>f_mem := Resize ms (f_mem f2)\<rparr> else f2)"

lemma charged_simps [simp]:
  "f_stack (charged ms cost f) = f_stack f" "f_evm (charged ms cost f) = f_evm f" "f_db (charged ms cost f) = f_db f"
  "f_contract (charged ms cost f) = (f_contract f)\<lparr>Gas := Gas (f_contract f) - cost\<rparr>"
  "mlen (f_mem (charged ms cost f)) = max (mlen (f_mem f)) (unat ms)"
  by (auto simp: charged_def Let_def f_db_def Resize_length word_gt_0)

context evm_state
begin

definition price_safe :: "nat \<Rightarrow> bool \<Rightarrow> 's gasFunc \<Rightarrow> bool" where
  "price_safe n wr gc \<longleftrightarrow> (\<forall>ms f. frame_ok f \<longrightarrow> n \<le> length (f_stack f) \<longrightarrow> (wr \<longrightarrow> \<not> static (f_evm f)) \<longrightarrow>
     (\<exists>x f1. gc ms f = Ret (x, f1) \<and> moves f f1 \<and> f_stack f1 = f_stack f \<and> mlen (f_mem f1) = mlen (f_mem f) \<and> f_contract f1 = f_contract f))"

definition res_safe :: "'s operation \<Rightarrow> 's frame \<Rightarrow> ((vm_error + bytes) \<times> 's frame) go option \<Rightarrow> bool" where
  "res_safe opn f r \<longleftrightarrow> r \<noteq> Some Panic \<and> (\<forall>y f'. r = Some (Ret (y, f')) \<longrightarrow> moves f f' \<and> (halts opn \<or> reverts opn \<longrightarrow> out_ok y) \<and>
     (\<forall>b. y = Inr b \<longrightarrow> length b < 2 ^ 64))"

definition op_safe :: "OpCode \<times> 's operation \<Rightarrow> bool" where
  "op_safe = (\<lambda>(op, opn). \<forall>f. frame_ok f \<longrightarrow> validateStack opn (f_stack f) = None \<longrightarrow>
     (static (f_evm f) \<longrightarrow> \<not> writes opn \<and> (op = CALL \<longrightarrow> f_stack f ! 2 = 0)) \<longrightarrow>
     (\<exists>r. memory_size opn f = Ret r) \<and>
     (\<forall>ms. memory_size opn f = Ret (Inr ms) \<longrightarrow> (\<exists>x f1. gasCost opn ms f = Ret (x, f1) \<and> moves f f1 \<and>
       (\<forall>cost. x = Inr cost \<longrightarrow> cost \<le> Gas (f_contract f) \<longrightarrow> f_gas f < 2 ^ 62 \<longrightarrow> res_safe opn f (execute opn (charged ms cost f1))))))"

lemma frame_ok_charged:
  assumes "frame_ok f" and "unat ms \<le> mem_limit"
  shows "frame_ok (charged ms cost f)"
  using assms by (simp add: frame_ok_def contract_ok_def)

lemma price_local_safe:
  assumes "\<And>ms f. n \<le> length (f_stack f) \<Longrightarrow> res_local f (gc ms f)"
  shows "price_safe n wr gc"
  unfolding price_safe_def
proof (intro allI impI)
  fix ms f assume f: "frame_ok f" "n \<le> length (f_stack f)"
  obtain x f1 where r: "gc ms f = Ret (x, f1)" "price_local f f1" using assms [OF f(2), of ms] by (auto simp: res_local_def)
  obtain m where m: "f1 = f\<lparr>f_mem := m\<rparr>" "Memory.store m = Memory.store (f_mem f)" using r(2) by (auto simp: price_local_def)
  have "moves f f1" unfolding m(1) by (rule moves_local(6) [OF f(1)], rule frame_okD [OF f(1)], rule frame_okD [OF f(1)]) (use m(2) frame_okD(3) [OF f(1)] in simp)
  then show "\<exists>x f1. gc ms f = Ret (x, f1) \<and> moves f f1 \<and> f_stack f1 = f_stack f \<and> mlen (f_mem f1) = mlen (f_mem f) \<and> f_contract f1 = f_contract f"
    using r(1) m by simp
qed

lemma writing_prices: "price_safe 2 True (gasSStore env)" "price_safe 1 True (gasSuicide env)"
proof -
  have r: "moves f (set_db (db_AddRefund (e_db env) (f_db f) g) f)" if "frame_ok f" "\<not> static (f_evm f)" for f g
    using moves_db [OF that(1)] write_rels(3) [OF frame_okD(6) [OF that(1)]] that(2) by simp
  show "price_safe 2 True (gasSStore env)" unfolding price_safe_def
  proof (intro allI impI)
    fix ms and f :: "'s frame" assume f: "frame_ok f" "2 \<le> length (f_stack f)" "True \<longrightarrow> \<not> static (f_evm f)"
    have b: "Back 1 (f_stack f) = Ret (f_stack f ! 1)" "Back 0 (f_stack f) = Ret (f_stack f ! 0)" using f(2) by (auto simp: Back_def)
    show "\<exists>x f1. gasSStore env ms f = Ret (x, f1) \<and> moves f f1 \<and> f_stack f1 = f_stack f \<and> mlen (f_mem f1) = mlen (f_mem f) \<and> f_contract f1 = f_contract f"
    proof -
      have "\<exists>x g. gasSStore env ms f = Ret (x, f) \<or> gasSStore env ms f = Ret (x, set_db (db_AddRefund (e_db env) (f_db f) g) f)"
        unfolding gasSStore_def b go_bind_simps Let_def by auto
      then show ?thesis using r [OF f(1)] moves_refl [OF f(1)] f(3) by auto
    qed
  qed
  show "price_safe 1 True (gasSuicide env)" unfolding price_safe_def
  proof (intro allI impI)
    fix ms and f :: "'s frame" assume f: "frame_ok f" "1 \<le> length (f_stack f)" "True \<longrightarrow> \<not> static (f_evm f)"
    have b: "Back 0 (f_stack f) = Ret (f_stack f ! 0)" using f(2) by (auto simp: Back_def)
    show "\<exists>x f1. gasSuicide env ms f = Ret (x, f1) \<and> moves f f1 \<and> f_stack f1 = f_stack f \<and> mlen (f_mem f1) = mlen (f_mem f) \<and> f_contract f1 = f_contract f"
    proof -
      have "\<exists>x g. gasSuicide env ms f = Ret (x, f) \<or> gasSuicide env ms f = Ret (x, set_db (db_AddRefund (e_db env) (f_db f) g) f)"
        unfolding gasSuicide_def b go_bind_simps Let_def by auto
      then show ?thesis using r [OF f(1)] moves_refl [OF f(1)] f(3) by auto
    qed
  qed
qed

lemma simple_op_safe:
  assumes ex: "ex_safe n k (memorySize opn) wr ex" and pr: "price_safe n wr (gasCost opn)"
    and mem: "memorySize opn \<noteq> None \<Longrightarrow> bounded_mem (gasCost opn)" and need: "need_fine n (memorySize opn)"
    and op: "validateStack opn = makeStackFunc n k" "execute opn = simple ex" "wr \<Longrightarrow> writes opn"
  shows "op_safe (op, opn)"
  unfolding op_safe_def prod.case
proof (intro allI impI conjI)
  fix f assume f: "frame_ok f" and v: "validateStack opn (f_stack f) = None"
    and st: "static (f_evm f) \<longrightarrow> \<not> writes opn \<and> (op = CALL \<longrightarrow> f_stack f ! 2 = 0)"
  have len: "n \<le> length (f_stack f)" "length (f_stack f) + k \<le> StackLimit + n" using makeStackFunc_None v op(1) by auto
  have wr: "wr \<longrightarrow> \<not> static (f_evm f)" using st op(3) by blast
  have sz: "\<exists>sz. g (f_stack f) = Ret sz \<and> 0 \<le> sz" if "memorySize opn = Some g" for g
    using need that len(1) frame_okD(1) [OF f] unfolding need_fine_def by blast
  show "\<exists>r. memory_size opn f = Ret r"
  proof (cases "memorySize opn")
    case (Some g)
    then show ?thesis using sz [OF Some] memory_size_ok(1) [OF Some] by blast
  qed (simp add: memory_size_def)
  fix ms assume ms: "memory_size opn f = Ret (Inr ms)"
  obtain x f1 where r: "gasCost opn ms f = Ret (x, f1)" "moves f f1" "f_stack f1 = f_stack f" "mlen (f_mem f1) = mlen (f_mem f)" "f_contract f1 = f_contract f"
    using pr f len(1) wr unfolding price_safe_def by blast
  have "res_safe opn f (execute opn (charged ms cost f1))" if x: "x = Inr cost" for cost
  proof -
    let ?f = "charged ms cost f1"
    have f1: "frame_ok f1" using r(2) by (simp add: moves_def)
    have lim: "unat ms \<le> mem_limit \<and> covers (memorySize opn) ?f"
    proof (cases "memorySize opn")
      case None
      then show ?thesis using ms by (simp add: memory_size_def covers_def)
    next
      case (Some g)
      then obtain z where z: "g (f_stack f) = Ret z" "0 \<le> z" using sz by blast
      from memory_size_ok(2) [OF Some z ms] have "z \<le> int (max (mlen (f_mem f1)) (unat ms))"
        by (rule order_trans) (simp only: of_nat_le_iff max.cobounded2)
      moreover have "ms \<le> max_mem" using mem Some r(1) x unfolding bounded_mem_def by blast
      ultimately show ?thesis using z Some r(3) by (auto simp: covers_def max_mem_def mem_limit_def word_le_nat_alt)
    qed
    then have ok: "frame_ok ?f" using frame_ok_charged [OF f1] by blast
    have m: "moves f ?f" using ok r(2) by (simp add: moves_def)
    then have ro: "static (f_evm ?f) = static (f_evm f)" by (simp add: moves_def static_def)
    have "safe_at ?f (ex ?f)" using ex ok lim len wr r(3) ro unfolding ex_safe_def by simp
    then obtain y f' where y: "ex ?f = Ret (y, f')" "moves ?f f'" "out_ok y" by (auto simp: safe_at_def)
    have "length b < 2 ^ 64" if "y = Inr b" for b using y(3) that by (simp add: mem_limit_def)
    then show ?thesis using y moves_trans [OF m y(2)] by (simp add: op(2) simple_def res_safe_def)
  qed
  then show "\<exists>x f1. gasCost opn ms f = Ret (x, f1) \<and> moves f f1 \<and>
      (\<forall>cost. x = Inr cost \<longrightarrow> cost \<le> Gas (f_contract f) \<longrightarrow> f_gas f < 2 ^ 62 \<longrightarrow> res_safe opn f (execute opn (charged ms cost f1)))"
    using r(1,2) by blast
qed

lemma base_safe:
  assumes "ex_safe n k None False ex" and "price_safe n False gc"
  shows "op_safe (op, base_operation (simple ex) gc (makeStackFunc n k))"
    "op_safe (op, (base_operation (simple ex) gc (makeStackFunc n k))\<lparr>halts := True\<rparr>)"
    "op_safe (op, (base_operation (simple ex) gc (makeStackFunc n k))\<lparr>jumps := True\<rparr>)"
  by (rule simple_op_safe [where n = n and k = k and ex = ex and wr = False]; use assms in \<open>simp add: need_fines\<close>)+

lemma memory_safe:
  assumes "ex_safe n k (Some g) False ex" and "price_safe n False gc" and "bounded_mem gc" and "need_fine n (Some g)"
  shows "op_safe (op, (base_operation (simple ex) gc (makeStackFunc n k))\<lparr>memorySize := Some g\<rparr>)"
    "op_safe (op, (base_operation (simple ex) gc (makeStackFunc n k))\<lparr>memorySize := Some g, halts := True\<rparr>)"
    "op_safe (op, (base_operation (simple ex) gc (makeStackFunc n k))\<lparr>memorySize := Some g, reverts := True, returns := True\<rparr>)"
  by (rule simple_op_safe [where n = n and k = k and ex = ex and wr = False]; use assms in simp)+

lemma writing_safe:
  assumes "ex_safe n k need True ex" and "price_safe n True gc" and "need \<noteq> None \<Longrightarrow> bounded_mem gc" and "need_fine n need"
  shows "need = None \<Longrightarrow> op_safe (op, (base_operation (simple ex) gc (makeStackFunc n k))\<lparr>writes := True\<rparr>)"
    "need = None \<Longrightarrow> op_safe (op, (base_operation (simple ex) gc (makeStackFunc n k))\<lparr>halts := True, writes := True\<rparr>)"
    "op_safe (op, (base_operation (simple ex) gc (makeStackFunc n k))\<lparr>memorySize := need, writes := True\<rparr>)"
  by (rule simple_op_safe [where n = n and k = k and ex = ex and wr = True]; use assms in simp)+

lemma table_prices:
  "price_safe n wr (constGasFunc c)" "price_safe n wr (gasBalance env)" "price_safe n wr (gasExtCodeSize env)" "price_safe n wr (gasSLoad env)"
  "price_safe n wr gasPush" "price_safe n wr gasSwap" "price_safe n wr gasDup" "price_safe 2 wr (gasExp env)"
  "price_safe 3 wr gasCallDataCopy" "price_safe 3 wr gasReturnDataCopy" "price_safe 3 wr gasCodeCopy" "price_safe 4 wr (gasExtCodeCopy env)"
  "price_safe 2 wr gasSha3" "price_safe n wr gasMLoad" "price_safe n wr gasMStore8" "price_safe n wr gasMStore" "price_safe n wr gasReturn"
  "price_safe n wr gasRevert" "2 \<le> n \<Longrightarrow> price_safe n wr (makeGasLog l)"
  unfolding gasCallDataCopy_def gasReturnDataCopy_def gasSha3_def gasCodeCopy_def gasExtCodeCopy_def gasMLoad_def gasMStore8_def
    gasMStore_def gasReturn_def gasRevert_def
  by (rule price_local_safe, simp add: constant_local gasExp_local gas_words_local gas_memory_plus_local res_local_steps makeGasLog_local)+

lemma table_bounded:
  "bounded_mem gasCallDataCopy" "bounded_mem gasReturnDataCopy" "bounded_mem gasCodeCopy" "bounded_mem (gasExtCodeCopy env)"
  "bounded_mem gasSha3" "bounded_mem gasMLoad" "bounded_mem gasMStore8" "bounded_mem gasMStore" "bounded_mem gasReturn"
  "bounded_mem gasRevert" "bounded_mem (makeGasLog l)" "bounded_mem gasCreate"
  unfolding gasCallDataCopy_def gasReturnDataCopy_def gasSha3_def gasCodeCopy_def gasExtCodeCopy_def gasMLoad_def gasMStore8_def
    gasMStore_def gasReturn_def gasRevert_def gasCreate_def
  by (rule bounded_mems)+

lemma table_needs:
  "need_fine 2 (Some memorySha3)" "need_fine 3 (Some memoryCallDataCopy)" "need_fine 3 (Some memoryReturnDataCopy)"
  "need_fine 3 (Some memoryCodeCopy)" "need_fine 4 (Some memoryExtCodeCopy)" "need_fine 1 (Some memoryMLoad)" "need_fine 2 (Some memoryMStore8)"
  "need_fine 2 (Some memoryMStore)" "need_fine 2 (Some memoryReturn)" "need_fine 2 (Some memoryRevert)" "2 \<le> n \<Longrightarrow> need_fine n (Some memoryLog)"
  unfolding memory_table by (rule need_fines; simp)+

section \<open>The instruction table\<close>

lemmas table_safe = arithmetic_safe opSignExtend_safe simple_stops environment_safe accounts_safe copies_safe opReturnDataCopy_safe
  loads_safe stores_safe returns_safe jumps_safe opSha3_safe writes_safe table_prices table_bounded table_needs

lemma arithmetic_table: "list_all op_safe (arithmetic_operations env)"
  by (simp add: arithmetic_operations_def base_safe table_safe del: One_nat_def)

lemma environment_table: "list_all op_safe (environment_operations env)"
  by (simp add: environment_operations_def base_safe memory_safe table_safe del: One_nat_def)

lemma sstore_table: "op_safe (op, (base_operation (simple (opSstore env)) (gasSStore env) (makeStackFunc 2 0))\<lparr>writes := True\<rparr>)"
  by (rule writing_safe(1) [where need = None]) (simp_all add: writes_safe writing_prices need_fines)

lemma flow_table: "list_all op_safe (flow_operations env)"
  by (simp add: flow_operations_def base_safe memory_safe sstore_table table_safe del: One_nat_def)

lemma family_tables:
  "list_all op_safe push_operations" "list_all op_safe dup_operations" "list_all op_safe swap_operations"
  "list_all op_safe (log_operations env)"
proof -
  show "list_all op_safe push_operations"
    by (auto simp: push_operations_def list_all_iff makePush_safe table_prices simp del: One_nat_def intro!: base_safe)
  show "list_all op_safe dup_operations"
    by (auto simp: dup_operations_def list_all_iff makeDupStackFunc_def table_prices simp del: One_nat_def intro!: base_safe dup_swap_safe)
  show "list_all op_safe swap_operations"
    by (auto simp: swap_operations_def list_all_iff makeSwapStackFunc_def table_prices simp del: One_nat_def intro!: base_safe dup_swap_safe)
  have "ex_safe (Suc (Suc n)) 0 (Some memoryLog) True (makeLog env n)" for n using makeLog_safe [of n] by simp
  then show "list_all op_safe (log_operations env)"
    by (auto simp: log_operations_def list_all_iff table_prices table_bounded table_needs intro!: writing_safe(3))
qed

lemma other_tables:
  "op_safe (op, (base_operation (simple opReturn) gasReturn (makeStackFunc 2 0))\<lparr>memorySize := Some memoryReturn, halts := True\<rparr>)"
  "op_safe (op, (base_operation (simple (opSuicide env)) (gasSuicide env) (makeStackFunc 1 0))\<lparr>halts := True, writes := True\<rparr>)"
  "op_safe (op, base_operation (simple opReturnDataSize) (constGasFunc GasQuickStep) (makeStackFunc 0 1))"
  "op_safe (op, (base_operation (simple opReturnDataCopy) gasReturnDataCopy (makeStackFunc 3 0))\<lparr>memorySize := Some memoryReturnDataCopy\<rparr>)"
  "op_safe (op, (base_operation (simple opRevert) gasRevert (makeStackFunc 2 0))\<lparr>memorySize := Some memoryRevert, reverts := True, returns := True\<rparr>)"
  by (rule base_safe memory_safe writing_safe(2) [where need = None]; simp add: table_safe writing_prices need_fines del: One_nat_def)+

end

end
