(* ===== verification/Evm_Precompiles.thy ===== *)
theory Evm_Precompiles
  imports Evm_Safe
begin

text \<open>
  The precompiled contracts do not panic while the gas is below $2^{62}$.  Modular exponentiation
  takes the lengths of its operands from the input and adds them as 64-bit integers; it is the gas it
  asks for that keeps them small.  With more gas than that the sum can wrap around, and the slice
  expression in \<open>getData\<close> panics.
\<close>

definition gas_limit :: nat where
  "gas_limit = 2 ^ 62"

lemma nat_sint_le: "nat (sint (w :: u64)) \<le> unat w"
proof -
  have "- (2 ^ 63) \<le> uint w" by (rule order_trans [OF _ uint_ge_0]) simp
  then have "sint w \<le> uint w" by (simp add: sint_uint signed_take_bit_int_less_eq_self_iff)
  then show ?thesis unfolding unat_eq_nat_uint by (rule nat_mono)
qed

lemma getData_ok:
  assumes "length data + unat sz < 2 ^ 64"
  shows "\<exists>b. getData data start sz = Ret b \<and> length b \<le> unat sz"
proof -
  define len :: u64 where "len = word_of_nat (length data)"
  define s where "s = (if start > len then len else start)"
  define e where "e = (if s + sz > len then len else s + sz)"
  have len: "unat len = length data" using assms unfolding len_def by (simp add: unat_of_nat)
  have s: "unat s \<le> length data" using len by (auto simp: s_def word_less_nat_alt)
  have "unat (s + sz) = unat s + unat sz" using s assms by (simp add: unat_word_ariths)
  then have e: "unat s \<le> unat e" "unat e \<le> length data" "unat e \<le> unat s + unat sz" using s len by (auto simp: e_def word_less_nat_alt)
  then obtain b where b: "slice_from_to data s e = Ret b" "length b = unat e - unat s"
    using slice_ok [of s e data] by (auto simp: word_le_nat_alt)
  have "getData data start sz = Ret (RightPadBytes b (sint sz))"
    using b(1) unfolding getData_def Let_def e_def s_def len_def by simp
  moreover have "length (RightPadBytes b (sint sz)) \<le> unat sz" using b(2) e nat_sint_le [of sz] by (simp add: RightPadBytes_length)
  ultimately show ?thesis by blast
qed

lemma big_data_ok:
  assumes "length data + unat sz < 2 ^ 64"
  shows "\<exists>v. big_data data start sz = Ret v \<and> 0 \<le> v \<and> v < 256 ^ unat sz"
proof -
  obtain b where b: "getData data start sz = Ret b" "length b \<le> unat sz" using getData_ok [OF assms] by blast
  have "be_nat b < 256 ^ unat sz" using be_nat_less [of b] power_increasing [OF b(2), of "256 :: nat"] by linarith
  then have "int (be_nat b) < 256 ^ unat sz" by (metis of_nat_less_iff of_nat_numeral of_nat_power)
  then show ?thesis using b(1) by (simp add: big_data_def big_SetBytes_def)
qed

lemma be_nat_zeros: "be_nat (replicate n 0) = 0"
  by (induction n) (simp_all add: be_nat_Cons)

lemma mod_exp_less: "0 < m \<Longrightarrow> mod_exp b e m < m"
proof (induction b e m rule: mod_exp.induct)
  case (1 b e m)
  then show ?case by (subst mod_exp.simps) auto
qed

section \<open>What modular exponentiation costs\<close>

lemma complexity_ge: "1 \<le> x \<Longrightarrow> x \<le> modexp_complexity x"
proof -
  assume x: "1 \<le> x"
  have sq: "0 \<le> x * x" by simp
  consider "x \<le> 64" | "64 < x" "x \<le> 1024" | "1024 < x" by linarith
  then show ?thesis
  proof cases
    case 1
    have "x * 1 \<le> x * x" using x by (intro mult_left_mono) simp_all
    then show ?thesis using 1 by (simp add: modexp_complexity_def)
  next
    case 2
    have "0 \<le> x * x div 4" using sq by (simp add: pos_imp_zdiv_nonneg_iff)
    then show ?thesis using 2 by (simp add: modexp_complexity_def)
  next
    case 3
    have "0 \<le> x * x div 16" using sq by (simp add: pos_imp_zdiv_nonneg_iff)
    then show ?thesis using 3 by (simp add: modexp_complexity_def)
  qed
qed

lemma complexity_square: "2 ^ 36 \<le> x \<Longrightarrow> 2 ^ 68 \<le> modexp_complexity x"
proof -
  assume x: "2 ^ 36 \<le> x"
  have "(2 :: int) ^ 36 * 2 ^ 36 \<le> x * x" using x by (intro mult_mono) simp_all
  then have "(2 :: int) ^ 68 \<le> x * x div 16" by (simp add: zdiv_mono1 [of "2 ^ 72" "x * x" 16, simplified])
  then show ?thesis using x by (simp add: modexp_complexity_def)
qed

lemma modexp_lengths:
  assumes "1 \<le> m" and "modexp_complexity m * BigMax a 1 div 20 < 2 ^ 62"
  shows "m < 2 ^ 36" "a < 20 * 2 ^ 62 + 20"
proof -
  let ?c = "modexp_complexity m" and ?a = "BigMax a 1"
  have c: "1 \<le> ?c" and a: "1 \<le> ?a" "a \<le> ?a" using complexity_ge [OF assms(1)] assms(1) by (auto simp: BigMax_def)
  have "?c * ?a = 20 * (?c * ?a div 20) + ?c * ?a mod 20" by simp
  moreover have "?c * ?a mod 20 < 20" by simp
  ultimately have p: "?c * ?a < 20 * 2 ^ 62 + 20" using assms(2) by linarith
  have "?c * 1 \<le> ?c * ?a" "1 * ?a \<le> ?c * ?a" by (intro mult_left_mono mult_right_mono; use a c in simp)+
  then show "m < 2 ^ 36" "a < 20 * 2 ^ 62 + 20" using p a complexity_square [of m] by (force, linarith)
qed

lemma input_data:
  assumes "length input < 2 ^ 62"
  obtains bl el ml where "big_data input 0 32 = Ret bl" and "big_data input 32 32 = Ret el" and "big_data input 64 32 = Ret ml"
    and "0 \<le> bl" and "0 \<le> el" and "0 \<le> ml"
proof -
  have "length input + unat (32 :: u64) < 2 ^ 64" using assms by simp
  from big_data_ok [OF this, of 0] big_data_ok [OF this, of 32] big_data_ok [OF this, of 64] show ?thesis using that by blast
qed

lemma expHead_ok:
  assumes "length data < 2 ^ 62" and "0 \<le> bl" and "0 \<le> el"
  shows "\<exists>v. modexp_expHead data bl el = Ret v"
proof -
  have "\<exists>v. big_data data (big_Uint64 bl) sz = Ret v" if "unat sz \<le> 32" for sz
    using big_data_ok [of data sz "big_Uint64 bl"] assms(1) that by force
  moreover have "unat (big_Uint64 el) \<le> 32" if "\<not> el > 32" using that assms(3) by (simp add: big_Uint64_small)
  ultimately show ?thesis by (auto simp: modexp_expHead_def)
qed

text \<open>The price is the formula of the proposal, saturated.\<close>

lemma RequiredGas_modexp:
  assumes "length input < 2 ^ 62" and "big_data input 0 32 = Ret bl" "big_data input 32 32 = Ret el" "big_data input 64 32 = Ret ml"
    and "0 \<le> bl" and "0 \<le> el" and "0 \<le> ml"
  shows "\<exists>msb. 0 \<le> msb \<and> bigModExp_RequiredGas input =
    Ret (let gas = modexp_complexity (BigMax ml bl) * BigMax ((if el > 32 then 8 * (el - 32) else 0) + msb) 1 div 20
         in if BitLen gas > 64 then MaxUint64 else big_Uint64 gas)"
proof -
  have "length (drop 96 input) < 2 ^ 62" using assms(1) by simp
  from expHead_ok [OF this assms(5,6)] obtain h where h: "modexp_expHead (drop 96 input) bl el = Ret h" ..
  show ?thesis
    by (rule exI [of _ "int (if BitLen h > 0 then BitLen h - 1 else 0)"]) (simp add: bigModExp_RequiredGas_def assms(2-4) h Let_def)
qed

lemma modexp_bounds:
  assumes "length input < 2 ^ 62" and "bigModExp_RequiredGas input = Ret g" and "unat g < 2 ^ 62"
    and "big_data input 0 32 = Ret bl" "big_data input 32 32 = Ret el" "big_data input 64 32 = Ret ml" and "0 \<le> bl" "0 \<le> el" "0 \<le> ml"
    and "\<not> (bl = 0 \<and> ml = 0)"
  shows "bl < 2 ^ 36" "ml < 2 ^ 36" "el < 3 * 2 ^ 62"
proof -
  let ?m = "BigMax ml bl"
  have m: "1 \<le> ?m" "bl \<le> ?m" "ml \<le> ?m" using assms(7-10) by (auto simp: BigMax_def)
  obtain msb where msb: "0 \<le> msb" and g: "g = (let gas = modexp_complexity ?m * BigMax ((if el > 32 then 8 * (el - 32) else 0) + msb) 1 div 20
         in if BitLen gas > 64 then MaxUint64 else big_Uint64 gas)"
    using RequiredGas_modexp [OF assms(1,4-9)] assms(2) by auto
  define a where "a = (if el > 32 then 8 * (el - 32) else 0) + msb"
  define gas where "gas = modexp_complexity ?m * BigMax a 1 div 20"
  have "0 \<le> modexp_complexity ?m * BigMax a 1" using complexity_ge [OF m(1)] m(1) by (intro mult_nonneg_nonneg) (auto simp: BigMax_def)
  then have gas0: "0 \<le> gas" by (simp add: gas_def pos_imp_zdiv_nonneg_iff)
  have g: "g = (if BitLen gas > 64 then MaxUint64 else big_Uint64 gas)" using g by (simp only: Let_def gas_def a_def)
  have "\<not> BitLen gas > 64" using assms(3) g by (auto simp: MaxUint64_def)
  then have "gas < 2 ^ 64" using BitLen_le [OF gas0, of 64] by simp
  then have "unat g = nat gas" using g \<open>\<not> BitLen gas > 64\<close> big_Uint64_small [OF gas0] by simp
  then have "gas < 2 ^ 62" using assms(3) gas0 by simp
  then have "modexp_complexity ?m * BigMax a 1 div 20 < 2 ^ 62" by (simp only: gas_def)
  from modexp_lengths [OF m(1) this] have "?m < 2 ^ 36" "a < 20 * 2 ^ 62 + 20" .
  moreover have "8 * (el - 32) \<le> a" using msb by (simp add: a_def)
  ultimately show "bl < 2 ^ 36" "ml < 2 ^ 36" "el < 3 * 2 ^ 62" using m by simp_all
qed

lemma bigModExp_Run_ok:
  assumes "length input < 2 ^ 62" and "bigModExp_RequiredGas input = Ret g" and "unat g < 2 ^ 62"
  shows "\<exists>ret. bigModExp_Run input = Ret (ret, None) \<and> length ret < 2 ^ 40 \<and> (input = [] \<longrightarrow> ret = [])"
proof -
  obtain bl el ml where d: "big_data input 0 32 = Ret bl" "big_data input 32 32 = Ret el" "big_data input 64 32 = Ret ml"
    and nn: "0 \<le> bl" "0 \<le> el" "0 \<le> ml" using input_data [OF assms(1)] by blast
  show ?thesis
  proof (cases "bl = 0 \<and> ml = 0")
    case True
    then show ?thesis by (simp add: bigModExp_Run_def d big_Uint64_def)
  next
    case False
    note b = modexp_bounds [OF assms d nn False]
    have u: "unat (big_Uint64 bl) = nat bl" "unat (big_Uint64 el) = nat el" "unat (big_Uint64 ml) = nat ml"
      using b nn by (simp_all add: big_Uint64_small)
    let ?r = "drop 96 input"
    have r: "length ?r < 2 ^ 62" using assms(1) by simp
    have "length ?r + unat (big_Uint64 bl) < 2 ^ 64" "length ?r + unat (big_Uint64 el) < 2 ^ 64" "length ?r + unat (big_Uint64 ml) < 2 ^ 64"
      using r b nn by (simp_all add: u)
    note ok = this [THEN big_data_ok]
    obtain x y m where x: "big_data ?r 0 (big_Uint64 bl) = Ret x" and y: "big_data ?r (big_Uint64 bl) (big_Uint64 el) = Ret y"
      and m: "big_data ?r (big_Uint64 bl + big_Uint64 el) (big_Uint64 ml) = Ret m" "0 \<le> m" "m < 256 ^ nat ml"
      using ok(1) [of 0] ok(2) [of "big_Uint64 bl"] ok(3) [of "big_Uint64 bl + big_Uint64 el"] unfolding u by blast
    have small: "nat (sint (big_Uint64 ml)) < 2 ^ 40" using nat_sint_le [of "big_Uint64 ml"] b u by simp
    have ne: "\<not> (big_Uint64 bl = 0 \<and> big_Uint64 ml = 0)" using False u nn by (metis nat_0_iff order_antisym unat_0)
    have nonempty: "input \<noteq> []" using False d by (auto simp: big_data_def getData_def Let_def slice_from_to_def RightPadBytes_def big_SetBytes_def be_nat_zeros)
    have "length (nat_bytes (mod_exp (nat x) (nat y) (nat m))) < 2 ^ 40" if "m \<noteq> 0"
    proof -
      have "mod_exp (nat x) (nat y) (nat m) < nat m" using that m(2) by (intro mod_exp_less) simp
      moreover have "nat m < 256 ^ nat ml" using m(2,3) by (simp add: nat_less_iff)
      ultimately have "length (nat_bytes (mod_exp (nat x) (nat y) (nat m))) \<le> nat ml" by (intro length_nat_bytes_le) (rule less_trans)
      then show ?thesis using b by simp
    qed
    then show ?thesis using ne nonempty small by (simp add: bigModExp_Run_def d x y m(1) Let_def LeftPadBytes_length)
  qed
qed

section \<open>All precompiled contracts\<close>

lemma pair_result_length: "(\<And>b. r = Inr b \<Longrightarrow> length b = 64) \<Longrightarrow> length (fst (pair_result r)) \<le> 64"
  by (cases r) (simp_all add: pair_result_def)

lemma Precompiled_Run_ok:
  assumes "native_ok (e_native env)" and "kec_len (e_kec env)" and "length input < 2 ^ 62" and "RequiredGas p input = Ret g" and "unat g < 2 ^ 62"
  shows "\<exists>ret err. Precompiled_Run env p input = Ret (ret, err) \<and> length ret < 2 ^ 62 \<and> (input = [] \<longrightarrow> length ret \<le> 64)"
proof -
  have l: "length input + unat (64 :: u64) < 2 ^ 64" "length input + unat (32 :: u64) < 2 ^ 64" using assms(3) by simp_all
  obtain x y k where d: "getData input 0 64 = Ret x" "getData input 64 64 = Ret y" "big_data input 64 32 = Ret k"
    using getData_ok [OF l(1)] big_data_ok [OF l(2)] by blast
  have nt: "length (nat_sha256 (e_native env) v) = 32" "length (nat_ripemd160 (e_native env) v) = 20"
    "nat_bn256Add (e_native env) v w = Inr b \<Longrightarrow> length b = 64" "nat_bn256ScalarMul (e_native env) v i = Inr b \<Longrightarrow> length b = 64" for v w b i
    using assms(1) by (simp_all add: native_ok_def)
  have short: "length b < 2 ^ 62" if "length b \<le> 64" for b :: bytes using that by simp
  show ?thesis
  proof (cases p)
    case ecrecover
    have "length (fst (ecrecover_Run env input)) \<le> 64"
      using assms(2) by (auto simp: ecrecover_Run_def Let_def LeftPadBytes_length kec_len_def split: option.split)
    then show ?thesis using ecrecover short by (cases "ecrecover_Run env input") (auto simp: Precompiled_Run_def)
  next
    case bigModExp
    then have "bigModExp_RequiredGas input = Ret g" using assms(4) by (simp add: RequiredGas_def)
    from bigModExp_Run_ok [OF assms(3) this assms(5)] bigModExp show ?thesis by (fastforce simp: Precompiled_Run_def)
  next
    case bn256Add
    have "length (fst (pair_result (nat_bn256Add (e_native env) x y))) \<le> 64" by (rule pair_result_length) (rule nt)
    then show ?thesis using bn256Add d short by (cases "pair_result (nat_bn256Add (e_native env) x y)") (simp add: Precompiled_Run_def)
  next
    case bn256ScalarMul
    have "length (fst (pair_result (nat_bn256ScalarMul (e_native env) x k))) \<le> 64" by (rule pair_result_length) (rule nt)
    then show ?thesis using bn256ScalarMul d short by (cases "pair_result (nat_bn256ScalarMul (e_native env) x k)") (simp add: Precompiled_Run_def)
  next
    case bn256Pairing
    then show ?thesis by (auto simp: Precompiled_Run_def split: sum.split)
  qed (use assms(3) nt in \<open>simp_all add: Precompiled_Run_def LeftPadBytes_length\<close>)
qed

lemma RequiredGas_ok: "length input < 2 ^ 62 \<Longrightarrow> \<exists>g. RequiredGas p input = Ret g"
proof -
  assume l: "length input < 2 ^ 62"
  obtain bl el ml where d: "big_data input 0 32 = Ret bl" "big_data input 32 32 = Ret el" "big_data input 64 32 = Ret ml"
    "0 \<le> bl" "0 \<le> el" "0 \<le> ml" using input_data [OF l] by blast
  show ?thesis using RequiredGas_modexp [OF l d] by (cases p) (auto simp: RequiredGas_def)
qed

lemma RunPrecompiled_ok:
  assumes "native_ok (e_native env)" and "kec_len (e_kec env)" and "length input < 2 ^ 62" and "unat (Gas c) < gas_limit"
  shows "\<exists>ret err g. RunPrecompiledContract env p input c = Ret ((ret, err), c\<lparr>Gas := g\<rparr>) \<and> length ret < 2 ^ 62 \<and> (input = [] \<longrightarrow> length ret \<le> 64)"
proof -
  obtain g where g: "RequiredGas p input = Ret g" using RequiredGas_ok [OF assms(3)] by blast
  show ?thesis
  proof (cases "Gas c < g")
    case True
    then show ?thesis by (intro exI [of _ "[]"] exI [of _ "Some ErrOutOfGas"] exI [of _ "Gas c"]) (simp add: RunPrecompiledContract_def g UseGas_def)
  next
    case False
    then have "unat g < 2 ^ 62" using assms(4) by (simp add: gas_limit_def word_less_nat_alt)
    from Precompiled_Run_ok [OF assms(1-3) g this] False show ?thesis by (auto simp: RunPrecompiledContract_def g UseGas_def)
  qed
qed

section \<open>Beyond the bound\<close>

definition modexp_wrap :: bytes where
  "modexp_wrap = replicate 31 0 @ [1] @ replicate 24 0 @ replicate 8 0xff @ replicate 32 0 @ [1]"

lemma modexp_wrap_data:
  "big_data modexp_wrap 0 32 = Ret 1" "big_data modexp_wrap 32 32 = Ret (2 ^ 64 - 1)" "big_data modexp_wrap 64 32 = Ret 0"
  "drop 96 modexp_wrap = [1]" "length modexp_wrap = 97"
proof -
  have f: "replicate 8 (0xff :: byte) = [0xff, 0xff, 0xff, 0xff, 0xff, 0xff, 0xff, 0xff]" by (simp add: eval_nat_numeral)
  have u: "unat (w :: u64) = nat (uint w)" for w by (rule unat_eq_nat_uint)
  show "length modexp_wrap = 97" "drop 96 modexp_wrap = [1]" by (simp_all add: modexp_wrap_def)
  have s: "take 32 modexp_wrap = replicate 31 0 @ [1]" "take 32 (drop 32 modexp_wrap) = replicate 24 0 @ replicate 8 0xff"
    "take 32 (drop 64 modexp_wrap) = replicate 32 0"
    by (simp_all add: modexp_wrap_def)
  show "big_data modexp_wrap 0 32 = Ret 1" "big_data modexp_wrap 32 32 = Ret (2 ^ 64 - 1)" "big_data modexp_wrap 64 32 = Ret 0"
    by (simp_all add: big_data_def getData_def Let_def \<open>length modexp_wrap = 97\<close> slice_from_to_def s RightPadBytes_def big_SetBytes_def
        be_nat_zeros be_nat_append f be_nat_Cons)
qed

text \<open>The precompiled modular exponentiation does not panic when the gas it asks for is below
  $2^{62}$, and with more gas it can: for a base of one byte, an exponent length of $2^{64}-1$ and an
  input of 97 bytes it asks for less than $2^{63}$ gas - which the bound on the gas limit of a block
  admits - and the end of the exponent wraps around, so that the slice expression panics and with it
  every node that executes the transaction.\<close>

lemma bigModExp_panics:
  "(\<forall>input g. length input < 2 ^ 62 \<longrightarrow> bigModExp_RequiredGas input = Ret g \<longrightarrow> unat g < 2 ^ 62 \<longrightarrow> bigModExp_Run input \<noteq> Panic) \<and>
   length modexp_wrap = 97 \<and> (\<exists>g. bigModExp_RequiredGas modexp_wrap = Ret g \<and> unat g < 2 ^ 63) \<and> bigModExp_Run modexp_wrap = Panic"
proof -
  have "\<not> BitLen 7378697629483820633 > 64" "BitLen 0 = 0" using BitLen_le [of 7378697629483820633 64] BitLen_le [of 0 0] by simp_all
  then have r: "bigModExp_RequiredGas modexp_wrap = Ret 7378697629483820633"
    by (simp add: bigModExp_RequiredGas_def modexp_wrap_data modexp_expHead_def modexp_complexity_def BigMax_def big_Uint64_def)
  have z: "(18446744073709551616 :: u64) = 0" by (simp add: word_eq_iff_unsigned)
  have "big_data [1] 0 1 = Ret 1" "big_data [1] 1 0xFFFFFFFFFFFFFFFF = Panic"
    by (simp_all add: big_data_def getData_def Let_def slice_from_to_def RightPadBytes_def big_SetBytes_def be_nat_Cons z)
  then have p: "bigModExp_Run modexp_wrap = Panic"
    by (simp add: bigModExp_Run_def modexp_wrap_data Let_def big_Uint64_def)
  have "length modexp_wrap = 97" by (rule modexp_wrap_data)
  moreover have "unat (7378697629483820633 :: u64) < 2 ^ 63" by simp
  moreover have "bigModExp_Run input \<noteq> Panic"
    if "length input < 2 ^ 62" "bigModExp_RequiredGas input = Ret g" "unat g < 2 ^ 62" for input g
    using bigModExp_Run_ok [OF that] by auto
  ultimately show ?thesis using r p by blast
qed

end
