(* ===== verification/Evm_Call_Safety.thy ===== *)
theory Evm_Call_Safety
  imports Evm_Steps Evm_Precompiles
begin

text \<open>
  Calls and creations.  \<open>runner_safe\<close> is what they need of the code they run and what running a
  contract guarantees again; with it the entries of the instruction table that call contracts are
  shown to behave, and so a whole round of the interpreter, the loop and every level of nesting.
\<close>

definition ref_ok :: "(bytes \<Rightarrow> bytes) \<Rightarrow> ContractRef \<Rightarrow> bool" where
  "ref_ok kec cref \<longleftrightarrow> length (ref_Address cref) = 20 \<and> dests_ok kec (caller_dests cref)"

definition ptr_ok :: "(bytes \<Rightarrow> bytes) \<Rightarrow> ContractRef \<Rightarrow> bool" where
  "ptr_ok kec cref \<longleftrightarrow> (\<exists>a c v d. cref = ContractPtr a c (Some v) d \<and> length c = 20 \<and> is_u256 v)"

lemma dests_ok_empty [simp]: "dests_ok kec Map.empty"
  by (simp add: dests_ok_def)

lemma contract_ref_ok: "contract_ok kec c \<Longrightarrow> ref_ok kec (contract_ref c) \<and> ptr_ok kec (contract_ref c)"
  by (auto simp: contract_ok_def ref_ok_def ptr_ok_def contract_ref_def caller_dests_def)

context evm_state
begin

definition ran :: "bool \<Rightarrow> 's EVM \<Rightarrow> 's EVM \<Rightarrow> bool" where
  "ran ro e e' \<longleftrightarrow> machine_ok e' \<and> st_rel ro (e_StateDB e) (e_StateDB e') \<and> e_readOnly e' = e_readOnly e"

definition runner_safe :: "nat \<Rightarrow> 's runner \<Rightarrow> bool" where
  "runner_safe d run \<longleftrightarrow> (\<forall>e c input. e_depth e = d \<longrightarrow> machine_ok e \<longrightarrow> contract_ok (e_kec env) c \<longrightarrow> length input < input_limit \<longrightarrow>
     unat (Gas c) < gas_limit \<longrightarrow> run e c input \<noteq> Some Panic \<and>
     (\<forall>ret err c' e'. run e c input = Some (Ret ((ret, err), c', e')) \<longrightarrow> ran (static e) e e' \<and> dests_ok (e_kec env) (jumpdests c') \<and>
       length ret < 2 ^ 64 \<and> (input = [] \<longrightarrow> length ret < code_limit)))"

lemma runner_safeD:
  assumes "runner_safe (e_depth e) run" and "machine_ok e" and "contract_ok (e_kec env) c" and "length input < input_limit"
    and "unat (Gas c) < gas_limit"
  shows "run e c input \<noteq> Some Panic"
    "run e c input = Some (Ret ((ret, err), c', e')) \<Longrightarrow> ran (static e) e e' \<and> dests_ok (e_kec env) (jumpdests c') \<and>
      length ret < 2 ^ 64 \<and> (input = [] \<longrightarrow> length ret < code_limit)"
  using assms(1) [unfolded runner_safe_def, rule_format, OF refl assms(2-5)] by blast+

definition call_safe :: "bool \<Rightarrow> 's EVM \<Rightarrow> 's call_result \<Rightarrow> bool" where
  "call_safe ro e r \<longleftrightarrow> r \<noteq> Some Panic \<and> (\<forall>ret g err ds e'. r = Some (Ret ((ret, g, err), ds, e')) \<longrightarrow> ran ro e e' \<and>
     dests_ok (e_kec env) ds \<and> length ret < 2 ^ 64 \<and> (err \<noteq> None \<longrightarrow> W (e_StateDB e') = W (e_StateDB e)))"

lemma call_safe_simps [simp]:
  "call_safe ro e None" "\<not> call_safe ro e (Some Panic)"
  "call_safe ro e (Some (Ret ((ret, g, err), ds, e'))) \<longleftrightarrow> ran ro e e' \<and> dests_ok (e_kec env) ds \<and> length ret < 2 ^ 64 \<and>
    (err \<noteq> None \<longrightarrow> W (e_StateDB e') = W (e_StateDB e))"
  by (simp_all add: call_safe_def)

lemma machine_okD: "machine_ok e \<Longrightarrow> ok (e_StateDB e)" "machine_ok e \<Longrightarrow> total_balance (W (e_StateDB e)) < 2 ^ 256"
  "machine_ok e \<Longrightarrow> env_ok env"
  using env by (auto simp: machine_ok_def)

lemma st_rel_True: "st_rel True s s' \<Longrightarrow> st_rel ro s s'"
  by (simp add: st_rel_def)

lemma ran_refl: "machine_ok e \<Longrightarrow> ran ro e e"
  by (simp add: ran_def st_rel_refl machine_okD)

lemma ran_db: "machine_ok e \<Longrightarrow> st_rel ro (e_StateDB e) s \<Longrightarrow> ran ro e (e\<lparr>e_StateDB := s\<rparr>)"
  by (auto simp: ran_def machine_ok_def st_rel_def)

text \<open>The end of a call: the machine after the callee, or reverted.\<close>

lemma end_call_safe:
  assumes e: "machine_ok e" and sn: "db_Snapshot (e_db env) (e_StateDB e) = (snap, s1)" and s: "st_rel ro s1 s"
    and run: "runner_safe (e_depth e) run" and c: "contract_ok (e_kec env) c" "unat (Gas c) < gas_limit" and i: "length input < input_limit"
    and ro: "ro \<Longrightarrow> static (e\<lparr>e_StateDB := s, e_readOnly := b\<rparr>)"
  shows "call_safe ro (e\<lparr>e_readOnly := b\<rparr>) (end_call env snap (run (e\<lparr>e_StateDB := s, e_readOnly := b\<rparr>) c input))"
proof -
  let ?e = "e\<lparr>e_StateDB := s, e_readOnly := b\<rparr>"
  have ok: "ok (e_StateDB e)" by (rule machine_okD [OF e])
  note sn' = snapshot_rel [OF ok sn]
  have se: "st_rel ro (e_StateDB e) s" by (rule st_rel_trans [OF sn'(1) s])
  then have me: "machine_ok ?e" using e by (auto simp: machine_ok_def st_rel_def)
  have run': "runner_safe (e_depth ?e) run" using run by simp
  note res = runner_safeD [OF run' me c(1) i c(2)]
  consider "run ?e c input = None" | ret err c' e' where "run ?e c input = Some (Ret ((ret, err), c', e'))"
    using res(1) by (metis go.exhaust option.exhaust prod.exhaust)
  then show ?thesis
  proof cases
    case 2
    note r = res(2) [OF 2]
    have st: "st_rel ro s (e_StateDB e')" using r ro unfolding ran_def by (cases "static ?e") (auto simp: st_rel_def)
    show ?thesis
    proof (cases err)
      case None
      then show ?thesis using 2 r st_rel_trans [OF se st] by (simp add: end_call_def ran_def)
    next
      case (Some x)
      from revert_rel [OF ok sn st_rel_trans [OF s st]] obtain s3 where s3: "db_RevertToSnapshot (e_db env) (e_StateDB e') snap = Ret s3"
        "W s3 = W (e_StateDB e)" "\<forall>ro'. st_rel ro' (e_StateDB e) s3" by blast
      have "machine_ok (e'\<lparr>e_StateDB := s3\<rparr>)" using r s3 e by (auto simp: ran_def machine_ok_def st_rel_def)
      then have "ran ro (e\<lparr>e_readOnly := b\<rparr>) (e'\<lparr>e_StateDB := s3\<rparr>)" using r s3 by (auto simp: ran_def)
      then show ?thesis using 2 r Some s3(1,2) by (simp add: end_call_def Let_def UseGas_def)
    qed
  qed (simp add: end_call_def)
qed

lemma NewContract_ok:
  assumes "ref_ok (e_kec env) cref" and "length self = 20" and "is_u256 v" and "length code < code_limit" and "code \<noteq> [] \<longrightarrow> h = e_kec env code"
  shows "contract_ok (e_kec env) (SetCallCode addr h code (NewContract cref self (Some v) gas))"
  using assms by (auto simp: contract_ok_def SetCallCode_def NewContract_def ref_ok_def caller_dests_def split: ContractRef.splits)

lemma state_code:
  assumes "ok s"
  shows "length (db_GetCode (e_db env) s a) < code_limit"
    "db_GetCode (e_db env) s a \<noteq> [] \<longrightarrow> db_GetCodeHash (e_db env) s a = e_kec env (db_GetCode (e_db env) s a)"
proof -
  have x: "acct_ok (e_kec env) (acct_at (e_kec env) (W s) a)" by (rule world_ok_at [OF world [OF assms]])
  then show "length (db_GetCode (e_db env) s a) < code_limit" by (simp add: GetCode [OF assms] acct_ok_def)
  show "db_GetCode (e_db env) s a \<noteq> [] \<longrightarrow> db_GetCodeHash (e_db env) s a = e_kec env (db_GetCode (e_db env) s a)"
    using x by (auto simp: GetCodeHash [OF assms] GetCode [OF assms] acct_ok_def acct_at_def empty_acct_def split: option.splits)
qed

lemma CanTransfer_u256:
  assumes "machine_ok e" and "length a = 20" and "CanTransfer (e_Context env) (e_StateDB e) a v" and "0 \<le> v"
  shows "is_u256 v"
proof -
  have "v \<le> bal (W (e_StateDB e)) a" using assms(3) machine_okD(3) [OF assms(1)] bal_GetBalance [OF machine_okD(1) [OF assms(1)]]
    by (simp add: env_ok_def context_ok_def)
  then show ?thesis using bal_le_total [OF world [OF machine_okD(1) [OF assms(1)]] assms(2)] machine_okD(2) [OF assms(1)] assms(4)
    by (simp add: is_u256_def)
qed

lemma can_transfer:
  "machine_ok e \<Longrightarrow> ok s \<Longrightarrow> CanTransfer (e_Context env) s a v \<longleftrightarrow> v \<le> bal (W s) a"
  using machine_okD(3) bal_GetBalance by (simp add: env_ok_def context_ok_def)

lemma st_rel_okD: "st_rel ro s s' \<Longrightarrow> ok s'"
  by (simp add: st_rel_def)

lemma bal_same: "st_rel True s s' \<Longrightarrow> bal (W s') a = bal (W s) a"
  by (simp add: st_rel_def same_world_def bal_at [of _ _ "e_kec env"])

lemma bal_kept:
  assumes "ok s"
  shows "bal (W (db_SetNonce (e_db env) s a n)) b = bal (W s) b" "bal (W (db_CreateAccount (e_db env) s a)) b = bal (W s) b"
  using writes [OF assms, of "OpSetNonce a n"] writes [OF assms, of "OpCreateAccount a"] bal_world_op(1,2)
  by (simp_all del: world_op.simps) (elim exE conjE, simp del: world_op.simps add: bal_world_op)+

section \<open>The four calls\<close>

definition call_args :: "'s runner \<Rightarrow> 's EVM \<Rightarrow> ContractRef \<Rightarrow> bytes \<Rightarrow> bytes \<Rightarrow> u64 \<Rightarrow> bool" where
  "call_args run e cref addr input gas \<longleftrightarrow> machine_ok e \<and> ref_ok (e_kec env) cref \<and> length addr = 20 \<and> length input < input_limit \<and>
     unat gas < gas_limit \<and> (e_depth e \<le> CallCreateDepth \<longrightarrow> runner_safe (e_depth e) run)"

lemma call_nothing:
  assumes "call_args run e cref addr input gas"
  shows "call_safe ro e (Some (Ret (([], g, err), caller_dests cref, e)))"
  using assms ran_refl by (auto simp: call_args_def ref_ok_def)

lemma Call_safe:
  assumes a: "call_args run e cref addr input gas" and v: "0 \<le> val" and ro: "static e \<longrightarrow> val = 0"
  shows "call_safe (static e) e (Call env run e cref addr input gas val)"
proof (cases "no_recursion env e \<or> e_depth e > CallCreateDepth \<or> \<not> CanTransfer (e_Context env) (e_StateDB e) (ref_Address cref) val")
  case True
  then show ?thesis using call_nothing [OF a, of "static e"] by (auto simp: Call_def Let_def)
next
  case False
  have e: "machine_ok e" and cref: "length (ref_Address cref) = 20" "ref_ok (e_kec env) cref" and addr: "length addr = 20"
    and gas: "unat gas < gas_limit" and i: "length input < input_limit" and run: "runner_safe (e_depth e) run"
    using a False by (auto simp: call_args_def ref_ok_def)
  have ct: "CanTransfer (e_Context env) (e_StateDB e) (ref_Address cref) val" using False by simp
  obtain snap s1 where sn: "db_Snapshot (e_db env) (e_StateDB e) = (snap, s1)" by fastforce
  note s1 = snapshot_rel [OF machine_okD(1) [OF e] sn]
  define s2 where "s2 = (if \<not> db_Exist (e_db env) s1 addr then db_CreateAccount (e_db env) s1 addr else s1)"
  define s3 where "s3 = Transfer (e_Context env) s2 (ref_Address cref) addr val"
  have s2: "st_rel True s1 s2" using create_rel [OF s1(4)] st_rel_refl [OF s1(4)] by (simp add: s2_def)
  have ct2: "CanTransfer (e_Context env) s2 (ref_Address cref) val"
    using ct can_transfer [OF e] machine_okD(1) [OF e] st_rel_okD [OF s2] bal_same [OF s2] s1(3) by simp
  have "st_rel (static e) s2 s3" unfolding s3_def
    by (rule transfer_rel [OF st_rel_okD [OF s2] cref(1) addr v ct2]) (use ro in blast)
  then have s3: "st_rel (static e) s1 s3" by (rule st_rel_trans [OF st_rel_True [OF s2]])
  let ?c = "SetCallCode addr (db_GetCodeHash (e_db env) s3 addr) (db_GetCode (e_db env) s3 addr) (NewContract cref addr (Some val) gas)"
  have c: "contract_ok (e_kec env) ?c"
    by (rule NewContract_ok [OF cref(2) addr CanTransfer_u256 [OF e cref(1) ct v] state_code [OF st_rel_okD [OF s3]]])
  have g: "unat (Gas ?c) < gas_limit" using gas by (simp add: SetCallCode_def NewContract_def)
  have "call_safe (static e) (e\<lparr>e_readOnly := e_readOnly e\<rparr>) (end_call env snap (run (e\<lparr>e_StateDB := s3, e_readOnly := e_readOnly e\<rparr>) ?c input))"
    by (rule end_call_safe [OF e sn s3 run c g i]) (simp add: static_def)
  then have end': "call_safe (static e) e (end_call env snap (run (e\<lparr>e_StateDB := s3\<rparr>) ?c input))" by simp
  have "call_safe (static e) e (Some (Ret (([], gas, None), caller_dests cref, e\<lparr>e_StateDB := s1\<rparr>)))"
    using ran_db [OF e s1(1)] cref(2) by (simp add: ref_ok_def)
  then show ?thesis using False end' by (simp add: Call_def Let_def sn s2_def [symmetric] s3_def [symmetric])
qed

lemma CallCode_safe:
  assumes a: "call_args run e cref addr input gas" and v: "0 \<le> val"
  shows "call_safe (static e) e (CallCode env run e cref addr input gas val)"
proof (cases "no_recursion env e \<or> e_depth e > CallCreateDepth \<or> \<not> CanTransfer (e_Context env) (e_StateDB e) (ref_Address cref) val")
  case True
  then show ?thesis using call_nothing [OF a, of "static e"] by (auto simp: CallCode_def Let_def)
next
  case False
  have e: "machine_ok e" and cref: "length (ref_Address cref) = 20" "ref_ok (e_kec env) cref"
    and gas: "unat gas < gas_limit" and i: "length input < input_limit" and run: "runner_safe (e_depth e) run"
    using a False by (auto simp: call_args_def ref_ok_def)
  have ct: "CanTransfer (e_Context env) (e_StateDB e) (ref_Address cref) val" using False by simp
  obtain snap s1 where sn: "db_Snapshot (e_db env) (e_StateDB e) = (snap, s1)" by fastforce
  note s1 = snapshot_rel [OF machine_okD(1) [OF e] sn]
  let ?c = "SetCallCode addr (db_GetCodeHash (e_db env) s1 addr) (db_GetCode (e_db env) s1 addr) (NewContract cref (ref_Address cref) (Some val) gas)"
  have c: "contract_ok (e_kec env) ?c"
    by (rule NewContract_ok [OF cref(2,1) CanTransfer_u256 [OF e cref(1) ct v] state_code [OF s1(4)]])
  have g: "unat (Gas ?c) < gas_limit" using gas by (simp add: SetCallCode_def NewContract_def)
  have "call_safe (static e) (e\<lparr>e_readOnly := e_readOnly e\<rparr>) (end_call env snap (run (e\<lparr>e_StateDB := s1, e_readOnly := e_readOnly e\<rparr>) ?c input))"
    by (rule end_call_safe [OF e sn st_rel_refl [OF s1(4)] run c g i]) (simp add: static_def)
  then show ?thesis using False by (simp add: CallCode_def Let_def sn)
qed

lemma DelegateCall_safe:
  assumes a: "call_args run e cref addr input gas" and p: "ptr_ok (e_kec env) cref"
  shows "call_safe (static e) e (DelegateCall env run e cref addr input gas)"
proof (cases "no_recursion env e \<or> e_depth e > CallCreateDepth")
  case True
  then show ?thesis using call_nothing [OF a, of "static e"] by (auto simp: DelegateCall_def Let_def)
next
  case False
  have e: "machine_ok e" and cref: "length (ref_Address cref) = 20" "ref_ok (e_kec env) cref"
    and gas: "unat gas < gas_limit" and i: "length input < input_limit" and run: "runner_safe (e_depth e) run"
    using a False by (auto simp: call_args_def ref_ok_def)
  from p obtain x k w d where ptr: "cref = ContractPtr x k (Some w) d" "length k = 20" "is_u256 w" by (auto simp: ptr_ok_def)
  obtain snap s1 where sn: "db_Snapshot (e_db env) (e_StateDB e) = (snap, s1)" by fastforce
  note s1 = snapshot_rel [OF machine_okD(1) [OF e] sn]
  define c0 where "c0 = (NewContract cref (ref_Address cref) None gas)\<lparr>c_DelegateCall := True, CallerAddress := k, c_value := Some w\<rparr>"
  have d: "AsDelegate (NewContract cref (ref_Address cref) None gas) = Ret c0" by (simp add: AsDelegate_def c0_def NewContract_def ptr(1))
  let ?c = "SetCallCode addr (db_GetCodeHash (e_db env) s1 addr) (db_GetCode (e_db env) s1 addr) c0"
  have c: "contract_ok (e_kec env) ?c" using state_code [OF s1(4), of addr] cref ptr
    by (simp add: contract_ok_def SetCallCode_def c0_def NewContract_def ref_ok_def caller_dests_def)
  have g: "unat (Gas ?c) < gas_limit" using gas by (simp add: SetCallCode_def c0_def NewContract_def)
  have "call_safe (static e) (e\<lparr>e_readOnly := e_readOnly e\<rparr>) (end_call env snap (run (e\<lparr>e_StateDB := s1, e_readOnly := e_readOnly e\<rparr>) ?c input))"
    by (rule end_call_safe [OF e sn st_rel_refl [OF s1(4)] run c g i]) (simp add: static_def)
  then show ?thesis using False by (simp add: DelegateCall_def Let_def sn d)
qed

text \<open>A static call runs with the flag set, and gives the flag back as it was.\<close>

lemma StaticCall_safe:
  assumes a: "call_args run e cref addr input gas"
  shows "call_safe (static (e\<lparr>e_readOnly := True\<rparr>)) e (StaticCall env run e cref addr input gas)"
proof (cases "no_recursion env e \<or> e_depth e > CallCreateDepth")
  case True
  then show ?thesis using call_nothing [OF a, of "static (e\<lparr>e_readOnly := True\<rparr>)"] by (auto simp: StaticCall_def Let_def)
next
  case False
  have e: "machine_ok e" and cref: "ref_ok (e_kec env) cref" and addr: "length addr = 20"
    and gas: "unat gas < gas_limit" and i: "length input < input_limit" and run: "runner_safe (e_depth e) run"
    using a False by (auto simp: call_args_def)
  obtain snap s1 where sn: "db_Snapshot (e_db env) (e_StateDB e) = (snap, s1)" by fastforce
  note s1 = snapshot_rel [OF machine_okD(1) [OF e] sn]
  let ?c = "SetCallCode addr (db_GetCodeHash (e_db env) s1 addr) (db_GetCode (e_db env) s1 addr) (NewContract cref addr (Some 0) gas)"
  have c: "contract_ok (e_kec env) ?c"
    by (rule NewContract_ok [OF cref addr _ state_code [OF s1(4)]]) (simp add: is_u256_def)
  have g: "unat (Gas ?c) < gas_limit" using gas by (simp add: SetCallCode_def NewContract_def)
  let ?r = "end_call env snap (run (e\<lparr>e_StateDB := s1, e_readOnly := True\<rparr>) ?c input)"
  have r: "call_safe (static (e\<lparr>e_readOnly := True\<rparr>)) (e\<lparr>e_readOnly := True\<rparr>) ?r"
    by (rule end_call_safe [OF e sn st_rel_refl [OF s1(4)] run c g i]) (simp add: static_def)
  consider "?r = None" | ret g err ds e' where "?r = Some (Ret ((ret, g, err), ds, e'))"
    using r by (metis call_safe_simps(2) go.exhaust option.exhaust prod.exhaust)
  then have "call_safe (static (e\<lparr>e_readOnly := True\<rparr>)) e (reset_readOnly (e_readOnly e) ?r)"
    by cases (use r in \<open>auto simp: reset_readOnly_def ran_def machine_ok_def\<close>)
  then show ?thesis using False by (simp add: StaticCall_def Let_def sn)
qed

section \<open>Creation\<close>

definition create_safe :: "'s EVM \<Rightarrow> ((bytes \<times> bytes \<times> u64 \<times> vm_error option) \<times> destinations \<times> 's EVM) go option \<Rightarrow> bool" where
  "create_safe e r \<longleftrightarrow> r \<noteq> Some Panic \<and> (\<forall>ret addr g err ds e'. r = Some (Ret ((ret, addr, g, err), ds, e')) \<longrightarrow> ran False e e' \<and>
     dests_ok (e_kec env) ds \<and> length ret < 2 ^ 64 \<and> length addr = 20)"

lemma create_safe_simps [simp]:
  "create_safe e None" "\<not> create_safe e (Some Panic)"
  "create_safe e (Some (Ret ((ret, addr, g, err), ds, e'))) \<longleftrightarrow> ran False e e' \<and> dests_ok (e_kec env) ds \<and> length ret < 2 ^ 64 \<and> length addr = 20"
  by (simp_all add: create_safe_def)

lemma st_rel_False: "st_rel ro s s' \<Longrightarrow> st_rel False s s'"
  by (simp add: st_rel_def)

lemma ran_trans: "ran ro e e' \<Longrightarrow> ran ro e' e'' \<Longrightarrow> ran ro e e''"
  unfolding ran_def using st_rel_trans by metis

lemma ran_False: "ran ro e e' \<Longrightarrow> ran False e e'"
  by (auto simp: ran_def st_rel_False)

lemma ran_machine: "ran ro e e' \<Longrightarrow> machine_ok e'"
  by (simp add: ran_def)

lemma ran_revert:
  assumes e: "machine_ok e" and sn: "db_Snapshot (e_db env) (e_StateDB e) = (snap, s1)" and r: "ran ro (e\<lparr>e_StateDB := s1\<rparr>) e'"
  shows "\<exists>s3. db_RevertToSnapshot (e_db env) (e_StateDB e') snap = Ret s3 \<and> ran False e (e'\<lparr>e_StateDB := s3\<rparr>)"
proof -
  have "st_rel ro s1 (e_StateDB e')" using r by (simp add: ran_def)
  from revert_rel [OF machine_okD(1) [OF e] sn this] obtain s3 where s3: "db_RevertToSnapshot (e_db env) (e_StateDB e') snap = Ret s3"
    "\<forall>ro'. st_rel ro' (e_StateDB e) s3" by blast
  have "ran False e (e'\<lparr>e_StateDB := s3\<rparr>)" using r s3(2) e by (auto simp: ran_def machine_ok_def st_rel_def)
  then show ?thesis using s3(1) by blast
qed

lemma store_code_safe:
  assumes "machine_ok e" and "length ret < code_limit" and "store_code env addr ret c e = (err, c', e')"
  shows "ran False e e' \<and> jumpdests c' = jumpdests c"
proof -
  have "ran False e (e\<lparr>e_StateDB := db_SetCode (e_db env) (e_StateDB e) addr ret\<rparr>)"
    by (rule ran_db [OF assms(1) write_rels(2) [OF machine_okD(1) [OF assms(1)] assms(2)]])
  then show ?thesis using assms(3) ran_refl [OF assms(1)]
    by (auto simp: store_code_def UseGas_def split: if_splits)
qed

lemma revert_create_safe:
  assumes e: "machine_ok e" and sn: "db_Snapshot (e_db env) (e_StateDB e) = (snap, s1)" and r: "ran False (e\<lparr>e_StateDB := s1\<rparr>) e'"
  shows "\<exists>c' e''. revert_create env snap mx err c e' = Ret (c', e'') \<and> jumpdests c' = jumpdests c \<and> ran False e e''"
proof -
  from ran_revert [OF assms] obtain s3 where s3: "db_RevertToSnapshot (e_db env) (e_StateDB e') snap = Ret s3" "ran False e (e'\<lparr>e_StateDB := s3\<rparr>)" by blast
  have "ran False e e'" using r snapshot_rel(1) [OF machine_okD(1) [OF e] sn, of False] st_rel_trans by (auto simp: ran_def)
  then show ?thesis using s3 by (simp add: revert_create_def UseGas_def)
qed

lemma end_create_safe:
  assumes e: "machine_ok e" and sn: "db_Snapshot (e_db env) (e_StateDB e) = (snap, s1)" and s: "st_rel False s1 s"
    and run: "runner_safe (e_depth e) run" and c: "contract_ok (e_kec env) c" "unat (Gas c) < gas_limit" and a: "length addr = 20"
  shows "create_safe e (end_create env snap addr (run (e\<lparr>e_StateDB := s\<rparr>) c []))"
proof -
  let ?e = "e\<lparr>e_StateDB := s\<rparr>"
  have e1: "machine_ok (e\<lparr>e_StateDB := s1\<rparr>)"
    using ran_machine [OF ran_db [OF e snapshot_rel(1) [OF machine_okD(1) [OF e] sn, of False]]] .
  have r1: "ran False (e\<lparr>e_StateDB := s1\<rparr>) ?e" using ran_db [OF e1, of False s] s by simp
  have run': "runner_safe (e_depth ?e) run" using run by simp
  have i: "length [] < input_limit" by (simp add: input_limit_def)
  note res = runner_safeD [OF run' ran_machine [OF r1] c(1) i c(2)]
  consider "run ?e c [] = None" | ret err0 c0 e0 where "run ?e c [] = Some (Ret ((ret, err0), c0, e0))"
    using res(1) by (metis go.exhaust option.exhaust prod.exhaust)
  then show ?thesis
  proof cases
    case 2
    define mx where "mx = (IsEIP158 (e_chainConfig env) (blockNumber env) \<and> length ret > MaxCodeSize)"
    have r: "ran (static ?e) ?e e0" "dests_ok (e_kec env) (jumpdests c0)" "length ret < 2 ^ 64" "length ret < code_limit" using res(2) [OF 2] by auto
    note r0 = ran_trans [OF r1 ran_False [OF r(1)]]
    obtain err c' e' where st: "(if err0 = None \<and> \<not> mx then store_code env addr ret c0 e0 else (err0, c0, e0)) = (err, c', e')"
      by (metis prod.exhaust)
    have "ran False e0 e' \<and> jumpdests c' = jumpdests c0"
      using st store_code_safe [OF ran_machine [OF r(1)] r(4), of addr c0 err c' e'] ran_refl [OF ran_machine [OF r(1)]] by (auto split: if_splits)
    then have r2: "ran False (e\<lparr>e_StateDB := s1\<rparr>) e'" "jumpdests c' = jumpdests c0" using ran_trans [OF r0] by auto
    from revert_create_safe [OF e sn r2(1), of mx err c'] obtain c2 e2 where
      "revert_create env snap mx err c' e' = Ret (c2, e2)" "jumpdests c2 = jumpdests c'" "ran False e e2" by blast
    moreover have "end_create env snap addr (run ?e c []) = Some (go_bind (revert_create env snap mx err c' e') (\<lambda>(contract', evm').
        Ret ((ret, addr, Gas contract', if mx \<and> err = None then Some ErrMaxCodeSizeExceeded else err), jumpdests contract', evm')))"
      unfolding end_create_def 2 option.case go.case prod.case Let_def mx_def [symmetric] st ..
    ultimately show ?thesis using r r2(2) a by simp
  qed (simp add: end_create_def)
qed

lemma CreateAddress_length: "env_ok env \<Longrightarrow> length (CreateAddress (e_kec env) a n) = 20"
  by (simp add: CreateAddress_def Let_def)

lemma Create_safe:
  assumes a: "call_args run e cref (replicate 20 0) [] gas" and code: "length code < code_limit" and v: "0 \<le> val"
  shows "create_safe e (Create env run e cref code gas val)"
proof (cases "e_depth e > CallCreateDepth \<or> \<not> CanTransfer (e_Context env) (e_StateDB e) (ref_Address cref) val")
  case True
  have "ran False e e" "dests_ok (e_kec env) (caller_dests cref)" using a ran_refl by (auto simp: call_args_def ref_ok_def)
  then show ?thesis using True by (auto simp: Create_def Let_def)
next
  case False
  let ?db = "e_db env" and ?me = "ref_Address cref"
  have e: "machine_ok e" and cref: "length ?me = 20" "ref_ok (e_kec env) cref" "dests_ok (e_kec env) (caller_dests cref)"
    and gas: "unat gas < gas_limit" and run: "runner_safe (e_depth e) run"
    using a False by (auto simp: call_args_def ref_ok_def)
  have ct: "CanTransfer (e_Context env) (e_StateDB e) ?me val" using False by simp
  define s1 where "s1 = db_SetNonce ?db (e_StateDB e) ?me (db_GetNonce ?db (e_StateDB e) ?me + 1)"
  define addr where "addr = CreateAddress (e_kec env) ?me (db_GetNonce ?db (e_StateDB e) ?me)"
  have addr: "length addr = 20" unfolding addr_def by (rule CreateAddress_length [OF machine_okD(3) [OF e]])
  have s1: "st_rel False (e_StateDB e) s1" unfolding s1_def by (rule write_rels(1) [OF machine_okD(1) [OF e]])
  have r1: "ran False e (e\<lparr>e_StateDB := s1\<rparr>)" by (rule ran_db [OF e s1])
  note e1 = ran_machine [OF r1]
  obtain snap s2 where sn: "db_Snapshot ?db s1 = (snap, s2)" by fastforce
  note s2 = snapshot_rel [OF st_rel_okD [OF s1] sn]
  define s3 where "s3 = db_CreateAccount ?db s2 addr"
  define s4 where "s4 = (if IsEIP158 (e_chainConfig env) (blockNumber env) then db_SetNonce ?db s3 addr 1 else s3)"
  define s5 where "s5 = Transfer (e_Context env) s4 ?me addr val"
  have s3: "st_rel False s2 s3" unfolding s3_def by (rule write_rels(6) [OF s2(4)])
  have s4: "st_rel False s3 s4" unfolding s4_def using write_rels(1) [OF st_rel_okD [OF s3]] st_rel_refl [OF st_rel_okD [OF s3]] by simp
  have "bal (W s4) ?me = bal (W (e_StateDB e)) ?me"
    unfolding s4_def using bal_kept [OF st_rel_okD [OF s3]] bal_kept [OF s2(4)] bal_kept [OF machine_okD(1) [OF e]] s2(3) by (simp add: s3_def s1_def)
  then have ct4: "CanTransfer (e_Context env) s4 ?me val"
    using ct can_transfer [OF e] machine_okD(1) [OF e] st_rel_okD [OF s4] by simp
  have "st_rel False s4 s5" unfolding s5_def by (rule transfer_rel [OF st_rel_okD [OF s4] cref(1) addr v ct4]) simp
  then have s5: "st_rel False s2 s5" using st_rel_trans [OF s3] st_rel_trans [OF s4] by blast
  let ?c = "SetCallCode addr (e_kec env code) code (NewContract cref addr (Some val) gas)"
  have c: "contract_ok (e_kec env) ?c" by (rule NewContract_ok [OF cref(2) addr CanTransfer_u256 [OF e cref(1) ct v] code]) simp
  have g: "unat (Gas ?c) < gas_limit" using gas by (simp add: SetCallCode_def NewContract_def)
  have "create_safe (e\<lparr>e_StateDB := s1\<rparr>) (end_create env snap addr (run (e\<lparr>e_StateDB := s1, e_StateDB := s5\<rparr>) ?c []))"
    by (rule end_create_safe [OF e1 _ s5 _ c g addr]) (use sn run in simp_all)
  then have end': "create_safe e (end_create env snap addr (run (e\<lparr>e_StateDB := s5\<rparr>) ?c []))"
    using ran_trans [OF r1] unfolding create_safe_def by simp
  have "ran False e (e\<lparr>e_StateDB := s5\<rparr>)"
    by (rule ran_db [OF e]) (rule st_rel_trans [OF s1 st_rel_trans [OF s2(1) s5]])
  then show ?thesis using False r1 end' addr cref(3)
    unfolding Create_def Let_def s1_def [symmetric] addr_def [symmetric] sn prod.case s3_def [symmetric] s4_def [symmetric] s5_def [symmetric]
    by simp
qed

end

end
