(* ===== verification/Evm_Call_Steps.thy ===== *)
theory Evm_Call_Steps
  imports Evm_Call_Safety
begin

text \<open>
  The instructions that call or create contracts.  Their gas functions write the gas of the callee onto
  the stack; the gas is below the price, so below the gas of the caller.  With the facts about calls the
  entries of the instruction tables behave at every depth.
\<close>

section \<open>Prices of calls\<close>

definition price_call :: "'s frame \<Rightarrow> 's frame \<Rightarrow> bool" where
  "price_call f f' \<longleftrightarrow> (\<exists>m st. f' = f\<lparr>f_mem := m, f_stack := st\<rparr> \<and> Memory.store m = Memory.store (f_mem f) \<and>
     (st = f_stack f \<or> (\<exists>g :: u64. st = uint g # tl (f_stack f))))"

lemma price_local_call:
  assumes "price_local f f'"
  shows "price_call f f'"
proof -
  obtain m where "f' = f\<lparr>f_mem := m\<rparr>" "Memory.store m = Memory.store (f_mem f)" using assms unfolding price_local_def by blast
  then show ?thesis unfolding price_call_def by (intro exI [of _ m] exI [of _ "f_stack f"]) simp
qed

lemma price_call_after:
  assumes "price_local f f1" and "price_call f1 f2"
  shows "price_call f f2"
proof -
  obtain m where m: "f1 = f\<lparr>f_mem := m\<rparr>" "Memory.store m = Memory.store (f_mem f)" using assms(1) unfolding price_local_def by blast
  obtain m2 st where f2: "f2 = f1\<lparr>f_mem := m2, f_stack := st\<rparr>" "Memory.store m2 = Memory.store (f_mem f1)"
    "st = f_stack f1 \<or> (\<exists>g :: u64. st = uint g # tl (f_stack f1))" using assms(2) unfolding price_call_def by blast
  show ?thesis unfolding price_call_def by (intro exI [of _ m2] exI [of _ st]) (use m f2 in auto)
qed

definition call_shape :: "'s frame \<Rightarrow> ((vm_error + 'a) \<times> 's frame) go \<Rightarrow> bool" where
  "call_shape f r \<longleftrightarrow> (\<exists>x f'. r = Ret (x, f') \<and> price_call f f')"

lemma call_gas_from_shape:
  assumes "f_stack f \<noteq> []"
  shows "call_shape f (call_gas_from env gas f)"
proof -
  obtain y st where st: "f_stack f = y # st" using assms by (cases "f_stack f") auto
  show ?thesis
  proof (cases "callGas (gasTable env) (Gas (f_contract f)) gas y")
    case (Inl e)
    then show ?thesis using price_local_call [OF price_local_refl, of f] by (simp add: call_shape_def call_gas_from_def st Back_def)
  next
    case (Inr cg)
    have "price_call f (f\<lparr>f_stack := uint cg # st\<rparr>)"
      unfolding price_call_def by (intro exI [of _ "f_mem f"] exI [of _ "uint cg # st"]) (auto simp: st)
    then show ?thesis using Inr by (simp add: call_shape_def call_gas_from_def st Back_def safe_add_def split: prod.split)
  qed
qed

lemma call_shape_bind:
  assumes "res_local f m" and "\<And>g f1. price_local f f1 \<Longrightarrow> call_shape f1 (k g f1)"
  shows "call_shape f (gas_bind m k)"
proof -
  obtain x f1 where m: "m = Ret (x, f1)" "price_local f f1" using assms(1) by (auto simp: res_local_def)
  show ?thesis
  proof (cases x)
    case (Inl e)
    then show ?thesis using m price_local_call by (auto simp: gas_bind_def call_shape_def)
  next
    case (Inr g)
    from assms(2) [OF m(2), of g] obtain y f2 where "k g f1 = Ret (y, f2)" "price_call f1 f2" by (auto simp: call_shape_def)
    then show ?thesis using price_call_after [OF m(2)] by (auto simp: m(1) Inr gas_bind_def call_shape_def)
  qed
qed

lemma price_local_stack: "price_local f f1 \<Longrightarrow> f_stack f1 = f_stack f"
  using price_local_simps by blast

lemma call_price_shape: "f_stack f \<noteq> [] \<Longrightarrow> call_shape f (call_price env base ms f)"
  unfolding call_price_def
  by (intro call_shape_bind res_local_steps call_gas_from_shape) (simp add: price_local_stack)

lemma call_shapes:
  "2 < length (f_stack f) \<Longrightarrow> call_shape f (gasCall env ms f)" "2 < length (f_stack f) \<Longrightarrow> call_shape f (gasCallCode env ms f)"
  "f_stack f \<noteq> [] \<Longrightarrow> call_shape f (gasDelegateCall env ms f)" "f_stack f \<noteq> [] \<Longrightarrow> call_shape f (gasStaticCall env ms f)"
proof -
  assume len: "2 < length (f_stack f)"
  then have "f_stack f \<noteq> []" by auto
  then show "call_shape f (gasCall env ms f)" "call_shape f (gasCallCode env ms f)"
    using call_price_shape [of f] len by (auto simp: gasCall_def gasCallCode_def Back_def)
next
  assume "f_stack f \<noteq> []"
  then show "call_shape f (gasDelegateCall env ms f)" "call_shape f (gasStaticCall env ms f)"
    unfolding gasDelegateCall_def gasStaticCall_def
    by (intro call_shape_bind res_local_steps call_gas_from_shape; simp add: price_local_stack)+
qed

text \<open>The gas on the stack after the price is known.\<close>

definition granted :: "bool \<Rightarrow> stack \<Rightarrow> bool" where
  "granted pays st \<longleftrightarrow> (\<exists>cg :: u64. hd st = uint cg \<and> unat cg + (if pays \<and> st ! 2 \<noteq> 0 then 2300 else 0) < gas_limit)"

lemma three_tops: "2 < length xs \<Longrightarrow> \<exists>a b c ys. xs = a # b # c # ys"
  by (cases xs; cases "tl xs"; cases "tl (tl xs)") auto

lemma call_granted:
  assumes "2 < length (f_stack f)" and "cost \<le> Gas (f_contract f)" and "f_gas f < gas_limit"
  shows "gasCall env ms f = Ret (Inr cost, f') \<Longrightarrow> granted True (f_stack f')"
    "gasCallCode env ms f = Ret (Inr cost, f') \<Longrightarrow> granted True (f_stack f')"
    "gasDelegateCall env ms f = Ret (Inr cost, f') \<Longrightarrow> granted False (f_stack f')"
    "gasStaticCall env ms f = Ret (Inr cost, f') \<Longrightarrow> granted False (f_stack f')"
proof -
  have c: "unat cost < gas_limit" using assms(2,3) by (simp add: word_le_nat_alt f_gas_def)
  obtain a b v st where st: "f_stack f = a # b # v # st" using three_tops [OF assms(1)] by blast
  show "gasCall env ms f = Ret (Inr cost, f') \<Longrightarrow> granted True (f_stack f')"
    using gasCall_price [of env ms f cost f'] c by (fastforce simp: granted_def st Back_def split: if_splits)
  show "gasCallCode env ms f = Ret (Inr cost, f') \<Longrightarrow> granted True (f_stack f')"
    using gasCallCode_price [of env ms f cost f'] c by (fastforce simp: granted_def st Back_def split: if_splits)
  show "gasDelegateCall env ms f = Ret (Inr cost, f') \<Longrightarrow> granted False (f_stack f')"
    using gasDelegateCall_price [of env ms f cost f'] c by (fastforce simp: granted_def)
  show "gasStaticCall env ms f = Ret (Inr cost, f') \<Longrightarrow> granted False (f_stack f')"
    using gasStaticCall_price [of env ms f cost f'] c by (fastforce simp: granted_def)
qed

section \<open>Tables at a depth\<close>

context evm_state
begin

definition op_safe_at :: "nat \<Rightarrow> OpCode \<times> 's operation \<Rightarrow> bool" where
  "op_safe_at d = (\<lambda>(op, opn). \<forall>f. f_depth f = d \<longrightarrow> frame_ok f \<longrightarrow> validateStack opn (f_stack f) = None \<longrightarrow>
     (static (f_evm f) \<longrightarrow> \<not> writes opn \<and> (op = CALL \<longrightarrow> f_stack f ! 2 = 0)) \<longrightarrow>
     (\<exists>r. memory_size opn f = Ret r) \<and>
     (\<forall>ms. memory_size opn f = Ret (Inr ms) \<longrightarrow> (\<exists>x f1. gasCost opn ms f = Ret (x, f1) \<and> moves f f1 \<and>
       (\<forall>cost. x = Inr cost \<longrightarrow> cost \<le> Gas (f_contract f) \<longrightarrow> f_gas f < 2 ^ 62 \<longrightarrow> res_safe opn f (execute opn (charged ms cost f1))))))"

lemma op_safe_at: "op_safe p \<Longrightarrow> op_safe_at d p"
  by (cases p) (simp add: op_safe_def op_safe_at_def)

definition res_moves :: "'s frame \<Rightarrow> ((vm_error + bytes) \<times> 's frame) go option \<Rightarrow> bool" where
  "res_moves f r \<longleftrightarrow> r \<noteq> Some Panic \<and> (\<forall>y f'. r = Some (Ret (y, f')) \<longrightarrow> moves f f' \<and> (\<forall>b. y = Inr b \<longrightarrow> length b < 2 ^ 64))"

lemma moves_price_call:
  assumes f: "frame_ok f" and p: "price_call f f'"
  shows "moves f f'"
proof -
  obtain m st where m: "f' = f\<lparr>f_mem := m, f_stack := st\<rparr>" "Memory.store m = Memory.store (f_mem f)"
    "st = f_stack f \<or> (\<exists>g :: u64. st = uint g # tl (f_stack f))" using p unfolding price_call_def by blast
  show ?thesis
  proof (cases "f_stack f = [] \<and> st \<noteq> f_stack f")
    case True
    then obtain g :: u64 where "st = [uint g]" using m(3) by auto
    then have "list_all is_u256 st" "length st \<le> StackLimit" by (simp_all add: StackLimit_def)
    then show ?thesis unfolding m(1) using m(2) frame_okD(3) [OF f] by (intro moves_local(3) [OF f]) simp_all
  next
    case False
    then have "list_all is_u256 st" "length st \<le> StackLimit" using m(3) frame_okD(1,2) [OF f] by (cases "f_stack f"; auto)+
    then show ?thesis unfolding m(1) using m(2) frame_okD(3) [OF f] by (intro moves_local(3) [OF f]) simp_all
  qed
qed

lemma general_op_safe:
  assumes price: "\<And>ms f. frame_ok f \<Longrightarrow> n \<le> length (f_stack f) \<Longrightarrow> call_shape f (gasCost opn ms f)"
    and paid: "\<And>ms f cost f1. n \<le> length (f_stack f) \<Longrightarrow> cost \<le> Gas (f_contract f) \<Longrightarrow> f_gas f < gas_limit \<Longrightarrow>
      gasCost opn ms f = Ret (Inr cost, f1) \<Longrightarrow> paid (f_stack f1)"
    and mem: "memorySize opn = Some g" "bounded_mem (gasCost opn)" "need_fine n (Some g)"
    and g: "\<And>x y st. g (x # st) = g (y # st)"
    and n: "0 < n" "validateStack opn = makeStackFunc n 1" and op: "\<not> halts opn" "\<not> reverts opn"
    and ex: "\<And>f. frame_ok f \<Longrightarrow> f_depth f = d \<Longrightarrow> f_gas f < gas_limit \<Longrightarrow> n \<le> length (f_stack f) \<Longrightarrow> covers (Some g) f \<Longrightarrow>
      paid (f_stack f) \<Longrightarrow> (static (f_evm f) \<Longrightarrow> \<not> writes opn \<and> (op = CALL \<longrightarrow> f_stack f ! 2 = 0)) \<Longrightarrow> res_moves f (execute opn f)"
  shows "op_safe_at d (op, opn)"
  unfolding op_safe_at_def prod.case
proof (intro allI impI conjI)
  fix f assume d: "f_depth f = d" and f: "frame_ok f" and v: "validateStack opn (f_stack f) = None"
    and st: "static (f_evm f) \<longrightarrow> \<not> writes opn \<and> (op = CALL \<longrightarrow> f_stack f ! 2 = 0)"
  have len: "n \<le> length (f_stack f)" using makeStackFunc_None v n(2) by auto
  obtain x0 st0 where s0: "f_stack f = x0 # st0" using len n(1) by (cases "f_stack f") auto
  obtain sz where sz: "g (f_stack f) = Ret sz" "0 \<le> sz"
    using mem(3) len frame_okD(1) [OF f] unfolding need_fine_def by blast
  show "\<exists>r. memory_size opn f = Ret r" by (rule memory_size_ok(1) [OF mem(1) sz])
  fix ms assume ms: "memory_size opn f = Ret (Inr ms)"
  obtain x f1 where r: "gasCost opn ms f = Ret (x, f1)" "price_call f f1" using price [OF f len, of ms] by (auto simp: call_shape_def)
  obtain m s1 where f1: "f1 = f\<lparr>f_mem := m, f_stack := s1\<rparr>" "Memory.store m = Memory.store (f_mem f)"
    "s1 = f_stack f \<or> (\<exists>g :: u64. s1 = uint g # tl (f_stack f))" using r(2) unfolding price_call_def by blast
  obtain x1 where s1: "s1 = x1 # st0" using f1(3) s0 by auto
  have mv: "moves f f1" by (rule moves_price_call [OF f r(2)])
  have "res_safe opn f (execute opn (charged ms cost f1))" if x: "x = Inr cost" and c: "cost \<le> Gas (f_contract f)" "f_gas f < 2 ^ 62" for cost
  proof -
    let ?f = "charged ms cost f1"
    have "ms \<le> max_mem" using mem(2) r(1) x unfolding bounded_mem_def by blast
    then have "unat ms \<le> mem_limit" by (simp add: max_mem_def mem_limit_def word_le_nat_alt)
    then have ok: "frame_ok ?f" using frame_ok_charged mv by (simp add: moves_def)
    have m: "moves f ?f" using ok mv by (simp add: moves_def)
    then have ro: "static (f_evm ?f) = static (f_evm f)" by (simp add: moves_def static_def)
    have gas: "f_gas ?f < gas_limit" using c f1(1) by (simp add: f_gas_def gas_limit_def unat_sub)
    have "sz \<le> int (mlen (f_mem ?f))" unfolding charged_simps
      by (rule order_trans [OF memory_size_ok(2) [OF mem(1) sz ms]]) (simp only: of_nat_le_iff max.cobounded2)
    moreover have "g (f_stack ?f) = Ret sz" using sz(1) g [of x1 st0 x0] s1 s0 by (simp add: f1(1))
    ultimately have cov: "covers (Some g) ?f" by (auto simp: covers_def)
    have "paid (f_stack ?f)" using paid [OF len c(1) _ r(1) [unfolded x]] c(2) by (simp add: gas_limit_def)
    moreover have "f_stack ?f ! 2 = f_stack f ! 2" "n \<le> length (f_stack ?f)" "f_depth ?f = d"
      using s0 s1 len d by (simp_all add: f1(1) f_depth_def)
    ultimately have "res_moves ?f (execute opn ?f)" using ex [OF ok] gas cov st ro by simp
    then show ?thesis using moves_trans [OF m] op by (auto simp: res_moves_def res_safe_def)
  qed
  then show "\<exists>x f1. gasCost opn ms f = Ret (x, f1) \<and> moves f f1 \<and>
      (\<forall>cost. x = Inr cost \<longrightarrow> cost \<le> Gas (f_contract f) \<longrightarrow> f_gas f < 2 ^ 62 \<longrightarrow> res_safe opn f (execute opn (charged ms cost f1)))"
    using r(1) mv by blast
qed

section \<open>Executing calls\<close>

definition runs_below :: "nat \<Rightarrow> 's runner \<Rightarrow> bool" where
  "runs_below d run \<longleftrightarrow> (d \<le> CallCreateDepth \<longrightarrow> runner_safe d run)"

lemma res_moves_simps [simp]:
  "res_moves f None" "\<not> res_moves f (Some Panic)"
  "res_moves f (Some (Ret (y, f'))) \<longleftrightarrow> moves f f' \<and> (\<forall>b. y = Inr b \<longrightarrow> length b < 2 ^ 64)"
  by (simp_all add: res_moves_def)

lemma call_result_cases:
  assumes "call_safe ro e r"
  obtains "r = None" | ret g err ds e' where "r = Some (Ret ((ret, g, err), ds, e'))" "ran ro e e'" "dests_ok (e_kec env) ds" "length ret < 2 ^ 64"
proof (cases r)
  case (Some x)
  then obtain y where "x = Ret y" using assms by (cases x) auto
  then show ?thesis using that(2) Some assms by (cases y) auto
qed (use that(1) in blast)

lemma call_safe_mono: "call_safe ro e r \<Longrightarrow> (ro' \<Longrightarrow> ro) \<Longrightarrow> call_safe ro' e r"
  unfolding call_safe_def ran_def st_rel_def by blast

text \<open>The frame after a call: a result on the stack, the output in memory, gas and machine of the callee.\<close>

lemma moves_called:
  assumes f: "frame_ok f" and st: "list_all is_u256 st" "length st < StackLimit" and m: "mlen m \<le> mem_limit" and v: "is_u256 v"
    and c: "contract_ok (e_kec env) c" "Input c = Input (f_contract f)" and r: "ran (static (f_evm f)) (f_evm f) e'"
  shows "moves f (f\<lparr>f_stack := push v st, f_mem := m, f_contract := c, f_evm := e'\<rparr>)"
  using assms frame_okD(5) [OF f] by (simp add: moves_def frame_ok_def ran_def f_db_def push_def)

lemma after_call_safe:
  assumes f: "frame_ok f" and st: "list_all is_u256 st" "length st < StackLimit" and m: "in_mem off l (f_mem f)"
    and r: "call_safe (static (f_evm f)) (f_evm f) r"
  shows "res_moves f (after_call f st off l r)"
  using r
proof (cases rule: call_result_cases)
  case (2 ret g err ds e')
  obtain m1 where m1: "(if err = None \<or> err = Some ErrExecutionReverted
      then Memory_Set (big_Uint64 off) (big_Uint64 l) ret (f_mem f) else Ret (f_mem f)) = Ret m1" "mlen m1 = mlen (f_mem f)"
    using Memory_Set_ok [OF m, of ret] by (cases "err = None \<or> err = Some ErrExecutionReverted") auto
  have c: "contract_ok (e_kec env) ((f_contract f)\<lparr>jumpdests := ds, Gas := Gas (f_contract f) + g\<rparr>)"
    using frame_okD(4) [OF f] 2(3) by (simp add: contract_ok_def)
  have "moves f (f\<lparr>f_stack := push (of_test (err = None)) st, f_mem := m1,
      f_contract := (f_contract f)\<lparr>jumpdests := ds, Gas := Gas (f_contract f) + g\<rparr>, f_evm := e'\<rparr>)"
    by (rule moves_called [OF f st _ _ c _ 2(2)]) (use m1(2) frame_okD(3) [OF f] in simp_all)
  then show ?thesis using 2(4) unfolding 2(1) after_call_def option.case go.case prod.case Let_def m1(1) by simp
qed (simp add: after_call_def)

lemma covers_max:
  assumes f: "frame_ok f" and c: "covers (Some (back_max i j k l)) f" and n: "i < length (f_stack f)" "j < length (f_stack f)"
    "k < length (f_stack f)" "l < length (f_stack f)"
  shows "in_mem (f_stack f ! i) (f_stack f ! j) (f_mem f) \<and> in_mem (f_stack f ! k) (f_stack f ! l) (f_mem f)"
proof -
  have "covers (Some (back_size i j)) f" "covers (Some (back_size k l)) f"
    using c n by (auto simp: covers_def back_max_def back_size_def Back_def BigMax_def split: if_splits)
  then show ?thesis using covers_in_mem(1) [OF f n(1)] covers_in_mem(1) [OF f n(3)] n by blast
qed

lemma call_input:
  assumes "in_mem off l m"
  shows "\<exists>b. Memory_Get (big_Int64 off) (big_Int64 l) m = Ret b \<and> length b < input_limit"
  using Memory_Get_ok [OF assms] in_mem_out [OF assms] by (force simp: mem_limit_def input_limit_def)

lemma frame_call_args:
  assumes "frame_ok f" and "f_depth f = d" and "runs_below d run" and "length input < input_limit" and "unat gas < gas_limit"
  shows "call_args run (f_evm f) (contract_ref (f_contract f)) (BigToAddress a) input gas"
  using assms contract_ref_ok [OF frame_okD(4) [OF assms(1)]] by (auto simp: call_args_def runs_below_def f_depth_def frame_ok_def)

lemma granted_gas:
  assumes "granted pays (g # a # v # st)" and "is_u256 v"
  shows "unat (big_Uint64 g) < gas_limit" "pays \<Longrightarrow> unat (if U256 v \<noteq> 0 then big_Uint64 g + CallStipend else big_Uint64 g) < gas_limit"
proof -
  obtain cg :: u64 where cg: "g = uint cg" "unat cg + (if pays \<and> v \<noteq> 0 then 2300 else 0) < gas_limit"
    using assms(1) by (auto simp: granted_def)
  have u: "big_Uint64 g = cg" by (simp add: cg(1) Uint64_uint)
  show "unat (big_Uint64 g) < gas_limit" unfolding u using cg(2) by linarith
  assume pays
  then show "unat (if U256 v \<noteq> 0 then big_Uint64 g + CallStipend else big_Uint64 g) < gas_limit"
    unfolding u using cg(2) stipend_le [of "U256 v \<noteq> 0" cg] by (cases "v = 0") (auto split: if_splits)
qed

lemma tops7: "7 \<le> length st \<Longrightarrow> \<exists>a b c d e f g r. st = a # b # c # d # e # f # g # r"
  using stack4 [of st] stack3 [of "drop 4 st"] by (auto simp: numeral_eq_Suc)

lemma tops6: "6 \<le> length st \<Longrightarrow> \<exists>a b c d e f r. st = a # b # c # d # e # f # r"
  using stack4 [of st] stack2 [of "drop 4 st"] by (auto simp: numeral_eq_Suc)

lemma U256_nonneg: "0 \<le> U256 v"
  by (simp add: U256_mod)

lemma opCall_safe:
  assumes f: "frame_ok f" and d: "f_depth f = d" and len: "7 \<le> length (f_stack f)" and cov: "covers (Some memoryCall) f"
    and gr: "granted True (f_stack f)" and run: "runs_below d run"
  shows "(static (f_evm f) \<Longrightarrow> f_stack f ! 2 = 0) \<Longrightarrow> res_moves f (opCall env run f)" "res_moves f (opCallCode env run f)"
proof -
  obtain g a v io is0 ro rs st where s: "f_stack f = g # a # v # io # is0 # ro # rs # st" using tops7 [OF len] by blast
  have m: "in_mem ro rs (f_mem f)" "in_mem io is0 (f_mem f)" using covers_max [OF f, of 5 6 3 4] cov by (simp_all add: memory_table s)
  have w: "is_u256 v" "list_all is_u256 st" "length st < StackLimit" using frame_okD(1,2) [OF f] by (simp_all add: s)
  obtain args where args: "Memory_Get (big_Int64 io) (big_Int64 is0) (f_mem f) = Ret args" "length args < input_limit"
    using call_input [OF m(2)] by blast
  have "granted True (g # a # v # io # is0 # ro # rs # st)" using gr s by simp
  note gas = granted_gas(2) [OF this w(1) TrueI]
  note ca = frame_call_args [OF f d run args(2) gas, of a]
  show "res_moves f (opCallCode env run f)" unfolding opCallCode_def s list.case args(1) lift_go_def go.case Let_def
    by (rule after_call_safe [OF f w(2,3) m(1)]) (rule CallCode_safe [OF ca U256_nonneg])
  assume z: "static (f_evm f) \<Longrightarrow> f_stack f ! 2 = 0"
  show "res_moves f (opCall env run f)" unfolding opCall_def s list.case args(1) lift_go_def go.case Let_def
    by (rule after_call_safe [OF f w(2,3) m(1)], rule Call_safe [OF ca U256_nonneg]) (use z in \<open>simp add: s\<close>)
qed

lemma opDelegateCall_safe:
  assumes f: "frame_ok f" and d: "f_depth f = d" and len: "6 \<le> length (f_stack f)" and cov: "covers (Some memoryDelegateCall) f"
    and gr: "granted False (f_stack f)" and run: "runs_below d run"
  shows "res_moves f (opDelegateCall env run f)" "res_moves f (opStaticCall env run f)"
proof -
  obtain g a io is0 ro rs st where s: "f_stack f = g # a # io # is0 # ro # rs # st" using tops6 [OF len] by blast
  have m: "in_mem ro rs (f_mem f)" "in_mem io is0 (f_mem f)" using covers_max [OF f, of 4 5 2 3] cov by (simp_all add: memory_table s)
  have w: "is_u256 io" "list_all is_u256 st" "length st < StackLimit" using frame_okD(1,2) [OF f] by (simp_all add: s)
  obtain args where args: "Memory_Get (big_Int64 io) (big_Int64 is0) (f_mem f) = Ret args" "length args < input_limit"
    using call_input [OF m(2)] by blast
  have "granted False (g # a # io # is0 # ro # rs # st)" using gr s by simp
  note gas = granted_gas(1) [OF this w(1)]
  note ca = frame_call_args [OF f d run args(2) gas, of a]
  show "res_moves f (opDelegateCall env run f)" unfolding opDelegateCall_def s list.case args(1) lift_go_def go.case
    by (rule after_call_safe [OF f w(2,3) m(1)], rule DelegateCall_safe [OF ca])
      (use contract_ref_ok [OF frame_okD(4) [OF f]] in blast)
  show "res_moves f (opStaticCall env run f)" unfolding opStaticCall_def s list.case args(1) lift_go_def go.case
    by (rule after_call_safe [OF f w(2,3) m(1)], rule call_safe_mono [OF StaticCall_safe [OF ca]]) (simp add: static_def)
qed

lemma opCreate_safe:
  assumes f: "frame_ok f" and d: "f_depth f = d" and len: "3 \<le> length (f_stack f)" and cov: "covers (Some memoryCreate) f"
    and gas: "f_gas f < gas_limit" and run: "runs_below d run" and ns: "\<not> static (f_evm f)"
  shows "res_moves f (opCreate env run f)"
proof -
  obtain v off sz st where s: "f_stack f = v # off # sz # st" using stack3 [OF len] by blast
  have m: "in_mem off sz (f_mem f)" using covers_in_mem(1) [OF f, of 1 2] cov by (simp add: memory_table s)
  have w: "0 \<le> v" "list_all is_u256 st" "length st < StackLimit" using frame_okD(1,2) [OF f] by (auto simp: s is_u256_def)
  obtain code where code: "Memory_Get (big_Int64 off) (big_Int64 sz) (f_mem f) = Ret code" "length code < code_limit"
    using Memory_Get_ok [OF m] in_mem_out [OF m] by (force simp: mem_limit_def code_limit_def)
  define g where "g = create_gas env (f_contract f)"
  define c where "c = snd (UseGas g (f_contract f))"
  have c: "contract_ok (e_kec env) c" "Input c = Input (f_contract f)"
    using frame_okD(4) [OF f] by (auto simp: c_def UseGas_def contract_ok_def)
  have "unat g < gas_limit" using create_gas_le [of env "f_contract f"] gas by (simp add: g_def f_gas_def word_le_nat_alt)
  then have "call_args run (f_evm f) (contract_ref c) (replicate 20 0) [] g"
    using f d run contract_ref_ok [OF c(1)] by (auto simp: call_args_def runs_below_def f_depth_def frame_ok_def input_limit_def)
  note cs = Create_safe [OF this code(2) w(1)]
  have op: "opCreate env run f = after_create env f c st (Create env run (f_evm f) (contract_ref c) code g v)"
    unfolding opCreate_def s list.case code(1) lift_go_def go.case Let_def g_def [symmetric] c_def [symmetric] ..
  consider "Create env run (f_evm f) (contract_ref c) code g v = None"
    | ret addr rg err ds e' where "Create env run (f_evm f) (contract_ref c) code g v = Some (Ret ((ret, addr, rg, err), ds, e'))"
    using cs by (metis create_safe_simps(2) go.exhaust option.exhaust prod.exhaust)
  then show ?thesis
  proof cases
    case 2
    have r: "ran False (f_evm f) e'" "dests_ok (e_kec env) ds" "length ret < 2 ^ 64" "length addr = 20" using cs unfolding 2 by auto
    have c': "contract_ok (e_kec env) (c\<lparr>jumpdests := ds, Gas := Gas c + rg\<rparr>)" using c(1) r(2) by (simp add: contract_ok_def)
    have "moves f (f\<lparr>f_stack := push x st, f_mem := f_mem f, f_contract := c\<lparr>jumpdests := ds, Gas := Gas c + rg\<rparr>, f_evm := e'\<rparr>)" if "is_u256 x" for x
      by (rule moves_called [OF f w(2,3) frame_okD(3) [OF f] that c']) (use c(2) r(1) ns in simp_all)
    moreover have "is_u256 (big_SetBytes addr)" using r(4) by (intro is_u256_SetBytes) simp
    ultimately show ?thesis using r(3) unfolding op 2 after_create_def by (simp add: Let_def)
  qed (simp add: op after_create_def)
qed

end

end
