(* ===== verification/Evm_Soundness.thy ===== *)
theory Evm_Soundness
  imports Evm_Call_Steps
begin

text \<open>
  The machine as a whole: every entry of the instruction set behaves, so a round of the interpreter
  keeps a frame well typed and does not panic, so does the loop, and by recursion on the depth of calls
  so does running a contract.  The gas that every round consumes (\<open>interp_step_fine\<close>) makes the loop end.
\<close>

lemma CALL_entry:
  "list_all (\<lambda>(op, opn). op = CALL \<longrightarrow> validateStack opn = makeStackFunc 7 1) (instruction_set env run)"
proof -
  have "list_all (\<lambda>(op, opn). op \<noteq> CALL) (arithmetic_operations env)" "list_all (\<lambda>(op, opn). op \<noteq> CALL) (environment_operations env)"
    "list_all (\<lambda>(op, opn). op \<noteq> CALL) (flow_operations env)"
    by (simp_all add: arithmetic_operations_def environment_operations_def flow_operations_def)
  moreover have "(x :: byte) + word_of_nat n \<noteq> 0xf1" if "unat x + n < 0xf1" for x n
  proof
    assume "x + word_of_nat n = 0xf1"
    then have "unat (x + word_of_nat n) = 0xf1" by simp
    then show False using that by (simp add: unat_tag)
  qed
  then have "list_all (\<lambda>(op, opn). op \<noteq> CALL) push_operations" "list_all (\<lambda>(op, opn). op \<noteq> CALL) dup_operations"
    "list_all (\<lambda>(op, opn). op \<noteq> CALL) swap_operations" "list_all (\<lambda>(op, opn). op \<noteq> CALL) (log_operations env)"
    by (auto simp: push_operations_def dup_operations_def swap_operations_def log_operations_def list_all_iff)
  ultimately have "list_all (\<lambda>(op, opn). op = CALL \<longrightarrow> validateStack opn = makeStackFunc 7 1) (NewFrontierInstructionSet env run)"
    unfolding NewFrontierInstructionSet_def list_all_append by (auto simp: call_operations_def list_all_iff)
  then show ?thesis
    by (simp add: instruction_set_def NewHomesteadInstructionSet_def NewByzantiumInstructionSet_def)
qed

context evm_state
begin

section \<open>The instruction set\<close>

lemma calling_tables:
  assumes run: "runs_below d run"
  shows "op_safe_at d (op, (base_operation (opCreate env run) gasCreate (makeStackFunc 3 1))\<lparr>memorySize := Some memoryCreate, writes := True, returns := True\<rparr>)"
    "op_safe_at d (CALL, (base_operation (opCall env run) (gasCall env) (makeStackFunc 7 1))\<lparr>memorySize := Some memoryCall, returns := True\<rparr>)"
    "op_safe_at d (op, (base_operation (opCallCode env run) (gasCallCode env) (makeStackFunc 7 1))\<lparr>memorySize := Some memoryCall, returns := True\<rparr>)"
    "op_safe_at d (op, (base_operation (opDelegateCall env run) (gasDelegateCall env) (makeStackFunc 6 1))\<lparr>memorySize := Some memoryDelegateCall, returns := True\<rparr>)"
    "op_safe_at d (op, (base_operation (opStaticCall env run) (gasStaticCall env) (makeStackFunc 6 1))\<lparr>memorySize := Some memoryStaticCall, returns := True\<rparr>)"
proof -
  have ne: "f_stack f \<noteq> []" if "6 \<le> length (f_stack f)" for f :: "'s frame" using that by auto
  have need: "need_fine 7 (Some memoryCall)" "need_fine 6 (Some memoryDelegateCall)" "need_fine 3 (Some memoryCreate)"
    unfolding memory_table by (rule need_fines; simp)+
  have tl: "memoryCall (x # st) = memoryCall (y # st)" "memoryDelegateCall (x # st) = memoryDelegateCall (y # st)"
    "memoryCreate (x # st) = memoryCreate (y # st)" for x y st
    by (simp_all add: memory_table back_max_def back_size_def Back_def)
  have paid: "gasCall env ms f = Ret (Inr cost, f1) \<Longrightarrow> granted True (f_stack f1)" "gasCallCode env ms f = Ret (Inr cost, f1) \<Longrightarrow> granted True (f_stack f1)"
    "gasDelegateCall env ms f = Ret (Inr cost, f1) \<Longrightarrow> granted False (f_stack f1)" "gasStaticCall env ms f = Ret (Inr cost, f1) \<Longrightarrow> granted False (f_stack f1)"
    if "6 \<le> length (f_stack f)" "cost \<le> Gas (f_contract f)" "f_gas f < gas_limit" for f f1 :: "'s frame" and ms cost
    using call_granted [OF _ that(2,3)] that(1) by simp_all
  have create: "call_shape f (gasCreate ms f)" for f :: "'s frame" and ms
    using gas_memory_plus_local [of f CreateGas ms] price_local_call by (auto simp: gasCreate_def res_local_def call_shape_def)
  show "op_safe_at d (op, (base_operation (opCreate env run) gasCreate (makeStackFunc 3 1))\<lparr>memorySize := Some memoryCreate, writes := True, returns := True\<rparr>)"
    by (rule general_op_safe [where n = 3 and g = memoryCreate and paid = "\<lambda>_. True"])
      (simp_all add: create table_bounded need tl, rule opCreate_safe [OF _ _ _ _ _ run], auto)
  show "op_safe_at d (CALL, (base_operation (opCall env run) (gasCall env) (makeStackFunc 7 1))\<lparr>memorySize := Some memoryCall, returns := True\<rparr>)"
    by (rule general_op_safe [where n = 7 and g = memoryCall and paid = "granted True"])
      (simp_all add: call_shapes bounded_calls need tl opCall_safe [where d = d and run = run, OF _ _ _ _ _ run], rule paid(1) [rotated 3], assumption, simp_all)
  show "op_safe_at d (op, (base_operation (opCallCode env run) (gasCallCode env) (makeStackFunc 7 1))\<lparr>memorySize := Some memoryCall, returns := True\<rparr>)"
    by (rule general_op_safe [where n = 7 and g = memoryCall and paid = "granted True"])
      (simp_all add: call_shapes bounded_calls need tl opCall_safe [where d = d and run = run, OF _ _ _ _ _ run], rule paid(2) [rotated 3], assumption, simp_all)
  show "op_safe_at d (op, (base_operation (opDelegateCall env run) (gasDelegateCall env) (makeStackFunc 6 1))\<lparr>memorySize := Some memoryDelegateCall, returns := True\<rparr>)"
    by (rule general_op_safe [where n = 6 and g = memoryDelegateCall and paid = "granted False"])
      (simp_all add: call_shapes ne bounded_calls need tl opDelegateCall_safe [where d = d and run = run, OF _ _ _ _ _ run], rule paid(3) [rotated 3], assumption, simp_all)
  have same: "memoryStaticCall = memoryDelegateCall" by (simp add: memory_table)
  show "op_safe_at d (op, (base_operation (opStaticCall env run) (gasStaticCall env) (makeStackFunc 6 1))\<lparr>memorySize := Some memoryStaticCall, returns := True\<rparr>)"
    unfolding same by (rule general_op_safe [where n = 6 and g = memoryDelegateCall and paid = "granted False"])
      (simp_all add: call_shapes ne bounded_calls need tl opDelegateCall_safe [where d = d and run = run, OF _ _ _ _ _ run], rule paid(4) [rotated 3], assumption, simp_all)
qed

lemma instruction_set_safe:
  assumes "runs_below d run"
  shows "list_all (op_safe_at d) (instruction_set env run)"
proof -
  have at: "list_all op_safe xs \<Longrightarrow> list_all (op_safe_at d) xs" for xs
    using op_safe_at by (auto simp: list_all_iff)
  have "list_all (op_safe_at d) (call_operations env run)"
    by (simp add: call_operations_def calling_tables [OF assms] other_tables [THEN op_safe_at] del: One_nat_def)
  then have frontier: "list_all (op_safe_at d) (NewFrontierInstructionSet env run)"
    unfolding NewFrontierInstructionSet_def list_all_append
    by (simp add: at [OF arithmetic_table] at [OF environment_table] at [OF flow_table] family_tables [THEN at])
  then have homestead: "list_all (op_safe_at d) (NewHomesteadInstructionSet env run)"
    by (simp add: NewHomesteadInstructionSet_def calling_tables [OF assms] del: One_nat_def)
  then have "list_all (op_safe_at d) (NewByzantiumInstructionSet env run)"
    by (simp add: NewByzantiumInstructionSet_def calling_tables [OF assms] other_tables [THEN op_safe_at] del: One_nat_def)
  with frontier homestead show ?thesis by (simp add: instruction_set_def)
qed

section \<open>One round\<close>

definition step_safe :: "'s frame \<Rightarrow> 's outcome go option \<Rightarrow> bool" where
  "step_safe f r \<longleftrightarrow> r \<noteq> Some Panic \<and> (\<forall>x f'. r = Some (Ret (Done x f')) \<longrightarrow> moves f f' \<and> length (fst x) \<le> mem_limit) \<and>
     (\<forall>f'. r = Some (Ret (Next f')) \<longrightarrow> moves f f')"

lemma step_safe_simps [simp]:
  "step_safe f None" "\<not> step_safe f (Some Panic)" "step_safe f (Some (Ret (Done x f'))) \<longleftrightarrow> moves f f' \<and> length (fst x) \<le> mem_limit"
  "step_safe f (Some (Ret (Next f'))) \<longleftrightarrow> moves f f'"
  by (simp_all add: step_safe_def)

lemma moves_more:
  assumes "moves f f'"
  shows "moves f (f'\<lparr>f_pc := p\<rparr>)" "length b < 2 ^ 64 \<Longrightarrow> moves f (f'\<lparr>f_evm := (f_evm f')\<lparr>e_returnData := b\<rparr>\<rparr>)"
    "moves f (f'\<lparr>f_evm := (f_evm f')\<lparr>e_abort := a\<rparr>\<rparr>)"
  using assms by (auto simp: moves_def frame_ok_def machine_ok_def f_db_def)

lemma finish_step_safe:
  assumes "res_safe opn f r"
  shows "step_safe f (finish_step opn r)"
proof -
  consider "r = None" | y f' where "r = Some (Ret (y, f'))" using assms by (metis go.exhaust option.exhaust prod.exhaust res_safe_def)
  then show ?thesis
  proof cases
    case 2
    have m: "moves f f'" and o: "halts opn \<or> reverts opn \<longrightarrow> out_ok y" and l: "\<forall>b. y = Inr b \<longrightarrow> length b < 2 ^ 64"
      using assms 2 by (auto simp: res_safe_def)
    define res where "res = (case y of Inl _ \<Rightarrow> [] | Inr b \<Rightarrow> b)"
    define f2 where "f2 = (if returns opn then f'\<lparr>f_evm := (f_evm f')\<lparr>e_returnData := res\<rparr>\<rparr> else f')"
    have "length res < 2 ^ 64" using l by (simp add: res_def split: sum.split)
    then have m2: "moves f f2" using moves_more(2) [OF m] m by (simp add: f2_def)
    have "length res \<le> mem_limit" if "halts opn \<or> reverts opn" using o that by (auto simp: res_def out_ok_def split: sum.split)
    then show ?thesis using m2 moves_more(1) [OF m2]
      unfolding 2 finish_step_def option.case go.case prod.case Let_def res_def [symmetric] f2_def [symmetric]
      by (cases y) (simp_all add: mem_limit_def)
  qed (simp add: finish_step_def)
qed

lemma charge_safe:
  assumes f: "frame_ok f" and g: "gasCost opn ms f = Ret (x, f1)" "moves f f1" "price_keeps any (gasCost opn)" and lim: "f_gas f < 2 ^ 62"
    and ex: "\<And>cost. x = Inr cost \<Longrightarrow> cost \<le> Gas (f_contract f) \<Longrightarrow> res_safe opn f (execute opn (charged ms cost f1))"
  shows "step_safe f (charge_and_execute env opn ms f)"
proof -
  have nd: "\<not> DisableGasMetering (e_vmConfig env)" using frame_okD(9) [OF f] by (simp add: env_ok_def)
  have c: "f_contract f1 = f_contract f" using g(1,3) unfolding price_keeps_def by blast
  show ?thesis
  proof (cases x)
    case (Inl e)
    then show ?thesis using g(2) nd by (simp add: charge_and_execute_def use_gas_def g(1) lift_go_def)
  next
    case (Inr cost)
    show ?thesis
    proof (cases "Gas (f_contract f1) < cost")
      case True
      then show ?thesis using g(2) nd Inr by (simp add: charge_and_execute_def use_gas_def g(1) lift_go_def UseGas_def)
    next
      case False
      then have "res_safe opn f (execute opn (charged ms cost f1))" using ex [OF Inr] c by simp
      from finish_step_safe [OF this] show ?thesis using False nd Inr
        by (simp add: charge_and_execute_def use_gas_def g(1) lift_go_def UseGas_def charged_def Let_def)
    qed
  qed
qed

lemma exec_operation_safe:
  assumes p: "op_safe_at d (op, opn)" "price_keeps any (gasCost opn)" "op = CALL \<Longrightarrow> validateStack opn = makeStackFunc 7 1"
    and f: "frame_ok f" "f_depth f = d" "f_gas f < 2 ^ 62"
  shows "step_safe f (exec_operation env op opn f)"
proof (cases "validateStack opn (f_stack f)")
  case (Some e)
  then show ?thesis using moves_refl [OF f(1)] by (simp add: exec_operation_def)
next
  case None
  have len: "op = CALL \<Longrightarrow> 2 < length (f_stack f)" using p(3) None makeStackFunc_None [of 7 1 "f_stack f"] by auto
  have "\<exists>r. enforceRestrictions env op opn f = Ret r" using len by (auto simp: enforceRestrictions_def Back_def)
  then obtain r where r: "enforceRestrictions env op opn f = Ret r" ..
  show ?thesis
  proof (cases r)
    case (Some e)
    then show ?thesis using None r moves_refl [OF f(1)] by (simp add: exec_operation_def lift_go_def)
  next
    case rn: None
    have z: "f_stack f ! 2 = 0" if "op = CALL" "BitLen (f_stack f ! 2) = 0"
      using that len stack_word [OF f(1), of 2] BitLen_le [of "f_stack f ! 2" 0] by (auto simp: is_u256_def)
    have "static (f_evm f) \<longrightarrow> \<not> writes opn \<and> (op = CALL \<longrightarrow> f_stack f ! 2 = 0)"
      using r rn len z by (auto simp: enforceRestrictions_def static_def Back_def split: if_splits)
    then obtain ms0 where ms0: "memory_size opn f = Ret ms0" and price: "\<And>ms. ms0 = Inr ms \<Longrightarrow> \<exists>x f1. gasCost opn ms f = Ret (x, f1) \<and> moves f f1 \<and>
       (\<forall>cost. x = Inr cost \<longrightarrow> cost \<le> Gas (f_contract f) \<longrightarrow> f_gas f < 2 ^ 62 \<longrightarrow> res_safe opn f (execute opn (charged ms cost f1)))"
      using p(1) f(1,2) None unfolding op_safe_at_def prod.case by blast
    show ?thesis
    proof (cases ms0)
      case (Inl e)
      then show ?thesis using None r rn ms0 moves_refl [OF f(1)] by (simp add: exec_operation_def lift_go_def)
    next
      case (Inr ms)
      from price [OF Inr] obtain x f1 where x: "gasCost opn ms f = Ret (x, f1)" "moves f f1"
        "\<And>cost. x = Inr cost \<Longrightarrow> cost \<le> Gas (f_contract f) \<Longrightarrow> f_gas f < 2 ^ 62 \<Longrightarrow> res_safe opn f (execute opn (charged ms cost f1))" by blast
      have "step_safe f (charge_and_execute env opn ms f)" by (rule charge_safe [OF f(1) x(1,2) p(2) f(3)]) (rule x(3) [OF _ _ f(3)])
      then show ?thesis using None r rn ms0 Inr by (simp add: exec_operation_def lift_go_def)
    qed
  qed
qed

section \<open>The loop\<close>

definition run_good :: "nat \<Rightarrow> 's runner \<Rightarrow> bool" where
  "run_good d run \<longleftrightarrow> runs_below d run \<and> (d \<le> CallCreateDepth \<longrightarrow> runner_fine d run)"

lemma interp_step_safe:
  assumes run: "run_good d run" and f: "frame_ok f" "f_depth f = d" "f_gas f < 2 ^ 62"
  shows "step_safe f (interp_step env run f)"
proof -
  obtain b f1 where p: "poll_abort f = (b, f1)" by fastforce
  have m: "moves f f1" "f_depth f1 = d" "f_gas f1 = f_gas f"
    using p f moves_refl [OF f(1)] moves_more(3) [OF moves_refl [OF f(1)]]
    by (auto simp: poll_abort_def f_depth_def f_gas_def split: option.splits nat.splits)
  let ?op = "GetOp (f_pc f1) (f_contract f1)"
  have trans: "step_safe f1 r \<Longrightarrow> step_safe f r" for r unfolding step_safe_def using moves_trans [OF m(1)] by blast
  have "step_safe f1 (exec_operation env ?op opn f1)" if o: "map_of (instruction_set env run) ?op = Some opn" for opn
  proof (rule exec_operation_safe)
    have in_set: "(?op, opn) \<in> set (instruction_set env run)" by (rule map_of_SomeD [OF o])
    show "op_safe_at d (?op, opn)" using instruction_set_safe in_set run unfolding run_good_def list_all_iff by blast
    have "list_all (op_fine d \<circ> snd) (instruction_set env run)" by (rule instruction_set_fine) (use run in \<open>simp add: run_good_def\<close>)
    then have "op_fine d opn" using in_set unfolding list_all_iff by fastforce
    then show "price_keeps any (gasCost opn)" by (simp add: op_fine_def)
    show "?op = CALL \<Longrightarrow> validateStack opn = makeStackFunc 7 1" using CALL_entry [of env run] in_set unfolding list_all_iff by fastforce
  qed (use m f(3) in \<open>simp_all add: moves_def\<close>)
  then show ?thesis unfolding interp_step_def p prod.case
    using m(1) trans by (auto simp: Let_def split: option.split)
qed

lemma step_cases:
  assumes "step_safe f r" and "step_fine d g r"
  obtains x f' where "r = Some (Ret (Done x f'))" | f' where "r = Some (Ret (Next f'))" "f_depth f' = d" "f_gas f' < g"
proof -
  obtain q where r: "r = Some q" using assms(2) by (auto simp: step_fine_def)
  then obtain o1 where q: "q = Ret o1" using assms(1) by (cases q) auto
  show thesis using that assms(2) by (cases o1) (auto simp: r q)
qed

lemma interp_loop_safe:
  assumes run: "run_good d run" and f: "frame_ok f" "f_depth f = d" "f_gas f < 2 ^ 62"
  shows "interp_loop env run f \<noteq> Some Panic \<and>
    (\<forall>r f'. interp_loop env run f = Some (Ret (r, f')) \<longrightarrow> moves f f' \<and> length (fst r) \<le> mem_limit)"
  using f
proof (induction "f_gas f" arbitrary: f rule: less_induct)
  case less
  have nd: "\<not> DisableGasMetering (e_vmConfig env)" using frame_okD(9) [OF less.prems(1)] by (simp add: env_ok_def)
  note safe = interp_step_safe [OF run less.prems]
  have "step_fine d (f_gas f) (interp_step env run f)"
    by (rule interp_step_fine [OF _ less.prems(2) nd]) (use run in \<open>simp add: run_good_def\<close>)
  then consider x f' where "interp_step env run f = Some (Ret (Done x f'))"
    | f' where "interp_step env run f = Some (Ret (Next f'))" "f_depth f' = d" "f_gas f' < f_gas f"
    by (rule step_cases [OF safe])
  then show ?case
  proof cases
    case 1
    then show ?thesis using safe by (subst (1 2) interp_loop.simps) simp
  next
    case (2 f')
    have m: "moves f f'" using safe 2(1) by simp
    then have "frame_ok f'" by (simp add: moves_def)
    note IH = less.hyps [OF 2(3) this 2(2)]
    have "f_gas f' < 2 ^ 62" using 2(3) less.prems(3) by linarith
    from IH [OF this] show ?thesis using moves_trans [OF m] 2(1) by (subst (1 2) interp_loop.simps) auto
  qed
qed

section \<open>Running contracts\<close>

lemma fresh_frame_ok:
  assumes "machine_ok e" and "contract_ok (e_kec env) c" and "length input < input_limit"
  shows "frame_ok \<lparr>f_pc = 0, f_mem = NewMemory, f_stack = newstack, f_contract = c\<lparr>Input := input\<rparr>, f_evm = e\<lparr>e_depth := d, e_returnData := []\<rparr>\<rparr>"
  using assms by (simp add: frame_ok_def newstack_def NewMemory_def StackLimit_def mem_limit_def contract_ok_def machine_ok_def)

lemma Interpreter_Run_safe:
  assumes run: "run_good (Suc d) run"
  shows "runner_safe d (Interpreter_Run env run)"
  unfolding runner_safe_def
proof (intro allI impI)
  fix e :: "'s EVM" and c and input :: bytes
  assume d: "e_depth e = d" and e: "machine_ok e" and c: "contract_ok (e_kec env) c" and i: "length input < input_limit" and g: "unat (Gas c) < gas_limit"
  let ?f = "\<lparr>f_pc = 0, f_mem = NewMemory, f_stack = newstack, f_contract = c\<lparr>Input := input\<rparr>, f_evm = e\<lparr>e_depth := e_depth e + 1, e_returnData := []\<rparr>\<rparr>"
  have f: "frame_ok ?f" by (rule fresh_frame_ok [OF e c i])
  have fd: "f_depth ?f = Suc d" "f_gas ?f < 2 ^ 62" using d g by (simp_all add: f_depth_def f_gas_def gas_limit_def)
  note loop = interp_loop_safe [OF run f fd]
  have small: "length x < 2 ^ 64 \<and> length x < code_limit" if "length x \<le> mem_limit" for x :: bytes
    using that by (simp add: mem_limit_def code_limit_def)
  have dj: "dests_ok (e_kec env) (jumpdests c)" using c by (simp add: contract_ok_def)
  have empty: "ran (static e) e (e\<lparr>e_returnData := []\<rparr>)" using e st_rel_refl by (simp add: ran_def machine_ok_def)
  have moved: "ran (static e) e ((f_evm f')\<lparr>e_depth := e_depth (f_evm f') - 1\<rparr>) \<and> dests_ok (e_kec env) (jumpdests (f_contract f'))" if "moves ?f f'" for f'
    using that by (simp add: moves_def ran_def frame_ok_def machine_ok_def contract_ok_def f_db_def static_def)
  show "Interpreter_Run env run e c input \<noteq> Some Panic \<and>
     (\<forall>ret err c' e'. Interpreter_Run env run e c input = Some (Ret ((ret, err), c', e')) \<longrightarrow> ran (static e) e e' \<and>
       dests_ok (e_kec env) (jumpdests c') \<and> length ret < 2 ^ 64 \<and> (input = [] \<longrightarrow> length ret < code_limit))"
  proof (cases "Code c = []")
    case True
    then show ?thesis using empty dj by (auto simp: Interpreter_Run_def Let_def code_limit_def)
  next
    case False
    consider "interp_loop env run ?f = None" | ret err f' where "interp_loop env run ?f = Some (Ret ((ret, err), f'))"
      using loop by (metis go.exhaust option.exhaust prod.exhaust)
    then show ?thesis
    proof cases
      case 2
      then have "moves ?f f'" "length ret \<le> mem_limit" using loop by auto
      then show ?thesis using False 2 moved small [of ret] by (simp add: Interpreter_Run_def Let_def)
    qed (use False in \<open>simp add: Interpreter_Run_def Let_def\<close>)
  qed
qed

lemma run_contract_safe:
  assumes "run_good (Suc d) run"
  shows "runner_safe d (run_contract env run)"
  unfolding runner_safe_def
proof (intro allI impI)
  fix e :: "'s EVM" and c and input :: bytes
  assume d: "e_depth e = d" and e: "machine_ok e" and c: "contract_ok (e_kec env) c" and i: "length input < input_limit" and g: "unat (Gas c) < gas_limit"
  show "run_contract env run e c input \<noteq> Some Panic \<and>
     (\<forall>ret err c' e'. run_contract env run e c input = Some (Ret ((ret, err), c', e')) \<longrightarrow> ran (static e) e e' \<and>
       dests_ok (e_kec env) (jumpdests c') \<and> length ret < 2 ^ 64 \<and> (input = [] \<longrightarrow> length ret < code_limit))"
  proof (cases "case CodeAddr c of None \<Rightarrow> None | Some a \<Rightarrow> precompiles env a")
    case None
    then have "run_contract env run e c input = Interpreter_Run env run e c input" by (simp add: run_contract_def)
    then show ?thesis using Interpreter_Run_safe [OF assms] d e c i g unfolding runner_safe_def by metis
  next
    case (Some p)
    have env: "native_ok (e_native env)" "kec_len (e_kec env)" using machine_okD(3) [OF e] by (simp_all add: env_ok_def)
    from RunPrecompiled_ok [OF env, of input c p] i g obtain ret err h where
      r: "RunPrecompiledContract env p input c = Ret ((ret, err), c\<lparr>Gas := h\<rparr>)" "length ret < 2 ^ 62" "input = [] \<longrightarrow> length ret \<le> 64"
      unfolding input_limit_def by blast
    have "dests_ok (e_kec env) (jumpdests c)" using c by (simp add: contract_ok_def)
    then show ?thesis using r ran_refl [OF e] Some by (auto simp: run_contract_def code_limit_def)
  qed
qed

text \<open>The machine with enough levels is a good runner at every depth at which it is asked to run.\<close>

lemma evm_run_safe:
  assumes nd: "\<not> DisableGasMetering (e_vmConfig env)" and "d \<le> CallCreateDepth" and "CallCreateDepth + 2 \<le> n + d"
  shows "runner_safe d (evm_run env n)"
  using assms(2,3)
proof (induction n arbitrary: d)
  case (Suc n)
  have "run_good (Suc d) (evm_run env n)"
    unfolding run_good_def runs_below_def using Suc evm_run_fine [OF nd, of "Suc d" n] by simp
  then show ?case by (simp add: run_contract_safe)
qed simp

lemma evm_run_good:
  assumes "\<not> DisableGasMetering (e_vmConfig env)"
  shows "run_good d (evm_run env run_levels)"
  using evm_run_safe [OF assms, of d run_levels] evm_run_fine [OF assms, of d run_levels]
  by (simp add: run_good_def runs_below_def run_levels_def)

end

end
