(* ===== verification/State_Evm.thy ===== *)
theory State_Evm
  imports Evm_Soundness
begin

text \<open>
  The state database as the state of the virtual machine: it implements the interface \<open>StateDB\<close> of
  \<open>src/core/vm/interface.go\<close> and keeps the contract \<open>evm_state\<close>.  Readers of the interface return the value
  only; what they load into the caches of the state does not change the world it shows.
  \<open>CanTransfer\<close> and \<open>Transfer\<close> are those of \<open>src/core/evm.go\<close>.
\<close>

definition Core_CanTransfer :: "'s StateDB \<Rightarrow> 's \<Rightarrow> bytes \<Rightarrow> int \<Rightarrow> bool" where
  "Core_CanTransfer db s addr amount \<longleftrightarrow> db_GetBalance db s addr \<ge> amount"

definition Core_Transfer :: "'s StateDB \<Rightarrow> 's \<Rightarrow> bytes \<Rightarrow> bytes \<Rightarrow> int \<Rightarrow> 's" where
  "Core_Transfer db s sender recipient amount =
     (let s1 = db_SubBalance db s sender amount in db_AddBalance db s1 recipient amount)"

definition state_ops :: "(bytes \<Rightarrow> bytes) \<Rightarrow> state_db StateDB" where
  "state_ops kec =
     \<lparr>db_CreateAccount = (\<lambda>s a. State_CreateAccount kec a s),
      db_SubBalance = (\<lambda>s a v. State_SubBalance kec a v s),
      db_AddBalance = (\<lambda>s a v. State_AddBalance kec a v s),
      db_GetBalance = (\<lambda>s a. fst (State_GetBalance kec a s)),
      db_GetNonce = (\<lambda>s a. fst (State_GetNonce kec a s)),
      db_SetNonce = (\<lambda>s a n. State_SetNonce kec a n s),
      db_GetCodeHash = (\<lambda>s a. fst (State_GetCodeHash kec a s)),
      db_GetCode = (\<lambda>s a. fst (State_GetCode kec a s)),
      db_SetCode = (\<lambda>s a code. State_SetCode kec a code s),
      db_GetCodeSize = (\<lambda>s a. fst (State_GetCodeSize kec a s)),
      db_AddRefund = (\<lambda>s g. State_AddRefund g s),
      db_GetRefund = sd_refund,
      db_GetState = (\<lambda>s a k. fst (State_GetState kec a k s)),
      db_SetState = (\<lambda>s a k v. State_SetState kec a k v s),
      db_Suicide = (\<lambda>s a. State_Suicide kec a s),
      db_HasSuicided = (\<lambda>s a. fst (State_HasSuicided kec a s)),
      db_Exist = (\<lambda>s a. fst (State_Exist kec a s)),
      db_Empty = (\<lambda>s a. fst (State_Empty kec a s)),
      db_RevertToSnapshot = (\<lambda>s rid. State_RevertToSnapshot kec rid s),
      db_Snapshot = State_Snapshot,
      db_AddLog = (\<lambda>s lg. State_AddLog lg s),
      db_AddPreimage = (\<lambda>s h p. State_AddPreimage h p s)\<rparr>"

section \<open>The readers\<close>

text \<open>An account the world has is an object the state finds.\<close>

lemma getStateObject_world:
  assumes "core_ok kec s" and "getStateObject kec a s = (r, s1)"
  shows "w_acct (world kec s) a = map_option (obj_view kec (sd_db s)) r" "sd_db s1 = sd_db s"
    "r = Some c \<Longrightarrow> obj_ok kec (sd_db s) a c"
  using getStateObject_goes [OF assms] find_obj_ok [OF assms(1)]
  by (auto simp: world_def accts_def goes_def same_env_def)

lemma simple_reads:
  assumes "core_ok kec s"
  shows "fst (State_GetBalance kec a s) = w_balance (acct_at kec (world kec s) a)"
    "fst (State_GetNonce kec a s) = w_nonce (acct_at kec (world kec s) a)"
    "fst (State_HasSuicided kec a s) = w_suicided (acct_at kec (world kec s) a)"
    "fst (State_Exist kec a s) \<longleftrightarrow> w_acct (world kec s) a \<noteq> None"
    "fst (State_Empty kec a s) \<longleftrightarrow> (let x = acct_at kec (world kec s) a in w_nonce x = 0 \<and> w_balance x = 0 \<and> w_codehash x = kec [])"
    "fst (State_GetCodeHash kec a s) = (case w_acct (world kec s) a of None \<Rightarrow> zero_hash32 | Some x \<Rightarrow> w_codehash x)"
proof -
  obtain r s1 where r: "getStateObject kec a s = (r, s1)" by fastforce
  note w = getStateObject_world [OF assms r]
  have len: "length (acc_CodeHash (so_data c)) = 32" if "r = Some c" for c using w(3) [OF that] by (simp add: obj_ok_def code_fits_def)
  show "fst (State_GetBalance kec a s) = w_balance (acct_at kec (world kec s) a)"
    "fst (State_GetNonce kec a s) = w_nonce (acct_at kec (world kec s) a)"
    "fst (State_HasSuicided kec a s) = w_suicided (acct_at kec (world kec s) a)"
    "fst (State_Exist kec a s) \<longleftrightarrow> w_acct (world kec s) a \<noteq> None"
    "fst (State_Empty kec a s) \<longleftrightarrow> (let x = acct_at kec (world kec s) a in w_nonce x = 0 \<and> w_balance x = 0 \<and> w_codehash x = kec [])"
    by (cases r; simp add: r w(1) acct_at_def empty_acct_def obj_view_def State_GetBalance_def State_GetNonce_def
        State_HasSuicided_def State_Exist_def State_Empty_def empty_object_def emptyCodeHash_def)+
  show "fst (State_GetCodeHash kec a s) = (case w_acct (world kec s) a of None \<Rightarrow> zero_hash32 | Some x \<Rightarrow> w_codehash x)"
    using len by (cases r) (simp_all add: r w(1) obj_view_def State_GetCodeHash_def zero_hash32_def)
qed

lemma GetState_read:
  assumes "core_ok kec s"
  shows "fst (State_GetState kec a k s) = w_storage (acct_at kec (world kec s) a) k"
proof -
  obtain r s1 where r: "getStateObject kec a s = (r, s1)" by fastforce
  note w = getStateObject_world [OF assms r]
  show ?thesis
  proof (cases r)
    case (Some c)
    obtain v d where v: "obj_GetState kec (sd_db s) k c = (v, d)" by fastforce
    from obj_GetState_ok [OF w(3) [OF Some] v] show ?thesis using r w(1,2) Some v by (simp add: State_GetState_def acct_at_def)
  qed (use r w(1) in \<open>simp add: State_GetState_def acct_at_def empty_acct_def\<close>)
qed

lemma GetCode_read:
  assumes "core_ok kec s"
  shows "fst (State_GetCode kec a s) = w_code (acct_at kec (world kec s) a)"
proof -
  obtain r s1 where r: "getStateObject kec a s = (r, s1)" by fastforce
  note w = getStateObject_world [OF assms r]
  show ?thesis
  proof (cases r)
    case (Some c)
    obtain v d where v: "obj_Code kec (sd_db s) c = (v, d)" by fastforce
    from obj_Code_ok [OF w(3) [OF Some] v] show ?thesis using r w(1,2) Some v by (simp add: State_GetCode_def acct_at_def)
  qed (use r w(1) in \<open>simp add: State_GetCode_def acct_at_def empty_acct_def\<close>)
qed

text \<open>The size of code that is not loaded is that of the entry under its hash; no code is stored under
  the hash of the empty code.\<close>

lemma world_acct_ok:
  assumes "core_ok kec s"
  shows "world_ok kec (world kec s)"
  unfolding world_ok_def
proof (intro allI impI)
  fix a x assume x: "w_acct (world kec s) a = Some x"
  then obtain c where c: "find_obj kec (base_map kec s) (map_of (stateObjects s)) a = Some c" "x = obj_view kec (sd_db s) c"
    using acct_Some [OF assms] by blast
  from find_obj_ok [OF assms c(1)] have ok: "obj_ok kec (sd_db s) a c" by blast
  obtain code d where v: "obj_Code kec (sd_db s) c = (code, d)" by fastforce
  from obj_Code_ok [OF ok v] have code: "w_code x = (case code of None \<Rightarrow> [] | Some x \<Rightarrow> x)"
    "code_fits kec (sd_db s) code (acc_CodeHash (so_data c))" by (auto simp: c(2))
  have "w_codehash x = acc_CodeHash (so_data c)" "w_balance x = acc_Balance (so_data c)" "\<And>k. length (w_storage x k) = 32"
    using obj_storage_length [OF ok] by (simp_all add: c(2) obj_view_def)
  then show "acct_ok kec x"
    using code obj_ok_balance [OF ok] by (auto simp: acct_ok_def code_fits_def code_limit_def split: option.splits)
qed

lemma GetCodeSize_read:
  assumes "core_ok kec s"
  shows "fst (State_GetCodeSize kec a s) = int (length (w_code (acct_at kec (world kec s) a)))"
proof -
  obtain r s1 where r: "getStateObject kec a s = (r, s1)" by fastforce
  note w = getStateObject_world [OF assms r]
  show ?thesis
  proof (cases r)
    case (Some c)
    have len: "length (acc_CodeHash (so_data c)) = 32" and ok: "obj_ok kec (sd_db s) a c" using w(3) [OF Some] by (simp_all add: obj_ok_def code_fits_def)
    show ?thesis
    proof (cases "so_code c")
      case None
      let ?h = "acc_CodeHash (so_data c)"
      have "cd_db (sd_db s) (kec []) = None \<or> cd_db (sd_db s) (kec []) = Some []"
        using assms by (cases "cd_db (sd_db s) (kec [])") (simp_all add: core_ok_def)
      moreover have "?h = kec [] \<or> (\<exists>x. cd_db (sd_db s) ?h = Some x)" using ok None by (auto simp: obj_ok_def code_fits_def)
      ultimately show ?thesis using None len by (auto simp: State_GetCodeSize_def r Some w acct_at_def obj_view_def obj_code_def
            obj_Code_def emptyCodeHash_def ContractCodeSize_def ContractCode_def)
    qed (simp add: State_GetCodeSize_def r Some w acct_at_def obj_view_def obj_code_def obj_Code_def)
  qed (simp add: r w(1) State_GetCodeSize_def acct_at_def empty_acct_def)
qed

section \<open>The contract\<close>

text \<open>A machine whose state is a state database.\<close>

definition state_env :: "state_db evm_env \<Rightarrow> bool" where
  "state_env env \<longleftrightarrow> e_db env = state_ops (e_kec env) \<and> env_ok env"

definition evm_ok :: "state_db evm_env \<Rightarrow> state_db \<Rightarrow> bool" where
  "evm_ok env s \<longleftrightarrow> state_env env \<and> state_ok (e_kec env) s"

lemma db_op_apply: "db_op (state_ops kec) p s = apply_op kec p s"
  by (cases p) (simp_all add: state_ops_def)

lemma evm_okD:
  assumes "evm_ok env s"
  shows "e_db env = state_ops (e_kec env)" "env_ok env" "kec_len (e_kec env)" "state_ok (e_kec env) s" "core_ok (e_kec env) s"
  using assms unfolding evm_ok_def state_env_def env_ok_def state_ok_def by blast+

interpretation state: evm_state env "evm_ok env" "world (e_kec env)" "revertible (e_kec env)" for env
proof
  fix s a k
  assume ok: "evm_ok env s"
  note s = evm_okD [OF ok]
  note reads = simple_reads [OF s(5)] GetState_read [OF s(5)] GetCode_read [OF s(5)] GetCodeSize_read [OF s(5)]
  show "env_ok env" by (rule s(2))
  show "world_ok (e_kec env) (world (e_kec env) s)" by (rule world_acct_ok [OF s(5)])
  show "db_GetBalance (e_db env) s a = w_balance (acct_at (e_kec env) (world (e_kec env) s) a)"
    "db_GetNonce (e_db env) s a = w_nonce (acct_at (e_kec env) (world (e_kec env) s) a)"
    "db_GetCode (e_db env) s a = w_code (acct_at (e_kec env) (world (e_kec env) s) a)"
    "db_GetCodeSize (e_db env) s a = int (length (w_code (acct_at (e_kec env) (world (e_kec env) s) a)))"
    "db_GetCodeHash (e_db env) s a = (case w_acct (world (e_kec env) s) a of None \<Rightarrow> zero_hash32 | Some x \<Rightarrow> w_codehash x)"
    "db_GetState (e_db env) s a k = w_storage (acct_at (e_kec env) (world (e_kec env) s) a) k"
    "db_HasSuicided (e_db env) s a = w_suicided (acct_at (e_kec env) (world (e_kec env) s) a)"
    "db_Exist (e_db env) s a \<longleftrightarrow> w_acct (world (e_kec env) s) a \<noteq> None"
    "db_Empty (e_db env) s a \<longleftrightarrow> (let x = acct_at (e_kec env) (world (e_kec env) s) a in
      w_nonce x = 0 \<and> w_balance x = 0 \<and> w_codehash x = e_kec env [])"
    unfolding s(1) by (simp_all only: state_ops_def StateDB.simps reads)
  show "db_GetRefund (e_db env) s = w_refund (world (e_kec env) s)" unfolding s(1) by (simp add: state_ops_def world_def)
next
  fix s p
  assume ok: "evm_ok env s" and legal: "op_legal (e_kec env) p (world (e_kec env) s)"
  note s = evm_okD [OF ok]
  from apply_op_ok [OF s(5,3) legal] have e: "extends (e_kec env) s (apply_op (e_kec env) p s)"
    and w: "world (e_kec env) (apply_op (e_kec env) p s) = world_op (e_kec env) (tx_of s) p (world (e_kec env) s)" by blast+
  from state_ok_extends [OF s(4) e] ok w
  show "evm_ok env (db_op (e_db env) p s) \<and> (\<exists>tx. world (e_kec env) (db_op (e_db env) p s) = world_op (e_kec env) tx p (world (e_kec env) s)) \<and>
      (\<forall>j w. revertible (e_kec env) s j w \<longrightarrow> revertible (e_kec env) (db_op (e_db env) p s) j w)"
    unfolding s(1) db_op_apply evm_ok_def by (intro conjI exI [of _ "tx_of s"]) auto
next
  fix s rid s'
  assume ok: "evm_ok env s" and sn: "db_Snapshot (e_db env) s = (rid, s')"
  note s = evm_okD [OF ok]
  have "State_Snapshot s = (rid, s')" using sn unfolding s(1) by (simp add: state_ops_def)
  from Snapshot_ok [OF s(4) this] ok
  show "evm_ok env s' \<and> world (e_kec env) s' = world (e_kec env) s \<and> revertible (e_kec env) s' rid (world (e_kec env) s) \<and>
      (\<forall>j w. revertible (e_kec env) s j w \<longrightarrow> j < rid \<and> revertible (e_kec env) s' j w)"
    unfolding evm_ok_def by auto
next
  fix s rid w
  assume ok: "evm_ok env s" and rv: "revertible (e_kec env) s rid w"
  note s = evm_okD [OF ok]
  from Revert_ok [OF s(4) rv] obtain s' where s': "State_RevertToSnapshot (e_kec env) rid s = Ret s'" "state_ok (e_kec env) s'"
    "world (e_kec env) s' = w" "\<forall>j v. j < rid \<longrightarrow> revertible (e_kec env) s j v \<longrightarrow> revertible (e_kec env) s' j v" by (elim exE conjE) (rule that)
  have "db_RevertToSnapshot (e_db env) s rid = Ret s'" unfolding s(1) by (simp add: state_ops_def s'(1))
  moreover have "evm_ok env s'" using ok s'(2) by (simp add: evm_ok_def)
  ultimately show "\<exists>s'. db_RevertToSnapshot (e_db env) s rid = Ret s' \<and> evm_ok env s' \<and> world (e_kec env) s' = w \<and>
      (\<forall>j v. j < rid \<longrightarrow> revertible (e_kec env) s j v \<longrightarrow> revertible (e_kec env) s' j v)"
    using s'(3,4) by (intro exI [of _ s'] conjI)
qed

end
