(* ===== verification/Spec2Isabelle.thy ===== *)
theory Spec2Isabelle
  imports Rlp_Safety Dpos_Liveness Evm_Properties
begin

text \<open>
  A verification library for the bgmchain node, a chain with delegated proof of stake.

  \<^bold>\<open>The program.\<close>  A node keeps the state of the chain in Merkle tries, whose nodes are encoded in RLP and
  stored under their hash.  Blocks carry the roots of the state trie and of the five tries of the DPoS
  context.  The consensus engine verifies headers and seals, counts the blocks that validators mint
  and, at the end of an epoch, elects the next validators from the votes in the DPoS context.  The
  transactions of a block are executed by a virtual machine with gas metering on a state database,
  which caches accounts, journals every change and reverts to snapshots.

  \<^bold>\<open>Conventions.\<close>  \<open>Prelude\<close> fixes them: a byte slice is a list of 8-bit words, fixed-width integers are
  words and wrap around, \<open>big.Int\<close> is \<open>int\<close>, a Go call that returns a value or an error is \<open>'e + 'a\<close>,
  and one that may panic returns \<open>go\<close> (\<open>Ret\<close> or \<open>Panic\<close>).  Index and slice expressions whose bounds matter are
  checked by the definitions.  Functions that change an object take it and return it changed.
  Loops that the code does not bound are partial functions whose value \<open>None\<close> means that they do not
  return; the properties show that they do.

  \<^bold>\<open>RLP\<close> (\<open>src/rlp\<close>).
  \<^item> \<open>Rlp_Encode\<close>: the encode buffer and the writers of \<open>encode.go\<close>; \<open>EncodeToBytes\<close> produces the recursive
    encoding \<open>rlp_encode\<close>.
  \<^item> \<open>Rlp_Raw\<close>: \<open>raw.go\<close>; what \<open>Split\<close> accepts, and the inputs on which the functions panic.
  \<^item> \<open>Rlp_Stream\<close>: the \<open>Stream\<close> and the decoders of \<open>decode.go\<close>, on an input of known length as
    \<open>DecodeBytes\<close> sets it up.  \<open>Rlp_Decode\<close>: the locale \<open>elem_codec\<close> is the contract between a decoder
    and an encoding; it is interpreted for byte slices, addresses, hashes, integers and booleans, and gives
    the decoder of lists once.  \<open>Rlp_Safety\<close>: the stream as a state machine with its invariant.

  \<^bold>\<open>Merkle tries\<close> (\<open>src/trie\<close>).
  \<^item> \<open>Trie_Encoding\<close> (\<open>encoding.go\<close>), \<open>Trie_Node\<close> (\<open>node.go\<close>), \<open>Merkle_Trie\<close> (\<open>trie.go\<close>), \<open>Trie_Hasher\<close>
    (\<open>hasher.go\<close> and the commits of \<open>trie.go\<close>), \<open>Trie_Iterator\<close> (\<open>iterator.go\<close>), \<open>Secure_Trie\<close>
    (\<open>secure_trie.go\<close>).
  \<^item> \<open>Trie_Semantics\<close> defines what a trie holds by the paths of its nodes and when it is canonical;
    \<open>Trie_Refine\<close> and \<open>Trie_Map\<close> show that the operations refine a map, through the locales
    \<open>kv_store\<close> and \<open>canonical_store\<close> of \<open>Kv_Store\<close>; \<open>Trie_Enumerate\<close> that iteration visits every entry with a
    prefix once and in order.
  \<^item> Fuel: a path reads the database at most once per nibble, so the operations of the trie bound
    these reads by the length of the key (\<open>tryGet_wf\<close>, \<open>insert_wf\<close>, \<open>delete_wf\<close>).

  \<^bold>\<open>Delegated proof of stake.\<close>
  \<^item> \<open>Dpos_Context\<close> (\<open>src/core/types/dpos_context.go\<close>): the five tries and their operations.
    \<open>Delegation\<close> is the contract of a register of candidates and votes, and \<open>Dpos_Refine\<close> interprets it.
  \<^item> \<open>Epoch_Context\<close> (\<open>src/consensus/dpos/epoch_context.go\<close>) and \<open>Go_Lib\<close> (sorting, integers as bytes, the
    string of an address): counting votes, kicking out and electing; \<open>Epoch_Election\<close> has the lemmas,
    \<open>Dpos_Properties\<close> the properties of register and elections.
  \<^item> \<open>Dpos_Engine\<close> (\<open>src/consensus/dpos/dpos.go\<close>, \<open>api.go\<close>, \<open>src/consensus/misc/forks.go\<close>): headers,
    seals, confirmation, preparing, finalizing and sealing.  \<open>Dpos_Safety\<close>: accepted batches are chains,
    seals verify, confirmed blocks have enough validators.  \<open>Dpos_Liveness\<close>: mint counts, and a chain with
    enough candidates can always be extended.
  \<^item> \<open>Block_Types\<close> (\<open>src/core/types/block.go\<close>, \<open>derive_sha.go\<close>), \<open>Log_Bloom\<close> (\<open>bloom9.go\<close>), \<open>Chain_Config\<close>
    (\<open>src/params/config.go\<close>, \<open>gas_table.go\<close>), \<open>Common_Types\<close> (\<open>src/common/types.go\<close>).

  \<^bold>\<open>The state\<close> (\<open>src/core/state\<close>).
  \<^item> \<open>State_Object\<close> (\<open>state_object.go\<close>, \<open>database.go\<close>, the entries of \<open>journal.go\<close>) and \<open>State_Db\<close>
    (\<open>statedb.go\<close>, \<open>journal.go\<close>).
  \<^item> \<open>State_View\<close> defines the world a state shows; \<open>State_Journal\<close>, \<open>State_Ops\<close> and \<open>State_Snapshots\<close>
    show what every operation does to the world and that the journal undoes it; \<open>State_Reverts\<close> has the
    properties, over any sequence of operations.

  \<^bold>\<open>The virtual machine\<close> (\<open>src/core/vm\<close>).
  \<^item> \<open>Go_Math\<close> (\<open>src/common/math\<close>), \<open>Evm_Base\<close> (\<open>stack.go\<close>, \<open>memory.go\<close>, \<open>common.go\<close>, \<open>stack_table.go\<close>,
    \<open>memory_table.go\<close>), \<open>Evm_Analysis\<close> (\<open>analysis.go\<close>), \<open>Evm_Types\<close> (\<open>contract.go\<close>, \<open>interface.go\<close>),
    \<open>Evm_Gas\<close> (\<open>gas.go\<close>, \<open>gas_table.go\<close>), \<open>Evm_Calls\<close> (\<open>contracts.go\<close>, \<open>evm.go\<close>), \<open>Evm_Instructions\<close>
    (\<open>instructions.go\<close>), \<open>Evm_Jump_Table\<close> (\<open>opcodes.go\<close>, \<open>jump_table.go\<close>), \<open>Evm_Interpreter\<close>
    (\<open>interpreter.go\<close>).
  \<^item> \<open>Evm_Frame\<close> and \<open>Evm_Termination\<close>: every round of the interpreter consumes gas and a call passes on less
    than it costs, so the machine stops.
  \<^item> \<open>Evm_Contract\<close>: the locale \<open>evm_state\<close> is the contract of the interface \<open>StateDB\<close>.  \<open>Evm_Memory\<close>,
    \<open>Evm_Safe\<close>, \<open>Evm_Steps\<close>, \<open>Evm_Precompiles\<close>, \<open>Evm_Call_Safety\<close>, \<open>Evm_Call_Steps\<close> and \<open>Evm_Soundness\<close>
    show from it that every instruction, native contract, call and creation keeps a frame well
    typed and does not panic.
  \<^item> \<open>State_Evm\<close> interprets the contract on the state database, with the transfers of \<open>src/core/evm.go\<close>, and
    \<open>Evm_Properties\<close> states the properties of the machine of the program.
  \<^item> Bounds: frames nest to depth 1025 and calls are run with \<open>run_levels\<close> = 1026 levels, of which the last
    refuses every call; gas is below $2^{62}$, which keeps memory below $2^{40}$ bytes and code below
    $2^{41}$, and above which the native modular exponentiation can panic (\<open>bigModExp_panics\<close>); all money
    together fits 256 bits.

  \<^bold>\<open>Parameters.\<close>  Hash functions, signatures, the native cryptography, \<open>math/rand\<close>, the clock, the databases, the
  chain reader and the iteration order of Go's maps are arguments.  What is assumed of them stands in the
  statements: the lengths of hashes, that recovering a signature gives its signer, and for the virtual
  machine that codes with the same hash have the same length, because the cache of jump destinations is
  keyed by the hash.  Statements about hashes of headers and tries do not assume that hashes are
  injective; they name the collision instead, or speak about the content.

  \<^bold>\<open>Not modelled.\<close>  Buying and refunding gas around the call of a transaction and the dispatch of DPoS
  messages (\<open>src/core/state_transition.go\<close>, \<open>state_processor.go\<close>); transactions and receipts beyond their use as
  encoded list elements; importing blocks and the transaction pool, which are caches, locks and events
  around the modelled validation; reflection in the RLP codec, unlimited RLP readers, \<open>NewListStream\<close>,
  \<open>Reset\<close> and \<open>Stream.Raw\<close>; trie proofs and synchronisation; difference and union iterators; JSON and text
  forms; tracing and the pool of integers in the virtual machine, which have no effect on the
  results; the proof-of-work and proof-of-authority engines; networking, light clients, wallets, remote
  procedure calls, commands, swarm and whisper, which are input and output or services beside the chain.
\<close>

end
